(* ===== verification/Prelude.thy ===== *)
theory Prelude
  imports Main "HOL-Library.AList" "HOL-Library.Sublist" "HOL-Library.Char_ord"
begin

text \<open>
  Shared base of the development.  It holds

  \<^item> the values every component passes around: the HTTP errors the services throw, results
    as sums, JavaScript insertion-ordered maps as association lists;
  \<^item> the generic lemmas the component proofs share (order-keeping deduplication, updates
    and deletions of association lists, joins of strings);
  \<^item> the interfaces (locales) that several components implement: a table of rows with a
    primary key (what the services use of their SQLite repositories) and a state machine
    with an invariant.

  JavaScript numbers are modelled as \<open>int\<close>: every number the modelled code computes with is
  an integral time stamp, counter, size or rank far below \<open>2^53\<close>.
\<close>

section \<open>Automation\<close>

named_theorems access_simps \<open>unfolding rules of the access-control checks\<close>
named_theorems step_simps \<open>unfolding rules of the state-machine steps\<close>

section \<open>Errors and results\<close>

text \<open>
  A thrown Nest exception is its status, the optional \<open>code\<close> field of its payload, its message
  and the numeric extra fields of the payload (\<open>retryAfter\<close>, \<open>attemptsLeft\<close>).  A plain
  \<open>Error\<close> is \<open>Internal\<close>.
\<close>

datatype http_status =
    BadRequest | Unauthorized | Forbidden | NotFound | Conflict | TooManyRequests | Internal
  | ServiceUnavailable | GatewayTimeout

datatype api_error =
  ApiError (err_status: http_status) (err_code: "string option") (err_msg: string)
    (err_info: "(string \<times> int) list")

type_synonym 'a result = "api_error + 'a"

abbreviation fail :: "http_status \<Rightarrow> string \<Rightarrow> 'a result" where
  "fail st msg \<equiv> Inl (ApiError st None msg [])"

abbreviation fail_code :: "http_status \<Rightarrow> string \<Rightarrow> string \<Rightarrow> 'a result" where
  "fail_code st code msg \<equiv> Inl (ApiError st (Some code) msg [])"

abbreviation fail_info :: "http_status \<Rightarrow> string \<Rightarrow> string \<Rightarrow> (string \<times> int) list \<Rightarrow> 'a result" where
  "fail_info st code msg info \<equiv> Inl (ApiError st (Some code) msg info)"

text \<open>Sequencing of throwing code: the continuation runs only when nothing was thrown.\<close>

fun and_then :: "'e + 'a \<Rightarrow> ('a \<Rightarrow> 'e + 'b) \<Rightarrow> 'e + 'b" where
  "and_then (Inl e) k = Inl e"
| "and_then (Inr x) k = k x"

lemma and_then_Inr_iff:
  "and_then r k = Inr y \<longleftrightarrow> (\<exists>x. r = Inr x \<and> k x = Inr y)"
  by (cases r) auto

lemma and_then_Inl_iff:
  "and_then r k = Inl e \<longleftrightarrow> r = Inl e \<or> (\<exists>x. r = Inr x \<and> k x = Inl e)"
  by (cases r) auto

definition is_ok :: "'e + 'a \<Rightarrow> bool" where
  "is_ok r = (case r of Inl _ \<Rightarrow> False | Inr _ \<Rightarrow> True)"

lemma is_ok_simps [simp]: "is_ok (Inr x)" "\<not> is_ok (Inl e)"
  by (simp_all add: is_ok_def)

lemma is_ok_iff: "is_ok r \<longleftrightarrow> (\<exists>x. r = Inr x)"
  by (cases r) auto

section \<open>Strings\<close>

text \<open>\<open>xs.join(sep)\<close>.\<close>

fun join :: "'a list \<Rightarrow> 'a list list \<Rightarrow> 'a list" where
  "join sep [] = []"
| "join sep [x] = x"
| "join sep (x # y # ys) = x @ sep @ join sep (y # ys)"

lemma join_Cons: "join sep (x # ys) = x @ (if ys = [] then [] else sep @ join sep ys)"
  by (cases ys) auto

text \<open>\<open>s.split(c)\<close> for a one-character separator: always at least one part.\<close>

fun split_on :: "'a \<Rightarrow> 'a list \<Rightarrow> 'a list list" where
  "split_on c [] = [[]]"
| "split_on c (x # xs) =
     (if x = c then [] # split_on c xs
      else (case split_on c xs of [] \<Rightarrow> [[x]] | p # ps \<Rightarrow> (x # p) # ps))"

lemma split_on_not_Nil [simp]: "split_on c xs \<noteq> []"
  by (induction xs) (auto split: list.splits)

lemma join_split_on: "join [c] (split_on c xs) = xs"
proof (induction xs)
  case Nil
  then show ?case by simp
next
  case (Cons x xs)
  then show ?case by (cases "split_on c xs") (auto simp: join_Cons)
qed

lemma split_on_no_sep: "p \<in> set (split_on c xs) \<Longrightarrow> c \<notin> set p"
  by (induction xs arbitrary: p) (auto split: list.splits if_splits)

lemma split_on_absent [simp]: "c \<notin> set xs \<Longrightarrow> split_on c xs = [xs]"
  by (induction xs) auto

lemma split_on_append_sep:
  "c \<notin> set p \<Longrightarrow> split_on c (p @ c # xs) = p # split_on c xs"
  by (induction p) auto

lemma split_on_join:
  assumes "ps \<noteq> []" and "\<forall>p \<in> set ps. c \<notin> set p"
  shows "split_on c (join [c] ps) = ps"
  using assms
proof (induction ps)
  case Nil
  then show ?case by simp
next
  case (Cons p ps)
  then show ?case by (cases "ps = []") (auto simp: join_Cons split_on_append_sep)
qed

text \<open>
  A JavaScript string is a list of code units; a \<^typ>\<open>char\<close> is a code unit below 256
  (Latin-1).  \<open>toLowerCase\<close> and the white space of \<open>trim\<close> are exact on that range.
\<close>

definition lower_char :: "char \<Rightarrow> char" where
  "lower_char c =
     (let n = (of_char c :: nat) in
      if 65 \<le> n \<and> n \<le> 90 \<or> 192 \<le> n \<and> n \<le> 222 \<and> n \<noteq> 215 then char_of (n + 32) else c)"

definition to_lower :: "string \<Rightarrow> string" where
  "to_lower s = map lower_char s"

definition is_space :: "char \<Rightarrow> bool" where
  "is_space c = (let n = (of_char c :: nat) in 9 \<le> n \<and> n \<le> 13 \<or> n = 32 \<or> n = 160)"

definition trim_start :: "string \<Rightarrow> string" where
  "trim_start s = dropWhile is_space s"

definition trim_end :: "string \<Rightarrow> string" where
  "trim_end s = rev (dropWhile is_space (rev s))"

definition trim :: "string \<Rightarrow> string" where
  "trim s = trim_end (trim_start s)"

lemma trim_id:
  assumes "s \<noteq> []" and "\<not> is_space (hd s)" and "\<not> is_space (last s)"
  shows "trim s = s"
proof -
  have "trim_start s = s" using assms(1,2) by (cases s) (simp_all add: trim_start_def)
  moreover have "trim_end s = s" using assms(1,3)
    by (cases s rule: rev_cases) (simp_all add: trim_end_def)
  ultimately show ?thesis by (simp add: trim_def)
qed

text \<open>\<open>s.split(sep)\<close> for a separator of any positive length.\<close>

function (sequential) split_str :: "'a list \<Rightarrow> 'a list \<Rightarrow> 'a list list" where
  "split_str sep [] = [[]]"
| "split_str sep (x # xs) =
     (if sep \<noteq> [] \<and> prefix sep (x # xs) then [] # split_str sep (drop (length sep) (x # xs))
      else (case split_str sep xs of [] \<Rightarrow> [[x]] | p # ps \<Rightarrow> (x # p) # ps))"
  by pat_completeness auto
termination
  by (relation "measure (\<lambda>(sep, xs). length xs)") (auto simp: Suc_le_eq)

lemma split_str_not_Nil [simp]: "split_str sep xs \<noteq> []"
  by (cases xs) (auto split: list.splits)

lemma split_str_absent:
  "\<forall>ys zs. xs \<noteq> ys @ sep @ zs \<Longrightarrow> split_str sep xs = [xs]"
proof (induction sep xs rule: split_str.induct)
  case (1 sep)
  then show ?case by simp
next
  case (2 sep x xs)
  from "2.prems" have np: "\<not> prefix sep (x # xs)" by (auto simp: prefix_def) (metis append_Nil)
  have "\<forall>ys zs. xs \<noteq> ys @ sep @ zs" using "2.prems" by (metis append_Cons)
  with np "2.IH"(2) show ?case by auto
qed

text \<open>\<open>s.indexOf(sub)\<close>: the first position where \<open>sub\<close> occurs.\<close>

fun index_of :: "'a list \<Rightarrow> 'a list \<Rightarrow> nat option" where
  "index_of sub [] = (if sub = [] then Some 0 else None)"
| "index_of sub (x # xs) =
     (if prefix sub (x # xs) then Some 0 else map_option Suc (index_of sub xs))"

lemma index_of_Some:
  "index_of sub s = Some i \<Longrightarrow>
     i \<le> length s \<and> prefix sub (drop i s) \<and> (\<forall>j < i. \<not> prefix sub (drop j s))"
proof (induction s arbitrary: i)
  case Nil
  then show ?case by (auto split: if_splits)
next
  case (Cons x xs)
  show ?case
  proof (cases "prefix sub (x # xs)")
    case True
    with Cons.prems show ?thesis by auto
  next
    case False
    with Cons.prems obtain k where k: "index_of sub xs = Some k" and i: "i = Suc k" by auto
    from Cons.IH [OF k] False i show ?thesis by (auto simp: less_Suc_eq_0_disj)
  qed
qed

lemma index_of_None:
  "index_of sub s = None \<Longrightarrow> j \<le> length s \<Longrightarrow> \<not> prefix sub (drop j s)"
proof (induction s arbitrary: j)
  case Nil
  then show ?case by (auto split: if_splits)
next
  case (Cons x xs)
  then show ?case by (cases j) (auto split: if_splits)
qed

text \<open>Decimal notation of a counter, as in a template string.\<close>

fun digits :: "nat \<Rightarrow> string" where
  "digits n = (if n < 10 then [char_of (48 + n)] else digits (n div 10) @ [char_of (48 + n mod 10)])"

declare digits.simps [simp del]

lemma digits_inj: "digits m = digits n \<Longrightarrow> m = n"
proof (induction m arbitrary: n rule: digits.induct)
  case (1 m)
  have val: "of_char (char_of (48 + k mod 10) :: char) = 48 + k mod (10::nat)" for k :: nat
  proof -
    have "48 + k mod 10 < 256" using mod_less_divisor [of 10 k] by linarith
    then show ?thesis by (simp add: of_char_of)
  qed
  have nempty: "digits k \<noteq> []" for k by (subst digits.simps) auto
  have last: "last (digits k) = char_of (48 + k mod 10)" for k :: nat
    by (subst digits.simps) auto
  from "1.prems" have "(char_of (48 + m mod 10) :: char) = char_of (48 + n mod 10)"
    by (metis last)
  then have mod: "m mod 10 = n mod 10" using val by (metis add_left_cancel)
  show ?case
  proof (cases "m < 10")
    case True
    then have "length (digits m) = 1" by (subst digits.simps) simp
    with "1.prems" have "length (digits n) = 1" by simp
    then have "n < 10" using nempty [of "n div 10"]
      by (subst (asm) digits.simps) (auto split: if_splits)
    with True mod show ?thesis by simp
  next
    case False
    then have dm: "digits m = digits (m div 10) @ [char_of (48 + m mod 10)]"
      by (subst digits.simps) simp
    have "\<not> n < 10"
    proof
      assume "n < 10"
      then have "length (digits n) = 1" by (subst digits.simps) simp
      then have "length (digits m) = 1" using "1.prems" by simp
      with dm nempty [of "m div 10"] show False by simp
    qed
    then have dn: "digits n = digits (n div 10) @ [char_of (48 + n mod 10)]"
      by (subst digits.simps) simp
    from "1.prems" dm dn have "digits (m div 10) = digits (n div 10)" by simp
    with "1.IH" [OF False] have "m div 10 = n div 10" by blast
    with mod show ?thesis by (metis div_mult_mod_eq)
  qed
qed

text \<open>Reading decimal digits back.\<close>

definition is_digit :: "char \<Rightarrow> bool" where
  "is_digit c \<longleftrightarrow> 48 \<le> (of_char c :: nat) \<and> (of_char c :: nat) \<le> 57"

definition dec_value :: "string \<Rightarrow> nat" where
  "dec_value s = foldl (\<lambda>a c. a * 10 + (of_char c - 48)) 0 s"

lemma of_char_digit: "n < 10 \<Longrightarrow> (of_char (char_of (48 + n) :: char) :: nat) = 48 + n"
  by (simp add: of_char_of)

lemma digit_not_space: "is_digit c \<Longrightarrow> \<not> is_space c"
  by (auto simp: is_digit_def is_space_def Let_def)

lemma is_digit_char [simp]: "(n::nat) < 10 \<Longrightarrow> is_digit (char_of (48 + n))"
  by (simp add: is_digit_def of_char_digit)

lemma digits_digits [simp]: "list_all is_digit (digits n)"
proof (induction n rule: digits.induct)
  case (1 n)
  show ?case
  proof (cases "n < 10")
    case True
    then show ?thesis by (subst digits.simps) simp
  next
    case False
    with "1.IH" show ?thesis by (subst digits.simps) simp
  qed
qed

lemma dec_value_snoc: "dec_value (s @ [c]) = dec_value s * 10 + (of_char c - 48)"
  by (simp add: dec_value_def)

lemma dec_value_digits [simp]: "dec_value (digits n) = n"
proof (induction n rule: digits.induct)
  case (1 n)
  show ?case
  proof (cases "n < 10")
    case True
    then show ?thesis by (subst digits.simps) (simp add: dec_value_def of_char_digit)
  next
    case False
    with "1.IH" show ?thesis by (subst digits.simps) (simp add: dec_value_snoc of_char_digit)
  qed
qed

lemma dec_value_zeros: "dec_value (replicate k CHR ''0'' @ s) = dec_value s"
  by (induction k) (simp_all add: dec_value_def)

lemma digits_length_le: "n < 10 ^ k \<Longrightarrow> 0 < k \<Longrightarrow> length (digits n) \<le> k"
proof (induction n arbitrary: k rule: digits.induct)
  case (1 n)
  show ?case
  proof (cases "n < 10")
    case True
    with "1.prems" show ?thesis by (subst digits.simps) simp
  next
    case False
    with "1.prems" obtain j where k: "k = Suc j" and j: "0 < j" by (cases k; cases "k - 1") auto
    from "1.prems" k have "n div 10 < 10 ^ j" by (simp add: less_mult_imp_div_less mult.commute)
    from "1.IH" [OF False this j] False k show ?thesis by (subst digits.simps) simp
  qed
qed

lemma digits_length_ge: "10 ^ k \<le> n \<Longrightarrow> k < length (digits n)"
proof (induction n arbitrary: k rule: digits.induct)
  case (1 n)
  show ?case
  proof (cases "n < 10")
    case True
    have *: "(10::nat) ^ Suc j \<ge> 10" for j by simp
    have "k = 0"
    proof (rule ccontr)
      assume "k \<noteq> 0"
      then obtain j where k: "k = Suc j" by (cases k) auto
      from "1.prems" have "10 ^ Suc j \<le> n" unfolding k .
      with True * [of j] show False by linarith
    qed
    then show ?thesis by (subst digits.simps) simp
  next
    case False
    show ?thesis
    proof (cases k)
      case 0
      then show ?thesis by (subst digits.simps) simp
    next
      case (Suc j)
      with "1.prems" have "10 ^ j \<le> n div 10" by (simp add: less_eq_div_iff_mult_less_eq mult.commute)
      from "1.IH" [OF False this] False Suc show ?thesis by (subst digits.simps) simp
    qed
  qed
qed

section \<open>Deduplication in order\<close>

text \<open>\<open>[...new Set(xs)]\<close> keeps the first occurrence of every element, in order.\<close>

fun uniq :: "'a list \<Rightarrow> 'a list" where
  "uniq [] = []"
| "uniq (x # xs) = x # filter (\<lambda>y. y \<noteq> x) (uniq xs)"

lemma set_uniq [simp]: "set (uniq xs) = set xs"
  by (induction xs) auto

lemma distinct_uniq [simp]: "distinct (uniq xs)"
  by (induction xs) auto

lemma uniq_distinct [simp]: "distinct xs \<Longrightarrow> uniq xs = xs"
  by (induction xs) (auto intro!: filter_True)

lemma uniq_idem: "uniq (uniq xs) = uniq xs"
  by simp

lemma subseq_uniq: "subseq (uniq xs) xs"
proof (induction xs)
  case Nil
  then show ?case by simp
next
  case (Cons x xs)
  have "subseq (filter (\<lambda>y. y \<noteq> x) (uniq xs)) (uniq xs)" by (rule subseq_filter_left)
  with Cons have "subseq (filter (\<lambda>y. y \<noteq> x) (uniq xs)) xs"
    by (blast intro: subseq_order.order_trans)
  then show ?case by simp
qed

section \<open>Insertion-ordered maps\<close>

text \<open>
  A JavaScript \<open>Map\<close> (or a plain object with string keys) is an association list in insertion
  order with distinct keys: \<open>get\<close> is \<^term>\<open>map_of\<close>, \<open>set\<close> is \<^term>\<open>AList.update\<close> (in place for
  a present key, at the end for a new one), \<open>delete\<close> is \<^term>\<open>AList.delete\<close>.
\<close>

type_synonym ('k, 'v) jsmap = "('k \<times> 'v) list"

abbreviation jget :: "('k, 'v) jsmap \<Rightarrow> 'k \<Rightarrow> 'v option" where "jget m k \<equiv> map_of m k"
abbreviation jset :: "('k, 'v) jsmap \<Rightarrow> 'k \<Rightarrow> 'v \<Rightarrow> ('k, 'v) jsmap" where
  "jset m k v \<equiv> AList.update k v m"
abbreviation jdel :: "('k, 'v) jsmap \<Rightarrow> 'k \<Rightarrow> ('k, 'v) jsmap" where
  "jdel m k \<equiv> AList.delete k m"
abbreviation jhas :: "('k, 'v) jsmap \<Rightarrow> 'k \<Rightarrow> bool" where "jhas m k \<equiv> jget m k \<noteq> None"
abbreviation jkeys :: "('k, 'v) jsmap \<Rightarrow> 'k list" where "jkeys m \<equiv> map fst m"

definition jsmap_ok :: "('k, 'v) jsmap \<Rightarrow> bool" where
  "jsmap_ok m \<longleftrightarrow> distinct (jkeys m)"

lemma jget_jset [simp]: "jget (jset m k v) k' = (if k' = k then Some v else jget m k')"
  by (simp add: update_conv')

lemma jget_jdel [simp]: "jget (jdel m k) k' = (if k' = k then None else jget m k')"
  by (simp add: delete_conv')

lemma jsmap_ok_Nil [simp, intro]: "jsmap_ok []"
  by (simp add: jsmap_ok_def)

lemma jsmap_ok_jset [simp, intro]: "jsmap_ok m \<Longrightarrow> jsmap_ok (jset m k v)"
  by (simp add: jsmap_ok_def distinct_update)

lemma jsmap_ok_jdel [simp, intro]: "jsmap_ok m \<Longrightarrow> jsmap_ok (jdel m k)"
  by (simp add: jsmap_ok_def distinct_delete)

lemma jsmap_ok_filter [simp, intro]: "jsmap_ok m \<Longrightarrow> jsmap_ok (filter P m)"
  by (simp add: jsmap_ok_def distinct_map_filter)

lemma jsmap_ok_in_iff: "jsmap_ok m \<Longrightarrow> (k, v) \<in> set m \<longleftrightarrow> jget m k = Some v"
  by (auto simp: jsmap_ok_def)

lemma jget_filter:
  "jsmap_ok m \<Longrightarrow>
   jget (filter P m) k = (case jget m k of None \<Rightarrow> None | Some v \<Rightarrow> if P (k, v) then Some v else None)"
proof (induction m)
  case Nil
  then show ?case by simp
next
  case (Cons p m)
  obtain k0 v0 where p: "p = (k0, v0)" by (cases p)
  have "k0 = k \<Longrightarrow> jget m k = None" "k0 = k \<Longrightarrow> jget (filter P m) k = None"
    using Cons.prems p by (auto simp: jsmap_ok_def map_of_eq_None_iff)
  moreover have "jsmap_ok m" using Cons.prems by (simp add: jsmap_ok_def)
  ultimately show ?case using Cons.IH p by (auto split: option.splits)
qed

section \<open>Rows with a primary key\<close>

text \<open>
  What the services rely on in a repository over one table: rows are found by their primary
  key, a written row is read back, other rows are untouched.  \<open>upd\<close> is an
  \<open>UPDATE ... WHERE id = ?\<close>: it does nothing when no row has the key, and \<open>patch r x\<close> is the
  stored row \<open>x\<close> with the columns the statement sets taken from \<open>r\<close>.
\<close>

locale table =
  fixes key :: "'row \<Rightarrow> 'id"
    and patch :: "'row \<Rightarrow> 'row \<Rightarrow> 'row"
    and find :: "'id \<Rightarrow> 'tbl \<Rightarrow> 'row option"
    and ins :: "'row \<Rightarrow> 'tbl \<Rightarrow> 'tbl"
    and upd :: "'row \<Rightarrow> 'tbl \<Rightarrow> 'tbl"
    and del :: "'id \<Rightarrow> 'tbl \<Rightarrow> 'tbl"
    and keys_ok :: "'tbl \<Rightarrow> bool"
  assumes find_key: "find i t = Some r \<Longrightarrow> key r = i"
    and find_ins: "find (key r) t = None \<Longrightarrow>
          find i (ins r t) = (if i = key r then Some r else find i t)"
    and find_upd: "find i (upd r t) =
          (if i = key r then map_option (patch r) (find i t) else find i t)"
    and find_del: "keys_ok t \<Longrightarrow> find i (del j t) = (if i = j then None else find i t)"
    and keys_ok_ins: "keys_ok t \<Longrightarrow> find (key r) t = None \<Longrightarrow> keys_ok (ins r t)"
    and keys_ok_upd: "keys_ok t \<Longrightarrow> keys_ok (upd r t)"
    and keys_ok_del: "keys_ok t \<Longrightarrow> keys_ok (del i t)"
begin

lemma find_upd_same: "find (key r) t = Some x \<Longrightarrow> find (key r) (upd r t) = Some (patch r x)"
  by (simp add: find_upd)

lemma find_upd_other: "i \<noteq> key r \<Longrightarrow> find i (upd r t) = find i t"
  by (simp add: find_upd)

lemma upd_absent_invisible: "find (key r) t = None \<Longrightarrow> find i (upd r t) = find i t"
  by (auto simp: find_upd)

lemma find_upd_dom: "find i (upd r t) = None \<longleftrightarrow> find i t = None"
  by (auto simp: find_upd)

lemma del_ins_invisible:
  "keys_ok t \<Longrightarrow> find (key r) t = None \<Longrightarrow> find i (del (key r) (ins r t)) = find i t"
  by (simp add: find_del find_ins keys_ok_ins)

end

text \<open>Tables as lists of rows, in insertion (rowid) order.\<close>

definition row_find :: "('row \<Rightarrow> 'id) \<Rightarrow> 'id \<Rightarrow> 'row list \<Rightarrow> 'row option" where
  "row_find key i t = List.find (\<lambda>r. key r = i) t"

definition row_insert :: "'row \<Rightarrow> 'row list \<Rightarrow> 'row list" where
  "row_insert r t = t @ [r]"

definition row_patch :: "('row \<Rightarrow> 'id) \<Rightarrow> ('row \<Rightarrow> 'row \<Rightarrow> 'row) \<Rightarrow> 'row \<Rightarrow> 'row list \<Rightarrow> 'row list" where
  "row_patch key patch r t = map (\<lambda>x. if key x = key r then patch r x else x) t"

definition row_delete :: "('row \<Rightarrow> 'id) \<Rightarrow> 'id \<Rightarrow> 'row list \<Rightarrow> 'row list" where
  "row_delete key i t = filter (\<lambda>r. key r \<noteq> i) t"

definition rows_ok :: "('row \<Rightarrow> 'id) \<Rightarrow> 'row list \<Rightarrow> bool" where
  "rows_ok key t \<longleftrightarrow> distinct (map key t)"

lemma row_find_simps [simp]:
  "row_find key i [] = None"
  "row_find key i (r # t) = (if key r = i then Some r else row_find key i t)"
  by (simp_all add: row_find_def)

lemma row_find_append:
  "row_find key i (t @ u) = (case row_find key i t of None \<Rightarrow> row_find key i u | Some r \<Rightarrow> Some r)"
  by (induction t) auto

lemma row_find_Some_in: "row_find key i t = Some r \<Longrightarrow> r \<in> set t \<and> key r = i"
  by (induction t) (auto split: if_splits)

lemma row_find_None_iff: "row_find key i t = None \<longleftrightarrow> i \<notin> key ` set t"
  by (induction t) auto

lemma row_find_in: "rows_ok key t \<Longrightarrow> r \<in> set t \<Longrightarrow> row_find key (key r) t = Some r"
  by (induction t) (auto simp: rows_ok_def)

lemma row_find_filter:
  "rows_ok key t \<Longrightarrow>
   row_find key i (filter P t) =
     (case row_find key i t of None \<Rightarrow> None | Some r \<Rightarrow> if P r then Some r else None)"
proof (induction t)
  case Nil
  then show ?case by simp
next
  case (Cons r t)
  then have t: "rows_ok key t" and "key r \<notin> key ` set t" by (auto simp: rows_ok_def)
  then have "key r = i \<Longrightarrow> row_find key i t = None" by (auto simp: row_find_None_iff)
  with Cons.IH [OF t] show ?case by auto
qed

text \<open>Patching must not move a row to another key.\<close>

definition keeps_key :: "('row \<Rightarrow> 'id) \<Rightarrow> ('row \<Rightarrow> 'row \<Rightarrow> 'row) \<Rightarrow> bool" where
  "keeps_key key patch \<longleftrightarrow> (\<forall>r x. key x = key r \<longrightarrow> key (patch r x) = key r)"

lemma row_find_patch:
  "keeps_key key patch \<Longrightarrow>
   row_find key i (row_patch key patch r t) =
     (if i = key r then map_option (patch r) (row_find key i t) else row_find key i t)"
  by (induction t) (auto simp: row_patch_def keeps_key_def)

lemma row_key_eq: "rows_ok key t \<Longrightarrow> x \<in> set t \<Longrightarrow> y \<in> set t \<Longrightarrow> key x = key y \<Longrightarrow> x = y"
  unfolding rows_ok_def by (metis distinct_map inj_onD)

lemma rows_ok_filter: "rows_ok key t \<Longrightarrow> rows_ok key (filter P t)"
  by (simp add: rows_ok_def distinct_map_filter)

lemma rows_ok_patch:
  assumes "keeps_key key patch"
  shows "rows_ok key t \<Longrightarrow> rows_ok key (row_patch key patch r t)"
proof -
  have "map key (row_patch key patch r t) = map key t"
    using assms by (induction t) (auto simp: row_patch_def keeps_key_def)
  then show "rows_ok key t \<Longrightarrow> ?thesis" by (simp add: rows_ok_def)
qed

lemma rows_ok_insert: "rows_ok key t \<Longrightarrow> row_find key (key r) t = None \<Longrightarrow> rows_ok key (row_insert r t)"
  by (auto simp: rows_ok_def row_insert_def row_find_None_iff)

lemma table_rows:
  assumes "keeps_key key patch"
  shows "table key patch (row_find key) row_insert (row_patch key patch) (row_delete key) (rows_ok key)"
proof
  fix i t r
  show "row_find key i t = Some r \<Longrightarrow> key r = i" by (blast dest: row_find_Some_in)
  show "row_find key (key r) t = None \<Longrightarrow>
      row_find key i (row_insert r t) = (if i = key r then Some r else row_find key i t)"
    by (auto simp: row_insert_def row_find_append split: option.splits)
qed (auto simp: row_find_patch [OF assms] row_delete_def row_find_filter rows_ok_filter
       rows_ok_patch [OF assms] rows_ok_insert dest: row_find_Some_in split: option.splits)

section \<open>State machines\<close>

text \<open>
  A component whose operations are one step function over an operation type: an invariant
  kept by every step holds after every sequence of operations.
\<close>

definition run :: "('s \<Rightarrow> 'e \<Rightarrow> 's) \<Rightarrow> 's \<Rightarrow> 'e list \<Rightarrow> 's" where
  "run step s es = foldl step s es"

lemma run_simps [simp]:
  "run step s [] = s"
  "run step s (e # es) = run step (step s e) es"
  by (simp_all add: run_def)

lemma run_append: "run step s (es @ fs) = run step (run step s es) fs"
  by (simp add: run_def)

locale machine =
  fixes step :: "'s \<Rightarrow> 'e \<Rightarrow> 's"
    and inv :: "'s \<Rightarrow> bool"
  assumes step_inv: "inv s \<Longrightarrow> inv (step s e)"
begin

lemma run_inv: "inv s \<Longrightarrow> inv (run step s es)"
  by (induction es arbitrary: s) (auto intro: step_inv)

lemma run_prefix_inv: "inv s \<Longrightarrow> prefix fs es \<Longrightarrow> inv (run step s fs)"
  by (rule run_inv)

lemma run_monotone:
  assumes "\<And>s e. inv s \<Longrightarrow> P s \<Longrightarrow> P (step s e)" and "inv s" and "P s"
  shows "P (run step s es)"
  using assms(2,3) by (induction es arbitrary: s) (auto intro: step_inv assms(1))

end

end
