(* ===== verification/Access.thy ===== *)
theory Access
  imports Prelude
begin

text \<open>
  Access levels per area (\<open>shared/access\<close>): the areas and levels, merging and comparing
  access maps, the checks \<open>can\<close>, \<open>reachesServer\<close> and their combinations, the pre-4.2 flat
  permissions and the built-in roles.

  An \<open>AccessMap\<close> (\<open>Partial<Record<AccessArea, AccessLevel>>\<close>) is an insertion-ordered map,
  so \<open>Object.entries\<close> lists it in the source's order.  An absent \<open>isAdmin\<close> is \<open>False\<close> and an
  absent \<open>serversRestrict\<close> is a disabled one: the code only ever reads their truth value.
\<close>

section \<open>Areas and levels\<close>

datatype area =
    AConsole | APower | ASettings | AFiles | AContent | APlayers | ABackups | AScheduler
  | AServers | ANetworks | AAccounts | AAudit | AMonitoring | AJava | AStorages
  | AIntegrations | AAssistant | APanel

fun area_key :: "area \<Rightarrow> string" where
  "area_key AConsole = ''console''"
| "area_key APower = ''power''"
| "area_key ASettings = ''settings''"
| "area_key AFiles = ''files''"
| "area_key AContent = ''content''"
| "area_key APlayers = ''players''"
| "area_key ABackups = ''backups''"
| "area_key AScheduler = ''scheduler''"
| "area_key AServers = ''servers''"
| "area_key ANetworks = ''networks''"
| "area_key AAccounts = ''accounts''"
| "area_key AAudit = ''audit''"
| "area_key AMonitoring = ''monitoring''"
| "area_key AJava = ''java''"
| "area_key AStorages = ''storages''"
| "area_key AIntegrations = ''integrations''"
| "area_key AAssistant = ''assistant''"
| "area_key APanel = ''panel''"

text \<open>\<open>Object.values(AccessArea)\<close>, in declaration order.\<close>

definition all_areas :: "area list" where
  "all_areas = [AConsole, APower, ASettings, AFiles, AContent, APlayers, ABackups, AScheduler,
     AServers, ANetworks, AAccounts, AAudit, AMonitoring, AJava, AStorages, AIntegrations,
     AAssistant, APanel]"

datatype level = LRead | LWrite | LManage

fun level_key :: "level \<Rightarrow> string" where
  "level_key LRead = ''read''"
| "level_key LWrite = ''write''"
| "level_key LManage = ''manage''"

definition access_levels :: "level list" where
  "access_levels = [LRead, LWrite, LManage]"

fun rank :: "level \<Rightarrow> nat" where
  "rank LRead = 1"
| "rank LWrite = 2"
| "rank LManage = 3"

instantiation level :: linorder
begin

definition less_eq_level :: "level \<Rightarrow> level \<Rightarrow> bool" where
  "less_eq_level a b \<longleftrightarrow> rank a \<le> rank b"

definition less_level :: "level \<Rightarrow> level \<Rightarrow> bool" where
  "less_level a b \<longleftrightarrow> rank a < rank b"

instance
proof
  fix a b :: level
  show "a \<le> b \<Longrightarrow> b \<le> a \<Longrightarrow> a = b"
    by (cases a; cases b) (simp_all add: less_eq_level_def)
qed (auto simp: less_eq_level_def less_level_def)

end

lemma level_order_simps [simp]:
  "LRead \<le> l" "l \<le> LManage" "\<not> LWrite \<le> LRead" "\<not> LManage \<le> LRead" "\<not> LManage \<le> LWrite"
  by (cases l; simp add: less_eq_level_def)+

type_synonym access_map = "(area, level) jsmap"

fun area_levels :: "area \<Rightarrow> level list" where
  "area_levels AConsole = [LRead, LWrite]"
| "area_levels AServers = [LWrite, LManage]"
| "area_levels AAudit = [LRead, LManage]"
| "area_levels AMonitoring = [LRead]"
| "area_levels AStorages = [LRead, LManage]"
| "area_levels AIntegrations = [LManage]"
| "area_levels AAssistant = [LRead, LManage]"
| "area_levels APanel = [LManage]"
| "area_levels _ = [LRead, LWrite, LManage]"

definition server_areas :: "area list" where
  "server_areas = [AConsole, APower, ASettings, AFiles, AContent, APlayers, ABackups, AScheduler]"

definition panel_areas :: "area list" where
  "panel_areas = filter (\<lambda>a. a \<notin> set server_areas) all_areas"

definition level_at_least :: "level option \<Rightarrow> level \<Rightarrow> bool" where
  "level_at_least l needed = (case l of None \<Rightarrow> False | Some x \<Rightarrow> rank x \<ge> rank needed)"

definition max_level :: "level option \<Rightarrow> level option \<Rightarrow> level option" where
  "max_level a b =
     (case a of None \<Rightarrow> b
      | Some x \<Rightarrow> (case b of None \<Rightarrow> a | Some y \<Rightarrow> if rank x \<ge> rank y then a else b))"

text \<open>
  \<open>mergeAccess(...maps)\<close>: every entry of every map, in order.  A stored level is never
  \<open>undefined\<close>, so \<open>maxLevel(merged[area], level)\<close> is a level.
\<close>

definition merge_entry :: "access_map \<Rightarrow> area \<times> level \<Rightarrow> access_map" where
  "merge_entry merged e =
     (case max_level (jget merged (fst e)) (Some (snd e)) of
        None \<Rightarrow> merged
      | Some l \<Rightarrow> jset merged (fst e) l)"

definition merge_access :: "access_map list \<Rightarrow> access_map" where
  "merge_access maps = foldl (\<lambda>merged m. foldl merge_entry merged m) [] maps"

definition is_access_area :: "string \<Rightarrow> bool" where
  "is_access_area v \<longleftrightarrow> v \<in> set (map area_key all_areas)"

definition is_area_level :: "area \<Rightarrow> string \<Rightarrow> bool" where
  "is_area_level a l \<longleftrightarrow> l \<in> set (map level_key (area_levels a))"

definition access_within :: "access_map \<Rightarrow> access_map \<Rightarrow> bool" where
  "access_within a b = list_all (\<lambda>(area, l). level_at_least (jget b area) l) a"

subsection \<open>Laws of levels and maps\<close>

lemma all_areas_complete [simp]: "a \<in> set all_areas"
  by (cases a) (simp_all add: all_areas_def)

lemma area_key_inj: "area_key a = area_key b \<Longrightarrow> a = b"
  by (cases a; cases b) simp_all

lemma level_at_least_Some [simp]: "level_at_least (Some x) l \<longleftrightarrow> l \<le> x"
  by (simp add: level_at_least_def less_eq_level_def)

lemma level_at_least_None [simp]: "\<not> level_at_least None l"
  by (simp add: level_at_least_def)

lemma level_at_least_mono: "level_at_least x l \<Longrightarrow> k \<le> l \<Longrightarrow> level_at_least x k"
  by (cases x) auto

lemma max_level_simps [simp]:
  "max_level None b = b" "max_level a None = a"
  "max_level (Some x) (Some y) = Some (max x y)"
proof -
  show "max_level None b = b" "max_level a None = a"
    by (simp_all add: max_level_def split: option.splits)
  show "max_level (Some x) (Some y) = Some (max x y)"
    by (cases x; cases y) (simp_all add: max_level_def max_def less_eq_level_def)
qed

lemma level_at_least_max [simp]:
  "level_at_least (max_level a b) l \<longleftrightarrow> level_at_least a l \<or> level_at_least b l"
  by (cases a; cases b) (auto simp: le_max_iff_disj)

lemma jget_merge_entry [simp]:
  "jget (merge_entry m e) a = (if a = fst e then max_level (jget m a) (Some (snd e)) else jget m a)"
  by (cases "jget m (fst e)") (auto simp: merge_entry_def)

lemma jsmap_ok_merge_entry [simp]: "jsmap_ok m \<Longrightarrow> jsmap_ok (merge_entry m e)"
  by (auto simp: merge_entry_def split: option.splits)

text \<open>Levels reached by an access map, as a relation: the abstract view of a map.\<close>

definition grants_level :: "access_map \<Rightarrow> area \<Rightarrow> level \<Rightarrow> bool" where
  "grants_level m a l \<longleftrightarrow> level_at_least (jget m a) l"

text \<open>The same read off the entries, for maps that need not have distinct keys.\<close>

definition entries_grant :: "access_map \<Rightarrow> area \<Rightarrow> level \<Rightarrow> bool" where
  "entries_grant m a l \<longleftrightarrow> (\<exists>k. (a, k) \<in> set m \<and> l \<le> k)"

lemma entries_grant_ok: "jsmap_ok m \<Longrightarrow> entries_grant m a l \<longleftrightarrow> grants_level m a l"
  by (cases "jget m a") (auto simp: entries_grant_def grants_level_def jsmap_ok_in_iff)

lemma foldl_merge_entry:
  "level_at_least (jget (foldl merge_entry acc m) a) l \<longleftrightarrow>
     level_at_least (jget acc a) l \<or> entries_grant m a l"
proof (induction m arbitrary: acc)
  case Nil
  then show ?case by (simp add: entries_grant_def)
next
  case (Cons e m)
  show ?case unfolding foldl.simps Cons.IH
    by (cases e) (auto simp: entries_grant_def)
qed

lemma foldl_merge_maps:
  "level_at_least (jget (foldl (\<lambda>merged m. foldl merge_entry merged m) acc maps) a) l \<longleftrightarrow>
     level_at_least (jget acc a) l \<or> (\<exists>m \<in> set maps. entries_grant m a l)"
  by (induction maps arbitrary: acc) (auto simp: foldl_merge_entry)

lemma jsmap_ok_foldl_merge_entry: "jsmap_ok acc \<Longrightarrow> jsmap_ok (foldl merge_entry acc m)"
  by (induction m arbitrary: acc) auto

lemma jsmap_ok_merge_access [simp]: "jsmap_ok (merge_access maps)"
proof -
  have "jsmap_ok acc \<Longrightarrow> jsmap_ok (foldl (\<lambda>merged m. foldl merge_entry merged m) acc maps)" for acc
    by (induction maps arbitrary: acc) (auto simp: jsmap_ok_foldl_merge_entry)
  then show ?thesis by (simp add: merge_access_def)
qed

lemma merge_access_grants:
  "grants_level (merge_access maps) a l \<longleftrightarrow> (\<exists>m \<in> set maps. entries_grant m a l)"
  by (simp add: merge_access_def grants_level_def foldl_merge_maps)

lemma access_within_iff:
  "access_within a b \<longleftrightarrow> (\<forall>x l. entries_grant a x l \<longrightarrow> grants_level b x l)"
proof
  assume w: "access_within a b"
  have "level_at_least (jget b x) k" if "(x, k) \<in> set a" for x k
    using w that by (auto simp: access_within_def list_all_iff)
  then show "\<forall>x l. entries_grant a x l \<longrightarrow> grants_level b x l"
    by (auto simp: entries_grant_def grants_level_def intro: level_at_least_mono)
next
  assume r: "\<forall>x l. entries_grant a x l \<longrightarrow> grants_level b x l"
  show "access_within a b"
    unfolding access_within_def list_all_iff
  proof clarify
    fix x l assume "(x, l) \<in> set a"
    then have "entries_grant a x l" by (auto simp: entries_grant_def)
    with r show "level_at_least (jget b x) l" by (auto simp: grants_level_def)
  qed
qed

section \<open>The interface of an access order\<close>

text \<open>
  What the account policy relies on: access values are compared by what they grant, a merge
  grants exactly what its parts grant.  Everything the policy proves about staying below
  the actor uses these laws only.
\<close>

locale access_order =
  fixes grants :: "'m \<Rightarrow> 'a \<Rightarrow> 'l \<Rightarrow> bool"
    and within :: "'m \<Rightarrow> 'm \<Rightarrow> bool"
    and merge :: "'m list \<Rightarrow> 'm"
    and ok :: "'m \<Rightarrow> bool"
  assumes within_iff: "ok a \<Longrightarrow> within a b \<longleftrightarrow> (\<forall>x l. grants a x l \<longrightarrow> grants b x l)"
    and merge_iff: "\<forall>m \<in> set ms. ok m \<Longrightarrow> grants (merge ms) x l \<longleftrightarrow> (\<exists>m \<in> set ms. grants m x l)"
    and merge_ok: "ok (merge ms)"
begin

lemma within_refl: "ok a \<Longrightarrow> within a a"
  by (simp add: within_iff)

lemma within_trans: "ok a \<Longrightarrow> ok b \<Longrightarrow> within a b \<Longrightarrow> within b c \<Longrightarrow> within a c"
  by (simp add: within_iff)

lemma part_within_merge: "\<forall>m \<in> set ms. ok m \<Longrightarrow> m \<in> set ms \<Longrightarrow> within m (merge ms)"
  by (auto simp: within_iff merge_iff)

lemma merge_within:
  "\<forall>m \<in> set ms. ok m \<Longrightarrow> within (merge ms) b \<longleftrightarrow> (\<forall>m \<in> set ms. within m b)"
  by (auto simp: within_iff merge_iff merge_ok)

lemma merge_mono:
  "\<forall>m \<in> set ms. ok m \<Longrightarrow> \<forall>m \<in> set ns. ok m \<Longrightarrow> set ms \<subseteq> set ns \<Longrightarrow> within (merge ms) (merge ns)"
  by (auto simp: within_iff merge_iff merge_ok)

end

interpretation acc: access_order grants_level access_within merge_access jsmap_ok
proof
  fix a b :: access_map
  show "jsmap_ok a \<Longrightarrow> access_within a b = (\<forall>x l. grants_level a x l \<longrightarrow> grants_level b x l)"
    by (simp add: access_within_iff entries_grant_ok)
next
  fix ms :: "access_map list" and x l
  show "\<forall>m\<in>set ms. jsmap_ok m \<Longrightarrow>
      grants_level (merge_access ms) x l = (\<exists>m\<in>set ms. grants_level m x l)"
    by (auto simp: merge_access_grants entries_grant_ok)
qed simp

section \<open>Accounts\<close>

record user_access =
  acc_levels :: access_map
  acc_ext :: "string list"

record restrict =
  rs_enabled :: bool
  rs_allowed :: "string list"

datatype twofa_method = MTotp | MTelegram

record user =
  u_id :: string
  u_name :: string
  u_password :: string
  u_roles :: "string list"
  u_grants :: access_map
  u_ext :: "string list"
  u_access :: user_access
  u_restrict :: restrict
  is_admin :: bool
  u_oobe :: bool
  u_totp_secret :: "string option"
  u_totp_enabled :: bool
  u_tg2fa :: bool
  u_primary :: "twofa_method option"

section \<open>Checks (shared/access/can.ts, core/utils/serverAccess.ts)\<close>

definition can :: "user option \<Rightarrow> area \<Rightarrow> level \<Rightarrow> bool" where
  "can u a l = (case u of None \<Rightarrow> False
     | Some x \<Rightarrow> is_admin x \<or> level_at_least (jget (acc_levels (u_access x)) a) l)"

definition reaches_server :: "user option \<Rightarrow> string \<Rightarrow> bool" where
  "reaches_server u sid = (case u of None \<Rightarrow> False
     | Some x \<Rightarrow> if is_admin x \<or> \<not> rs_enabled (u_restrict x) then True
                else sid \<in> set (rs_allowed (u_restrict x)))"

definition can_on_server :: "user option \<Rightarrow> area \<Rightarrow> level \<Rightarrow> string \<Rightarrow> bool" where
  "can_on_server u a l sid \<longleftrightarrow> can u a l \<and> reaches_server u sid"

definition sees_servers :: "user option \<Rightarrow> bool" where
  "sees_servers u = list_ex (\<lambda>a. can u a LRead) server_areas"

definition can_see_server :: "user option \<Rightarrow> string \<Rightarrow> bool" where
  "can_see_server u sid \<longleftrightarrow> sees_servers u \<and> reaches_server u sid"

definition has_ext_permission :: "user option \<Rightarrow> string \<Rightarrow> bool" where
  "has_ext_permission u key = (case u of None \<Rightarrow> False
     | Some x \<Rightarrow> is_admin x \<or> key \<in> set (acc_ext (u_access x)))"

definition sees_all_servers :: "user option \<Rightarrow> bool" where
  "sees_all_servers u = (case u of None \<Rightarrow> False
     | Some x \<Rightarrow> is_admin x \<or> \<not> rs_enabled (u_restrict x))"

definition can_access_server :: "user option \<Rightarrow> string \<Rightarrow> bool" where
  "can_access_server u sid = (case u of None \<Rightarrow> False
     | Some x \<Rightarrow> if sees_all_servers u then True else sid \<in> set (rs_allowed (u_restrict x)))"

definition accessible_servers :: "user option \<Rightarrow> ('s \<Rightarrow> string) \<Rightarrow> 's list \<Rightarrow> 's list" where
  "accessible_servers u sid servers = filter (\<lambda>s. can_access_server u (sid s)) servers"

definition visible_servers :: "user option \<Rightarrow> ('s \<Rightarrow> string) \<Rightarrow> 's list \<Rightarrow> 's list" where
  "visible_servers u sid servers = filter (\<lambda>s. can_see_server u (sid s)) servers"

lemmas can_defs [access_simps] =
  can_def reaches_server_def can_on_server_def can_see_server_def sees_all_servers_def
  can_access_server_def has_ext_permission_def

lemma can_access_server_eq_reaches: "can_access_server u sid = reaches_server u sid"
  by (simp add: access_simps split: option.splits)

lemma can_mono: "can u a l \<Longrightarrow> k \<le> l \<Longrightarrow> can u a k"
  by (auto simp: can_def split: option.splits intro: level_at_least_mono)

lemma can_admin [simp]: "is_admin x \<Longrightarrow> can (Some x) a l"
  by (simp add: can_def)

lemma can_Some: "can (Some x) a l \<longleftrightarrow> is_admin x \<or> grants_level (acc_levels (u_access x)) a l"
  by (simp add: can_def grants_level_def)

section \<open>Flat permissions from before 4.2 (shared/access/legacy.ts)\<close>

definition legacy_permission_access :: "(string, access_map) jsmap" where
  "legacy_permission_access =
    [(''servers_view'', [(AConsole, LRead), (APower, LRead), (APlayers, LRead), (ANetworks, LRead)]),
     (''servers_control'', [(AConsole, LWrite), (APower, LManage), (APlayers, LWrite)]),
     (''servers_configure'',
        [(ASettings, LManage), (APlayers, LManage), (ANetworks, LManage), (AServers, LManage)]),
     (''servers_create'', [(AServers, LWrite)]),
     (''file_manager'', [(AFiles, LManage)]),
     (''plugins_mgr'', [(AContent, LManage)]),
     (''backups'', [(ABackups, LManage), (AStorages, LRead)]),
     (''scheduler_mgr'', [(AScheduler, LManage)]),
     (''java_mgr'', [(AJava, LManage)]),
     (''system_monitoring'', [(AMonitoring, LRead)]),
     (''audit_log'', [(AAudit, LRead)]),
     (''ai_assistant'', [(AAssistant, LRead)]),
     (''accounts_mgr'', [(AAccounts, LWrite)]),
     (''kubek_settings'',
        [(APanel, LManage), (AIntegrations, LManage), (AStorages, LManage), (AAudit, LManage),
         (AAssistant, LManage)])]"

definition is_legacy_permission :: "string \<Rightarrow> bool" where
  "is_legacy_permission key \<longleftrightarrow> jhas legacy_permission_access key"

definition access_from_legacy :: "string list \<Rightarrow> access_map" where
  "access_from_legacy keys =
     merge_access (map (\<lambda>k. case jget legacy_permission_access k of None \<Rightarrow> [] | Some m \<Rightarrow> m) keys)"

definition legacy_from_access :: "access_map \<Rightarrow> string list" where
  "legacy_from_access lv =
     map fst (filter (\<lambda>(k, needed). access_within needed lv) legacy_permission_access)"

lemma legacy_maps_ok: "jget legacy_permission_access k = Some m \<Longrightarrow> jsmap_ok m"
  by (auto simp: legacy_permission_access_def jsmap_ok_def split: if_splits)

lemma legacy_table_ok: "jsmap_ok legacy_permission_access"
  by (simp add: legacy_permission_access_def jsmap_ok_def)

section \<open>Built-in roles (shared/access/roles.ts)\<close>

record role =
  r_id :: string
  r_name :: string
  r_description :: "string option"
  builtin_key :: "string option"
  r_grants :: access_map
  r_ext :: "string list"
  r_created_at :: int
  r_updated_at :: int

text \<open>\<open>{...base, ...more}\<close>: later keys overwrite in place, new keys go to the end.\<close>

definition spread :: "('k, 'v) jsmap \<Rightarrow> ('k, 'v) jsmap \<Rightarrow> ('k, 'v) jsmap" where
  "spread base ovr = foldl (\<lambda>m e. jset m (fst e) (snd e)) base ovr"

definition viewer_grants :: access_map where
  "viewer_grants =
    [(AConsole, LRead), (APower, LRead), (ASettings, LRead), (AContent, LRead), (APlayers, LRead),
     (ABackups, LRead), (AScheduler, LRead), (ANetworks, LRead)]"

definition moderator_grants :: access_map where
  "moderator_grants =
     spread viewer_grants [(AConsole, LWrite), (APower, LWrite), (APlayers, LManage)]"

definition operator_grants :: access_map where
  "operator_grants = spread moderator_grants
     [(ASettings, LWrite), (AFiles, LWrite), (AContent, LWrite), (ABackups, LWrite),
      (AScheduler, LWrite)]"

definition server_admin_grants :: access_map where
  "server_admin_grants =
    [(AConsole, LWrite), (APower, LManage), (ASettings, LManage), (AFiles, LManage),
     (AContent, LManage), (APlayers, LManage), (ABackups, LManage), (AScheduler, LManage),
     (AServers, LManage), (ANetworks, LManage), (AJava, LWrite)]"

definition builtin_roles :: "(string \<times> string \<times> access_map) list" where
  "builtin_roles =
    [(''viewer'', ''Viewer'', viewer_grants), (''moderator'', ''Moderator'', moderator_grants),
     (''operator'', ''Operator'', operator_grants),
     (''server-admin'', ''Server admin'', server_admin_grants)]"

lemmas builtin_grants_defs =
  viewer_grants_def moderator_grants_def operator_grants_def server_admin_grants_def spread_def

text \<open>Stored levels are among the levels their area has.\<close>

definition levels_valid :: "access_map \<Rightarrow> bool" where
  "levels_valid m = list_all (\<lambda>(a, l). l \<in> set (area_levels a)) m"

lemma builtin_and_legacy_levels_valid:
  "list_all (\<lambda>(_, _, g). levels_valid g) builtin_roles"
  "list_all (\<lambda>(_, g). levels_valid g) legacy_permission_access"
  by (simp_all add: builtin_roles_def builtin_grants_defs legacy_permission_access_def levels_valid_def)

end
