(* ===== verification/Policy.thy ===== *)
theory Policy
  imports Access
begin

text \<open>
  The account policy (\<open>backend/src/modules/accounts/accounts.policy.ts\<close>): who may give which
  access, manage which account, change which role; and when sessions have to go.  A verdict
  is the message of the refusal, or \<open>None\<close> when the action is allowed.

  The main lemmas characterise every verdict \<open>None\<close> by what the access values grant
  (\<open>entries_grant\<close>), so that non-escalation is a statement about \<open>can\<close> and
  \<open>reaches_server\<close> and not about the policy's own comparisons.
\<close>

type_synonym verdict = "string option"

record access_plan =
  p_roles :: "role list"
  p_grants :: access_map
  p_ext :: "string list"
  p_restrict :: restrict

definition enforce_policy :: "verdict \<Rightarrow> unit result" where
  "enforce_policy v = (case v of None \<Rightarrow> Inr () | Some msg \<Rightarrow> fail_code Forbidden ''ACCESS_ESCALATION'' msg)"

definition effective_access :: "role list \<Rightarrow> access_map \<Rightarrow> string list \<Rightarrow> user_access" where
  "effective_access rs g keys =
     \<lparr>acc_levels = merge_access (map r_grants rs @ [g]),
      acc_ext = uniq (concat (map r_ext rs) @ keys)\<rparr>"

definition access_above :: "user \<Rightarrow> user_access \<Rightarrow> string list" where
  "access_above actor acs =
     (if is_admin actor then []
      else map (\<lambda>(a, l). area_key a @ '' '' @ level_key l)
             (filter (\<lambda>(a, l). \<not> level_at_least (jget (acc_levels (u_access actor)) a) l) (acc_levels acs))
           @ filter (\<lambda>k. k \<notin> set (acc_ext (u_access actor))) (acc_ext acs))"

definition can_use_role :: "user \<Rightarrow> role \<Rightarrow> verdict" where
  "can_use_role actor r =
     (let above = access_above actor \<lparr>acc_levels = r_grants r, acc_ext = r_ext r\<rparr>
      in if above \<noteq> [] then Some (''Role gives access above yours: '' @ join '', '' above) else None)"

definition can_reach_servers :: "user \<Rightarrow> user \<Rightarrow> verdict" where
  "can_reach_servers actor target =
     (if sees_all_servers (Some actor) then None
      else if sees_all_servers (Some target) then Some ''Account can access all servers''
      else let mine = rs_allowed (u_restrict actor);
               foreign = filter (\<lambda>i. i \<notin> set mine) (rs_allowed (u_restrict target))
           in if foreign \<noteq> [] then Some (''Account can access servers you can't: '' @ join '', '' foreign)
              else None)"

definition can_manage_account :: "user \<Rightarrow> user \<Rightarrow> verdict" where
  "can_manage_account actor target =
     (if is_admin target \<and> \<not> is_admin actor then Some ''Only admins can manage admin accounts''
      else let above = access_above actor (u_access target)
           in if above \<noteq> [] then Some (''Account has access above yours: '' @ join '', '' above)
              else can_reach_servers actor target)"

definition can_change_role_members :: "user \<Rightarrow> user list \<Rightarrow> verdict" where
  "can_change_role_members actor members =
     (let outside = filter (\<lambda>m. can_reach_servers actor m \<noteq> None) members
      in if outside \<noteq> []
         then Some (''Role has members outside your servers: '' @ join '', '' (map u_name outside))
         else None)"

definition can_manage_ftp_password :: "user \<Rightarrow> user \<Rightarrow> verdict" where
  "can_manage_ftp_password actor target =
     (if u_id actor = u_id target then None
      else if \<not> can (Some actor) AAccounts LWrite then Some ''Account management permission required''
      else can_manage_account actor target)"

definition servers_within :: "restrict \<Rightarrow> restrict \<Rightarrow> verdict" where
  "servers_within own r =
     (if \<not> rs_enabled r then Some ''Can't give access to all servers''
      else let foreign = filter (\<lambda>i. i \<notin> set (rs_allowed own)) (rs_allowed r)
           in if length foreign > 0
              then Some (''Can't give access to servers you can't access: '' @ join '', '' foreign)
              else None)"

fun first_role_above :: "user \<Rightarrow> role list \<Rightarrow> verdict" where
  "first_role_above actor [] = None"
| "first_role_above actor (r # rs) =
     (let above = access_above actor \<lparr>acc_levels = r_grants r, acc_ext = r_ext r\<rparr>
      in if above \<noteq> []
         then Some (''Can't assign role '' @ [CHR 34] @ r_name r @ [CHR 34] @
                    '' above your access: '' @ join '', '' above)
         else first_role_above actor rs)"

definition can_grant :: "user \<Rightarrow> access_plan \<Rightarrow> verdict" where
  "can_grant actor plan =
     (if is_admin actor then None
      else case first_role_above actor (p_roles plan) of
        Some msg \<Rightarrow> Some msg
      | None \<Rightarrow>
          (let above = access_above actor (effective_access (p_roles plan) (p_grants plan) (p_ext plan))
           in if above \<noteq> [] then Some (''Can't give access you don't have: '' @ join '', '' above)
              else if sees_all_servers (Some actor) then None
              else servers_within (u_restrict actor) (p_restrict plan)))"

definition same_restrict :: "restrict \<Rightarrow> restrict \<Rightarrow> bool" where
  "same_restrict a b \<longleftrightarrow> rs_enabled a = rs_enabled b \<and>
     length (rs_allowed a) = length (rs_allowed b) \<and>
     list_all (\<lambda>i. i \<in> set (rs_allowed b)) (rs_allowed a)"

definition same_set :: "'a list \<Rightarrow> 'a list \<Rightarrow> bool" where
  "same_set a b \<longleftrightarrow> length a = length b \<and> list_all (\<lambda>i. i \<in> set b) a"

definition same_grants :: "access_map \<Rightarrow> access_map \<Rightarrow> bool" where
  "same_grants a b = list_all (\<lambda>k. jget a k = jget b k) (uniq (jkeys a @ jkeys b))"

definition access_changed :: "user \<Rightarrow> user \<Rightarrow> bool" where
  "access_changed before after \<longleftrightarrow>
     is_admin before \<noteq> is_admin after \<or>
     \<not> same_set (u_roles before) (u_roles after) \<or>
     \<not> same_grants (u_grants before) (u_grants after) \<or>
     \<not> same_set (u_ext before) (u_ext after) \<or>
     \<not> same_restrict (u_restrict before) (u_restrict after)"

definition needs_session_revoke :: "user \<Rightarrow> user \<Rightarrow> bool" where
  "needs_session_revoke before after \<longleftrightarrow>
     u_password before \<noteq> u_password after \<or> access_changed before after"

section \<open>What a passed check means\<close>

text \<open>\<open>below actor acs\<close>: everything \<open>acs\<close> gives, the (non-admin) actor has itself.\<close>

definition below :: "user \<Rightarrow> user_access \<Rightarrow> bool" where
  "below actor acs \<longleftrightarrow> is_admin actor \<or>
     (\<forall>a l. entries_grant (acc_levels acs) a l \<longrightarrow> can (Some actor) a l) \<and>
     set (acc_ext acs) \<subseteq> set (acc_ext (u_access actor))"

lemma access_above_Nil_iff: "access_above actor acs = [] \<longleftrightarrow> below actor acs"
proof (cases "is_admin actor")
  case True
  then show ?thesis by (simp add: access_above_def below_def)
next
  case False
  have "(\<forall>(a, l) \<in> set (acc_levels acs). level_at_least (jget (acc_levels (u_access actor)) a) l) \<longleftrightarrow>
        access_within (acc_levels acs) (acc_levels (u_access actor))"
    by (simp add: access_within_def list_all_iff)
  then show ?thesis using False
    by (auto simp: access_above_def below_def filter_empty_conv can_Some access_within_iff)
qed

lemma below_refl: "jsmap_ok (acc_levels (u_access u)) \<Longrightarrow> below u (u_access u)"
  by (auto simp: below_def can_Some entries_grant_ok)

lemma can_use_role_None_iff:
  "can_use_role actor r = None \<longleftrightarrow> below actor \<lparr>acc_levels = r_grants r, acc_ext = r_ext r\<rparr>"
  by (simp add: can_use_role_def Let_def access_above_Nil_iff)

lemma first_role_above_None_iff:
  "first_role_above actor rs = None \<longleftrightarrow> (\<forall>r \<in> set rs. can_use_role actor r = None)"
  by (induction rs) (auto simp: Let_def access_above_Nil_iff can_use_role_None_iff)

lemma can_reach_servers_None_iff:
  "can_reach_servers actor target = None \<longleftrightarrow>
     (sees_all_servers (Some target) \<longrightarrow> sees_all_servers (Some actor)) \<and>
     (\<forall>i. reaches_server (Some target) i \<longrightarrow> reaches_server (Some actor) i)"
  by (auto simp: can_reach_servers_def access_simps Let_def filter_empty_conv split: if_splits)

lemma effective_below_iff:
  assumes "\<not> is_admin actor"
  shows "below actor (effective_access rs g keys) \<longleftrightarrow>
     (\<forall>r \<in> set rs. below actor \<lparr>acc_levels = r_grants r, acc_ext = r_ext r\<rparr>) \<and>
     below actor \<lparr>acc_levels = g, acc_ext = keys\<rparr>"
proof -
  have "entries_grant (merge_access (map r_grants rs @ [g])) a l \<longleftrightarrow>
      (\<exists>r \<in> set rs. entries_grant (r_grants r) a l) \<or> entries_grant g a l" for a l
    by (simp add: entries_grant_ok merge_access_grants) blast
  then show ?thesis using assms
    by (simp add: below_def effective_access_def) blast
qed

lemma servers_within_None_iff:
  "servers_within own r = None \<longleftrightarrow> rs_enabled r \<and> set (rs_allowed r) \<subseteq> set (rs_allowed own)"
  by (auto simp: servers_within_def Let_def filter_empty_conv)

lemma can_grant_None_iff:
  "can_grant actor plan = None \<longleftrightarrow> is_admin actor \<or>
     below actor (effective_access (p_roles plan) (p_grants plan) (p_ext plan)) \<and>
     (sees_all_servers (Some actor) \<or>
      rs_enabled (p_restrict plan) \<and> set (rs_allowed (p_restrict plan)) \<subseteq> set (rs_allowed (u_restrict actor)))"
proof (cases "is_admin actor")
  case True
  then show ?thesis by (simp add: can_grant_def)
next
  case False
  have "can_grant actor plan = None \<longleftrightarrow>
      first_role_above actor (p_roles plan) = None \<and>
      below actor (effective_access (p_roles plan) (p_grants plan) (p_ext plan)) \<and>
      (sees_all_servers (Some actor) \<or> servers_within (u_restrict actor) (p_restrict plan) = None)"
    using False by (simp add: can_grant_def Let_def access_above_Nil_iff split: option.splits)
  then show ?thesis using False
    by (auto simp: first_role_above_None_iff can_use_role_None_iff effective_below_iff servers_within_None_iff)
qed

text \<open>A plan carried out: the account that results from it.\<close>

definition follows_plan :: "user \<Rightarrow> access_plan \<Rightarrow> bool" where
  "follows_plan u plan \<longleftrightarrow>
     u_access u = effective_access (p_roles plan) (p_grants plan) (p_ext plan) \<and>
     u_restrict u = p_restrict plan \<and> \<not> is_admin u"

lemma below_can:
  assumes "below actor (u_access x)" and "jsmap_ok (acc_levels (u_access x))" and "\<not> is_admin x"
  shows "can (Some x) a l \<Longrightarrow> can (Some actor) a l"
    and "has_ext_permission (Some x) k \<Longrightarrow> has_ext_permission (Some actor) k"
  using assms by (auto simp: below_def can_Some entries_grant_ok has_ext_permission_def)

lemma effective_access_ok [simp]: "jsmap_ok (acc_levels (effective_access rs g keys))"
  by (simp add: effective_access_def)

section \<open>Set comparisons\<close>

lemma same_set_iff: "distinct a \<Longrightarrow> same_set a b \<Longrightarrow> set a = set b"
  by (metis card_seteq distinct_card finite_set length_remdups_card_conv
        length_remdups_leq list_all_iff same_set_def subsetI)

lemma same_set_complete: "distinct a \<Longrightarrow> distinct b \<Longrightarrow> set a = set b \<Longrightarrow> same_set a b"
  by (simp add: same_set_def list_all_iff distinct_card [symmetric])

lemma same_grants_iff: "same_grants a b \<longleftrightarrow> (\<forall>k. jget a k = jget b k)"
proof -
  have "jget a k = jget b k" if "k \<notin> fst ` set a" "k \<notin> fst ` set b" for k
    using that by (simp add: map_of_eq_None_iff [THEN iffD2])
  then show ?thesis by (auto simp: same_grants_def list_all_iff)
qed

end
