(* ===== verification/Values.thy ===== *)
theory Values
  imports Prelude
begin

text \<open>
  JavaScript values of the shapes the modelled code inspects at run time (request bodies,
  parsed JSON, tool arguments): \<open>typeof\<close> tests and property reads.

  Property reads are of names fixed in the source, none of which is an array index or
  \<open>length\<close>, so an array has no such property.
\<close>

datatype jsval =
    JUndef | JNull | JBool bool | JNum int | JStr string
  | JArr "jsval list" | JObj "(string \<times> jsval) list"

definition js_prop :: "jsval \<Rightarrow> string \<Rightarrow> jsval" where
  "js_prop v f = (case v of JObj o' \<Rightarrow> (case jget o' f of None \<Rightarrow> JUndef | Some x \<Rightarrow> x) | _ \<Rightarrow> JUndef)"

definition is_str :: "jsval \<Rightarrow> bool" where
  "is_str v = (case v of JStr _ \<Rightarrow> True | _ \<Rightarrow> False)"

fun str_of :: "jsval \<Rightarrow> string" where
  "str_of (JStr s) = s"
| "str_of _ = []"

lemma is_str_iff: "is_str v \<longleftrightarrow> (\<exists>s. v = JStr s)"
  by (cases v) (simp_all add: is_str_def)

lemma js_prop_simps [simp]:
  "js_prop (JObj m) f = (case jget m f of None \<Rightarrow> JUndef | Some x \<Rightarrow> x)"
  "js_prop JUndef f = JUndef" "js_prop JNull f = JUndef"
  by (simp_all add: js_prop_def)

lemma is_str_simps [simp]: "is_str (JStr s)" "\<not> is_str JUndef" "\<not> is_str JNull"
  "\<not> is_str (JNum n)" "\<not> is_str (JBool b)" "\<not> is_str (JArr xs)" "\<not> is_str (JObj m)"
  by (simp_all add: is_str_def)

text \<open>\<open>typeof x === "object"\<close> for a non-null \<open>x\<close>.\<close>

definition is_objectlike :: "jsval \<Rightarrow> bool" where
  "is_objectlike v = (case v of JObj _ \<Rightarrow> True | JArr _ \<Rightarrow> True | _ \<Rightarrow> False)"

end
