(* ===== verification/Guards.thy ===== *)
theory Guards
  imports Policy Values
begin

text \<open>
  The access decisions taken outside the account policy: the route guards
  (\<open>modules/auth/guards\<close>), scheduled actions (\<open>action-access.ts\<close>), the Telegram bot
  (\<open>bot-access.service.ts\<close>), assistant tools (\<open>tool-access.ts\<close>) and what an extension sees of a
  user (\<open>ext-user.ts\<close>).
\<close>

record request =
  rq_params :: jsval
  rq_query :: jsval
  rq_body :: jsval
  rq_user :: "user option"

section \<open>Route guards\<close>

datatype access_requirement = NeedLevel area level | NeedServerView

definition access_guard :: "access_requirement option \<Rightarrow> request \<Rightarrow> bool result" where
  "access_guard required rq =
     (case required of None \<Rightarrow> Inr True
      | Some need \<Rightarrow>
         (case rq_user rq of None \<Rightarrow> fail Forbidden ''User not authenticated''
          | Some u \<Rightarrow>
             (case need of
                NeedServerView \<Rightarrow>
                  if \<not> sees_servers (Some u)
                  then fail Forbidden ''Insufficient access. Required: servers view''
                  else Inr True
              | NeedLevel a l \<Rightarrow>
                  if \<not> can (Some u) a l
                  then fail Forbidden (''Insufficient access. Required: '' @ area_key a @ '' '' @ level_key l)
                  else Inr True)))"

definition admin_guard :: "request \<Rightarrow> bool result" where
  "admin_guard rq =
     (case rq_user rq of None \<Rightarrow> fail Forbidden ''User not authenticated''
      | Some u \<Rightarrow> if \<not> is_admin u then fail Forbidden ''Admin privileges required'' else Inr True)"

text \<open>\<open>nestedValue\<close>: follows a dotted path, \<open>undefined\<close> as soon as a step is missing.\<close>

definition nested_value :: "jsval \<Rightarrow> string \<Rightarrow> jsval" where
  "nested_value obj path =
     foldl (\<lambda>current key. if is_objectlike current then js_prop current key else JUndef)
       obj (split_on CHR ''.'' path)"

definition is_present :: "jsval \<Rightarrow> bool" where
  "is_present v \<longleftrightarrow> v \<noteq> JUndef \<and> v \<noteq> JNull \<and> v \<noteq> JStr []"

definition present_values :: "request \<Rightarrow> string \<Rightarrow> jsval list" where
  "present_values rq field =
     (let values = map (\<lambda>source. js_prop source field) [rq_params rq, rq_query rq, rq_body rq]
      in filter is_present
           (if CHR ''.'' \<in> set field then values @ [nested_value (rq_body rq) field] else values))"

definition resolve_server_id :: "request \<Rightarrow> string \<Rightarrow> string option result" where
  "resolve_server_id rq field =
     (let values = present_values rq field in
      if list_ex (\<lambda>v. \<not> is_str v) values then fail BadRequest ''Invalid server id''
      else let dist = uniq (map str_of values) in
           if length dist > 1 then fail BadRequest ''Conflicting server ids in request''
           else Inr (if length dist = 1 then Some (hd dist) else None))"

definition request_server_id :: "request \<Rightarrow> string \<Rightarrow> string option" where
  "request_server_id rq field = (case resolve_server_id rq field of Inl _ \<Rightarrow> None | Inr r \<Rightarrow> r)"

definition server_access_guard :: "string option \<Rightarrow> request \<Rightarrow> bool result" where
  "server_access_guard field rq =
     (case field of None \<Rightarrow> Inr True
      | Some f \<Rightarrow> if f = [] then Inr True else
         (case rq_user rq of None \<Rightarrow> fail Forbidden ''User not authenticated''
          | Some u \<Rightarrow>
             and_then (resolve_server_id rq f) (\<lambda>sid.
               if sees_all_servers (Some u) then Inr True
               else case sid of
                 None \<Rightarrow> fail BadRequest ''Server ID is empty''
               | Some i \<Rightarrow> if \<not> can_access_server (Some u) i
                           then fail Forbidden (''Access to server '' @ i @ '' denied'')
                           else Inr True)))"

lemma resolve_server_id_Inr:
  assumes "resolve_server_id rq f = Inr r"
  shows "case r of None \<Rightarrow> present_values rq f = []
         | Some i \<Rightarrow> present_values rq f \<noteq> [] \<and> set (present_values rq f) = {JStr i}"
proof -
  let ?vs = "present_values rq f"
  let ?d = "uniq (map str_of ?vs)"
  from assms have strs: "\<forall>v \<in> set ?vs. is_str v" and len: "length ?d \<le> 1"
    and r: "r = (if length ?d = 1 then Some (hd ?d) else None)"
    by (auto simp: resolve_server_id_def Let_def list_ex_iff split: if_splits)
  show ?thesis
  proof (cases "?d = []")
    case True
    then have "set (map str_of ?vs) = {}" by (metis set_uniq set_empty)
    with True r show ?thesis by simp
  next
    case False
    with len obtain i where d: "?d = [i]" by (cases ?d) auto
    have "set ?d = str_of ` set ?vs" by simp
    with d have strs_i: "str_of ` set ?vs = {i}" by simp
    have "v = JStr i" if "v \<in> set ?vs" for v
    proof -
      from strs that obtain s where "v = JStr s" by (auto simp: is_str_iff)
      with strs_i that show ?thesis by force
    qed
    moreover have "?vs \<noteq> []" using strs_i by auto
    ultimately have "set ?vs = {JStr i}" by (cases ?vs) auto
    with \<open>?vs \<noteq> []\<close> d r show ?thesis by simp
  qed
qed

lemma present_values_mem:
  "is_present (js_prop (rq_params rq) f) \<Longrightarrow> js_prop (rq_params rq) f \<in> set (present_values rq f)"
  "is_present (js_prop (rq_query rq) f) \<Longrightarrow> js_prop (rq_query rq) f \<in> set (present_values rq f)"
  "is_present (js_prop (rq_body rq) f) \<Longrightarrow> js_prop (rq_body rq) f \<in> set (present_values rq f)"
  "CHR ''.'' \<in> set f \<Longrightarrow> is_present (nested_value (rq_body rq) f) \<Longrightarrow>
     nested_value (rq_body rq) f \<in> set (present_values rq f)"
  by (simp_all add: present_values_def Let_def)

section \<open>Scheduled actions\<close>

datatype action_type =
    ServerStart | ServerStop | ServerRestart | ServerCommand | BackupCreate | HttpWebhook

fun action_access :: "action_type \<Rightarrow> (area \<times> level) option" where
  "action_access ServerStart = Some (APower, LWrite)"
| "action_access ServerStop = Some (APower, LWrite)"
| "action_access ServerRestart = Some (APower, LWrite)"
| "action_access ServerCommand = Some (AConsole, LWrite)"
| "action_access BackupCreate = Some (ABackups, LWrite)"
| "action_access HttpWebhook = None"

definition can_run_action :: "user option \<Rightarrow> action_type \<Rightarrow> string \<Rightarrow> bool" where
  "can_run_action u t sid \<longleftrightarrow>
     can_on_server u AScheduler LWrite sid \<and>
     (case action_access t of None \<Rightarrow> True | Some (a, l) \<Rightarrow> can_on_server u a l sid)"

definition assert_can_run_action :: "user \<Rightarrow> action_type \<Rightarrow> string \<Rightarrow> unit result" where
  "assert_can_run_action u t sid =
     (if \<not> can_run_action (Some u) t sid
      then fail Forbidden ''You can't schedule an action you can't run yourself'' else Inr ())"

section \<open>Telegram bot\<close>

text \<open>\<open>getUser\<close> is the account lookup, passed in.\<close>

definition bot_can_create :: "(string \<Rightarrow> user option) \<Rightarrow> string \<Rightarrow> bool" where
  "bot_can_create get_user uid = can (get_user uid) AServers LWrite"

definition bot_can_view :: "(string \<Rightarrow> user option) \<Rightarrow> string \<Rightarrow> string \<Rightarrow> bool" where
  "bot_can_view get_user uid sid = can_on_server (get_user uid) APower LRead sid"

definition bot_can_control :: "(string \<Rightarrow> user option) \<Rightarrow> string \<Rightarrow> string \<Rightarrow> bool" where
  "bot_can_control get_user uid sid = can_on_server (get_user uid) APower LWrite sid"

definition bot_visible_servers :: "(string \<Rightarrow> user option) \<Rightarrow> ('s \<Rightarrow> string) \<Rightarrow> string \<Rightarrow> 's list \<Rightarrow> 's list" where
  "bot_visible_servers get_user sid uid servers =
     filter (\<lambda>s. can_see_server (get_user uid) (sid s)) servers"

section \<open>Assistant tools\<close>

datatype tool_access = ToolServerView | ToolLevel area level

datatype tool_kind = ToolRead | ToolWrite

record assistant_tool =
  t_name :: string
  t_kind :: tool_kind
  t_access :: tool_access
  server_scoped :: bool

definition has_tool_access :: "user \<Rightarrow> assistant_tool \<Rightarrow> bool" where
  "has_tool_access u tool =
     (case t_access tool of ToolServerView \<Rightarrow> sees_servers (Some u)
      | ToolLevel a l \<Rightarrow> can (Some u) a l)"

definition allowed_on_server :: "user \<Rightarrow> tool_access \<Rightarrow> string \<Rightarrow> bool" where
  "allowed_on_server u ta sid =
     (case ta of ToolServerView \<Rightarrow> can_see_server (Some u) sid
      | ToolLevel a l \<Rightarrow> can_on_server (Some u) a l sid)"

definition describe_access :: "tool_access \<Rightarrow> string" where
  "describe_access ta =
     (case ta of ToolServerView \<Rightarrow> ''servers view'' | ToolLevel a l \<Rightarrow> area_key a @ '' '' @ level_key l)"

definition server_id_of :: "jsval \<Rightarrow> string option" where
  "server_id_of args = (case js_prop args ''serverId'' of JStr s \<Rightarrow> Some s | _ \<Rightarrow> None)"

definition deny_reason :: "user \<Rightarrow> assistant_tool \<Rightarrow> jsval \<Rightarrow> (string \<Rightarrow> bool) \<Rightarrow> string option" where
  "deny_reason u tool args server_exists =
     (if \<not> has_tool_access u tool then Some (''Missing access '' @ describe_access (t_access tool))
      else if \<not> server_scoped tool then None
      else let ok = (case server_id_of args of None \<Rightarrow> False
                     | Some sid \<Rightarrow> allowed_on_server u (t_access tool) sid \<and> server_exists sid)
           in if ok then None else Some ''Server not found, call list_servers for valid ids'')"

section \<open>Extensions' view of a user\<close>

record ext_user =
  x_id :: string
  x_username :: string
  x_is_admin :: bool
  x_permissions :: "string list"

definition ext_permissions_of :: "user \<Rightarrow> string list" where
  "ext_permissions_of u =
     (if is_admin u then jkeys legacy_permission_access
      else legacy_from_access (acc_levels (u_access u))) @ acc_ext (u_access u)"

definition to_ext_user :: "user \<Rightarrow> ext_user" where
  "to_ext_user u = \<lparr>x_id = u_id u, x_username = u_name u, x_is_admin = is_admin u,
     x_permissions = ext_permissions_of u\<rparr>"

end
