(* ===== verification/Rate_Limit.thy ===== *)
theory Rate_Limit
  imports Access
begin

text \<open>
  Brute force protection (\<open>backend/src/modules/rate-limit\<close>): the attempt limiter with its two
  policies, the service over one limiter per policy name, the limiter key of an address, and
  the password re-check that uses them.

  Times are milliseconds passed in where the code reads \<open>Date.now()\<close>.  The lock
  \<open>baseLockMs * 2 ** (over - 1)\<close> is computed on unbounded integers: a double is exact there
  until it becomes \<open>Infinity\<close>, and the minimum with \<open>maxLockMs\<close> is the same either way.
\<close>

section \<open>The limiter (attempt-limiter.ts)\<close>

datatype limit_policy =
    Backoff (free_failures: int) (base_lock_ms: int) (max_lock_ms: int) (forget_after_ms: int)
  | Window (window_limit: int) (window_ms: int)

record key_state =
  ks_count :: int
  ks_since :: int
  ks_locked :: int

type_synonym limiter_keys = "(string, key_state) jsmap"

record failure_result =
  lock_ms :: int
  just_locked :: bool

definition expires_at :: "limit_policy \<Rightarrow> key_state \<Rightarrow> int" where
  "expires_at p st =
     (case p of Window _ w \<Rightarrow> ks_since st + w
      | Backoff _ _ _ forget \<Rightarrow> max (ks_locked st) (ks_since st + forget))"

definition lim_current :: "limit_policy \<Rightarrow> limiter_keys \<Rightarrow> string \<Rightarrow> int \<Rightarrow> key_state option \<times> limiter_keys" where
  "lim_current p ks key now =
     (case jget ks key of None \<Rightarrow> (None, ks)
      | Some st \<Rightarrow> if now \<ge> expires_at p st then (None, jdel ks key) else (Some st, ks))"

definition lim_open :: "limiter_keys \<Rightarrow> string \<Rightarrow> int \<Rightarrow> key_state \<times> limiter_keys" where
  "lim_open ks key now =
     (let st = \<lparr>ks_count = 0, ks_since = now, ks_locked = 0\<rparr> in (st, jset ks key st))"

definition lim_state :: "limit_policy \<Rightarrow> limiter_keys \<Rightarrow> string \<Rightarrow> int \<Rightarrow> key_state \<times> limiter_keys" where
  "lim_state p ks key now =
     (case lim_current p ks key now of (Some st, ks') \<Rightarrow> (st, ks') | (None, ks') \<Rightarrow> lim_open ks' key now)"

definition lim_retry_after :: "limit_policy \<Rightarrow> limiter_keys \<Rightarrow> string \<Rightarrow> int \<Rightarrow> int \<times> limiter_keys" where
  "lim_retry_after p ks key now =
     (case lim_current p ks key now of
        (None, ks') \<Rightarrow> (0, ks')
      | (Some st, ks') \<Rightarrow> (max 0 (ks_locked st - now), ks'))"

definition wrong_kind :: "limit_policy \<Rightarrow> 'a result" where
  "wrong_kind p = fail Internal (''Limiter expects a '' @
     (case p of Window _ _ \<Rightarrow> ''window'' | Backoff _ _ _ _ \<Rightarrow> ''backoff'') @ '' policy'')"

text \<open>\<open>state\<close> is the object stored in the map, so its updates are stored back.\<close>

definition lim_hit :: "limit_policy \<Rightarrow> limiter_keys \<Rightarrow> string \<Rightarrow> int \<Rightarrow> (int \<times> limiter_keys) result" where
  "lim_hit p ks key now =
     (case p of Backoff _ _ _ _ \<Rightarrow> wrong_kind p
      | Window lim w \<Rightarrow>
         (case lim_state p ks key now of (st, ks') \<Rightarrow>
            let count = ks_count st + 1;
                lockd = (if count > lim then ks_since st + w else ks_locked st);
                st' = st\<lparr>ks_count := count, ks_locked := lockd\<rparr>
            in Inr (max 0 (lockd - now), jset ks' key st')))"

definition lim_fail :: "limit_policy \<Rightarrow> limiter_keys \<Rightarrow> string \<Rightarrow> int \<Rightarrow> (failure_result \<times> limiter_keys) result" where
  "lim_fail p ks key now =
     (case p of Window _ _ \<Rightarrow> wrong_kind p
      | Backoff free base mx forget \<Rightarrow>
         (case lim_state p ks key now of (st, ks') \<Rightarrow>
            let was_locked = ks_locked st > now;
                count = ks_count st + 1;
                over = count - free
            in if over \<le> 0
               then Inr (\<lparr>lock_ms = 0, just_locked = False\<rparr>,
                         jset ks' key (st\<lparr>ks_count := count, ks_since := now\<rparr>))
               else let lock = min (base * 2 ^ nat (over - 1)) mx
                    in Inr (\<lparr>lock_ms = lock, just_locked = (\<not> was_locked \<and> over = 1)\<rparr>,
                         jset ks' key (st\<lparr>ks_count := count, ks_since := now, ks_locked := now + lock\<rparr>))))"

definition lim_reset :: "limiter_keys \<Rightarrow> string \<Rightarrow> limiter_keys" where
  "lim_reset ks key = jdel ks key"

definition lim_prune :: "limit_policy \<Rightarrow> limiter_keys \<Rightarrow> int \<Rightarrow> limiter_keys" where
  "lim_prune p ks now = foldl (\<lambda>m key. snd (lim_current p m key now)) ks (jkeys ks)"

subsection \<open>Observable state of a key\<close>

text \<open>What a key's entry is worth at a time: expired entries count as absent.\<close>

definition live :: "limit_policy \<Rightarrow> limiter_keys \<Rightarrow> string \<Rightarrow> int \<Rightarrow> key_state option" where
  "live p ks key now = fst (lim_current p ks key now)"

definition live_or_new :: "limit_policy \<Rightarrow> limiter_keys \<Rightarrow> string \<Rightarrow> int \<Rightarrow> key_state" where
  "live_or_new p ks key now =
     (case live p ks key now of None \<Rightarrow> \<lparr>ks_count = 0, ks_since = now, ks_locked = 0\<rparr> | Some st \<Rightarrow> st)"

lemma live_eq:
  "live p ks key now = (case jget ks key of None \<Rightarrow> None
     | Some st \<Rightarrow> if now \<ge> expires_at p st then None else Some st)"
  by (simp add: live_def lim_current_def split: option.splits)

lemma jget_current:
  "jget (snd (lim_current p ks key now)) k =
     (if k = key \<and> live p ks key now = None then None else jget ks k)"
  by (simp add: live_eq lim_current_def split: option.splits)

lemma lim_state_fst: "fst (lim_state p ks key now) = live_or_new p ks key now"
  by (cases "lim_current p ks key now")
     (auto simp: lim_state_def live_or_new_def live_def lim_open_def Let_def split: option.splits)

lemma jget_state_other: "k \<noteq> key \<Longrightarrow> jget (snd (lim_state p ks key now)) k = jget ks k"
  using jget_current [of p ks key now k]
  by (cases "lim_current p ks key now")
     (auto simp: lim_state_def lim_open_def Let_def split: option.splits)

lemma retry_after_live:
  "fst (lim_retry_after p ks key now) =
     (case live p ks key now of None \<Rightarrow> 0 | Some st \<Rightarrow> max 0 (ks_locked st - now))"
  by (cases "lim_current p ks key now")
     (auto simp: lim_retry_after_def live_def split: option.splits)

lemma lim_hit_Window:
  "lim_hit (Window lim w) ks key now = Inr (d, ks2) \<Longrightarrow>
     let st = live_or_new (Window lim w) ks key now;
         lockd = (if ks_count st + 1 > lim then ks_since st + w else ks_locked st)
     in d = max 0 (lockd - now) \<and>
        jget ks2 key = Some (st\<lparr>ks_count := ks_count st + 1, ks_locked := lockd\<rparr>) \<and>
        (\<forall>k. k \<noteq> key \<longrightarrow> jget ks2 k = jget ks k)"
  using lim_state_fst [of "Window lim w" ks key now] jget_state_other [of _ key "Window lim w" ks now]
  by (cases "lim_state (Window lim w) ks key now") (auto simp: lim_hit_def Let_def)

lemma lim_fail_Backoff:
  "lim_fail (Backoff free base mx forget) ks key now = Inr (r, ks2) \<Longrightarrow>
     let p = Backoff free base mx forget; st = live_or_new p ks key now;
         over = ks_count st + 1 - free; lock = min (base * 2 ^ nat (over - 1)) mx
     in lock_ms r = (if over \<le> 0 then 0 else lock) \<and>
        just_locked r = (over = 1 \<and> \<not> ks_locked st > now) \<and>
        jget ks2 key = Some (if over \<le> 0 then st\<lparr>ks_count := ks_count st + 1, ks_since := now\<rparr>
           else st\<lparr>ks_count := ks_count st + 1, ks_since := now, ks_locked := now + lock\<rparr>) \<and>
        (\<forall>k. k \<noteq> key \<longrightarrow> jget ks2 k = jget ks k)"
  using lim_state_fst [of "Backoff free base mx forget" ks key now]
    jget_state_other [of _ key "Backoff free base mx forget" ks now]
  by (cases "lim_state (Backoff free base mx forget) ks key now")
     (auto simp: lim_fail_def Let_def split: if_splits)

lemma lim_hit_total: "\<exists>d ks2. lim_hit (Window lim w) ks key now = Inr (d, ks2)"
  by (simp add: lim_hit_def Let_def split: prod.splits)

lemma lim_fail_total: "\<exists>r ks2. lim_fail (Backoff free base mx forget) ks key now = Inr (r, ks2)"
  by (simp add: lim_fail_def Let_def split: prod.splits)

subsection \<open>Sequences of attempts on one key\<close>

fun lim_hits :: "limit_policy \<Rightarrow> limiter_keys \<Rightarrow> string \<Rightarrow> int list \<Rightarrow> int list" where
  "lim_hits p ks key [] = []"
| "lim_hits p ks key (t # ts) =
     (case lim_hit p ks key t of Inl _ \<Rightarrow> [] | Inr (d, ks') \<Rightarrow> d # lim_hits p ks' key ts)"

fun lim_fails :: "limit_policy \<Rightarrow> limiter_keys \<Rightarrow> string \<Rightarrow> int list \<Rightarrow> failure_result list" where
  "lim_fails p ks key [] = []"
| "lim_fails p ks key (t # ts) =
     (case lim_fail p ks key t of Inl _ \<Rightarrow> [] | Inr (r, ks') \<Rightarrow> r # lim_fails p ks' key ts)"

text \<open>The contract: the wait after the \<open>n\<close>-th hit of a window, the lock after the \<open>n\<close>-th failure.\<close>

definition window_wait :: "int \<Rightarrow> int \<Rightarrow> int \<Rightarrow> int \<Rightarrow> nat \<Rightarrow> int" where
  "window_wait lim w start now n = (if int n > lim then start + w - now else 0)"

definition backoff_lock :: "int \<Rightarrow> int \<Rightarrow> int \<Rightarrow> nat \<Rightarrow> int" where
  "backoff_lock free base mx n =
     (if int n \<le> free then 0 else min (base * 2 ^ nat (int n - free - 1)) mx)"

definition in_window :: "int \<Rightarrow> int \<Rightarrow> int \<Rightarrow> limiter_keys \<Rightarrow> string \<Rightarrow> nat \<Rightarrow> bool" where
  "in_window lim w start ks key n \<longleftrightarrow>
     jget ks key = Some \<lparr>ks_count = int n, ks_since = start,
                         ks_locked = (if int n > lim then start + w else 0)\<rparr>"

lemma hits_in_window:
  assumes "in_window lim w start ks key n"
    and "\<forall>t \<in> set ts. start \<le> t \<and> t < start + w" and "0 \<le> start"
  shows "lim_hits (Window lim w) ks key ts =
     map (\<lambda>(t, i). window_wait lim w start t i) (zip ts [Suc n..<Suc n + length ts])"
  using assms
proof (induction ts arbitrary: ks n)
  case Nil
  then show ?case by simp
next
  case (Cons t ts)
  let ?p = "Window lim w"
  obtain d ks2 where hit: "lim_hit ?p ks key t = Inr (d, ks2)" using lim_hit_total by blast
  have live: "live_or_new ?p ks key t = \<lparr>ks_count = int n, ks_since = start,
      ks_locked = (if int n > lim then start + w else 0)\<rparr>"
    using Cons.prems by (simp add: in_window_def live_or_new_def live_eq expires_at_def)
  from lim_hit_Window [OF hit] have d: "d = window_wait lim w start t (Suc n)"
    and nxt: "in_window lim w start ks2 key (Suc n)"
    using Cons.prems live by (auto simp: window_wait_def in_window_def Let_def)
  from Cons.IH [OF nxt] Cons.prems hit d show ?case
    by (simp add: upt_conv_Cons del: upt_Suc)
qed

definition after_failures :: "int \<Rightarrow> int \<Rightarrow> int \<Rightarrow> limiter_keys \<Rightarrow> string \<Rightarrow> int \<Rightarrow> nat \<Rightarrow> bool" where
  "after_failures free base mx ks key prev n \<longleftrightarrow>
     jget ks key = Some \<lparr>ks_count = int n, ks_since = prev,
       ks_locked = (if int n \<le> free then 0 else prev + backoff_lock free base mx n)\<rparr>"

fun within_memory :: "int \<Rightarrow> int \<Rightarrow> int list \<Rightarrow> bool" where
  "within_memory forget prev [] = True"
| "within_memory forget prev (t # ts) = (prev \<le> t \<and> t < prev + forget \<and> within_memory forget t ts)"

lemma fails_in_memory:
  assumes "after_failures free base mx ks key prev n" and "within_memory forget prev ts"
    and "0 \<le> prev" and "0 \<le> free"
  shows "map lock_ms (lim_fails (Backoff free base mx forget) ks key ts) =
     map (backoff_lock free base mx) [Suc n..<Suc n + length ts]"
  using assms
proof (induction ts arbitrary: ks n prev)
  case Nil
  then show ?case by simp
next
  case (Cons t ts)
  let ?p = "Backoff free base mx forget"
  obtain r ks2 where f: "lim_fail ?p ks key t = Inr (r, ks2)" using lim_fail_total by blast
  let ?st = "\<lparr>ks_count = int n, ks_since = prev,
       ks_locked = (if int n \<le> free then 0 else prev + backoff_lock free base mx n)\<rparr>"
  have live: "live_or_new ?p ks key t = ?st"
    using Cons.prems by (simp add: after_failures_def live_or_new_def live_eq expires_at_def)
  from lim_fail_Backoff [OF f] live have r: "lock_ms r = backoff_lock free base mx (Suc n)"
    by (auto simp: backoff_lock_def Let_def algebra_simps)
  from lim_fail_Backoff [OF f] live have nxt: "after_failures free base mx ks2 key t (Suc n)"
    by (auto simp: after_failures_def backoff_lock_def Let_def algebra_simps)
  from Cons.IH [OF nxt] Cons.prems f r show ?case
    by (simp add: upt_conv_Cons del: upt_Suc)
qed

lemma lim_prune_live:
  assumes "jsmap_ok ks" and "now \<le> t"
  shows "live p (lim_prune p ks now) k t = live p ks k t"
proof -
  have "live p (foldl (\<lambda>m key. snd (lim_current p m key now)) m0 keys) k t = live p m0 k t" for m0 keys
  proof (induction keys arbitrary: m0)
    case Nil
    then show ?case by simp
  next
    case (Cons key keys)
    have "live p (snd (lim_current p m0 key now)) k t = live p m0 k t"
      using \<open>now \<le> t\<close> by (auto simp: live_eq [of p _ k t] jget_current live_eq [of p m0 key now] split: option.splits)
    with Cons.IH show ?case by simp
  qed
  then show ?thesis by (simp add: lim_prune_def)
qed

section \<open>Limiter keys of addresses (ip-key.ts)\<close>

text \<open>\<open>g.replace(/^0+(?=.)/, "")\<close>: leading zeros go, one character stays.\<close>

fun strip_zeros :: "string \<Rightarrow> string" where
  "strip_zeros (c # d # cs) = (if c = CHR ''0'' then strip_zeros (d # cs) else c # d # cs)"
| "strip_zeros s = s"

definition ip_key :: "string option \<Rightarrow> string" where
  "ip_key ip =
     (case ip of None \<Rightarrow> ''?''
      | Some s \<Rightarrow>
         if s = [] then ''?''
         else if CHR '':'' \<notin> set s then s
         else let parts = split_str ''::'' (to_lower (hd (split_on CHR ''%'' s)));
                  head = hd parts;
                  tail = (case parts of _ # t # _ \<Rightarrow> t | _ \<Rightarrow> []);
                  left = (if head \<noteq> [] then split_on CHR '':'' head else []);
                  right = (if tail \<noteq> [] then split_on CHR '':'' tail else []);
                  missing = (if index_of ''::'' s \<noteq> None then 8 - int (length left) - int (length right) else 0);
                  groups = left @ replicate (nat (max 0 missing)) ''0'' @ right
              in join '':'' (map strip_zeros (take 4 groups)) @ ''::/64'')"

definition login_key :: "string option \<Rightarrow> string \<Rightarrow> string" where
  "login_key ip name = ip_key ip @ ''|'' @ to_lower name"

section \<open>The service (rate-limit.service.ts, rate-limit.policies.ts)\<close>

datatype policy_name =
    PLogin | PLoginUser | PLoginIp | PTotp | PSwitch | PSwitchIp | PPassword | PPasswordAttempts
  | PTelegramOtp | PAssistant

fun policy_key :: "policy_name \<Rightarrow> string" where
  "policy_key PLogin = ''login''"
| "policy_key PLoginUser = ''login.user''"
| "policy_key PLoginIp = ''login.ip''"
| "policy_key PTotp = ''totp''"
| "policy_key PSwitch = ''challenge.switch''"
| "policy_key PSwitchIp = ''challenge.switch.ip''"
| "policy_key PPassword = ''password''"
| "policy_key PPasswordAttempts = ''password.attempts''"
| "policy_key PTelegramOtp = ''telegram.otp''"
| "policy_key PAssistant = ''assistant''"

definition minute_ms :: int where "minute_ms = 60000"
definition hour_ms :: int where "hour_ms = 60 * minute_ms"

definition failures_policy :: "int \<Rightarrow> limit_policy" where
  "failures_policy free = Backoff free minute_ms hour_ms hour_ms"

fun policy_of :: "policy_name \<Rightarrow> limit_policy" where
  "policy_of PLogin = failures_policy 5"
| "policy_of PLoginUser = Backoff 20 minute_ms (15 * minute_ms) hour_ms"
| "policy_of PLoginIp = Window 30 minute_ms"
| "policy_of PTotp = failures_policy 5"
| "policy_of PSwitch = Window 3 (10 * minute_ms)"
| "policy_of PSwitchIp = Window 10 minute_ms"
| "policy_of PPassword = failures_policy 5"
| "policy_of PPasswordAttempts = Window 10 minute_ms"
| "policy_of PTelegramOtp = failures_policy 5"
| "policy_of PAssistant = Window 40 (10 * minute_ms)"

lemmas policy_defs = failures_policy_def minute_ms_def hour_ms_def

record lock_subject =
  ls_user_id :: "string option"
  ls_username :: "string option"
  ls_ip :: "string option"

text \<open>A lock notice: the \<open>auth.locked\<close> event, and the audit entry written with it.\<close>

record lock_notice =
  ln_policy :: string
  ln_subject :: lock_subject
  ln_retry_after_sec :: int

record lock_audit =
  la_user_id :: "string option"
  la_username :: string
  la_policy :: string
  la_retry_after_sec :: int
  la_ip :: "string option"

record rate_limits =
  rl_keys :: "policy_name \<Rightarrow> limiter_keys"
  rl_events :: "lock_notice list"
  rl_audit :: "lock_audit list"

definition rate_limits_init :: rate_limits where
  "rate_limits_init = \<lparr>rl_keys = (\<lambda>_. []), rl_events = [], rl_audit = []\<rparr>"

definition ceil_div :: "int \<Rightarrow> int \<Rightarrow> int" where
  "ceil_div x d = - ((- x) div d)"

definition set_keys :: "rate_limits \<Rightarrow> policy_name \<Rightarrow> limiter_keys \<Rightarrow> rate_limits" where
  "set_keys rl p ks = rl\<lparr>rl_keys := (rl_keys rl)(p := ks)\<rparr>"

definition throw_if_waiting :: "int \<Rightarrow> unit result" where
  "throw_if_waiting wait_ms =
     (if wait_ms \<le> 0 then Inr ()
      else fail_info TooManyRequests ''RATE_LIMITED'' ''Too many attempts, try again later''
             [(''retryAfter'', ceil_div wait_ms 1000)])"

definition rl_wait_seconds :: "rate_limits \<Rightarrow> policy_name \<Rightarrow> string \<Rightarrow> int \<Rightarrow> int \<times> rate_limits" where
  "rl_wait_seconds rl p key now =
     (case lim_retry_after (policy_of p) (rl_keys rl p) key now of
        (d, ks) \<Rightarrow> (ceil_div d 1000, set_keys rl p ks))"

definition rl_check :: "rate_limits \<Rightarrow> policy_name \<Rightarrow> string \<Rightarrow> int \<Rightarrow> unit result \<times> rate_limits" where
  "rl_check rl p key now =
     (case lim_retry_after (policy_of p) (rl_keys rl p) key now of
        (d, ks) \<Rightarrow> (throw_if_waiting d, set_keys rl p ks))"

definition rl_hit :: "rate_limits \<Rightarrow> policy_name \<Rightarrow> string \<Rightarrow> int \<Rightarrow> unit result \<times> rate_limits" where
  "rl_hit rl p key now =
     (case lim_hit (policy_of p) (rl_keys rl p) key now of
        Inl e \<Rightarrow> (Inl e, rl)
      | Inr (d, ks) \<Rightarrow> (throw_if_waiting d, set_keys rl p ks))"

definition rl_fail :: "rate_limits \<Rightarrow> policy_name \<Rightarrow> string \<Rightarrow> lock_subject \<Rightarrow> int \<Rightarrow> unit result \<times> rate_limits" where
  "rl_fail rl p key subject now =
     (case lim_fail (policy_of p) (rl_keys rl p) key now of
        Inl e \<Rightarrow> (Inl e, rl)
      | Inr (r, ks) \<Rightarrow>
          (Inr (),
           if \<not> just_locked r then set_keys rl p ks
           else let sec = ceil_div (lock_ms r) 1000 in
             (set_keys rl p ks)
               \<lparr>rl_events := rl_events rl @ [\<lparr>ln_policy = policy_key p, ln_subject = subject, ln_retry_after_sec = sec\<rparr>],
                rl_audit := rl_audit rl @
                  [\<lparr>la_user_id = ls_user_id subject,
                    la_username = (case ls_username subject of None \<Rightarrow> ''?'' | Some n \<Rightarrow> n),
                    la_policy = policy_key p, la_retry_after_sec = sec, la_ip = ls_ip subject\<rparr>]\<rparr>))"

definition rl_succeed :: "rate_limits \<Rightarrow> policy_name \<Rightarrow> string \<Rightarrow> rate_limits" where
  "rl_succeed rl p key = set_keys rl p (lim_reset (rl_keys rl p) key)"

definition rl_prune :: "rate_limits \<Rightarrow> int \<Rightarrow> rate_limits" where
  "rl_prune rl now = rl\<lparr>rl_keys := (\<lambda>p. lim_prune (policy_of p) (rl_keys rl p) now)\<rparr>"

text \<open>Passing a check, and being locked, as predicates on the limiter state.\<close>

definition locked :: "rate_limits \<Rightarrow> policy_name \<Rightarrow> string \<Rightarrow> int \<Rightarrow> bool" where
  "locked rl p key now \<longleftrightarrow> fst (lim_retry_after (policy_of p) (rl_keys rl p) key now) > 0"

lemma throw_if_waiting_ok [simp]: "is_ok (throw_if_waiting d) \<longleftrightarrow> d \<le> 0"
  by (simp add: throw_if_waiting_def)

lemma rl_check_ok_iff: "is_ok (fst (rl_check rl p key now)) \<longleftrightarrow> \<not> locked rl p key now"
  by (auto simp: rl_check_def locked_def split: prod.splits)

lemma rl_check_preserves:
  "live (policy_of q) (rl_keys (snd (rl_check rl p key now)) q) k t =
     (if q = p \<and> k = key \<and> live (policy_of p) (rl_keys rl p) key now = None then None
      else live (policy_of q) (rl_keys rl q) k t)"
proof -
  have "snd (lim_retry_after (policy_of p) (rl_keys rl p) key now) =
      snd (lim_current (policy_of p) (rl_keys rl p) key now)"
    by (cases "lim_current (policy_of p) (rl_keys rl p) key now")
       (auto simp: lim_retry_after_def split: option.splits)
  then show ?thesis
    using jget_current [of "policy_of p" "rl_keys rl p" key now k]
    by (auto simp: rl_check_def set_keys_def live_eq [of _ _ k t] split: prod.splits)
qed

text \<open>A failure with a positive lock locks the key for exactly that long.\<close>

lemma lim_fail_locks:
  assumes "lim_fail (Backoff free base mx forget) ks key now = Inr (r, ks2)"
    and "0 < lock_ms r" and "now \<le> t" and "t < now + lock_ms r"
  shows "fst (lim_retry_after (Backoff free base mx forget) ks2 key t) = now + lock_ms r - t"
proof -
  from lim_fail_Backoff [OF assms(1)] assms(2)
  obtain st where "jget ks2 key = Some st" and "ks_locked st = now + lock_ms r"
    by (auto simp: Let_def split: if_splits)
  with assms(3,4) show ?thesis by (simp add: retry_after_live live_eq expires_at_def)
qed

section \<open>Re-checking a password (password-recheck.service.ts)\<close>

text \<open>
  The comparison is awaited, so the code runs in two atomic parts with other requests between
  them: everything up to the comparison, and what follows its result.
\<close>

definition recheck_begin :: "rate_limits \<Rightarrow> user \<Rightarrow> int \<Rightarrow> unit result \<times> rate_limits" where
  "recheck_begin rl u now =
     (case rl_check rl PPassword (u_id u) now of
        (Inl e, rl1) \<Rightarrow> (Inl e, rl1)
      | (Inr _, rl1) \<Rightarrow> rl_hit rl1 PPasswordAttempts (u_id u) now)"

definition recheck_finish :: "rate_limits \<Rightarrow> user \<Rightarrow> string option \<Rightarrow> bool \<Rightarrow> int \<Rightarrow> unit result \<times> rate_limits" where
  "recheck_finish rl u ip matches now =
     (if \<not> matches
      then case rl_fail rl PPassword (u_id u)
                  \<lparr>ls_user_id = Some (u_id u), ls_username = Some (u_name u), ls_ip = ip\<rparr> now of
             (Inl e, rl1) \<Rightarrow> (Inl e, rl1)
           | (Inr _, rl1) \<Rightarrow> (fail_code BadRequest ''INVALID_PASSWORD'' ''Invalid password'', rl1)
      else (Inr (), rl_succeed rl PPassword (u_id u)))"

text \<open>The whole check when nothing runs in between; \<open>compare_password\<close> is bcrypt's comparison.\<close>

definition recheck_assert ::
  "(string \<Rightarrow> string \<Rightarrow> bool) \<Rightarrow> rate_limits \<Rightarrow> user \<Rightarrow> string \<Rightarrow> string option \<Rightarrow> int \<Rightarrow> int \<Rightarrow> unit result \<times> rate_limits" where
  "recheck_assert compare_password rl u pw ip t0 t1 =
     (case recheck_begin rl u t0 of
        (Inl e, rl1) \<Rightarrow> (Inl e, rl1)
      | (Inr _, rl1) \<Rightarrow> recheck_finish rl1 u ip (compare_password pw (u_password u)) t1)"

end
