(* ===== verification/Access_Properties.thy ===== *)
theory Access_Properties
  imports Guards Rate_Limit
begin

text \<open>The properties of access maps, the route guards and the brute force protection.\<close>

section \<open>Access maps and guards\<close>

text \<open>
  Merging access maps gives, for every area, a level exactly when one of the merged maps
  gives it: the highest one wins, and no area gets a level nobody gave.
\<close>

theorem merge_access_highest:
  assumes "\<forall>m \<in> set maps. jsmap_ok m"
  shows "jsmap_ok (merge_access maps) \<and>
     (level_at_least (jget (merge_access maps) a) l \<longleftrightarrow> (\<exists>m \<in> set maps. level_at_least (jget m a) l))"
  using acc.merge_iff [OF assms, of a l] by (simp add: grants_level_def)

theorem merge_access_highest_witness:
  "let maps = [[(AFiles, LRead), (APower, LManage)], [(AFiles, LWrite)]] in
   (level_at_least (jget (merge_access maps) AFiles) LWrite \<longleftrightarrow>
      (\<exists>m \<in> set maps. level_at_least (jget m AFiles) LWrite)) \<and>
   merge_access maps = [(AFiles, LWrite), (APower, LManage)]"
  using merge_access_highest [of "[[(AFiles, LRead), (APower, LManage)], [(AFiles, LWrite)]]" AFiles LWrite]
  by (simp add: jsmap_ok_def merge_access_def merge_entry_def)

text \<open>
  Turning flat permissions into levels and back loses none of them, and turning levels into
  flat permissions and back never gives a level that was not there.
\<close>

theorem legacy_round_trip:
  "set (filter is_legacy_permission keys) \<subseteq> set (legacy_from_access (access_from_legacy keys)) \<and>
   access_within (access_from_legacy (legacy_from_access levels)) levels"
proof
  let ?maps = "map (\<lambda>k. case jget legacy_permission_access k of None \<Rightarrow> [] | Some m \<Rightarrow> m)"
  show "set (filter is_legacy_permission keys) \<subseteq> set (legacy_from_access (access_from_legacy keys))"
  proof
    fix k assume "k \<in> set (filter is_legacy_permission keys)"
    then obtain m where k: "k \<in> set keys" and m: "jget legacy_permission_access k = Some m"
      by (auto simp: is_legacy_permission_def)
    have ok: "jsmap_ok x" if "x \<in> set (?maps keys)" for x
      using that legacy_maps_ok by (auto split: option.splits)
    moreover have "m \<in> set (?maps keys)" using k m by (force split: option.splits)
    ultimately have "access_within m (merge_access (?maps keys))"
      by (intro acc.part_within_merge) auto
    moreover have "(k, m) \<in> set legacy_permission_access" using m by (rule map_of_SomeD)
    ultimately show "k \<in> set (legacy_from_access (access_from_legacy keys))"
      by (force simp: legacy_from_access_def access_from_legacy_def)
  qed
next
  have "level_at_least (jget levels a) l"
    if "entries_grant (access_from_legacy (legacy_from_access levels)) a l" for a l
  proof -
    from that obtain k where k: "k \<in> set (legacy_from_access levels)"
      and g: "entries_grant (case jget legacy_permission_access k of None \<Rightarrow> [] | Some m \<Rightarrow> m) a l"
      by (auto simp: access_from_legacy_def entries_grant_ok merge_access_grants)
    from k obtain m where m: "(k, m) \<in> set legacy_permission_access" and w: "access_within m levels"
      by (auto simp: legacy_from_access_def)
    from m have "jget legacy_permission_access k = Some m"
      using legacy_table_ok by (simp add: jsmap_ok_in_iff)
    with g w show ?thesis by (simp add: access_within_iff grants_level_def)
  qed
  then show "access_within (access_from_legacy (legacy_from_access levels)) levels"
    by (simp add: access_within_iff grants_level_def)
qed


definition ex_limited_user :: user where
  "ex_limited_user =
     \<lparr>u_id = ''u'', u_name = ''n'', u_password = ''p'', u_roles = [], u_grants = [], u_ext = [],
      u_access = \<lparr>acc_levels = [(AFiles, LRead)], acc_ext = []\<rparr>,
      u_restrict = \<lparr>rs_enabled = True, rs_allowed = [''s1'']\<rparr>, is_admin = False, u_oobe = True,
      u_totp_secret = None, u_totp_enabled = False, u_tg2fa = False, u_primary = None\<rparr>"


section \<open>Brute force protection\<close>

text \<open>
  A window limit lets exactly its limit of attempts through in a window that starts with
  the first attempt, and tells every later one to wait until the window is over.
\<close>

theorem window_allows_limit:
  assumes "jget ks key = None" and "0 \<le> t0" and "0 \<le> lim" and "0 < w"
    and "\<forall>t \<in> set ts. t0 \<le> t \<and> t < t0 + w"
  shows "lim_hits (Window lim w) ks key (t0 # ts) =
     map (\<lambda>(t, i). if int i \<le> lim then 0 else t0 + w - t) (zip (t0 # ts) [1..<Suc (Suc (length ts))])"
proof -
  let ?p = "Window lim w"
  obtain d ks2 where hit: "lim_hit ?p ks key t0 = Inr (d, ks2)" using lim_hit_total by blast
  have live: "live_or_new ?p ks key t0 = \<lparr>ks_count = 0, ks_since = t0, ks_locked = 0\<rparr>"
    using assms(1) by (simp add: live_or_new_def live_eq)
  from lim_hit_Window [OF hit] live have d: "d = window_wait lim w t0 t0 1"
    and nxt: "in_window lim w t0 ks2 key 1"
    using assms(2,4) by (auto simp: window_wait_def in_window_def Let_def)
  have fn: "(\<lambda>(t, i). window_wait lim w t0 t i) = (\<lambda>(t, i). if int i \<le> lim then 0 else t0 + w - t)"
    by (auto simp: window_wait_def)
  have "lim_hits ?p ks key (t0 # ts) = window_wait lim w t0 t0 1 #
      map (\<lambda>(t, i). window_wait lim w t0 t i) (zip ts [Suc 1..<Suc 1 + length ts])"
    using hits_in_window [OF nxt assms(5,2)] hit d by simp
  then show ?thesis by (simp add: fn [symmetric] upt_conv_Cons del: upt_Suc)
qed

theorem window_allows_limit_witness:
  "lim_hits (policy_of PSwitch) [] ''c'' [10, 11, 12, 600009] = [0, 0, 0, 1]"
  using window_allows_limit [of "[]" "''c''" 10 3 600000 "[11, 12, 600009]"]
  by (simp add: policy_defs upt_conv_Cons)

text \<open>
  A run of failures with less than the memory of the policy between two of them: the first
  \<open>free_failures\<close> cost nothing, after that each one locks for twice as long as the one
  before, up to the maximum.
\<close>

theorem backoff_doubles:
  assumes "jget ks key = None" and "0 \<le> t0" and "0 \<le> free" and "within_memory forget t0 ts"
  shows "map lock_ms (lim_fails (Backoff free base mx forget) ks key (t0 # ts)) =
     map (\<lambda>n. if int n \<le> free then 0 else min (base * 2 ^ nat (int n - free - 1)) mx)
       [1..<Suc (Suc (length ts))]"
proof -
  let ?p = "Backoff free base mx forget"
  obtain r ks2 where f: "lim_fail ?p ks key t0 = Inr (r, ks2)" using lim_fail_total by blast
  have live: "live_or_new ?p ks key t0 = \<lparr>ks_count = 0, ks_since = t0, ks_locked = 0\<rparr>"
    using assms(1) by (simp add: live_or_new_def live_eq)
  from lim_fail_Backoff [OF f] live have r: "lock_ms r = backoff_lock free base mx 1"
    and nxt: "after_failures free base mx ks2 key t0 1"
    by (auto simp: backoff_lock_def after_failures_def Let_def)
  have fn: "backoff_lock free base mx =
      (\<lambda>n. if int n \<le> free then 0 else min (base * 2 ^ nat (int n - free - 1)) mx)"
    by (auto simp: backoff_lock_def)
  have "map lock_ms (lim_fails ?p ks key (t0 # ts)) =
      backoff_lock free base mx 1 # map (backoff_lock free base mx) [Suc 1..<Suc 1 + length ts]"
    using fails_in_memory [OF nxt assms(4,2,3)] f r by simp
  then show ?thesis by (simp add: fn [symmetric] upt_conv_Cons del: upt_Suc)
qed

theorem backoff_doubles_witness:
  "map lock_ms (lim_fails (policy_of PLogin) [] ''ip|name'' [0, 1, 2, 3, 4, 5, 6, 7]) =
     [0, 0, 0, 0, 0, 60000, 120000, 240000]"
  using backoff_doubles [of "[]" "''ip|name''" 0 5 3600000 "[1, 2, 3, 4, 5, 6, 7]" 60000 3600000]
  by (simp add: policy_defs upt_conv_Cons)

text \<open>
  A lock is enforced for exactly its length: after a failure that locks, the same key is
  refused with the remaining seconds until the lock is over, and no other key is affected.
\<close>

theorem failure_lock_enforced:
  assumes "policy_of p = Backoff free base mx forget"
    and "lim_fail (policy_of p) (rl_keys rl p) key now = Inr (r, ks)" and "0 < lock_ms r"
    and "rl_fail rl p key subject now = (Inr (), rl2)" and "now \<le> t"
  shows "(t < now + lock_ms r \<longrightarrow> fst (rl_check rl2 p key t) =
       fail_info TooManyRequests ''RATE_LIMITED'' ''Too many attempts, try again later''
         [(''retryAfter'', ceil_div (now + lock_ms r - t) 1000)]) \<and>
     (now + lock_ms r \<le> t \<longrightarrow> fst (rl_check rl2 p key t) = Inr ()) \<and>
     (\<forall>q k. (q, k) \<noteq> (p, key) \<longrightarrow> locked rl2 q k t = locked rl q k t)"
proof -
  note fail = assms(2) [unfolded assms(1)]
  have keys: "rl_keys rl2 = (rl_keys rl)(p := ks)"
    using assms(2,4) by (auto simp: rl_fail_def set_keys_def Let_def split: if_splits)
  have chk: "fst (rl_check rl2 p key t) = throw_if_waiting (fst (lim_retry_after (policy_of p) ks key t))"
    by (simp add: rl_check_def keys split: prod.splits)
  obtain st where st: "jget ks key = Some st" and l: "ks_locked st = now + lock_ms r"
    using lim_fail_Backoff [OF fail] assms(3) by (auto simp: Let_def split: if_splits)
  have after: "fst (lim_retry_after (policy_of p) ks key t) \<le> 0" if "now + lock_ms r \<le> t"
    using that l st by (simp add: retry_after_live live_eq)
  have other: "jget ks k = jget (rl_keys rl p) k" if "k \<noteq> key" for k
    using lim_fail_Backoff [OF fail] that by (simp add: Let_def)
  have "locked rl2 q k t = locked rl q k t" if "(q, k) \<noteq> (p, key)" for q k
    using that other [of k] by (auto simp: locked_def keys retry_after_live live_eq)
  moreover have "fst (lim_retry_after (policy_of p) ks key t) = now + lock_ms r - t" if "t < now + lock_ms r"
    using lim_fail_locks [OF fail assms(3,5) that] assms(1) by simp
  ultimately show ?thesis using chk after by (auto simp: throw_if_waiting_def)
qed

theorem failure_lock_enforced_witness:
  "let ks0 = [(''k'', \<lparr>ks_count = 5, ks_since = 0, ks_locked = 0\<rparr>)];
       rl = rate_limits_init\<lparr>rl_keys := (\<lambda>_. ks0)\<rparr>;
       s = \<lparr>ls_user_id = None, ls_username = None, ls_ip = None\<rparr>;
       rl2 = snd (rl_fail rl PTotp ''k'' s 7)
   in fst (rl_check rl2 PTotp ''k'' 1007) =
       fail_info TooManyRequests ''RATE_LIMITED'' ''Too many attempts, try again later'' [(''retryAfter'', 59)]"
proof -
  let ?ks0 = "[(''k'', \<lparr>ks_count = 5, ks_since = 0, ks_locked = 0\<rparr>)]"
  let ?rl = "rate_limits_init\<lparr>rl_keys := (\<lambda>_. ?ks0)\<rparr>"
  let ?s = "\<lparr>ls_user_id = None, ls_username = None, ls_ip = None\<rparr>"
  let ?r = "\<lparr>lock_ms = 60000, just_locked = True\<rparr>"
  let ?ks = "[(''k'', \<lparr>ks_count = 6, ks_since = 7, ks_locked = 60007\<rparr>)]"
  have f: "lim_fail (policy_of PTotp) (rl_keys ?rl PTotp) ''k'' 7 = Inr (?r, ?ks)"
    by (simp add: lim_fail_def lim_state_def lim_current_def expires_at_def policy_defs Let_def)
  then have "rl_fail ?rl PTotp ''k'' ?s 7 = (Inr (), snd (rl_fail ?rl PTotp ''k'' ?s 7))"
    unfolding rl_fail_def by (simp only: f sum.case prod.case fst_conv snd_conv)
  from failure_lock_enforced [OF _ f _ this, of 5 60000 3600000 3600000 1007] show ?thesis
    by (simp add: policy_defs ceil_div_def Let_def)
qed

text \<open>
  The periodic cleanup of limiter entries is invisible: at any time from the cleanup on, a
  key is locked exactly when it would have been without it.
\<close>

theorem prune_invisible:
  assumes "\<forall>q. jsmap_ok (rl_keys rl q)" and "now \<le> t"
  shows "locked (rl_prune rl now) p key t = locked rl p key t"
  using lim_prune_live [of "rl_keys rl p" now t "policy_of p" key] assms
  by (simp add: locked_def rl_prune_def retry_after_live)

theorem prune_invisible_witness:
  "let rl = rate_limits_init\<lparr>rl_keys := (\<lambda>_. [(''k'', \<lparr>ks_count = 6, ks_since = 7, ks_locked = 60007\<rparr>),
                                              (''old'', \<lparr>ks_count = 1, ks_since = 0, ks_locked = 0\<rparr>)])\<rparr>
   in locked (rl_prune rl 5000) PTotp ''k'' 5001 = locked rl PTotp ''k'' 5001"
  unfolding Let_def by (rule prune_invisible) (simp_all add: jsmap_ok_def)

subsection \<open>Keys of addresses\<close>

definition v6_group :: "string \<Rightarrow> bool" where
  "v6_group g \<longleftrightarrow> g \<noteq> [] \<and> set g \<subseteq> set ''0123456789abcdef''"

lemma to_lower_group: "v6_group g \<Longrightarrow> to_lower g = g"
proof -
  have "lower_char c = c" if "c \<in> set ''0123456789abcdef''" for c
    using that by (auto simp: lower_char_def Let_def)
  then show "v6_group g \<Longrightarrow> ?thesis" by (auto simp: v6_group_def to_lower_def intro!: map_idI)
qed

lemma to_lower_append [simp]: "to_lower (a @ b) = to_lower a @ to_lower b"
  by (simp add: to_lower_def)

lemma to_lower_join: "\<forall>g \<in> set gs. v6_group g \<Longrightarrow> to_lower (join '':'' gs) = join '':'' gs"
  by (induction gs) (auto simp: join_Cons to_lower_group, auto simp: to_lower_def lower_char_def)

lemma v6_group_chars: "v6_group g \<Longrightarrow> CHR '':'' \<notin> set g \<and> CHR ''%'' \<notin> set g"
  by (auto simp: v6_group_def)

lemma join_no_percent: "\<forall>g \<in> set gs. v6_group g \<Longrightarrow> CHR ''%'' \<notin> set (join '':'' gs)"
  by (induction gs) (auto simp: join_Cons dest: v6_group_chars)

text \<open>Two colons in a row need an empty group.\<close>

lemma join_no_double:
  assumes "\<forall>g \<in> set gs. v6_group g" shows "join '':'' gs \<noteq> ys @ ''::'' @ zs"
proof
  assume eq: "join '':'' gs = ys @ ''::'' @ zs"
  show False
  proof (cases "gs = []")
    case True
    with eq show False by simp
  next
    case False
    have split: "split_on c (a @ c # b) = split_on c a @ split_on c b" for c and a b :: string
    proof (induction a)
      case Nil
      show ?case by simp
    next
      case (Cons x a)
      then show ?case by (cases "split_on c a") auto
    qed
    have "split_on CHR '':'' (join '':'' gs) = gs"
      using assms False by (intro split_on_join) (auto dest: v6_group_chars)
    moreover have "[] \<in> set (split_on CHR '':'' (ys @ ''::'' @ zs))"
      using split [of "CHR '':''" ys "'':'' @ zs"] by simp
    ultimately have "[] \<in> set gs" using eq by simp
    with assms show False by (auto simp: v6_group_def)
  qed
qed

lemma ip_key_full:
  assumes "\<forall>g \<in> set gs. v6_group g" and "2 \<le> length gs"
  shows "ip_key (Some (join '':'' gs)) = join '':'' (map strip_zeros (take 4 gs)) @ ''::/64''"
proof -
  obtain g h r where gs: "gs = g # h # r" using assms(2)
    by (metis One_nat_def Suc_1 Suc_le_length_iff)
  let ?s = "join '':'' gs"
  have colon: "CHR '':'' \<in> set ?s" and ne: "?s \<noteq> []" by (simp_all add: gs)
  have hd: "hd (split_on CHR ''%'' ?s) = ?s" using join_no_percent [OF assms(1)] by simp
  have parts: "split_str ''::'' ?s = [?s]"
    by (rule split_str_absent) (use join_no_double [OF assms(1)] in blast)
  have none: "index_of ''::'' ?s = None"
  proof (cases "index_of ''::'' ?s")
    case (Some i)
    then have "prefix ''::'' (drop i ?s)" using index_of_Some by blast
    then obtain zs where "drop i ?s = ''::'' @ zs" by (auto simp: prefix_def)
    then have "?s = take i ?s @ ''::'' @ zs" by (metis append_take_drop_id)
    with join_no_double [OF assms(1)] show ?thesis by blast
  qed
  have groups: "split_on CHR '':'' ?s = gs"
    using assms(1) by (intro split_on_join) (auto simp: gs dest: v6_group_chars)
  show ?thesis
    using colon ne
    by (simp only: ip_key_def option.case if_False if_True not_not hd to_lower_join [OF assms(1)] parts
        none groups Let_def list.sel list.case simp_thms append_Nil2 replicate.simps nat_0 max.idem split: if_split)
qed

text \<open>
  IPv6 addresses of one /64 share their limiter keys: two addresses with the same first
  four groups (leading zeros aside) have the same key, so walking through the addresses of a
  subnet gives no new attempts.
\<close>

theorem ip_key_subnet:
  assumes "\<forall>g \<in> set gs \<union> set hs. v6_group g" and "length gs = 8" and "length hs = 8"
    and "map strip_zeros (take 4 gs) = map strip_zeros (take 4 hs)"
  shows "ip_key (Some (join '':'' gs)) = ip_key (Some (join '':'' hs)) \<and>
     login_key (Some (join '':'' gs)) name = login_key (Some (join '':'' hs)) name"
  using assms ip_key_full [of gs] ip_key_full [of hs] by (simp add: login_key_def)

theorem ip_key_subnet_witness:
  "ip_key (Some ''2001:db8:0:1:0:0:0:1'') = ip_key (Some ''2001:0db8:0:1:ffff:0:0:2'') \<and>
   ip_key (Some ''2001:db8:0:1:0:0:0:1'') = ''2001:db8:0:1::/64''"
proof -
  let ?g = "[''2001'', ''db8'', ''0'', ''1'', ''0'', ''0'', ''0'', ''1'']"
  let ?h = "[''2001'', ''0db8'', ''0'', ''1'', ''ffff'', ''0'', ''0'', ''2'']"
  have "\<forall>g \<in> set ?g \<union> set ?h. v6_group g" by (simp add: v6_group_def)
  from ip_key_subnet [OF this] ip_key_full [of ?g] show ?thesis by (simp add: v6_group_def)
qed

end
