(* ===== verification/Roles.thy ===== *)
theory Roles
  imports Policy "HOL-Library.List_Lexorder"
begin

text \<open>
  Stored accounts and roles: \<open>users.repository.ts\<close> and \<open>roles.repository.ts\<close> over the tables of
  migration 019, the migration itself, and \<open>roles.service.ts\<close>.

  The tables of an account (roles, levels, keys, servers) are the fields of its row; foreign
  keys with \<open>ON DELETE CASCADE\<close> are part of a deletion.  The access an account has is not
  stored: reading the account computes it.  Columns the access rules never read (dashboard
  layout, skin, last seen news, FTP password date) are not in the row.
\<close>

record adb =
  db_users :: "user list"
  db_roles :: "role list"
  db_servers :: "string list"

section \<open>Writing and reading access\<close>

text \<open>Levels an area does not have are not written, and not read either.\<close>

definition valid_levels :: "access_map \<Rightarrow> access_map" where
  "valid_levels m = filter (\<lambda>(a, l). is_area_level a (level_key l)) m"

lemma level_key_inj [simp]: "level_key l = level_key k \<longleftrightarrow> l = k"
  by (cases l; cases k) simp_all

lemma is_area_level_key: "is_area_level a (level_key l) \<longleftrightarrow> l \<in> set (area_levels a)"
  by (auto simp: is_area_level_def)

lemma valid_levels_valid [simp]: "levels_valid (valid_levels m)"
  by (auto simp: valid_levels_def levels_valid_def list_all_iff is_area_level_key)

lemma valid_levels_id [simp]: "levels_valid m \<Longrightarrow> valid_levels m = m"
  by (auto simp: valid_levels_def levels_valid_def list_all_iff is_area_level_key intro!: filter_True)

lemma valid_levels_mem: "e \<in> set (valid_levels m) \<Longrightarrow> e \<in> set m"
  by (auto simp: valid_levels_def)

lemma valid_levels_grant: "entries_grant (valid_levels m) a l \<Longrightarrow> entries_grant m a l"
  by (auto simp: entries_grant_def dest: valid_levels_mem)

lemma jsmap_ok_valid_levels: "jsmap_ok m \<Longrightarrow> jsmap_ok (valid_levels m)"
  by (simp add: valid_levels_def)

subsection \<open>Roles (roles.repository.ts)\<close>

definition store_role :: "role \<Rightarrow> role" where
  "store_role r = r\<lparr>r_grants := valid_levels (r_grants r), r_ext := uniq (r_ext r)\<rparr>"

definition load_role :: "role \<Rightarrow> role" where
  "load_role r = r\<lparr>r_grants := valid_levels (r_grants r)\<rparr>"

text \<open>\<open>COLLATE NOCASE\<close> folds the ASCII letters.\<close>

definition nocase_char :: "char \<Rightarrow> char" where
  "nocase_char c = (let n = (of_char c :: nat) in if 65 \<le> n \<and> n \<le> 90 then char_of (n + 32) else c)"

definition nocase :: "string \<Rightarrow> string" where "nocase s = map nocase_char s"

definition rr_find_by_id :: "adb \<Rightarrow> string \<Rightarrow> role option" where
  "rr_find_by_id db i = map_option load_role (row_find r_id i (db_roles db))"

definition rr_find_by_name :: "adb \<Rightarrow> string \<Rightarrow> role option" where
  "rr_find_by_name db n =
     map_option load_role (List.find (\<lambda>r. nocase (r_name r) = nocase n) (db_roles db))"

definition rr_find_all :: "adb \<Rightarrow> role list" where
  "rr_find_all db =
     map load_role (filter (\<lambda>r. builtin_key r \<noteq> None) (db_roles db) @
        sort_key (\<lambda>r. nocase (r_name r)) (filter (\<lambda>r. builtin_key r = None) (db_roles db)))"

text \<open>The primary key of the grant rows is (role, area), which the keys of an object always respect.\<close>

definition rr_create :: "adb \<Rightarrow> role \<Rightarrow> adb result" where
  "rr_create db r =
     (if row_find r_id (r_id r) (db_roles db) \<noteq> None \<or>
         list_ex (\<lambda>x. nocase (r_name x) = nocase (r_name r)) (db_roles db) \<or>
         list_ex (\<lambda>x. builtin_key x \<noteq> None \<and> builtin_key x = builtin_key r) (db_roles db) \<or>
         \<not> jsmap_ok (valid_levels (r_grants r))
      then fail Internal ''UNIQUE constraint failed''
      else Inr (db\<lparr>db_roles := row_insert (store_role r) (db_roles db)\<rparr>))"

text \<open>The \<open>UPDATE\<close> leaves \<open>builtinKey\<close> and \<open>createdAt\<close> alone.\<close>

definition patch_role :: "role \<Rightarrow> role \<Rightarrow> role" where
  "patch_role r x =
     x\<lparr>r_name := r_name r, r_description := r_description r, r_updated_at := r_updated_at r,
       r_grants := r_grants (store_role r), r_ext := r_ext (store_role r)\<rparr>"

definition rr_update :: "adb \<Rightarrow> role \<Rightarrow> adb result" where
  "rr_update db r =
     (if list_ex (\<lambda>x. r_id x \<noteq> r_id r \<and> nocase (r_name x) = nocase (r_name r)) (db_roles db) \<or>
         \<not> jsmap_ok (valid_levels (r_grants r))
      then fail Internal ''UNIQUE constraint failed''
      else Inr (db\<lparr>db_roles := row_patch r_id patch_role r (db_roles db)\<rparr>))"

definition rr_delete :: "adb \<Rightarrow> string \<Rightarrow> adb" where
  "rr_delete db i =
     db\<lparr>db_roles := row_delete r_id i (db_roles db),
        db_users := map (\<lambda>u. u\<lparr>u_roles := filter (\<lambda>r. r \<noteq> i) (u_roles u)\<rparr>) (db_users db)\<rparr>"

definition rr_member_ids :: "adb \<Rightarrow> string \<Rightarrow> string list" where
  "rr_member_ids db i = map u_id (filter (\<lambda>u. i \<in> set (u_roles u)) (db_users db))"

definition rr_member_counts :: "adb \<Rightarrow> (string, int) jsmap" where
  "rr_member_counts db =
     map (\<lambda>i. (i, int (length (rr_member_ids db i)))) (uniq (concat (map u_roles (db_users db))))"

subsection \<open>Accounts (users.repository.ts)\<close>

definition store_user :: "adb \<Rightarrow> user \<Rightarrow> user" where
  "store_user db u =
     u\<lparr>u_roles := uniq (filter (\<lambda>i. i \<in> r_id ` set (db_roles db)) (u_roles u)),
       u_grants := valid_levels (u_grants u),
       u_ext := uniq (u_ext u),
       u_access := \<lparr>acc_levels = [], acc_ext = []\<rparr>,
       u_restrict := \<lparr>rs_enabled = rs_enabled (u_restrict u),
                      rs_allowed = uniq (filter (\<lambda>i. i \<in> set (db_servers db)) (rs_allowed (u_restrict u)))\<rparr>,
       u_totp_secret := (if u_totp_enabled u then u_totp_secret u else None)\<rparr>"

definition user_role_rows :: "adb \<Rightarrow> user \<Rightarrow> role list" where
  "user_role_rows db u = filter (\<lambda>r. r_id r \<in> set (u_roles u)) (db_roles db)"

definition load_user :: "adb \<Rightarrow> user \<Rightarrow> user" where
  "load_user db u =
     (let grants = valid_levels (u_grants u);
          rs = user_role_rows db u;
          role_grants = merge_access (map (\<lambda>e. valid_levels [e]) (concat (map r_grants rs)));
          role_ext = uniq (concat (map r_ext rs))
      in u\<lparr>u_grants := grants,
           u_access := \<lparr>acc_levels = merge_access [grants, role_grants],
                        acc_ext = uniq (u_ext u @ role_ext)\<rparr>,
           u_totp_enabled := (case u_totp_secret u of None \<Rightarrow> False | Some s \<Rightarrow> s \<noteq> [])\<rparr>)"

definition ur_find_all :: "adb \<Rightarrow> user list" where
  "ur_find_all db = map (load_user db) (db_users db)"

definition ur_find_by_id :: "adb \<Rightarrow> string \<Rightarrow> user option" where
  "ur_find_by_id db i = map_option (load_user db) (row_find u_id i (db_users db))"

definition ur_find_by_username :: "adb \<Rightarrow> string \<Rightarrow> user option" where
  "ur_find_by_username db n = map_option (load_user db) (row_find u_name n (db_users db))"

definition ur_create :: "adb \<Rightarrow> user \<Rightarrow> adb result" where
  "ur_create db u =
     (if row_find u_id (u_id u) (db_users db) \<noteq> None \<or> row_find u_name (u_name u) (db_users db) \<noteq> None \<or>
         \<not> jsmap_ok (valid_levels (u_grants u))
      then fail Internal ''UNIQUE constraint failed''
      else Inr (db\<lparr>db_users := row_insert (store_user db u) (db_users db)\<rparr>))"

definition ur_update :: "adb \<Rightarrow> user \<Rightarrow> adb result" where
  "ur_update db u =
     (if list_ex (\<lambda>x. u_id x \<noteq> u_id u \<and> u_name x = u_name u) (db_users db) \<or>
         \<not> jsmap_ok (valid_levels (u_grants u))
      then fail Internal ''UNIQUE constraint failed''
      else Inr (db\<lparr>db_users := row_patch u_id (\<lambda>r x. store_user db r) u (db_users db)\<rparr>))"

definition ur_delete :: "adb \<Rightarrow> string \<Rightarrow> adb" where
  "ur_delete db i = db\<lparr>db_users := row_delete u_id i (db_users db)\<rparr>"

section \<open>What a stored account can do\<close>

lemma merge_singletons:
  "entries_grant (merge_access (map (\<lambda>e. valid_levels [e]) es)) a l \<longleftrightarrow> entries_grant (valid_levels es) a l"
proof -
  have "(\<exists>e \<in> set es. entries_grant (valid_levels [e]) a l) \<longleftrightarrow> entries_grant (valid_levels es) a l"
    by (force simp: entries_grant_def valid_levels_def split: if_splits)
  then show ?thesis by (simp add: entries_grant_ok merge_access_grants)
qed

lemma entries_grant_concat:
  "entries_grant (valid_levels (concat ms)) a l \<longleftrightarrow> (\<exists>m \<in> set ms. entries_grant (valid_levels m) a l)"
  by (auto simp: entries_grant_def valid_levels_def)

text \<open>The levels of a loaded account are those of its own grants and of its roles.\<close>

lemma load_user_levels:
  "entries_grant (acc_levels (u_access (load_user db u))) a l \<longleftrightarrow>
     entries_grant (valid_levels (u_grants u)) a l \<or>
     (\<exists>r \<in> set (user_role_rows db u). entries_grant (valid_levels (r_grants r)) a l)"
proof -
  have "entries_grant (acc_levels (u_access (load_user db u))) a l \<longleftrightarrow>
      entries_grant (valid_levels (u_grants u)) a l \<or>
      entries_grant (merge_access (map (\<lambda>e. valid_levels [e]) (concat (map r_grants (user_role_rows db u))))) a l"
    by (simp add: load_user_def Let_def entries_grant_ok merge_access_grants)
  then show ?thesis by (simp add: merge_singletons entries_grant_concat)
qed

lemma load_user_ext:
  "set (acc_ext (u_access (load_user db u))) =
     set (u_ext u) \<union> (\<Union>r \<in> set (user_role_rows db u). set (r_ext r))"
  by (auto simp: load_user_def Let_def)

lemma load_user_ok [simp]: "jsmap_ok (acc_levels (u_access (load_user db u)))"
  by (simp add: load_user_def Let_def)

lemma load_user_simps [simp]:
  "u_id (load_user db u) = u_id u" "u_name (load_user db u) = u_name u"
  "u_roles (load_user db u) = u_roles u" "u_ext (load_user db u) = u_ext u"
  "u_restrict (load_user db u) = u_restrict u" "is_admin (load_user db u) = is_admin u"
  "u_password (load_user db u) = u_password u"
  "u_grants (load_user db u) = valid_levels (u_grants u)"
  by (simp_all add: load_user_def Let_def)

lemma store_user_simps [simp]:
  "u_id (store_user db u) = u_id u" "u_name (store_user db u) = u_name u"
  "is_admin (store_user db u) = is_admin u" "u_password (store_user db u) = u_password u"
  "u_grants (store_user db u) = valid_levels (u_grants u)" "u_ext (store_user db u) = uniq (u_ext u)"
  "rs_enabled (u_restrict (store_user db u)) = rs_enabled (u_restrict u)"
  by (simp_all add: store_user_def)

lemma user_role_rows_store:
  "set (user_role_rows db (store_user db u)) = {r \<in> set (db_roles db). r_id r \<in> set (u_roles u)}"
  by (auto simp: user_role_rows_def store_user_def)

lemma store_allowed: "set (rs_allowed (u_restrict (store_user db u))) \<subseteq> set (rs_allowed (u_restrict u))"
  by (auto simp: store_user_def)

section \<open>The service (roles.service.ts)\<close>

type_synonym role_view = "role \<times> int"

record role_input =
  ri_name :: "string option"
  ri_description :: "string option option"
  ri_grants :: "access_map option"
  ri_ext :: "string list option"

definition trim_or_null :: "string option \<Rightarrow> string option" where
  "trim_or_null d = (case d of None \<Rightarrow> None | Some s \<Rightarrow> let t = trim s in if t = [] then None else Some t)"

definition roles_list :: "adb \<Rightarrow> role_view list" where
  "roles_list db =
     (let counts = rr_member_counts db in
      map (\<lambda>r. (r, case jget counts (r_id r) of None \<Rightarrow> 0 | Some n \<Rightarrow> n)) (rr_find_all db))"

definition roles_find :: "adb \<Rightarrow> string \<Rightarrow> role result" where
  "roles_find db i = (case rr_find_by_id db i of None \<Rightarrow> fail NotFound ''Role not found'' | Some r \<Rightarrow> Inr r)"

definition roles_get :: "adb \<Rightarrow> string \<Rightarrow> role_view result" where
  "roles_get db i = and_then (roles_find db i) (\<lambda>r. Inr (r, int (length (rr_member_ids db i))))"

fun resolve_ids :: "adb \<Rightarrow> string list \<Rightarrow> role list result" where
  "resolve_ids db [] = Inr []"
| "resolve_ids db (i # is) =
     (case rr_find_by_id db i of
        None \<Rightarrow> fail_code BadRequest ''ROLE_UNKNOWN'' (''Role '' @ i @ '' does not exist'')
      | Some r \<Rightarrow> and_then (resolve_ids db is) (\<lambda>rs. Inr (r # rs)))"

definition roles_resolve :: "adb \<Rightarrow> string list \<Rightarrow> role list result" where
  "roles_resolve db ids = resolve_ids db (uniq ids)"

definition roles_name_of :: "adb \<Rightarrow> string \<Rightarrow> string" where
  "roles_name_of db i = (case rr_find_by_id db i of None \<Rightarrow> i | Some r \<Rightarrow> r_name r)"

definition free_name :: "adb \<Rightarrow> string \<Rightarrow> string option \<Rightarrow> string result" where
  "free_name db n self =
     (case rr_find_by_name db n of
        None \<Rightarrow> Inr n
      | Some other \<Rightarrow>
          if Some (r_id other) \<noteq> self
          then fail_code Conflict ''ROLE_NAME_TAKEN'' (''Role '' @ [CHR 34] @ n @ [CHR 34] @ '' already exists'')
          else Inr n)"

definition roles_members :: "adb \<Rightarrow> string \<Rightarrow> user list" where
  "roles_members db i =
     concat (map (\<lambda>uid. case ur_find_by_id db uid of None \<Rightarrow> [] | Some u \<Rightarrow> [u]) (rr_member_ids db i))"

definition roles_create :: "adb \<Rightarrow> user \<Rightarrow> role_input \<Rightarrow> string \<Rightarrow> string \<Rightarrow> int \<Rightarrow> (role_view \<times> adb) result" where
  "roles_create db actor inp name rid now =
     and_then (free_name db (trim name) None) (\<lambda>n.
       let r = \<lparr>r_id = rid, r_name = n,
                r_description = trim_or_null (case ri_description inp of None \<Rightarrow> None | Some d \<Rightarrow> d),
                builtin_key = None,
                r_grants = (case ri_grants inp of None \<Rightarrow> [] | Some g \<Rightarrow> g),
                r_ext = uniq (case ri_ext inp of None \<Rightarrow> [] | Some e \<Rightarrow> e),
                r_created_at = now, r_updated_at = now\<rparr>
       in and_then (enforce_policy (can_use_role actor r)) (\<lambda>_.
          and_then (rr_create db r) (\<lambda>db1.
          and_then (roles_get db1 rid) (\<lambda>v. Inr (v, db1)))))"

definition updated_role :: "role \<Rightarrow> role_input \<Rightarrow> string \<Rightarrow> int \<Rightarrow> role" where
  "updated_role before inp name now =
     before\<lparr>r_name := name,
       r_description := (case ri_description inp of None \<Rightarrow> r_description before | Some d \<Rightarrow> trim_or_null d),
       r_grants := (case ri_grants inp of None \<Rightarrow> r_grants before | Some g \<Rightarrow> g),
       r_ext := (case ri_ext inp of None \<Rightarrow> r_ext before | Some e \<Rightarrow> uniq e),
       r_updated_at := now\<rparr>"

text \<open>The result carries the ids of the members whose access changed (\<open>user.access_changed\<close>).\<close>

definition roles_update ::
  "adb \<Rightarrow> user \<Rightarrow> string \<Rightarrow> role_input \<Rightarrow> int \<Rightarrow> (role \<times> role_view \<times> string list \<times> adb) result" where
  "roles_update db actor i inp now =
     and_then (roles_find db i) (\<lambda>before.
     and_then (enforce_policy (can_use_role actor before)) (\<lambda>_.
     let members = roles_members db i in
     and_then (enforce_policy (can_change_role_members actor members)) (\<lambda>_.
     let name = (case ri_name inp of None \<Rightarrow> r_name before | Some n \<Rightarrow> trim n) in
     if (case builtin_key before of None \<Rightarrow> False | Some k \<Rightarrow> k \<noteq> []) \<and> name \<noteq> r_name before
     then fail_code BadRequest ''ROLE_BUILTIN'' ''Built-in roles can't be renamed''
     else and_then (free_name db name (Some i)) (\<lambda>n.
       let nxt = updated_role before inp n now in
       and_then (enforce_policy (can_use_role actor nxt)) (\<lambda>_.
       and_then (rr_update db nxt) (\<lambda>db1.
       and_then (roles_get db1 i) (\<lambda>v.
         Inr (before, v, if ri_grants inp \<noteq> None \<or> ri_ext inp \<noteq> None then map u_id members else [], db1))))))))"

definition roles_remove :: "adb \<Rightarrow> user \<Rightarrow> string \<Rightarrow> (role_view \<times> string list \<times> adb) result" where
  "roles_remove db actor i =
     and_then (roles_get db i) (\<lambda>v.
     if (case builtin_key (fst v) of None \<Rightarrow> False | Some k \<Rightarrow> k \<noteq> [])
     then fail_code BadRequest ''ROLE_BUILTIN'' ''Built-in roles can't be deleted''
     else and_then (enforce_policy (can_use_role actor (fst v))) (\<lambda>_.
       let members = roles_members db i in
       and_then (enforce_policy (can_change_role_members actor members)) (\<lambda>_.
         Inr (v, map u_id members, rr_delete db i))))"

text \<open>
  \<open>copyName\<close> counts up until a candidate is free; the fuel bounds the candidates tried.
\<close>

definition copy_candidate :: "string \<Rightarrow> nat \<Rightarrow> string" where
  "copy_candidate name n = (if n = 1 then name @ '' (copy)'' else name @ '' (copy '' @ digits n @ '')'')"

fun copy_name_from :: "adb \<Rightarrow> string \<Rightarrow> nat \<Rightarrow> nat \<Rightarrow> string option" where
  "copy_name_from db name n 0 = None"
| "copy_name_from db name n (Suc fuel) =
     (if rr_find_by_name db (copy_candidate name n) = None then Some (copy_candidate name n)
      else copy_name_from db name (Suc n) fuel)"

definition copy_name :: "adb \<Rightarrow> string \<Rightarrow> string option" where
  "copy_name db name = copy_name_from db name 1 (Suc (length (db_roles db)))"

definition roles_duplicate ::
  "adb \<Rightarrow> user \<Rightarrow> string \<Rightarrow> string option \<Rightarrow> string \<Rightarrow> int \<Rightarrow> (role_view \<times> adb) result option" where
  "roles_duplicate db actor i name rid now =
     (case roles_find db i of
        Inl e \<Rightarrow> Some (Inl e)
      | Inr src \<Rightarrow>
         (case (case trim_or_null name of None \<Rightarrow> copy_name db (r_name src) | Some n \<Rightarrow> Some n) of
            None \<Rightarrow> None
          | Some n \<Rightarrow> Some (roles_create db actor
              \<lparr>ri_name = Some n, ri_description = Some (r_description src),
               ri_grants = Some (r_grants src), ri_ext = Some (r_ext src)\<rparr> n rid now)))"

section \<open>Copies always find a name\<close>

lemma digits_nocase [simp]: "nocase (digits n) = digits n"
proof (induction n rule: digits.induct)
  case (1 n)
  have d: "nocase_char (char_of (48 + k)) = char_of (48 + k)" if "k < 10" for k :: nat
    using that by (simp add: nocase_char_def Let_def of_char_of)
  show ?case
  proof (cases "n < 10")
    case True
    then show ?thesis by (subst (1 2) digits.simps) (simp add: nocase_def d)
  next
    case False
    have "n mod 10 < 10" by simp
    with 1 False show ?thesis by (subst (1 2) digits.simps) (simp add: nocase_def d)
  qed
qed

lemma nocase_append [simp]: "nocase (a @ b) = nocase a @ nocase b"
  by (simp add: nocase_def)

lemma copy_candidate_inj:
  assumes "nocase (copy_candidate name m) = nocase (copy_candidate name n)" and "0 < m" and "0 < n"
  shows "m = n"
proof -
  have cons: "nocase (c # s) = nocase_char c # nocase s" "nocase [] = []" for c s
    by (simp_all add: nocase_def)
  show ?thesis using assms
    by (auto simp: copy_candidate_def cons nocase_char_def Let_def dest: digits_inj split: if_splits)
qed

lemma copy_name_from_None:
  assumes "copy_name_from db name n fuel = None" and "k < fuel"
  shows "\<exists>r \<in> set (db_roles db). nocase (r_name r) = nocase (copy_candidate name (n + k))"
  using assms
proof (induction fuel arbitrary: n k)
  case 0
  then show ?case by simp
next
  case (Suc fuel)
  show ?case
  proof (cases k)
    case 0
    with Suc.prems show ?thesis
      by (auto simp: rr_find_by_name_def find_None_iff split: if_splits) 
  next
    case (Suc k')
    with Suc.prems Suc.IH [of "Suc n" k'] show ?thesis by (auto split: if_splits)
  qed
qed

lemma copy_name_total: "\<exists>c. copy_name db name = Some c"
proof (rule ccontr)
  assume "\<nexists>c. copy_name db name = Some c"
  then have none: "copy_name_from db name 1 (Suc (length (db_roles db))) = None"
    by (simp add: copy_name_def)
  let ?f = "\<lambda>k. nocase (copy_candidate name (1 + k))"
  let ?K = "{..length (db_roles db)}"
  have "?f ` ?K \<subseteq> (\<lambda>r. nocase (r_name r)) ` set (db_roles db)"
  proof (intro image_subsetI)
    fix k assume "k \<in> ?K"
    then have "k < Suc (length (db_roles db))" by simp
    from copy_name_from_None [OF none this]
    obtain r where "r \<in> set (db_roles db)" "nocase (r_name r) = ?f k" by blast
    then show "?f k \<in> (\<lambda>r. nocase (r_name r)) ` set (db_roles db)" by (metis image_eqI)
  qed
  then have "card (?f ` ?K) \<le> card ((\<lambda>r. nocase (r_name r)) ` set (db_roles db))"
    by (rule card_mono [rotated]) simp
  also have "\<dots> \<le> length (db_roles db)"
    by (metis card_length card_image_le le_trans List.finite_set)
  finally have "card (?f ` ?K) \<le> length (db_roles db)" .
  moreover have "inj_on ?f ?K" by (rule inj_onI) (auto dest: copy_candidate_inj)
  ultimately show False by (simp add: card_image)
qed

lemma copy_name_free: "copy_name db name = Some c \<Longrightarrow> rr_find_by_name db c = None"
proof -
  have "copy_name_from db name n fuel = Some c \<Longrightarrow> rr_find_by_name db c = None" for n fuel
    by (induction fuel arbitrary: n) (auto split: if_splits)
  then show "copy_name db name = Some c \<Longrightarrow> ?thesis" unfolding copy_name_def by blast
qed

end
