(* ===== verification/Sessions.thy ===== *)
theory Sessions
  imports Access
begin

text \<open>
  Login sessions: the rows of \<open>user-sessions.repository.ts\<close> and \<open>sessions.service.ts\<close> over
  them, with the in-memory touch throttle and the emitted events.

  SHA-256 of a token (\<open>hash_token\<close>), the account lookup (\<open>find_user\<close>) and the random id and
  token of a new session are arguments.  A synchronous call reads the clock once (\<open>now\<close>).
\<close>

record session =
  s_id :: string
  s_user_id :: string
  s_token_hash :: string
  s_ip :: "string option"
  s_user_agent :: "string option"
  s_created_at :: int
  s_last_seen_at :: int
  s_expires_at :: "int option"
  s_revoked_at :: "int option"

definition touch_throttle_ms :: int where "touch_throttle_ms = 30000"
definition session_ttl_ms :: int where "session_ttl_ms = 30 * 24 * 60 * 60 * 1000"

lemmas session_consts = touch_throttle_ms_def session_ttl_ms_def

section \<open>The table\<close>

definition session_live :: "int \<Rightarrow> session \<Rightarrow> bool" where
  "session_live now s \<longleftrightarrow> s_revoked_at s = None \<and>
     (case s_expires_at s of None \<Rightarrow> True | Some e \<Rightarrow> e > now)"

definition srepo_find_by_id :: "string \<Rightarrow> session list \<Rightarrow> session option" where
  "srepo_find_by_id i t = row_find s_id i t"

definition srepo_find_by_token_hash :: "string \<Rightarrow> int \<Rightarrow> session list \<Rightarrow> session option" where
  "srepo_find_by_token_hash h now t = List.find (\<lambda>s. s_token_hash s = h \<and> session_live now s) t"

definition srepo_find_active :: "string \<Rightarrow> int \<Rightarrow> session list \<Rightarrow> session list" where
  "srepo_find_active uid now t =
     sort_key (\<lambda>s. - s_last_seen_at s) (filter (\<lambda>s. s_user_id s = uid \<and> session_live now s) t)"

definition srepo_create :: "session \<Rightarrow> session list \<Rightarrow> session list" where
  "srepo_create s t = row_insert s t"

definition srepo_touch :: "string \<Rightarrow> int \<Rightarrow> int option \<Rightarrow> session list \<Rightarrow> session list" where
  "srepo_touch i seen expires t =
     map (\<lambda>s. if s_id s = i \<and> s_revoked_at s = None
              then s\<lparr>s_last_seen_at := seen, s_expires_at := expires\<rparr> else s) t"

definition srepo_revoke :: "string \<Rightarrow> int \<Rightarrow> session list \<Rightarrow> session list" where
  "srepo_revoke i at t =
     map (\<lambda>s. if s_id s = i \<and> s_revoked_at s = None then s\<lparr>s_revoked_at := Some at\<rparr> else s) t"

text \<open>An empty \<open>exceptId\<close> is falsy and means no exception.\<close>

definition kept_id :: "string option \<Rightarrow> string option" where
  "kept_id e = (case e of None \<Rightarrow> None | Some i \<Rightarrow> if i = [] then None else Some i)"

definition srepo_revoke_all :: "string \<Rightarrow> int \<Rightarrow> string option \<Rightarrow> session list \<Rightarrow> session list" where
  "srepo_revoke_all uid at except t =
     map (\<lambda>s. if s_user_id s = uid \<and> kept_id except \<noteq> Some (s_id s) \<and> s_revoked_at s = None
              then s\<lparr>s_revoked_at := Some at\<rparr> else s) t"

definition srepo_delete_expired :: "int \<Rightarrow> session list \<Rightarrow> session list" where
  "srepo_delete_expired now t =
     filter (\<lambda>s. case s_expires_at s of None \<Rightarrow> True | Some e \<Rightarrow> \<not> e < now) t"

section \<open>The service\<close>

datatype session_event =
    EvLogin string "string option"
  | EvSessionRevoked string string
  | EvSessionsRevoked string "string option"

record sessions =
  ss_rows :: "session list"
  ss_touch :: "(string, int) jsmap"
  ss_events :: "session_event list"

definition sess_find_by_token :: "(string \<Rightarrow> string) \<Rightarrow> sessions \<Rightarrow> string \<Rightarrow> int \<Rightarrow> session option" where
  "sess_find_by_token hash_token st token now =
     (if token = [] then None else srepo_find_by_token_hash (hash_token token) now (ss_rows st))"

definition sess_touch :: "sessions \<Rightarrow> string \<Rightarrow> int \<Rightarrow> sessions" where
  "sess_touch st i now =
     (let previous = (case jget (ss_touch st) i of None \<Rightarrow> 0 | Some t \<Rightarrow> t) in
      if now - previous < touch_throttle_ms then st
      else st\<lparr>ss_touch := jset (ss_touch st) i now,
             ss_rows := srepo_touch i now (Some (now + session_ttl_ms)) (ss_rows st)\<rparr>)"

definition sess_authenticate ::
  "(string \<Rightarrow> string) \<Rightarrow> (string \<Rightarrow> user option) \<Rightarrow> sessions \<Rightarrow> string \<Rightarrow> int \<Rightarrow> (user \<times> session) result \<times> sessions" where
  "sess_authenticate hash_token find_user st token now =
     (case sess_find_by_token hash_token st token now of
        None \<Rightarrow> (fail Unauthorized ''Invalid token'', st)
      | Some s \<Rightarrow>
         (case find_user (s_user_id s) of
            None \<Rightarrow> (fail Unauthorized ''User not found for session'', st)
          | Some u \<Rightarrow> (Inr (u, s), sess_touch st (s_id s) now)))"

definition new_session ::
  "(string \<Rightarrow> string) \<Rightarrow> string \<Rightarrow> string \<Rightarrow> string \<Rightarrow> string option \<Rightarrow> string option \<Rightarrow> int \<Rightarrow> session" where
  "new_session hash_token sid token uid ip ua now =
     \<lparr>s_id = sid, s_user_id = uid, s_token_hash = hash_token token, s_ip = ip, s_user_agent = ua,
      s_created_at = now, s_last_seen_at = now, s_expires_at = Some (now + session_ttl_ms),
      s_revoked_at = None\<rparr>"

definition sess_create ::
  "(string \<Rightarrow> string) \<Rightarrow> sessions \<Rightarrow> string \<Rightarrow> string \<Rightarrow> string \<Rightarrow> string option \<Rightarrow> string option \<Rightarrow> int \<Rightarrow>
     (string \<times> session) \<times> sessions" where
  "sess_create hash_token st sid token uid ip ua now =
     (let s = new_session hash_token sid token uid ip ua now
      in ((token, s), st\<lparr>ss_rows := srepo_create s (ss_rows st), ss_events := ss_events st @ [EvLogin uid ip]\<rparr>))"

definition sess_cleanup_expired :: "sessions \<Rightarrow> int \<Rightarrow> sessions" where
  "sess_cleanup_expired st now =
     st\<lparr>ss_rows := srepo_delete_expired now (ss_rows st), ss_touch := []\<rparr>"

definition sess_revoke :: "sessions \<Rightarrow> string \<Rightarrow> int \<Rightarrow> unit result \<times> sessions" where
  "sess_revoke st i now =
     (case srepo_find_by_id i (ss_rows st) of
        None \<Rightarrow> (fail NotFound ''Session not found'', st)
      | Some s \<Rightarrow>
          (Inr (), st\<lparr>ss_rows := srepo_revoke i now (ss_rows st), ss_touch := jdel (ss_touch st) i,
                     ss_events := ss_events st @ [EvSessionRevoked (s_user_id s) i]\<rparr>))"

definition sess_revoke_all :: "sessions \<Rightarrow> string \<Rightarrow> string option \<Rightarrow> int \<Rightarrow> sessions" where
  "sess_revoke_all st uid except now =
     st\<lparr>ss_rows := srepo_revoke_all uid now except (ss_rows st),
       ss_touch := (case kept_id except of None \<Rightarrow> []
                    | Some k \<Rightarrow> filter (\<lambda>(i, _). i = k) (ss_touch st)),
       ss_events := ss_events st @ [EvSessionsRevoked uid except]\<rparr>"

record session_view =
  sv_id :: string
  sv_ip :: "string option"
  sv_user_agent :: "string option"
  sv_created_at :: int
  sv_last_seen_at :: int
  sv_expires_at :: "int option"
  sv_current :: bool

definition sess_list_for_user :: "sessions \<Rightarrow> string \<Rightarrow> string option \<Rightarrow> int \<Rightarrow> session_view list" where
  "sess_list_for_user st uid current now =
     map (\<lambda>s. \<lparr>sv_id = s_id s, sv_ip = s_ip s, sv_user_agent = s_user_agent s,
               sv_created_at = s_created_at s, sv_last_seen_at = s_last_seen_at s,
               sv_expires_at = s_expires_at s, sv_current = (Some (s_id s) = current)\<rparr>)
       (srepo_find_active uid now (ss_rows st))"

section \<open>The bearer guard (bearer.guard.ts, core/utils/bearer.ts)\<close>

definition parse_bearer_token :: "string option \<Rightarrow> string option" where
  "parse_bearer_token header =
     (case header of None \<Rightarrow> None
      | Some h \<Rightarrow> if h = [] then None else
         (case split_on CHR '' '' h of
            scheme # token # _ \<Rightarrow>
              if scheme = [] \<or> to_lower scheme \<noteq> ''bearer'' \<or> token = [] then None else Some token
          | _ \<Rightarrow> None))"

definition bearer_guard ::
  "(string \<Rightarrow> string) \<Rightarrow> (string \<Rightarrow> user option) \<Rightarrow> bool \<Rightarrow> string option \<Rightarrow> sessions \<Rightarrow> int \<Rightarrow>
     (user \<times> session) option result \<times> sessions" where
  "bearer_guard hash_token find_user is_public header st now =
     (if is_public then (Inr None, st)
      else case parse_bearer_token header of
        None \<Rightarrow> (fail Unauthorized ''Invalid Authorization header'', st)
      | Some token \<Rightarrow>
         (case sess_authenticate hash_token find_user st token now of
            (Inl e, st') \<Rightarrow> (Inl e, st')
          | (Inr us, st') \<Rightarrow> (Inr (Some us), st')))"

section \<open>Operations as steps\<close>

datatype session_op =
    OpCreate string string string "string option" "string option"
  | OpAuthenticate string
  | OpTouch string
  | OpRevoke string
  | OpRevokeAll string "string option"
  | OpCleanup

fun sess_step ::
  "(string \<Rightarrow> string) \<Rightarrow> (string \<Rightarrow> user option) \<Rightarrow> sessions \<Rightarrow> session_op \<times> int \<Rightarrow> sessions" where
  "sess_step h fu st (OpCreate sid token uid ip ua, now) = snd (sess_create h st sid token uid ip ua now)"
| "sess_step h fu st (OpAuthenticate token, now) = snd (sess_authenticate h fu st token now)"
| "sess_step h fu st (OpTouch i, now) = sess_touch st i now"
| "sess_step h fu st (OpRevoke i, now) = snd (sess_revoke st i now)"
| "sess_step h fu st (OpRevokeAll uid e, now) = sess_revoke_all st uid e now"
| "sess_step h fu st (OpCleanup, now) = sess_cleanup_expired st now"

lemmas srepo_defs = srepo_create_def row_insert_def srepo_touch_def srepo_revoke_def
  srepo_revoke_all_def srepo_delete_expired_def

lemma session_live_update [simp]:
  "session_live now (s\<lparr>s_revoked_at := Some a\<rparr>) = False"
  by (simp add: session_live_def)

text \<open>A token no live row carries cannot come back without being issued again.\<close>

definition token_dead :: "string \<Rightarrow> sessions \<Rightarrow> bool" where
  "token_dead h st \<longleftrightarrow> (\<forall>s \<in> set (ss_rows st). s_token_hash s = h \<longrightarrow> s_revoked_at s \<noteq> None)"

fun issues :: "(string \<Rightarrow> string) \<Rightarrow> string \<Rightarrow> session_op \<Rightarrow> bool" where
  "issues hash_token h (OpCreate sid token uid ip ua) = (hash_token token = h)"
| "issues hash_token h _ = False"

lemma sess_touch_rows:
  "ss_rows (sess_touch st i now) = ss_rows st \<or>
   ss_rows (sess_touch st i now) = srepo_touch i now (Some (now + session_ttl_ms)) (ss_rows st)"
  by (simp add: sess_touch_def Let_def)

lemma srepo_touch_mem:
  "s \<in> set (srepo_touch i seen e t) \<Longrightarrow>
   \<exists>r \<in> set t. s_token_hash s = s_token_hash r \<and> s_revoked_at s = s_revoked_at r \<and>
     s_id s = s_id r \<and> s_user_id s = s_user_id r"
  by (auto simp: srepo_touch_def split: if_splits)

lemma token_dead_touch:
  assumes "token_dead h st" shows "token_dead h (sess_touch st i now)"
proof -
  have "s_revoked_at s \<noteq> None"
    if "s \<in> set (ss_rows (sess_touch st i now))" "s_token_hash s = h" for s
  proof (cases "ss_rows (sess_touch st i now) = ss_rows st")
    case True
    with that assms show ?thesis by (simp add: token_dead_def)
  next
    case False
    with that sess_touch_rows [of st i now] obtain r where
      "r \<in> set (ss_rows st)" "s_token_hash r = h" "s_revoked_at s = s_revoked_at r"
      by (auto dest: srepo_touch_mem)
    with assms show ?thesis by (simp add: token_dead_def)
  qed
  then show ?thesis by (simp add: token_dead_def)
qed

lemma token_dead_step:
  assumes "token_dead h st" and "\<not> issues hash_token h (fst e)"
  shows "token_dead h (sess_step hash_token fu st e)"
proof (cases e)
  case (Pair op now)
  show ?thesis
  proof (cases op)
    case (OpCreate sid token uid ip ua)
    then show ?thesis using assms Pair
      by (auto simp: sess_create_def new_session_def Let_def token_dead_def srepo_defs)
  next
    case (OpAuthenticate token)
    then show ?thesis using assms Pair
      by (auto simp: sess_authenticate_def token_dead_touch split: option.splits)
  next
    case (OpTouch i)
    then show ?thesis using assms Pair by (simp add: token_dead_touch)
  next
    case (OpRevoke i)
    then show ?thesis using assms Pair
      by (auto simp: sess_revoke_def token_dead_def srepo_defs split: option.splits)
  next
    case (OpRevokeAll uid ex)
    then show ?thesis using assms Pair
      by (auto simp: sess_revoke_all_def token_dead_def srepo_defs)
  next
    case OpCleanup
    then show ?thesis using assms Pair
      by (auto simp: sess_cleanup_expired_def token_dead_def srepo_defs)
  qed
qed

lemma token_dead_run:
  assumes "token_dead h st" and "\<forall>e \<in> set es. \<not> issues hash_token h (fst e)"
  shows "token_dead h (run (sess_step hash_token fu) st es)"
  using assms by (induction es arbitrary: st) (auto intro: token_dead_step)

lemma token_dead_no_auth:
  assumes "token_dead (hash_token token) st"
  shows "sess_authenticate hash_token fu st token now = (fail Unauthorized ''Invalid token'', st)"
proof -
  have "srepo_find_by_token_hash (hash_token token) now (ss_rows st) = None"
    using assms by (auto simp: srepo_find_by_token_hash_def find_None_iff token_dead_def session_live_def)
  then show ?thesis by (simp add: sess_authenticate_def sess_find_by_token_def)
qed

text \<open>The throttle and the rows agree: a touched live session expires a TTL after the touch.\<close>

definition throttle_ok :: "sessions \<Rightarrow> bool" where
  "throttle_ok st \<longleftrightarrow>
     (\<forall>i t. jget (ss_touch st) i = Some t \<longrightarrow>
        (\<forall>s \<in> set (ss_rows st). s_id s = i \<longrightarrow> s_revoked_at s = None \<longrightarrow>
           s_expires_at s = Some (t + session_ttl_ms)))"

lemma srepo_touch_row:
  assumes "s \<in> set (srepo_touch i seen e t)"
  shows "\<exists>r \<in> set t. s = (if s_id r = i \<and> s_revoked_at r = None
                        then r\<lparr>s_last_seen_at := seen, s_expires_at := e\<rparr> else r)"
  using assms unfolding srepo_touch_def set_map by blast

lemma throttle_ok_touch:
  assumes "throttle_ok st" shows "throttle_ok (sess_touch st i now)"
proof -
  define st' where "st' = st\<lparr>ss_touch := jset (ss_touch st) i now,
             ss_rows := srepo_touch i now (Some (now + session_ttl_ms)) (ss_rows st)\<rparr>"
  have "throttle_ok st'"
    unfolding throttle_ok_def
  proof (intro allI impI ballI)
    fix k t s
    assume t: "jget (ss_touch st') k = Some t" and s: "s \<in> set (ss_rows st')"
      and k: "s_id s = k" and live: "s_revoked_at s = None"
    from s have "s \<in> set (srepo_touch i now (Some (now + session_ttl_ms)) (ss_rows st))"
      by (simp add: st'_def)
    from srepo_touch_row [OF this] obtain r where r: "r \<in> set (ss_rows st)"
      and sr: "s = (if s_id r = i \<and> s_revoked_at r = None
                   then r\<lparr>s_last_seen_at := now, s_expires_at := Some (now + session_ttl_ms)\<rparr> else r)"
      by blast
    show "s_expires_at s = Some (t + session_ttl_ms)"
    proof (cases "s_id r = i \<and> s_revoked_at r = None")
      case True
      with sr t k show ?thesis by (simp add: st'_def)
    next
      case False
      with sr have "s = r" by simp
      moreover from this False k live have "k \<noteq> i" by auto
      ultimately show ?thesis using t r k live assms by (simp add: st'_def throttle_ok_def)
    qed
  qed
  then show ?thesis using assms by (simp add: sess_touch_def st'_def Let_def)
qed

text \<open>Dropping touches or live rows keeps the agreement.\<close>

lemma throttle_ok_mono:
  assumes "throttle_ok st"
    and "\<And>i t. jget (ss_touch st') i = Some t \<Longrightarrow> jget (ss_touch st) i = Some t"
    and "\<And>s. s \<in> set (ss_rows st') \<Longrightarrow> s_revoked_at s = None \<Longrightarrow> s \<in> set (ss_rows st)"
  shows "throttle_ok st'"
  unfolding throttle_ok_def
proof (intro allI impI ballI)
  fix i t s
  assume "jget (ss_touch st') i = Some t" "s \<in> set (ss_rows st')" "s_id s = i" "s_revoked_at s = None"
  with assms(2) [of i t] assms(3) [of s] assms(1) show "s_expires_at s = Some (t + session_ttl_ms)"
    by (simp add: throttle_ok_def)
qed

lemma srepo_revoke_live:
  "s \<in> set (srepo_revoke i at t) \<Longrightarrow> s_revoked_at s = None \<Longrightarrow> s \<in> set t"
  by (auto simp: srepo_revoke_def split: if_splits)

lemma srepo_revoke_all_live:
  "s \<in> set (srepo_revoke_all uid at e t) \<Longrightarrow> s_revoked_at s = None \<Longrightarrow>
   s \<in> set t \<and> (s_user_id s = uid \<longrightarrow> kept_id e = Some (s_id s))"
  by (auto simp: srepo_revoke_all_def split: if_splits)

definition fresh_session_id :: "sessions \<Rightarrow> session_op \<Rightarrow> bool" where
  "fresh_session_id st op =
     (case op of OpCreate sid _ _ _ _ \<Rightarrow> jget (ss_touch st) sid = None | _ \<Rightarrow> True)"

lemma jget_only_key: "jget (filter (\<lambda>(i, _). i = k) m) i = Some t \<Longrightarrow> jget m i = Some t"
  by (induction m) (auto split: if_splits dest: map_of_SomeD)

lemma throttle_ok_create:
  assumes "throttle_ok st" and "jget (ss_touch st) sid = None"
  shows "throttle_ok (snd (sess_create h st sid token uid ip ua now))"
  unfolding throttle_ok_def
proof (intro allI impI ballI)
  fix i t s
  assume t: "jget (ss_touch (snd (sess_create h st sid token uid ip ua now))) i = Some t"
    and s: "s \<in> set (ss_rows (snd (sess_create h st sid token uid ip ua now)))"
    and i: "s_id s = i" and live: "s_revoked_at s = None"
  from t have t': "jget (ss_touch st) i = Some t" by (simp add: sess_create_def Let_def)
  with assms(2) i have "s_id s \<noteq> sid" by auto
  with s have "s \<in> set (ss_rows st)"
    by (auto simp: sess_create_def Let_def srepo_create_def row_insert_def new_session_def)
  with assms(1) t' i live show "s_expires_at s = Some (t + session_ttl_ms)"
    by (simp add: throttle_ok_def)
qed

lemma throttle_ok_step:
  assumes "throttle_ok st" and "fresh_session_id st (fst e)"
  shows "throttle_ok (sess_step hash_token fu st e)"
proof (cases e)
  case (Pair op now)
  show ?thesis
  proof (cases op)
    case (OpCreate sid token uid ip ua)
    then show ?thesis using assms Pair
      by (simp add: throttle_ok_create fresh_session_id_def)
  next
    case (OpAuthenticate token)
    then show ?thesis using assms Pair
      by (auto simp: sess_authenticate_def throttle_ok_touch split: option.splits)
  next
    case (OpTouch i)
    then show ?thesis using assms Pair by (simp add: throttle_ok_touch)
  next
    case (OpRevoke i)
    then show ?thesis using assms Pair
      by (auto simp: sess_revoke_def split: option.splits if_splits
          intro!: throttle_ok_mono [OF assms(1)] dest: srepo_revoke_live)
  next
    case (OpRevokeAll uid ex)
    show ?thesis using assms Pair OpRevokeAll
      by (auto simp: sess_revoke_all_def split: option.splits if_splits
          intro!: throttle_ok_mono [OF assms(1)] dest: srepo_revoke_all_live jget_only_key)
  next
    case OpCleanup
    then show ?thesis using assms Pair by (simp add: sess_cleanup_expired_def throttle_ok_def)
  qed
qed

lemma row_in_touch:
  "s \<in> set t \<Longrightarrow> s_revoked_at s = None \<Longrightarrow>
   s\<lparr>s_last_seen_at := seen, s_expires_at := e\<rparr> \<in> set (srepo_touch (s_id s) seen e t)"
  by (force simp: srepo_touch_def)

end
