(* ===== verification/Accounts.thy ===== *)
theory Accounts
  imports Roles Rate_Limit Sessions
begin

text \<open>
  \<open>accounts.service.ts\<close> and the handlers of \<open>accounts.controller.ts\<close>.

  Hashing and comparing a password is awaited, so \<open>createAccount\<close>, \<open>updateAccount\<close> and
  \<open>changePassword\<close> are a part up to the await and a part after it, which sees the database
  as other requests left it but keeps the account object read before.  \<open>hash\<close> arguments
  are bcrypt's results.  The audit entries are not part of the state.
\<close>

datatype account_event = EvAccessChanged string | EvUserDeleted string

record aworld =
  aw_db :: adb
  aw_sessions :: sessions
  aw_limits :: rate_limits
  aw_events :: "account_event list"

section \<open>The service\<close>

record create_dto =
  cd_username :: string
  cd_password :: string
  cd_roles :: "string list option"
  cd_grants :: "access_map option"
  cd_ext :: "string list option"
  cd_servers :: "string list option"

abbreviation or_empty :: "'a list option \<Rightarrow> 'a list" where
  "or_empty x \<equiv> (case x of None \<Rightarrow> [] | Some xs \<Rightarrow> xs)"

definition restrict_to :: "string list \<Rightarrow> restrict" where
  "restrict_to servers = \<lparr>rs_enabled = servers \<noteq> [], rs_allowed = servers\<rparr>"

definition new_user :: "create_dto \<Rightarrow> string \<Rightarrow> string \<Rightarrow> user" where
  "new_user dto uid hash =
     \<lparr>u_id = uid, u_name = cd_username dto, u_password = hash,
      u_roles = or_empty (cd_roles dto), u_grants = or_empty (cd_grants dto),
      u_ext = or_empty (cd_ext dto), u_access = \<lparr>acc_levels = [], acc_ext = []\<rparr>,
      u_restrict = restrict_to (or_empty (cd_servers dto)), is_admin = False, u_oobe = False,
      u_totp_secret = None, u_totp_enabled = False, u_tg2fa = False, u_primary = None\<rparr>"

definition acc_create_begin :: "adb \<Rightarrow> create_dto \<Rightarrow> unit result" where
  "acc_create_begin db dto =
     (if ur_find_by_username db (cd_username dto) \<noteq> None then fail BadRequest ''Username already exists''
      else Inr ())"

definition acc_create_finish :: "adb \<Rightarrow> create_dto \<Rightarrow> string \<Rightarrow> string \<Rightarrow> (user option \<times> adb) result" where
  "acc_create_finish db dto uid hash =
     and_then (ur_create db (new_user dto uid hash)) (\<lambda>db1. Inr (ur_find_by_id db1 uid, db1))"

definition acc_update :: "adb \<Rightarrow> user \<Rightarrow> adb result" where
  "acc_update db u =
     (if ur_find_by_id db (u_id u) = None then fail NotFound ''User not found'' else ur_update db u)"

definition acc_delete :: "adb \<Rightarrow> string \<Rightarrow> adb result" where
  "acc_delete db i =
     (if ur_find_by_id db i = None then fail NotFound ''User not found'' else Inr (ur_delete db i))"

section \<open>The handlers\<close>

definition create_plan :: "adb \<Rightarrow> create_dto \<Rightarrow> access_plan result" where
  "create_plan db dto =
     and_then (roles_resolve db (or_empty (cd_roles dto))) (\<lambda>rs.
       Inr \<lparr>p_roles = rs, p_grants = or_empty (cd_grants dto), p_ext = or_empty (cd_ext dto),
            p_restrict = restrict_to (or_empty (cd_servers dto))\<rparr>)"

definition create_account_begin :: "adb \<Rightarrow> user \<Rightarrow> create_dto \<Rightarrow> unit result" where
  "create_account_begin db actor dto =
     and_then (create_plan db dto) (\<lambda>plan.
     and_then (enforce_policy (can_grant actor plan)) (\<lambda>_. acc_create_begin db dto))"

definition create_account ::
  "adb \<Rightarrow> user \<Rightarrow> create_dto \<Rightarrow> string \<Rightarrow> string \<Rightarrow> (user option \<times> adb) result" where
  "create_account db actor dto uid hash =
     and_then (create_account_begin db actor dto) (\<lambda>_. acc_create_finish db dto uid hash)"

record update_dto =
  ud_username :: "string option"
  ud_roles :: "string list option"
  ud_grants :: "access_map option"
  ud_ext :: "string list option"
  ud_restrict :: "restrict option"
  ud_password :: "string option"
  ud_admin :: "bool option"

definition find_managed :: "adb \<Rightarrow> user \<Rightarrow> string \<Rightarrow> user result" where
  "find_managed db actor username =
     (case ur_find_by_username db username of
        None \<Rightarrow> fail NotFound ''Account does not exist''
      | Some u \<Rightarrow> and_then (enforce_policy (can_manage_account actor u)) (\<lambda>_. Inr u))"

text \<open>The account object with the fields of the request; \<open>hash\<close> is used when there is a password.\<close>

definition apply_dto :: "user \<Rightarrow> user \<Rightarrow> update_dto \<Rightarrow> string \<Rightarrow> user" where
  "apply_dto actor u dto hash =
     u\<lparr>u_name := (case ud_username dto of None \<Rightarrow> u_name u | Some n \<Rightarrow> n),
       u_roles := (case ud_roles dto of None \<Rightarrow> u_roles u | Some rs \<Rightarrow> uniq rs),
       u_grants := (case ud_grants dto of None \<Rightarrow> u_grants u | Some g \<Rightarrow> g),
       u_ext := (case ud_ext dto of None \<Rightarrow> u_ext u | Some e \<Rightarrow> uniq e),
       u_restrict := (case ud_restrict dto of None \<Rightarrow> u_restrict u | Some r \<Rightarrow> r),
       u_password := (case ud_password dto of None \<Rightarrow> u_password u
                      | Some p \<Rightarrow> if p = [] then u_password u else hash),
       is_admin := (case ud_admin dto of None \<Rightarrow> is_admin u
                    | Some b \<Rightarrow> if is_admin actor then b else is_admin u)\<rparr>"

definition plan_of :: "role list \<Rightarrow> user \<Rightarrow> access_plan" where
  "plan_of rs u = \<lparr>p_roles = rs, p_grants = u_grants u, p_ext = u_ext u, p_restrict = u_restrict u\<rparr>"

definition revoke_sessions :: "sessions \<Rightarrow> string \<Rightarrow> user \<Rightarrow> string option \<Rightarrow> int \<Rightarrow> sessions" where
  "revoke_sessions ss uid actor session now =
     (let keep = (if u_id actor = uid then session else None) in sess_revoke_all ss uid keep now)"

definition update_account_finish ::
  "aworld \<Rightarrow> user \<Rightarrow> user \<Rightarrow> update_dto \<Rightarrow> string \<Rightarrow> string option \<Rightarrow> int \<Rightarrow> aworld result" where
  "update_account_finish w actor u dto hash session now =
     (let upd0 = apply_dto actor u dto hash in
      and_then (roles_resolve (aw_db w) (u_roles upd0)) (\<lambda>rs.
      let updated = upd0\<lparr>u_access := effective_access rs (u_grants upd0) (u_ext upd0)\<rparr> in
      and_then (enforce_policy (can_grant actor (plan_of rs updated))) (\<lambda>_.
      and_then (acc_update (aw_db w) updated) (\<lambda>db1.
        Inr (w\<lparr>aw_db := db1,
               aw_sessions := (if needs_session_revoke u updated
                               then revoke_sessions (aw_sessions w) (u_id u) actor session now
                               else aw_sessions w),
               aw_events := aw_events w @
                 (if access_changed u updated then [EvAccessChanged (u_id u)] else [])\<rparr>)))))"

definition update_account ::
  "aworld \<Rightarrow> user \<Rightarrow> string \<Rightarrow> update_dto \<Rightarrow> string \<Rightarrow> string option \<Rightarrow> int \<Rightarrow> aworld result" where
  "update_account w actor username dto hash session now =
     and_then (find_managed (aw_db w) actor username) (\<lambda>u.
       update_account_finish w actor u dto hash session now)"

text \<open>Deleting an account takes its sessions with it (\<open>ON DELETE CASCADE\<close>).\<close>

definition delete_account :: "aworld \<Rightarrow> user \<Rightarrow> string \<Rightarrow> aworld result" where
  "delete_account w actor username =
     and_then (find_managed (aw_db w) actor username) (\<lambda>u.
     and_then (acc_delete (aw_db w) (u_id u)) (\<lambda>db1.
       Inr (w\<lparr>aw_db := db1,
              aw_sessions := (aw_sessions w)\<lparr>ss_rows :=
                 filter (\<lambda>s. s_user_id s \<noteq> u_id u) (ss_rows (aw_sessions w))\<rparr>,
              aw_events := aw_events w @ [EvUserDeleted (u_id u)]\<rparr>)))"

definition change_password ::
  "(string \<Rightarrow> string \<Rightarrow> bool) \<Rightarrow> aworld \<Rightarrow> user \<Rightarrow> string \<Rightarrow> string \<Rightarrow> string \<Rightarrow> string option \<Rightarrow> int \<Rightarrow> int \<Rightarrow>
     unit result \<times> aworld" where
  "change_password compare_password w actor username old hash session t0 t1 =
     (case find_managed (aw_db w) actor username of
        Inl e \<Rightarrow> (Inl e, w)
      | Inr u \<Rightarrow>
         (case recheck_assert compare_password (aw_limits w) u old None t0 t1 of
            (Inl e, rl) \<Rightarrow> (Inl e, w\<lparr>aw_limits := rl\<rparr>)
          | (Inr _, rl) \<Rightarrow>
             (case acc_update (aw_db w) (u\<lparr>u_password := hash\<rparr>) of
                Inl e \<Rightarrow> (Inl e, w\<lparr>aw_limits := rl\<rparr>)
              | Inr db1 \<Rightarrow> (Inr (), w\<lparr>aw_limits := rl, aw_db := db1,
                  aw_sessions := revoke_sessions (aw_sessions w) (u_id u) actor session t1\<rparr>))))"

section \<open>Nobody gives more than they have\<close>

lemma enforce_ok [simp]: "enforce_policy v = Inr x \<longleftrightarrow> v = None"
  by (cases v) (simp_all add: enforce_policy_def)

lemma resolve_ids_ok:
  "resolve_ids db is = Inr rs \<Longrightarrow> map r_id rs = is \<and> (\<forall>r \<in> set rs. rr_find_by_id db (r_id r) = Some r)"
proof (induction "is" arbitrary: rs)
  case Nil
  then show ?case by simp
next
  case (Cons i "is")
  then obtain r qs where r: "rr_find_by_id db i = Some r" and qs: "resolve_ids db is = Inr qs"
    and rs: "rs = r # qs" by (auto simp: and_then_Inr_iff split: option.splits)
  from r have "r_id r = i"
    by (auto simp: rr_find_by_id_def load_role_def dest!: row_find_Some_in)
  with Cons.IH [OF qs] r rs show ?case by simp
qed

text \<open>A role row of a stored account is one the request's roles were resolved to.\<close>

lemma role_row_resolved:
  assumes "rows_ok r_id (db_roles db)" and "roles_resolve db ids = Inr rs"
    and "r \<in> set (db_roles db)" and "r_id r \<in> set ids"
  shows "load_role r \<in> set rs"
proof -
  from assms(2) have rs: "resolve_ids db (uniq ids) = Inr rs" by (simp add: roles_resolve_def)
  with resolve_ids_ok [OF rs] assms(4) obtain q where q: "q \<in> set rs" "r_id q = r_id r"
    by (metis imageE set_uniq list.set_map)
  with resolve_ids_ok [OF rs] have "rr_find_by_id db (r_id r) = Some q" by metis
  moreover have "row_find r_id (r_id r) (db_roles db) = Some r" using assms(1,3) by (rule row_find_in)
  ultimately show ?thesis using q by (simp add: rr_find_by_id_def)
qed

lemma load_role_grants: "entries_grant (valid_levels (r_grants r)) a l = entries_grant (r_grants (load_role r)) a l"
  by (simp add: load_role_def)

lemma stored_below:
  assumes ok: "rows_ok r_id (db_roles db)" and rs: "roles_resolve db (u_roles u) = Inr rs"
    and below: "below actor (effective_access rs (u_grants u) (u_ext u))" and "\<not> is_admin actor"
  shows "below actor (u_access (load_user db (store_user db u)))"
proof -
  from below effective_below_iff [OF assms(4), of rs "u_grants u" "u_ext u"]
  have role: "below actor \<lparr>acc_levels = r_grants r, acc_ext = r_ext r\<rparr>" if "r \<in> set rs" for r
    using that by blast
  from below effective_below_iff [OF assms(4), of rs "u_grants u" "u_ext u"]
  have own: "below actor \<lparr>acc_levels = u_grants u, acc_ext = u_ext u\<rparr>" by blast
  have row: "load_role r \<in> set rs" if "r \<in> set (user_role_rows db (store_user db u))" for r
    using that role_row_resolved [OF ok rs, of r] by (simp add: user_role_rows_store)
  have "can (Some actor) a l" if "entries_grant (acc_levels (u_access (load_user db (store_user db u)))) a l" for a l
  proof -
    from that [unfolded load_user_levels] consider
        "entries_grant (u_grants u) a l"
      | r where "r \<in> set (user_role_rows db (store_user db u))" "entries_grant (r_grants (load_role r)) a l"
      by (auto simp: load_role_grants dest: valid_levels_grant)
    then show ?thesis
    proof cases
      case 1
      with own assms(4) show ?thesis by (simp add: below_def)
    next
      case 2
      with role [OF row] assms(4) show ?thesis by (simp add: below_def)
    qed
  qed
  moreover have "set (acc_ext (u_access (load_user db (store_user db u)))) \<subseteq> set (acc_ext (u_access actor))"
  proof -
    have "set (r_ext r) \<subseteq> set (acc_ext (u_access actor))" if "r \<in> set (user_role_rows db (store_user db u))" for r
      using role [OF row [OF that]] assms(4) by (simp add: below_def load_role_def)
    moreover have "set (u_ext u) \<subseteq> set (acc_ext (u_access actor))"
      using own assms(4) by (simp add: below_def)
    ultimately show ?thesis unfolding load_user_ext by auto
  qed
  ultimately show ?thesis by (simp add: below_def)
qed

text \<open>What reading an account back gives after it was written.\<close>

lemma ur_update_roles: "ur_update db u = Inr db1 \<Longrightarrow> db_roles db1 = db_roles db"
  by (auto simp: ur_update_def split: if_splits)

lemma load_user_roles_only: "db_roles db1 = db_roles db \<Longrightarrow> load_user db1 u = load_user db u"
  by (simp add: load_user_def user_role_rows_def)

lemma store_keeps_key: "keeps_key u_id (\<lambda>r x. store_user db r)"
  by (simp add: keeps_key_def)

lemma acc_update_read:
  assumes "acc_update db u = Inr db1"
  shows "ur_find_by_id db1 (u_id u) = Some (load_user db (store_user db u))"
proof -
  from assms have upd: "ur_update db u = Inr db1" and "ur_find_by_id db (u_id u) \<noteq> None"
    by (auto simp: acc_update_def split: if_splits)
  then obtain x where x: "row_find u_id (u_id u) (db_users db) = Some x"
    by (auto simp: ur_find_by_id_def)
  from upd have "db_users db1 = row_patch u_id (\<lambda>r x. store_user db r) u (db_users db)"
    by (auto simp: ur_update_def split: if_splits)
  with x have "row_find u_id (u_id u) (db_users db1) = Some (store_user db u)"
    by (simp add: row_find_patch [OF store_keeps_key])
  then show ?thesis
    by (simp add: ur_find_by_id_def load_user_roles_only [OF ur_update_roles [OF upd]])
qed

lemma acc_create_read:
  assumes "acc_create_finish db dto uid hash = Inr (r, db1)"
  shows "r = Some (load_user db (store_user db (new_user dto uid hash))) \<and> ur_find_by_id db1 uid = r"
proof -
  from assms have cr: "ur_create db (new_user dto uid hash) = Inr db1" and r: "r = ur_find_by_id db1 uid"
    by (auto simp: acc_create_finish_def and_then_Inr_iff)
  from cr have none: "row_find u_id uid (db_users db) = None"
    and us: "db_users db1 = row_insert (store_user db (new_user dto uid hash)) (db_users db)"
    and rs: "db_roles db1 = db_roles db"
    by (auto simp: ur_create_def new_user_def split: if_splits)
  have "row_find u_id uid (db_users db1) = Some (store_user db (new_user dto uid hash))"
    using none by (simp add: us row_insert_def row_find_append) (simp add: new_user_def)
  with r show ?thesis by (simp add: ur_find_by_id_def load_user_roles_only [OF rs])
qed

text \<open>
  \<open>within_actor\<close>: whatever the account may do, on whatever server, the actor may do too.
\<close>

definition within_actor :: "user \<Rightarrow> user \<Rightarrow> bool" where
  "within_actor actor x \<longleftrightarrow>
     (\<forall>a l. can (Some x) a l \<longrightarrow> can (Some actor) a l) \<and>
     (\<forall>k. has_ext_permission (Some x) k \<longrightarrow> has_ext_permission (Some actor) k) \<and>
     (\<forall>i. reaches_server (Some x) i \<longrightarrow> reaches_server (Some actor) i)"

lemma stored_within:
  assumes "rows_ok r_id (db_roles db)" and "roles_resolve db (u_roles u) = Inr rs"
    and "can_grant actor (plan_of rs u) = None" and "\<not> is_admin actor" and "\<not> is_admin u"
  shows "within_actor actor (load_user db (store_user db u))"
proof -
  let ?x = "load_user db (store_user db u)"
  from assms(3,4) have below: "below actor (effective_access rs (u_grants u) (u_ext u))"
    and srv: "sees_all_servers (Some actor) \<or>
      rs_enabled (u_restrict u) \<and> set (rs_allowed (u_restrict u)) \<subseteq> set (rs_allowed (u_restrict actor))"
    by (auto simp: can_grant_None_iff plan_of_def)
  have b: "below actor (u_access ?x)" by (rule stored_below [OF assms(1,2) below assms(4)])
  have na: "\<not> is_admin ?x" using assms(5) by simp
  have "reaches_server (Some actor) i" if "reaches_server (Some ?x) i" for i
    using srv that assms(4,5) store_allowed [of db u] by (auto simp: access_simps)
  with below_can [OF b load_user_ok na] show ?thesis by (simp add: within_actor_def)
qed

section \<open>The invariant of the tables\<close>

definition user_row_ok :: "adb \<Rightarrow> user \<Rightarrow> bool" where
  "user_row_ok db u \<longleftrightarrow> distinct (u_roles u) \<and> set (u_roles u) \<subseteq> r_id ` set (db_roles db) \<and>
     distinct (u_ext u) \<and> jsmap_ok (u_grants u) \<and> distinct (rs_allowed (u_restrict u)) \<and>
     set (rs_allowed (u_restrict u)) \<subseteq> set (db_servers db)"

definition db_inv :: "adb \<Rightarrow> bool" where
  "db_inv db \<longleftrightarrow> rows_ok r_id (db_roles db) \<and> distinct (map (\<lambda>r. nocase (r_name r)) (db_roles db)) \<and>
     rows_ok u_id (db_users db) \<and> distinct (map u_name (db_users db)) \<and>
     (\<forall>u \<in> set (db_users db). user_row_ok db u)"

datatype db_op =
    DbCreateRole role | DbUpdateRole role | DbDeleteRole string
  | DbCreateUser user | DbUpdateUser user | DbDeleteUser string

fun db_step :: "adb \<Rightarrow> db_op \<Rightarrow> adb" where
  "db_step db (DbCreateRole r) = (case rr_create db r of Inl _ \<Rightarrow> db | Inr d \<Rightarrow> d)"
| "db_step db (DbUpdateRole r) = (case rr_update db r of Inl _ \<Rightarrow> db | Inr d \<Rightarrow> d)"
| "db_step db (DbDeleteRole i) = rr_delete db i"
| "db_step db (DbCreateUser u) = (case ur_create db u of Inl _ \<Rightarrow> db | Inr d \<Rightarrow> d)"
| "db_step db (DbUpdateUser u) = (case ur_update db u of Inl _ \<Rightarrow> db | Inr d \<Rightarrow> d)"
| "db_step db (DbDeleteUser i) = ur_delete db i"

lemma store_role_simps [simp]: "r_id (store_role r) = r_id r" "r_name (store_role r) = r_name r"
  by (simp_all add: store_role_def)

lemma user_row_ok_store: "jsmap_ok (valid_levels (u_grants u)) \<Longrightarrow> user_row_ok db (store_user db u)"
  by (auto simp: store_user_def user_row_ok_def)

lemma user_row_ok_users [simp]: "user_row_ok (db\<lparr>db_users := us\<rparr>) u = user_row_ok db u"
  by (simp add: user_row_ok_def)

lemma user_row_ok_cong:
  "user_row_ok db u \<Longrightarrow> r_id ` set (db_roles db) \<subseteq> r_id ` set (db_roles db1) \<Longrightarrow> db_servers db1 = db_servers db \<Longrightarrow>
   user_row_ok db1 u"
  by (auto simp: user_row_ok_def)

text \<open>An update keeps a column unique when no other row has the new value.\<close>

lemma distinct_patch:
  assumes "distinct (map key t)" and "distinct (map f t)" and "\<forall>x. f (patch r x) = v"
    and "\<forall>x \<in> set t. key x \<noteq> key r \<longrightarrow> f x \<noteq> v"
  shows "distinct (map f (row_patch key patch r t))"
  using assms
proof (induction t)
  case Nil
  then show ?case by (simp add: row_patch_def)
next
  case (Cons x t)
  have other: "key y \<noteq> key r" if "key x = key r" "y \<in> set t" for y
    using Cons.prems(1) that by (metis distinct.simps(2) image_eqI list.set_map list.simps(9))
  show ?case
  proof (cases "key x = key r")
    case True
    have same: "row_patch key patch r t = t"
      unfolding row_patch_def by (rule map_idI) (use other [OF True] in simp)
    with True Cons.prems other [OF True] show ?thesis by (auto simp: row_patch_def)
  next
    case False
    with Cons show ?thesis by (auto simp: row_patch_def split: if_splits)
  qed
qed

lemma patch_ids: "keeps_key key patch \<Longrightarrow> map key (row_patch key patch r t) = map key t"
  by (induction t) (auto simp: row_patch_def keeps_key_def)

lemma db_inv_create_role:
  assumes "db_inv db" and "rr_create db r = Inr d" shows "db_inv d"
proof -
  from assms(2) have d: "d = db\<lparr>db_roles := db_roles db @ [store_role r]\<rparr>"
    and new: "r_id r \<notin> r_id ` set (db_roles db)"
      "\<forall>x \<in> set (db_roles db). nocase (r_name x) \<noteq> nocase (r_name r)"
    by (auto simp: rr_create_def row_insert_def row_find_None_iff list_ex_iff split: if_splits)
  have "\<forall>u \<in> set (db_users db). user_row_ok d u"
    using assms(1) by (auto simp: d db_inv_def user_row_ok_def)
  moreover have "nocase (r_name r) \<notin> (\<lambda>x. nocase (r_name x)) ` set (db_roles db)"
    using new(2) by force
  ultimately show ?thesis using assms(1) new(1) by (simp add: d db_inv_def rows_ok_def)
qed

lemma db_inv_update_role:
  assumes "db_inv db" and "rr_update db r = Inr d" shows "db_inv d"
proof -
  have k: "keeps_key r_id patch_role" by (simp add: keeps_key_def patch_role_def)
  from assms(2) have d: "d = db\<lparr>db_roles := row_patch r_id patch_role r (db_roles db)\<rparr>"
    and free: "\<forall>x \<in> set (db_roles db). r_id x \<noteq> r_id r \<longrightarrow> nocase (r_name x) \<noteq> nocase (r_name r)"
    by (auto simp: rr_update_def list_ex_iff split: if_splits)
  have ids: "r_id ` set (row_patch r_id patch_role r (db_roles db)) = r_id ` set (db_roles db)"
    using patch_ids [OF k, of r "db_roles db"] by (metis list.set_map)
  have "distinct (map (\<lambda>x. nocase (r_name x)) (row_patch r_id patch_role r (db_roles db)))"
    by (rule distinct_patch [where v = "nocase (r_name r)"])
       (use assms free in \<open>auto simp: db_inv_def rows_ok_def patch_role_def\<close>)
  moreover have "\<forall>u \<in> set (db_users db). user_row_ok d u"
    using assms(1) by (auto simp: d db_inv_def ids intro: user_row_ok_cong)
  ultimately show ?thesis using assms(1) by (simp add: d db_inv_def rows_ok_patch [OF k])
qed

lemma db_inv_delete_role: "db_inv db \<Longrightarrow> db_inv (rr_delete db i)"
proof -
  assume inv: "db_inv db"
  have "x \<in> r_id ` set (row_delete r_id i (db_roles db))"
    if "x \<in> r_id ` set (db_roles db)" "x \<noteq> i" for x
    using that by (auto simp: row_delete_def)
  then have "user_row_ok (rr_delete db i) (u\<lparr>u_roles := filter (\<lambda>r. r \<noteq> i) (u_roles u)\<rparr>)"
    if "user_row_ok db u" for u
    using that unfolding user_row_ok_def rr_delete_def by (simp add: subset_iff)
  then have "\<forall>u \<in> set (db_users (rr_delete db i)). user_row_ok (rr_delete db i) u"
    using inv by (auto simp: db_inv_def) (auto simp: rr_delete_def)
  moreover have "map u_id (db_users (rr_delete db i)) = map u_id (db_users db)"
    "map u_name (db_users (rr_delete db i)) = map u_name (db_users db)"
    by (simp_all add: rr_delete_def comp_def)
  moreover have "rows_ok r_id (db_roles (rr_delete db i))"
    "distinct (map (\<lambda>r. nocase (r_name r)) (db_roles (rr_delete db i)))"
    using inv by (simp_all add: rr_delete_def db_inv_def rows_ok_def row_delete_def distinct_map_filter)
  ultimately show ?thesis using inv by (simp add: db_inv_def rows_ok_def)
qed

lemma db_inv_create_user: "db_inv db \<Longrightarrow> ur_create db u = Inr d \<Longrightarrow> db_inv d"
  using user_row_ok_store [of u db]
  by (auto simp: ur_create_def db_inv_def rows_ok_def row_insert_def row_find_None_iff
      split: if_splits)

lemma db_inv_update_user:
  assumes "db_inv db" and "ur_update db u = Inr d" shows "db_inv d"
proof -
  let ?p = "\<lambda>r x. store_user db r"
  from assms(2) have d: "d = db\<lparr>db_users := row_patch u_id ?p u (db_users db)\<rparr>"
    and free: "\<forall>x \<in> set (db_users db). u_id x \<noteq> u_id u \<longrightarrow> u_name x \<noteq> u_name u"
    and ok: "jsmap_ok (valid_levels (u_grants u))"
    by (auto simp: ur_update_def list_ex_iff split: if_splits)
  have "distinct (map u_name (row_patch u_id ?p u (db_users db)))"
    by (rule distinct_patch [where v = "u_name u"])
       (use assms free in \<open>auto simp: db_inv_def rows_ok_def\<close>)
  moreover have "user_row_ok d x" if "x \<in> set (row_patch u_id ?p u (db_users db))" for x
  proof -
    from that have "x = store_user db u \<or> x \<in> set (db_users db)"
      by (auto simp: row_patch_def split: if_splits)
    with assms(1) user_row_ok_store [OF ok, of db] have "user_row_ok db x" by (auto simp: db_inv_def)
    then show ?thesis by (rule user_row_ok_cong) (simp_all add: d)
  qed
  ultimately show ?thesis using assms(1) by (simp add: d db_inv_def rows_ok_patch [OF store_keeps_key])
qed

lemma db_inv_delete_user: "db_inv db \<Longrightarrow> db_inv (ur_delete db i)"
  by (auto simp: ur_delete_def db_inv_def rows_ok_def row_delete_def distinct_map_filter)

lemma db_inv_step:
  assumes "db_inv db" shows "db_inv (db_step db e)"
  using assms
  by (cases e) (auto split: sum.splits simp: db_inv_delete_role db_inv_delete_user
      intro: db_inv_create_role db_inv_update_role db_inv_create_user db_inv_update_user)

interpretation dbm: machine db_step db_inv
  by unfold_locales (rule db_inv_step)

section \<open>Unchanged access\<close>

text \<open>An update that keeps password and access leaves an account that can do the same.\<close>

definition same_powers :: "user \<Rightarrow> user \<Rightarrow> bool" where
  "same_powers x y \<longleftrightarrow> u_password x = u_password y \<and>
     (\<forall>a l. can (Some x) a l = can (Some y) a l) \<and>
     (\<forall>k. has_ext_permission (Some x) k = has_ext_permission (Some y) k) \<and>
     (\<forall>i. reaches_server (Some x) i = reaches_server (Some y) i)"

lemma valid_levels_jget:
  "jsmap_ok m \<Longrightarrow> jget (valid_levels m) a =
     (case jget m a of None \<Rightarrow> None | Some l \<Rightarrow> if l \<in> set (area_levels a) then Some l else None)"
  by (simp add: valid_levels_def jget_filter is_area_level_key split: option.splits)

lemma entries_grant_jget:
  assumes "jsmap_ok m" and "jsmap_ok n" and "\<forall>k. jget m k = jget n k"
  shows "entries_grant (valid_levels m) a l = entries_grant (valid_levels n) a l"
  using assms by (simp add: entries_grant_ok jsmap_ok_valid_levels grants_level_def valid_levels_jget)

lemma unchanged_same_powers:
  assumes inv: "db_inv db" and raw: "raw \<in> set (db_users db)" and u: "u = load_user db raw"
    and rs: "roles_resolve db (u_roles v) = Inr rs" and ok: "jsmap_ok (u_grants v)"
    and same: "\<not> needs_session_revoke u v"
  shows "same_powers (load_user db (store_user db v)) u"
proof -
  from inv raw have d: "distinct (u_roles raw)" "distinct (u_ext raw)" "jsmap_ok (u_grants raw)"
    "distinct (rs_allowed (u_restrict raw))" "set (rs_allowed (u_restrict raw)) \<subseteq> set (db_servers db)"
    "set (u_roles raw) \<subseteq> r_id ` set (db_roles db)"
    unfolding db_inv_def user_row_ok_def by blast+
  from same have s: "u_password u = u_password v" "is_admin u = is_admin v" "same_set (u_roles u) (u_roles v)"
    "same_grants (u_grants u) (u_grants v)" "same_set (u_ext u) (u_ext v)" "same_restrict (u_restrict u) (u_restrict v)"
    by (auto simp: needs_session_revoke_def access_changed_def)
  have roles: "set (u_roles raw) = set (u_roles v)" and ext: "set (u_ext raw) = set (u_ext v)"
    using s(3,5) d(1,2) by (auto simp: u dest: same_set_iff)
  have allowed: "set (rs_allowed (u_restrict raw)) = set (rs_allowed (u_restrict v))"
    and en: "rs_enabled (u_restrict raw) = rs_enabled (u_restrict v)"
    using s(6) same_set_iff [OF d(4), of "rs_allowed (u_restrict v)"]
    by (auto simp: u same_restrict_def same_set_def)
  have g: "\<forall>k. jget (valid_levels (u_grants raw)) k = jget (u_grants v) k"
    using s(4) by (simp add: u same_grants_iff)
  have rows: "set (user_role_rows db (store_user db v)) = set (user_role_rows db raw)"
    unfolding user_role_rows_store roles [symmetric] by (simp add: user_role_rows_def)
  have lv: "entries_grant (acc_levels (u_access (load_user db (store_user db v)))) a l =
      entries_grant (acc_levels (u_access (load_user db raw))) a l" for a l
    unfolding load_user_levels rows
    using entries_grant_jget [OF jsmap_ok_valid_levels [OF d(3)] ok g, of a l] by simp
  have ex: "set (acc_ext (u_access (load_user db (store_user db v)))) = set (acc_ext (u_access (load_user db raw)))"
    unfolding load_user_ext rows using ext by simp
  have al: "set (rs_allowed (u_restrict (store_user db v))) = set (rs_allowed (u_restrict raw))"
    using allowed d(5) by (auto simp: store_user_def)
  let ?x = "load_user db (store_user db v)"
  have "can (Some ?x) a l = can (Some u) a l" for a l
    using lv [of a l] s(2) by (simp add: u can_Some entries_grant_ok)
  moreover have "has_ext_permission (Some ?x) k = has_ext_permission (Some u) k" for k
    using ex s(2) by (simp add: u has_ext_permission_def)
  moreover have "reaches_server (Some ?x) i = reaches_server (Some u) i" for i
    using al en s(2) by (simp add: u reaches_server_def)
  ultimately show ?thesis using s(1) by (simp add: same_powers_def)
qed

section \<open>Example data\<close>

text \<open>A helper with two levels and one server, an account it manages, and the viewer role.\<close>

definition ex_user :: "string \<Rightarrow> access_map \<Rightarrow> string list \<Rightarrow> string list \<Rightarrow> user" where
  "ex_user i g rs servers =
     \<lparr>u_id = i, u_name = i, u_password = ''h'', u_roles = rs, u_grants = g, u_ext = [],
      u_access = \<lparr>acc_levels = [], acc_ext = []\<rparr>,
      u_restrict = \<lparr>rs_enabled = True, rs_allowed = servers\<rparr>, is_admin = False, u_oobe = True,
      u_totp_secret = None, u_totp_enabled = False, u_tg2fa = False, u_primary = None\<rparr>"

definition ex_role :: role where
  "ex_role = \<lparr>r_id = ''r'', r_name = ''Reader'', r_description = None, builtin_key = None,
     r_grants = [(AConsole, LRead)], r_ext = [], r_created_at = 0, r_updated_at = 0\<rparr>"

definition ex_db :: adb where
  "ex_db = \<lparr>db_users = [ex_user ''a'' [(AConsole, LWrite), (AAccounts, LWrite)] [] [''s1''],
                        ex_user ''b'' [] [''r''] [''s1'']],
            db_roles = [ex_role], db_servers = [''s1'', ''s2'']\<rparr>"

definition ex_actor :: user where
  "ex_actor = load_user ex_db (ex_user ''a'' [(AConsole, LWrite), (AAccounts, LWrite)] [] [''s1''])"

definition ex_session :: session where
  "ex_session = \<lparr>s_id = ''x'', s_user_id = ''b'', s_token_hash = ''t'', s_ip = None, s_user_agent = None,
     s_created_at = 0, s_last_seen_at = 0, s_expires_at = None, s_revoked_at = None\<rparr>"

definition ex_world :: aworld where
  "ex_world = \<lparr>aw_db = ex_db, aw_sessions = \<lparr>ss_rows = [ex_session], ss_touch = [], ss_events = []\<rparr>,
     aw_limits = rate_limits_init, aw_events = []\<rparr>"

definition ex_update :: update_dto where
  "ex_update = \<lparr>ud_username = None, ud_roles = None, ud_grants = Some [(AConsole, LWrite)],
     ud_ext = None, ud_restrict = None, ud_password = None, ud_admin = Some True\<rparr>"

lemmas ex_defs = ex_user_def ex_role_def ex_db_def ex_actor_def ex_session_def ex_world_def ex_update_def

end
