(* ===== verification/Account_Properties.thy ===== *)
theory Account_Properties
  imports Accounts
begin

text \<open>The properties of accounts and roles, over the handlers and the tables.\<close>

section \<open>Properties\<close>

text \<open>
  C1: An update of an account by somebody who is not an admin never produces an account that
  can do more than its updater: whatever level, extension key or server the stored account
  has when it is read back, the updater has it too, and the account is not an admin.
\<close>

theorem update_account_no_escalation:
  assumes "db_inv (aw_db w)" and "\<not> is_admin actor"
    and "update_account w actor username dto hash session now = Inr w'"
  shows "\<exists>u x. ur_find_by_username (aw_db w) username = Some u \<and>
     ur_find_by_id (aw_db w') (u_id u) = Some x \<and> within_actor actor x \<and> \<not> is_admin x"
proof -
  from assms(3) obtain u where u: "find_managed (aw_db w) actor username = Inr u"
    and fin: "update_account_finish w actor u dto hash session now = Inr w'"
    by (auto simp: update_account_def and_then_Inr_iff)
  from u have found: "ur_find_by_username (aw_db w) username = Some u"
    and mng: "can_manage_account actor u = None"
    by (auto simp: find_managed_def and_then_Inr_iff split: option.splits)
  define v where "v = apply_dto actor u dto hash"
  from fin obtain rs db1 where rs: "roles_resolve (aw_db w) (u_roles v) = Inr rs"
    and grant: "can_grant actor (plan_of rs (v\<lparr>u_access := effective_access rs (u_grants v) (u_ext v)\<rparr>)) = None"
    and upd: "acc_update (aw_db w) (v\<lparr>u_access := effective_access rs (u_grants v) (u_ext v)\<rparr>) = Inr db1"
    and w': "aw_db w' = db1"
    by (auto simp: update_account_finish_def v_def [symmetric] Let_def and_then_Inr_iff)
  let ?v = "v\<lparr>u_access := effective_access rs (u_grants v) (u_ext v)\<rparr>"
  have na: "\<not> is_admin ?v"
    using mng assms(2) by (auto simp: v_def apply_dto_def can_manage_account_def split: if_splits option.splits)
  have "rows_ok r_id (db_roles (aw_db w))" using assms(1) by (simp add: db_inv_def)
  with rs grant assms(2) na have "within_actor actor (load_user (aw_db w) (store_user (aw_db w) ?v))"
    by (intro stored_within [of _ _ rs]) simp_all
  moreover have "ur_find_by_id db1 (u_id u) = Some (load_user (aw_db w) (store_user (aw_db w) ?v))"
    using acc_update_read [OF upd] by (simp add: v_def apply_dto_def)
  ultimately show ?thesis using found w' na by simp
qed

theorem update_account_no_escalation_witness:
  "\<exists>w' u x. update_account ex_world ex_actor ''b'' ex_update ''h2'' None 5 = Inr w' \<and>
     ur_find_by_username ex_db ''b'' = Some u \<and>
     ur_find_by_id (aw_db w') (u_id u) = Some x \<and> within_actor ex_actor x \<and> \<not> is_admin x"
proof -
  have "is_ok (update_account ex_world ex_actor ''b'' ex_update ''h2'' None 5)" by code_simp
  then obtain w' where w': "update_account ex_world ex_actor ''b'' ex_update ''h2'' None 5 = Inr w'"
    by (auto simp: is_ok_iff)
  have "db_inv (aw_db ex_world)" and "\<not> is_admin ex_actor" by code_simp+
  from update_account_no_escalation [OF this w'] w' show ?thesis by (auto simp: ex_world_def)
qed

text \<open>
  The same for a new account: what the requested roles, levels, keys and servers add up to
  stays within the creator's own access, and a created account is never an admin.
\<close>

theorem create_account_no_escalation:
  assumes "db_inv db" and "\<not> is_admin actor"
    and "create_account db actor dto uid hash = Inr (r, db1)"
  shows "\<exists>x. r = Some x \<and> ur_find_by_id db1 uid = Some x \<and> u_name x = cd_username dto \<and>
     within_actor actor x \<and> \<not> is_admin x"
proof -
  let ?v = "new_user dto uid hash"
  from assms(3) obtain rs where rs: "roles_resolve db (u_roles ?v) = Inr rs"
    and grant: "can_grant actor (plan_of rs ?v) = None"
    and fin: "acc_create_finish db dto uid hash = Inr (r, db1)"
    by (auto simp: create_account_def create_account_begin_def create_plan_def and_then_Inr_iff
        plan_of_def new_user_def)
  have "rows_ok r_id (db_roles db)" using assms(1) by (simp add: db_inv_def)
  with rs grant assms(2) have "within_actor actor (load_user db (store_user db ?v))"
    by (intro stored_within [of _ _ rs]) (simp_all add: new_user_def)
  with acc_create_read [OF fin] show ?thesis by (simp add: new_user_def)
qed

theorem create_account_no_escalation_witness:
  "\<exists>r db1 x. create_account ex_db ex_actor
       \<lparr>cd_username = ''c'', cd_password = ''pw'', cd_roles = Some [''r''], cd_grants = Some [(AAccounts, LRead)],
        cd_ext = None, cd_servers = Some [''s1'']\<rparr> ''c1'' ''h'' = Inr (r, db1) \<and>
     r = Some x \<and> within_actor ex_actor x \<and> \<not> is_admin x"
proof -
  let ?dto = "\<lparr>cd_username = ''c'', cd_password = ''pw'', cd_roles = Some [''r''], cd_grants = Some [(AAccounts, LRead)],
        cd_ext = None, cd_servers = Some [''s1'']\<rparr>"
  have "is_ok (create_account ex_db ex_actor ?dto ''c1'' ''h'')" by code_simp
  then obtain r db1 where c: "create_account ex_db ex_actor ?dto ''c1'' ''h'' = Inr (r, db1)"
    by (auto simp: is_ok_iff)
  have "db_inv ex_db" and "\<not> is_admin ex_actor" by code_simp+
  from create_account_no_escalation [OF this c] c show ?thesis by auto
qed

text \<open>
  Managing an account (the check before updating, deleting or resetting it) is open to
  admins, and to others exactly for existing accounts that are no admins and can do nothing
  on no server that the manager could not do there.
\<close>

theorem find_managed_iff:
  "find_managed db actor name = Inr u \<longleftrightarrow>
     ur_find_by_username db name = Some u \<and>
     (is_admin actor \<or> \<not> is_admin u \<and> within_actor actor u)"
proof -
  have "can_manage_account actor u = None \<longleftrightarrow> is_admin actor \<or> \<not> is_admin u \<and> within_actor actor u"
    if "ur_find_by_username db name = Some u" for u
  proof -
    from that obtain raw where u: "u = load_user db raw" by (auto simp: ur_find_by_username_def)
    have ok: "jsmap_ok (acc_levels (u_access u))" by (simp add: u)
    show ?thesis
    proof (cases "is_admin actor \<or> is_admin u")
      case True
      then show ?thesis
        by (auto simp: can_manage_account_def access_above_def can_reach_servers_def access_simps Let_def)
    next
      case False
      obtain i where i: "i \<notin> set (rs_allowed (u_restrict actor))"
        using ex_new_if_finite [OF infinite_UNIV_listI] by (metis List.finite_set)
      have reach: "can_reach_servers actor u = None \<longleftrightarrow>
          (\<forall>i. reaches_server (Some u) i \<longrightarrow> reaches_server (Some actor) i)"
        unfolding can_reach_servers_None_iff using i False by (auto simp: access_simps)
      have "below actor (u_access u) \<longleftrightarrow> (\<forall>a l. can (Some u) a l \<longrightarrow> can (Some actor) a l) \<and>
          (\<forall>k. has_ext_permission (Some u) k \<longrightarrow> has_ext_permission (Some actor) k)"
        using False ok by (auto simp: below_def can_Some entries_grant_ok has_ext_permission_def)
      with False reach show ?thesis
        by (simp add: can_manage_account_def Let_def access_above_Nil_iff within_actor_def)
    qed
  qed
  then show ?thesis by (auto simp: find_managed_def and_then_Inr_iff split: option.splits)
qed

text \<open>
  C2: After an update of an account, a session of it that is neither revoked nor the one the
  updater keeps (their own, when they edit themselves) can only exist if password and
  access did not change: no open session survives a password change or a loss of access.
\<close>

theorem update_account_revokes_sessions:
  assumes "db_inv (aw_db w)" and "case ud_grants dto of None \<Rightarrow> True | Some g \<Rightarrow> jsmap_ok g"
    and "update_account w actor username dto hash session now = Inr w'"
    and "ur_find_by_username (aw_db w) username = Some u"
    and "s \<in> set (ss_rows (aw_sessions w'))" and "s_user_id s = u_id u" and "s_revoked_at s = None"
    and "\<not> (u_id actor = u_id u \<and> kept_id session = Some (s_id s))"
  shows "\<exists>x. ur_find_by_id (aw_db w') (u_id u) = Some x \<and> same_powers x u"
proof -
  from assms(4) obtain raw where raw: "row_find u_name username (db_users (aw_db w)) = Some raw"
    and u: "u = load_user (aw_db w) raw" by (auto simp: ur_find_by_username_def)
  from raw have mem: "raw \<in> set (db_users (aw_db w))" by (auto dest: row_find_Some_in)
  with assms(1) have g: "jsmap_ok (u_grants raw)" by (simp add: db_inv_def user_row_ok_def)
  define v where "v = apply_dto actor u dto hash"
  from assms(3,4) obtain rs db1 where rs: "roles_resolve (aw_db w) (u_roles v) = Inr rs"
    and upd: "acc_update (aw_db w) (v\<lparr>u_access := effective_access rs (u_grants v) (u_ext v)\<rparr>) = Inr db1"
    and w': "w' = w\<lparr>aw_db := db1,
         aw_sessions := (if needs_session_revoke u (v\<lparr>u_access := effective_access rs (u_grants v) (u_ext v)\<rparr>)
            then revoke_sessions (aw_sessions w) (u_id u) actor session now else aw_sessions w),
         aw_events := aw_events w @ (if access_changed u (v\<lparr>u_access := effective_access rs (u_grants v) (u_ext v)\<rparr>)
            then [EvAccessChanged (u_id u)] else [])\<rparr>"
    by (auto simp: update_account_def update_account_finish_def v_def [symmetric] Let_def and_then_Inr_iff
        find_managed_def split: option.splits)
  let ?v = "v\<lparr>u_access := effective_access rs (u_grants v) (u_ext v)\<rparr>"
  have "\<not> needs_session_revoke u ?v"
  proof
    assume "needs_session_revoke u ?v"
    with assms(5) w' have "s \<in> set (srepo_revoke_all (u_id u) now
        (if u_id actor = u_id u then session else None) (ss_rows (aw_sessions w)))"
      by (simp add: revoke_sessions_def sess_revoke_all_def Let_def)
    from srepo_revoke_all_live [OF this assms(7)] assms(6,8) show False
      by (auto simp: kept_id_def split: if_splits)
  qed
  moreover have "jsmap_ok (u_grants ?v)"
    using assms(2) g by (auto simp: v_def apply_dto_def u jsmap_ok_valid_levels split: option.splits)
  moreover have "roles_resolve (aw_db w) (u_roles ?v) = Inr rs" using rs by simp
  ultimately have "same_powers (load_user (aw_db w) (store_user (aw_db w) ?v)) u"
    by (intro unchanged_same_powers [OF assms(1) mem u])
  with acc_update_read [OF upd] w' show ?thesis by (simp add: v_def apply_dto_def)
qed

theorem update_account_revokes_sessions_witness:
  "\<exists>w' u x. update_account ex_world ex_actor ''b'' (ex_update\<lparr>ud_grants := Some []\<rparr>) ''h2'' None 5 = Inr w' \<and>
     ur_find_by_username ex_db ''b'' = Some u \<and> ex_session \<in> set (ss_rows (aw_sessions w')) \<and>
     ur_find_by_id (aw_db w') (u_id u) = Some x \<and> same_powers x u"
proof -
  let ?dto = "ex_update\<lparr>ud_grants := Some []\<rparr>"
  let ?r = "update_account ex_world ex_actor ''b'' ?dto ''h2'' None 5"
  have "(case ?r of Inl _ \<Rightarrow> False | Inr w' \<Rightarrow> ex_session \<in> set (ss_rows (aw_sessions w')))" by code_simp
  then obtain w' where w': "?r = Inr w'" and s: "ex_session \<in> set (ss_rows (aw_sessions w'))"
    by (auto split: sum.splits)
  have "map_option u_id (ur_find_by_username (aw_db ex_world) ''b'') = Some ''b''" by code_simp
  then obtain u where u: "ur_find_by_username (aw_db ex_world) ''b'' = Some u" and i: "u_id u = ''b''" by auto
  have inv: "db_inv (aw_db ex_world)" and "u_id ex_actor \<noteq> ''b''" by code_simp+
  with i have k: "\<not> (u_id ex_actor = u_id u \<and> kept_id None = Some (s_id ex_session))"
    and si: "s_user_id ex_session = u_id u" and live: "s_revoked_at ex_session = None"
    by (simp_all add: ex_session_def)
  have g: "case ud_grants ?dto of None \<Rightarrow> True | Some g \<Rightarrow> jsmap_ok g" by simp
  from update_account_revokes_sessions [OF inv g w' u s si live k] w' u s show ?thesis
    by (auto simp: ex_world_def)
qed

text \<open>
  C31: No sequence of account and role writes breaks the tables: role ids and names (regardless
  of case) and account ids and names stay unique, and accounts refer to existing roles and servers.
\<close>

theorem db_run_inv: "db_inv (run db_step \<lparr>db_users = [], db_roles = [], db_servers = servers\<rparr> ops)"
  by (rule dbm.run_inv) (simp add: db_inv_def rows_ok_def)

text \<open>
  Editing a role: somebody who is not an admin can only edit a role whose levels and keys
  are below their own, before and after the edit, and only when no member of the role reaches
  a server they do not reach; the members are told when levels or keys were part of the edit.
\<close>

theorem roles_update_no_escalation:
  assumes "\<not> is_admin actor" and "roles_update db actor i inp now = Inr (before, v, changed, db1)"
  shows "below actor \<lparr>acc_levels = r_grants before, acc_ext = r_ext before\<rparr> \<and>
     below actor \<lparr>acc_levels = r_grants (fst v), acc_ext = r_ext (fst v)\<rparr> \<and>
     rr_find_by_id db1 i = Some (fst v) \<and>
     (\<forall>m \<in> set (roles_members db i). \<forall>srv. reaches_server (Some m) srv \<longrightarrow> reaches_server (Some actor) srv) \<and>
     (ri_grants inp \<noteq> None \<or> ri_ext inp \<noteq> None \<longrightarrow> changed = map u_id (roles_members db i))"
proof -
  from assms(2) obtain n where find: "roles_find db i = Inr before"
    and use1: "can_use_role actor before = None"
    and mem: "can_change_role_members actor (roles_members db i) = None"
    and use2: "can_use_role actor (updated_role before inp n now) = None"
    and upd: "rr_update db (updated_role before inp n now) = Inr db1"
    and get: "roles_get db1 i = Inr v"
    and ch: "changed = (if ri_grants inp \<noteq> None \<or> ri_ext inp \<noteq> None then map u_id (roles_members db i) else [])"
    by (auto simp: roles_update_def and_then_Inr_iff Let_def split: if_splits)
  let ?n = "updated_role before inp n now"
  from find obtain raw where raw: "row_find r_id i (db_roles db) = Some raw" and b: "before = load_role raw"
    by (auto simp: roles_find_def rr_find_by_id_def split: option.splits)
  from raw have ri: "r_id raw = i" by (auto dest: row_find_Some_in)
  then have ni: "r_id ?n = i" by (simp add: updated_role_def b load_role_def)
  have "db_roles db1 = row_patch r_id patch_role ?n (db_roles db)"
    using upd by (auto simp: rr_update_def split: if_splits)
  moreover have "keeps_key r_id patch_role" by (simp add: keeps_key_def patch_role_def)
  ultimately have found: "rr_find_by_id db1 i = Some (load_role (patch_role ?n raw))"
    using raw ni by (simp add: rr_find_by_id_def row_find_patch)
  with get have v: "fst v = load_role (patch_role ?n raw)"
    by (auto simp: roles_get_def roles_find_def and_then_Inr_iff)
  have "below actor \<lparr>acc_levels = r_grants (fst v), acc_ext = r_ext (fst v)\<rparr>"
    using use2 assms(1) unfolding can_use_role_None_iff v
    by (auto simp: below_def load_role_def patch_role_def store_role_def dest: valid_levels_grant)
  moreover have "reaches_server (Some actor) srv"
    if "m \<in> set (roles_members db i)" "reaches_server (Some m) srv" for m srv
  proof -
    from mem that(1) have "can_reach_servers actor m = None"
      by (auto simp: can_change_role_members_def Let_def filter_empty_conv split: if_splits)
    with that(2) show ?thesis by (simp add: can_reach_servers_None_iff)
  qed
  ultimately show ?thesis using use1 found v ch by (simp add: can_use_role_None_iff)
qed

theorem roles_update_no_escalation_witness:
  "\<exists>before v changed db1. roles_update ex_db ex_actor ''r''
       \<lparr>ri_name = Some '' Writer '', ri_description = None, ri_grants = Some [(AConsole, LWrite)], ri_ext = None\<rparr> 9
       = Inr (before, v, changed, db1) \<and>
     below ex_actor \<lparr>acc_levels = r_grants (fst v), acc_ext = r_ext (fst v)\<rparr> \<and>
     changed = map u_id (roles_members ex_db ''r'')"
proof -
  let ?inp = "\<lparr>ri_name = Some '' Writer '', ri_description = None, ri_grants = Some [(AConsole, LWrite)], ri_ext = None\<rparr>"
  have "is_ok (roles_update ex_db ex_actor ''r'' ?inp 9)" by code_simp
  then obtain before v changed db1 where r: "roles_update ex_db ex_actor ''r'' ?inp 9 = Inr (before, v, changed, db1)"
    by (auto simp: is_ok_iff)
  have "\<not> is_admin ex_actor" by code_simp
  from roles_update_no_escalation [OF this r] r show ?thesis by simp
qed

text \<open>
  The search for the name of a copied role ends within one more candidate than there are
  roles, and gives the first numbered name that no role has, regardless of case.
\<close>

theorem copy_name_first_free:
  "\<exists>n > 0. copy_name db name = Some (copy_candidate name n) \<and>
     rr_find_by_name db (copy_candidate name n) = None \<and> n \<le> Suc (length (db_roles db)) \<and>
     (\<forall>m. 0 < m \<and> m < n \<longrightarrow> rr_find_by_name db (copy_candidate name m) \<noteq> None)"
proof -
  have first: "\<exists>k < fuel. c = copy_candidate name (n + k) \<and> rr_find_by_name db c = None \<and>
      (\<forall>j < k. rr_find_by_name db (copy_candidate name (n + j)) \<noteq> None)"
    if "copy_name_from db name n fuel = Some c" for n fuel c
    using that
  proof (induction fuel arbitrary: n)
    case 0
    then show ?case by simp
  next
    case (Suc fuel)
    show ?case
    proof (cases "rr_find_by_name db (copy_candidate name n) = None")
      case True
      with Suc.prems show ?thesis by (intro exI [of _ 0]) simp
    next
      case False
      with Suc.prems obtain k where k: "k < fuel" "c = copy_candidate name (Suc n + k)"
        "rr_find_by_name db c = None"
        "\<forall>j < k. rr_find_by_name db (copy_candidate name (Suc n + j)) \<noteq> None"
        using Suc.IH [of "Suc n"] by auto
      then show ?thesis using False by (intro exI [of _ "Suc k"]) (auto simp: less_Suc_eq_0_disj)
    qed
  qed
  obtain c where c: "copy_name db name = Some c" using copy_name_total by blast
  then obtain k where k: "k < Suc (length (db_roles db))" "c = copy_candidate name (1 + k)"
    "rr_find_by_name db c = None" "\<forall>j < k. rr_find_by_name db (copy_candidate name (1 + j)) \<noteq> None"
    using first unfolding copy_name_def by blast
  have "rr_find_by_name db (copy_candidate name m) \<noteq> None" if "0 < m \<and> m < Suc k" for m
    using k(4) that by (cases m) auto
  with c k show ?thesis by (intro exI [of _ "Suc k"]) auto
qed

theorem copy_name_first_free_witness:
  "copy_name ex_db ''zz'' = Some (copy_candidate ''zz'' 1)"
proof -
  obtain n where n: "n > 0" "copy_name ex_db ''zz'' = Some (copy_candidate ''zz'' n)"
    "\<forall>m. 0 < m \<and> m < n \<longrightarrow> rr_find_by_name ex_db (copy_candidate ''zz'' m) \<noteq> None"
    using copy_name_first_free [of ex_db "''zz''"] by blast
  have "rr_find_by_name ex_db (copy_candidate ''zz'' 1) = None" by code_simp
  with n(3) [rule_format, of 1] n(1) have "n = 1" by (cases "1 < n") simp_all
  with n(2) show ?thesis by simp
qed

end
