(* ===== verification/Twofa.thy ===== *)
theory Twofa
  imports Rate_Limit Sessions
begin

text \<open>
  Signing in with a second factor: \<open>auth-challenges.repository.ts\<close>, \<open>twofa.service.ts\<close> and the
  login handler of \<open>auth.controller.ts\<close>.

  A method runs without interruption up to an \<open>await\<close>; what follows the await is a second
  operation, and other requests run between the two.  The request sent to Telegram is such a
  point: the challenge object built before it is written again after it (\<open>tw_sending\<close> holds
  these objects).  The accounts (\<open>find_user\<close>), the linked Telegram users (\<open>tg_find\<close>), the
  random ids and tokens, otplib's \<open>verifySync\<close> (\<open>None\<close> when it throws), bcrypt's comparison and
  the HMAC are arguments.
\<close>

section \<open>Challenges\<close>

datatype challenge_status = Pending | Approved | Denied | Expired | Consumed

fun status_key :: "challenge_status \<Rightarrow> string" where
  "status_key Pending = ''pending''"
| "status_key Approved = ''approved''"
| "status_key Denied = ''denied''"
| "status_key Expired = ''expired''"
| "status_key Consumed = ''consumed''"

record challenge =
  c_id :: string
  c_user :: string
  c_method :: twofa_method
  c_status :: challenge_status
  c_chat :: "int option"
  c_message :: "int option"
  c_ip :: "string option"
  c_agent :: "string option"
  c_token :: "string option"
  c_created :: int
  c_expires :: int
  c_resolved :: "int option"
  c_attempts :: int

definition challenge_ttl_ms :: int where "challenge_ttl_ms = 3 * 60 * 1000"
definition setup_token_ttl_ms :: int where "setup_token_ttl_ms = 10 * 60 * 1000"
definition max_totp_attempts :: int where "max_totp_attempts = 5"

text \<open>The columns the \<open>UPDATE\<close> of the repository writes.\<close>

definition patch_challenge :: "challenge \<Rightarrow> challenge \<Rightarrow> challenge" where
  "patch_challenge c x =
     x\<lparr>c_method := c_method c, c_status := c_status c, c_chat := c_chat c, c_message := c_message c,
       c_token := c_token c, c_resolved := c_resolved c, c_expires := c_expires c,
       c_attempts := c_attempts c\<rparr>"

definition crepo_create :: "challenge \<Rightarrow> challenge list \<Rightarrow> challenge list" where
  "crepo_create c t = row_insert c t"

definition crepo_find :: "string \<Rightarrow> challenge list \<Rightarrow> challenge option" where
  "crepo_find i t = row_find c_id i t"

definition crepo_update :: "challenge \<Rightarrow> challenge list \<Rightarrow> challenge list" where
  "crepo_update c t = row_patch c_id patch_challenge c t"

definition crepo_delete :: "string \<Rightarrow> challenge list \<Rightarrow> challenge list" where
  "crepo_delete i t = row_delete c_id i t"

definition crepo_delete_expired :: "int \<Rightarrow> challenge list \<Rightarrow> challenge list" where
  "crepo_delete_expired now t =
     filter (\<lambda>c. \<not> (c_expires c < now \<or>
        (c_status c \<in> {Consumed, Denied} \<and>
         (case c_resolved c of None \<Rightarrow> False | Some r \<Rightarrow> r < now - 60 * 60 * 1000)))) t"

lemma patch_keeps_key: "keeps_key c_id patch_challenge"
  by (simp add: keeps_key_def patch_challenge_def)

interpretation chal: table c_id patch_challenge crepo_find crepo_create crepo_update crepo_delete
  "rows_ok c_id"
  using table_rows [OF patch_keeps_key]
  unfolding crepo_find_def [abs_def] crepo_create_def [abs_def] crepo_update_def [abs_def]
    crepo_delete_def [abs_def] .

section \<open>Enabled methods\<close>

definition tw_is_enabled_for :: "user \<Rightarrow> bool" where
  "tw_is_enabled_for u \<longleftrightarrow> u_totp_enabled u \<or> u_tg2fa u"

definition tw_enabled_methods :: "user \<Rightarrow> twofa_method list" where
  "tw_enabled_methods u =
     (if u_totp_enabled u then [MTotp] else []) @ (if u_tg2fa u then [MTelegram] else [])"

definition tw_primary_method :: "user \<Rightarrow> twofa_method option" where
  "tw_primary_method u =
     (let methods = tw_enabled_methods u in
      if methods = [] then None
      else case u_primary u of
        Some m \<Rightarrow> if m \<in> set methods then Some m else Some (hd methods)
      | None \<Rightarrow> Some (hd methods))"

section \<open>The state and starting a challenge\<close>

record twofa =
  tw_rows :: "challenge list"
  tw_sending :: "challenge list"
  tw_limits :: rate_limits
  tw_sessions :: sessions

definition new_challenge ::
  "string \<Rightarrow> string \<Rightarrow> twofa_method \<Rightarrow> string option \<Rightarrow> string option \<Rightarrow> int \<Rightarrow> challenge" where
  "new_challenge cid uid m ip ua now =
     \<lparr>c_id = cid, c_user = uid, c_method = m, c_status = Pending, c_chat = None, c_message = None,
      c_ip = ip, c_agent = ua, c_token = None, c_created = now,
      c_expires = now + challenge_ttl_ms, c_resolved = None, c_attempts = 0\<rparr>"

text \<open>
  \<open>startChallenge\<close> up to the request to Telegram; a TOTP challenge is complete here.
\<close>

definition tw_start ::
  "twofa \<Rightarrow> user \<Rightarrow> twofa_method \<Rightarrow> string option \<Rightarrow> string option \<Rightarrow> string \<Rightarrow> int \<Rightarrow> challenge result \<times> twofa" where
  "tw_start w u m ip ua cid now =
     (if m \<notin> set (tw_enabled_methods u)
      then (fail BadRequest ''2FA method is not enabled for this user'', w)
      else let c = new_challenge cid (u_id u) m ip ua now;
               rows = crepo_create c (crepo_delete_expired now (tw_rows w))
           in (Inr c, w\<lparr>tw_rows := rows,
                       tw_sending := (if m = MTelegram then c # tw_sending w else tw_sending w)\<rparr>))"

text \<open>What \<open>sendApprovalRequest\<close> came back with, and the rest of \<open>startChallenge\<close>.\<close>

datatype send_outcome = SentTo int int | NotSent | SendThrew | SendRejected api_error

definition tw_sent :: "twofa \<Rightarrow> string \<Rightarrow> send_outcome \<Rightarrow> challenge result \<times> twofa" where
  "tw_sent w cid out =
     (case row_find c_id cid (tw_sending w) of
        None \<Rightarrow> (fail Internal ''no request in flight'', w)
      | Some c \<Rightarrow>
         (let w1 = w\<lparr>tw_sending := row_delete c_id cid (tw_sending w)\<rparr> in
          (case out of
             SentTo chat msg \<Rightarrow>
               (let c' = c\<lparr>c_chat := Some chat, c_message := Some msg\<rparr>
                in (Inr c', w1\<lparr>tw_rows := crepo_update c' (tw_rows w1)\<rparr>))
           | SendRejected e \<Rightarrow> (Inl e, w1)
           | _ \<Rightarrow> (fail BadRequest ''Failed to send the Telegram request'',
                  w1\<lparr>tw_rows := crepo_delete cid (tw_rows w1)\<rparr>))))"

definition tw_require_pending :: "twofa \<Rightarrow> string \<Rightarrow> int \<Rightarrow> challenge result \<times> twofa" where
  "tw_require_pending w cid now =
     (case crepo_find cid (tw_rows w) of
        None \<Rightarrow> (fail NotFound ''Challenge not found'', w)
      | Some c \<Rightarrow>
          if c_status c \<noteq> Pending
          then (fail BadRequest (''Challenge is '' @ status_key (c_status c)), w)
          else if c_expires c < now
          then (fail BadRequest ''Challenge expired'',
                w\<lparr>tw_rows := crepo_update (c\<lparr>c_status := Expired, c_resolved := Some now\<rparr>) (tw_rows w)\<rparr>)
          else (Inr c, w))"

definition tw_switch ::
  "(string \<Rightarrow> user option) \<Rightarrow> twofa \<Rightarrow> string \<Rightarrow> twofa_method \<Rightarrow> string \<Rightarrow> int \<Rightarrow> challenge result \<times> twofa" where
  "tw_switch find_user w cid m new_id now =
     (case tw_require_pending w cid now of
        (Inl e, w1) \<Rightarrow> (Inl e, w1)
      | (Inr c, w1) \<Rightarrow>
         (case find_user (c_user c) of
            None \<Rightarrow> (fail NotFound ''User not found'', w1)
          | Some u \<Rightarrow>
              if m \<notin> set (tw_enabled_methods u)
              then (fail BadRequest ''2FA method is not enabled for this user'', w1)
              else tw_start
                     (w1\<lparr>tw_rows := crepo_update (c\<lparr>c_status := Expired, c_resolved := Some now\<rparr>) (tw_rows w1)\<rparr>)
                     u m (c_ip c) (c_agent c) new_id now))"

section \<open>Answering a challenge\<close>

definition verify_code :: "(string \<Rightarrow> string \<Rightarrow> bool option) \<Rightarrow> string \<Rightarrow> string \<Rightarrow> bool" where
  "verify_code verify_sync secret code = (case verify_sync secret code of None \<Rightarrow> False | Some v \<Rightarrow> v)"

definition tw_consume ::
  "(string \<Rightarrow> string) \<Rightarrow> twofa \<Rightarrow> challenge \<Rightarrow> user \<Rightarrow> string \<Rightarrow> string \<Rightarrow> int \<Rightarrow> (string \<times> user) result \<times> twofa" where
  "tw_consume hash_token w c u sid token now =
     (case sess_create hash_token (tw_sessions w) sid token (u_id u) (c_ip c) (c_agent c) now of
        ((tok, _), ss) \<Rightarrow>
          (Inr (tok, u),
           w\<lparr>tw_sessions := ss,
             tw_rows := crepo_update (c\<lparr>c_status := Consumed, c_resolved := Some now\<rparr>) (tw_rows w)\<rparr>))"

text \<open>The wrong-code branch: one more attempt, and the fifth locks the challenge.\<close>

definition tw_wrong_code :: "twofa \<Rightarrow> challenge \<Rightarrow> user \<Rightarrow> int \<Rightarrow> (string \<times> user) result \<times> twofa" where
  "tw_wrong_code w c u now =
     (case rl_fail (tw_limits w) PTotp (u_id u)
             \<lparr>ls_user_id = Some (u_id u), ls_username = Some (u_name u), ls_ip = c_ip c\<rparr> now of
        (Inl e, rl) \<Rightarrow> (Inl e, w\<lparr>tw_limits := rl\<rparr>)
      | (Inr _, rl) \<Rightarrow>
         (let attempts = c_attempts c + 1; c1 = c\<lparr>c_attempts := attempts\<rparr>; w1 = w\<lparr>tw_limits := rl\<rparr> in
          if attempts \<ge> max_totp_attempts
          then (fail_info Unauthorized ''TOTP_LOCKED'' ''Too many attempts, challenge locked''
                  [(''attemptsLeft'', 0)],
                w1\<lparr>tw_rows := crepo_update (c1\<lparr>c_status := Expired, c_resolved := Some now\<rparr>) (tw_rows w1)\<rparr>)
          else (fail_info Unauthorized ''TOTP_INVALID'' ''Invalid code''
                  [(''attemptsLeft'', max 0 (max_totp_attempts - attempts))],
                w1\<lparr>tw_rows := crepo_update c1 (tw_rows w1)\<rparr>)))"

definition tw_verify ::
  "(string \<Rightarrow> string) \<Rightarrow> (string \<Rightarrow> user option) \<Rightarrow> (string \<Rightarrow> string \<Rightarrow> bool option) \<Rightarrow>
   twofa \<Rightarrow> string \<Rightarrow> string \<Rightarrow> string \<Rightarrow> string \<Rightarrow> int \<Rightarrow> (string \<times> user) result \<times> twofa" where
  "tw_verify hash_token find_user verify_sync w cid code sid token now =
     (case tw_require_pending w cid now of
        (Inl e, w1) \<Rightarrow> (Inl e, w1)
      | (Inr c, w1) \<Rightarrow>
          if c_method c \<noteq> MTotp then (fail BadRequest ''Challenge requires a different method'', w1)
          else (case find_user (c_user c) of
            None \<Rightarrow> (fail BadRequest ''TOTP is not configured for this account'', w1)
          | Some u \<Rightarrow>
             (case u_totp_secret u of
                None \<Rightarrow> (fail BadRequest ''TOTP is not configured for this account'', w1)
              | Some secret \<Rightarrow>
                  if \<not> u_totp_enabled u \<or> secret = []
                  then (fail BadRequest ''TOTP is not configured for this account'', w1)
                  else (case rl_check (tw_limits w1) PTotp (u_id u) now of
                     (Inl e, rl) \<Rightarrow> (Inl e, w1\<lparr>tw_limits := rl\<rparr>)
                   | (Inr _, rl) \<Rightarrow>
                       (let w2 = w1\<lparr>tw_limits := rl\<rparr> in
                        if \<not> verify_code verify_sync secret code then tw_wrong_code w2 c u now
                        else tw_consume hash_token
                               (w2\<lparr>tw_limits := rl_succeed (tw_limits w2) PTotp (u_id u)\<rparr>) c u sid token now)))))"

datatype decision = Approve | Deny

record tg_user =
  tg_active :: bool
  tg_user_id :: "string option"

definition tw_resolve ::
  "(string \<Rightarrow> string) \<Rightarrow> (string \<Rightarrow> user option) \<Rightarrow> (int \<Rightarrow> tg_user option) \<Rightarrow>
   twofa \<Rightarrow> string \<Rightarrow> decision \<Rightarrow> int \<Rightarrow> string \<Rightarrow> string \<Rightarrow> int \<Rightarrow> (bool \<times> string option) \<times> twofa" where
  "tw_resolve hash_token find_user tg_find w cid d tgid sid token now =
     (case crepo_find cid (tw_rows w) of
        None \<Rightarrow> ((False, Some ''not_found''), w)
      | Some c \<Rightarrow>
          if c_status c \<noteq> Pending then ((False, Some (status_key (c_status c))), w)
          else if c_expires c < now
          then ((False, Some ''expired''),
                w\<lparr>tw_rows := crepo_update (c\<lparr>c_status := Expired, c_resolved := Some now\<rparr>) (tw_rows w)\<rparr>)
          else if c_method c \<noteq> MTelegram then ((False, Some ''wrong_method''), w)
          else (case tg_find tgid of
            None \<Rightarrow> ((False, Some ''forbidden''), w)
          | Some tg \<Rightarrow>
              if \<not> tg_active tg \<or> tg_user_id tg \<noteq> Some (c_user c) then ((False, Some ''forbidden''), w)
              else (case find_user (c_user c) of
                None \<Rightarrow> ((False, Some ''no_user''), w)
              | Some u \<Rightarrow>
                 (case d of
                    Deny \<Rightarrow> ((True, None),
                      w\<lparr>tw_rows := crepo_update (c\<lparr>c_status := Denied, c_resolved := Some now\<rparr>) (tw_rows w)\<rparr>)
                  | Approve \<Rightarrow>
                      (case sess_create hash_token (tw_sessions w) sid token (u_id u) (c_ip c) (c_agent c) now of
                         ((tok, _), ss) \<Rightarrow>
                           ((True, None),
                            w\<lparr>tw_sessions := ss,
                              tw_rows := crepo_update (c\<lparr>c_status := Approved, c_token := Some tok,
                                                     c_resolved := Some now\<rparr>) (tw_rows w)\<rparr>))))))"

datatype poll_result = PollPending | PollDenied | PollExpired | PollApproved "string option" user

definition tw_poll :: "(string \<Rightarrow> user option) \<Rightarrow> twofa \<Rightarrow> string \<Rightarrow> int \<Rightarrow> poll_result \<times> twofa" where
  "tw_poll find_user w cid now =
     (case crepo_find cid (tw_rows w) of
        None \<Rightarrow> (PollExpired, w)
      | Some c0 \<Rightarrow>
         (let late = c_expires c0 < now \<and> c_status c0 = Pending;
              c = (if late then c0\<lparr>c_status := Expired, c_resolved := Some now\<rparr> else c0);
              w1 = (if late then w\<lparr>tw_rows := crepo_update c (tw_rows w)\<rparr> else w)
          in if c_status c = Approved
             then (case find_user (c_user c) of
                None \<Rightarrow> (PollExpired, w1)
              | Some u \<Rightarrow> (PollApproved (c_token c) u,
                  w1\<lparr>tw_rows := crepo_update (c\<lparr>c_status := Consumed, c_token := None\<rparr>) (tw_rows w1)\<rparr>))
             else if c_status c = Denied then (PollDenied, w1)
             else if c_status c = Expired \<or> c_status c = Consumed then (PollExpired, w1)
             else (PollPending, w1)))"

section \<open>Settings: enabling and disabling a method\<close>

record setup_payload =
  sp_user :: string
  sp_secret :: string
  sp_exp :: int

text \<open>
  \<open>encode\<close> is \<open>JSON.stringify\<close> with base64url, \<open>decode\<close> the reverse (\<open>None\<close> when the parse
  throws), \<open>mac\<close> the HMAC under the setup secret, in base64url.
\<close>

definition sign_setup_token ::
  "(setup_payload \<Rightarrow> string) \<Rightarrow> (string \<Rightarrow> string) \<Rightarrow> setup_payload \<Rightarrow> string" where
  "sign_setup_token encode mac p = (let body = encode p in body @ ''.'' @ mac body)"

definition bad_setup_token :: "string \<Rightarrow> 'a result" where
  "bad_setup_token m = fail_code BadRequest ''TOTP_SETUP_EXPIRED'' m"

definition verify_setup_token ::
  "(string \<Rightarrow> setup_payload option) \<Rightarrow> (string \<Rightarrow> string) \<Rightarrow> string \<Rightarrow> int \<Rightarrow> setup_payload result" where
  "verify_setup_token decode mac token now =
     (let parts = split_on CHR ''.'' token;
          body = hd parts; sig = (case parts of _ # x # _ \<Rightarrow> x | _ \<Rightarrow> [])
      in if body = [] \<or> sig = [] then bad_setup_token ''Bad setup token''
         else if mac body \<noteq> sig then bad_setup_token ''Bad setup token''
         else (case decode body of
            None \<Rightarrow> bad_setup_token ''Bad setup token''
          | Some p \<Rightarrow> if sp_exp p < now then bad_setup_token ''Setup token expired'' else Inr p))"

definition begin_totp_setup ::
  "(setup_payload \<Rightarrow> string) \<Rightarrow> (string \<Rightarrow> string) \<Rightarrow> user \<Rightarrow> string \<Rightarrow> int \<Rightarrow> string \<times> string" where
  "begin_totp_setup encode mac u secret now =
     (secret, sign_setup_token encode mac
        \<lparr>sp_user = u_id u, sp_secret = secret, sp_exp = now + setup_token_ttl_ms\<rparr>)"

text \<open>The four handlers return the account they store.\<close>

definition confirm_totp_setup ::
  "(string \<Rightarrow> setup_payload option) \<Rightarrow> (string \<Rightarrow> string) \<Rightarrow> (string \<Rightarrow> string \<Rightarrow> bool option) \<Rightarrow>
   user \<Rightarrow> string \<Rightarrow> string \<Rightarrow> int \<Rightarrow> user result" where
  "confirm_totp_setup decode mac verify_sync u token code now =
     and_then (verify_setup_token decode mac token now) (\<lambda>p.
       if sp_user p \<noteq> u_id u then fail Forbidden ''Forbidden''
       else if \<not> verify_code verify_sync (sp_secret p) code
       then fail_code BadRequest ''TOTP_INVALID'' ''Invalid code''
       else Inr (u\<lparr>u_totp_secret := Some (sp_secret p), u_totp_enabled := True,
                  u_primary := (case u_primary u of None \<Rightarrow> Some MTotp | Some m \<Rightarrow> Some m)\<rparr>))"

definition drop_totp :: "user \<Rightarrow> user" where
  "drop_totp u = u\<lparr>u_totp_secret := None, u_totp_enabled := False,
     u_primary := (if u_primary u = Some MTotp then (if u_tg2fa u then Some MTelegram else None)
                   else u_primary u)\<rparr>"

definition disable_totp ::
  "(string \<Rightarrow> string \<Rightarrow> bool) \<Rightarrow> rate_limits \<Rightarrow> user \<Rightarrow> string \<Rightarrow> string option \<Rightarrow> int \<Rightarrow> int \<Rightarrow> user result \<times> rate_limits" where
  "disable_totp compare_password rl u pw ip t0 t1 =
     (case recheck_assert compare_password rl u pw ip t0 t1 of
        (Inl e, rl1) \<Rightarrow> (Inl e, rl1)
      | (Inr _, rl1) \<Rightarrow> (Inr (drop_totp u), rl1))"

definition enable_telegram :: "(string \<Rightarrow> tg_user option) \<Rightarrow> user \<Rightarrow> user result" where
  "enable_telegram tg_by_user u =
     (case tg_by_user (u_id u) of
        None \<Rightarrow> fail BadRequest ''Link your Telegram account first''
      | Some tg \<Rightarrow>
          if \<not> tg_active tg then fail BadRequest ''Link your Telegram account first''
          else Inr (u\<lparr>u_tg2fa := True,
                     u_primary := (case u_primary u of None \<Rightarrow> Some MTelegram | Some m \<Rightarrow> Some m)\<rparr>))"

definition disable_telegram :: "user \<Rightarrow> user" where
  "disable_telegram u = u\<lparr>u_tg2fa := False,
     u_primary := (if u_primary u = Some MTelegram then (if u_totp_enabled u then Some MTotp else None)
                   else u_primary u)\<rparr>"

text \<open>The stored primary method is an enabled one, and is set whenever there is one.\<close>

definition primary_ok :: "user \<Rightarrow> bool" where
  "primary_ok u \<longleftrightarrow>
     (case u_primary u of None \<Rightarrow> tw_enabled_methods u = [] | Some m \<Rightarrow> m \<in> set (tw_enabled_methods u))"

lemma primary_ok_method: "primary_ok u \<Longrightarrow> tw_primary_method u = u_primary u"
  by (auto simp: primary_ok_def tw_primary_method_def Let_def split: option.splits)

lemma primary_ok_confirm:
  "primary_ok u \<Longrightarrow> confirm_totp_setup d mac v u token code now = Inr u' \<Longrightarrow>
   primary_ok u' \<and> MTotp \<in> set (tw_enabled_methods u')"
  by (auto simp: confirm_totp_setup_def and_then_Inr_iff primary_ok_def tw_enabled_methods_def
      split: if_splits option.splits)

lemma primary_ok_drop_totp: "primary_ok u \<Longrightarrow> primary_ok (drop_totp u) \<and> MTotp \<notin> set (tw_enabled_methods (drop_totp u))"
  by (cases "u_primary u")
     (auto simp: drop_totp_def primary_ok_def tw_enabled_methods_def split: if_splits)

lemma primary_ok_enable_telegram:
  "primary_ok u \<Longrightarrow> enable_telegram f u = Inr u' \<Longrightarrow>
   primary_ok u' \<and> MTelegram \<in> set (tw_enabled_methods u')"
  by (auto simp: enable_telegram_def primary_ok_def tw_enabled_methods_def split: if_splits option.splits)

lemma primary_ok_disable_telegram:
  "primary_ok u \<Longrightarrow> primary_ok (disable_telegram u) \<and> MTelegram \<notin> set (tw_enabled_methods (disable_telegram u))"
  by (cases "u_primary u")
     (auto simp: disable_telegram_def primary_ok_def tw_enabled_methods_def split: if_splits)

section \<open>The login handler (auth.controller.ts)\<close>

text \<open>
  \<open>login_begin\<close> is the part before the password comparison: three limiter calls, then the
  account lookup.  \<open>valid\<close> is the account when the comparison succeeded.
\<close>

definition login_begin ::
  "(string \<Rightarrow> user option) \<Rightarrow> rate_limits \<Rightarrow> string option \<Rightarrow> string \<Rightarrow> int \<Rightarrow> user option result \<times> rate_limits" where
  "login_begin find_by_name rl ip name now =
     (case rl_hit rl PLoginIp (ip_key ip) now of
        (Inl e, rl1) \<Rightarrow> (Inl e, rl1)
      | (Inr _, rl1) \<Rightarrow>
         (case rl_check rl1 PLogin (login_key ip name) now of
            (Inl e, rl2) \<Rightarrow> (Inl e, rl2)
          | (Inr _, rl2) \<Rightarrow>
             (case rl_check rl2 PLoginUser (to_lower name) now of
                (Inl e, rl3) \<Rightarrow> (Inl e, rl3)
              | (Inr _, rl3) \<Rightarrow> (Inr (find_by_name name), rl3))))"

datatype login_outcome =
    LoggedIn user string
  | NeedsSecond string "twofa_method option" "twofa_method list" int

definition login_fail :: "rate_limits \<Rightarrow> string option \<Rightarrow> string \<Rightarrow> int \<Rightarrow> rate_limits" where
  "login_fail rl ip name now =
     (let subject = \<lparr>ls_user_id = None, ls_username = Some name, ls_ip = ip\<rparr>
      in snd (rl_fail (snd (rl_fail rl PLogin (login_key ip name) subject now))
                PLoginUser (to_lower name) subject now))"

definition login_finish ::
  "(string \<Rightarrow> string) \<Rightarrow> twofa \<Rightarrow> string option \<Rightarrow> string option \<Rightarrow> string \<Rightarrow> user option \<Rightarrow>
   string \<Rightarrow> string \<Rightarrow> string \<Rightarrow> int \<Rightarrow> login_outcome result \<times> twofa" where
  "login_finish hash_token w ip ua name valid cid sid token now =
     (case valid of
        None \<Rightarrow> (fail Unauthorized ''Invalid credentials'', w\<lparr>tw_limits := login_fail (tw_limits w) ip name now\<rparr>)
      | Some u \<Rightarrow>
         (let rl = rl_succeed (rl_succeed (tw_limits w) PLogin (login_key ip name)) PLoginUser (to_lower name);
              w1 = w\<lparr>tw_limits := rl\<rparr> in
          if tw_is_enabled_for u
          then (let primary = tw_primary_method u in
                case tw_start w1 u (the primary) ip ua cid now of
                  (Inl e, w2) \<Rightarrow> (Inl e, w2)
                | (Inr c, w2) \<Rightarrow> (Inr (NeedsSecond (c_id c) primary (tw_enabled_methods u) (c_expires c)), w2))
          else (case sess_create hash_token (tw_sessions w1) sid token (u_id u) ip ua now of
                  ((tok, _), ss) \<Rightarrow> (Inr (LoggedIn u tok), w1\<lparr>tw_sessions := ss\<rparr>))))"

end
