(* ===== verification/Twofa_Steps.thy ===== *)
theory Twofa_Steps
  imports Twofa
begin

text \<open>
  The second factor as a state machine: every operation of \<open>Twofa\<close> as a step over the shared
  state, in any order, and the invariant of the stored challenges.
\<close>

record tw_env =
  env_user :: "string \<Rightarrow> user option"
  env_tg :: "int \<Rightarrow> tg_user option"

datatype tw_op =
    TStart user twofa_method "string option" "string option" string
  | TSent string send_outcome
  | TSwitch string twofa_method string
  | TVerify string string string string
  | TResolve string decision int string string
  | TPoll string

text \<open>A random id is one no stored or pending challenge has.\<close>

definition unused_challenge_id :: "twofa \<Rightarrow> string \<Rightarrow> bool" where
  "unused_challenge_id w i \<longleftrightarrow> i \<notin> c_id ` set (tw_rows w) \<and> i \<notin> c_id ` set (tw_sending w)"

fun tw_step ::
  "(string \<Rightarrow> string) \<Rightarrow> (string \<Rightarrow> string \<Rightarrow> bool option) \<Rightarrow> twofa \<Rightarrow> tw_op \<times> tw_env \<times> int \<Rightarrow> twofa" where
  "tw_step h v w (TStart u m ip ua i, env, now) =
     (if unused_challenge_id w i then snd (tw_start w u m ip ua i now) else w)"
| "tw_step h v w (TSent i out, env, now) = snd (tw_sent w i out)"
| "tw_step h v w (TSwitch i m j, env, now) =
     (if unused_challenge_id w j then snd (tw_switch (env_user env) w i m j now) else w)"
| "tw_step h v w (TVerify i code sid token, env, now) =
     snd (tw_verify h (env_user env) v w i code sid token now)"
| "tw_step h v w (TResolve i d tg sid token, env, now) =
     snd (tw_resolve h (env_user env) (env_tg env) w i d tg sid token now)"
| "tw_step h v w (TPoll i, env, now) = snd (tw_poll (env_user env) w i now)"

section \<open>The invariant of the challenges\<close>

definition challenge_ok :: "challenge \<Rightarrow> bool" where
  "challenge_ok c \<longleftrightarrow>
     (c_status c = Approved \<longleftrightarrow> c_token c \<noteq> None) \<and>
     0 \<le> c_attempts c \<and> c_attempts c \<le> max_totp_attempts \<and>
     (c_status c = Pending \<longrightarrow> c_attempts c < max_totp_attempts) \<and>
     (c_status c = Approved \<longrightarrow> c_method c = MTelegram)"

definition stale_ok :: "challenge list \<Rightarrow> challenge \<Rightarrow> bool" where
  "stale_ok rows s \<longleftrightarrow>
     c_method s = MTelegram \<and> c_status s = Pending \<and> c_token s = None \<and> c_attempts s = 0 \<and>
     (\<forall>c \<in> set rows. c_id c = c_id s \<longrightarrow> c_method c = MTelegram)"

definition tw_inv :: "twofa \<Rightarrow> bool" where
  "tw_inv w \<longleftrightarrow> rows_ok c_id (tw_rows w) \<and> (\<forall>c \<in> set (tw_rows w). challenge_ok c) \<and>
     (\<forall>s \<in> set (tw_sending w). stale_ok (tw_rows w) s)"

lemma patch_challenge_simps [simp]:
  "c_id (patch_challenge c x) = c_id x" "c_user (patch_challenge c x) = c_user x"
  "c_method (patch_challenge c x) = c_method c" "c_status (patch_challenge c x) = c_status c"
  "c_token (patch_challenge c x) = c_token c" "c_attempts (patch_challenge c x) = c_attempts c"
  "c_expires (patch_challenge c x) = c_expires c" "c_ip (patch_challenge c x) = c_ip x"
  "c_resolved (patch_challenge c x) = c_resolved c"
  by (simp_all add: patch_challenge_def)

lemma challenge_ok_patch [simp]: "challenge_ok (patch_challenge c x) = challenge_ok c"
  by (simp add: challenge_ok_def)

lemma crepo_update_mem:
  "y \<in> set (crepo_update c t) \<Longrightarrow>
   (\<exists>x \<in> set t. c_id x = c_id c \<and> y = patch_challenge c x) \<or> (y \<in> set t \<and> c_id y \<noteq> c_id c)"
  by (auto simp: crepo_update_def row_patch_def split: if_splits)

lemma crepo_update_ids: "c_id ` set (crepo_update c t) = c_id ` set t"
  by (induction t) (auto simp: crepo_update_def row_patch_def)

lemma crepo_find_mem: "crepo_find i t = Some c \<Longrightarrow> c \<in> set t \<and> c_id c = i"
  by (auto simp: crepo_find_def dest: row_find_Some_in)

text \<open>Writing a correct challenge back keeps the invariant.\<close>

lemma tw_inv_update:
  assumes "tw_inv w" and "challenge_ok c"
    and "\<forall>x \<in> set (tw_rows w). c_id x = c_id c \<longrightarrow> c_method x = MTelegram \<longrightarrow> c_method c = MTelegram"
    and "set (tw_sending w') \<subseteq> set (tw_sending w)" and "tw_rows w' = crepo_update c (tw_rows w)"
  shows "tw_inv w'"
proof -
  have "rows_ok c_id (tw_rows w')"
    using assms(1,5) by (simp add: tw_inv_def chal.keys_ok_upd)
  moreover have "challenge_ok y" if "y \<in> set (tw_rows w')" for y
    using that assms(1,2,5) by (auto simp: tw_inv_def dest!: crepo_update_mem)
  moreover have "stale_ok (tw_rows w') s" if "s \<in> set (tw_sending w')" for s
  proof -
    have s: "stale_ok (tw_rows w) s" using that assms(1,4) by (auto simp: tw_inv_def)
    have "c_method y = MTelegram" if "y \<in> set (tw_rows w')" "c_id y = c_id s" for y
    proof -
      from that(1) assms(5) crepo_update_mem [of y c "tw_rows w"] consider
          x where "x \<in> set (tw_rows w)" "c_id x = c_id c" "y = patch_challenge c x"
        | "y \<in> set (tw_rows w)" by auto
      then show ?thesis
      proof cases
        case 1
        with s that(2) have "c_method x = MTelegram" by (simp add: stale_ok_def)
        with 1 assms(3) show ?thesis by simp
      next
        case 2
        with s that(2) show ?thesis by (simp add: stale_ok_def)
      qed
    qed
    with s show ?thesis by (simp add: stale_ok_def)
  qed
  ultimately show ?thesis by (simp add: tw_inv_def)
qed

lemma tw_inv_update_found:
  assumes "tw_inv w" and "crepo_find i (tw_rows w) = Some x" and "challenge_ok c"
    and "c_id c = c_id x" and "c_method c = c_method x"
    and "set (tw_sending w') \<subseteq> set (tw_sending w)" and "tw_rows w' = crepo_update c (tw_rows w)"
  shows "tw_inv w'"
proof (rule tw_inv_update [OF assms(1,3) _ assms(6,7)], intro ballI impI)
  fix y assume y: "y \<in> set (tw_rows w)" "c_id y = c_id c" "c_method y = MTelegram"
  have "x \<in> set (tw_rows w)" using crepo_find_mem [OF assms(2)] by simp
  with assms(1,4) y(1,2) have "y = x"
    by (auto simp: tw_inv_def rows_ok_def distinct_map dest: inj_onD)
  with y(3) assms(5) show "c_method c = MTelegram" by simp
qed

lemma tw_inv_subset:
  assumes "tw_inv w" and "rows_ok c_id (tw_rows w')" and "set (tw_rows w') \<subseteq> set (tw_rows w)"
    and "set (tw_sending w') \<subseteq> set (tw_sending w)"
  shows "tw_inv w'"
  using assms unfolding tw_inv_def stale_ok_def by blast

lemma tw_inv_same:
  "tw_inv w \<Longrightarrow> tw_rows w' = tw_rows w \<Longrightarrow> tw_sending w' = tw_sending w \<Longrightarrow> tw_inv w'"
  by (simp add: tw_inv_def)

lemma found_ok: "tw_inv w \<Longrightarrow> crepo_find i (tw_rows w) = Some c \<Longrightarrow> challenge_ok c"
  by (auto simp: tw_inv_def dest!: crepo_find_mem)

text \<open>Every status change of a pending challenge is a correct row.\<close>

lemma challenge_ok_resolve:
  "challenge_ok c \<Longrightarrow> c_status c \<noteq> Approved \<Longrightarrow> st \<noteq> Approved \<Longrightarrow> st \<noteq> Pending \<Longrightarrow>
   challenge_ok (c\<lparr>c_status := st, c_resolved := r\<rparr>)"
  by (auto simp: challenge_ok_def)

lemma tw_inv_start:
  assumes "tw_inv w" and "unused_challenge_id w i"
  shows "tw_inv (snd (tw_start w u m ip ua i now))"
proof (cases "m \<in> set (tw_enabled_methods u)")
  case False
  with assms(1) show ?thesis by (simp add: tw_start_def)
next
  case True
  let ?c = "new_challenge i (u_id u) m ip ua now"
  let ?w = "snd (tw_start w u m ip ua i now)"
  let ?old = "crepo_delete_expired now (tw_rows w)"
  have rows: "tw_rows ?w = ?old @ [?c]"
    and sending: "tw_sending ?w = (if m = MTelegram then ?c # tw_sending w else tw_sending w)"
    using True by (simp_all add: tw_start_def Let_def crepo_create_def row_insert_def)
  have sub: "set ?old \<subseteq> set (tw_rows w)" by (auto simp: crepo_delete_expired_def)
  have new: "i \<notin> c_id ` set ?old" using assms(2) sub by (auto simp: unused_challenge_id_def)
  have "rows_ok c_id ?old" using assms(1) by (simp add: tw_inv_def crepo_delete_expired_def rows_ok_filter)
  with new have "rows_ok c_id (tw_rows ?w)"
    by (simp add: rows rows_ok_def new_challenge_def)
  moreover have "challenge_ok ?c" by (simp add: challenge_ok_def new_challenge_def max_totp_attempts_def)
  with sub assms(1) have "\<forall>c \<in> set (tw_rows ?w). challenge_ok c" by (auto simp: rows tw_inv_def)
  moreover have "stale_ok (tw_rows ?w) s" if "s \<in> set (tw_sending ?w)" for s
  proof (cases "s \<in> set (tw_sending w)")
    case True
    then have "stale_ok (tw_rows w) s" "c_id s \<noteq> i"
      using assms by (auto simp: tw_inv_def unused_challenge_id_def)
    with sub show ?thesis by (auto simp: stale_ok_def rows new_challenge_def)
  next
    case False
    with that have "s = ?c" "m = MTelegram" by (auto simp: sending split: if_splits)
    moreover from new have "\<forall>c \<in> set (tw_rows ?w). c_id c = i \<longrightarrow> c_method c = m"
      unfolding rows by (auto simp: new_challenge_def)
    ultimately show ?thesis by (simp add: stale_ok_def) (simp add: new_challenge_def)
  qed
  ultimately show ?thesis by (simp add: tw_inv_def)
qed

lemma tw_inv_sent:
  assumes "tw_inv w" shows "tw_inv (snd (tw_sent w i out))"
proof (cases "row_find c_id i (tw_sending w)")
  case None
  with assms show ?thesis by (simp add: tw_sent_def)
next
  case (Some s)
  then have s: "s \<in> set (tw_sending w)" "c_id s = i" by (auto dest: row_find_Some_in)
  with assms have st: "stale_ok (tw_rows w) s" by (simp add: tw_inv_def)
  have sub: "set (row_delete c_id i (tw_sending w)) \<subseteq> set (tw_sending w)"
    by (auto simp: row_delete_def)
  show ?thesis
  proof (cases out)
    case (SentTo chat msg)
    let ?c = "s\<lparr>c_chat := Some chat, c_message := Some msg\<rparr>"
    have "challenge_ok ?c" using st by (simp add: stale_ok_def challenge_ok_def max_totp_attempts_def)
    moreover have "c_method ?c = MTelegram" using st by (simp add: stale_ok_def)
    ultimately show ?thesis
      using tw_inv_update [OF assms, of ?c "snd (tw_sent w i out)"] sub Some SentTo
      by (simp add: tw_sent_def Let_def)
  next
    case (SendRejected e)
    with assms Some sub show ?thesis
      by (auto simp: tw_sent_def Let_def tw_inv_def)
  qed (use assms Some sub in \<open>auto simp: tw_sent_def Let_def crepo_delete_def row_delete_def rows_ok_filter
        tw_inv_def stale_ok_def\<close>)
qed

lemma require_pending_cases:
  obtains e where "tw_require_pending w i now = (Inl e, w)"
  | c where "crepo_find i (tw_rows w) = Some c" "c_status c = Pending" "c_expires c < now"
      "tw_require_pending w i now = (fail BadRequest ''Challenge expired'',
         w\<lparr>tw_rows := crepo_update (c\<lparr>c_status := Expired, c_resolved := Some now\<rparr>) (tw_rows w)\<rparr>)"
  | c where "crepo_find i (tw_rows w) = Some c" "c_status c = Pending" "\<not> c_expires c < now"
      "tw_require_pending w i now = (Inr c, w)"
proof (cases "crepo_find i (tw_rows w)")
  case None
  then show ?thesis by (intro that(1)) (simp add: tw_require_pending_def)
next
  case (Some c)
  consider "c_status c \<noteq> Pending" | "c_status c = Pending" "c_expires c < now"
    | "c_status c = Pending" "\<not> c_expires c < now" by blast
  then show ?thesis
  proof cases
    case 1
    with Some show ?thesis by (intro that(1)) (simp add: tw_require_pending_def)
  next
    case 2
    with Some show ?thesis by (intro that(2)) (simp_all add: tw_require_pending_def)
  next
    case 3
    with Some show ?thesis by (intro that(3)) (simp_all add: tw_require_pending_def)
  qed
qed

lemma tw_inv_resolved:
  assumes "tw_inv w" and "crepo_find i (tw_rows w) = Some c" and "c_status c \<noteq> Approved"
    and "st \<noteq> Approved" and "st \<noteq> Pending" and "set (tw_sending w') \<subseteq> set (tw_sending w)"
    and "tw_rows w' = crepo_update (c\<lparr>c_status := st, c_resolved := r\<rparr>) (tw_rows w)"
  shows "tw_inv w'"
proof (rule tw_inv_update_found [OF assms(1,2) _ _ _ assms(6,7)])
  show "challenge_ok (c\<lparr>c_status := st, c_resolved := r\<rparr>)"
    using found_ok [OF assms(1,2)] assms(3-5) by (rule challenge_ok_resolve)
qed simp_all

lemma tw_inv_switch:
  assumes "tw_inv w" and "unused_challenge_id w j"
  shows "tw_inv (snd (tw_switch fu w i m j now))"
proof (cases rule: require_pending_cases [of w i now])
  case (1 e)
  with assms(1) show ?thesis by (simp add: tw_switch_def)
next
  case (2 c)
  then show ?thesis
    by (simp add: tw_switch_def) (rule tw_inv_resolved [OF assms(1) 2(1)]; simp)
next
  case (3 c)
  let ?w = "w\<lparr>tw_rows := crepo_update (c\<lparr>c_status := Expired, c_resolved := Some now\<rparr>) (tw_rows w)\<rparr>"
  have inv: "tw_inv ?w" by (rule tw_inv_resolved [OF assms(1) 3(1)]) (use 3(2) in simp_all)
  have ids: "c_id ` set (tw_rows ?w) \<subseteq> c_id ` set (tw_rows w)"
    by (simp add: crepo_update_ids)
  with assms(2) have "unused_challenge_id ?w j" by (auto simp: unused_challenge_id_def)
  then show ?thesis
    using assms(1) tw_inv_start [OF inv, of j] 3 by (auto simp: tw_switch_def split: option.splits)
qed

lemma tw_inv_wrong_code:
  assumes "tw_inv w" and "crepo_find i (tw_rows w) = Some c" and "c_status c = Pending"
  shows "tw_inv (snd (tw_wrong_code w c u now))"
proof -
  let ?c1 = "c\<lparr>c_attempts := c_attempts c + 1\<rparr>"
  have ok: "challenge_ok c" by (rule found_ok [OF assms(1,2)])
  obtain r rl where rl: "rl_fail (tw_limits w) PTotp (u_id u)
      \<lparr>ls_user_id = Some (u_id u), ls_username = Some (u_name u), ls_ip = c_ip c\<rparr> now = (r, rl)"
    by fastforce
  show ?thesis
  proof (cases r)
    case (Inl e)
    with rl assms(1) show ?thesis by (simp add: tw_wrong_code_def tw_inv_def)
  next
    case (Inr x)
    show ?thesis
    proof (cases "c_attempts c + 1 \<ge> max_totp_attempts")
      case True
      with ok assms(3) have ok': "challenge_ok (?c1\<lparr>c_status := Expired, c_resolved := Some now\<rparr>)"
        by (auto simp: challenge_ok_def)
      show ?thesis
        by (rule tw_inv_update_found [OF assms(1,2) ok'])
           (use rl Inr True in \<open>simp_all add: tw_wrong_code_def Let_def\<close>)
    next
      case False
      with ok assms(3) have ok': "challenge_ok ?c1" by (auto simp: challenge_ok_def)
      show ?thesis
        by (rule tw_inv_update_found [OF assms(1,2) ok'])
           (use rl Inr False in \<open>simp_all add: tw_wrong_code_def Let_def\<close>)
    qed
  qed
qed

lemma tw_inv_consume:
  assumes "tw_inv w" and "crepo_find i (tw_rows w) = Some c" and "c_status c = Pending"
  shows "tw_inv (snd (tw_consume h w c u sid token now))"
  by (rule tw_inv_resolved [OF assms(1,2), of Consumed])
     (use assms(3) in \<open>simp_all add: tw_consume_def sess_create_def Let_def\<close>)

lemma tw_inv_limits: "tw_inv w \<Longrightarrow> tw_inv (w\<lparr>tw_limits := rl\<rparr>)"
  by (simp add: tw_inv_def)

lemma tw_inv_verify:
  assumes "tw_inv w" shows "tw_inv (snd (tw_verify h fu v w i code sid token now))"
proof (cases rule: require_pending_cases [of w i now])
  case (1 e)
  with assms show ?thesis by (simp add: tw_verify_def)
next
  case (2 c)
  then show ?thesis
    by (simp add: tw_verify_def) (rule tw_inv_resolved [OF assms 2(1)]; simp)
next
  case (3 c)
  have w: "tw_inv (w\<lparr>tw_limits := rl\<rparr>)" for rl using assms by (rule tw_inv_limits)
  have c: "crepo_find i (tw_rows (w\<lparr>tw_limits := rl\<rparr>)) = Some c" for rl using 3(1) by simp
  note W = tw_inv_wrong_code [OF w c 3(2)] and C = tw_inv_consume [OF w c 3(2)]
  show ?thesis using assms w
    by (auto simp: tw_verify_def 3(4) Let_def W C split: option.splits prod.splits sum.splits)
qed

lemma tw_inv_resolve:
  assumes "tw_inv w" shows "tw_inv (snd (tw_resolve h fu tf w i d tg sid token now))"
proof (cases "crepo_find i (tw_rows w)")
  case None
  with assms show ?thesis by (simp add: tw_resolve_def)
next
  case (Some c)
  have ok: "challenge_ok c" using assms Some by (rule found_ok)
  show ?thesis
  proof (cases "c_status c = Pending")
    case False
    with assms Some show ?thesis by (simp add: tw_resolve_def)
  next
    case True
    let ?row = "\<lambda>st. w\<lparr>tw_rows := crepo_update (c\<lparr>c_status := st, c_resolved := Some now\<rparr>) (tw_rows w)\<rparr>"
    have ended: "tw_inv (?row Expired)" "tw_inv (?row Denied)"
      by (rule tw_inv_resolved [OF assms Some]; use True in simp)+
    let ?ap = "c\<lparr>c_status := Approved, c_token := Some token, c_resolved := Some now\<rparr>"
    have approved: "tw_inv (w\<lparr>tw_sessions := ss, tw_rows := crepo_update ?ap (tw_rows w)\<rparr>)"
      if "c_method c = MTelegram" for ss
    proof (rule tw_inv_update_found [OF assms Some, of ?ap])
      show "challenge_ok ?ap" using ok True that by (simp add: challenge_ok_def)
    qed simp_all
    show ?thesis using assms ended approved True Some
      by (auto simp: tw_resolve_def sess_create_def Let_def split: option.splits decision.splits)
  qed
qed

lemma tw_inv_poll:
  assumes "tw_inv w" shows "tw_inv (snd (tw_poll fu w i now))"
proof (cases "crepo_find i (tw_rows w)")
  case None
  with assms show ?thesis by (simp add: tw_poll_def)
next
  case (Some c)
  have ok: "challenge_ok c" using assms Some by (rule found_ok)
  let ?late = "w\<lparr>tw_rows := crepo_update (c\<lparr>c_status := Expired, c_resolved := Some now\<rparr>) (tw_rows w)\<rparr>"
  have late: "tw_inv ?late" if "c_status c = Pending"
    by (rule tw_inv_resolved [OF assms Some]) (use that in simp_all)
  let ?c = "c\<lparr>c_status := Consumed, c_token := None\<rparr>"
  have cons: "tw_inv (w\<lparr>tw_rows := crepo_update ?c (tw_rows w)\<rparr>)"
  proof (rule tw_inv_update_found [OF assms Some, of ?c])
    show "challenge_ok ?c" using ok by (simp add: challenge_ok_def)
  qed simp_all
  show ?thesis using assms late cons Some
    by (auto simp: tw_poll_def Let_def split: option.splits)
qed

interpretation tw: machine "tw_step h v" tw_inv
proof
  fix w :: twofa and e :: "tw_op \<times> tw_env \<times> int"
  assume w: "tw_inv w"
  obtain op env now where e: "e = (op, env, now)" by (cases e)
  from w show "tw_inv (tw_step h v w e)" unfolding e
    by (cases op) (simp_all add: tw_inv_start tw_inv_sent tw_inv_switch tw_inv_verify tw_inv_resolve tw_inv_poll)
qed

section \<open>Challenges that are over\<close>

definition tw_dead :: "string \<Rightarrow> twofa \<Rightarrow> bool" where
  "tw_dead i w \<longleftrightarrow>
     (\<forall>c \<in> set (tw_rows w). c_id c = i \<longrightarrow> c_status c \<in> {Denied, Expired, Consumed}) \<and>
     i \<notin> c_id ` set (tw_sending w)"

fun opens_challenge :: "string \<Rightarrow> tw_op \<Rightarrow> bool" where
  "opens_challenge i (TStart u m ip ua j) \<longleftrightarrow> i = j"
| "opens_challenge i (TSwitch k m j) \<longleftrightarrow> i = j"
| "opens_challenge i _ \<longleftrightarrow> False"

lemma tw_dead_found:
  "tw_dead i w \<Longrightarrow> crepo_find i (tw_rows w) = Some c \<Longrightarrow> c_status c \<in> {Denied, Expired, Consumed}"
  by (auto simp: tw_dead_def dest!: crepo_find_mem)

lemma tw_dead_update:
  assumes "tw_dead i w" and "c_id c \<noteq> i" and "tw_rows w' = crepo_update c (tw_rows w)"
    and "set (tw_sending w') \<subseteq> set (tw_sending w)"
  shows "tw_dead i w'"
  using assms unfolding tw_dead_def by (auto dest!: crepo_update_mem)

lemma tw_dead_same:
  "tw_dead i w \<Longrightarrow> tw_rows w' = tw_rows w \<Longrightarrow> tw_sending w' = tw_sending w \<Longrightarrow> tw_dead i w'"
  by (simp add: tw_dead_def)

lemma tw_dead_start:
  assumes "tw_dead i w" and "i \<noteq> j"
  shows "tw_dead i (snd (tw_start w u m ip ua j now))"
  using assms
  by (auto simp: tw_dead_def tw_start_def Let_def crepo_create_def row_insert_def
      crepo_delete_expired_def new_challenge_def)

lemma tw_dead_sent: "tw_dead i w \<Longrightarrow> tw_dead i (snd (tw_sent w j out))"
proof (cases "row_find c_id j (tw_sending w)")
  case None
  then show "tw_dead i w \<Longrightarrow> ?thesis" by (simp add: tw_sent_def)
next
  case (Some s)
  assume dead: "tw_dead i w"
  from Some have s: "s \<in> set (tw_sending w)" "c_id s = j" by (auto dest: row_find_Some_in)
  with dead have ji: "c_id s \<noteq> i" by (auto simp: tw_dead_def)
  have del: "set (row_delete c_id j xs) \<subseteq> set xs" for xs by (auto simp: row_delete_def)
  show ?thesis
  proof (cases out)
    case (SentTo chat msg)
    show ?thesis
      by (rule tw_dead_update [OF dead, of "s\<lparr>c_chat := Some chat, c_message := Some msg\<rparr>"])
         (use ji Some SentTo del in \<open>simp_all add: tw_sent_def Let_def\<close>)
  qed (use dead Some del in \<open>auto simp: tw_sent_def Let_def tw_dead_def crepo_delete_def row_delete_def\<close>)
qed

lemma pending_not_dead:
  "tw_dead i w \<Longrightarrow> crepo_find j (tw_rows w) = Some c \<Longrightarrow> c_status c \<in> {Pending, Approved} \<Longrightarrow> c_id c \<noteq> i"
  by (auto simp: tw_dead_def dest!: crepo_find_mem)

lemma tw_dead_require:
  assumes "tw_dead i w" shows "tw_dead i (snd (tw_require_pending w j now))"
proof (cases rule: require_pending_cases [of w j now])
  case (2 c)
  have "c_id c \<noteq> i" using pending_not_dead [OF assms 2(1)] 2(2) by simp
  show ?thesis
    by (rule tw_dead_update [OF assms, of "c\<lparr>c_status := Expired, c_resolved := Some now\<rparr>"])
       (use \<open>c_id c \<noteq> i\<close> 2 in simp_all)
qed (use assms in simp_all)

lemma tw_dead_switch:
  assumes "tw_dead i w" and "i \<noteq> j"
  shows "tw_dead i (snd (tw_switch fu w k m j now))"
proof (cases rule: require_pending_cases [of w k now])
  case (1 e)
  with assms(1) show ?thesis by (simp add: tw_switch_def)
next
  case (2 c)
  with tw_dead_require [OF assms(1), of k now] show ?thesis by (simp add: tw_switch_def)
next
  case (3 c)
  let ?w = "w\<lparr>tw_rows := crepo_update (c\<lparr>c_status := Expired, c_resolved := Some now\<rparr>) (tw_rows w)\<rparr>"
  have "tw_dead i ?w"
    by (rule tw_dead_update [OF assms(1), of "c\<lparr>c_status := Expired, c_resolved := Some now\<rparr>"])
       (use pending_not_dead [OF assms(1) 3(1)] 3(2) in simp_all)
  with assms 3 show ?thesis by (auto simp: tw_switch_def tw_dead_start split: option.splits)
qed

lemma tw_dead_verify:
  assumes "tw_dead i w" shows "tw_dead i (snd (tw_verify h fu v w j code sid token now))"
proof (cases rule: require_pending_cases [of w j now])
  case (1 e)
  with assms show ?thesis by (simp add: tw_verify_def)
next
  case (2 c)
  with tw_dead_require [OF assms, of j now] show ?thesis by (simp add: tw_verify_def)
next
  case (3 c)
  have ci: "c_id c \<noteq> i" using pending_not_dead [OF assms 3(1)] 3(2) by simp
  have upd: "tw_dead i w'" if "tw_rows w' = crepo_update c' (tw_rows w)" "c_id c' = c_id c"
    "tw_sending w' = tw_sending w" for w' c'
    using tw_dead_update [OF assms, of c' w'] that ci by simp
  have lim: "tw_dead i (w\<lparr>tw_limits := rl\<rparr>)" for rl using assms by (simp add: tw_dead_def)
  have W: "tw_dead i (snd (tw_wrong_code (w\<lparr>tw_limits := rl\<rparr>) c u now))" for rl u
    by (cases "rl_fail rl PTotp (u_id u)
         \<lparr>ls_user_id = Some (u_id u), ls_username = Some (u_name u), ls_ip = c_ip c\<rparr> now")
       (auto simp: tw_wrong_code_def Let_def lim split: sum.splits intro: upd)
  have C: "tw_dead i (snd (tw_consume h (w\<lparr>tw_limits := rl\<rparr>) c u sid token now))" for rl u
    by (rule upd [of _ "c\<lparr>c_status := Consumed, c_resolved := Some now\<rparr>"])
       (simp_all add: tw_consume_def sess_create_def Let_def)
  show ?thesis using assms lim
    by (auto simp: tw_verify_def 3(4) Let_def W C split: option.splits prod.splits sum.splits)
qed

lemma tw_dead_resolve:
  assumes "tw_dead i w" shows "tw_dead i (snd (tw_resolve h fu tf w j d tg sid token now))"
proof (cases "crepo_find j (tw_rows w)")
  case None
  with assms show ?thesis by (simp add: tw_resolve_def)
next
  case (Some c)
  show ?thesis
  proof (cases "c_status c = Pending")
    case False
    with assms Some show ?thesis by (simp add: tw_resolve_def)
  next
    case True
    then have ci: "c_id c \<noteq> i" using pending_not_dead [OF assms Some] by simp
    have upds: "tw_dead i (w\<lparr>tw_rows := crepo_update c' (tw_rows w)\<rparr>)"
      "tw_dead i (w\<lparr>tw_sessions := ss, tw_rows := crepo_update c' (tw_rows w)\<rparr>)"
      if "c_id c' = c_id c" for c' ss
      by (rule tw_dead_update [OF assms, of c']; use that ci in simp)+
    show ?thesis using assms True Some upds
      by (auto simp: tw_resolve_def sess_create_def Let_def split: option.splits decision.splits)
  qed
qed

lemma tw_dead_poll:
  assumes "tw_dead i w" shows "tw_dead i (snd (tw_poll fu w j now))"
proof (cases "crepo_find j (tw_rows w)")
  case None
  with assms show ?thesis by (simp add: tw_poll_def)
next
  case (Some c)
  have upd: "tw_dead i (w\<lparr>tw_rows := crepo_update c' (tw_rows w)\<rparr>)"
    if "c_id c' = c_id c" "c_status c \<in> {Pending, Approved}" for c'
    by (rule tw_dead_update [OF assms, of c']) (use that pending_not_dead [OF assms Some] in simp_all)
  show ?thesis using assms Some upd
    by (auto simp: tw_poll_def Let_def split: option.splits)
qed

lemma tw_dead_step:
  assumes "tw_dead i w" and "\<not> opens_challenge i (fst e)"
  shows "tw_dead i (tw_step h v w e)"
proof -
  obtain op env now where e: "e = (op, env, now)" by (cases e)
  from assms show ?thesis unfolding e
    by (cases op) (simp_all add: tw_dead_start tw_dead_sent tw_dead_switch tw_dead_verify
        tw_dead_resolve tw_dead_poll)
qed

lemma tw_dead_run:
  assumes "tw_dead i w" and "\<forall>e \<in> set es. \<not> opens_challenge i (fst e)"
  shows "tw_dead i (run (tw_step h v) w es)"
  using assms by (induction es arbitrary: w) (auto intro: tw_dead_step)

lemma tw_dead_no_token:
  assumes "tw_dead i w"
  shows "\<not> is_ok (fst (tw_verify h fu v w i code sid token now))"
    and "\<not> fst (fst (tw_resolve h fu tf w i d tg sid token now))"
    and "fst (tw_poll fu w i now) \<in> {PollDenied, PollExpired}"
  using tw_dead_found [OF assms]
  by (auto simp: tw_verify_def tw_require_pending_def tw_resolve_def tw_poll_def Let_def split: option.splits)

end
