(* ===== verification/Auth_Properties.thy ===== *)
theory Auth_Properties
  imports Twofa_Steps
begin

text \<open>The properties of sessions and of the second factor.\<close>

section \<open>Sessions\<close>

text \<open>
  C9: A revoked session stays revoked: whatever operations follow, unless the same token is
  issued again, its token is refused as invalid at any later time.
\<close>

theorem revoked_token_refused:
  assumes "\<forall>x \<in> set (ss_rows st). s_token_hash x = hash_token token \<longrightarrow> s_id x = i"
    and "srepo_find_by_id i (ss_rows st) \<noteq> None"
    and "\<forall>e \<in> set es. \<not> issues hash_token (hash_token token) (fst e)"
  shows "fst (sess_revoke st i now) = Inr () \<and>
     fst (sess_authenticate hash_token fu (run (sess_step hash_token fu) (snd (sess_revoke st i now)) es) token t)
       = fail Unauthorized ''Invalid token''"
proof -
  from assms(2) obtain s where s: "srepo_find_by_id i (ss_rows st) = Some s" by auto
  have "token_dead (hash_token token) (snd (sess_revoke st i now))"
    using assms(1) s by (auto simp: sess_revoke_def token_dead_def srepo_revoke_def)
  from token_dead_run [OF this assms(3)] token_dead_no_auth s show ?thesis
    by (simp add: sess_revoke_def)
qed

definition ex_row :: "string \<Rightarrow> string \<Rightarrow> session" where
  "ex_row i uid = \<lparr>s_id = i, s_user_id = uid, s_token_hash = i, s_ip = None, s_user_agent = None,
     s_created_at = 0, s_last_seen_at = 0, s_expires_at = Some 9000000000, s_revoked_at = None\<rparr>"

definition ex_sessions :: sessions where
  "ex_sessions = \<lparr>ss_rows = [ex_row ''x'' ''u'', ex_row ''y'' ''u'', ex_row ''z'' ''v''], ss_touch = [], ss_events = []\<rparr>"

theorem revoked_token_refused_witness:
  "fst (sess_authenticate (\<lambda>x. x) (\<lambda>_. None)
     (run (sess_step (\<lambda>x. x) (\<lambda>_. None)) (snd (sess_revoke ex_sessions ''x'' 5))
        [(OpCreate ''w'' ''tok'' ''u'' None None, 6), (OpTouch ''x'', 7)]) ''x'' 8)
   = fail Unauthorized ''Invalid token''"
proof -
  let ?es = "[(OpCreate ''w'' ''tok'' ''u'' None None, 6), (OpTouch ''x'', 7)]"
  have "\<forall>x \<in> set (ss_rows ex_sessions). s_token_hash x = (\<lambda>x. x) ''x'' \<longrightarrow> s_id x = ''x''"
    and "srepo_find_by_id ''x'' (ss_rows ex_sessions) \<noteq> None"
    and "\<forall>e \<in> set ?es. \<not> issues (\<lambda>x. x) ((\<lambda>x. x) ''x'') (fst e)"
    by (simp_all add: ex_sessions_def ex_row_def srepo_find_by_id_def)
  from revoked_token_refused [OF this] show ?thesis by blast
qed

text \<open>
  Revoking all sessions of a user ends every open session of the user except the kept one,
  leaves the kept one and all sessions of other users as they are, and forgets every touch
  but that of the kept session.
\<close>

theorem revoke_all_exact:
  "set (filter (\<lambda>s. s_revoked_at s = None) (ss_rows (sess_revoke_all st uid except now))) =
     {s \<in> set (ss_rows st). s_revoked_at s = None \<and> (s_user_id s = uid \<longrightarrow> kept_id except = Some (s_id s))} \<and>
   (\<forall>i. jget (ss_touch (sess_revoke_all st uid except now)) i =
      (if kept_id except = Some i then jget (ss_touch st) i else None))"
proof
  show "set (filter (\<lambda>s. s_revoked_at s = None) (ss_rows (sess_revoke_all st uid except now))) =
     {s \<in> set (ss_rows st). s_revoked_at s = None \<and> (s_user_id s = uid \<longrightarrow> kept_id except = Some (s_id s))}"
    (is "?l = ?r")
  proof
    show "?l \<subseteq> ?r" using srepo_revoke_all_live by (fastforce simp: sess_revoke_all_def)
    show "?r \<subseteq> ?l"
    proof
      fix s assume "s \<in> ?r"
      then show "s \<in> ?l"
        by (auto simp: sess_revoke_all_def srepo_revoke_all_def image_iff intro!: bexI [of _ s])
    qed
  qed
next
  have only: "jget (filter (\<lambda>(i, _). i = k) m) i = (if i = k then jget m i else None)" for k m i
    by (induction m) auto
  show "\<forall>i. jget (ss_touch (sess_revoke_all st uid except now)) i =
      (if kept_id except = Some i then jget (ss_touch st) i else None)"
    by (auto simp: sess_revoke_all_def only split: option.splits)
qed

text \<open>
  The expiry of a session slides with its use: a token that authenticates now keeps
  authenticating for the whole session lifetime, less the at most 30 seconds the touch
  throttle may hold an older touch, unless the session is revoked.
\<close>

theorem session_expiry_slides:
  assumes "throttle_ok st" and "rows_ok s_token_hash (ss_rows st)" and "touch_throttle_ms \<le> now"
    and "sess_authenticate hash_token fu st token now = (Inr (u, s), st')"
    and "now \<le> t" and "t \<le> now + session_ttl_ms - touch_throttle_ms"
  shows "\<exists>s2. fst (sess_authenticate hash_token fu st' token t) = Inr (u, s2) \<and> s_id s2 = s_id s"
proof -
  let ?h = "hash_token token"
  from assms(4) have tok: "token \<noteq> []" and find: "srepo_find_by_token_hash ?h now (ss_rows st) = Some s"
    and u: "fu (s_user_id s) = Some u" and st': "st' = sess_touch st (s_id s) now"
    by (auto simp: sess_authenticate_def sess_find_by_token_def split: option.splits if_splits)
  from find have s: "s \<in> set (ss_rows st)" "s_token_hash s = ?h" "session_live now s"
    by (auto simp: srepo_find_by_token_hash_def find_Some_iff)
  define prev where "prev = (case jget (ss_touch st) (s_id s) of None \<Rightarrow> 0 | Some t \<Rightarrow> t)"
  define s2 where "s2 = (if now - prev < touch_throttle_ms then s
    else s\<lparr>s_last_seen_at := now, s_expires_at := Some (now + session_ttl_ms)\<rparr>)"
  have live: "s_revoked_at s = None" using s(3) by (simp add: session_live_def)
  have rows: "ss_rows st' = (if now - prev < touch_throttle_ms then ss_rows st
      else srepo_touch (s_id s) now (Some (now + session_ttl_ms)) (ss_rows st))"
    by (simp add: st' sess_touch_def prev_def Let_def)
  have s2: "s2 \<in> set (ss_rows st')"
    using s(1) live row_in_touch [OF s(1) live] by (simp add: rows s2_def)
  have hash2: "s_token_hash s2 = ?h" "s_user_id s2 = s_user_id s" "s_id s2 = s_id s" using s(2) by (simp_all add: s2_def)
  have hashes: "map s_token_hash (srepo_touch i n e r) = map s_token_hash r" for i n e and r :: "session list"
    by (simp add: srepo_touch_def)
  have dist: "rows_ok s_token_hash (ss_rows st')"
    using assms(2) by (simp add: rows_ok_def rows hashes)
  have l2: "session_live t s2"
  proof (cases "now - prev < touch_throttle_ms")
    case True
    then have "jget (ss_touch st) (s_id s) = Some prev"
      using assms(3) by (auto simp: prev_def split: option.splits)
    with assms(1) s(1) live have "s_expires_at s = Some (prev + session_ttl_ms)"
      by (simp add: throttle_ok_def)
    with True assms(6) live show ?thesis by (simp add: s2_def session_live_def)
  next
    case False
    with assms(5,6) live show ?thesis by (simp add: s2_def session_live_def touch_throttle_ms_def)
  qed
  have "List.find (\<lambda>s. s_token_hash s = ?h \<and> session_live t s) (ss_rows st') = Some s2"
  proof -
    have uniq: "x = s2" if "x \<in> set (ss_rows st')" "s_token_hash x = ?h" for x
      using that s2 hash2(1) dist by (auto simp: rows_ok_def distinct_map inj_on_def)
    obtain x where "List.find (\<lambda>s. s_token_hash s = ?h \<and> session_live t s) (ss_rows st') = Some x"
      using s2 hash2 l2 by (cases "List.find (\<lambda>s. s_token_hash s = ?h \<and> session_live t s) (ss_rows st')")
        (auto simp: find_None_iff)
    moreover from this have "x \<in> set (ss_rows st')" "s_token_hash x = ?h" by (auto simp: find_Some_iff)
    ultimately show ?thesis using uniq by simp
  qed
  then show ?thesis using tok u hash2
    by (simp add: sess_authenticate_def sess_find_by_token_def srepo_find_by_token_hash_def)
qed

definition ex_totp_user :: user where
  "ex_totp_user =
     \<lparr>u_id = ''u'', u_name = ''n'', u_password = ''p'', u_roles = [], u_grants = [], u_ext = [],
      u_access = \<lparr>acc_levels = [], acc_ext = []\<rparr>,
      u_restrict = \<lparr>rs_enabled = False, rs_allowed = []\<rparr>, is_admin = False, u_oobe = True,
      u_totp_secret = Some ''S'', u_totp_enabled = True, u_tg2fa = True, u_primary = Some MTotp\<rparr>"

theorem session_expiry_slides_witness:
  "let auth = sess_authenticate (\<lambda>x. x) (\<lambda>_. Some ex_totp_user);
       r = auth ex_sessions ''x'' 100000
   in \<exists>s2. fst (auth (snd r) ''x'' 2592070000) = Inr (ex_totp_user, s2) \<and> s_id s2 = ''x''"
proof -
  let ?auth = "sess_authenticate (\<lambda>x. x) (\<lambda>_. Some ex_totp_user)"
  have ok: "throttle_ok ex_sessions" by (simp add: throttle_ok_def ex_sessions_def)
  have d: "rows_ok s_token_hash (ss_rows ex_sessions)" by (simp add: rows_ok_def ex_sessions_def ex_row_def)
  have r: "?auth ex_sessions ''x'' 100000 = (Inr (ex_totp_user, ex_row ''x'' ''u''), snd (?auth ex_sessions ''x'' 100000))"
    by (simp add: sess_authenticate_def sess_find_by_token_def srepo_find_by_token_hash_def
        ex_sessions_def ex_row_def session_live_def)
  from session_expiry_slides [OF ok d _ r, of 2592070000] show ?thesis
    by (simp add: session_consts ex_row_def Let_def)
qed

section \<open>The second factor\<close>


definition ex_challenge :: "twofa_method \<Rightarrow> challenge_status \<Rightarrow> challenge" where
  "ex_challenge m st = \<lparr>c_id = ''c'', c_user = ''u'', c_method = m, c_status = st, c_chat = None, c_message = None,
     c_ip = None, c_agent = None, c_token = (if st = Approved then Some ''tok'' else None), c_created = 0,
     c_expires = 180000, c_resolved = None, c_attempts = 0\<rparr>"

definition ex_twofa :: "challenge list \<Rightarrow> challenge list \<Rightarrow> twofa" where
  "ex_twofa rows sending = \<lparr>tw_rows = rows, tw_sending = sending, tw_limits = rate_limits_init,
     tw_sessions = \<lparr>ss_rows = [], ss_touch = [], ss_events = []\<rparr>\<rparr>"


text \<open>
  A challenge that was denied, used up, locked or timed out is over for good: after any
  further operations no code and no decision is accepted for it, and polling it never
  hands out a token (as long as no request to Telegram for it is still in flight).
\<close>

theorem ended_challenge_stays_ended:
  assumes "\<forall>c \<in> set (tw_rows w). c_id c = i \<longrightarrow> c_status c \<in> {Denied, Expired, Consumed}"
    and "i \<notin> c_id ` set (tw_sending w)"
    and "\<forall>e \<in> set es. \<not> opens_challenge i (fst e)"
  shows "let w2 = run (tw_step h v) w es in
     \<not> is_ok (fst (tw_verify h fu v w2 i code sid token now)) \<and>
     \<not> fst (fst (tw_resolve h fu tf w2 i d tg sid token now)) \<and>
     fst (tw_poll fu w2 i now) \<in> {PollDenied, PollExpired}"
proof -
  have "tw_dead i w" using assms(1,2) by (simp add: tw_dead_def)
  then have "tw_dead i (run (tw_step h v) w es)" using assms(3) by (rule tw_dead_run)
  from tw_dead_no_token [OF this] show ?thesis by (simp add: Let_def)
qed

theorem ended_challenge_stays_ended_witness:
  "let w2 = run (tw_step (\<lambda>x. x) (\<lambda>_ _. Some True)) (ex_twofa [ex_challenge MTelegram Consumed] [])
              [(TPoll ''c'', \<lparr>env_user = (\<lambda>_. Some ex_totp_user), env_tg = (\<lambda>_. None)\<rparr>, 5)]
   in fst (tw_poll (\<lambda>_. Some ex_totp_user) w2 ''c'' 9) \<in> {PollDenied, PollExpired}"
proof -
  let ?w = "ex_twofa [ex_challenge MTelegram Consumed] []"
  let ?es = "[(TPoll ''c'', \<lparr>env_user = (\<lambda>_. Some ex_totp_user), env_tg = (\<lambda>_::int. None)\<rparr>, 5::int)]"
  have "\<forall>c \<in> set (tw_rows ?w). c_id c = ''c'' \<longrightarrow> c_status c \<in> {Denied, Expired, Consumed}"
    and "''c'' \<notin> c_id ` set (tw_sending ?w)" and "\<forall>e \<in> set ?es. \<not> opens_challenge ''c'' (fst e)"
    by (simp_all add: ex_twofa_def ex_challenge_def)
  from ended_challenge_stays_ended [OF this] show ?thesis by (simp add: Let_def)
qed



text \<open>
  An approved token is handed out once: the poll that returns it erases it, and every
  later poll of the challenge says expired.
\<close>

theorem poll_hands_out_once:
  assumes "fst (tw_poll fu w i now) = PollApproved tok u"
  shows "\<exists>c. crepo_find i (tw_rows w) = Some c \<and> c_status c = Approved \<and> tok = c_token c \<and> fu (c_user c) = Some u \<and>
     map_option c_token (crepo_find i (tw_rows (snd (tw_poll fu w i now)))) = Some None \<and>
     (\<forall>fu2 t. fst (tw_poll fu2 (snd (tw_poll fu w i now)) i t) = PollExpired)"
proof -
  from assms obtain c where c: "crepo_find i (tw_rows w) = Some c" "c_status c = Approved"
    and u: "fu (c_user c) = Some u" and tok: "tok = c_token c"
    by (auto simp: tw_poll_def Let_def split: option.splits if_splits)
  have "c_id c = i" using crepo_find_mem [OF c(1)] by simp
  then have "crepo_find i (tw_rows (snd (tw_poll fu w i now))) =
      Some (patch_challenge (c\<lparr>c_status := Consumed, c_token := None\<rparr>) c)"
    using c u by (simp add: tw_poll_def Let_def chal.find_upd)
  with c u tok show ?thesis by (simp add: tw_poll_def)
qed

theorem poll_hands_out_once_witness:
  "let w = ex_twofa [ex_challenge MTelegram Approved] []; r = tw_poll (\<lambda>_. Some ex_totp_user) w ''c'' 5
   in fst r = PollApproved (Some ''tok'') ex_totp_user \<and>
      fst (tw_poll (\<lambda>_. Some ex_totp_user) (snd r) ''c'' 6) = PollExpired"
proof -
  have "fst (tw_poll (\<lambda>_. Some ex_totp_user) (ex_twofa [ex_challenge MTelegram Approved] []) ''c'' 5) =
      PollApproved (Some ''tok'') ex_totp_user"
    by (simp add: tw_poll_def ex_twofa_def ex_challenge_def crepo_find_def)
  from poll_hands_out_once [OF this] this show ?thesis by (auto simp: Let_def)
qed

text \<open>
  The flaw of a late reply: when the approval arrives while the request to Telegram is still
  awaited, writing the challenge object back after the await returns the challenge to
  pending and drops the token.  The session that was opened has no way to its user any
  more, and the same challenge can be approved, and a session opened for it, again.
\<close>

theorem late_reply_undoes_approval:
  assumes "rows_ok c_id (tw_rows w)" and "row_find c_id i (tw_sending w) = Some stale"
    and "c_status stale = Pending" and "c_token stale = None" and "now \<le> c_expires stale"
    and "crepo_find i (tw_rows w) = Some c" and "c_status c = Approved"
  shows "let w2 = snd (tw_sent w i (SentTo chat msg)) in
     map_option (\<lambda>x. (c_status x, c_token x)) (crepo_find i (tw_rows w2)) = Some (Pending, None) \<and>
     fst (tw_poll fu w2 i now) = PollPending \<and> tw_sessions w2 = tw_sessions w"
proof -
  have "c_id stale = i" using assms(2) by (auto dest: row_find_Some_in)
  then have "crepo_find i (tw_rows (snd (tw_sent w i (SentTo chat msg)))) =
      Some (patch_challenge (stale\<lparr>c_chat := Some chat, c_message := Some msg\<rparr>) c)"
    using assms(2,6) by (simp add: tw_sent_def Let_def chal.find_upd)
  moreover have "tw_sessions (snd (tw_sent w i (SentTo chat msg))) = tw_sessions w"
    using assms(2) by (simp add: tw_sent_def Let_def)
  ultimately show ?thesis using assms(3-5) by (simp add: tw_poll_def Let_def not_less)
qed

theorem late_reply_undoes_approval_witness:
  "let env = \<lparr>env_user = (\<lambda>_. Some ex_totp_user),
              env_tg = (\<lambda>_. Some \<lparr>tg_active = True, tg_user_id = Some ''u''\<rparr>)\<rparr>;
       w = run (tw_step (\<lambda>x. x) (\<lambda>_ _. None)) (ex_twofa [] [])
         [(TStart ex_totp_user MTelegram None None ''c'', env, 0), (TResolve ''c'' Approve 7 ''s'' ''tok'', env, 1)];
       w2 = snd (tw_sent w ''c'' (SentTo 1 2))
   in length (ss_rows (tw_sessions w2)) = 1 \<and> fst (tw_poll (\<lambda>_. Some ex_totp_user) w2 ''c'' 2) = PollPending"
proof -
  let ?env = "\<lparr>env_user = (\<lambda>_. Some ex_totp_user),
              env_tg = (\<lambda>_. Some \<lparr>tg_active = True, tg_user_id = Some ''u''\<rparr>)\<rparr> :: tw_env"
  let ?w = "run (tw_step (\<lambda>x. x) (\<lambda>_ _. None)) (ex_twofa [] [])
         [(TStart ex_totp_user MTelegram None None ''c'', ?env, 0), (TResolve ''c'' Approve 7 ''s'' ''tok'', ?env, 1)]"
  let ?st = "new_challenge ''c'' ''u'' MTelegram None None 0"
  let ?c = "?st\<lparr>c_status := Approved, c_token := Some ''tok'', c_resolved := Some 1\<rparr>"
  have w: "?w = (ex_twofa [?c] [?st])\<lparr>tw_sessions :=
      \<lparr>ss_rows = [new_session (\<lambda>x. x) ''s'' ''tok'' ''u'' None None 1], ss_touch = [], ss_events = [EvLogin ''u'' None]\<rparr>\<rparr>"
    by (simp add: ex_twofa_def unused_challenge_id_def tw_start_def tw_enabled_methods_def ex_totp_user_def Let_def
        crepo_create_def crepo_delete_expired_def row_insert_def tw_resolve_def crepo_find_def new_challenge_def
        sess_create_def srepo_create_def crepo_update_def row_patch_def patch_challenge_def challenge_ttl_ms_def)
  have h: "rows_ok c_id (tw_rows ?w)" "row_find c_id ''c'' (tw_sending ?w) = Some ?st"
    "c_status ?st = Pending" "c_token ?st = None" "2 \<le> c_expires ?st"
    "crepo_find ''c'' (tw_rows ?w) = Some ?c" "c_status ?c = Approved"
    unfolding w by (simp_all add: ex_twofa_def rows_ok_def new_challenge_def crepo_find_def challenge_ttl_ms_def)
  have "length (ss_rows (tw_sessions ?w)) = 1" unfolding w by simp
  with late_reply_undoes_approval [OF h, of 1 2 "\<lambda>_. Some ex_totp_user"] show ?thesis
    by (simp add: Let_def del: run_simps)
qed



text \<open>
  Setting up TOTP with the token the setup began with: it works for the same account within
  ten minutes when the code verifies against the secret of the token, and for nothing else.
  (\<open>encode\<close>, \<open>decode\<close> and \<open>mac\<close> stand for base64url JSON and the HMAC: decoding gives back
  what was encoded, and neither output is empty or contains a dot.)
\<close>

theorem totp_setup_round_trip:
  assumes "decode (encode \<lparr>sp_user = u_id u, sp_secret = secret, sp_exp = t0 + setup_token_ttl_ms\<rparr>) =
       Some \<lparr>sp_user = u_id u, sp_secret = secret, sp_exp = t0 + setup_token_ttl_ms\<rparr>"
    and "\<And>p. encode p \<noteq> [] \<and> CHR ''.'' \<notin> set (encode p)"
    and "\<And>b. mac b \<noteq> [] \<and> CHR ''.'' \<notin> set (mac b)"
  shows "is_ok (confirm_totp_setup decode mac v u2 (snd (begin_totp_setup encode mac u secret t0)) code t) \<longleftrightarrow>
     u_id u2 = u_id u \<and> t \<le> t0 + 10 * 60 * 1000 \<and> v secret code = Some True"
proof -
  let ?p = "\<lparr>sp_user = u_id u, sp_secret = secret, sp_exp = t0 + setup_token_ttl_ms\<rparr>"
  have "verify_setup_token decode mac (sign_setup_token encode mac ?p) t =
      (if sp_exp ?p < t then bad_setup_token ''Setup token expired'' else Inr ?p)"
    using assms(1) assms(2) [of ?p] assms(3) [of "encode ?p"]
    by (simp add: verify_setup_token_def sign_setup_token_def Let_def split_on_append_sep)
  then show ?thesis
    by (auto simp: confirm_totp_setup_def begin_totp_setup_def setup_token_ttl_ms_def bad_setup_token_def
        verify_code_def split: option.splits)
qed

definition ex_encode :: "setup_payload \<Rightarrow> string" where
  "ex_encode p = filter (\<lambda>c. c \<noteq> CHR ''.'') (sp_user p) @ '','' @ filter (\<lambda>c. c \<noteq> CHR ''.'') (sp_secret p)"

definition ex_decode :: "string \<Rightarrow> setup_payload option" where
  "ex_decode s = (case split_on CHR '','' s of
      [a, b] \<Rightarrow> Some \<lparr>sp_user = a, sp_secret = b, sp_exp = 600000\<rparr> | _ \<Rightarrow> None)"

theorem totp_setup_round_trip_witness:
  "is_ok (confirm_totp_setup ex_decode (\<lambda>_. ''sig'') (\<lambda>s c. Some (s = c)) ex_totp_user
     (snd (begin_totp_setup ex_encode (\<lambda>_. ''sig'') ex_totp_user ''S'' 0)) ''S'' 5)"
proof -
  have d: "ex_decode (ex_encode \<lparr>sp_user = u_id ex_totp_user, sp_secret = ''S'', sp_exp = 0 + setup_token_ttl_ms\<rparr>) =
      Some \<lparr>sp_user = u_id ex_totp_user, sp_secret = ''S'', sp_exp = 0 + setup_token_ttl_ms\<rparr>"
    by (simp add: ex_decode_def ex_encode_def ex_totp_user_def setup_token_ttl_ms_def)
  have e: "ex_encode p \<noteq> [] \<and> CHR ''.'' \<notin> set (ex_encode p)" for p by (simp add: ex_encode_def)
  show ?thesis
    using totp_setup_round_trip [of ex_decode ex_encode ex_totp_user "''S''" 0 "\<lambda>_. ''sig''"
        "\<lambda>s c. Some (s = c)" ex_totp_user "''S''" 5] d e by simp
qed

text \<open>
  The stored primary method always fits the enabled methods: enabling or disabling a method
  keeps it an enabled one, sets it with the first method and clears it with the last, and the
  method that was switched is enabled or disabled afterwards.
\<close>

theorem primary_method_kept:
  assumes "primary_ok u"
  shows "tw_primary_method u = u_primary u \<and>
     (\<forall>u'. confirm_totp_setup d mac v u token code now = Inr u' \<longrightarrow>
        primary_ok u' \<and> MTotp \<in> set (tw_enabled_methods u')) \<and>
     (\<forall>u'. enable_telegram f u = Inr u' \<longrightarrow> primary_ok u' \<and> MTelegram \<in> set (tw_enabled_methods u')) \<and>
     primary_ok (drop_totp u) \<and> MTotp \<notin> set (tw_enabled_methods (drop_totp u)) \<and>
     primary_ok (disable_telegram u) \<and> MTelegram \<notin> set (tw_enabled_methods (disable_telegram u))"
  using assms primary_ok_method primary_ok_confirm primary_ok_enable_telegram
    primary_ok_drop_totp primary_ok_disable_telegram
  by blast

theorem primary_method_kept_witness:
  "u_primary (drop_totp ex_totp_user) = Some MTelegram \<and> primary_ok (drop_totp ex_totp_user)"
proof -
  have "primary_ok ex_totp_user" by (simp add: primary_ok_def ex_totp_user_def tw_enabled_methods_def)
  from primary_method_kept [OF this] show ?thesis by (simp add: drop_totp_def ex_totp_user_def)
qed

end
