(* ===== verification/Locks.thy ===== *)
theory Locks
  imports Prelude
begin

text \<open>
  Exclusive and shared holds that are given back through a closure: the server locks
  (\<open>core/locks/server-locks.service.ts\<close>) and the leases on backup copies
  (\<open>backup-copies.service.ts\<close>).

  A returned release function is a number; the functions not yet called (\<open>released\<close> is still
  false) are listed with what they give back.  Calling a function twice finds it gone.
\<close>

section \<open>Server locks\<close>

datatype lock_kind = LockBackup | LockRestore

fun lock_kind_key :: "lock_kind \<Rightarrow> string" where
  "lock_kind_key LockBackup = ''backup''"
| "lock_kind_key LockRestore = ''restore''"

record locks =
  lk_held :: "(string, lock_kind) jsmap"
  lk_live :: "(nat \<times> string) list"
  lk_next :: nat

definition locks_init :: locks where
  "locks_init = \<lparr>lk_held = [], lk_live = [], lk_next = 0\<rparr>"

definition lock_acquire :: "locks \<Rightarrow> string \<Rightarrow> lock_kind \<Rightarrow> nat result \<times> locks" where
  "lock_acquire st sid kind =
     (case jget (lk_held st) sid of
        Some current \<Rightarrow>
          (fail_code Conflict ''SERVER_BUSY'' (''The server is busy with a '' @ lock_kind_key current), st)
      | None \<Rightarrow>
          (Inr (lk_next st),
           st\<lparr>lk_held := jset (lk_held st) sid kind, lk_live := (lk_next st, sid) # lk_live st,
              lk_next := Suc (lk_next st)\<rparr>))"

definition lock_release :: "locks \<Rightarrow> nat \<Rightarrow> locks" where
  "lock_release st tok =
     (case jget (lk_live st) tok of
        None \<Rightarrow> st
      | Some sid \<Rightarrow> st\<lparr>lk_held := jdel (lk_held st) sid, lk_live := jdel (lk_live st) tok\<rparr>)"

definition lock_holder :: "locks \<Rightarrow> string \<Rightarrow> lock_kind option" where
  "lock_holder st sid = jget (lk_held st) sid"

datatype lock_op = OpAcquire string lock_kind | OpRelease nat

fun lock_step :: "locks \<Rightarrow> lock_op \<Rightarrow> locks" where
  "lock_step st (OpAcquire sid k) = snd (lock_acquire st sid k)"
| "lock_step st (OpRelease tok) = lock_release st tok"

text \<open>Held servers and uncalled release functions correspond one to one.\<close>

definition locks_inv :: "locks \<Rightarrow> bool" where
  "locks_inv st \<longleftrightarrow> jsmap_ok (lk_live st) \<and> distinct (map snd (lk_live st)) \<and>
     (\<forall>tok \<in> fst ` set (lk_live st). tok < lk_next st) \<and>
     (\<forall>sid. lock_holder st sid \<noteq> None \<longleftrightarrow> sid \<in> snd ` set (lk_live st))"

lemma set_delete_alist: "set (jdel m k) = {p \<in> set m. fst p \<noteq> k}"
  by (auto simp: AList.delete_eq)

lemma distinct_snd_delete: "distinct (map snd m) \<Longrightarrow> distinct (map snd (jdel m k))"
  by (simp add: AList.delete_eq distinct_map_filter)

lemma locks_inv_acquire:
  assumes "locks_inv st" shows "locks_inv (snd (lock_acquire st sid k))"
proof (cases "jget (lk_held st) sid")
  case (Some c)
  with assms show ?thesis by (simp add: lock_acquire_def)
next
  case None
  then have free: "sid \<notin> snd ` set (lk_live st)"
    using assms unfolding locks_inv_def lock_holder_def by metis
  have fresh: "lk_next st \<notin> fst ` set (lk_live st)"
    using assms by (auto simp: locks_inv_def)
  have old: "x < lk_next st" if "x \<in> fst ` set (lk_live st)" for x
    using assms that unfolding locks_inv_def by blast
  let ?st = "snd (lock_acquire st sid k)"
  have st: "?st = st\<lparr>lk_held := jset (lk_held st) sid k, lk_live := (lk_next st, sid) # lk_live st,
      lk_next := Suc (lk_next st)\<rparr>"
    using None by (simp add: lock_acquire_def)
  have "jsmap_ok (lk_live ?st)" "distinct (map snd (lk_live ?st))"
    using assms fresh free by (simp_all add: st locks_inv_def jsmap_ok_def)
  moreover have "\<forall>tok \<in> fst ` set (lk_live ?st). tok < lk_next ?st"
    using old by (simp add: st less_Suc_eq)
  moreover have "lock_holder ?st i \<noteq> None \<longleftrightarrow> i \<in> snd ` set (lk_live ?st)" for i
    using assms by (simp add: st locks_inv_def lock_holder_def)
  ultimately show ?thesis by (simp add: locks_inv_def)
qed

lemma locks_inv_release:
  assumes "locks_inv st" shows "locks_inv (lock_release st tok)"
proof (cases "jget (lk_live st) tok")
  case None
  with assms show ?thesis by (simp add: lock_release_def)
next
  case (Some sid)
  then have mem: "(tok, sid) \<in> set (lk_live st)" by (rule map_of_SomeD)
  have ok: "jsmap_ok (lk_live st)" and d: "distinct (map snd (lk_live st))"
    using assms by (simp_all add: locks_inv_def)
  have rest: "snd ` set (jdel (lk_live st) tok) = snd ` set (lk_live st) - {sid}"
  proof -
    have inj: "inj_on snd (set (lk_live st))" using d by (simp add: distinct_map)
    have t: "t = tok" if "(t, sid) \<in> set (lk_live st)" for t
      using inj_onD [OF inj, of "(t, sid)" "(tok, sid)"] that mem by simp
    have x: "x = sid" if "(tok, x) \<in> set (lk_live st)" for x
      using that ok Some by (simp add: jsmap_ok_in_iff)
    have "y \<in> snd ` {p \<in> set (lk_live st). fst p \<noteq> tok} \<longleftrightarrow> y \<in> snd ` set (lk_live st) - {sid}" for y
    proof
      assume "y \<in> snd ` {p \<in> set (lk_live st). fst p \<noteq> tok}"
      then obtain k where "(k, y) \<in> set (lk_live st)" "k \<noteq> tok" by auto
      with t show "y \<in> snd ` set (lk_live st) - {sid}" by force
    next
      assume "y \<in> snd ` set (lk_live st) - {sid}"
      then obtain k where "(k, y) \<in> set (lk_live st)" "y \<noteq> sid" by auto
      with x show "y \<in> snd ` {p \<in> set (lk_live st). fst p \<noteq> tok}" by force
    qed
    then show ?thesis unfolding set_delete_alist by blast
  qed
  have "\<forall>x \<in> fst ` set (jdel (lk_live st) tok). x < lk_next st"
    using assms by (auto simp: locks_inv_def set_delete_alist)
  moreover have "lock_holder (lock_release st tok) i \<noteq> None \<longleftrightarrow> i \<in> snd ` set (jdel (lk_live st) tok)" for i
    using assms unfolding rest by (simp add: Some lock_release_def locks_inv_def lock_holder_def)
  ultimately show ?thesis
    using ok d by (simp add: Some lock_release_def locks_inv_def distinct_snd_delete)
qed

interpretation lockm: machine lock_step locks_inv
proof
  fix st :: locks and e :: lock_op
  show "locks_inv st \<Longrightarrow> locks_inv (lock_step st e)"
    by (cases e) (simp_all add: locks_inv_acquire locks_inv_release)
qed

section \<open>Leases\<close>

record leases =
  le_counts :: "(string, int) jsmap"
  le_live :: "(nat \<times> string) list"
  le_next :: nat

definition leases_init :: leases where
  "leases_init = \<lparr>le_counts = [], le_live = [], le_next = 0\<rparr>"

definition lease_take :: "leases \<Rightarrow> string \<Rightarrow> nat \<times> leases" where
  "lease_take st cid =
     (le_next st,
      st\<lparr>le_counts := jset (le_counts st) cid ((case jget (le_counts st) cid of None \<Rightarrow> 0 | Some n \<Rightarrow> n) + 1),
         le_live := (le_next st, cid) # le_live st, le_next := Suc (le_next st)\<rparr>)"

definition lease_release :: "leases \<Rightarrow> nat \<Rightarrow> leases" where
  "lease_release st tok =
     (case jget (le_live st) tok of
        None \<Rightarrow> st
      | Some cid \<Rightarrow>
         (let left = (case jget (le_counts st) cid of None \<Rightarrow> 1 | Some n \<Rightarrow> n) - 1
          in st\<lparr>le_counts := (if left > 0 then jset (le_counts st) cid left else jdel (le_counts st) cid),
                le_live := jdel (le_live st) tok\<rparr>))"

definition is_leased :: "leases \<Rightarrow> string \<Rightarrow> bool" where
  "is_leased st cid \<longleftrightarrow> jhas (le_counts st) cid"

datatype lease_op = OpLease string | OpUnlease nat

fun lease_step :: "leases \<Rightarrow> lease_op \<Rightarrow> leases" where
  "lease_step st (OpLease cid) = snd (lease_take st cid)"
| "lease_step st (OpUnlease tok) = lease_release st tok"

text \<open>The counter of a copy is the number of its leases not given back.\<close>

definition lease_count :: "leases \<Rightarrow> string \<Rightarrow> nat" where
  "lease_count st cid = length (filter (\<lambda>(_, c). c = cid) (le_live st))"

definition leases_inv :: "leases \<Rightarrow> bool" where
  "leases_inv st \<longleftrightarrow> jsmap_ok (le_live st) \<and> (\<forall>tok \<in> fst ` set (le_live st). tok < le_next st) \<and>
     (\<forall>cid. jget (le_counts st) cid =
        (if lease_count st cid = 0 then None else Some (int (lease_count st cid))))"

lemma lease_count_delete:
  assumes "jsmap_ok m" and "jget m tok = Some cid"
  shows "length (filter (\<lambda>(_, c). c = k) (jdel m tok)) =
     length (filter (\<lambda>(_, c). c = k) m) - (if k = cid then 1 else 0)"
  using assms
proof (induction m)
  case Nil
  then show ?case by simp
next
  case (Cons p m)
  obtain t c where p: "p = (t, c)" by (cases p)
  show ?case
  proof (cases "t = tok")
    case True
    then have "tok \<notin> fst ` set m" using Cons.prems(1) p by (auto simp: jsmap_ok_def)
    then have "jdel m tok = m" by (simp add: delete_id)
    with True p Cons.prems show ?thesis by (simp add: AList.delete_eq)
  next
    case False
    with Cons p have IH: "length (filter (\<lambda>(_, c). c = k) (jdel m tok)) =
        length (filter (\<lambda>(_, c). c = k) m) - (if k = cid then 1 else 0)"
      by (simp add: jsmap_ok_def)
    have "(tok, cid) \<in> set m" using Cons.prems(2) p False by (auto dest: map_of_SomeD)
    then have "k = cid \<Longrightarrow> filter (\<lambda>(_, c). c = k) m \<noteq> []" by (auto simp: filter_empty_conv)
    then have "k = cid \<Longrightarrow> 0 < length (filter (\<lambda>(_, c). c = k) m)" by simp
    with IH False p show ?thesis by (auto simp: AList.delete_eq)
  qed
qed

lemma leases_inv_take: "leases_inv st \<Longrightarrow> leases_inv (snd (lease_take st cid))"
  by (auto simp: lease_take_def leases_inv_def lease_count_def jsmap_ok_def less_Suc_eq)

lemma leases_inv_release:
  assumes "leases_inv st" shows "leases_inv (lease_release st tok)"
proof (cases "jget (le_live st) tok")
  case None
  with assms show ?thesis by (simp add: lease_release_def)
next
  case (Some cid)
  have ok: "jsmap_ok (le_live st)" using assms by (simp add: leases_inv_def)
  let ?st = "lease_release st tok"
  have live: "le_live ?st = jdel (le_live st) tok" using Some by (simp add: lease_release_def Let_def)
  have count: "lease_count ?st k = lease_count st k - (if k = cid then 1 else 0)" for k
    by (simp add: lease_count_def live lease_count_delete [OF ok Some])
  have "(tok, cid) \<in> set (le_live st)" using Some by (rule map_of_SomeD)
  then have pos: "lease_count st cid > 0" by (auto simp: lease_count_def filter_empty_conv)
  have counts: "le_counts ?st = (let left = int (lease_count st cid) - 1 in
      if left > 0 then jset (le_counts st) cid left else jdel (le_counts st) cid)"
    using Some assms pos by (auto simp: lease_release_def leases_inv_def Let_def)
  have get: "jget (le_counts st) k = (if lease_count st k = 0 then None else Some (int (lease_count st k)))" for k
    using assms by (simp add: leases_inv_def)
  have "jget (le_counts ?st) k = (if lease_count ?st k = 0 then None else Some (int (lease_count ?st k)))" for k
    using pos by (auto simp: counts count get Let_def of_nat_diff)
  moreover have "\<forall>t \<in> fst ` set (le_live ?st). t < le_next ?st"
    using assms Some by (auto simp: leases_inv_def live set_delete_alist lease_release_def Let_def)
  ultimately show ?thesis using ok by (simp add: leases_inv_def live)
qed

interpretation leasem: machine lease_step leases_inv
proof
  fix st :: leases and e :: lease_op
  show "leases_inv st \<Longrightarrow> leases_inv (lease_step st e)"
    by (cases e) (simp_all add: leases_inv_take leases_inv_release)
qed

section \<open>Properties\<close>

lemma lock_kept:
  assumes "locks_inv st" and "jget (lk_live st) tok = Some sid" and "lock_holder st sid = Some k"
    and "OpRelease tok \<notin> set ops"
  shows "lock_holder (run lock_step st ops) sid = Some k"
  using assms
proof (induction ops arbitrary: st)
  case Nil
  then show ?case by simp
next
  case (Cons e ops)
  let ?st = "lock_step st e"
  have inv: "locks_inv ?st" using Cons.prems(1) by (rule lockm.step_inv)
  have fresh: "tok \<noteq> lk_next st"
    using Cons.prems(1,2) unfolding locks_inv_def by (metis image_eqI fst_conv less_irrefl map_of_SomeD)
  have "jget (lk_live ?st) tok = Some sid \<and> lock_holder ?st sid = Some k"
  proof (cases e)
    case (OpAcquire i kind)
    with Cons.prems fresh show ?thesis
      by (auto simp: lock_acquire_def lock_holder_def split: option.splits)
  next
    case (OpRelease t)
    with Cons.prems(4) have "t \<noteq> tok" by auto
    moreover have "i \<noteq> sid" if "jget (lk_live st) t = Some i" for i
    proof
      assume "i = sid"
      have inj: "inj_on snd (set (lk_live st))" using Cons.prems(1) by (simp add: locks_inv_def distinct_map)
      from inj_onD [OF inj, of "(t, sid)" "(tok, sid)"] map_of_SomeD [OF that] map_of_SomeD [OF Cons.prems(2)]
      show False using \<open>i = sid\<close> \<open>t \<noteq> tok\<close> by simp
    qed
    ultimately show ?thesis using OpRelease Cons.prems(2,3)
      by (auto simp: lock_release_def lock_holder_def split: option.splits)
  qed
  with Cons.IH [OF inv] Cons.prems(4) show ?case by simp
qed

lemma release_gone: "tok \<notin> fst ` set (lk_live st) \<Longrightarrow> lock_release st tok = st"
  by (simp add: lock_release_def map_of_eq_None_iff [THEN iffD2])

lemma lock_gone:
  assumes "tok \<notin> fst ` set (lk_live st)" and "tok < lk_next st"
  shows "tok \<notin> fst ` set (lk_live (run lock_step st ops))"
  using assms
proof (induction ops arbitrary: st)
  case Nil
  then show ?case by simp
next
  case (Cons e ops)
  have "tok \<notin> fst ` set (lk_live (lock_step st e)) \<and> tok < lk_next (lock_step st e)"
    using Cons.prems
    by (cases e) (auto simp: lock_acquire_def lock_release_def set_delete_alist split: option.splits)
  with Cons.IH show ?case by simp
qed

text \<open>
  C26: Server locks exclude each other: a lock is granted only when nobody holds the server; from
  then on, in any sequence of operations, the server stays held and refuses every other
  backup or restore until this very lock is released; and calling its release function
  again never takes the server away from a later holder.
\<close>

theorem server_lock_exclusive:
  assumes "lock_acquire (run lock_step locks_init ops) sid k = (Inr tok, st)"
  shows "lock_holder (run lock_step locks_init ops) sid = None \<and>
     (\<forall>ops1. OpRelease tok \<notin> set ops1 \<longrightarrow>
        lock_holder (run lock_step st ops1) sid = Some k \<and>
        (\<forall>k2. \<not> is_ok (fst (lock_acquire (run lock_step st ops1) sid k2)))) \<and>
     (\<forall>ops1. let released = lock_release st tok in
        lock_holder released sid = None \<and>
        lock_release (run lock_step released ops1) tok = run lock_step released ops1)"
proof -
  let ?st = "run lock_step locks_init ops"
  have inv0: "locks_inv ?st"
    by (rule lockm.run_inv) (simp add: locks_inv_def locks_init_def lock_holder_def)
  have free: "jget (lk_held ?st) sid = None"
    using assms by (auto simp: lock_acquire_def split: option.splits)
  with assms have tok: "tok = lk_next ?st"
    and st: "st = ?st\<lparr>lk_held := jset (lk_held ?st) sid k, lk_live := (lk_next ?st, sid) # lk_live ?st,
      lk_next := Suc (lk_next ?st)\<rparr>"
    by (auto simp: lock_acquire_def)
  have inv: "locks_inv st" using locks_inv_acquire [OF inv0, of sid k] assms by simp
  have live: "jget (lk_live st) tok = Some sid" and held: "lock_holder st sid = Some k"
    by (simp_all add: st tok lock_holder_def)
  have kept: "lock_holder (run lock_step st ops1) sid = Some k" if "OpRelease tok \<notin> set ops1" for ops1
    by (rule lock_kept [OF inv live held that])
  then have busy: "\<not> is_ok (fst (lock_acquire (run lock_step st ops1) sid k2))" if "OpRelease tok \<notin> set ops1" for ops1 k2
    using that by (simp add: lock_acquire_def lock_holder_def)
  have rel: "lock_release st tok = st\<lparr>lk_held := jdel (lk_held st) sid, lk_live := jdel (lk_live st) tok\<rparr>"
    using live by (simp add: lock_release_def)
  have "tok \<notin> fst ` set (lk_live (run lock_step (lock_release st tok) ops1))" for ops1
  proof (rule lock_gone)
    show "tok \<notin> fst ` set (lk_live (lock_release st tok))" unfolding rel by (simp add: set_delete_alist) blast
    show "tok < lk_next (lock_release st tok)" unfolding rel by (simp add: st tok)
  qed
  then have "lock_release (run lock_step (lock_release st tok) ops1) tok = run lock_step (lock_release st tok) ops1" for ops1
    by (rule release_gone)
  moreover have "lock_holder (lock_release st tok) sid = None" by (simp add: rel lock_holder_def)
  ultimately show ?thesis using free kept busy by (simp add: lock_holder_def Let_def)
qed

theorem server_lock_exclusive_witness:
  "let st = snd (lock_acquire (run lock_step locks_init [OpAcquire ''a'' LockBackup]) ''s'' LockRestore) in
   \<not> is_ok (fst (lock_acquire (run lock_step st [OpAcquire ''t'' LockBackup, OpRelease 0]) ''s'' LockBackup))"
proof -
  let ?st0 = "run lock_step locks_init [OpAcquire ''a'' LockBackup]"
  have a: "lock_acquire ?st0 ''s'' LockRestore = (Inr 1, snd (lock_acquire ?st0 ''s'' LockRestore))"
    by (simp add: locks_init_def lock_acquire_def)
  have "OpRelease 1 \<notin> set [OpAcquire ''t'' LockBackup, OpRelease 0]" by simp
  with server_lock_exclusive [OF a] show ?thesis unfolding Let_def by blast
qed

text \<open>
  A copy counts as leased exactly while at least one of its leases has not been given back,
  however often leases are taken and given back, and in whatever order.
\<close>

theorem leased_iff_live:
  "is_leased (run lease_step leases_init ops) cid \<longleftrightarrow>
     (\<exists>tok. (tok, cid) \<in> set (le_live (run lease_step leases_init ops)))"
proof -
  let ?st = "run lease_step leases_init ops"
  have "leases_inv ?st"
    by (rule leasem.run_inv) (simp add: leases_inv_def leases_init_def lease_count_def)
  then have "is_leased ?st cid \<longleftrightarrow> lease_count ?st cid \<noteq> 0"
    by (auto simp: leases_inv_def is_leased_def)
  then show ?thesis by (auto simp: lease_count_def filter_empty_conv)
qed

end
