(* ===== verification/Retention.thy ===== *)
theory Retention
  imports Prelude
begin

text \<open>
  Which copies of a backup a retention policy removes (\<open>retention.policy.ts\<close>).

  \<open>keepDays\<close> is an integer (the policy DTO validates it), so the cutoff is integral.
\<close>

record retention_limits =
  keep_count :: "int option"
  keep_days :: "int option"

record candidate =
  rc_id :: string
  rc_created :: int
  rc_pinned :: bool

definition day_ms :: int where "day_ms = 24 * 60 * 60 * 1000"

text \<open>
  The filter callback over the copies, newest first: \<open>first\<close> is \<open>index === 0\<close>, \<open>kept\<close> the
  counter the callback updates.
\<close>

fun retention_filter ::
  "int option \<Rightarrow> int option \<Rightarrow> bool \<Rightarrow> int \<Rightarrow> 'a candidate_scheme list \<Rightarrow> 'a candidate_scheme list" where
  "retention_filter keep cutoff first kept [] = []"
| "retention_filter keep cutoff first kept (c # cs) =
     (if rc_pinned c then retention_filter keep cutoff False kept cs
      else if first then retention_filter keep cutoff False (kept + 1) cs
      else let over_count = (case keep of None \<Rightarrow> False | Some k \<Rightarrow> kept \<ge> k);
               too_old = (case cutoff of None \<Rightarrow> False | Some t \<Rightarrow> rc_created c < t)
           in if over_count \<or> too_old then c # retention_filter keep cutoff False kept cs
              else retention_filter keep cutoff False (kept + 1) cs)"

definition newest_first :: "'a candidate_scheme list \<Rightarrow> 'a candidate_scheme list" where
  "newest_first cs = sort_key (\<lambda>c. - rc_created c) cs"

definition retention_cutoff :: "retention_limits \<Rightarrow> int \<Rightarrow> int option" where
  "retention_cutoff l now = map_option (\<lambda>d. now - d * day_ms) (keep_days l)"

definition plan_retention :: "'a candidate_scheme list \<Rightarrow> retention_limits \<Rightarrow> int \<Rightarrow> 'a candidate_scheme list" where
  "plan_retention copies l now =
     (if keep_count l = None \<and> keep_days l = None then []
      else retention_filter (keep_count l) (retention_cutoff l now) True 0 (newest_first copies))"

section \<open>What is planned\<close>

lemma retention_filter_subset: "set (retention_filter keep cutoff first kept cs) \<subseteq> set cs"
  by (induction cs arbitrary: first kept) (auto simp: Let_def)

lemma retention_filter_unpinned: "c \<in> set (retention_filter keep cutoff first kept cs) \<Longrightarrow> \<not> rc_pinned c"
  by (induction cs arbitrary: first kept) (auto simp: Let_def split: if_splits)

lemma retention_filter_subseq: "subseq (retention_filter keep cutoff first kept cs) cs"
  by (induction cs arbitrary: first kept) (auto simp: Let_def)

lemma retention_filter_newest:
  "retention_filter keep cutoff True kept (c # cs) = retention_filter keep cutoff False (if rc_pinned c then kept else kept + 1) cs"
  by simp

text \<open>Everything outside the limits is planned: old copies, and copies beyond the count.\<close>

lemma retention_filter_too_old:
  "c \<in> set cs \<Longrightarrow> \<not> rc_pinned c \<Longrightarrow> cutoff = Some t \<Longrightarrow> rc_created c < t \<Longrightarrow>
   c \<in> set (retention_filter keep cutoff False kept cs)"
  by (induction cs arbitrary: kept) (auto simp: Let_def)

definition unpinned :: "'a candidate_scheme list \<Rightarrow> 'a candidate_scheme list" where
  "unpinned cs = filter (\<lambda>c. \<not> rc_pinned c) cs"

text \<open>Unpinned copies that stay are never more than the count (the newest one may be one more).\<close>

lemma retention_filter_count:
  "keep = Some k \<Longrightarrow>
   int (length (unpinned cs)) - int (length (retention_filter keep cutoff False kept cs)) \<le> max 0 (k - kept)"
proof (induction cs arbitrary: kept)
  case Nil
  then show ?case by (simp add: unpinned_def)
next
  case (Cons c cs)
  note IH = Cons.IH [of kept] Cons.IH [of "kept + 1"]
  show ?case
  proof (cases "kept \<ge> k")
    case True
    with IH(1) Cons.prems show ?thesis by (simp add: Let_def unpinned_def)
  next
    case False
    with IH Cons.prems show ?thesis by (auto simp: Let_def unpinned_def)
  qed
qed

text \<open>Planning is a suffix of the unpinned copies: what is older than a planned copy is planned too.\<close>

lemma retention_filter_all:
  assumes "\<forall>c \<in> set cs. (case keep of None \<Rightarrow> False | Some k \<Rightarrow> kept \<ge> k) \<or>
      (case cutoff of None \<Rightarrow> False | Some t \<Rightarrow> rc_created c < t)"
  shows "retention_filter keep cutoff False kept cs = unpinned cs"
  using assms by (induction cs) (auto simp: Let_def unpinned_def)

lemma retention_filter_suffix:
  assumes "sorted_wrt (\<lambda>a b. rc_created a \<ge> rc_created b) cs"
  shows "\<exists>ps. unpinned cs = ps @ retention_filter keep cutoff first kept cs"
  using assms
proof (induction cs arbitrary: first kept)
  case Nil
  then show ?case by (simp add: unpinned_def)
next
  case (Cons c cs)
  show ?case
  proof (cases "rc_pinned c")
    case True
    with Cons show ?thesis by (auto simp: unpinned_def)
  next
    case False
    let ?over = "case keep of None \<Rightarrow> False | Some k \<Rightarrow> kept \<ge> k"
    let ?old = "\<lambda>c. case cutoff of None \<Rightarrow> False | Some t \<Rightarrow> rc_created c < t"
    show ?thesis
    proof (cases "\<not> first \<and> (?over \<or> ?old c)")
      case True
      have "\<forall>d \<in> set cs. ?over \<or> ?old d"
        using True Cons.prems by (fastforce split: option.splits)
      from retention_filter_all [OF this] True False show ?thesis
        by (intro exI [of _ "[]"]) (simp add: Let_def unpinned_def)
    next
      case keep: False
      from Cons obtain ps where "unpinned cs = ps @ retention_filter keep cutoff False (kept + 1) cs"
        by (metis sorted_wrt.simps(2))
      with keep False show ?thesis
        by (intro exI [of _ "c # ps"]) (auto simp: Let_def unpinned_def)
    qed
  qed
qed

lemma newest_first_sorted: "sorted_wrt (\<lambda>a b. rc_created a \<ge> rc_created b) (newest_first cs)"
proof -
  have "sorted (map (\<lambda>c. - rc_created c) (newest_first cs))"
    by (simp add: newest_first_def)
  then show ?thesis by (simp add: sorted_map sorted_wrt_iff_nth_less)
qed

text \<open>Planning again without the planned copies plans nothing.\<close>

lemma retention_filter_again:
  assumes "distinct cs"
  shows "retention_filter keep cutoff first kept
     (filter (\<lambda>c. c \<notin> set (retention_filter keep cutoff first kept cs)) cs) = []"
  using assms
proof (induction cs arbitrary: first kept)
  case Nil
  then show ?case by simp
next
  case (Cons c cs)
  have sub: "c \<notin> set (retention_filter keep cutoff f k cs)" for f k
    using Cons.prems retention_filter_subset by fastforce
  have tail: "filter (\<lambda>x. x \<notin> set (c # retention_filter keep cutoff f k cs)) cs =
      filter (\<lambda>x. x \<notin> set (retention_filter keep cutoff f k cs)) cs" for f k
    using Cons.prems by (intro filter_cong) auto
  show ?case using Cons.IH Cons.prems sub
    by (auto simp: Let_def tail [simplified])
qed

end
