(* ===== verification/Backups.thy ===== *)
theory Backups
  imports Retention Locks
begin

text \<open>
  Backups and their stored copies: the repositories, \<open>backup-copies.service.ts\<close>,
  \<open>backup-transfer.service.ts\<close>, \<open>backup-retention.service.ts\<close>, \<open>backup-policy.service.ts\<close>,
  \<open>backup-orphans.service.ts\<close>, \<open>backup-recovery.service.ts\<close> and the guards of
  \<open>backups.service.ts\<close>.

  File and S3 operations are awaited, so an upload and the removal of a copy are a part before
  the await and one after it.  The archives on the panel disk and the objects in the storages
  are lists of keys.  The key a storage gives an archive (\<open>key_for\<close>) is an argument; so are
  random ids and the clock.  A storage call that fails leaves the rows as they are.
\<close>

section \<open>Rows\<close>

datatype backup_status = BCreating | BCompleted | BFailed
datatype backup_type = BFull | BPartial
datatype backup_format = FZip | FTarGz
datatype copy_status = CUploading | CReady | CFailed

record backup =
  b_id :: string
  b_name :: string
  b_description :: "string option"
  b_type :: backup_type
  b_status :: backup_status
  b_created :: int
  b_updated :: int
  b_file_count :: int
  b_total_size :: int
  b_server :: string
  b_owner :: "string option"
  b_format :: backup_format
  b_ratio :: "int option"
  b_include :: "string list"
  b_exclude :: "string list"
  b_pinned :: bool
  b_checksum :: "string option"

record stored_copy =
  k_id :: string
  k_backup :: string
  k_storage :: "string option"
  k_key :: string
  k_size :: int
  k_status :: copy_status
  k_error :: "string option"
  k_created :: int
  k_updated :: int

subsection \<open>backups.repository.ts\<close>

definition brepo_find_all :: "backup list \<Rightarrow> backup list" where
  "brepo_find_all t = sort_key (\<lambda>b. - b_created b) t"

definition brepo_find :: "string \<Rightarrow> backup list \<Rightarrow> backup option" where
  "brepo_find i t = row_find b_id i t"

definition brepo_find_by_server :: "string \<Rightarrow> backup list \<Rightarrow> backup list" where
  "brepo_find_by_server sid t = sort_key (\<lambda>b. - b_created b) (filter (\<lambda>b. b_server b = sid) t)"

definition brepo_find_by_status :: "backup_status \<Rightarrow> backup list \<Rightarrow> backup list" where
  "brepo_find_by_status st t = filter (\<lambda>b. b_status b = st) t"

definition brepo_create :: "backup \<Rightarrow> backup list \<Rightarrow> backup list" where
  "brepo_create b t = row_insert b t"

text \<open>An update writes every column but the pin and the file rules.\<close>

definition patch_backup :: "backup \<Rightarrow> backup \<Rightarrow> backup" where
  "patch_backup b x =
     b\<lparr>b_pinned := b_pinned x, b_include := b_include x, b_exclude := b_exclude x\<rparr>"

definition brepo_update :: "backup \<Rightarrow> backup list \<Rightarrow> backup list" where
  "brepo_update b t = row_patch b_id patch_backup b t"

definition brepo_set_pinned :: "string \<Rightarrow> bool \<Rightarrow> int \<Rightarrow> backup list \<Rightarrow> backup list" where
  "brepo_set_pinned i p now t =
     map (\<lambda>b. if b_id b = i then b\<lparr>b_pinned := p, b_updated := now\<rparr> else b) t"

definition brepo_delete :: "string \<Rightarrow> backup list \<Rightarrow> backup list" where
  "brepo_delete i t = row_delete b_id i t"

lemma patch_backup_keeps_key: "keeps_key b_id patch_backup"
  by (simp add: keeps_key_def patch_backup_def)

interpretation bkp: table b_id patch_backup brepo_find brepo_create brepo_update brepo_delete "rows_ok b_id"
  using table_rows [OF patch_backup_keeps_key]
  unfolding brepo_find_def [abs_def] brepo_create_def [abs_def] brepo_update_def [abs_def]
    brepo_delete_def [abs_def] .

subsection \<open>backup-copies.repository.ts\<close>

definition krepo_find_by_backup :: "string \<Rightarrow> stored_copy list \<Rightarrow> stored_copy list" where
  "krepo_find_by_backup b t = sort_key k_created (filter (\<lambda>c. k_backup c = b) t)"

definition krepo_find_by_backups :: "string list \<Rightarrow> stored_copy list \<Rightarrow> stored_copy list" where
  "krepo_find_by_backups bs t = filter (\<lambda>c. k_backup c \<in> set bs) t"

definition krepo_find :: "string \<Rightarrow> stored_copy list \<Rightarrow> stored_copy option" where
  "krepo_find i t = row_find k_id i t"

text \<open>An empty storage id is falsy and means the panel disk.\<close>

definition krepo_find_at :: "string \<Rightarrow> string option \<Rightarrow> stored_copy list \<Rightarrow> stored_copy option" where
  "krepo_find_at b s t =
     (let st = (if s = Some [] then None else s)
      in List.find (\<lambda>c. k_backup c = b \<and> k_storage c = st) t)"

definition krepo_count_for_storage :: "string \<Rightarrow> stored_copy list \<Rightarrow> nat" where
  "krepo_count_for_storage s t = length (filter (\<lambda>c. k_storage c = Some s) t)"

definition krepo_local_keys :: "stored_copy list \<Rightarrow> string list" where
  "krepo_local_keys t = map k_key (filter (\<lambda>c. k_storage c = None) t)"

definition krepo_find_by_status :: "copy_status \<Rightarrow> stored_copy list \<Rightarrow> stored_copy list" where
  "krepo_find_by_status st t = filter (\<lambda>c. k_status c = st) t"

definition krepo_create :: "stored_copy \<Rightarrow> stored_copy list \<Rightarrow> stored_copy list" where
  "krepo_create c t = row_insert c t"

definition krepo_set_status ::
  "string \<Rightarrow> copy_status \<Rightarrow> int option \<Rightarrow> string option \<Rightarrow> int \<Rightarrow> stored_copy list \<Rightarrow> stored_copy list" where
  "krepo_set_status i st sz err now t =
     map (\<lambda>c. if k_id c = i
              then c\<lparr>k_status := st, k_size := (case sz of None \<Rightarrow> k_size c | Some n \<Rightarrow> n), k_error := err,
                     k_updated := now\<rparr>
              else c) t"

definition krepo_delete :: "string \<Rightarrow> stored_copy list \<Rightarrow> stored_copy list" where
  "krepo_delete i t = row_delete k_id i t"

section \<open>The state\<close>

record backup_policy =
  bp_local :: retention_limits
  bp_storage :: "string option"
  bp_remote :: retention_limits
  bp_auto_upload :: bool
  bp_delete_local :: bool

text \<open>An upload in flight: the row it created, its lease on the local copy, the object.\<close>

record upload =
  up_copy :: stored_copy
  up_lease :: nat
  up_storage :: string
  up_key :: string

record bworld =
  bw_backups :: "backup list"
  bw_copies :: "stored_copy list"
  bw_leases :: leases
  bw_archives :: "string list"
  bw_objects :: "(string \<times> string) list"
  bw_uploads :: "upload list"
  bw_removing :: "stored_copy list"
  bw_retaining :: "string list"
  bw_storages :: "string list"
  bw_policies :: "(string, backup_policy) jsmap"
  bw_defaults :: "backup_policy option"

section \<open>Policies (backup-policy.service.ts)\<close>

definition no_limits :: retention_limits where
  "no_limits = \<lparr>keep_count = None, keep_days = None\<rparr>"

definition built_in_policy :: backup_policy where
  "built_in_policy = \<lparr>bp_local = no_limits, bp_storage = None, bp_remote = no_limits,
     bp_auto_upload = False, bp_delete_local = False\<rparr>"

definition policy_defaults :: "bworld \<Rightarrow> backup_policy" where
  "policy_defaults w = (case bw_defaults w of None \<Rightarrow> built_in_policy | Some p \<Rightarrow> p)"

definition assert_policy_storage :: "bworld \<Rightarrow> backup_policy \<Rightarrow> unit result" where
  "assert_policy_storage w p =
     (case bp_storage p of None \<Rightarrow> Inr ()
      | Some s \<Rightarrow> if s \<noteq> [] \<and> s \<notin> set (bw_storages w)
                  then fail_code NotFound ''STORAGE_NOT_FOUND'' ''Storage not found'' else Inr ())"

definition policy_set_defaults :: "bworld \<Rightarrow> backup_policy \<Rightarrow> bworld result" where
  "policy_set_defaults w p = and_then (assert_policy_storage w p) (\<lambda>_. Inr (w\<lparr>bw_defaults := Some p\<rparr>))"

definition policy_for_server :: "bworld \<Rightarrow> string \<Rightarrow> bool \<times> backup_policy" where
  "policy_for_server w sid =
     (case jget (bw_policies w) sid of None \<Rightarrow> (False, policy_defaults w) | Some p \<Rightarrow> (True, p))"

definition policy_set_for_server :: "bworld \<Rightarrow> string \<Rightarrow> backup_policy option \<Rightarrow> bworld result" where
  "policy_set_for_server w sid po =
     (case po of
        None \<Rightarrow> Inr (w\<lparr>bw_policies := jdel (bw_policies w) sid\<rparr>)
      | Some p \<Rightarrow> and_then (assert_policy_storage w p) (\<lambda>_. Inr (w\<lparr>bw_policies := jset (bw_policies w) sid p\<rparr>)))"

definition policy_forget_storage :: "bworld \<Rightarrow> string \<Rightarrow> bworld" where
  "policy_forget_storage w s =
     (let d = policy_defaults w in
      if bp_storage d \<noteq> Some s then w
      else w\<lparr>bw_defaults := Some (d\<lparr>bp_storage := None, bp_auto_upload := False\<rparr>)\<rparr>)"

text \<open>
  Removing a storage (\<open>backup-storages.service.ts\<close>): refused while it holds copies, the server
  policies lose it through the foreign key (\<open>ON DELETE SET NULL\<close>).
\<close>

definition storage_remove :: "bworld \<Rightarrow> string \<Rightarrow> bworld result" where
  "storage_remove w s =
     (if s \<notin> set (bw_storages w) then fail NotFound ''Storage not found''
      else let stored = krepo_count_for_storage s (bw_copies w) in
        if stored > 0
        then fail_code Conflict ''STORAGE_IN_USE''
               (''The storage still holds '' @ digits stored @ '' backup copies, delete them first'')
        else Inr (policy_forget_storage
          (w\<lparr>bw_storages := filter (\<lambda>x. x \<noteq> s) (bw_storages w),
             bw_policies := map (\<lambda>(i, p). (i, if bp_storage p = Some s then p\<lparr>bp_storage := None\<rparr> else p))
                                (bw_policies w)\<rparr>) s))"

section \<open>Copies (backup-copies.service.ts)\<close>

definition copies_of :: "bworld \<Rightarrow> string \<Rightarrow> stored_copy list" where
  "copies_of w b = krepo_find_by_backup b (bw_copies w)"

definition archive_extension :: "backup_format \<Rightarrow> string" where
  "archive_extension f = (case f of FTarGz \<Rightarrow> ''tar.gz'' | FZip \<Rightarrow> ''zip'')"

definition local_key_for :: "string \<Rightarrow> string \<Rightarrow> backup_format \<Rightarrow> string" where
  "local_key_for sid bid f = sid @ ''/'' @ bid @ ''.'' @ archive_extension f"

definition copies_add_local :: "bworld \<Rightarrow> backup \<Rightarrow> string \<Rightarrow> int \<Rightarrow> string \<Rightarrow> int \<Rightarrow> bworld" where
  "copies_add_local w b key sz kid now =
     w\<lparr>bw_copies := krepo_create
        \<lparr>k_id = kid, k_backup = b_id b, k_storage = None, k_key = key, k_size = sz, k_status = CReady,
         k_error = None, k_created = now, k_updated = now\<rparr> (bw_copies w)\<rparr>"

definition copies_local_path :: "bworld \<Rightarrow> string \<Rightarrow> string option" where
  "copies_local_path w b =
     (case krepo_find_at b None (bw_copies w) of
        None \<Rightarrow> None
      | Some c \<Rightarrow> if k_status c \<noteq> CReady then None
                  else if k_key c \<in> set (bw_archives w) then Some (k_key c) else None)"

definition copies_ready_remote :: "bworld \<Rightarrow> string \<Rightarrow> stored_copy option" where
  "copies_ready_remote w b =
     List.find (\<lambda>c. k_storage c \<noteq> None \<and> k_storage c \<noteq> Some [] \<and> k_status c = CReady) (copies_of w b)"

text \<open>
  Removing a copy: the call, the archive disappearing while it is awaited, and the rows that
  follow when that is done.
\<close>

definition copy_remove_begin :: "bworld \<Rightarrow> stored_copy \<Rightarrow> bworld" where
  "copy_remove_begin w c = w\<lparr>bw_removing := c # bw_removing w\<rparr>"

definition copy_remove_archive :: "bworld \<Rightarrow> stored_copy \<Rightarrow> bworld" where
  "copy_remove_archive w c =
     (case k_storage c of
        Some s \<Rightarrow>
          if s = [] then w\<lparr>bw_archives := filter (\<lambda>k. k \<noteq> k_key c) (bw_archives w)\<rparr>
          else w\<lparr>bw_objects := filter (\<lambda>x. x \<noteq> (s, k_key c)) (bw_objects w)\<rparr>
      | None \<Rightarrow> w\<lparr>bw_archives := filter (\<lambda>k. k \<noteq> k_key c) (bw_archives w)\<rparr>)"

definition copy_remove_end :: "bworld \<Rightarrow> stored_copy \<Rightarrow> bool \<times> bworld" where
  "copy_remove_end w c =
     (let w1 = w\<lparr>bw_copies := krepo_delete (k_id c) (bw_copies w), bw_removing := remove1 c (bw_removing w)\<rparr>;
          gone = (copies_of w1 (k_backup c) = [])
      in (gone, if gone then w1\<lparr>bw_backups := brepo_delete (k_backup c) (bw_backups w1)\<rparr> else w1))"

text \<open>Without interruption, and for every copy of a backup (the copies go with the backup row).\<close>

definition copy_remove :: "bworld \<Rightarrow> stored_copy \<Rightarrow> bworld" where
  "copy_remove w c = snd (copy_remove_end (copy_remove_archive (copy_remove_begin w c) c) c)"

definition copies_remove_all :: "bworld \<Rightarrow> string \<Rightarrow> bworld" where
  "copies_remove_all w b =
     (let w1 = foldl copy_remove w (copies_of w b)
      in w1\<lparr>bw_backups := brepo_delete b (bw_backups w1),
            bw_copies := filter (\<lambda>c. k_backup c \<noteq> b) (bw_copies w1)\<rparr>)"

section \<open>Uploads (backup-transfer.service.ts)\<close>

datatype upload_start = AlreadyStored stored_copy | UploadStarted upload

definition upload_begin ::
  "(string \<Rightarrow> string \<Rightarrow> string) \<Rightarrow> bworld \<Rightarrow> backup \<Rightarrow> string \<Rightarrow> string \<Rightarrow> int \<Rightarrow> upload_start result \<times> bworld" where
  "upload_begin key_for w b s kid now =
     (if s \<notin> set (bw_storages w) then (fail_code NotFound ''STORAGE_NOT_FOUND'' ''Storage not found'', w)
      else case (krepo_find_at (b_id b) None (bw_copies w), copies_local_path w (b_id b)) of
        (Some lc, Some _) \<Rightarrow>
          (let existing = krepo_find_at (b_id b) (Some s) (bw_copies w) in
           if (case existing of None \<Rightarrow> False | Some e \<Rightarrow> k_status e = CReady)
           then (Inr (AlreadyStored (the existing)), w)
           else let rows = (case existing of None \<Rightarrow> bw_copies w | Some e \<Rightarrow> krepo_delete (k_id e) (bw_copies w));
                    key = key_for s (local_key_for (b_server b) (b_id b) (b_format b));
                    c = \<lparr>k_id = kid, k_backup = b_id b, k_storage = Some s, k_key = key, k_size = 0,
                         k_status = CUploading, k_error = None, k_created = now, k_updated = now\<rparr>;
                    (tok, ls) = lease_take (bw_leases w) (k_id lc);
                    up = \<lparr>up_copy = c, up_lease = tok, up_storage = s, up_key = key\<rparr>
                in (Inr (UploadStarted up),
                    w\<lparr>bw_copies := krepo_create c rows, bw_leases := ls, bw_uploads := up # bw_uploads w\<rparr>))
      | _ \<Rightarrow> (fail BadRequest ''The backup has no local archive to upload'', w))"

datatype upload_outcome = UploadedBytes int | UploadError string

definition upload_finish_row :: "bworld \<Rightarrow> upload \<Rightarrow> bworld" where
  "upload_finish_row w up =
     w\<lparr>bw_uploads := remove1 up (bw_uploads w), bw_leases := lease_release (bw_leases w) (up_lease up)\<rparr>"

definition upload_end :: "bworld \<Rightarrow> upload \<Rightarrow> upload_outcome \<Rightarrow> int \<Rightarrow> stored_copy result \<times> bworld" where
  "upload_end w up out now =
     (let c = up_copy up in
      case out of
        UploadError msg \<Rightarrow>
          (fail Internal msg,
           upload_finish_row (w\<lparr>bw_copies := krepo_set_status (k_id c) CFailed None (Some msg) now (bw_copies w)\<rparr>) up)
      | UploadedBytes n \<Rightarrow>
          (let w1 = w\<lparr>bw_objects := (up_storage up, up_key up) # bw_objects w\<rparr> in
           if krepo_find (k_id c) (bw_copies w1) = None
           then let msg = ''The backup was deleted during the upload'' in
             (fail Internal msg,
              upload_finish_row
                (w1\<lparr>bw_objects := filter (\<lambda>x. x \<noteq> (up_storage up, up_key up)) (bw_objects w1),
                    bw_copies := krepo_set_status (k_id c) CFailed None (Some msg) now (bw_copies w1)\<rparr>) up)
           else (Inr (c\<lparr>k_size := n, k_status := CReady\<rparr>),
              upload_finish_row
                (w1\<lparr>bw_copies := krepo_set_status (k_id c) CReady (Some n) None now (bw_copies w1)\<rparr>) up)))"

section \<open>Retention (backup-retention.service.ts)\<close>

record planned = candidate +
  pl_copy :: stored_copy
  pl_backup :: backup

definition retention_candidates :: "bworld \<Rightarrow> string \<Rightarrow> string option \<Rightarrow> planned list" where
  "retention_candidates w sid storage =
     (let records = filter (\<lambda>b. b_status b = BCompleted) (brepo_find_by_server sid (bw_backups w));
          cs = filter (\<lambda>c. k_storage c = storage \<and> k_status c = CReady \<and> \<not> is_leased (bw_leases w) (k_id c))
                 (krepo_find_by_backups (map b_id records) (bw_copies w))
      in concat (map (\<lambda>c. case row_find b_id (k_backup c) records of None \<Rightarrow> []
           | Some b \<Rightarrow> [\<lparr>rc_id = k_id c, rc_created = b_created b, rc_pinned = b_pinned b,
                        pl_copy = c, pl_backup = b\<rparr>]) cs))"

definition retention_plan :: "bworld \<Rightarrow> string \<Rightarrow> string option \<Rightarrow> retention_limits \<Rightarrow> int \<Rightarrow> planned list" where
  "retention_plan w sid storage l now = plan_retention (retention_candidates w sid storage) l now"

definition retention_preview :: "bworld \<Rightarrow> string \<Rightarrow> backup_policy \<Rightarrow> int \<Rightarrow> nat \<times> nat" where
  "retention_preview w sid p now =
     (length (retention_plan w sid None (bp_local p) now),
      case bp_storage p of None \<Rightarrow> 0
      | Some s \<Rightarrow> if s = [] then 0 else length (retention_plan w sid (Some s) (bp_remote p) now))"

text \<open>One run of \<open>apply\<close> for a server when nothing else runs in between.\<close>

definition retention_prune :: "bworld \<Rightarrow> string \<Rightarrow> string option \<Rightarrow> retention_limits \<Rightarrow> int \<Rightarrow> bworld" where
  "retention_prune w sid storage l now = foldl copy_remove w (map pl_copy (retention_plan w sid storage l now))"

text \<open>
  The loop of \<open>prune\<close> with what other requests do while it awaits: the plan was made before
  the loop, event \<open>n\<close> happens before copy \<open>n\<close> is removed.
\<close>

fun prune_loop :: "stored_copy list \<Rightarrow> (bworld \<Rightarrow> bworld) list \<Rightarrow> bworld \<Rightarrow> bworld" where
  "prune_loop [] evs w = w"
| "prune_loop (c # cs) [] w = prune_loop cs [] (copy_remove w c)"
| "prune_loop (c # cs) (e # evs) w = prune_loop cs evs (copy_remove (e w) c)"

definition retention_apply :: "bworld \<Rightarrow> string \<Rightarrow> int \<Rightarrow> bworld" where
  "retention_apply w sid now =
     (if sid \<in> set (bw_retaining w) then w
      else let p = snd (policy_for_server w sid);
               w1 = retention_prune w sid None (bp_local p) now
           in case bp_storage p of None \<Rightarrow> w1
              | Some s \<Rightarrow> if s = [] then w1 else retention_prune w1 sid (Some s) (bp_remote p) now)"

section \<open>Guards of backups.service.ts\<close>

definition require_backup :: "bworld \<Rightarrow> string \<Rightarrow> backup result" where
  "require_backup w i = (case brepo_find i (bw_backups w) of None \<Rightarrow> fail NotFound ''Backup not found'' | Some b \<Rightarrow> Inr b)"

definition require_completed :: "bworld \<Rightarrow> string \<Rightarrow> backup result" where
  "require_completed w i = and_then (require_backup w i) (\<lambda>b.
     if b_status b \<noteq> BCompleted then fail BadRequest ''Backup is not ready'' else Inr b)"

definition backup_set_pinned :: "bworld \<Rightarrow> string \<Rightarrow> bool \<Rightarrow> int \<Rightarrow> bworld result" where
  "backup_set_pinned w i p now = and_then (require_backup w i) (\<lambda>_.
     Inr (w\<lparr>bw_backups := brepo_set_pinned i p now (bw_backups w)\<rparr>))"

definition backup_delete_guard :: "bworld \<Rightarrow> string \<Rightarrow> backup result" where
  "backup_delete_guard w i = and_then (require_backup w i) (\<lambda>b.
     if b_status b = BCreating then fail BadRequest ''The backup is still being created''
     else if list_ex (\<lambda>c. k_status c = CUploading) (copies_of w i)
     then fail_code Conflict ''BACKUP_UPLOADING'' ''Wait until the upload finishes''
     else Inr b)"

text \<open>\<open>status\<close> is the server's status key; \<open>stopped\<close> and \<open>crashed\<close> allow a restore.\<close>

definition backup_restore_begin ::
  "bworld \<Rightarrow> locks \<Rightarrow> (string \<Rightarrow> string option) \<Rightarrow> string \<Rightarrow> nat result \<times> locks" where
  "backup_restore_begin w lk server_status i =
     (case require_completed w i of
        Inl e \<Rightarrow> (Inl e, lk)
      | Inr b \<Rightarrow>
         (case server_status (b_server b) of
            None \<Rightarrow> (fail_code Conflict ''SERVER_RUNNING'' ''Stop the server before restoring a backup'', lk)
          | Some st \<Rightarrow>
              if st \<notin> {''stopped'', ''crashed''}
              then (fail_code Conflict ''SERVER_RUNNING'' ''Stop the server before restoring a backup'', lk)
              else lock_acquire lk (b_server b) LockRestore))"

section \<open>Orphans and recovery\<close>

definition orphan_list :: "bworld \<Rightarrow> string list" where
  "orphan_list w =
     (let known = krepo_local_keys (bw_copies w) @
                  map (\<lambda>b. local_key_for (b_server b) (b_id b) (b_format b))
                      (brepo_find_by_status BCreating (bw_backups w))
      in filter (\<lambda>k. k \<notin> set known) (bw_archives w))"

definition orphan_remove :: "bworld \<Rightarrow> string list \<Rightarrow> nat \<times> bworld" where
  "orphan_remove w keys =
     (let doomed = filter (\<lambda>k. k \<in> set (orphan_list w)) keys
      in (length doomed, w\<lparr>bw_archives := filter (\<lambda>k. k \<notin> set doomed) (bw_archives w)\<rparr>))"

definition recover_backup :: "int \<Rightarrow> bworld \<Rightarrow> backup \<Rightarrow> bworld" where
  "recover_backup now w b =
     w\<lparr>bw_backups := brepo_update (b\<lparr>b_status := BFailed, b_updated := now\<rparr>) (bw_backups w),
       bw_archives := filter (\<lambda>k. k \<noteq> local_key_for (b_server b) (b_id b) (b_format b)) (bw_archives w)\<rparr>"

definition recover_copy :: "int \<Rightarrow> bworld \<Rightarrow> stored_copy \<Rightarrow> bworld" where
  "recover_copy now w c =
     w\<lparr>bw_copies := krepo_set_status (k_id c) CFailed None (Some ''Interrupted by a panel restart'') now (bw_copies w)\<rparr>"

definition backup_recovery :: "int \<Rightarrow> bworld \<Rightarrow> bworld" where
  "backup_recovery now w =
     (let w1 = foldl (recover_backup now) w (brepo_find_by_status BCreating (bw_backups w))
      in foldl (recover_copy now) w1 (krepo_find_by_status CUploading (bw_copies w1)))"

end
