(* ===== verification/Backup_Steps.thy ===== *)
theory Backup_Steps
  imports Backups
begin

text \<open>
  Uploads and removals of copies as a step relation over the backup state: each part of an
  operation between two awaits is a step, in any order.

  \<open>excl\<close> says whether the callers keep uploads of one backup to one storage apart and remove
  only copies that still have their row.  The code does not check this; the properties show
  what holds when it is so, and what goes wrong when it is not.
\<close>

section \<open>Object keys\<close>

text \<open>Ids are UUIDs: no separator of the key format occurs in them.\<close>

definition plain_id :: "string \<Rightarrow> bool" where
  "plain_id i \<longleftrightarrow> CHR ''/'' \<notin> set i \<and> CHR ''.'' \<notin> set i"

definition backup_key :: "backup \<Rightarrow> string" where
  "backup_key b = local_key_for (b_server b) (b_id b) (b_format b)"

lemma append_sep_inj:
  assumes "c \<notin> set a" and "c \<notin> set a'" and "a @ c # x = a' @ c # y"
  shows "a = a' \<and> x = y"
  using assms
proof (induction a arbitrary: a')
  case Nil
  then show ?case by (cases a') auto
next
  case (Cons z zs)
  then show ?case by (cases a') auto
qed

lemma backup_key_inj:
  assumes "plain_id (b_server b)" "plain_id (b_id b)" "plain_id (b_server d)" "plain_id (b_id d)"
    and "backup_key b = backup_key d"
  shows "b_id b = b_id d"
proof -
  have "b_server b @ CHR ''/'' # (b_id b @ CHR ''.'' # archive_extension (b_format b)) =
      b_server d @ CHR ''/'' # (b_id d @ CHR ''.'' # archive_extension (b_format d))"
    using assms(5) by (simp add: backup_key_def local_key_for_def)
  with assms(1,3) have "b_id b @ CHR ''.'' # archive_extension (b_format b) =
      b_id d @ CHR ''.'' # archive_extension (b_format d)"
    using append_sep_inj [of "CHR ''/''" "b_server b" "b_server d"] by (simp add: plain_id_def)
  with assms(2,4) show ?thesis
    using append_sep_inj [of "CHR ''.''" "b_id b" "b_id d"] by (simp add: plain_id_def)
qed

text \<open>What the driver has to keep: archives of different backups get different keys.\<close>

definition keys_apart :: "(string \<Rightarrow> string \<Rightarrow> string) \<Rightarrow> bool" where
  "keys_apart key_for \<longleftrightarrow>
     (\<forall>s b d. plain_id (b_server b) \<and> plain_id (b_id b) \<and> plain_id (b_server d) \<and> plain_id (b_id d) \<and>
        key_for s (backup_key b) = key_for s (backup_key d) \<longrightarrow> backup_key b = backup_key d)"

section \<open>Steps\<close>

definition same_target :: "stored_copy \<Rightarrow> stored_copy \<Rightarrow> bool" where
  "same_target c d \<longleftrightarrow> k_backup c = k_backup d \<and> k_storage c = k_storage d"

definition unused_copy_id :: "bworld \<Rightarrow> string \<Rightarrow> bool" where
  "unused_copy_id w i \<longleftrightarrow> i \<notin> k_id ` set (bw_copies w) \<and>
     i \<notin> (\<lambda>u. k_id (up_copy u)) ` set (bw_uploads w) \<and> i \<notin> k_id ` set (bw_removing w)"

inductive bk_step :: "(string \<Rightarrow> string \<Rightarrow> string) \<Rightarrow> bool \<Rightarrow> bworld \<Rightarrow> bworld \<Rightarrow> bool"
  for key_for :: "string \<Rightarrow> string \<Rightarrow> string" and excl :: bool where
  begin_upload:
    "upload_begin key_for w b s kid now = (Inr (UploadStarted up), w') \<Longrightarrow> s \<noteq> [] \<Longrightarrow>
     unused_copy_id w kid \<Longrightarrow> plain_id (b_server b) \<Longrightarrow> plain_id (b_id b) \<Longrightarrow>
     excl \<longrightarrow> (\<forall>c \<in> set (map up_copy (bw_uploads w) @ bw_removing w). \<not> same_target c (up_copy up)) \<Longrightarrow>
     bk_step key_for excl w w'"
| end_upload:
    "up \<in> set (bw_uploads w) \<Longrightarrow> bk_step key_for excl w (snd (upload_end w up out now))"
| begin_remove:
    "excl \<longrightarrow> c \<in> set (bw_copies w) \<Longrightarrow> bk_step key_for excl w (copy_remove_begin w c)"
| remove_archive:
    "c \<in> set (bw_removing w) \<Longrightarrow> bk_step key_for excl w (copy_remove_archive w c)"
| end_remove:
    "c \<in> set (bw_removing w) \<Longrightarrow>
     bk_step key_for excl w (snd (copy_remove_end (copy_remove_archive w c) c))"
| fail_remove:
    "c \<in> set (bw_removing w) \<Longrightarrow>
     \<forall>s. k_storage c = Some s \<longrightarrow> (s, k_key c) \<in> set (bw_objects w) \<Longrightarrow>
     bk_step key_for excl w (w\<lparr>bw_removing := remove1 c (bw_removing w)\<rparr>)"
| add_local:
    "unused_copy_id w kid \<Longrightarrow> bk_step key_for excl w (copies_add_local w b key sz kid now)"
| lease:
    "bk_step key_for excl w (w\<lparr>bw_leases := lease_step (bw_leases w) op\<rparr>)"
| pin:
    "backup_set_pinned w i p now = Inr w' \<Longrightarrow> bk_step key_for excl w w'"

inductive_cases bk_stepE: "bk_step key_for excl w w'"

inductive bk_reach :: "(string \<Rightarrow> string \<Rightarrow> string) \<Rightarrow> bool \<Rightarrow> bworld \<Rightarrow> bworld \<Rightarrow> bool"
  for key_for :: "string \<Rightarrow> string \<Rightarrow> string" and excl :: bool and w0 :: bworld where
  start: "bk_reach key_for excl w0 w0"
| more: "bk_reach key_for excl w0 w \<Longrightarrow> bk_step key_for excl w w' \<Longrightarrow> bk_reach key_for excl w0 w'"

section \<open>The invariant of exclusive callers\<close>

definition keyed :: "(string \<Rightarrow> string \<Rightarrow> string) \<Rightarrow> stored_copy \<Rightarrow> bool" where
  "keyed key_for c \<longleftrightarrow> (\<forall>s. k_storage c = Some s \<longrightarrow>
     (\<exists>b. plain_id (b_server b) \<and> plain_id (b_id b) \<and> b_id b = k_backup c \<and> k_key c = key_for s (backup_key b)))"

text \<open>
  Rows: well keyed, one per backup and storage, with ids of their own.  Uploads and removals under
  way belong to their row.  A ready copy has its object unless it is being removed.
\<close>

definition rows_inv :: "(string \<Rightarrow> string \<Rightarrow> string) \<Rightarrow> stored_copy list \<Rightarrow> bool" where
  "rows_inv key_for cs \<longleftrightarrow>
     (\<forall>c \<in> set cs. keyed key_for c \<and> k_storage c \<noteq> Some []) \<and>
     (\<forall>c \<in> set cs. \<forall>d \<in> set cs. k_id c = k_id d \<or> (k_storage c \<noteq> None \<and> same_target c d) \<longrightarrow> c = d)"

text \<open>A copy an operation holds, and the row it belongs to.\<close>

definition held :: "(string \<Rightarrow> string \<Rightarrow> string) \<Rightarrow> stored_copy list \<Rightarrow> stored_copy \<Rightarrow> bool" where
  "held key_for cs c \<longleftrightarrow> keyed key_for c \<and> k_storage c \<noteq> Some [] \<and>
     (\<forall>d \<in> set cs. k_id d = k_id c \<or> (k_storage c \<noteq> None \<and> same_target d c) \<longrightarrow>
        k_id d = k_id c \<and> same_target d c \<and> k_key d = k_key c)"

definition ready_objects :: "stored_copy list \<Rightarrow> (string \<times> string) list \<Rightarrow> string set \<Rightarrow> bool" where
  "ready_objects cs objs removing \<longleftrightarrow>
     (\<forall>c \<in> set cs. \<forall>s. k_storage c = Some s \<longrightarrow> k_status c = CReady \<longrightarrow>
        (s, k_key c) \<in> set objs \<or> k_id c \<in> removing)"

definition up_ok :: "upload \<Rightarrow> bool" where
  "up_ok u \<longleftrightarrow> k_storage (up_copy u) = Some (up_storage u) \<and> k_key (up_copy u) = up_key u"

definition remote_inv :: "(string \<Rightarrow> string \<Rightarrow> string) \<Rightarrow> bworld \<Rightarrow> bool" where
  "remote_inv key_for w \<longleftrightarrow> rows_inv key_for (bw_copies w) \<and>
     (\<forall>u \<in> set (bw_uploads w). up_ok u \<and> held key_for (bw_copies w) (up_copy u)) \<and>
     (\<forall>c \<in> set (bw_removing w). held key_for (bw_copies w) c) \<and>
     ready_objects (bw_copies w) (bw_objects w) (k_id ` set (bw_removing w))"

text \<open>Copies in the same place are copies of the same backup.\<close>

lemma same_place_same_target:
  assumes "keys_apart key_for" and "keyed key_for c" and "keyed key_for d"
    and "k_storage c = Some s" and "k_storage d = Some s" and "k_key c = k_key d"
  shows "same_target c d"
proof -
  from assms(2,4) obtain b where b: "plain_id (b_server b)" "plain_id (b_id b)" "b_id b = k_backup c"
    "k_key c = key_for s (backup_key b)" by (auto simp: keyed_def)
  from assms(3,5) obtain e where e: "plain_id (b_server e)" "plain_id (b_id e)" "b_id e = k_backup d"
    "k_key d = key_for s (backup_key e)" by (auto simp: keyed_def)
  from b(4) e(4) assms(6) have "key_for s (backup_key b) = key_for s (backup_key e)" by simp
  with assms(1) b(1,2) e(1,2) have "backup_key b = backup_key e" unfolding keys_apart_def by blast
  with backup_key_inj b(1,2) e(1,2) have "b_id b = b_id e" by blast
  with b(3) e(3) assms(4,5) show ?thesis by (simp add: same_target_def)
qed

section \<open>How the rows change\<close>

lemma rows_inv_subset: "rows_inv key_for cs \<Longrightarrow> set cs' \<subseteq> set cs \<Longrightarrow> rows_inv key_for cs'"
  unfolding rows_inv_def by blast

lemma held_subset: "held key_for cs c \<Longrightarrow> set cs' \<subseteq> set cs \<Longrightarrow> held key_for cs' c"
  unfolding held_def by blast

lemma ready_objects_mono:
  "ready_objects cs objs rm \<Longrightarrow> set cs' \<subseteq> set cs \<Longrightarrow> set objs \<subseteq> set objs' \<Longrightarrow> rm \<subseteq> rm' \<Longrightarrow>
   ready_objects cs' objs' rm'"
  unfolding ready_objects_def by blast

lemma delete_copy_subset: "set (krepo_delete i cs) \<subseteq> set cs"
  by (auto simp: krepo_delete_def row_delete_def)

lemma delete_copy_id: "c \<in> set (krepo_delete i cs) \<Longrightarrow> k_id c \<noteq> i"
  by (auto simp: krepo_delete_def row_delete_def)

text \<open>A status update keeps what the invariant reads, apart from the status.\<close>

lemma set_status_rows:
  assumes "c \<in> set (krepo_set_status i st sz err now cs)"
  obtains d where "d \<in> set cs" "k_id c = k_id d" "k_storage c = k_storage d" "k_backup c = k_backup d"
    "k_key c = k_key d" "k_status c = (if k_id d = i then st else k_status d)"
  using assms that unfolding krepo_set_status_def by (auto split: if_splits)

lemma keyed_cong: "k_storage c = k_storage d \<Longrightarrow> k_backup c = k_backup d \<Longrightarrow> k_key c = k_key d \<Longrightarrow>
   keyed key_for c = keyed key_for d"
  by (simp add: keyed_def)

lemma rows_inv_status:
  assumes "rows_inv key_for cs" shows "rows_inv key_for (krepo_set_status i st sz err now cs)"
proof -
  let ?f = "\<lambda>c. if k_id c = i
     then c\<lparr>k_status := st, k_size := (case sz of None \<Rightarrow> k_size c | Some n \<Rightarrow> n), k_error := err, k_updated := now\<rparr> else c"
  have f: "k_id (?f c) = k_id c" "k_storage (?f c) = k_storage c" "k_backup (?f c) = k_backup c" "k_key (?f c) = k_key c" for c
    by simp_all
  have k: "keyed key_for (?f c) = keyed key_for c" for c by (rule keyed_cong) (rule f)+
  have "\<forall>c \<in> set cs. keyed key_for (?f c) \<and> k_storage (?f c) \<noteq> Some []"
    unfolding k f using assms by (simp add: rows_inv_def)
  moreover have "?f c = ?f d" if "c \<in> set cs" "d \<in> set cs"
    "k_id (?f c) = k_id (?f d) \<or> k_storage (?f c) \<noteq> None \<and> same_target (?f c) (?f d)" for c d
  proof -
    from that(3) have "k_id c = k_id d \<or> k_storage c \<noteq> None \<and> same_target c d"
      unfolding same_target_def f .
    with assms that(1,2) have "c = d" unfolding rows_inv_def by blast
    then show ?thesis by (rule arg_cong)
  qed
  ultimately show ?thesis unfolding rows_inv_def krepo_set_status_def set_map ball_simps by blast
qed

lemma held_status:
  assumes "held key_for cs c" shows "held key_for (krepo_set_status i st sz err now cs) c"
proof -
  have "k_id d = k_id c \<and> same_target d c \<and> k_key d = k_key c"
    if d: "d \<in> set (krepo_set_status i st sz err now cs)"
      and m: "k_id d = k_id c \<or> k_storage c \<noteq> None \<and> same_target d c" for d
  proof -
    from d obtain e where e: "e \<in> set cs" "k_id d = k_id e" "k_storage d = k_storage e" "k_backup d = k_backup e"
      "k_key d = k_key e" by (rule set_status_rows)
    with m have "k_id e = k_id c \<or> k_storage c \<noteq> None \<and> same_target e c" by (simp add: same_target_def)
    with assms e(1) have "k_id e = k_id c \<and> same_target e c \<and> k_key e = k_key c" unfolding held_def by blast
    with e show ?thesis by (simp add: same_target_def)
  qed
  with assms show ?thesis unfolding held_def by blast
qed

text \<open>A new row.\<close>

lemma rows_inv_add:
  assumes "rows_inv key_for cs" and "held key_for cs c" and "k_id c \<notin> k_id ` set cs"
  shows "rows_inv key_for (krepo_create c cs)"
proof -
  have id: "k_id d \<noteq> k_id c" if "d \<in> set cs" for d using assms(3) that by (metis image_eqI)
  have target: "\<not> same_target d c \<and> \<not> same_target c d" if "d \<in> set cs" "k_storage c \<noteq> None" for d
    using assms(2) id [OF that(1)] that unfolding held_def same_target_def by fastforce
  have storage: "same_target x y \<Longrightarrow> k_storage x = k_storage y" for x y by (simp add: same_target_def)
  show ?thesis using assms(1,2) id target storage
    unfolding rows_inv_def held_def krepo_create_def row_insert_def set_append list.set by (smt (verit) Un_iff insert_iff emptyE)
qed

lemma held_add:
  assumes "held key_for cs x" and "k_id c \<noteq> k_id x" and "k_storage x \<noteq> None \<longrightarrow> \<not> same_target c x"
  shows "held key_for (krepo_create c cs) x"
  using assms unfolding held_def krepo_create_def row_insert_def by auto

lemma held_add_self: "held key_for cs c \<Longrightarrow> held key_for (krepo_create c cs) c"
  unfolding held_def krepo_create_def row_insert_def set_append list.set same_target_def by blast

lemma ready_objects_add:
  assumes "ready_objects cs objs rm" and "k_storage c \<noteq> None \<longrightarrow> k_status c \<noteq> CReady"
  shows "ready_objects (krepo_create c cs) objs rm"
  using assms unfolding ready_objects_def krepo_create_def row_insert_def by auto

section \<open>Every step keeps the invariant\<close>

lemma found_at_target:
  assumes "krepo_find_at b (Some s) cs = Some e" and "s \<noteq> []"
  shows "e \<in> set cs \<and> k_backup e = b \<and> k_storage e = Some s"
  using assms by (auto simp: krepo_find_at_def find_Some_iff)

lemma not_found_at_target:
  assumes "krepo_find_at b (Some s) cs = None" and "s \<noteq> []" and "d \<in> set cs"
  shows "\<not> (k_backup d = b \<and> k_storage d = Some s)"
  using assms by (auto simp: krepo_find_at_def find_None_iff)

text \<open>The rows an upload starts from hold no row for its backup and storage.\<close>

definition upload_rows :: "bworld \<Rightarrow> backup \<Rightarrow> string \<Rightarrow> stored_copy list" where
  "upload_rows w b s = (case krepo_find_at (b_id b) (Some s) (bw_copies w) of
     None \<Rightarrow> bw_copies w | Some e \<Rightarrow> krepo_delete (k_id e) (bw_copies w))"

lemma upload_rows_subset: "set (upload_rows w b s) \<subseteq> set (bw_copies w)"
  using delete_copy_subset by (auto simp: upload_rows_def split: option.splits)

lemma upload_rows_free:
  assumes "rows_inv key_for (bw_copies w)" and "s \<noteq> []" and "d \<in> set (upload_rows w b s)"
  shows "\<not> (k_backup d = b_id b \<and> k_storage d = Some s)"
proof (cases "krepo_find_at (b_id b) (Some s) (bw_copies w)")
  case None
  with assms(2,3) show ?thesis by (auto simp: upload_rows_def dest: not_found_at_target)
next
  case (Some e)
  then have e: "e \<in> set (bw_copies w)" "k_backup e = b_id b" "k_storage e = Some s"
    using found_at_target [OF _ assms(2)] by auto
  from Some assms(3) have d: "d \<in> set (bw_copies w)" "k_id d \<noteq> k_id e"
    using delete_copy_subset delete_copy_id by (fastforce simp: upload_rows_def)+
  show ?thesis
  proof
    assume "k_backup d = b_id b \<and> k_storage d = Some s"
    with e have "k_storage d \<noteq> None \<and> same_target d e" by (simp add: same_target_def)
    with assms(1) d(1) e(1) have "d = e" unfolding rows_inv_def by blast
    with d(2) show False by simp
  qed
qed

lemma upload_begin_started:
  assumes "upload_begin key_for w b s kid now = (Inr (UploadStarted up), w')"
  shows "bw_copies w' = krepo_create (up_copy up) (upload_rows w b s)" and "bw_uploads w' = up # bw_uploads w"
    and "bw_objects w' = bw_objects w" and "bw_removing w' = bw_removing w"
    and "k_id (up_copy up) = kid" and "k_backup (up_copy up) = b_id b" and "k_storage (up_copy up) = Some s"
    and "k_key (up_copy up) = key_for s (backup_key b)" and "k_status (up_copy up) = CUploading" and "up_ok up"
  using assms
  by (auto simp: upload_begin_def upload_rows_def up_ok_def backup_key_def Let_def split_beta
           split: if_splits option.splits prod.splits)

lemma remote_inv_begin_upload:
  assumes inv: "remote_inv key_for w"
    and up: "upload_begin key_for w b s kid now = (Inr (UploadStarted up), w')" and s: "s \<noteq> []"
    and unused: "unused_copy_id w kid" and plain: "plain_id (b_server b)" "plain_id (b_id b)"
    and apart: "\<forall>c \<in> set (map up_copy (bw_uploads w) @ bw_removing w). \<not> same_target c (up_copy up)"
  shows "remote_inv key_for w'"
proof -
  let ?c = "up_copy up" let ?rows = "upload_rows w b s"
  note f = upload_begin_started [OF up]
  note sub = upload_rows_subset [of w b s]
  have rows: "rows_inv key_for (bw_copies w)" using inv by (simp add: remote_inv_def)
  have keyed: "keyed key_for ?c" using f plain by (auto simp: keyed_def)
  have ids: "kid \<notin> k_id ` set ?rows" using unused sub unfolding unused_copy_id_def by blast
  have free: "d \<in> set ?rows \<Longrightarrow> \<not> same_target d ?c" for d
    using upload_rows_free [OF rows s] f by (simp add: same_target_def)
  have held_c: "held key_for ?rows ?c"
  proof -
    have "k_id d \<noteq> kid" if "d \<in> set ?rows" for d using ids that by (metis image_eqI)
    with keyed free f(5,7) s show ?thesis unfolding held_def by simp
  qed
  have held_new: "held key_for (bw_copies w') ?c"
    using held_c unfolding f(1) by (rule held_add_self)
  have others: "held key_for (bw_copies w') x"
    if "held key_for (bw_copies w) x" "x \<in> set (map up_copy (bw_uploads w) @ bw_removing w)" for x
  proof -
    have "kid \<noteq> k_id x" using that(2) unused unfolding unused_copy_id_def by auto
    moreover have "\<not> same_target ?c x" using apart that(2) unfolding same_target_def by metis
    ultimately show ?thesis unfolding f(1)
      using held_add [OF held_subset [OF that(1) sub], of ?c] f(5) by simp
  qed
  have "rows_inv key_for (bw_copies w')"
    unfolding f(1) using rows_inv_add [OF rows_inv_subset [OF rows sub] held_c] ids f(5) by simp
  moreover have "ready_objects (bw_copies w') (bw_objects w') (k_id ` set (bw_removing w'))"
    unfolding f(1,3,4)
    by (rule ready_objects_add,
        rule ready_objects_mono [OF _ sub, of "bw_objects w" "k_id ` set (bw_removing w)"])
       (use inv f(9) in \<open>simp_all add: remote_inv_def\<close>)
  ultimately show ?thesis using inv others held_new f(10) unfolding remote_inv_def f(2,4) by simp
qed

lemma held_rows_clear:
  assumes "held key_for cs c" and "keys_apart key_for" and "rows_inv key_for cs"
    and "d \<in> set cs" and "k_storage d = Some s" and "k_storage c = Some s" and "k_key d = k_key c"
  shows "k_id d = k_id c"
proof -
  have "keyed key_for d" "keyed key_for c" using assms(1,3,4) by (simp_all add: rows_inv_def held_def)
  with assms have "same_target d c" using same_place_same_target by blast
  with assms(1,4,6) show ?thesis unfolding held_def by simp
qed

text \<open>Removing an object hits only the ready copy it belongs to.\<close>

lemma ready_objects_remove:
  assumes "ready_objects cs objs rm" and "held key_for cs c" and "keys_apart key_for" and "rows_inv key_for cs"
    and "k_storage c = Some s" and "k_id c \<in> rm \<or> k_id c \<notin> k_id ` set cs"
  shows "ready_objects cs (filter (\<lambda>x. x \<noteq> (s, k_key c)) objs) rm"
  unfolding ready_objects_def
proof (intro ballI allI impI)
  fix d t assume d: "d \<in> set cs" "k_storage d = Some t" "k_status d = CReady"
  with assms(1) have "(t, k_key d) \<in> set objs \<or> k_id d \<in> rm" unfolding ready_objects_def by blast
  moreover have "k_id d \<in> rm" if "(t, k_key d) = (s, k_key c)"
  proof -
    from that d have "k_id d = k_id c" using held_rows_clear [OF assms(2-4) d(1)] assms(5) by auto
    with assms(6) d(1) show ?thesis by (metis image_eqI)
  qed
  ultimately show "(t, k_key d) \<in> set (filter (\<lambda>x. x \<noteq> (s, k_key c)) objs) \<or> k_id d \<in> rm" by auto
qed

lemma remote_inv_status:
  assumes "remote_inv key_for w" and "st \<noteq> CReady"
  shows "remote_inv key_for (w\<lparr>bw_copies := krepo_set_status i st sz err now (bw_copies w)\<rparr>)"
proof -
  have "ready_objects (krepo_set_status i st sz err now (bw_copies w)) (bw_objects w) (k_id ` set (bw_removing w))"
    unfolding ready_objects_def
  proof (intro ballI allI impI)
    fix c s assume c: "c \<in> set (krepo_set_status i st sz err now (bw_copies w))" "k_storage c = Some s" "k_status c = CReady"
    from c(1) obtain d where "d \<in> set (bw_copies w)" "k_id c = k_id d" "k_storage c = k_storage d"
      "k_backup c = k_backup d" "k_key c = k_key d" "k_status c = (if k_id d = i then st else k_status d)"
      by (rule set_status_rows)
    with c(2,3) assms show "(s, k_key c) \<in> set (bw_objects w) \<or> k_id c \<in> k_id ` set (bw_removing w)"
      unfolding remote_inv_def ready_objects_def by (metis)
  qed
  with assms(1) show ?thesis by (simp add: remote_inv_def rows_inv_status held_status)
qed

lemma remote_inv_fewer_uploads:
  "remote_inv key_for w \<Longrightarrow> remote_inv key_for (upload_finish_row w up)"
  using set_remove1_subset [of up "bw_uploads w"] unfolding remote_inv_def upload_finish_row_def by (simp add: subset_iff)

lemma remote_inv_upload_ready:
  assumes inv: "remote_inv key_for w" and up: "up \<in> set (bw_uploads w)"
  shows "remote_inv key_for (w\<lparr>bw_objects := (up_storage up, up_key up) # bw_objects w,
     bw_copies := krepo_set_status (k_id (up_copy up)) CReady sz None now (bw_copies w)\<rparr>)"
proof -
  have ok: "up_ok up" "held key_for (bw_copies w) (up_copy up)" using inv up by (auto simp: remote_inv_def)
  have "ready_objects (krepo_set_status (k_id (up_copy up)) CReady sz None now (bw_copies w))
      ((up_storage up, up_key up) # bw_objects w) (k_id ` set (bw_removing w))"
    unfolding ready_objects_def
  proof (intro ballI allI impI)
    fix c s assume c: "c \<in> set (krepo_set_status (k_id (up_copy up)) CReady sz None now (bw_copies w))"
      "k_storage c = Some s" "k_status c = CReady"
    from c(1) obtain d where d: "d \<in> set (bw_copies w)" "k_id c = k_id d" "k_storage c = k_storage d"
      "k_backup c = k_backup d" "k_key c = k_key d"
      "k_status c = (if k_id d = k_id (up_copy up) then CReady else k_status d)"
      by (rule set_status_rows)
    show "(s, k_key c) \<in> set ((up_storage up, up_key up) # bw_objects w) \<or> k_id c \<in> k_id ` set (bw_removing w)"
    proof (cases "k_id d = k_id (up_copy up)")
      case True
      with ok(2) d(1) have "same_target d (up_copy up)" "k_key d = k_key (up_copy up)" unfolding held_def by blast+
      with ok(1) d c(2) show ?thesis by (simp add: up_ok_def same_target_def)
    next
      case False
      with inv c d show ?thesis unfolding remote_inv_def ready_objects_def by (metis list.set_intros(2))
    qed
  qed
  with inv show ?thesis by (simp add: remote_inv_def rows_inv_status held_status)
qed

lemma found_copy: "krepo_find i cs = None \<Longrightarrow> i \<notin> k_id ` set cs"
  by (auto simp: krepo_find_def row_find_None_iff)

lemma remote_inv_upload_orphan:
  assumes inv: "remote_inv key_for w" and "keys_apart key_for" and up: "up \<in> set (bw_uploads w)"
    and gone: "krepo_find (k_id (up_copy up)) (bw_copies w) = None"
  shows "remote_inv key_for (w\<lparr>bw_objects := filter (\<lambda>x. x \<noteq> (up_storage up, up_key up))
     ((up_storage up, up_key up) # bw_objects w)\<rparr>)"
proof -
  have ok: "k_storage (up_copy up) = Some (up_storage up)" "k_key (up_copy up) = up_key up"
    "held key_for (bw_copies w) (up_copy up)" using inv up by (auto simp: remote_inv_def up_ok_def)
  have "ready_objects (bw_copies w) (filter (\<lambda>x. x \<noteq> (up_storage up, k_key (up_copy up))) (bw_objects w))
      (k_id ` set (bw_removing w))"
    using inv found_copy [OF gone]
    by (intro ready_objects_remove [OF _ ok(3) assms(2) _ ok(1)]) (simp_all add: remote_inv_def)
  with inv ok(2) show ?thesis by (simp add: remote_inv_def)
qed

lemma remote_inv_end_upload:
  assumes "remote_inv key_for w" and "keys_apart key_for" and "up \<in> set (bw_uploads w)"
  shows "remote_inv key_for (snd (upload_end w up out now))"
proof (cases out)
  case (UploadError msg)
  then show ?thesis using assms(1)
    by (simp add: upload_end_def Let_def remote_inv_fewer_uploads remote_inv_status)
next
  case (UploadedBytes n)
  show ?thesis
  proof (cases "krepo_find (k_id (up_copy up)) (bw_copies w) = None")
    case True
    from remote_inv_status [OF remote_inv_upload_orphan [OF assms True], of CFailed] UploadedBytes True
    show ?thesis by (simp add: upload_end_def Let_def remote_inv_fewer_uploads)
  next
    case False
    then obtain y where "krepo_find (k_id (up_copy up)) (bw_copies w) = Some y" by auto
    with remote_inv_upload_ready [OF assms(1,3)] UploadedBytes
    show ?thesis by (simp add: upload_end_def Let_def remote_inv_fewer_uploads)
  qed
qed

lemma remote_inv_begin_remove:
  assumes "remote_inv key_for w" and "c \<in> set (bw_copies w)"
  shows "remote_inv key_for (copy_remove_begin w c)"
proof -
  have "held key_for (bw_copies w) c"
    using assms unfolding remote_inv_def rows_inv_def held_def same_target_def by metis
  moreover have "ready_objects (bw_copies w) (bw_objects w) (insert (k_id c) (k_id ` set (bw_removing w)))"
    using assms(1) unfolding remote_inv_def ready_objects_def by blast
  ultimately show ?thesis using assms(1) by (simp add: remote_inv_def copy_remove_begin_def)
qed

lemma remote_inv_remove_archive:
  assumes "remote_inv key_for w" and "keys_apart key_for" and "c \<in> set (bw_removing w)"
  shows "remote_inv key_for (copy_remove_archive w c)"
proof (cases "k_storage c")
  case None
  with assms(1) show ?thesis by (simp add: copy_remove_archive_def remote_inv_def)
next
  case (Some s)
  have held: "held key_for (bw_copies w) c" using assms(1,3) by (simp add: remote_inv_def)
  then have "s \<noteq> []" using Some by (simp add: held_def)
  moreover have "ready_objects (bw_copies w) (filter (\<lambda>x. x \<noteq> (s, k_key c)) (bw_objects w)) (k_id ` set (bw_removing w))"
    by (rule ready_objects_remove [OF _ held assms(2) _ Some]) (use assms in \<open>auto simp: remote_inv_def\<close>)
  ultimately show ?thesis using assms(1) Some by (simp add: copy_remove_archive_def remote_inv_def)
qed

lemma copy_remove_end_fields:
  "bw_copies (snd (copy_remove_end w c)) = krepo_delete (k_id c) (bw_copies w)"
  "bw_uploads (snd (copy_remove_end w c)) = bw_uploads w"
  "bw_objects (snd (copy_remove_end w c)) = bw_objects w"
  "bw_removing (snd (copy_remove_end w c)) = remove1 c (bw_removing w)"
  by (simp_all add: copy_remove_end_def Let_def)

lemma removing_rest:
  assumes "k_id d \<noteq> k_id c" and "k_id d \<in> k_id ` set rm"
  shows "k_id d \<in> k_id ` set (remove1 c rm)"
proof -
  from assms(2) obtain e where e: "e \<in> set rm" "k_id e = k_id d" by auto
  with assms(1) have "e \<in> set (remove1 c rm)" by (metis in_set_remove1)
  with e(2) show ?thesis by (metis image_eqI)
qed

lemma remote_inv_end_remove:
  assumes "remote_inv key_for w" and "c \<in> set (bw_removing w)"
  shows "remote_inv key_for (snd (copy_remove_end w c))"
proof -
  let ?cs = "krepo_delete (k_id c) (bw_copies w)" and ?rm = "remove1 c (bw_removing w)"
  note sub = delete_copy_subset [of "k_id c" "bw_copies w"]
  have "rows_inv key_for ?cs" using rows_inv_subset [OF _ sub] assms(1) by (simp add: remote_inv_def)
  moreover have "\<forall>u \<in> set (bw_uploads w). up_ok u \<and> held key_for ?cs (up_copy u)"
    using held_subset [OF _ sub] assms(1) by (simp add: remote_inv_def)
  moreover have "\<forall>d \<in> set ?rm. held key_for ?cs d"
    using held_subset [OF _ sub] assms(1) set_remove1_subset [of c "bw_removing w"] unfolding remote_inv_def by blast
  moreover have "ready_objects ?cs (bw_objects w) (k_id ` set ?rm)"
    unfolding ready_objects_def
  proof (intro ballI allI impI)
    fix d s assume d: "d \<in> set ?cs" "k_storage d = Some s" "k_status d = CReady"
    then have "(s, k_key d) \<in> set (bw_objects w) \<or> k_id d \<in> k_id ` set (bw_removing w)"
      using assms(1) sub unfolding remote_inv_def ready_objects_def by blast
    with removing_rest [OF delete_copy_id [OF d(1)]]
    show "(s, k_key d) \<in> set (bw_objects w) \<or> k_id d \<in> k_id ` set ?rm" by blast
  qed
  ultimately show ?thesis unfolding remote_inv_def copy_remove_end_fields by blast
qed

lemma remote_inv_fail_remove:
  assumes inv: "remote_inv key_for w" and c: "c \<in> set (bw_removing w)"
    and obj: "\<forall>s. k_storage c = Some s \<longrightarrow> (s, k_key c) \<in> set (bw_objects w)"
  shows "remote_inv key_for (w\<lparr>bw_removing := remove1 c (bw_removing w)\<rparr>)"
proof -
  let ?rm = "remove1 c (bw_removing w)"
  have "\<forall>d \<in> set ?rm. held key_for (bw_copies w) d"
    using inv set_remove1_subset [of c "bw_removing w"] unfolding remote_inv_def by blast
  moreover have "ready_objects (bw_copies w) (bw_objects w) (k_id ` set ?rm)"
    unfolding ready_objects_def
  proof (intro ballI allI impI)
    fix d s assume d: "d \<in> set (bw_copies w)" "k_storage d = Some s" "k_status d = CReady"
    show "(s, k_key d) \<in> set (bw_objects w) \<or> k_id d \<in> k_id ` set ?rm"
    proof (cases "k_id d = k_id c")
      case True
      with inv c d(1) have "same_target d c" "k_key d = k_key c" unfolding remote_inv_def held_def by blast+
      with obj d(2) show ?thesis by (simp add: same_target_def)
    next
      case False
      with removing_rest d inv show ?thesis unfolding remote_inv_def ready_objects_def by blast
    qed
  qed
  ultimately show ?thesis using inv by (simp add: remote_inv_def)
qed

lemma remote_inv_add_local:
  assumes "remote_inv key_for w" and "unused_copy_id w kid"
  shows "remote_inv key_for (copies_add_local w b key sz kid now)"
proof -
  let ?c = "\<lparr>k_id = kid, k_backup = b_id b, k_storage = None, k_key = key, k_size = sz, k_status = CReady,
     k_error = None, k_created = now, k_updated = now\<rparr>"
  have fresh: "kid \<notin> k_id ` set (bw_copies w)" using assms(2) by (simp add: unused_copy_id_def)
  then have "k_id d \<noteq> kid" if "d \<in> set (bw_copies w)" for d using that by (metis image_eqI)
  then have "held key_for (bw_copies w) ?c" by (simp add: held_def keyed_def)
  then have "rows_inv key_for (krepo_create ?c (bw_copies w))"
    using assms(1) fresh by (intro rows_inv_add) (simp_all add: remote_inv_def)
  moreover have "held key_for (krepo_create ?c (bw_copies w)) x"
    if "held key_for (bw_copies w) x" "x \<in> set (map up_copy (bw_uploads w) @ bw_removing w)" for x
  proof -
    have "kid \<noteq> k_id x" using that(2) assms(2) unfolding unused_copy_id_def by auto
    then show ?thesis by (intro held_add [OF that(1)]) (auto simp: same_target_def)
  qed
  moreover have "ready_objects (krepo_create ?c (bw_copies w)) (bw_objects w) (k_id ` set (bw_removing w))"
    using assms(1) by (intro ready_objects_add) (simp_all add: remote_inv_def)
  ultimately show ?thesis using assms(1) by (simp add: remote_inv_def copies_add_local_def)
qed

lemma remote_inv_pin:
  assumes "remote_inv key_for w" and "backup_set_pinned w i p now = Inr w'"
  shows "remote_inv key_for w'"
proof -
  have "w' = w\<lparr>bw_backups := brepo_set_pinned i p now (bw_backups w)\<rparr>"
    using assms(2) by (auto simp: backup_set_pinned_def require_backup_def split: option.splits)
  with assms(1) show ?thesis by (simp add: remote_inv_def)
qed

lemma remove_archive_removing: "bw_removing (copy_remove_archive w c) = bw_removing w"
  by (simp add: copy_remove_archive_def split: option.splits)

lemma remote_inv_lease: "remote_inv key_for w \<Longrightarrow> remote_inv key_for (w\<lparr>bw_leases := ls\<rparr>)"
  by (simp add: remote_inv_def)

lemma remote_inv_step:
  assumes "bk_step key_for True w w'" and "keys_apart key_for" and "remote_inv key_for w"
  shows "remote_inv key_for w'"
  using assms(1)
proof cases
  case (begin_upload b s kid now up)
  then show ?thesis using remote_inv_begin_upload [OF assms(3)] by blast
next
  case (end_upload up out now)
  then show ?thesis using remote_inv_end_upload [OF assms(3,2)] by blast
next
  case (begin_remove c)
  then show ?thesis using remote_inv_begin_remove [OF assms(3)] by blast
next
  case (remove_archive c)
  then show ?thesis using remote_inv_remove_archive [OF assms(3,2)] by blast
next
  case (end_remove c)
  then show ?thesis
    using remote_inv_end_remove [OF remote_inv_remove_archive [OF assms(3,2)]] remove_archive_removing by simp
next
  case (fail_remove c)
  then show ?thesis using remote_inv_fail_remove [OF assms(3)] by blast
next
  case (add_local kid b key sz now)
  then show ?thesis using remote_inv_add_local [OF assms(3)] by blast
next
  case (lease op)
  then show ?thesis using remote_inv_lease [OF assms(3)] by blast
next
  case (pin i p now)
  then show ?thesis using remote_inv_pin [OF assms(3)] by blast
qed

lemma remote_inv_reach:
  assumes "bk_reach key_for True w0 w" and "keys_apart key_for" and "remote_inv key_for w0"
  shows "remote_inv key_for w"
  using assms by induction (auto intro: remote_inv_step)

end
