(* ===== verification/Backup_Properties.thy ===== *)
theory Backup_Properties
  imports Backup_Steps
begin

text \<open>
  What the backup services promise: retention, uploads, removals, recovery, storages and orphans.
\<close>

section \<open>Retention\<close>

definition limits_set :: "retention_limits \<Rightarrow> bool" where
  "limits_set l \<longleftrightarrow> keep_count l \<noteq> None \<or> keep_days l \<noteq> None"

lemma plan_retention_subset: "set (plan_retention cs l now) \<subseteq> set cs"
  using retention_filter_subset [of _ _ _ _ "newest_first cs"] by (simp add: plan_retention_def newest_first_def)

lemma set_newest_first [simp]: "set (newest_first cs) = set cs"
  by (simp add: newest_first_def)

lemma distinct_newest_first [simp]: "distinct (newest_first cs) = distinct cs"
  by (simp add: newest_first_def)

lemma candidate_facts:
  assumes "p \<in> set (retention_candidates w sid st)"
  shows "pl_copy p \<in> set (bw_copies w)" and "k_storage (pl_copy p) = st" and "k_status (pl_copy p) = CReady"
    and "\<not> is_leased (bw_leases w) (k_id (pl_copy p))" and "pl_backup p \<in> set (bw_backups w)"
    and "b_status (pl_backup p) = BCompleted" and "b_server (pl_backup p) = sid"
    and "k_backup (pl_copy p) = b_id (pl_backup p)" and "rc_pinned p = b_pinned (pl_backup p)"
    and "rc_created p = b_created (pl_backup p)" and "rc_id p = k_id (pl_copy p)"
proof -
  let ?records = "filter (\<lambda>b. b_status b = BCompleted) (brepo_find_by_server sid (bw_backups w))"
  from assms obtain c b where "c \<in> set (bw_copies w)" "k_storage c = st" "k_status c = CReady"
      "\<not> is_leased (bw_leases w) (k_id c)" and f: "row_find b_id (k_backup c) ?records = Some b"
      and p: "p = \<lparr>rc_id = k_id c, rc_created = b_created b, rc_pinned = b_pinned b, pl_copy = c, pl_backup = b\<rparr>"
    by (auto simp: retention_candidates_def krepo_find_by_backups_def Let_def split: option.splits)
  moreover from row_find_Some_in [OF f] have "b \<in> set ?records" "b_id b = k_backup c" by auto
  ultimately show "pl_copy p \<in> set (bw_copies w)" "k_storage (pl_copy p) = st" "k_status (pl_copy p) = CReady"
    "\<not> is_leased (bw_leases w) (k_id (pl_copy p))" "pl_backup p \<in> set (bw_backups w)"
    "b_status (pl_backup p) = BCompleted" "b_server (pl_backup p) = sid"
    "k_backup (pl_copy p) = b_id (pl_backup p)" "rc_pinned p = b_pinned (pl_backup p)"
    "rc_created p = b_created (pl_backup p)" "rc_id p = k_id (pl_copy p)"
    by (auto simp: brepo_find_by_server_def)
qed

lemma distinct_candidates:
  assumes "rows_ok k_id (bw_copies w)" shows "distinct (retention_candidates w sid st)"
proof -
  let ?records = "filter (\<lambda>b. b_status b = BCompleted) (brepo_find_by_server sid (bw_backups w))"
  let ?cs = "filter (\<lambda>c. k_storage c = st \<and> k_status c = CReady \<and> \<not> is_leased (bw_leases w) (k_id c))
      (krepo_find_by_backups (map b_id ?records) (bw_copies w))"
  let ?f = "\<lambda>c. case row_find b_id (k_backup c) ?records of None \<Rightarrow> []
     | Some b \<Rightarrow> [\<lparr>rc_id = k_id c, rc_created = b_created b, rc_pinned = b_pinned b, pl_copy = c, pl_backup = b\<rparr>]"
  have "distinct (bw_copies w)" using assms by (simp add: rows_ok_def distinct_map)
  then have d: "distinct ?cs" by (simp add: krepo_find_by_backups_def)
  have "distinct (concat (map ?f cs)) \<and> (\<forall>p \<in> set (concat (map ?f cs)). pl_copy p \<in> set cs)" if "distinct cs" for cs
    using that by (induction cs) (auto split: option.splits)
  with d show ?thesis by (simp add: retention_candidates_def Let_def)
qed

text \<open>The newest candidate is never planned.\<close>

lemma newest_not_planned:
  assumes "distinct cs" and "cs \<noteq> []"
  obtains c where "c \<in> set cs" and "\<forall>d \<in> set cs. rc_created d \<le> rc_created c"
    and "c \<notin> set (plan_retention cs l now)"
proof -
  from assms(2) have "newest_first cs \<noteq> []" by (metis set_newest_first set_empty)
  then obtain c rest where n: "newest_first cs = c # rest" by (meson neq_Nil_conv)
  then have "c \<notin> set rest" using assms(1) by (metis distinct.simps(2) distinct_newest_first)
  moreover have "\<forall>d \<in> set cs. rc_created d \<le> rc_created c"
    using newest_first_sorted [of cs] set_newest_first [of cs] unfolding n by auto
  moreover have "plan_retention cs l now = [] \<or> (\<exists>k. plan_retention cs l now =
      retention_filter (keep_count l) (retention_cutoff l now) False k rest)"
    by (auto simp: plan_retention_def n)
  ultimately show ?thesis using that [of c] retention_filter_subset n set_newest_first [of cs]
    by (metis empty_iff empty_set list.set_intros(1) subsetD)
qed

lemma planned_candidate:
  assumes "p \<in> set (retention_plan w sid st l now)"
  shows "p \<in> set (retention_candidates w sid st) \<and> \<not> rc_pinned p"
proof
  show "p \<in> set (retention_candidates w sid st)"
    using assms plan_retention_subset unfolding retention_plan_def by blast
  show "\<not> rc_pinned p"
    using assms by (auto simp: retention_plan_def plan_retention_def dest: retention_filter_unpinned split: if_splits)
qed

text \<open>
  C25: Retention only ever plans the removal of copies it may remove: finished copies in the
  location it was asked about, of completed, unpinned backups of this server, that nobody
  reads; and as long as a candidate exists, a newest one survives.
\<close>

theorem retention_plan_safe:
  assumes "rows_ok k_id (bw_copies w)"
  shows "(\<forall>p \<in> set (retention_plan w sid st l now).
      pl_copy p \<in> set (bw_copies w) \<and> k_storage (pl_copy p) = st \<and> k_status (pl_copy p) = CReady \<and>
      \<not> is_leased (bw_leases w) (k_id (pl_copy p)) \<and>
      pl_backup p \<in> set (bw_backups w) \<and> b_id (pl_backup p) = k_backup (pl_copy p) \<and>
      b_server (pl_backup p) = sid \<and> b_status (pl_backup p) = BCompleted \<and> \<not> b_pinned (pl_backup p)) \<and>
    (retention_candidates w sid st \<noteq> [] \<longrightarrow>
      (\<exists>c \<in> set (retention_candidates w sid st). c \<notin> set (retention_plan w sid st l now) \<and>
         (\<forall>d \<in> set (retention_candidates w sid st). b_created (pl_backup d) \<le> b_created (pl_backup c))))"
proof -
  let ?cs = "retention_candidates w sid st"
  have plan: "p \<in> set ?cs \<and> \<not> rc_pinned p" if "p \<in> set (retention_plan w sid st l now)" for p
    using that by (rule planned_candidate)
  have safe: "\<forall>p \<in> set (retention_plan w sid st l now).
      pl_copy p \<in> set (bw_copies w) \<and> k_storage (pl_copy p) = st \<and> k_status (pl_copy p) = CReady \<and>
      \<not> is_leased (bw_leases w) (k_id (pl_copy p)) \<and>
      pl_backup p \<in> set (bw_backups w) \<and> b_id (pl_backup p) = k_backup (pl_copy p) \<and>
      b_server (pl_backup p) = sid \<and> b_status (pl_backup p) = BCompleted \<and> \<not> b_pinned (pl_backup p)"
  proof
    fix p assume "p \<in> set (retention_plan w sid st l now)"
    from plan [OF this] have p: "p \<in> set ?cs" "\<not> rc_pinned p" by simp_all
    note f = candidate_facts [OF p(1)]
    from f p(2) show "pl_copy p \<in> set (bw_copies w) \<and> k_storage (pl_copy p) = st \<and>
      k_status (pl_copy p) = CReady \<and> \<not> is_leased (bw_leases w) (k_id (pl_copy p)) \<and>
      pl_backup p \<in> set (bw_backups w) \<and> b_id (pl_backup p) = k_backup (pl_copy p) \<and>
      b_server (pl_backup p) = sid \<and> b_status (pl_backup p) = BCompleted \<and> \<not> b_pinned (pl_backup p)"
      by simp
  qed
  have newest: "\<exists>c \<in> set ?cs. c \<notin> set (retention_plan w sid st l now) \<and>
      (\<forall>d \<in> set ?cs. b_created (pl_backup d) \<le> b_created (pl_backup c))" if ne: "?cs \<noteq> []"
  proof -
    from newest_not_planned [OF distinct_candidates [OF assms] ne] obtain c where
      c: "c \<in> set ?cs" "\<forall>d \<in> set ?cs. rc_created d \<le> rc_created c" "c \<notin> set (plan_retention ?cs l now)" .
    have "b_created (pl_backup d) \<le> b_created (pl_backup c)" if "d \<in> set ?cs" for d
      using bspec [OF c(2) that] candidate_facts(10) [OF that] candidate_facts(10) [OF c(1)] by simp
    with c(1,3) show ?thesis unfolding retention_plan_def by blast
  qed
  show ?thesis using safe newest by blast
qed

text \<open>Example data.\<close>

definition bex_backup :: "string \<Rightarrow> int \<Rightarrow> bool \<Rightarrow> backup" where
  "bex_backup i created pinned = \<lparr>b_id = i, b_name = i, b_description = None, b_type = BFull,
     b_status = BCompleted, b_created = created, b_updated = created, b_file_count = 1, b_total_size = 1,
     b_server = ''s'', b_owner = None, b_format = FZip, b_ratio = None, b_include = [], b_exclude = [],
     b_pinned = pinned, b_checksum = None\<rparr>"

definition bex_copy :: "string \<Rightarrow> string \<Rightarrow> stored_copy" where
  "bex_copy i b = \<lparr>k_id = i, k_backup = b, k_storage = None, k_key = local_key_for ''s'' b FZip, k_size = 1,
     k_status = CReady, k_error = None, k_created = 0, k_updated = 0\<rparr>"

definition bex_world :: bworld where
  "bex_world = \<lparr>bw_backups = [bex_backup ''b1'' 1 False, bex_backup ''b2'' 2 False, bex_backup ''b3'' 3 True,
       bex_backup ''b4'' 4 False],
     bw_copies = [bex_copy ''c1'' ''b1'', bex_copy ''c2'' ''b2'', bex_copy ''c3'' ''b3'', bex_copy ''c4'' ''b4''],
     bw_leases = leases_init,
     bw_archives = [local_key_for ''s'' ''b1'' FZip, local_key_for ''s'' ''b2'' FZip,
       local_key_for ''s'' ''b3'' FZip, local_key_for ''s'' ''b4'' FZip],
     bw_objects = [], bw_uploads = [], bw_removing = [], bw_retaining = [], bw_storages = [''r''],
     bw_policies = [], bw_defaults = None\<rparr>"

definition bex_limits :: retention_limits where
  "bex_limits = \<lparr>keep_count = Some 1, keep_days = None\<rparr>"

lemma bex_rows_ok: "rows_ok k_id (bw_copies bex_world)"
  by (simp add: bex_world_def bex_copy_def rows_ok_def)

lemma bex_plan: "map (\<lambda>p. k_id (pl_copy p)) (retention_plan bex_world ''s'' None bex_limits 10) = [''c2'', ''c1'']"
  by code_simp

theorem retention_plan_safe_witness:
  "map (\<lambda>p. k_id (pl_copy p)) (retention_plan bex_world ''s'' None bex_limits 10) = [''c2'', ''c1''] \<and>
   list_all (\<lambda>p. \<not> b_pinned (pl_backup p)) (retention_plan bex_world ''s'' None bex_limits 10)"
  using retention_plan_safe [OF bex_rows_ok, of "''s''" None bex_limits 10] bex_plan
  unfolding list_all_iff by blast

lemma plan_limited: "limits_set l \<Longrightarrow> plan_retention cs l now =
   retention_filter (keep_count l) (retention_cutoff l now) True 0 (newest_first cs)"
  by (auto simp: plan_retention_def limits_set_def)

text \<open>The planned candidates are the oldest unpinned ones.\<close>

lemma plan_is_suffix:
  obtains ps where "unpinned (newest_first cs) = ps @ plan_retention cs l now"
proof (cases "limits_set l")
  case False
  then show ?thesis using that [of "unpinned (newest_first cs)"] by (simp add: plan_retention_def limits_set_def)
next
  case True
  from retention_filter_suffix [OF newest_first_sorted, of cs "keep_count l" "retention_cutoff l now" True 0]
  obtain ps where "unpinned (newest_first cs) =
      ps @ retention_filter (keep_count l) (retention_cutoff l now) True 0 (newest_first cs)" by blast
  then show ?thesis using that [of ps] by (simp only: plan_limited [OF True])
qed

lemma kept_unpinned:
  assumes "distinct cs" and "unpinned (newest_first cs) = ps @ plan_retention cs l now"
  shows "set (unpinned (filter (\<lambda>c. c \<notin> set (plan_retention cs l now)) cs)) = set ps"
    and "length (unpinned (filter (\<lambda>c. c \<notin> set (plan_retention cs l now)) cs)) = length ps"
proof -
  let ?plan = "plan_retention cs l now" and ?kept = "filter (\<lambda>c. c \<notin> set (plan_retention cs l now)) cs"
  have d: "distinct (ps @ ?plan)" using assms unfolding assms(2) [symmetric] by (simp add: unpinned_def)
  have "set (ps @ ?plan) = {c \<in> set cs. \<not> rc_pinned c}"
    unfolding assms(2) [symmetric] by (auto simp: unpinned_def)
  then have u: "{c \<in> set cs. \<not> rc_pinned c} = set ps \<union> set ?plan" by simp
  have "set (unpinned ?kept) = {c \<in> set cs. \<not> rc_pinned c} - set ?plan"
    by (auto simp: unpinned_def)
  also have "\<dots> = set ps" using d unfolding u by auto
  finally show eq: "set (unpinned ?kept) = set ps" .
  have "distinct (unpinned ?kept)" using assms(1) by (simp add: unpinned_def)
  then have "length (unpinned ?kept) = card (set ps)" by (metis distinct_card eq)
  also have "\<dots> = length ps" using d by (simp add: distinct_card)
  finally show "length (unpinned ?kept) = length ps" .
qed

lemma plan_count:
  assumes "unpinned (newest_first cs) = ps @ plan_retention cs l now" and "keep_count l = Some k"
  shows "int (length ps) \<le> max 1 k"
proof (cases "newest_first cs")
  case Nil
  with assms(1) show ?thesis by (simp add: unpinned_def)
next
  case (Cons c rest)
  let ?n = "if rc_pinned c then 0 else 1 :: int"
  have plan: "plan_retention cs l now = retention_filter (keep_count l) (retention_cutoff l now) False ?n rest"
    using assms(2) by (simp add: plan_retention_def Cons)
  have "int (length (unpinned rest)) - int (length (plan_retention cs l now)) \<le> max 0 (k - ?n)"
    unfolding plan by (rule retention_filter_count [OF assms(2)])
  moreover have "int (length ps) = ?n + int (length (unpinned rest)) - int (length (plan_retention cs l now))"
    using arg_cong [OF assms(1), of length] unfolding Cons by (simp add: unpinned_def split: if_splits)
  ultimately show ?thesis by (simp split: if_splits)
qed

lemma plan_too_old:
  assumes "keep_days l = Some d" and "c \<in> set cs" and "\<not> rc_pinned c" and "rc_created c < now - d * day_ms"
    and "c \<notin> set (plan_retention cs l now)" and "x \<in> set cs"
  shows "rc_created x \<le> rc_created c"
proof -
  obtain y rest where n: "newest_first cs = y # rest"
    using assms(2) set_newest_first [of cs] by (metis list.exhaust list.set(1) empty_iff)
  have plan: "plan_retention cs l now =
      retention_filter (keep_count l) (retention_cutoff l now) False (if rc_pinned y then 0 else 1) rest"
    using assms(1) by (simp add: plan_retention_def n)
  have "c \<notin> set rest"
    using retention_filter_too_old [of c rest "retention_cutoff l now" "now - d * day_ms"] assms(1,3-5)
    unfolding plan by (auto simp: retention_cutoff_def)
  with assms(2) set_newest_first [of cs] have "c = y" unfolding n by auto
  with assms(6) newest_first_sorted [of cs] set_newest_first [of cs] show ?thesis unfolding n by auto
qed

text \<open>
  A retention run brings a location inside its limits: of the candidates it does not plan, at
  most one or \<open>keepCount\<close> (the larger) are unpinned; an unpinned one older than \<open>keepDays\<close>
  stays only when no candidate is newer; what is kept unpinned is never older than what is
  planned; and without limits nothing is planned.
\<close>

theorem retention_limits_met:
  assumes "distinct cs"
  shows "(let kept = filter (\<lambda>c. c \<notin> set (plan_retention cs l now)) cs in
     (\<forall>k. keep_count l = Some k \<longrightarrow> int (length (unpinned kept)) \<le> max 1 k) \<and>
     (\<forall>d c. keep_days l = Some d \<and> c \<in> set (unpinned kept) \<and> rc_created c < now - d * day_ms \<longrightarrow>
        (\<forall>x \<in> set cs. rc_created x \<le> rc_created c)) \<and>
     (\<forall>c \<in> set (unpinned kept). \<forall>p \<in> set (plan_retention cs l now). rc_created p \<le> rc_created c) \<and>
     (\<not> limits_set l \<longrightarrow> kept = cs))"
proof -
  let ?plan = "plan_retention cs l now" and ?kept = "filter (\<lambda>c. c \<notin> set (plan_retention cs l now)) cs"
  obtain ps where ps: "unpinned (newest_first cs) = ps @ ?plan" by (rule plan_is_suffix)
  note kept = kept_unpinned [OF assms ps]
  have "sorted_wrt (\<lambda>a b. rc_created a \<ge> rc_created b) (ps @ ?plan)"
    unfolding ps [symmetric] unpinned_def by (rule sorted_wrt_filter [OF newest_first_sorted])
  then have older: "\<forall>c \<in> set (unpinned ?kept). \<forall>p \<in> set ?plan. rc_created p \<le> rc_created c"
    unfolding kept(1) by (simp add: sorted_wrt_append)
  have old: "rc_created x \<le> rc_created c"
    if "keep_days l = Some d" "c \<in> set (unpinned ?kept)" "rc_created c < now - d * day_ms" "x \<in> set cs" for d c x
    by (rule plan_too_old [OF that(1) _ _ that(3) _ that(4)]) (use that(2) in \<open>simp_all add: unpinned_def\<close>)
  have all: "\<not> limits_set l \<longrightarrow> ?kept = cs" by (simp add: plan_retention_def limits_set_def)
  have count: "\<forall>k. keep_count l = Some k \<longrightarrow> int (length (unpinned ?kept)) \<le> max 1 k"
    unfolding kept(2) using plan_count [OF ps] by blast
  show ?thesis unfolding Let_def using count old older all by blast
qed

theorem retention_limits_met_witness:
  "let cs = [\<lparr>rc_id = ''a'', rc_created = 1, rc_pinned = False\<rparr>, \<lparr>rc_id = ''b'', rc_created = 2, rc_pinned = False\<rparr>];
     kept = filter (\<lambda>c. c \<notin> set (plan_retention cs bex_limits 10)) cs in
   int (length (unpinned kept)) \<le> 1"
  using retention_limits_met [of "[\<lparr>rc_id = ''a'', rc_created = 1, rc_pinned = False\<rparr>,
     \<lparr>rc_id = ''b'', rc_created = 2, rc_pinned = False\<rparr>]" bex_limits 10]
  by (simp add: Let_def bex_limits_def)

text \<open>
  Retention settles in one run: planned again, with the planned candidates gone, nothing more is
  planned (at the same time of day, with the same limits).
\<close>

theorem retention_settles:
  assumes "distinct cs"
  shows "plan_retention (filter (\<lambda>c. c \<notin> set (plan_retention cs l now)) cs) l now = []"
proof (cases "limits_set l")
  case False
  then show ?thesis by (simp add: plan_retention_def limits_set_def)
next
  case True
  let ?n = "newest_first cs" and ?f = "retention_filter (keep_count l) (retention_cutoff l now) True 0"
  have plan: "plan_retention xs l now = ?f (newest_first xs)" for xs :: "'a candidate_scheme list"
    by (rule plan_limited [OF True])
  have "newest_first (filter P cs) = filter P ?n" for P
    by (simp add: newest_first_def filter_sort)
  then show ?thesis unfolding plan using retention_filter_again [of ?n] assms by simp
qed

theorem retention_settles_witness:
  "plan_retention (filter (\<lambda>c. c \<notin> set (plan_retention (retention_candidates bex_world ''s'' None) bex_limits 10))
     (retention_candidates bex_world ''s'' None)) bex_limits 10 = []"
  using retention_settles [OF distinct_candidates [OF bex_rows_ok]] .

section \<open>Holds taken while retention runs\<close>

datatype hold = HoldLease string | HoldPin string

fun take_hold :: "int \<Rightarrow> hold \<Rightarrow> bworld \<Rightarrow> bworld" where
  "take_hold now (HoldLease cid) w = w\<lparr>bw_leases := snd (lease_take (bw_leases w) cid)\<rparr>"
| "take_hold now (HoldPin b) w = (case backup_set_pinned w b True now of Inl _ \<Rightarrow> w | Inr w' \<Rightarrow> w')"

lemma take_hold_copies [simp]: "bw_copies (take_hold now h w) = bw_copies w"
  by (cases h) (auto simp: backup_set_pinned_def require_backup_def split: option.splits)

lemma copy_remove_fields [simp]:
  "bw_copies (copy_remove w c) = krepo_delete (k_id c) (bw_copies w)"
  "bw_leases (copy_remove w c) = bw_leases w"
  by (simp_all add: copy_remove_def copy_remove_end_def copy_remove_archive_def copy_remove_begin_def Let_def
        split: option.splits)

lemma prune_loop_copies:
  "bw_copies (prune_loop cs (map (take_hold now) hs) w) = filter (\<lambda>c. k_id c \<notin> k_id ` set cs) (bw_copies w)"
proof (induction cs arbitrary: w hs)
  case Nil
  then show ?case by simp
next
  case step: (Cons c cs)
  show ?case
  proof (cases hs)
    case Nil
    with step [of "[]"] show ?thesis
      by (simp add: krepo_delete_def row_delete_def conj_commute)
  next
    case (Cons h hs')
    with step [of hs'] show ?thesis
      by (simp add: krepo_delete_def row_delete_def conj_commute)
  qed
qed

text \<open>
  A retention run removes exactly the copies it planned before it started: a lease or a pin
  taken while it runs, the copies being read or pinned by then, does not save them.
\<close>

theorem prune_ignores_later_holds:
  "bw_copies (prune_loop (map pl_copy (retention_plan w sid st l now)) (map (take_hold now) hs) w) =
     filter (\<lambda>c. k_id c \<notin> (\<lambda>p. k_id (pl_copy p)) ` set (retention_plan w sid st l now)) (bw_copies w)"
  by (simp add: prune_loop_copies image_image)

section \<open>Recovery after a restart\<close>

lemma recover_backups_fields:
  "bw_copies (foldl (recover_backup now) w bs) = bw_copies w"
  by (induction bs arbitrary: w) (simp_all add: recover_backup_def)

lemma recover_copies_fields:
  "bw_backups (foldl (recover_copy now) w cs) = bw_backups w"
  "bw_archives (foldl (recover_copy now) w cs) = bw_archives w"
  by (induction cs arbitrary: w) (simp_all add: recover_copy_def)

definition failed_backup :: "int \<Rightarrow> backup \<Rightarrow> backup" where
  "failed_backup now b = b\<lparr>b_status := BFailed, b_updated := now\<rparr>"

definition failed_copy :: "int \<Rightarrow> stored_copy \<Rightarrow> stored_copy" where
  "failed_copy now c = c\<lparr>k_status := CFailed, k_error := Some ''Interrupted by a panel restart'', k_updated := now\<rparr>"

text \<open>Recovering rows of the table changes those rows.\<close>

lemma recover_backups_map:
  assumes "rows_ok b_id (bw_backups w)" and "set bs \<subseteq> set (bw_backups w)" and "distinct bs"
  shows "bw_backups (foldl (recover_backup now) w bs) =
     map (\<lambda>x. if x \<in> set bs then failed_backup now x else x) (bw_backups w)"
  using assms(2,3)
proof (induction bs rule: rev_induct)
  case Nil
  then show ?case by simp
next
  case (snoc b bs)
  have one: "(if b_id y = b_id b then patch_backup (failed_backup now b) y else y) =
      (if x \<in> set (bs @ [b]) then failed_backup now x else x)"
    if x: "x \<in> set (bw_backups w)" and y: "y = (if x \<in> set bs then failed_backup now x else x)" for x y
  proof (cases "x = b")
    case True
    with snoc.prems y show ?thesis by (simp add: patch_backup_def failed_backup_def)
  next
    case False
    then have "b_id x \<noteq> b_id b" using row_key_eq [OF assms(1) x, of b] snoc.prems by auto
    with False y show ?thesis by (simp add: failed_backup_def)
  qed
  have sub: "set bs \<subseteq> set (bw_backups w)" and d: "distinct bs" using snoc.prems by simp_all
  have "bw_backups (foldl (recover_backup now) w (bs @ [b])) =
      map (\<lambda>y. if b_id y = b_id b then patch_backup (failed_backup now b) y else y)
        (bw_backups (foldl (recover_backup now) w bs))"
    by (simp add: recover_backup_def brepo_update_def row_patch_def failed_backup_def cong: if_cong)
  also have "\<dots> = map (\<lambda>x. if x \<in> set (bs @ [b]) then failed_backup now x else x) (bw_backups w)"
    unfolding snoc.IH [OF sub d]
    by (simp only: map_map, rule map_cong [OF refl], simp only: o_apply, rule one) simp_all
  finally show ?case .
qed

lemma recover_copies_map:
  assumes "rows_ok k_id (bw_copies w)" and "set cs \<subseteq> set (bw_copies w)" and "distinct cs"
  shows "bw_copies (foldl (recover_copy now) w cs) =
     map (\<lambda>x. if x \<in> set cs then failed_copy now x else x) (bw_copies w)"
  using assms(2,3)
proof (induction cs rule: rev_induct)
  case Nil
  then show ?case by simp
next
  case (snoc c cs)
  have one: "(if k_id y = k_id c then failed_copy now y else y) =
      (if x \<in> set (cs @ [c]) then failed_copy now x else x)"
    if x: "x \<in> set (bw_copies w)" and y: "y = (if x \<in> set cs then failed_copy now x else x)" for x y
  proof (cases "x = c")
    case True
    with snoc.prems y show ?thesis by simp
  next
    case False
    then have "k_id x \<noteq> k_id c" using row_key_eq [OF assms(1) x, of c] snoc.prems by auto
    with False y show ?thesis by (simp add: failed_copy_def)
  qed
  have sub: "set cs \<subseteq> set (bw_copies w)" and d: "distinct cs" using snoc.prems by simp_all
  have "bw_copies (foldl (recover_copy now) w (cs @ [c])) =
      map (\<lambda>y. if k_id y = k_id c then failed_copy now y else y) (bw_copies (foldl (recover_copy now) w cs))"
    by (simp add: recover_copy_def krepo_set_status_def failed_copy_def cong: if_cong)
  also have "\<dots> = map (\<lambda>x. if x \<in> set (cs @ [c]) then failed_copy now x else x) (bw_copies w)"
    unfolding snoc.IH [OF sub d]
    by (simp only: map_map, rule map_cong [OF refl], simp only: o_apply, rule one) simp_all
  finally show ?case .
qed

text \<open>
  Recovery after a restart marks exactly the interrupted work: every backup still CREATING and
  every copy still UPLOADING becomes FAILED, with the pins and rules of the rows kept, and no
  other row is touched.
\<close>

theorem recovery_exact:
  assumes "rows_ok b_id (bw_backups w)" and "rows_ok k_id (bw_copies w)"
  shows "bw_backups (backup_recovery now w) =
      map (\<lambda>b. if b_status b = BCreating then failed_backup now b else b) (bw_backups w) \<and>
    bw_copies (backup_recovery now w) =
      map (\<lambda>c. if k_status c = CUploading then failed_copy now c else c) (bw_copies w)"
proof -
  let ?bs = "brepo_find_by_status BCreating (bw_backups w)" and ?cs = "krepo_find_by_status CUploading (bw_copies w)"
  let ?w = "foldl (recover_backup now) w ?bs"
  have "distinct ?bs" "distinct ?cs"
    using assms by (simp_all add: rows_ok_def distinct_map brepo_find_by_status_def krepo_find_by_status_def)
  then have "bw_backups ?w = map (\<lambda>x. if x \<in> set ?bs then failed_backup now x else x) (bw_backups w)"
    and "bw_copies (foldl (recover_copy now) ?w ?cs) = map (\<lambda>x. if x \<in> set ?cs then failed_copy now x else x) (bw_copies w)"
    using recover_backups_map [OF assms(1)] recover_copies_map [of ?w] assms(2)
    by (auto simp: brepo_find_by_status_def krepo_find_by_status_def recover_backups_fields)
  then show ?thesis
    by (auto simp: backup_recovery_def Let_def recover_backups_fields recover_copies_fields brepo_find_by_status_def
        krepo_find_by_status_def)
qed

theorem recovery_exact_witness:
  "map k_status (bw_copies (backup_recovery 9 (bex_world\<lparr>bw_copies := [bex_copy ''c1'' ''b1'',
     (bex_copy ''c2'' ''b2'')\<lparr>k_status := CUploading\<rparr>]\<rparr>))) = [CReady, CFailed]"
proof -
  let ?w = "bex_world\<lparr>bw_copies := [bex_copy ''c1'' ''b1'', (bex_copy ''c2'' ''b2'')\<lparr>k_status := CUploading\<rparr>]\<rparr>"
  have "rows_ok b_id (bw_backups ?w)" "rows_ok k_id (bw_copies ?w)"
    by (simp_all add: bex_world_def bex_backup_def bex_copy_def rows_ok_def)
  from recovery_exact [OF this, of 9] show ?thesis by (simp add: bex_copy_def failed_copy_def)
qed

end
