(* ===== verification/Backup_Storage_Properties.thy ===== *)
theory Backup_Storage_Properties
  imports Backup_Properties
begin

text \<open>
  What the backup services promise about storages: policies and copies only name storages that
  exist, ready remote copies have their object, removals and orphan cleaning hit what they
  should.
\<close>

section \<open>Policies and storages\<close>

datatype storage_op =
    OpAddStorage string
  | OpRemoveStorage string
  | OpSetDefaults backup_policy
  | OpSetPolicy string "backup_policy option"

text \<open>An operation that is refused leaves the state as it was.\<close>

definition or_same :: "'s \<Rightarrow> 's result \<Rightarrow> 's" where
  "or_same w r = (case r of Inl _ \<Rightarrow> w | Inr w' \<Rightarrow> w')"

fun storage_step :: "bworld \<Rightarrow> storage_op \<Rightarrow> bworld" where
  "storage_step w (OpAddStorage s) = w\<lparr>bw_storages := bw_storages w @ [s]\<rparr>"
| "storage_step w (OpRemoveStorage s) = or_same w (storage_remove w s)"
| "storage_step w (OpSetDefaults p) = or_same w (policy_set_defaults w p)"
| "storage_step w (OpSetPolicy sid p) = or_same w (policy_set_for_server w sid p)"

definition storage_known :: "string list \<Rightarrow> string option \<Rightarrow> bool" where
  "storage_known ss so \<longleftrightarrow> (case so of None \<Rightarrow> True | Some s \<Rightarrow> s = [] \<or> s \<in> set ss)"

definition storages_inv :: "bworld \<Rightarrow> bool" where
  "storages_inv w \<longleftrightarrow> storage_known (bw_storages w) (bp_storage (policy_defaults w)) \<and>
     (\<forall>sid p. jget (bw_policies w) sid = Some p \<longrightarrow> storage_known (bw_storages w) (bp_storage p)) \<and>
     (\<forall>c \<in> set (bw_copies w). storage_known (bw_storages w) (k_storage c))"

lemma assert_policy_storage_ok: "assert_policy_storage w p = Inr u \<longleftrightarrow> storage_known (bw_storages w) (bp_storage p)"
  by (auto simp: assert_policy_storage_def storage_known_def split: option.splits)

lemma storages_inv_set_defaults:
  assumes "storages_inv w" and "policy_set_defaults w p = Inr w'"
  shows "storages_inv w'"
  using assms by (auto simp: policy_set_defaults_def and_then_Inr_iff assert_policy_storage_ok storages_inv_def
      policy_defaults_def)

lemma storages_inv_set_policy:
  assumes "storages_inv w" and "policy_set_for_server w sid po = Inr w'"
  shows "storages_inv w'"
  using assms by (auto simp: policy_set_for_server_def and_then_Inr_iff assert_policy_storage_ok storages_inv_def
      policy_defaults_def split: option.splits if_splits)

text \<open>Removing a storage: no copy is in it, and the policies let go of it.\<close>

lemma storage_known_removed: "storage_known ss so \<Longrightarrow> so \<noteq> Some s \<Longrightarrow> storage_known (filter (\<lambda>x. x \<noteq> s) ss) so"
  by (auto simp: storage_known_def split: option.splits)

lemma jget_map_values: "jget (map (\<lambda>(i, p). (i, f p)) m) i = map_option f (jget m i)"
  by (induction m) auto

definition drop_storage :: "string \<Rightarrow> backup_policy \<Rightarrow> backup_policy" where
  "drop_storage s p = (if bp_storage p = Some s then p\<lparr>bp_storage := None\<rparr> else p)"

lemma storages_inv_remove:
  assumes "storages_inv w" and "storage_remove w s = Inr w'"
  shows "storages_inv w' \<and> s \<notin> set (bw_storages w')"
proof -
  let ?w = "w\<lparr>bw_storages := filter (\<lambda>x. x \<noteq> s) (bw_storages w),
     bw_policies := map (\<lambda>(i, p). (i, drop_storage s p)) (bw_policies w)\<rparr>"
  let ?ss = "filter (\<lambda>x. x \<noteq> s) (bw_storages w)"
  have w': "w' = policy_forget_storage ?w s" and free: "\<forall>c \<in> set (bw_copies w). k_storage c \<noteq> Some s"
    using assms(2)
    by (auto simp: storage_remove_def Let_def krepo_count_for_storage_def drop_storage_def filter_empty_conv
        split: if_splits)
  have pol: "storage_known ?ss (bp_storage p)" if "jget (bw_policies ?w) sid = Some p" for sid p
  proof -
    from that obtain q where q: "jget (bw_policies w) sid = Some q" "p = drop_storage s q"
      by (auto simp: jget_map_values)
    with assms(1) have "storage_known (bw_storages w) (bp_storage q)" by (auto simp: storages_inv_def)
    with q(2) show ?thesis
      by (cases "bp_storage q = Some s") (simp_all add: drop_storage_def storage_known_removed, simp add: storage_known_def)
  qed
  have copies: "\<forall>c \<in> set (bw_copies w). storage_known ?ss (k_storage c)"
    using assms(1) free storage_known_removed by (simp add: storages_inv_def)
  have fields: "bw_storages w' = ?ss" "bw_policies w' = bw_policies ?w" "bw_copies w' = bw_copies w"
    by (simp_all add: w' policy_forget_storage_def Let_def)
  have "storage_known ?ss (bp_storage (policy_defaults w'))"
  proof (cases "bp_storage (policy_defaults w) = Some s")
    case True
    then show ?thesis by (simp add: w' policy_forget_storage_def Let_def policy_defaults_def storage_known_def)
  next
    case False
    then have "policy_defaults w' = policy_defaults w"
      by (simp add: w' policy_forget_storage_def Let_def policy_defaults_def)
    with False assms(1) show ?thesis by (simp add: storage_known_removed storages_inv_def)
  qed
  with pol copies show ?thesis by (simp add: storages_inv_def fields)
qed

lemma storages_inv_add: "storages_inv w \<Longrightarrow> storages_inv (w\<lparr>bw_storages := bw_storages w @ [s]\<rparr>)"
proof -
  assume w: "storages_inv w"
  have "storage_known (bw_storages w) so \<Longrightarrow> storage_known (bw_storages w @ [s]) so" for so
    by (auto simp: storage_known_def split: option.splits)
  with w show ?thesis by (simp add: storages_inv_def policy_defaults_def)
qed

interpretation storm: machine storage_step storages_inv
proof
  fix w :: bworld and e :: storage_op
  assume "storages_inv w"
  then show "storages_inv (storage_step w e)"
    by (cases e) (auto simp: or_same_def storages_inv_add dest: storages_inv_set_defaults storages_inv_set_policy
        storages_inv_remove split: sum.splits)
qed

text \<open>
  Whatever storages are added and removed and whatever policies are set, and in whatever order,
  the policy in force for a server never names a storage that does not exist, and no stored
  copy is left behind in a removed storage.
\<close>

theorem policies_name_known_storages:
  assumes "storages_inv w"
  shows "(let w' = run storage_step w ops in
     storage_known (bw_storages w') (bp_storage (snd (policy_for_server w' sid))) \<and>
     (\<forall>c \<in> set (bw_copies w'). storage_known (bw_storages w') (k_storage c)))"
proof -
  have "storages_inv (run storage_step w ops)" using assms by (rule storm.run_inv)
  then show ?thesis by (auto simp: storages_inv_def policy_for_server_def Let_def split: option.splits)
qed

theorem policies_name_known_storages_witness:
  "let w' = run storage_step bex_world [OpSetDefaults (built_in_policy\<lparr>bp_storage := Some ''r''\<rparr>), OpRemoveStorage ''r'']
   in storage_known (bw_storages w') (bp_storage (snd (policy_for_server w' ''s'')))"
proof -
  have "storages_inv bex_world"
    by (simp add: storages_inv_def bex_world_def bex_copy_def storage_known_def policy_defaults_def built_in_policy_def)
  from policies_name_known_storages [OF this, of "[OpSetDefaults (built_in_policy\<lparr>bp_storage := Some ''r''\<rparr>), OpRemoveStorage ''r'']" "''s''"]
  show ?thesis unfolding Let_def by blast
qed

section \<open>Orphans\<close>

text \<open>
  Cleaning orphans removes an archive exactly when it was asked for and nothing refers to it:
  neither a copy on the panel disk nor a backup still being written; a key that names no
  archive in the backup folder is ignored.
\<close>

theorem orphan_remove_exact:
  "k \<in> set (bw_archives (snd (orphan_remove w keys))) \<longleftrightarrow>
     k \<in> set (bw_archives w) \<and>
     (k \<notin> set keys \<or>
      (\<exists>c \<in> set (bw_copies w). k_storage c = None \<and> k_key c = k) \<or>
      (\<exists>b \<in> set (bw_backups w). b_status b = BCreating \<and> local_key_for (b_server b) (b_id b) (b_format b) = k))"
  by (auto simp: orphan_remove_def orphan_list_def Let_def krepo_local_keys_def brepo_find_by_status_def)

section \<open>Objects of ready copies\<close>

definition bex_key_for :: "string \<Rightarrow> string \<Rightarrow> string" where
  "bex_key_for s k = ''panel/'' @ k"

lemma bex_keys_apart: "keys_apart bex_key_for"
  by (simp add: keys_apart_def bex_key_for_def)


text \<open>An upload of the backup of the example world, from an empty copy table.\<close>

definition bex_plain_backup :: backup where
  "bex_plain_backup = bex_backup ''b1'' 1 False"

definition bex_start :: bworld where
  "bex_start = bex_world\<lparr>bw_copies := []\<rparr>"

definition bex_local :: bworld where
  "bex_local = copies_add_local bex_start bex_plain_backup (local_key_for ''s'' ''b1'' FZip) 1 ''c1'' 0"

definition bex_upload :: "string \<Rightarrow> nat \<Rightarrow> upload" where
  "bex_upload kid tok = \<lparr>up_copy = \<lparr>k_id = kid, k_backup = ''b1'', k_storage = Some ''r'',
       k_key = ''panel/s/b1.zip'', k_size = 0, k_status = CUploading, k_error = None, k_created = 5, k_updated = 5\<rparr>,
     up_lease = tok, up_storage = ''r'', up_key = ''panel/s/b1.zip''\<rparr>"

definition bex_uploading :: bworld where
  "bex_uploading = snd (upload_begin bex_key_for bex_local bex_plain_backup ''r'' ''c2'' 5)"

lemma bex_upload_begins:
  "upload_begin bex_key_for bex_local bex_plain_backup ''r'' ''c2'' 5 = (Inr (UploadStarted (bex_upload ''c2'' 0)), bex_uploading)"
proof -
  have "fst (upload_begin bex_key_for bex_local bex_plain_backup ''r'' ''c2'' 5) = Inr (UploadStarted (bex_upload ''c2'' 0))"
    by code_simp
  then show ?thesis by (metis bex_uploading_def prod.collapse)
qed

lemma bex_local_fields: "map k_id (bw_copies bex_local) = [''c1'']" "bw_uploads bex_local = []" "bw_removing bex_local = []"
  by code_simp+

lemma bex_plain: "plain_id (b_server bex_plain_backup)" "plain_id (b_id bex_plain_backup)"
  by (simp_all add: plain_id_def bex_plain_backup_def bex_backup_def)

lemma bex_reach_uploading: "bk_reach bex_key_for e bex_start bex_uploading"
proof -
  have "bk_step bex_key_for e bex_start bex_local"
    unfolding bex_local_def by (rule bk_step.add_local) (simp add: unused_copy_id_def bex_start_def bex_world_def)
  moreover have "''c2'' \<notin> k_id ` set (bw_copies bex_local)"
    by (simp add: set_map [symmetric] bex_local_fields(1) del: set_map)
  then have "bk_step bex_key_for e bex_local bex_uploading"
    using bex_local_fields bex_plain
    by (intro bk_step.begin_upload [OF bex_upload_begins]) (simp_all add: unused_copy_id_def)
  ultimately show ?thesis using bk_reach.more bk_reach.start by metis
qed

lemma bex_uploading_fields:
  "bw_uploads bex_uploading = [bex_upload ''c2'' 0]" "bw_removing bex_uploading = []"
  by code_simp+

definition bex_stored :: bworld where
  "bex_stored = snd (upload_end bex_uploading (bex_upload ''c2'' 0) (UploadedBytes 7) 6)"

lemma bex_stored_fields:
  "map (\<lambda>c. (k_id c, k_storage c, k_key c)) (bw_copies bex_stored) =
     [(''c1'', None, ''s/b1.zip''), (''c2'', Some ''r'', ''panel/s/b1.zip'')]"
  "map k_status (bw_copies bex_stored) = [CReady, CReady]" "bw_removing bex_stored = []"
  by code_simp+


section \<open>Two uploads of one backup\<close>

lemma set_status_in:
  "c \<in> set cs \<Longrightarrow> \<exists>d \<in> set (krepo_set_status i st sz err now cs).
     k_id d = k_id c \<and> k_storage d = k_storage c \<and> k_key d = k_key c \<and> k_backup d = k_backup c \<and>
     k_status d = (if k_id c = i then st else k_status c)"
  unfolding krepo_set_status_def set_map by (rule bexI [rotated], erule imageI) simp

lemma set_status_ids: "k_id ` set (krepo_set_status i st sz err now cs) = k_id ` set cs"
proof -
  have "map k_id (krepo_set_status i st sz err now cs) = map k_id cs"
    by (simp add: krepo_set_status_def)
  then show ?thesis by (metis set_map)
qed

lemma find_app: "List.find P (xs @ ys) = (case List.find P xs of None \<Rightarrow> List.find P ys | Some x \<Rightarrow> Some x)"
  by (induction xs) auto

lemma copy_not_found: "i \<notin> k_id ` set cs \<Longrightarrow> krepo_find i cs = None"
  by (simp add: krepo_find_def row_find_None_iff)

text \<open>The second upload drops the row of the first one.\<close>

lemma second_upload_drops_first:
  assumes "rows_inv key_for (bw_copies w)" and "s \<noteq> []" and "k1 \<noteq> k2"
    and b1: "upload_begin key_for w b s k1 n1 = (Inr (UploadStarted u1), w1)"
    and b2: "upload_begin key_for w1 b s k2 n2 = (Inr (UploadStarted u2), w2)"
  shows "k1 \<notin> k_id ` set (bw_copies w2)" and "up_copy u2 \<in> set (bw_copies w2)"
proof -
  note f1 = upload_begin_started [OF b1] and f2 = upload_begin_started [OF b2]
  have "List.find (\<lambda>c. k_backup c = b_id b \<and> k_storage c = Some s) (upload_rows w b s) = None"
    using upload_rows_free [OF assms(1,2)] by (auto simp: find_None_iff)
  then have "krepo_find_at (b_id b) (Some s) (bw_copies w1) = Some (up_copy u1)"
    unfolding f1(1) krepo_find_at_def krepo_create_def row_insert_def
    using assms(2) f1(6,7) by (simp add: find_app)
  then have "upload_rows w1 b s = krepo_delete k1 (bw_copies w1)" using f1(5) by (simp add: upload_rows_def)
  moreover have "k1 \<notin> k_id ` set (krepo_delete k1 (bw_copies w1))" using delete_copy_id by blast
  ultimately show "k1 \<notin> k_id ` set (bw_copies w2)"
    unfolding f2(1) using assms(3) f2(5) by (simp add: krepo_create_def row_insert_def)
  show "up_copy u2 \<in> set (bw_copies w2)" unfolding f2(1) by (simp add: krepo_create_def row_insert_def)
qed

text \<open>
  Two uploads of one backup to one storage at the same time lose the archive: when the second
  one has finished, and listed its copy as ready, the first one finds its row gone, removes
  the object both have written and reports a deleted backup; the copy stays listed as ready
  with no object behind it.
\<close>

theorem double_upload_loses_object:
  assumes "rows_inv key_for (bw_copies w)" and "s \<noteq> []" and "k1 \<noteq> k2"
    and "upload_begin key_for w b s k1 n1 = (Inr (UploadStarted u1), w1)"
    and "upload_begin key_for w1 b s k2 n2 = (Inr (UploadStarted u2), w2)"
  shows "let w3 = snd (upload_end w2 u2 (UploadedBytes m2) n3);
             (answer, w4) = upload_end w3 u1 (UploadedBytes m1) n4
         in answer = fail Internal ''The backup was deleted during the upload'' \<and>
            (\<exists>c \<in> set (bw_copies w4). k_id c = k2 \<and> k_backup c = b_id b \<and> k_storage c = Some s \<and>
               k_status c = CReady \<and> (s, k_key c) \<notin> set (bw_objects w4))"
proof -
  note f1 = upload_begin_started [OF assms(4)] and f2 = upload_begin_started [OF assms(5)]
  note rows = second_upload_drops_first [OF assms]
  let ?cs3 = "krepo_set_status k2 CReady (Some m2) None n3 (bw_copies w2)"
  let ?w3 = "snd (upload_end w2 u2 (UploadedBytes m2) n3)"
  let ?msg = "''The backup was deleted during the upload''"
  have "krepo_find k2 (bw_copies w2) \<noteq> None"
    using rows(2) f2(5) by (auto simp: krepo_find_def row_find_None_iff)
  then have w3: "bw_copies ?w3 = ?cs3"
    using f2(5) by (auto simp: upload_end_def Let_def upload_finish_row_def)
  have "krepo_find k1 ?cs3 = None"
    using rows(1) by (intro copy_not_found) (simp add: set_status_ids)
  then have gone: "krepo_find (k_id (up_copy u1)) (bw_copies ?w3) = None" using w3 f1(5) by simp
  have end1: "upload_end ?w3 u1 (UploadedBytes m1) n4 = (fail Internal ?msg, upload_finish_row
     (?w3\<lparr>bw_objects := filter (\<lambda>x. x \<noteq> (up_storage u1, up_key u1)) ((up_storage u1, up_key u1) # bw_objects ?w3),
        bw_copies := krepo_set_status k1 CFailed None (Some ?msg) n4 (bw_copies ?w3)\<rparr>) u1)"
    using gone f1(5) by (simp add: upload_end_def Let_def)
  from set_status_in [OF rows(2), of k2 CReady "Some m2" None n3] f2
  obtain d where d: "d \<in> set ?cs3" "k_id d = k2" "k_storage d = Some s" "k_key d = key_for s (backup_key b)"
    "k_backup d = b_id b" "k_status d = CReady" by auto
  from set_status_in [OF d(1), of k1 CFailed None "Some ?msg" n4] d assms(3)
  obtain c where c: "c \<in> set (krepo_set_status k1 CFailed None (Some ?msg) n4 ?cs3)" "k_id c = k2"
    "k_storage c = Some s" "k_key c = key_for s (backup_key b)" "k_backup c = b_id b" "k_status c = CReady" by auto
  have place: "(up_storage u1, up_key u1) = (s, key_for s (backup_key b))"
    using f1(7,8,10) by (auto simp: up_ok_def)
  show ?thesis unfolding end1 Let_def
    using c place by (auto simp: upload_finish_row_def w3 intro!: bexI [of _ c])
qed

definition bex_twice :: bworld where
  "bex_twice = snd (upload_begin bex_key_for bex_uploading bex_plain_backup ''r'' ''c3'' 6)"

lemma bex_upload_twice:
  "\<exists>u2. upload_begin bex_key_for bex_uploading bex_plain_backup ''r'' ''c3'' 6 = (Inr (UploadStarted u2), bex_twice)"
proof -
  have "case fst (upload_begin bex_key_for bex_uploading bex_plain_backup ''r'' ''c3'' 6) of Inr (UploadStarted u) \<Rightarrow> True | _ \<Rightarrow> False"
    by code_simp
  then show ?thesis unfolding bex_twice_def
    by (cases "upload_begin bex_key_for bex_uploading bex_plain_backup ''r'' ''c3'' 6")
      (auto split: sum.splits upload_start.splits)
qed

theorem double_upload_loses_object_witness:
  "\<exists>u2. let w3 = snd (upload_end bex_twice u2 (UploadedBytes 7) 7);
           (answer, w4) = upload_end w3 (bex_upload ''c2'' 0) (UploadedBytes 7) 8
         in (\<exists>c \<in> set (bw_copies w4). k_status c = CReady \<and> k_storage c = Some ''r'' \<and>
              (''r'', k_key c) \<notin> set (bw_objects w4))"
proof -
  obtain u2 where u2: "upload_begin bex_key_for bex_uploading bex_plain_backup ''r'' ''c3'' 6 = (Inr (UploadStarted u2), bex_twice)"
    using bex_upload_twice by blast
  have "rows_inv bex_key_for (bw_copies bex_local)"
    by (simp add: bex_local_def copies_add_local_def bex_start_def krepo_create_def row_insert_def rows_inv_def keyed_def)
  from double_upload_loses_object [OF this _ _ bex_upload_begins u2, of 7 7 7 8]
  show ?thesis by (intro exI [of _ u2]) (auto simp: Let_def split: prod.splits)
qed

section \<open>Deleting a backup\<close>

definition on_disk :: "stored_copy \<Rightarrow> bool" where
  "on_disk c \<longleftrightarrow> k_storage c = None \<or> k_storage c = Some []"

definition copy_place :: "stored_copy \<Rightarrow> string \<times> string" where
  "copy_place c = (case k_storage c of None \<Rightarrow> ([], k_key c) | Some s \<Rightarrow> (s, k_key c))"

lemma copy_remove_stores:
  "bw_archives (copy_remove w c) = filter (\<lambda>k. \<not> (on_disk c \<and> k = k_key c)) (bw_archives w)"
  "bw_objects (copy_remove w c) = filter (\<lambda>x. \<not> (\<not> on_disk c \<and> x = copy_place c)) (bw_objects w)"
  by (auto simp: copy_remove_def copy_remove_end_def copy_remove_archive_def copy_remove_begin_def Let_def
      on_disk_def copy_place_def split: option.splits intro!: filter_cong)

lemma removed_stores:
  "bw_archives (foldl copy_remove w cs) = filter (\<lambda>k. \<not> (\<exists>c \<in> set cs. on_disk c \<and> k = k_key c)) (bw_archives w)"
  "bw_objects (foldl copy_remove w cs) = filter (\<lambda>x. \<not> (\<exists>c \<in> set cs. \<not> on_disk c \<and> x = copy_place c)) (bw_objects w)"
  by (induction cs arbitrary: w) (auto simp: copy_remove_stores intro!: filter_cong)

lemma removed_copies:
  "bw_copies (foldl copy_remove w cs) = filter (\<lambda>c. k_id c \<notin> k_id ` set cs) (bw_copies w)"
  by (induction cs arbitrary: w) (auto simp: krepo_delete_def row_delete_def intro!: filter_cong)

lemma removed_backups:
  "\<forall>c \<in> set cs. k_backup c = b \<Longrightarrow>
   brepo_delete b (bw_backups (foldl copy_remove w cs)) = brepo_delete b (bw_backups w)"
proof (induction cs arbitrary: w)
  case Nil
  then show ?case by simp
next
  case (Cons c cs)
  have "bw_backups (copy_remove w c) = bw_backups w \<or> bw_backups (copy_remove w c) = brepo_delete b (bw_backups w)"
    using Cons.prems by (simp add: copy_remove_def copy_remove_end_def copy_remove_archive_def copy_remove_begin_def
        Let_def split: option.splits)
  moreover have "brepo_delete b (brepo_delete b t) = brepo_delete b t" for t
    by (simp add: brepo_delete_def row_delete_def)
  ultimately show ?case using Cons by auto
qed

text \<open>
  Deleting a backup removes exactly what belongs to it: its row, all its copies, and the archive
  or object of each of these copies; every other backup, copy, archive and object stays.
\<close>

theorem delete_backup_exact:
  assumes "rows_ok k_id (bw_copies w)"
  shows "(let w' = copies_remove_all w b; mine = filter (\<lambda>c. k_backup c = b) (bw_copies w) in
     bw_backups w' = filter (\<lambda>x. b_id x \<noteq> b) (bw_backups w) \<and>
     bw_copies w' = filter (\<lambda>c. k_backup c \<noteq> b) (bw_copies w) \<and>
     bw_archives w' = filter (\<lambda>k. \<not> (\<exists>c \<in> set mine. on_disk c \<and> k = k_key c)) (bw_archives w) \<and>
     bw_objects w' = filter (\<lambda>x. \<not> (\<exists>c \<in> set mine. \<not> on_disk c \<and> x = copy_place c)) (bw_objects w))"
proof -
  let ?mine = "filter (\<lambda>c. k_backup c = b) (bw_copies w)" and ?cs = "copies_of w b"
  have cs: "set ?cs = set ?mine" by (simp add: copies_of_def krepo_find_by_backup_def)
  have ids: "k_id c \<notin> k_id ` set ?mine" if "c \<in> set (bw_copies w)" "k_backup c \<noteq> b" for c
    using row_key_eq [OF assms that(1)] that(2) by force
  have "bw_copies (copies_remove_all w b) = filter (\<lambda>c. k_backup c \<noteq> b \<and> k_id c \<notin> k_id ` set ?mine) (bw_copies w)"
    by (simp add: copies_remove_all_def Let_def removed_copies cs conj_commute)
  also have "\<dots> = filter (\<lambda>c. k_backup c \<noteq> b) (bw_copies w)"
    using ids by (intro filter_cong) auto
  finally have copies: "bw_copies (copies_remove_all w b) = filter (\<lambda>c. k_backup c \<noteq> b) (bw_copies w)" .
  have backups: "bw_backups (copies_remove_all w b) = filter (\<lambda>x. b_id x \<noteq> b) (bw_backups w)"
    using removed_backups [of ?cs b w] unfolding cs by (simp add: copies_remove_all_def Let_def brepo_delete_def row_delete_def)
  have stores: "bw_archives (copies_remove_all w b) = bw_archives (foldl copy_remove w ?cs)"
    "bw_objects (copies_remove_all w b) = bw_objects (foldl copy_remove w ?cs)"
    by (simp_all add: copies_remove_all_def Let_def)
  show ?thesis unfolding Let_def copies backups stores removed_stores cs by blast
qed

theorem delete_backup_exact_witness:
  "map k_id (bw_copies (copies_remove_all bex_world ''b2'')) = [''c1'', ''c3'', ''c4'']"
  using delete_backup_exact [OF bex_rows_ok, of "''b2''"]
  by (simp add: Let_def bex_world_def bex_copy_def)

end
