(* ===== verification/Schedule.thy ===== *)
theory Schedule
  imports Guards
begin

text \<open>
  When and what a scheduled task runs (\<open>core/utils/schedule.ts\<close>,
  \<open>scheduled-tasks/schedule-normalizer.ts\<close>, the URL check of \<open>webhook-client.ts\<close>): forms,
  stored schedules, normalization and the merge of a partial update.

  What the code asks of \<open>cron\<close>, \<open>Date\<close> and \<open>URL\<close> is passed in as \<open>sched_env\<close>: whether a
  job can be built from an expression and a time zone (an error message or nothing), the next
  date of an expression, parsing and printing of ISO times, the protocol of a URL.

  The DTO classes validate a request before it gets here: a simple schedule has the fields of its
  kind, enumerations have one of their values.
\<close>

record sched_env =
  cron_job_error :: "string \<Rightarrow> string option \<Rightarrow> string option"
  date_job_error :: "string option \<Rightarrow> string option"
  cron_next :: "string \<Rightarrow> string option \<Rightarrow> int \<Rightarrow> int option"
  parse_date :: "string \<Rightarrow> int option"
  iso_string :: "int \<Rightarrow> string"
  url_protocol :: "string \<Rightarrow> string option"

section \<open>Schedules\<close>

datatype interval_unit = UMinutes | UHours
datatype simple_schedule =
    SInterval nat interval_unit
  | SDaily string
  | SWeekly string "nat list"

datatype schedule_mode = MSimple | MCron | MOnce
datatype schedule_payload = PSimple simple_schedule | PCron string | POnce string

fun payload_mode :: "schedule_payload \<Rightarrow> schedule_mode" where
  "payload_mode (PSimple _) = MSimple"
| "payload_mode (PCron _) = MCron"
| "payload_mode (POnce _) = MOnce"

text \<open>\<open>`${Number(s)}`\<close> for a string of decimal digits.\<close>

definition number_text :: "string option \<Rightarrow> string" where
  "number_text so = (case so of None \<Rightarrow> ''NaN''
     | Some s \<Rightarrow> if list_all is_digit s then digits (dec_value s) else ''NaN'')"

definition part :: "string list \<Rightarrow> nat \<Rightarrow> string option" where
  "part xs i = (if i < length xs then Some (xs ! i) else None)"

definition minute_hour :: "string \<Rightarrow> string" where
  "minute_hour time = (let hm = split_on CHR '':'' time in number_text (part hm 1) @ '' '' @ number_text (part hm 0))"

fun simple_to_cron :: "simple_schedule \<Rightarrow> string option" where
  "simple_to_cron (SInterval v u) =
     (case u of UMinutes \<Rightarrow> Some (''*/'' @ digits v @ '' * * * *'')
              | UHours \<Rightarrow> Some (''0 */'' @ digits v @ '' * * *''))"
| "simple_to_cron (SDaily time) = Some (minute_hour time @ '' * * *'')"
| "simple_to_cron (SWeekly time days) =
     Some (minute_hour time @ '' * * '' @ join '','' (map digits (if days \<noteq> [] then days else [1])))"

fun schedule_cron :: "schedule_payload \<Rightarrow> string option" where
  "schedule_cron (PCron e) = Some e"
| "schedule_cron (PSimple s) = simple_to_cron s"
| "schedule_cron (POnce _) = None"

fun schedule_run_at :: "sched_env \<Rightarrow> schedule_payload \<Rightarrow> int option" where
  "schedule_run_at env (POnce at) = parse_date env at"
| "schedule_run_at env _ = None"

section \<open>Normalization\<close>

record schedule_input =
  in_mode :: schedule_mode
  in_simple :: "simple_schedule option"
  in_cron :: "string option"
  in_once :: "string option"

record normalized =
  no_cron :: "string option"
  no_run_at :: "int option"
  no_payload :: schedule_payload

definition validate_cron :: "sched_env \<Rightarrow> string \<Rightarrow> unit result" where
  "validate_cron env e = (case cron_job_error env e None of
     None \<Rightarrow> Inr () | Some msg \<Rightarrow> fail BadRequest (''Invalid cron expression: '' @ msg))"

definition normalize_schedule :: "sched_env \<Rightarrow> schedule_input \<Rightarrow> int \<Rightarrow> normalized result" where
  "normalize_schedule env dto now = (case in_mode dto of
     MSimple \<Rightarrow>
       (case in_simple dto of
          None \<Rightarrow> fail BadRequest ''simple payload is required for SIMPLE mode''
        | Some s \<Rightarrow>
          (case simple_to_cron s of
             None \<Rightarrow> fail BadRequest ''Unsupported simple schedule kind''
           | Some cron \<Rightarrow> and_then (validate_cron env cron) (\<lambda>_.
               Inr \<lparr>no_cron = Some cron, no_run_at = None, no_payload = PSimple s\<rparr>)))
   | MCron \<Rightarrow>
       (case in_cron dto of
          None \<Rightarrow> fail BadRequest ''cron payload is required for CRON mode''
        | Some e \<Rightarrow> and_then (validate_cron env e) (\<lambda>_.
            Inr \<lparr>no_cron = Some e, no_run_at = None, no_payload = PCron e\<rparr>))
   | MOnce \<Rightarrow>
       (case in_once dto of
          None \<Rightarrow> fail BadRequest ''once payload is required for ONCE mode''
        | Some at \<Rightarrow>
          (case parse_date env at of
             None \<Rightarrow> fail BadRequest ''isoDateTime is invalid''
           | Some ts \<Rightarrow>
             if ts \<le> now then fail BadRequest ''isoDateTime must be in the future''
             else Inr \<lparr>no_cron = None, no_run_at = Some ts, no_payload = POnce at\<rparr>)))"

section \<open>Actions\<close>

record webhook =
  wh_url :: string
  wh_method :: string
  wh_headers :: "(string \<times> string) list option"
  wh_body :: "string option"

datatype sched_action =
    DoStart | DoStop | DoRestart
  | DoCommand string
  | DoBackup string "string option"
  | DoWebhook webhook

fun action_type_of :: "sched_action \<Rightarrow> action_type" where
  "action_type_of DoStart = ServerStart"
| "action_type_of DoStop = ServerStop"
| "action_type_of DoRestart = ServerRestart"
| "action_type_of (DoCommand _) = ServerCommand"
| "action_type_of (DoBackup _ _) = BackupCreate"
| "action_type_of (DoWebhook _) = HttpWebhook"

record action_dto =
  ad_type :: action_type
  ad_command :: "string option"
  ad_template :: "string option"
  ad_description :: "string option"
  ad_url :: "string option"
  ad_method :: "string option"
  ad_headers :: "(string \<times> string) list option"
  ad_body :: "string option"

text \<open>A missing or empty string is falsy.\<close>

definition given :: "string option \<Rightarrow> bool" where
  "given so \<longleftrightarrow> so \<noteq> None \<and> so \<noteq> Some []"

definition assert_webhook_url_shape :: "sched_env \<Rightarrow> string \<Rightarrow> unit result" where
  "assert_webhook_url_shape env url = (case url_protocol env url of
     None \<Rightarrow> fail BadRequest ''Invalid webhook URL''
   | Some p \<Rightarrow> if p \<noteq> ''http:'' \<and> p \<noteq> ''https:'' then fail BadRequest ''Webhook URL must use http or https''
               else Inr ())"

definition normalize_action :: "sched_env \<Rightarrow> action_dto \<Rightarrow> sched_action result" where
  "normalize_action env a = (case ad_type a of
     ServerStart \<Rightarrow> Inr DoStart
   | ServerStop \<Rightarrow> Inr DoStop
   | ServerRestart \<Rightarrow> Inr DoRestart
   | ServerCommand \<Rightarrow>
       if \<not> given (ad_command a) then fail BadRequest ''command is required''
       else Inr (DoCommand (the (ad_command a)))
   | BackupCreate \<Rightarrow>
       if \<not> given (ad_template a) then fail BadRequest ''nameTemplate is required''
       else Inr (DoBackup (the (ad_template a)) (ad_description a))
   | HttpWebhook \<Rightarrow>
       if \<not> given (ad_url a) \<or> \<not> given (ad_method a) then fail BadRequest ''url and method are required''
       else and_then (assert_webhook_url_shape env (the (ad_url a))) (\<lambda>_.
         Inr (DoWebhook \<lparr>wh_url = the (ad_url a), wh_method = the (ad_method a), wh_headers = ad_headers a,
            wh_body = ad_body a\<rparr>)))"

section \<open>Tasks\<close>

text \<open>
  A row of \<open>scheduled_tasks\<close>.  Mode and action type have columns of their own, always written
  together with their payload; the cron expression and the run time are derived from the payload
  when a row is read.
\<close>

record sched_task =
  st_id :: string
  st_server :: string
  st_name :: string
  st_enabled :: bool
  st_payload :: schedule_payload
  st_timezone :: "string option"
  st_action :: sched_action
  st_owner :: string
  st_created :: int
  st_updated :: int

definition st_mode :: "sched_task \<Rightarrow> schedule_mode" where
  "st_mode t = payload_mode (st_payload t)"

definition st_cron :: "sched_task \<Rightarrow> string option" where
  "st_cron t = schedule_cron (st_payload t)"

definition st_run_at :: "sched_env \<Rightarrow> sched_task \<Rightarrow> int option" where
  "st_run_at env t = schedule_run_at env (st_payload t)"

record sched_update_dto =
  su_name :: "string option"
  su_enabled :: "bool option"
  su_mode :: "schedule_mode option"
  su_simple :: "simple_schedule option"
  su_cron :: "string option"
  su_once :: "string option"
  su_timezone :: "string option"
  su_action :: "action_dto option"

record task_patch =
  mg_name :: "string option"
  mg_enabled :: "bool option"
  mg_timezone :: "string option option"
  mg_action :: "sched_action option"
  mg_payload :: "schedule_payload option"

definition optional :: "('a \<Rightarrow> 'b result) \<Rightarrow> 'a option \<Rightarrow> 'b option result" where
  "optional f x = (case x of None \<Rightarrow> Inr None | Some a \<Rightarrow> and_then (f a) (\<lambda>b. Inr (Some b)))"

definition or_else :: "'a option \<Rightarrow> 'a option \<Rightarrow> 'a option" where
  "or_else a b = (case a of None \<Rightarrow> b | Some x \<Rightarrow> Some x)"

definition update_input :: "sched_env \<Rightarrow> sched_task \<Rightarrow> sched_update_dto \<Rightarrow> schedule_input" where
  "update_input env t dto =
     (let mode = (case su_mode dto of None \<Rightarrow> st_mode t | Some m \<Rightarrow> m);
          same = (\<lambda>m. mode = m \<and> st_mode t = m)
      in \<lparr>in_mode = mode,
          in_simple = or_else (su_simple dto)
            (if same MSimple then (case st_payload t of PSimple s \<Rightarrow> Some s | _ \<Rightarrow> None) else None),
          in_cron = or_else (su_cron dto) (if same MCron then st_cron t else None),
          in_once = or_else (su_once dto)
            (if same MOnce then Some (iso_string env (case st_run_at env t of None \<Rightarrow> 0 | Some ts \<Rightarrow> ts)) else None)\<rparr>)"

definition reschedules :: "sched_update_dto \<Rightarrow> bool" where
  "reschedules dto \<longleftrightarrow> su_mode dto \<noteq> None \<or> su_simple dto \<noteq> None \<or> su_cron dto \<noteq> None \<or> su_once dto \<noteq> None"

definition merge_for_update :: "sched_env \<Rightarrow> sched_task \<Rightarrow> sched_update_dto \<Rightarrow> int \<Rightarrow> task_patch result" where
  "merge_for_update env t dto now =
     and_then (optional (normalize_action env) (su_action dto)) (\<lambda>act.
     and_then (if reschedules dto
               then and_then (normalize_schedule env (update_input env t dto) now) (\<lambda>n. Inr (Some (no_payload n)))
               else Inr None) (\<lambda>payload.
       Inr \<lparr>mg_name = map_option trim (su_name dto), mg_enabled = su_enabled dto,
            mg_timezone = map_option (\<lambda>z. if z = [] then None else Some z) (su_timezone dto),
            mg_action = act, mg_payload = payload\<rparr>))"

definition compute_next_run :: "sched_env \<Rightarrow> sched_task \<Rightarrow> int \<Rightarrow> int option" where
  "compute_next_run env t now =
     (if \<not> st_enabled t then None
      else if st_mode t = MOnce
      then (case st_run_at env t of None \<Rightarrow> None | Some ts \<Rightarrow> if ts \<noteq> 0 \<and> ts > now then Some ts else None)
      else case st_cron t of None \<Rightarrow> None
        | Some e \<Rightarrow> if e = [] then None
            else if cron_job_error env e (if given (st_timezone t) then st_timezone t else None) \<noteq> None then None
            else cron_next env e (if given (st_timezone t) then st_timezone t else None) now)"

end
