(* ===== verification/Scheduler.thy ===== *)
theory Scheduler
  imports Schedule
begin

text \<open>
  Scheduled tasks at work: the task and run tables, the cron jobs of \<open>cron-registrar.ts\<close>, the
  executor (\<open>scheduled-task-executor.ts\<close>), the service and the handlers of the controller.

  The state holds what they share: the accounts and servers the rows refer to, the tables, the
  registered jobs with the task object each captured, the tasks being run (\<open>runningTasks\<close>), the
  runs under way between the two halves of \<open>execute\<close>, and the actions handed out so far.
  Deleting a server or an account takes the rows along (\<open>ON DELETE CASCADE\<close>).  The clock and
  fresh ids are arguments.
\<close>

datatype run_status = RunRunning | RunSuccess | RunFailed
datatype run_trigger = TriggerCron | TriggerManual | TriggerOnce

record task_run =
  tr_id :: string
  tr_task :: string
  tr_server :: string
  tr_started :: int
  tr_finished :: int
  tr_duration :: int
  tr_status :: run_status
  tr_trigger :: run_trigger
  tr_output :: "string option"
  tr_error :: "string option"

record flight =
  fl_task :: sched_task
  fl_trigger :: run_trigger
  fl_started :: int

record sched_world =
  sw_users :: "user list"
  sw_servers :: "string list"
  sw_tasks :: "sched_task list"
  sw_runs :: "task_run list"
  sw_jobs :: "(string, sched_task) jsmap"
  sw_running :: "string list"
  sw_flights :: "flight list"
  sw_actions :: "sched_task list"

section \<open>Repositories\<close>

definition strepo_find :: "string \<Rightarrow> sched_task list \<Rightarrow> sched_task option" where
  "strepo_find i t = row_find st_id i t"

definition strepo_find_all :: "sched_task list \<Rightarrow> sched_task list" where
  "strepo_find_all t = sort_key (\<lambda>x. - st_created x) t"

definition strepo_find_enabled :: "sched_task list \<Rightarrow> sched_task list" where
  "strepo_find_enabled t = filter st_enabled t"

definition strepo_find_by_server :: "string \<Rightarrow> sched_task list \<Rightarrow> sched_task list" where
  "strepo_find_by_server sid t = sort_key (\<lambda>x. - st_created x) (filter (\<lambda>x. st_server x = sid) t)"

definition strepo_create :: "sched_task \<Rightarrow> sched_task list \<Rightarrow> sched_task list" where
  "strepo_create x t = row_insert x t"

text \<open>An update writes every column but the id and the creation time.\<close>

definition patch_task :: "sched_task \<Rightarrow> sched_task \<Rightarrow> sched_task" where
  "patch_task new old = new\<lparr>st_id := st_id old, st_created := st_created old\<rparr>"

definition strepo_put :: "sched_task \<Rightarrow> sched_task list \<Rightarrow> sched_task list" where
  "strepo_put x t = row_patch st_id patch_task x t"

definition apply_task_patch :: "task_patch \<Rightarrow> int \<Rightarrow> sched_task \<Rightarrow> sched_task" where
  "apply_task_patch p now t =
     t\<lparr>st_name := (case mg_name p of None \<Rightarrow> st_name t | Some n \<Rightarrow> n),
       st_enabled := (case mg_enabled p of None \<Rightarrow> st_enabled t | Some e \<Rightarrow> e),
       st_timezone := (case mg_timezone p of None \<Rightarrow> st_timezone t | Some z \<Rightarrow> z),
       st_action := (case mg_action p of None \<Rightarrow> st_action t | Some a \<Rightarrow> a),
       st_payload := (case mg_payload p of None \<Rightarrow> st_payload t | Some s \<Rightarrow> s),
       st_updated := now\<rparr>"

definition no_patch :: task_patch where
  "no_patch = \<lparr>mg_name = None, mg_enabled = None, mg_timezone = None, mg_action = None, mg_payload = None\<rparr>"

definition strepo_update :: "string \<Rightarrow> task_patch \<Rightarrow> int \<Rightarrow> sched_task list \<Rightarrow> sched_task option \<times> sched_task list" where
  "strepo_update i p now t = (case strepo_find i t of
     None \<Rightarrow> (None, t)
   | Some old \<Rightarrow> (let t' = strepo_put (apply_task_patch p now old) t in (strepo_find i t', t')))"

definition strepo_delete :: "string \<Rightarrow> sched_task list \<Rightarrow> sched_task list" where
  "strepo_delete i t = row_delete st_id i t"

lemma patch_task_keeps_key: "keeps_key st_id patch_task"
  by (simp add: keeps_key_def patch_task_def)

interpretation strp: table st_id patch_task strepo_find strepo_create strepo_put strepo_delete "rows_ok st_id"
  using table_rows [OF patch_task_keeps_key]
  unfolding strepo_find_def [abs_def] strepo_create_def [abs_def] strepo_put_def [abs_def]
    strepo_delete_def [abs_def] .

subsection \<open>Runs\<close>

definition newest_runs :: "task_run list \<Rightarrow> task_run list" where
  "newest_runs rs = sort_key (\<lambda>r. - tr_started r) rs"

definition page :: "int option \<Rightarrow> int option \<Rightarrow> 'a list \<Rightarrow> 'a list" where
  "page lim off xs =
     (let l = min (max (case lim of None \<Rightarrow> 50 | Some n \<Rightarrow> n) 1) 500;
          k = max (case off of None \<Rightarrow> 0 | Some n \<Rightarrow> n) 0
      in take (nat l) (drop (nat k) xs))"

definition rrepo_find :: "string \<Rightarrow> task_run list \<Rightarrow> task_run option" where
  "rrepo_find i rs = row_find tr_id i rs"

definition rrepo_find_by_task :: "string \<Rightarrow> int option \<Rightarrow> int option \<Rightarrow> task_run list \<Rightarrow> task_run list" where
  "rrepo_find_by_task tid lim off rs = page lim off (newest_runs (filter (\<lambda>r. tr_task r = tid) rs))"

text \<open>An empty task filter is falsy and does not filter; so is a missing status.\<close>

definition run_matches :: "string \<Rightarrow> string option \<Rightarrow> run_status option \<Rightarrow> task_run \<Rightarrow> bool" where
  "run_matches sid tid st r \<longleftrightarrow> tr_server r = sid \<and> (given tid \<longrightarrow> tid = Some (tr_task r)) \<and>
     (case st of None \<Rightarrow> True | Some s \<Rightarrow> tr_status r = s)"

definition rrepo_find_by_server ::
  "string \<Rightarrow> string option \<Rightarrow> run_status option \<Rightarrow> int option \<Rightarrow> int option \<Rightarrow> task_run list \<Rightarrow> task_run list" where
  "rrepo_find_by_server sid tid st lim off rs = page lim off (newest_runs (filter (run_matches sid tid st) rs))"

definition rrepo_count_by_server :: "string \<Rightarrow> string option \<Rightarrow> run_status option \<Rightarrow> task_run list \<Rightarrow> nat" where
  "rrepo_count_by_server sid tid st rs = length (filter (run_matches sid tid st) rs)"

definition rrepo_prune :: "string \<Rightarrow> nat \<Rightarrow> task_run list \<Rightarrow> task_run list" where
  "rrepo_prune tid keep rs =
     (let kept = map tr_id (take keep (newest_runs (filter (\<lambda>r. tr_task r = tid) rs)))
      in filter (\<lambda>r. \<not> (tr_task r = tid \<and> tr_id r \<notin> set kept)) rs)"

text \<open>The id is the primary key, the task of a run a foreign key.\<close>

definition rrepo_create :: "task_run \<Rightarrow> sched_world \<Rightarrow> sched_world result" where
  "rrepo_create r w =
     (if rrepo_find (tr_id r) (sw_runs w) \<noteq> None then fail Internal ''UNIQUE constraint failed''
      else if strepo_find (tr_task r) (sw_tasks w) = None then fail Internal ''FOREIGN KEY constraint failed''
      else Inr (w\<lparr>sw_runs := row_insert r (sw_runs w)\<rparr>))"

section \<open>The executor\<close>

definition runs_history_limit :: nat where "runs_history_limit = 100"

definition assert_owner :: "sched_world \<Rightarrow> sched_task \<Rightarrow> unit result" where
  "assert_owner w t = (case row_find u_id (st_owner t) (sw_users w) of
     None \<Rightarrow> fail Internal ''Task owner no longer exists''
   | Some owner \<Rightarrow>
       if \<not> can_run_action (Some owner) (action_type_of (st_action t)) (st_server t)
       then fail Internal ''Task owner can no longer run this action on the server'' else Inr ())"

definition skipped_run :: "sched_task \<Rightarrow> run_trigger \<Rightarrow> int \<Rightarrow> task_run" where
  "skipped_run t tg now = \<lparr>tr_id = ''skipped'', tr_task = st_id t, tr_server = st_server t, tr_started = now,
     tr_finished = now, tr_duration = 0, tr_status = RunFailed, tr_trigger = tg, tr_output = None,
     tr_error = Some ''previous run still in progress''\<rparr>"

datatype outcome = Output "string option" | Raised string

definition finished_run ::
  "sched_task \<Rightarrow> run_trigger \<Rightarrow> int \<Rightarrow> outcome \<Rightarrow> string \<Rightarrow> int \<Rightarrow> task_run" where
  "finished_run t tg started out rid now =
     \<lparr>tr_id = rid, tr_task = st_id t, tr_server = st_server t, tr_started = started, tr_finished = now,
      tr_duration = now - started,
      tr_status = (case out of Output _ \<Rightarrow> RunSuccess | Raised _ \<Rightarrow> RunFailed), tr_trigger = tg,
      tr_output = (case out of Output x \<Rightarrow> x | Raised _ \<Rightarrow> None),
      tr_error = (case out of Output _ \<Rightarrow> None | Raised e \<Rightarrow> Some (take 1000 e))\<rparr>"

text \<open>The second half: the guard is released, the run recorded, the history cut.\<close>

definition execute_end ::
  "sched_world \<Rightarrow> sched_task \<Rightarrow> run_trigger \<Rightarrow> int \<Rightarrow> outcome \<Rightarrow> string \<Rightarrow> int \<Rightarrow> task_run result \<times> sched_world" where
  "execute_end w t tg started out rid now =
     (let w1 = w\<lparr>sw_running := filter (\<lambda>i. i \<noteq> st_id t) (sw_running w)\<rparr>;
          r = finished_run t tg started out rid now
      in case rrepo_create r w1 of
           Inl e \<Rightarrow> (Inl e, w1)
         | Inr w2 \<Rightarrow> (Inr r, w2\<lparr>sw_runs := rrepo_prune (st_id t) runs_history_limit (sw_runs w2)\<rparr>))"

text \<open>
  The first half, up to the await of the action: skipped, refused (the second half follows at
  once), or the action is handed out and the run is under way.
\<close>

datatype begun = Ended "task_run result" | UnderWay flight

definition execute_begin ::
  "sched_world \<Rightarrow> sched_task \<Rightarrow> run_trigger \<Rightarrow> string \<Rightarrow> int \<Rightarrow> begun \<times> sched_world" where
  "execute_begin w t tg rid now =
     (if st_id t \<in> set (sw_running w) then (Ended (Inr (skipped_run t tg now)), w)
      else let w1 = w\<lparr>sw_running := st_id t # sw_running w\<rparr> in
        case assert_owner w1 t of
          Inl e \<Rightarrow> (let (r, w2) = execute_end w1 t tg now (Raised (err_msg e)) rid now in (Ended r, w2))
        | Inr _ \<Rightarrow> (let f = \<lparr>fl_task = t, fl_trigger = tg, fl_started = now\<rparr>
            in (UnderWay f, w1\<lparr>sw_flights := f # sw_flights w1, sw_actions := sw_actions w1 @ [t]\<rparr>)))"

definition execute_return :: "sched_world \<Rightarrow> flight \<Rightarrow> outcome \<Rightarrow> string \<Rightarrow> int \<Rightarrow> task_run result \<times> sched_world" where
  "execute_return w f out rid now =
     execute_end (w\<lparr>sw_flights := remove1 f (sw_flights w)\<rparr>) (fl_task f) (fl_trigger f) (fl_started f) out rid now"

section \<open>Cron jobs\<close>

text \<open>A job keeps the task object it was registered with.\<close>

definition cron_register :: "sched_env \<Rightarrow> sched_world \<Rightarrow> sched_task \<Rightarrow> int \<Rightarrow> unit result \<times> sched_world" where
  "cron_register env w t now =
     (let zone = (if given (st_timezone t) then st_timezone t else None);
          added = w\<lparr>sw_jobs := jset (sw_jobs w) (st_id t) t\<rparr>
      in if st_mode t = MOnce
         then (case st_run_at env t of
            None \<Rightarrow> (Inr (), w)
          | Some ts \<Rightarrow> if ts = 0 \<or> ts \<le> now then (Inr (), w)
              else (case date_job_error env zone of
                  Some msg \<Rightarrow> (fail Internal msg, w)
                | None \<Rightarrow> (Inr (), added)))
         else (case st_cron t of
            None \<Rightarrow> (Inr (), w)
          | Some e \<Rightarrow> if e = [] then (Inr (), w)
              else (case cron_job_error env e zone of
                  Some msg \<Rightarrow> (fail Internal msg, w)
                | None \<Rightarrow> (Inr (), added))))"

definition cron_unregister :: "sched_world \<Rightarrow> string \<Rightarrow> sched_world" where
  "cron_unregister w i = w\<lparr>sw_jobs := jdel (sw_jobs w) i\<rparr>"

definition cron_unregister_all :: "sched_world \<Rightarrow> sched_world" where
  "cron_unregister_all w = w\<lparr>sw_jobs := []\<rparr>"

text \<open>A job fires; a run it cannot record is only logged.\<close>

definition cron_fire :: "sched_world \<Rightarrow> sched_task \<Rightarrow> string \<Rightarrow> int \<Rightarrow> sched_world" where
  "cron_fire w t rid now =
     (if st_mode t = MOnce
      then let w1 = snd (execute_begin w t TriggerOnce rid now);
               (_, rows) = strepo_update (st_id t) (no_patch\<lparr>mg_enabled := Some False\<rparr>) now (sw_tasks w1)
           in cron_unregister (w1\<lparr>sw_tasks := rows\<rparr>) (st_id t)
      else snd (execute_begin w t TriggerCron rid now))"

section \<open>The service\<close>

definition sched_find :: "sched_world \<Rightarrow> string \<Rightarrow> sched_task result" where
  "sched_find w i = (case strepo_find i (sw_tasks w) of
     None \<Rightarrow> fail NotFound ''Scheduled task not found'' | Some t \<Rightarrow> Inr t)"

definition register_if_enabled :: "sched_env \<Rightarrow> sched_world \<Rightarrow> sched_task \<Rightarrow> int \<Rightarrow> sched_task result \<times> sched_world" where
  "register_if_enabled env w t now =
     (if st_enabled t
      then let (r, w') = cron_register env w t now in (and_then r (\<lambda>_. Inr t), w')
      else (Inr t, w))"

record create_task_dto =
  cd_server :: string
  cd_name :: string
  cd_enabled :: bool
  cd_schedule :: schedule_input
  cd_timezone :: "string option"
  cd_action :: action_dto

definition new_task ::
  "sched_env \<Rightarrow> sched_world \<Rightarrow> create_task_dto \<Rightarrow> user \<Rightarrow> string \<Rightarrow> int \<Rightarrow> sched_task result" where
  "new_task env w dto user tid now =
     (if cd_server dto \<notin> set (sw_servers w) then fail NotFound ''Server not found''
      else and_then (normalize_schedule env (cd_schedule dto) now) (\<lambda>n.
        and_then (normalize_action env (cd_action dto)) (\<lambda>act.
        and_then (assert_can_run_action user (ad_type (cd_action dto)) (cd_server dto)) (\<lambda>_.
          Inr \<lparr>st_id = tid, st_server = cd_server dto, st_name = trim (cd_name dto), st_enabled = cd_enabled dto,
               st_payload = no_payload n, st_timezone = cd_timezone dto, st_action = act, st_owner = u_id user,
               st_created = now, st_updated = now\<rparr>))))"

definition sched_create ::
  "sched_env \<Rightarrow> sched_world \<Rightarrow> create_task_dto \<Rightarrow> user \<Rightarrow> string \<Rightarrow> int \<Rightarrow> sched_task result \<times> sched_world" where
  "sched_create env w dto user tid now = (case new_task env w dto user tid now of
     Inl e \<Rightarrow> (Inl e, w)
   | Inr t \<Rightarrow>
       if strepo_find tid (sw_tasks w) \<noteq> None then (fail Internal ''UNIQUE constraint failed'', w)
       else register_if_enabled env (w\<lparr>sw_tasks := strepo_create t (sw_tasks w)\<rparr>) t now)"

definition sched_update ::
  "sched_env \<Rightarrow> sched_world \<Rightarrow> string \<Rightarrow> sched_update_dto \<Rightarrow> user \<Rightarrow> int \<Rightarrow> sched_task result \<times> sched_world" where
  "sched_update env w i dto user now = (case strepo_find i (sw_tasks w) of
     None \<Rightarrow> (fail NotFound ''Scheduled task not found'', w)
   | Some t \<Rightarrow> (case and_then (merge_for_update env t dto now) (\<lambda>m.
        and_then (assert_can_run_action user
          (case mg_action m of None \<Rightarrow> action_type_of (st_action t) | Some a \<Rightarrow> action_type_of a) (st_server t))
          (\<lambda>_. Inr m)) of
       Inl e \<Rightarrow> (Inl e, w)
     | Inr m \<Rightarrow> (let (found, rows) = strepo_update i m now (sw_tasks w); w1 = w\<lparr>sw_tasks := rows\<rparr> in
         case found of
           None \<Rightarrow> (fail NotFound ''Scheduled task not found'', w1)
         | Some u \<Rightarrow> register_if_enabled env (cron_unregister w1 (st_id u)) u now)))"

definition sched_delete :: "sched_world \<Rightarrow> string \<Rightarrow> unit result \<times> sched_world" where
  "sched_delete w i = (case strepo_find i (sw_tasks w) of
     None \<Rightarrow> (fail NotFound ''Scheduled task not found'', w)
   | Some t \<Rightarrow> (let w1 = cron_unregister w i in
       (Inr (), w1\<lparr>sw_tasks := strepo_delete i (sw_tasks w1),
                  sw_runs := filter (\<lambda>r. tr_task r \<noteq> i) (sw_runs w1)\<rparr>)))"

definition sched_toggle :: "sched_env \<Rightarrow> sched_world \<Rightarrow> string \<Rightarrow> int \<Rightarrow> sched_task result \<times> sched_world" where
  "sched_toggle env w i now = (case strepo_find i (sw_tasks w) of
     None \<Rightarrow> (fail NotFound ''Scheduled task not found'', w)
   | Some t \<Rightarrow> (let (found, rows) = strepo_update i (no_patch\<lparr>mg_enabled := Some (\<not> st_enabled t)\<rparr>) now (sw_tasks w);
       w1 = cron_unregister (w\<lparr>sw_tasks := rows\<rparr>) i in
       case found of None \<Rightarrow> (fail Internal [], w1) | Some u \<Rightarrow> register_if_enabled env w1 u now))"

definition sched_run_now :: "sched_world \<Rightarrow> string \<Rightarrow> string \<Rightarrow> int \<Rightarrow> begun result \<times> sched_world" where
  "sched_run_now w i rid now = (case strepo_find i (sw_tasks w) of
     None \<Rightarrow> (fail NotFound ''Scheduled task not found'', w)
   | Some t \<Rightarrow> (let (b, w1) = execute_begin w t TriggerManual rid now in (Inr b, w1)))"

text \<open>Start of the panel: the registry is empty, a task that cannot be registered is logged.\<close>

definition sched_boot :: "sched_env \<Rightarrow> sched_world \<Rightarrow> int \<Rightarrow> sched_world" where
  "sched_boot env w now =
     foldl (\<lambda>x t. snd (cron_register env x t now)) (w\<lparr>sw_jobs := []\<rparr>) (strepo_find_enabled (sw_tasks w))"

text \<open>Deleting a server or an account, as the scheduler sees it.\<close>

definition drop_tasks :: "(sched_task \<Rightarrow> bool) \<Rightarrow> sched_world \<Rightarrow> sched_world" where
  "drop_tasks P w =
     w\<lparr>sw_tasks := filter (\<lambda>t. \<not> P t) (sw_tasks w),
       sw_runs := filter (\<lambda>r. \<not> (\<exists>t \<in> set (sw_tasks w). P t \<and> st_id t = tr_task r)) (sw_runs w)\<rparr>"

definition sched_server_deleted :: "sched_world \<Rightarrow> string \<Rightarrow> sched_world" where
  "sched_server_deleted w sid =
     drop_tasks (\<lambda>t. st_server t = sid) (w\<lparr>sw_servers := filter (\<lambda>s. s \<noteq> sid) (sw_servers w)\<rparr>)"

definition sched_user_deleted :: "sched_world \<Rightarrow> string \<Rightarrow> sched_world" where
  "sched_user_deleted w uid =
     drop_tasks (\<lambda>t. st_owner t = uid) (w\<lparr>sw_users := filter (\<lambda>u. u_id u \<noteq> uid) (sw_users w)\<rparr>)"

section \<open>The controller\<close>

text \<open>Tasks of servers a user cannot see look like they do not exist.\<close>

definition accessible_task :: "sched_world \<Rightarrow> string \<Rightarrow> user \<Rightarrow> sched_task result" where
  "accessible_task w i user = and_then (sched_find w i) (\<lambda>t.
     if \<not> can_access_server (Some user) (st_server t) then fail NotFound ''Scheduled task not found'' else Inr t)"

definition handler_update ::
  "sched_env \<Rightarrow> sched_world \<Rightarrow> string \<Rightarrow> sched_update_dto \<Rightarrow> user \<Rightarrow> int \<Rightarrow> sched_task result \<times> sched_world" where
  "handler_update env w i dto user now = (case accessible_task w i user of
     Inl e \<Rightarrow> (Inl e, w) | Inr _ \<Rightarrow> sched_update env w i dto user now)"

definition handler_create ::
  "sched_env \<Rightarrow> sched_world \<Rightarrow> string \<Rightarrow> create_task_dto \<Rightarrow> user \<Rightarrow> string \<Rightarrow> int \<Rightarrow> sched_task result \<times> sched_world" where
  "handler_create env w sid dto user tid now = sched_create env w (dto\<lparr>cd_server := sid\<rparr>) user tid now"

definition handler_delete :: "sched_world \<Rightarrow> string \<Rightarrow> user \<Rightarrow> unit result \<times> sched_world" where
  "handler_delete w i user = (case accessible_task w i user of
     Inl e \<Rightarrow> (Inl e, w) | Inr _ \<Rightarrow> sched_delete w i)"

definition handler_toggle :: "sched_env \<Rightarrow> sched_world \<Rightarrow> string \<Rightarrow> user \<Rightarrow> int \<Rightarrow> sched_task result \<times> sched_world" where
  "handler_toggle env w i user now = (case accessible_task w i user of
     Inl e \<Rightarrow> (Inl e, w) | Inr _ \<Rightarrow> sched_toggle env w i now)"

definition handler_run_now :: "sched_world \<Rightarrow> string \<Rightarrow> user \<Rightarrow> string \<Rightarrow> int \<Rightarrow> begun result \<times> sched_world" where
  "handler_run_now w i user rid now = (case accessible_task w i user of
     Inl e \<Rightarrow> (Inl e, w) | Inr _ \<Rightarrow> sched_run_now w i rid now)"

end
