(* ===== verification/Scheduler_Steps.thy ===== *)
theory Scheduler_Steps
  imports Scheduler
begin

text \<open>
  The scheduler as a state machine: requests, firing jobs and returning actions in any order, and
  what holds in every reachable state.
\<close>

datatype sched_op =
    OpCreateTask create_task_dto user string int
  | OpUpdateTask string sched_update_dto user int
  | OpDeleteTask string
  | OpToggleTask string int
  | OpRunNow string string int
  | OpFire string string int
  | OpReturn flight outcome string int
  | OpBoot int

fun sched_step :: "sched_env \<Rightarrow> sched_world \<Rightarrow> sched_op \<Rightarrow> sched_world" where
  "sched_step env w (OpCreateTask dto u tid now) = snd (sched_create env w dto u tid now)"
| "sched_step env w (OpUpdateTask i dto u now) = snd (sched_update env w i dto u now)"
| "sched_step env w (OpDeleteTask i) = snd (sched_delete w i)"
| "sched_step env w (OpToggleTask i now) = snd (sched_toggle env w i now)"
| "sched_step env w (OpRunNow i rid now) = snd (sched_run_now w i rid now)"
| "sched_step env w (OpFire i rid now) =
     (case jget (sw_jobs w) i of None \<Rightarrow> w | Some t \<Rightarrow> cron_fire w t rid now)"
| "sched_step env w (OpReturn f out rid now) =
     (if f \<in> set (sw_flights w) then snd (execute_return w f out rid now) else w)"
| "sched_step env w (OpBoot now) = sched_boot env w now"

datatype world_op = OpSched sched_op | OpServerDeleted string | OpUserDeleted string

fun world_step :: "sched_env \<Rightarrow> sched_world \<Rightarrow> world_op \<Rightarrow> sched_world" where
  "world_step env w (OpSched e) = sched_step env w e"
| "world_step env w (OpServerDeleted sid) = sched_server_deleted w sid"
| "world_step env w (OpUserDeleted uid) = sched_user_deleted w uid"

section \<open>What the operations change\<close>

lemma strepo_update_fst: "fst (strepo_update i p now t) = map_option (apply_task_patch p now) (strepo_find i t)"
  and strepo_update_find:
    "strepo_find j (snd (strepo_update i p now t)) =
       (if j = i then map_option (apply_task_patch p now) (strepo_find i t) else strepo_find j t)"
proof -
  have same: "patch_task (apply_task_patch p now x) x = apply_task_patch p now x" for x
    by (simp add: patch_task_def apply_task_patch_def)
  have id: "st_id (apply_task_patch p now x) = st_id x" for x by (simp add: apply_task_patch_def)
  have key: "strepo_find i t = Some x \<Longrightarrow> st_id x = i" for x by (rule strp.find_key)
  show "fst (strepo_update i p now t) = map_option (apply_task_patch p now) (strepo_find i t)"
    "strepo_find j (snd (strepo_update i p now t)) =
       (if j = i then map_option (apply_task_patch p now) (strepo_find i t) else strepo_find j t)"
    using key by (auto simp: strepo_update_def Let_def strp.find_upd id same split: option.splits)
qed

lemma strepo_update_ok: "rows_ok st_id t \<Longrightarrow> rows_ok st_id (snd (strepo_update i p now t))"
  by (simp add: strepo_update_def Let_def strp.keys_ok_upd split: option.splits)

lemma execute_end_fields [simp]:
  "sw_tasks (snd (execute_end w t tg started out rid now)) = sw_tasks w"
  "sw_jobs (snd (execute_end w t tg started out rid now)) = sw_jobs w"
  "sw_users (snd (execute_end w t tg started out rid now)) = sw_users w"
  "sw_servers (snd (execute_end w t tg started out rid now)) = sw_servers w"
  "sw_flights (snd (execute_end w t tg started out rid now)) = sw_flights w"
  "sw_actions (snd (execute_end w t tg started out rid now)) = sw_actions w"
  "sw_running (snd (execute_end w t tg started out rid now)) = filter (\<lambda>i. i \<noteq> st_id t) (sw_running w)"
  by (simp_all add: execute_end_def rrepo_create_def Let_def)

lemma execute_begin_fields [simp]:
  "sw_tasks (snd (execute_begin w t tg rid now)) = sw_tasks w"
  "sw_jobs (snd (execute_begin w t tg rid now)) = sw_jobs w"
  "sw_users (snd (execute_begin w t tg rid now)) = sw_users w"
  "sw_servers (snd (execute_begin w t tg rid now)) = sw_servers w"
  by (auto simp: execute_begin_def Let_def split_beta split: sum.splits)

lemma cron_register_fields [simp]:
  "sw_tasks (snd (cron_register env w t now)) = sw_tasks w"
  "sw_runs (snd (cron_register env w t now)) = sw_runs w"
  "sw_flights (snd (cron_register env w t now)) = sw_flights w"
  "sw_running (snd (cron_register env w t now)) = sw_running w"
  by (auto simp: cron_register_def Let_def split: option.splits)

lemma cron_register_jobs:
  "sw_jobs (snd (cron_register env w t now)) = sw_jobs w \<or>
   sw_jobs (snd (cron_register env w t now)) = jset (sw_jobs w) (st_id t) t"
  by (auto simp: cron_register_def Let_def split: option.splits)

lemma register_if_enabled_snd:
  "snd (register_if_enabled env w t now) = (if st_enabled t then snd (cron_register env w t now) else w)"
  by (simp add: register_if_enabled_def split_beta)

section \<open>Jobs follow the rows\<close>

definition jobs_inv :: "sched_world \<Rightarrow> bool" where
  "jobs_inv w \<longleftrightarrow> rows_ok st_id (sw_tasks w) \<and>
     (\<forall>i t. jget (sw_jobs w) i = Some t \<longrightarrow> st_enabled t \<and> strepo_find i (sw_tasks w) = Some t)"

lemma jobs_inv_register:
  assumes "jobs_inv w" and "strepo_find (st_id t) (sw_tasks w) = Some t" and "st_enabled t"
  shows "jobs_inv (snd (cron_register env w t now))"
  using assms cron_register_jobs [of env w t now] by (auto simp: jobs_inv_def split: if_splits)

lemma jobs_inv_register_if_enabled:
  assumes "jobs_inv w" and "strepo_find (st_id t) (sw_tasks w) = Some t"
  shows "jobs_inv (snd (register_if_enabled env w t now))"
  using assms by (simp add: register_if_enabled_snd jobs_inv_register)

text \<open>A row may change while its job is taken away.\<close>

lemma jobs_inv_update_unregister:
  assumes "jobs_inv w"
  shows "jobs_inv (cron_unregister (w\<lparr>sw_tasks := snd (strepo_update i p now (sw_tasks w))\<rparr>) i)"
  using assms by (auto simp: jobs_inv_def cron_unregister_def strepo_update_find strepo_update_ok)

lemma jobs_inv_cong: "sw_tasks w' = sw_tasks w \<Longrightarrow> sw_jobs w' = sw_jobs w \<Longrightarrow> jobs_inv w' = jobs_inv w"
  by (simp add: jobs_inv_def)

lemma jobs_inv_create:
  assumes "jobs_inv w" shows "jobs_inv (snd (sched_create env w dto u tid now))"
proof (cases "new_task env w dto u tid now")
  case (Inl e)
  with assms show ?thesis by (simp add: sched_create_def)
next
  case (Inr t)
  have id: "st_id t = tid" using Inr by (auto simp: new_task_def and_then_Inr_iff split: if_splits)
  show ?thesis
  proof (cases "strepo_find tid (sw_tasks w) = None")
    case False
    with assms Inr show ?thesis by (simp add: sched_create_def)
  next
    case True
    let ?w = "w\<lparr>sw_tasks := strepo_create t (sw_tasks w)\<rparr>"
    have "strepo_find j (sw_tasks ?w) = (if j = tid then Some t else strepo_find j (sw_tasks w))" for j
      using True id by (simp add: strp.find_ins)
    then have "jobs_inv ?w" "strepo_find (st_id t) (sw_tasks ?w) = Some t"
      using assms True id by (auto simp: jobs_inv_def strp.keys_ok_ins)
    with Inr True show ?thesis by (simp add: sched_create_def jobs_inv_register_if_enabled)
  qed
qed

lemma jobs_inv_put:
  assumes "jobs_inv w" and "fst (strepo_update i p now (sw_tasks w)) = Some u"
  shows "jobs_inv (snd (register_if_enabled env
     (cron_unregister (w\<lparr>sw_tasks := snd (strepo_update i p now (sw_tasks w))\<rparr>) (st_id u)) u now))"
proof -
  have u: "strepo_find i (snd (strepo_update i p now (sw_tasks w))) = Some u"
    using assms(2) by (simp add: strepo_update_fst strepo_update_find)
  then have "st_id u = i" by (rule strp.find_key)
  with u jobs_inv_update_unregister [OF assms(1), of i p now] show ?thesis
    by (intro jobs_inv_register_if_enabled) (simp_all add: cron_unregister_def)
qed

lemma jobs_inv_update: "jobs_inv w \<Longrightarrow> jobs_inv (snd (sched_update env w i dto u now))"
  using jobs_inv_put [of w i _ now _ env]
  by (auto simp: sched_update_def Let_def split_beta strepo_update_fst split: option.splits sum.splits)

lemma jobs_inv_delete:
  assumes "jobs_inv w" shows "jobs_inv (snd (sched_delete w i))"
  using assms by (auto simp: sched_delete_def jobs_inv_def cron_unregister_def Let_def strp.find_del strp.keys_ok_del
      split: option.splits)

lemma jobs_inv_toggle: "jobs_inv w \<Longrightarrow> jobs_inv (snd (sched_toggle env w i now))"
proof -
  assume inv: "jobs_inv w"
  show ?thesis
  proof (cases "strepo_find i (sw_tasks w)")
    case None
    with inv show ?thesis by (simp add: sched_toggle_def)
  next
    case (Some t)
    let ?p = "no_patch\<lparr>mg_enabled := Some (\<not> st_enabled t)\<rparr>"
    have fst: "fst (strepo_update i ?p now (sw_tasks w)) = Some (apply_task_patch ?p now t)"
      by (simp add: strepo_update_fst Some)
    have "st_id (apply_task_patch ?p now t) = i"
      using strp.find_key [OF Some] by (simp add: apply_task_patch_def)
    with jobs_inv_put [OF inv fst, of env] fst Some show ?thesis
      by (simp add: sched_toggle_def Let_def split_beta)
  qed
qed

lemma jobs_inv_begin: "jobs_inv w \<Longrightarrow> jobs_inv (snd (execute_begin w t tg rid now))"
  by (simp add: jobs_inv_def)

lemma jobs_inv_return: "jobs_inv w \<Longrightarrow> jobs_inv (snd (execute_return w f out rid now))"
  by (simp add: jobs_inv_def execute_return_def)

lemma jobs_inv_run_now: "jobs_inv w \<Longrightarrow> jobs_inv (snd (sched_run_now w i rid now))"
  by (simp add: sched_run_now_def split_beta jobs_inv_begin split: option.splits)

lemma jobs_inv_fire:
  assumes "jobs_inv w" shows "jobs_inv (cron_fire w t rid now)"
proof (cases "st_mode t = MOnce")
  case True
  with jobs_inv_update_unregister [OF jobs_inv_begin [OF assms]] show ?thesis
    by (simp add: cron_fire_def Let_def split_beta)
next
  case False
  with jobs_inv_begin [OF assms] show ?thesis by (simp add: cron_fire_def)
qed

lemma jobs_inv_boot:
  assumes "jobs_inv w" shows "jobs_inv (sched_boot env w now)"
proof -
  have "jobs_inv (foldl (\<lambda>x t. snd (cron_register env x t now)) x ts)"
    if "jobs_inv x" "\<forall>t \<in> set ts. st_enabled t \<and> strepo_find (st_id t) (sw_tasks x) = Some t" for x ts
    using that by (induction ts arbitrary: x) (simp_all add: jobs_inv_register)
  moreover have "jobs_inv (w\<lparr>sw_jobs := []\<rparr>)" using assms by (simp add: jobs_inv_def)
  moreover have "\<forall>t \<in> set (strepo_find_enabled (sw_tasks w)). st_enabled t \<and> strepo_find (st_id t) (sw_tasks w) = Some t"
    using assms by (auto simp: strepo_find_enabled_def strepo_find_def jobs_inv_def intro: row_find_in)
  ultimately show ?thesis by (simp add: sched_boot_def)
qed

interpretation jobm: machine "sched_step env" jobs_inv for env
proof
  fix w :: sched_world and e :: sched_op
  assume inv: "jobs_inv w"
  then show "jobs_inv (sched_step env w e)"
    by (cases e)
      (simp_all add: jobs_inv_create jobs_inv_update jobs_inv_delete jobs_inv_toggle jobs_inv_run_now jobs_inv_fire
         jobs_inv_return jobs_inv_boot split: option.splits)
qed

section \<open>One run at a time, and a bounded history\<close>

definition flight_ids :: "sched_world \<Rightarrow> string list" where
  "flight_ids w = map (\<lambda>f. st_id (fl_task f)) (sw_flights w)"

definition runs_of :: "string \<Rightarrow> task_run list \<Rightarrow> task_run list" where
  "runs_of tid rs = filter (\<lambda>r. tr_task r = tid) rs"

definition flights_inv :: "sched_world \<Rightarrow> bool" where
  "flights_inv w \<longleftrightarrow> distinct (flight_ids w) \<and> set (sw_running w) = set (flight_ids w)"

definition history_inv :: "sched_world \<Rightarrow> bool" where
  "history_inv w \<longleftrightarrow> rows_ok tr_id (sw_runs w) \<and> (\<forall>tid. length (runs_of tid (sw_runs w)) \<le> runs_history_limit)"

lemma prune_other: "tid \<noteq> i \<Longrightarrow> runs_of tid (rrepo_prune i k rs) = runs_of tid rs"
  by (auto simp: rrepo_prune_def runs_of_def Let_def intro!: filter_cong)

lemma prune_own:
  assumes "rows_ok tr_id rs"
  shows "length (runs_of i (rrepo_prune i k rs)) \<le> k"
proof -
  let ?kept = "take k (newest_runs (runs_of i rs))"
  have "rows_ok tr_id (runs_of i rs)" using assms by (simp add: runs_of_def rows_ok_filter)
  then have d: "distinct (runs_of i (rrepo_prune i k rs))"
    using assms by (auto simp: runs_of_def rrepo_prune_def Let_def rows_ok_def distinct_map)
  have sub: "set ?kept \<subseteq> set rs"
    using set_take_subset [of k "newest_runs (runs_of i rs)"] by (auto simp: newest_runs_def runs_of_def)
  have "set (runs_of i (rrepo_prune i k rs)) \<subseteq> set ?kept"
  proof
    fix r assume "r \<in> set (runs_of i (rrepo_prune i k rs))"
    then have "r \<in> set rs" "tr_id r \<in> tr_id ` set ?kept"
      by (simp_all add: runs_of_def rrepo_prune_def Let_def)
    then obtain q where q: "q \<in> set ?kept" "tr_id r = tr_id q" and r: "r \<in> set rs" by blast
    with sub have "q \<in> set rs" by blast
    with row_key_eq [OF assms r this q(2)] q(1) show "r \<in> set ?kept" by simp
  qed
  then have "card (set (runs_of i (rrepo_prune i k rs))) \<le> card (set ?kept)" by (simp add: card_mono)
  also have "\<dots> \<le> k" using card_length [of ?kept] by simp
  finally show ?thesis using d by (simp add: distinct_card)
qed

lemma prune_ok: "rows_ok tr_id rs \<Longrightarrow> rows_ok tr_id (rrepo_prune i k rs)"
  by (simp add: rrepo_prune_def Let_def rows_ok_filter)

lemma execute_end_runs:
  obtains "sw_runs (snd (execute_end w t tg started out rid now)) = sw_runs w"
  | r where "tr_id r \<notin> tr_id ` set (sw_runs w)" and "tr_task r = st_id t"
      and "sw_runs (snd (execute_end w t tg started out rid now)) =
        rrepo_prune (st_id t) runs_history_limit (row_insert r (sw_runs w))"
proof (cases "rrepo_create (finished_run t tg started out rid now)
    (w\<lparr>sw_running := filter (\<lambda>i. i \<noteq> st_id t) (sw_running w)\<rparr>)")
  case (Inl e)
  with that(1) show ?thesis by (simp add: execute_end_def Let_def)
next
  case (Inr w2)
  then have "rid \<notin> tr_id ` set (sw_runs w)" "sw_runs w2 = row_insert (finished_run t tg started out rid now) (sw_runs w)"
    by (auto simp: rrepo_create_def finished_run_def rrepo_find_def row_find_None_iff split: if_splits)
  with Inr that(2) [of "finished_run t tg started out rid now"] show ?thesis
    by (simp add: execute_end_def Let_def finished_run_def)
qed

lemma history_inv_end:
  assumes "history_inv w" shows "history_inv (snd (execute_end w t tg started out rid now))"
proof (cases rule: execute_end_runs [of w t tg started out rid now])
  case 1
  with assms show ?thesis by (simp add: history_inv_def)
next
  case (2 r)
  let ?w = "snd (execute_end w t tg started out rid now)"
  have ok: "rows_ok tr_id (row_insert r (sw_runs w))"
    using assms 2(1) by (intro rows_ok_insert) (simp_all add: history_inv_def row_find_None_iff)
  have "length (runs_of tid (sw_runs ?w)) \<le> runs_history_limit" for tid
  proof (cases "tid = st_id t")
    case True
    with prune_own [OF ok] 2(3) show ?thesis by simp
  next
    case False
    then have "runs_of tid (sw_runs ?w) = runs_of tid (sw_runs w)"
      unfolding 2(3) using prune_other [OF False] 2(2) by (simp add: runs_of_def row_insert_def)
    with assms show ?thesis by (simp add: history_inv_def)
  qed
  with prune_ok [OF ok] 2(3) show ?thesis by (simp add: history_inv_def)
qed

lemma flights_inv_end_rejected:
  assumes "flights_inv w" and "i \<notin> set (sw_running w)" and "sw_running w' = filter (\<lambda>j. j \<noteq> i) (i # sw_running w)"
    and "sw_flights w' = sw_flights w"
  shows "flights_inv w'"
proof -
  have "set (sw_running w') = set (sw_running w)" using assms(2,3) by auto
  with assms(1,4) show ?thesis by (simp add: flights_inv_def flight_ids_def)
qed

lemma flights_inv_begin:
  assumes "flights_inv w" shows "flights_inv (snd (execute_begin w t tg rid now))"
proof (cases "st_id t \<in> set (sw_running w)")
  case True
  with assms show ?thesis by (simp add: execute_begin_def)
next
  case False
  show ?thesis
  proof (cases "assert_owner (w\<lparr>sw_running := st_id t # sw_running w\<rparr>) t")
    case (Inl e)
    with False show ?thesis
      by (intro flights_inv_end_rejected [OF assms False]) (simp_all add: execute_begin_def Let_def split_beta)
  next
    case (Inr x)
    with False assms show ?thesis
      by (auto simp: execute_begin_def Let_def flights_inv_def flight_ids_def)
  qed
qed

lemma flights_inv_return:
  assumes "flights_inv w" and "f \<in> set (sw_flights w)"
  shows "flights_inv (snd (execute_return w f out rid now))"
proof -
  let ?id = "\<lambda>f. st_id (fl_task f)"
  have d: "distinct (map ?id (sw_flights w))" using assms(1) by (simp add: flights_inv_def flight_ids_def)
  have fs: "distinct (sw_flights w)" and inj: "inj_on ?id (set (sw_flights w))" using d by (simp_all add: distinct_map)
  have rest: "set (remove1 f (sw_flights w)) = set (sw_flights w) - {f}" using fs by (rule set_remove1_eq)
  have "distinct (map ?id (remove1 f (sw_flights w)))"
    unfolding distinct_map rest using fs inj inj_on_subset [OF inj] by (simp add: distinct_remove1)
  moreover have "?id ` set (remove1 f (sw_flights w)) = ?id ` set (sw_flights w) - {?id f}"
    unfolding rest using inj_on_image_set_diff [OF inj, of "set (sw_flights w)" "{f}"] assms(2) by simp
  moreover have "set (sw_running w) = ?id ` set (sw_flights w)"
    using assms(1) by (simp add: flights_inv_def flight_ids_def)
  ultimately show ?thesis
    by (auto simp: flights_inv_def flight_ids_def execute_return_def)
qed

lemma history_inv_begin:
  assumes "history_inv w" shows "history_inv (snd (execute_begin w t tg rid now))"
proof -
  have "history_inv (w\<lparr>sw_running := st_id t # sw_running w\<rparr>)" using assms by (simp add: history_inv_def)
  from history_inv_end [OF this] assms show ?thesis
    by (auto simp: execute_begin_def Let_def split_beta history_inv_def split: sum.splits)
qed

lemma history_inv_return: "history_inv w \<Longrightarrow> history_inv (snd (execute_return w f out rid now))"
  unfolding execute_return_def by (rule history_inv_end) (simp add: history_inv_def)

definition world_inv :: "sched_world \<Rightarrow> bool" where
  "world_inv w \<longleftrightarrow> flights_inv w \<and> history_inv w"

lemma world_inv_begin: "world_inv w \<Longrightarrow> world_inv (snd (execute_begin w t tg rid now))"
  by (simp add: world_inv_def flights_inv_begin history_inv_begin)

text \<open>Most operations leave the runs and the flights alone, or drop runs.\<close>

lemma world_inv_same:
  "world_inv w \<Longrightarrow> sw_flights w' = sw_flights w \<Longrightarrow> sw_running w' = sw_running w \<Longrightarrow>
   sw_runs w' = filter P (sw_runs w) \<Longrightarrow> world_inv w'"
proof -
  assume a: "world_inv w" "sw_flights w' = sw_flights w" "sw_running w' = sw_running w"
    "sw_runs w' = filter P (sw_runs w)"
  have "length (runs_of tid (filter P rs)) \<le> length (runs_of tid rs)" for tid rs
    unfolding runs_of_def by (induction rs) auto
  with a show ?thesis
    unfolding world_inv_def flights_inv_def history_inv_def flight_ids_def
    by (metis (no_types, lifting) le_trans rows_ok_filter)
qed

lemma world_inv_fields:
  "world_inv w \<Longrightarrow> sw_flights w' = sw_flights w \<Longrightarrow> sw_running w' = sw_running w \<Longrightarrow>
   sw_runs w' = sw_runs w \<Longrightarrow> world_inv w'"
  by (rule world_inv_same [of w w' "\<lambda>_. True"]) simp_all

lemma register_if_enabled_fields [simp]:
  "sw_runs (snd (register_if_enabled env w t now)) = sw_runs w"
  "sw_flights (snd (register_if_enabled env w t now)) = sw_flights w"
  "sw_running (snd (register_if_enabled env w t now)) = sw_running w"
  by (simp_all add: register_if_enabled_snd)

lemma boot_fields:
  "sw_runs (foldl (\<lambda>x t. snd (cron_register env x t now)) w ts) = sw_runs w"
  "sw_flights (foldl (\<lambda>x t. snd (cron_register env x t now)) w ts) = sw_flights w"
  "sw_running (foldl (\<lambda>x t. snd (cron_register env x t now)) w ts) = sw_running w"
  by (induction ts arbitrary: w) simp_all

lemma world_inv_requests:
  assumes "world_inv w"
  shows "world_inv (snd (sched_create env w dto u tid now))"
    and "world_inv (snd (sched_update env w i upd u now))"
    and "world_inv (snd (sched_toggle env w i now))"
    and "world_inv (sched_boot env w now)"
  by (rule world_inv_fields [OF assms];
      simp add: sched_create_def sched_update_def sched_toggle_def sched_boot_def boot_fields cron_unregister_def
        Let_def split_beta split: sum.splits option.splits)+

lemma world_inv_delete:
  assumes "world_inv w" shows "world_inv (snd (sched_delete w i))"
proof (cases "strepo_find i (sw_tasks w)")
  case None
  with assms show ?thesis by (simp add: sched_delete_def)
next
  case (Some t)
  then show ?thesis
    by (intro world_inv_same [OF assms, where P = "\<lambda>r. tr_task r \<noteq> i"])
      (simp_all add: sched_delete_def cron_unregister_def Let_def)
qed

lemma world_inv_drop:
  assumes "world_inv w" shows "world_inv (drop_tasks P w)"
  by (rule world_inv_same [OF assms, where P = "\<lambda>r. \<not> (\<exists>t \<in> set (sw_tasks w). P t \<and> st_id t = tr_task r)"])
    (simp_all add: drop_tasks_def)

lemma world_inv_fire:
  assumes "world_inv w" shows "world_inv (cron_fire w t rid now)"
proof (cases "st_mode t = MOnce")
  case True
  show ?thesis
    by (rule world_inv_fields [OF world_inv_begin [OF assms, of t TriggerOnce rid now]])
      (simp_all add: True cron_fire_def cron_unregister_def Let_def split_beta)
next
  case False
  with world_inv_begin [OF assms] show ?thesis by (simp add: cron_fire_def)
qed

lemma world_inv_step:
  assumes "world_inv w" shows "world_inv (sched_step env w e)"
proof (cases e)
  case (OpRunNow i rid now)
  with assms show ?thesis by (simp add: sched_run_now_def split_beta world_inv_begin split: option.splits)
next
  case (OpReturn f out rid now)
  with assms show ?thesis by (simp add: world_inv_def flights_inv_return history_inv_return)
qed (use assms in \<open>simp_all add: world_inv_requests world_inv_delete world_inv_fire split: option.splits\<close>)

interpretation worldm: machine "world_step env" world_inv for env
proof
  fix w :: sched_world and e :: world_op
  assume inv: "world_inv w"
  then have "world_inv (w\<lparr>sw_servers := ss\<rparr>)" "world_inv (w\<lparr>sw_users := us\<rparr>)" for ss us
    by (simp_all add: world_inv_def flights_inv_def history_inv_def flight_ids_def)
  with inv show "world_inv (world_step env w e)"
    by (cases e) (simp_all add: world_inv_step sched_server_deleted_def sched_user_deleted_def world_inv_drop)
qed

end
