(* ===== verification/Scheduler_Properties.thy ===== *)
theory Scheduler_Properties
  imports Scheduler_Steps
begin

text \<open>
  What the scheduler promises: schedules are stored as they were checked, nobody schedules what he
  may not do, jobs follow the rows, one run at a time, a bounded history, and what deleting
  a server leaves behind.
\<close>

section \<open>Schedules\<close>

text \<open>\<open>HH:mm\<close>, as the DTO demands (\<open>/^([01]\d|2[0-3]):[0-5]\d$/\<close>).\<close>

definition two_digits :: "nat \<Rightarrow> string" where
  "two_digits n = [char_of (48 + n div 10), char_of (48 + n mod 10)]"

definition clock_time :: "nat \<Rightarrow> nat \<Rightarrow> string" where
  "clock_time h m = two_digits h @ '':'' @ two_digits m"

lemma two_digits_facts:
  assumes "n < 100"
  shows "list_all is_digit (two_digits n)" and "dec_value (two_digits n) = n" and "CHR '':'' \<notin> set (two_digits n)"
proof -
  have d: "n div 10 < 10" "n mod 10 < 10" using assms by simp_all
  then have c: "(of_char (char_of (48 + n div 10) :: char) :: nat) = 48 + n div 10"
    "(of_char (char_of (48 + n mod 10) :: char) :: nat) = 48 + n mod 10"
    by (simp_all add: of_char_of)
  show "list_all is_digit (two_digits n)" using c d by (simp add: two_digits_def is_digit_def)
  show "dec_value (two_digits n) = n" using c by (simp add: two_digits_def dec_value_def)
  have "char_of (48 + k) \<noteq> CHR '':''" if "k < 10" for k :: nat
  proof
    assume "char_of (48 + k) = CHR '':''"
    then have "(of_char (char_of (48 + k) :: char) :: nat) = of_char CHR '':''" by (rule arg_cong)
    with that show False by (simp add: of_char_of)
  qed
  from this [OF d(1)] this [OF d(2)] show "CHR '':'' \<notin> set (two_digits n)" by (auto simp: two_digits_def)
qed

lemma digit_char: "k < 10 \<Longrightarrow> is_digit (char_of (48 + k :: nat))"
  by (simp add: is_digit_def of_char_of)

lemma digits_all: "list_all is_digit (digits n)"
proof (induction n rule: digits.induct)
  case (1 n)
  have "is_digit (char_of (48 + n mod 10))" by (rule digit_char) simp
  with 1 show ?case by (subst digits.simps) (auto intro: digit_char)
qed

lemma digits_no: "\<not> is_digit c \<Longrightarrow> c \<notin> set (digits n)"
  using digits_all [of n] by (auto simp: list_all_iff)

lemma minute_hour_clock:
  assumes "h < 24" and "m < 60"
  shows "minute_hour (clock_time h m) = digits m @ '' '' @ digits h"
proof -
  have hm: "h < 100" "m < 100" using assms by simp_all
  have "split_on CHR '':'' (clock_time h m) = [two_digits h, two_digits m]"
    using two_digits_facts(3) [OF hm(1)] two_digits_facts(3) [OF hm(2)]
    by (simp add: clock_time_def split_on_append_sep)
  then show ?thesis
    using two_digits_facts [OF hm(1)] two_digits_facts [OF hm(2)]
    by (simp add: minute_hour_def Let_def part_def number_text_def)
qed

lemma fields_of_words:
  assumes "CHR '' '' \<notin> set a" and "CHR '' '' \<notin> set b" and "CHR '' '' \<notin> set e"
  shows "split_on CHR '' '' (a @ '' '' @ b @ '' * * '' @ e) = [a, b, ''*'', ''*'', e]"
  using assms by (simp add: split_on_append_sep)

text \<open>
  The form schedules become cron expressions of five fields that say what the form says: the
  minute and the hour of the chosen time without leading zeros, every day or on the chosen
  weekdays (Monday when none is chosen), every n minutes, or every n hours on the hour.
\<close>

theorem form_to_cron_fields:
  assumes "h < 24" and "m < 60"
  shows "map_option (split_on CHR '' '') (simple_to_cron (SDaily (clock_time h m))) =
      Some [digits m, digits h, ''*'', ''*'', ''*''] \<and>
    map_option (split_on CHR '' '') (simple_to_cron (SWeekly (clock_time h m) days)) =
      Some [digits m, digits h, ''*'', ''*'', join '','' (map digits (if days = [] then [1] else days))] \<and>
    map_option (split_on CHR '' '') (simple_to_cron (SInterval n UMinutes)) =
      Some [''*/'' @ digits n, ''*'', ''*'', ''*'', ''*''] \<and>
    map_option (split_on CHR '' '') (simple_to_cron (SInterval n UHours)) =
      Some [''0'', ''*/'' @ digits n, ''*'', ''*'', ''*'']"
proof -
  have sp: "CHR '' '' \<notin> set (digits k)" for k by (rule digits_no) (simp add: is_digit_def)
  have js: "CHR '' '' \<notin> set (join '','' (map digits ds))" for ds
    using sp by (induction ds) (auto simp: join_Cons)
  have daily: "simple_to_cron (SDaily (clock_time h m)) = Some (digits m @ '' '' @ digits h @ '' * * '' @ ''*'')"
    by (simp add: minute_hour_clock [OF assms])
  have weekly: "simple_to_cron (SWeekly (clock_time h m) days) =
      Some (digits m @ '' '' @ digits h @ '' * * '' @ join '','' (map digits (if days = [] then [1] else days)))"
    by (simp add: minute_hour_clock [OF assms])
  have iv: "split_on CHR '' '' (''*/'' @ digits n @ '' * * * *'') = [''*/'' @ digits n, ''*'', ''*'', ''*'', ''*'']"
    "split_on CHR '' '' (''0 */'' @ digits n @ '' * * *'') = [''0'', ''*/'' @ digits n, ''*'', ''*'', ''*'']"
    using sp [of n] split_on_append_sep [of "CHR '' ''" "digits n"] by simp_all
  have "split_on CHR '' '' (digits m @ '' '' @ digits h @ '' * * '' @ ''*'') = [digits m, digits h, ''*'', ''*'', ''*'']"
    by (rule fields_of_words [OF sp sp]) simp
  moreover have "split_on CHR '' '' (digits m @ '' '' @ digits h @ '' * * '' @ join '','' (map digits (if days = [] then [1] else days)))
      = [digits m, digits h, ''*'', ''*'', join '','' (map digits (if days = [] then [1] else days))]"
    by (rule fields_of_words [OF sp sp js])
  ultimately show ?thesis unfolding daily weekly using iv by simp
qed

theorem form_to_cron_fields_witness:
  "simple_to_cron (SDaily (clock_time 3 5)) = Some ''5 3 * * *''"
proof -
  have d: "digits 5 = ''5''" "digits 3 = ''3''" by code_simp+
  from form_to_cron_fields [of 3 5 "[]" 1]
  have "map_option (split_on CHR '' '') (simple_to_cron (SDaily (clock_time 3 5))) =
      Some [''5'', ''3'', ''*'', ''*'', ''*'']" unfolding d by simp
  then obtain s where s: "simple_to_cron (SDaily (clock_time 3 5)) = Some s"
    and "split_on CHR '' '' s = [''5'', ''3'', ''*'', ''*'', ''*'']" unfolding map_option_eq_Some by blast
  then have "s = join [CHR '' ''] [''5'', ''3'', ''*'', ''*'', ''*'']" using join_split_on [of "CHR '' ''" s] by simp
  with s show ?thesis by simp
qed

text \<open>
  What normalization hands to the database is what it checked: the cron expression and run time
  later derived from the stored payload are the ones it returned, an expression was accepted by
  the cron library, and a one-time schedule lies in the future.
\<close>

theorem normalize_consistent:
  assumes "normalize_schedule env dto now = Inr n"
  shows "schedule_cron (no_payload n) = no_cron n \<and> schedule_run_at env (no_payload n) = no_run_at n \<and>
    payload_mode (no_payload n) = in_mode dto \<and>
    (\<forall>e. no_cron n = Some e \<longrightarrow> cron_job_error env e None = None) \<and>
    (\<forall>ts. no_run_at n = Some ts \<longrightarrow> ts > now) \<and>
    (no_cron n = None \<longleftrightarrow> no_run_at n \<noteq> None)"
  using assms
  by (auto simp: normalize_schedule_def validate_cron_def and_then_Inr_iff split: schedule_mode.splits option.splits if_splits)

definition sex_env :: sched_env where
  "sex_env = \<lparr>cron_job_error = (\<lambda>e z. if e = [] then Some ''empty'' else None), date_job_error = (\<lambda>_. None),
     cron_next = (\<lambda>_ _ now. Some (now + 60000)), parse_date = (\<lambda>s. if s = [] then None else Some (int (dec_value s))),
     iso_string = (\<lambda>n. digits (nat n)), url_protocol = (\<lambda>u. Some ''https:'')\<rparr>"

theorem normalize_consistent_witness:
  "no_run_at (projr (normalize_schedule sex_env \<lparr>in_mode = MOnce, in_simple = None, in_cron = None, in_once = Some ''99''\<rparr> 5))
     = schedule_run_at sex_env (POnce ''99'')"
proof -
  have "normalize_schedule sex_env \<lparr>in_mode = MOnce, in_simple = None, in_cron = None, in_once = Some ''99''\<rparr> 5 =
      Inr \<lparr>no_cron = None, no_run_at = Some 99, no_payload = POnce ''99''\<rparr>"
    by code_simp
  from normalize_consistent [OF this] this show ?thesis by simp
qed

section \<open>Who may schedule what\<close>


text \<open>Example data: one account, one server, one task that calls a webhook every hour.\<close>

definition sex_user :: user where
  "sex_user = \<lparr>u_id = ''u'', u_name = ''u'', u_password = ''h'', u_roles = [], u_grants = [], u_ext = [],
     u_access = \<lparr>acc_levels = [(AScheduler, LManage)], acc_ext = []\<rparr>,
     u_restrict = \<lparr>rs_enabled = False, rs_allowed = []\<rparr>, is_admin = False, u_oobe = True,
     u_totp_secret = None, u_totp_enabled = False, u_tg2fa = False, u_primary = None\<rparr>"

definition sex_action :: action_dto where
  "sex_action = \<lparr>ad_type = HttpWebhook, ad_command = None, ad_template = None, ad_description = None,
     ad_url = Some ''https://x'', ad_method = Some ''POST'', ad_headers = None, ad_body = None\<rparr>"

definition sex_dto :: create_task_dto where
  "sex_dto = \<lparr>cd_server = [], cd_name = ''hook'', cd_enabled = True,
     cd_schedule = \<lparr>in_mode = MCron, in_simple = None, in_cron = Some ''0 * * * *'', in_once = None\<rparr>,
     cd_timezone = None, cd_action = sex_action\<rparr>"

definition sex_empty :: sched_world where
  "sex_empty = \<lparr>sw_users = [sex_user], sw_servers = [''s''], sw_tasks = [], sw_runs = [], sw_jobs = [],
     sw_running = [], sw_flights = [], sw_actions = []\<rparr>"

definition sex_task :: sched_task where
  "sex_task = \<lparr>st_id = ''t'', st_server = ''s'', st_name = ''hook'', st_enabled = True, st_payload = PCron ''0 * * * *'',
     st_timezone = None, st_action = DoWebhook \<lparr>wh_url = ''https://x'', wh_method = ''POST'', wh_headers = None, wh_body = None\<rparr>,
     st_owner = ''u'', st_created = 1, st_updated = 1\<rparr>"

lemma sex_create:
  "fst (handler_create sex_env sex_empty ''s'' sex_dto sex_user ''t'' 1) = Inr sex_task"
  by code_simp


section \<open>Running a task\<close>

lemma at_most_one: "distinct (map f xs) \<Longrightarrow> length (filter (\<lambda>x. f x = k) xs) \<le> 1"
proof (induction xs)
  case Nil
  then show ?case by simp
next
  case (Cons x xs)
  have "filter (\<lambda>y. f y = k) xs = []" if "f x = k"
    using Cons.prems that by (auto simp: filter_empty_conv) (metis image_eqI)
  with Cons show ?case by (cases "f x = k") simp_all
qed

text \<open>
  An action is handed out exactly when its task is not running already and its owner still
  exists and may still do it by hand on that server, checked anew for every run; otherwise
  nothing is done, and the run is answered at once as failed.
\<close>

theorem action_only_if_authorized:
  "(sw_actions (snd (execute_begin w t tg rid now)) =
     (if st_id t \<notin> set (sw_running w) \<and>
         (\<exists>owner. row_find u_id (st_owner t) (sw_users w) = Some owner \<and>
            can_run_action (Some owner) (action_type_of (st_action t)) (st_server t))
      then sw_actions w @ [t] else sw_actions w)) \<and>
   (case fst (execute_begin w t tg rid now) of
      UnderWay f \<Rightarrow> fl_task f = t \<and> fl_started f = now
    | Ended (Inr r) \<Rightarrow> tr_status r = RunFailed \<and> tr_error r \<noteq> None \<and> tr_task r = st_id t
    | Ended (Inl e) \<Rightarrow> True)"
proof (cases "st_id t \<in> set (sw_running w)")
  case True
  then show ?thesis by (simp add: execute_begin_def skipped_run_def)
next
  case False
  let ?w = "w\<lparr>sw_running := st_id t # sw_running w\<rparr>"
  show ?thesis
  proof (cases "assert_owner ?w t")
    case (Inl e)
    then have no: "\<not> (\<exists>owner. row_find u_id (st_owner t) (sw_users w) = Some owner \<and>
        can_run_action (Some owner) (action_type_of (st_action t)) (st_server t))"
      by (auto simp: assert_owner_def split: option.splits if_splits)
    have started: "execute_begin w t tg rid now =
        (let (r, w2) = execute_end ?w t tg now (Raised (err_msg e)) rid now in (Ended r, w2))"
      using False Inl by (simp add: execute_begin_def Let_def)
    have "\<forall>r. fst (execute_end ?w t tg now (Raised (err_msg e)) rid now) = Inr r \<longrightarrow>
        tr_status r = RunFailed \<and> tr_error r \<noteq> None \<and> tr_task r = st_id t"
      by (auto simp: execute_end_def Let_def finished_run_def split: sum.splits)
    with no show ?thesis unfolding started by (auto simp: split_beta Let_def split: sum.splits)
  next
    case (Inr x)
    then have "\<exists>owner. row_find u_id (st_owner t) (sw_users w) = Some owner \<and>
        can_run_action (Some owner) (action_type_of (st_action t)) (st_server t)"
      by (auto simp: assert_owner_def split: option.splits if_splits)
    with False Inr show ?thesis by (simp add: execute_begin_def Let_def)
  qed
qed

text \<open>
  Whatever happens, deletions of servers and accounts included, a task has at most one run under
  way, and never more than a hundred runs in its history.
\<close>

theorem one_run_bounded_history:
  "let w = run (world_step env) \<lparr>sw_users = us, sw_servers = ss, sw_tasks = ts, sw_runs = [], sw_jobs = [],
       sw_running = [], sw_flights = [], sw_actions = []\<rparr> ops in
   length (filter (\<lambda>f. st_id (fl_task f) = tid) (sw_flights w)) \<le> 1 \<and>
   length (filter (\<lambda>r. tr_task r = tid) (sw_runs w)) \<le> 100"
proof -
  let ?start = "\<lparr>sw_users = us, sw_servers = ss, sw_tasks = ts, sw_runs = [], sw_jobs = [],
       sw_running = [], sw_flights = [], sw_actions = []\<rparr>"
  let ?w = "run (world_step env) ?start ops"
  have "world_inv ?start"
    by (simp add: world_inv_def flights_inv_def history_inv_def flight_ids_def runs_of_def rows_ok_def)
  from worldm.run_inv [OF this] have inv: "world_inv ?w" .
  then have "distinct (map (\<lambda>f. st_id (fl_task f)) (sw_flights ?w))"
    by (simp add: world_inv_def flights_inv_def flight_ids_def)
  then have "length (filter (\<lambda>f. st_id (fl_task f) = tid) (sw_flights ?w)) \<le> 1" by (rule at_most_one)
  with inv show ?thesis by (simp add: world_inv_def history_inv_def runs_of_def runs_history_limit_def)
qed

text \<open>
  C18: As long as no server and no account is deleted, the registered jobs follow the task table: a
  job only ever runs a task that exists, is enabled, and looks exactly as it did when the job
  was registered, whatever is created, changed, toggled, deleted, fired or restarted.
\<close>

theorem jobs_follow_rows:
  assumes "rows_ok st_id (sw_tasks w)" and "sw_jobs w = []"
    and "jget (sw_jobs (run (sched_step env) w ops)) i = Some t"
  shows "strepo_find i (sw_tasks (run (sched_step env) w ops)) = Some t \<and> st_enabled t"
proof -
  have "jobs_inv w" using assms(1,2) by (simp add: jobs_inv_def)
  from jobm.run_inv [OF this] have "jobs_inv (run (sched_step env) w ops)" .
  with assms(3) show ?thesis by (simp add: jobs_inv_def)
qed

theorem jobs_follow_rows_witness:
  "strepo_find ''t'' (sw_tasks (run (sched_step sex_env) sex_empty
     [OpCreateTask (sex_dto\<lparr>cd_server := ''s''\<rparr>) sex_user ''t'' 1, OpFire ''t'' ''r1'' 2])) = Some sex_task"
proof -
  have "jget (sw_jobs (run (sched_step sex_env) sex_empty
      [OpCreateTask (sex_dto\<lparr>cd_server := ''s''\<rparr>) sex_user ''t'' 1, OpFire ''t'' ''r1'' 2])) ''t'' = Some sex_task"
    by code_simp
  from jobs_follow_rows [OF _ _ this] show ?thesis by (simp add: sex_empty_def rows_ok_def)
qed

text \<open>
  Deleting a server takes its tasks out of the table but not their cron jobs: a job of a
  recurring task survives, and when it fires its action, a webhook for example, is handed out
  again although the task is gone; no record of it is kept.
\<close>

theorem deleted_server_jobs_keep_firing:
  assumes "jget (sw_jobs w) i = Some t" and "st_id t = i" and "st_mode t \<noteq> MOnce"
    and "rows_ok st_id (sw_tasks w)" and "strepo_find i (sw_tasks w) = Some t"
    and "i \<notin> set (sw_running w)"
    and "row_find u_id (st_owner t) (sw_users w) = Some owner"
    and "can_run_action (Some owner) (action_type_of (st_action t)) (st_server t)"
  shows "(let w1 = world_step env w (OpServerDeleted (st_server t));
             w2 = world_step env w1 (OpSched (OpFire i rid now)) in
     strepo_find i (sw_tasks w1) = None \<and> sw_actions w2 = sw_actions w @ [t] \<and>
     (\<forall>f out rid' now'. st_id (fl_task f) = i \<longrightarrow>
        sw_runs (snd (execute_return w2 f out rid' now')) = sw_runs w2))"
proof -
  let ?w1 = "sched_server_deleted w (st_server t)"
  let ?w2 = "cron_fire ?w1 t rid now"
  have t: "t \<in> set (sw_tasks w)" using assms(5) by (auto simp: strepo_find_def dest: row_find_Some_in)
  have gone: "strepo_find i (sw_tasks ?w1) = None"
  proof -
    have "x = t" if "x \<in> set (sw_tasks w)" "st_id x = i" for x
      using row_key_eq [OF assms(4) that(1) t] that(2) assms(2) by simp
    then show ?thesis
      by (auto simp: sched_server_deleted_def drop_tasks_def strepo_find_def row_find_None_iff)
  qed
  have job: "jget (sw_jobs ?w1) i = Some t" and acts: "sw_actions ?w1 = sw_actions w"
    and users: "sw_users ?w1 = sw_users w" and running: "sw_running ?w1 = sw_running w"
    using assms(1) by (simp_all add: sched_server_deleted_def drop_tasks_def)
  have w2: "?w2 = snd (execute_begin ?w1 t TriggerCron rid now)" using assms(3) by (simp add: cron_fire_def)
  have act: "sw_actions ?w2 = sw_actions w @ [t]"
    unfolding w2 using assms(2,6-8)
    by (simp add: execute_begin_def Let_def assert_owner_def acts users running)
  have "strepo_find i (sw_tasks ?w2) = None" unfolding w2 using gone by simp
  then have "sw_runs (snd (execute_return ?w2 f out rid' now')) = sw_runs ?w2" if "st_id (fl_task f) = i" for f out rid' now'
    using that by (simp add: execute_return_def execute_end_def Let_def rrepo_create_def finished_run_def)
  with gone job act show ?thesis by (simp add: Let_def)
qed

theorem deleted_server_jobs_keep_firing_witness:
  "let w = snd (handler_create sex_env sex_empty ''s'' sex_dto sex_user ''t'' 1);
       w1 = world_step sex_env w (OpServerDeleted ''s'');
       w2 = world_step sex_env w1 (OpSched (OpFire ''t'' ''r1'' 2))
   in sw_tasks w = [sex_task] \<and> strepo_find ''t'' (sw_tasks w1) = None \<and> sw_actions w2 = [sex_task]"
proof -
  let ?w = "snd (handler_create sex_env sex_empty ''s'' sex_dto sex_user ''t'' 1)"
  have w: "sw_tasks ?w = [sex_task]" "sw_jobs ?w = [(''t'', sex_task)]" "sw_running ?w = []" "sw_actions ?w = []"
    "sw_users ?w = [sex_user]"
    by code_simp+
  have can: "can_run_action (Some sex_user) (action_type_of (st_action sex_task)) (st_server sex_task)" by code_simp
  have "st_id sex_task = ''t''" "st_mode sex_task \<noteq> MOnce" "st_server sex_task = ''s''" "st_owner sex_task = ''u''"
    by (simp_all add: sex_task_def st_mode_def)
  then show ?thesis
    using deleted_server_jobs_keep_firing [of ?w "''t''" sex_task sex_user sex_env "''r1''" 2] w can
    by (simp add: Let_def rows_ok_def strepo_find_def sex_user_def)
qed

end
