(* ===== verification/Line_Diff.thy ===== *)
theory Line_Diff
  imports Prelude
begin

text \<open>
  The line diff of configuration files (\<open>modules/networks/plan/line-diff.ts\<close>): the table of
  longest common subsequences, the walk over it, and the folding of unchanged runs.  The
  specification is the textbook recursion \<open>lcs\<close> and the set of common subsequences.
\<close>

section \<open>The code\<close>

datatype diff_op = Same | Add | Del

text \<open>The working entries (\<open>Op\<close>), and the lines of the result.\<close>

type_synonym diff_entry = "diff_op \<times> string"

datatype diff_line = DLine diff_op string | DSkip nat

text \<open>
  Row \<open>i\<close> of the table from row \<open>i + 1\<close>, filled from the right.  The entries are 32 bit wide in
  the code; \<open>lcs_bounded\<close> shows that they stay below the length of a JavaScript array.
\<close>

fun lcs_row :: "string \<Rightarrow> string list \<Rightarrow> nat list \<Rightarrow> nat list" where
  "lcs_row x [] below = [0]"
| "lcs_row x (y # ys) below =
     (let right = lcs_row x ys (tl below) in
      (if x = y then hd (tl below) + 1 else max (hd below) (hd right)) # right)"

primrec lcs_table :: "string list \<Rightarrow> string list \<Rightarrow> nat list list" where
  "lcs_table [] b = [replicate (length b + 1) 0]"
| "lcs_table (x # xs) b = (let t = lcs_table xs b in lcs_row x b (hd t) # t)"

text \<open>The walk.  \<open>j\<close> never passes the end of \<open>b\<close>, so \<open>j \<ge> m\<close> is the \<open>j === m\<close> of the code.\<close>

function walk :: "string list \<Rightarrow> string list \<Rightarrow> nat list list \<Rightarrow> nat \<Rightarrow> nat \<Rightarrow> diff_entry list" where
  "walk a b t i j =
     (if \<not> (i < length a \<or> j < length b) then []
      else if i < length a \<and> j < length b \<and> a ! i = b ! j then (Same, a ! i) # walk a b t (i + 1) (j + 1)
      else if i < length a \<and> (j \<ge> length b \<or> t ! (i + 1) ! j \<ge> t ! i ! (j + 1))
        then (Del, a ! i) # walk a b t (i + 1) j
      else (Add, b ! j) # walk a b t i (j + 1))"
  by pat_completeness auto
termination by (relation "measure (\<lambda>(a, b, t, i, j). (length a - i) + (length b - j))") auto

declare walk.simps [simp del]

definition diff_ops :: "string list \<Rightarrow> string list \<Rightarrow> diff_entry list" where
  "diff_ops a b = walk a b (lcs_table a b) 0 0"

definition LF :: char where "LF = CHR 0x0A"

definition CR :: char where "CR = CHR 0x0D"

text \<open>
  \<open>text.split\<close> at a line feed with an optional carriage return before it: the carriage
  return is dropped and the line feed behind it splits.
\<close>

fun split_eol :: "string \<Rightarrow> string list" where
  "split_eol [] = [[]]"
| "split_eol (c # cs) =
     (if c = LF then [] # split_eol cs
      else if c = CR \<and> cs \<noteq> [] \<and> hd cs = LF then split_eol cs
      else (case split_eol cs of [] \<Rightarrow> [[c]] | l # ls \<Rightarrow> (c # l) # ls))"

definition split_lines :: "string \<Rightarrow> string list" where
  "split_lines text = (let lines = split_eol text in if last lines = [] then butlast lines else lines)"

text \<open>The lines kept: every changed one and \<open>context\<close> lines around it.\<close>

definition keep_lines :: "nat \<Rightarrow> diff_entry list \<Rightarrow> bool list" where
  "keep_lines ctx all =
     fold (\<lambda>(index, line) keep.
         if fst line = Same then keep
         else let from_i = index - ctx; to_i = min (length all - 1) (index + ctx) in
              fold (\<lambda>k keep. keep[k := True]) [from_i..<to_i + 1] keep)
       (List.enumerate 0 all) (replicate (length all) False)"

fun fold_lines :: "diff_entry list \<Rightarrow> bool list \<Rightarrow> nat \<Rightarrow> diff_line list" where
  "fold_lines (l # ls) (k # ks) skipped =
     (if k then (if skipped \<noteq> 0 then [DSkip skipped] else []) @ DLine (fst l) (snd l) # fold_lines ls ks 0
      else fold_lines ls ks (skipped + 1))"
| "fold_lines _ _ skipped = (if skipped \<noteq> 0 then [DSkip skipped] else [])"

definition line_diff :: "string \<Rightarrow> string \<Rightarrow> nat \<Rightarrow> diff_line list" where
  "line_diff before after ctx =
     (let all = diff_ops (split_lines before) (split_lines after) in fold_lines all (keep_lines ctx all) 0)"

section \<open>The reference\<close>

fun lcs :: "string list \<Rightarrow> string list \<Rightarrow> nat" where
  "lcs (x # xs) (y # ys) = (if x = y then lcs xs ys + 1 else max (lcs xs (y # ys)) (lcs (x # xs) ys))"
| "lcs _ _ = 0"

lemma lcs_Nil [simp]: "lcs [] ys = 0" "lcs xs [] = 0"
  by (cases xs; simp)+

text \<open>What a row of the table holds: the values for every tail of \<open>b\<close>.\<close>

fun lcs_col :: "string list \<Rightarrow> string list \<Rightarrow> nat list" where
  "lcs_col xs [] = [lcs xs []]"
| "lcs_col xs (y # ys) = lcs xs (y # ys) # lcs_col xs ys"

lemma lcs_col_hd [simp]: "hd (lcs_col xs ys) = lcs xs ys"
  by (cases ys) auto

lemma lcs_col_Nil: "lcs_col [] b = replicate (length b + 1) 0"
  by (induction b) auto

lemma lcs_col_nth: "j \<le> length b \<Longrightarrow> lcs_col xs b ! j = lcs xs (drop j b)"
proof (induction b arbitrary: j)
  case Nil
  then show ?case by simp
next
  case (Cons y ys)
  then show ?case by (cases j) auto
qed

lemma lcs_row_col: "lcs_row x b (lcs_col xs b) = lcs_col (x # xs) b"
  by (induction b) (auto simp: Let_def)

lemma lcs_table_hd: "hd (lcs_table a b) = lcs_col a b"
  by (induction a) (auto simp: lcs_col_Nil lcs_row_col Let_def)

lemma lcs_table_nth: "i \<le> length a \<Longrightarrow> lcs_table a b ! i = lcs_col (drop i a) b"
proof (induction a arbitrary: i)
  case Nil
  then show ?case by (simp add: lcs_col_Nil)
next
  case (Cons x xs)
  then show ?case by (cases i) (auto simp: Let_def lcs_table_hd lcs_row_col)
qed

lemma lcs_table_entry:
  assumes "i \<le> length a" and "j \<le> length b"
  shows "lcs_table a b ! i ! j = lcs (drop i a) (drop j b)"
  using assms by (simp add: lcs_table_nth lcs_col_nth)

lemma lcs_bounded: "lcs xs ys \<le> min (length xs) (length ys)"
  by (induction xs ys rule: lcs.induct) auto

text \<open>The walk without indices.\<close>

fun diff_ref :: "string list \<Rightarrow> string list \<Rightarrow> diff_entry list" where
  "diff_ref [] [] = []"
| "diff_ref (x # xs) [] = (Del, x) # diff_ref xs []"
| "diff_ref [] (y # ys) = (Add, y) # diff_ref [] ys"
| "diff_ref (x # xs) (y # ys) =
     (if x = y then (Same, x) # diff_ref xs ys
      else if lcs xs (y # ys) \<ge> lcs (x # xs) ys then (Del, x) # diff_ref xs (y # ys)
      else (Add, y) # diff_ref (x # xs) ys)"

lemma walk_ref:
  assumes "i \<le> length a" and "j \<le> length b"
  shows "walk a b (lcs_table a b) i j = diff_ref (drop i a) (drop j b)"
  using assms
proof (induction "(length a - i) + (length b - j)" arbitrary: i j rule: less_induct)
  case less
  consider (both) "i < length a" "j < length b" | (left) "i < length a" "j = length b"
    | (right) "i = length a" "j < length b" | (none) "i = length a" "j = length b"
    using less.prems by linarith
  then show ?case
  proof cases
    case both
    then show ?thesis using less.hyps [of "i + 1" "j + 1"] less.hyps [of "i + 1" j] less.hyps [of i "j + 1"]
      by (subst walk.simps) (simp add: Cons_nth_drop_Suc [symmetric] lcs_table_entry)
  next
    case left
    then show ?thesis using less.hyps [of "i + 1" j]
      by (subst walk.simps) (simp add: Cons_nth_drop_Suc [symmetric])
  next
    case right
    then show ?thesis using less.hyps [of i "j + 1"]
      by (subst walk.simps) (simp add: Cons_nth_drop_Suc [symmetric])
  next
    case none
    then show ?thesis by (subst walk.simps) simp
  qed
qed

lemma diff_ops_ref: "diff_ops a b = diff_ref a b"
  by (simp add: diff_ops_def walk_ref)

definition old_side :: "diff_entry list \<Rightarrow> string list" where
  "old_side d = map snd (filter (\<lambda>l. fst l \<noteq> Add) d)"

definition new_side :: "diff_entry list \<Rightarrow> string list" where
  "new_side d = map snd (filter (\<lambda>l. fst l \<noteq> Del) d)"

definition same_lines :: "diff_entry list \<Rightarrow> string list" where
  "same_lines d = map snd (filter (\<lambda>l. fst l = Same) d)"

lemma diff_ref_sides: "old_side (diff_ref a b) = a" "new_side (diff_ref a b) = b"
  by (induction a b rule: diff_ref.induct) (auto simp: old_side_def new_side_def)

lemma diff_ref_same: "length (same_lines (diff_ref a b)) = lcs a b"
  by (induction a b rule: diff_ref.induct) (auto simp: same_lines_def max_def)

lemma diff_ref_subseq: "subseq (same_lines (diff_ref a b)) a" "subseq (same_lines (diff_ref a b)) b"
  by (induction a b rule: diff_ref.induct) (auto simp: same_lines_def)

lemma lcs_upper:
  assumes "subseq zs xs" and "subseq zs ys"
  shows "length zs \<le> lcs xs ys"
  using assms
proof (induction xs ys arbitrary: zs rule: lcs.induct)
  case (1 x xs y ys)
  show ?case
  proof (cases zs)
    case Nil
    then show ?thesis by simp
  next
    case (Cons z zs')
    show ?thesis
    proof (cases "x = y")
      case True
      then have "subseq zs' xs" "subseq zs' ys" using 1(4,5) Cons by (auto dest: subseq_Cons' split: if_splits)
      then show ?thesis using "1.IH"(1) True Cons by simp
    next
      case False
      then have "subseq zs xs \<or> subseq zs ys"
        using 1(4,5) Cons by (auto simp: subseq_Cons2_iff split: if_splits)
      then show ?thesis using "1.IH"(2,3) [of zs] False 1(4,5) by (auto simp: le_max_iff_disj)
    qed
  qed
qed auto

text \<open>Every other way to turn \<open>a\<close> into \<open>b\<close> changes at least as many lines.\<close>

definition changes :: "diff_entry list \<Rightarrow> nat" where
  "changes d = length (filter (\<lambda>l. fst l \<noteq> Same) d)"

lemma sides_same: "subseq (same_lines d) (old_side d)" "subseq (same_lines d) (new_side d)"
  by (induction d) (auto simp: same_lines_def old_side_def new_side_def)

lemma changes_count: "changes d + 2 * length (same_lines d) = length (old_side d) + length (new_side d)"
proof (induction d)
  case (Cons l d)
  then show ?case by (cases "fst l") (auto simp: changes_def same_lines_def old_side_def new_side_def)
qed (simp add: changes_def same_lines_def old_side_def new_side_def)

lemma diff_ref_minimal:
  assumes "old_side e = a" and "new_side e = b"
  shows "changes (diff_ref a b) \<le> changes e"
proof -
  have "length (same_lines e) \<le> lcs a b" using sides_same [of e] assms by (auto intro: lcs_upper)
  then show ?thesis
    using changes_count [of e] changes_count [of "diff_ref a b"] assms
    by (simp add: diff_ref_sides diff_ref_same)
qed

section \<open>Folding\<close>

lemma mark_length [simp]: "length (fold (\<lambda>k keep. keep[k := True]) is ks) = length ks"
  by (induction "is" arbitrary: ks) auto

lemma mark_nth: "k < length ks \<Longrightarrow> fold (\<lambda>k keep. keep[k := True]) is ks ! k \<longleftrightarrow> k \<in> set is \<or> ks ! k"
proof (induction "is" arbitrary: ks)
  case (Cons i "is")
  then show ?case by (cases "i = k") auto
qed simp

definition mark_around :: "nat \<Rightarrow> nat \<Rightarrow> nat \<times> diff_entry \<Rightarrow> bool list \<Rightarrow> bool list" where
  "mark_around ctx n = (\<lambda>(index, line) keep.
     if fst line = Same then keep
     else let from_i = index - ctx; to_i = min (n - 1) (index + ctx) in
          fold (\<lambda>k keep. keep[k := True]) [from_i..<to_i + 1] keep)"

lemma mark_around_length [simp]: "length (mark_around ctx n p ks) = length ks"
  by (cases p) (simp add: mark_around_def Let_def)

lemma mark_around_nth:
  assumes "k < length ks" and "length ks = n"
  shows "mark_around ctx n (i, l) ks ! k \<longleftrightarrow> fst l \<noteq> Same \<and> k \<le> i + ctx \<and> i \<le> k + ctx \<or> ks ! k"
  using assms by (auto simp: mark_around_def mark_nth Let_def)

lemma marks_length [simp]: "length (fold (mark_around ctx n) ps ks) = length ks"
  by (induction ps arbitrary: ks) auto

lemma marks_nth:
  assumes "k < length ks" and "length ks = n"
  shows "fold (mark_around ctx n) ps ks ! k \<longleftrightarrow>
    (\<exists>p \<in> set ps. fst (snd p) \<noteq> Same \<and> k \<le> fst p + ctx \<and> fst p \<le> k + ctx) \<or> ks ! k"
  using assms
proof (induction ps arbitrary: ks)
  case (Cons p ps)
  then show ?case by (cases p) (auto simp: mark_around_nth)
qed simp

lemma keep_lines_marks: "keep_lines ctx all = fold (mark_around ctx (length all)) (List.enumerate 0 all) (replicate (length all) False)"
  by (simp add: keep_lines_def mark_around_def)

lemma keep_lines_length [simp]: "length (keep_lines ctx all) = length all"
  by (simp add: keep_lines_marks)

lemma keep_lines_nth:
  assumes "k < length all"
  shows "keep_lines ctx all ! k \<longleftrightarrow>
    (\<exists>i < length all. fst (all ! i) \<noteq> Same \<and> k \<le> i + ctx \<and> i \<le> k + ctx)"
proof -
  have "(\<exists>p \<in> set (List.enumerate 0 all). P (fst (snd p)) (fst p)) \<longleftrightarrow> (\<exists>i < length all. P (fst (all ! i)) i)" for P
  proof
    assume "\<exists>p \<in> set (List.enumerate 0 all). P (fst (snd p)) (fst p)"
    then obtain i l where "(i, l) \<in> set (List.enumerate 0 all)" "P (fst l) i" by auto
    then show "\<exists>i < length all. P (fst (all ! i)) i"
      by (intro exI [of _ i]) (simp add: in_set_enumerate_eq)
  next
    assume "\<exists>i < length all. P (fst (all ! i)) i"
    then obtain i where "i < length all" "P (fst (all ! i)) i" by blast
    then show "\<exists>p \<in> set (List.enumerate 0 all). P (fst (snd p)) (fst p)"
      by (intro bexI [of _ "(i, all ! i)"]) (simp_all add: in_set_enumerate_eq)
  qed
  from this [of "\<lambda>op i. op \<noteq> Same \<and> k \<le> i + ctx \<and> i \<le> k + ctx"] assms
  show ?thesis by (simp add: keep_lines_marks marks_nth)
qed

text \<open>A folded diff, spelled out again: \<open>None\<close> for every line it leaves out.\<close>

fun unfolded :: "diff_line list \<Rightarrow> diff_entry option list" where
  "unfolded [] = []"
| "unfolded (DLine p t # d) = Some (p, t) # unfolded d"
| "unfolded (DSkip n # d) = replicate n None @ unfolded d"

text \<open>No empty and no adjacent skips.\<close>

fun tight :: "diff_line list \<Rightarrow> bool" where
  "tight (DSkip n # d) = (0 < n \<and> (case d of DSkip m # e \<Rightarrow> False | _ \<Rightarrow> True) \<and> tight d)"
| "tight (DLine p t # d) = tight d"
| "tight [] = True"

lemma unfolded_app: "unfolded (d @ e) = unfolded d @ unfolded e"
  by (induction d rule: unfolded.induct) auto

lemma unfolded_fold:
  assumes "length ks = length ls"
  shows "unfolded (fold_lines ls ks s) = replicate s None @ map2 (\<lambda>l k. if k then Some l else None) ls ks"
  using assms
proof (induction ls ks s rule: fold_lines.induct)
  case (1 l ls k ks skipped)
  then show ?case by (auto simp: unfolded_app replicate_app_Cons_same)
qed auto

lemma tight_fold: "tight (fold_lines ls ks s)"
  by (induction ls ks s rule: fold_lines.induct) auto

section \<open>Lines\<close>

lemma split_eol_not_Nil [simp]: "split_eol t \<noteq> []"
  by (induction t rule: split_eol.induct) (auto split: list.splits)

definition plain_line :: "string \<Rightarrow> bool" where
  "plain_line l \<longleftrightarrow> LF \<notin> set l \<and> (l = [] \<or> last l \<noteq> CR)"

lemma split_eol_line:
  assumes "plain_line l" and "eol \<in> {[LF], [CR, LF]}"
  shows "split_eol (l @ eol @ t) = l # split_eol t"
  using assms(1)
proof (induction l)
  case Nil
  then show ?case using assms(2) by (auto simp: CR_def LF_def)
next
  case (Cons c cs)
  have "plain_line cs" and "c \<noteq> LF" using Cons.prems by (auto simp: plain_line_def split: if_splits)
  moreover have "\<not> (c = CR \<and> hd (cs @ eol @ t) = LF)"
    using Cons.prems assms(2) by (cases cs) (auto simp: plain_line_def CR_def LF_def)
  ultimately show ?case using Cons.IH by simp
qed

lemma split_eol_lines:
  assumes "\<forall>l \<in> set ls. plain_line l" and "eol \<in> {[LF], [CR, LF]}"
  shows "split_eol (concat (map (\<lambda>l. l @ eol) ls)) = ls @ [[]]"
  using assms(1)
proof (induction ls)
  case (Cons l ls)
  then show ?case using split_eol_line [OF _ assms(2), of l "concat (map (\<lambda>l. l @ eol) ls)"] by simp
qed simp

section \<open>Properties\<close>

text \<open>
  C39: The diff is correct and as short as can be: dropping its additions gives the old lines,
  dropping its deletions gives the new ones, and no other way to turn the old lines into the
  new ones adds and deletes fewer lines.
\<close>

theorem diff_minimal:
  "old_side (diff_ops a b) = a \<and> new_side (diff_ops a b) = b \<and>
   (\<forall>e. old_side e = a \<and> new_side e = b \<longrightarrow> changes (diff_ops a b) \<le> changes e)"
  by (simp add: diff_ops_ref diff_ref_sides diff_ref_minimal)

theorem diff_minimal_witness:
  "let a = [''a'', ''b'', ''c'']; b = [''a'', ''x'', ''c''];
       e = map (Pair Del) a @ map (Pair Add) b
   in old_side e = a \<and> new_side e = b \<and> changes (diff_ops a b) \<le> changes e \<and>
      diff_ops a b = [(Same, ''a''), (Del, ''b''), (Add, ''x''), (Same, ''c'')]"
proof -
  let ?a = "[''a'', ''b'', ''c'']" and ?b = "[''a'', ''x'', ''c'']"
  let ?e = "map (Pair Del) ?a @ map (Pair Add) ?b"
  have e: "old_side ?e = ?a" "new_side ?e = ?b" by code_simp+
  have "diff_ops ?a ?b = [(Same, ''a''), (Del, ''b''), (Add, ''x''), (Same, ''c'')]" by code_simp
  with e diff_minimal [of ?a ?b] show ?thesis by (simp only: Let_def)
qed

text \<open>
  Folding hides exactly the lines that have no change within the given number of lines:
  spelled out again, the folded diff shows every change and its context and leaves out
  everything else, each run of hidden lines as one skip with their number.
\<close>

theorem diff_shows_context:
  "let all = diff_ops (split_lines before) (split_lines after); d = line_diff before after ctx in
   tight d \<and>
   unfolded d = map (\<lambda>k. if \<exists>i < length all. fst (all ! i) \<noteq> Same \<and> k \<le> i + ctx \<and> i \<le> k + ctx
                          then Some (all ! k) else None) [0..<length all]"
proof -
  let ?all = "diff_ops (split_lines before) (split_lines after)"
  have "map2 (\<lambda>l k. if k then Some l else None) ?all (keep_lines ctx ?all) =
      map (\<lambda>k. if \<exists>i < length ?all. fst (?all ! i) \<noteq> Same \<and> k \<le> i + ctx \<and> i \<le> k + ctx
                then Some (?all ! k) else None) [0..<length ?all]"
    by (rule nth_equalityI) (auto simp: keep_lines_nth)
  then show ?thesis by (simp add: line_diff_def Let_def tight_fold unfolded_fold)
qed

text \<open>
  Splitting gives back the lines a text was made of, with both kinds of line ends: switching
  between them is no change, and the end of the last line does not make another one.
\<close>

theorem split_lines_of_text:
  assumes "\<forall>l \<in> set ls. plain_line l" and "eol \<in> {[LF], [CR, LF]}"
  shows "split_lines (concat (map (\<lambda>l. l @ eol) ls)) = ls"
  using split_eol_lines [OF assms] by (simp add: split_lines_def)

theorem split_lines_of_text_witness:
  "split_lines (''motd=x'' @ [CR, LF] @ ''a=b'' @ [CR, LF]) = [''motd=x'', ''a=b'']"
proof -
  have "\<forall>l \<in> set [''motd=x'', ''a=b'']. plain_line l" by (simp add: plain_line_def LF_def CR_def)
  from split_lines_of_text [OF this, of "[CR, LF]"] show ?thesis by simp
qed

end
