(* ===== verification/Network_Plan.thy ===== *)
theory Network_Plan
  imports Line_Diff
begin

text \<open>
  Names, ports and the reviewed changes of a network of servers
  (\<open>networks/plan/network-naming.ts\<close>, \<open>networks/plan/network-draft.ts\<close>,
  \<open>networks/forwarding/backend-forwarding.ts\<close>).  Unicode lower-casing and normalisation
  (\<open>toLowerCase().normalize("NFKD")\<close>) are the argument \<open>norm\<close>.
\<close>

section \<open>Aliases\<close>

definition alias_char :: "char \<Rightarrow> bool" where
  "alias_char c \<longleftrightarrow> CHR ''a'' \<le> c \<and> c \<le> CHR ''z'' \<or> CHR ''0'' \<le> c \<and> c \<le> CHR ''9'' \<or> c = CHR ''_'' \<or> c = CHR ''-''"

text \<open>Every run of other characters becomes one hyphen.\<close>

fun dash_runs :: "bool \<Rightarrow> string \<Rightarrow> string" where
  "dash_runs inside [] = []"
| "dash_runs inside (c # cs) =
     (if alias_char c then c # dash_runs False cs
      else if inside then dash_runs True cs else CHR ''-'' # dash_runs True cs)"

definition strip_dashes :: "string \<Rightarrow> string" where
  "strip_dashes s = rev (dropWhile (\<lambda>c. c = CHR ''-'') (rev (dropWhile (\<lambda>c. c = CHR ''-'') s)))"

definition alias_base :: "(string \<Rightarrow> string) \<Rightarrow> string \<Rightarrow> string" where
  "alias_base norm name =
     (let s = take 32 (strip_dashes (dash_runs False (norm name))) in if s = [] then ''server'' else s)"

definition alias_candidate :: "string \<Rightarrow> nat \<Rightarrow> string" where
  "alias_candidate base i = (if i < 2 then base else base @ ''-'' @ digits i)"

text \<open>
  The loop counts up while the candidate is taken; the fuel bounds the candidates tried, and
  \<open>alias_from_Some\<close> shows that one more than there are taken names is enough.
\<close>

fun alias_from :: "string \<Rightarrow> string list \<Rightarrow> nat \<Rightarrow> nat \<Rightarrow> string option" where
  "alias_from base used i 0 = None"
| "alias_from base used i (Suc fuel) =
     (if alias_candidate base i \<in> set used then alias_from base used (i + 1) fuel
      else Some (alias_candidate base i))"

definition alias_for :: "(string \<Rightarrow> string) \<Rightarrow> string \<Rightarrow> string list \<Rightarrow> string option" where
  "alias_for norm name taken = alias_from (alias_base norm name) taken 1 (Suc (length taken))"

lemma alias_candidate_inj: "alias_candidate b i = alias_candidate b j \<Longrightarrow> 0 < i \<Longrightarrow> 0 < j \<Longrightarrow> i = j"
  by (auto simp: alias_candidate_def dest: digits_inj split: if_splits)

lemma alias_from_None:
  assumes "alias_from b used i fuel = None" and "k < fuel"
  shows "alias_candidate b (i + k) \<in> set used"
  using assms
proof (induction fuel arbitrary: i k)
  case (Suc fuel)
  then show ?case using Suc.IH [of "i + 1" "k - 1"] by (cases k) (auto split: if_splits)
qed simp

lemma alias_from_Some: "alias_from b used 1 (Suc (length used)) \<noteq> None"
proof
  assume none: "alias_from b used 1 (Suc (length used)) = None"
  let ?c = "\<lambda>k. alias_candidate b (1 + k)"
  have "inj_on ?c {..length used}" by (rule inj_onI) (use alias_candidate_inj in fastforce)
  then have "card (?c ` {..length used}) = Suc (length used)" by (simp add: card_image)
  moreover have "?c ` {..length used} \<subseteq> set used" using alias_from_None [OF none] by auto
  then have "card (?c ` {..length used}) \<le> length used"
    by (meson card_length card_mono finite_set le_trans)
  ultimately show False by simp
qed

lemma alias_from_fresh: "alias_from b used i fuel = Some a \<Longrightarrow> a \<notin> set used \<and> (\<exists>k. a = alias_candidate b k)"
  by (induction fuel arbitrary: i) (auto split: if_splits)

lemma dash_runs_chars: "c \<in> set (dash_runs x s) \<Longrightarrow> alias_char c"
  by (induction s arbitrary: x) (auto simp: alias_char_def less_eq_char_def split: if_splits)

lemma digits_chars: "c \<in> set (digits n) \<Longrightarrow> CHR ''0'' \<le> c \<and> c \<le> CHR ''9''"
proof (induction n arbitrary: c rule: digits.induct)
  case (1 n)
  have d: "CHR ''0'' \<le> (char_of (48 + k mod 10) :: char) \<and> char_of (48 + k mod 10) \<le> CHR ''9''" for k :: nat
  proof -
    have "k mod 10 < 10" by simp
    moreover have "of_char (char_of (48 + k mod 10) :: char) = 48 + k mod (10::nat)"
      using mod_less_divisor [of 10 k] by (simp add: of_char_of)
    ultimately show ?thesis by (simp add: less_eq_char_def)
  qed
  show ?case using 1 d [of n] by (subst (asm) digits.simps) (auto split: if_splits)
qed

lemma alias_base_chars: "c \<in> set (alias_base norm name) \<Longrightarrow> alias_char c"
proof -
  assume c: "c \<in> set (alias_base norm name)"
  have "\<forall>c \<in> set ''server''. alias_char c" by (simp add: alias_char_def less_eq_char_def)
  then show ?thesis using c dash_runs_chars [of c False "norm name"]
    by (auto simp: alias_base_def strip_dashes_def Let_def split: if_splits
        dest!: in_set_takeD set_dropWhileD)
qed

lemma alias_base_bounds: "alias_base norm name \<noteq> [] \<and> length (alias_base norm name) \<le> 32"
  by (simp add: alias_base_def Let_def)

section \<open>Ports\<close>

function free_ports :: "int set \<Rightarrow> nat \<Rightarrow> int \<Rightarrow> int list" where
  "free_ports used count port =
     (if 0 < count \<and> port \<le> 65535
      then (if port \<in> used then free_ports used count (port + 1) else port # free_ports used (count - 1) (port + 1))
      else [])"
  by pat_completeness auto
termination by (relation "measure (\<lambda>(used, count, port). nat (65536 - port))") auto

declare free_ports.simps [simp del]

lemma free_ports_spec:
  "set (free_ports used count port) \<subseteq> {port..65535} - used \<and> sorted_wrt (<) (free_ports used count port) \<and>
   length (free_ports used count port) \<le> count \<and>
   (length (free_ports used count port) < count \<longrightarrow> set (free_ports used count port) = {port..65535} - used) \<and>
   (\<forall>p \<in> {port..65535} - used. \<forall>q \<in> set (free_ports used count port). p < q \<longrightarrow> p \<in> set (free_ports used count port))"
proof (induction used count port rule: free_ports.induct)
  case (1 used count port)
  show ?case
  proof (cases "0 < count \<and> port \<le> 65535")
    case False
    then show ?thesis by (subst (1 2 3 4 5 6 7) free_ports.simps) auto
  next
    case True
    have split: "{port..65535} = insert port {port + 1..65535}" using True by auto
    show ?thesis
    proof (cases "port \<in> used")
      case used: True
      then have "free_ports used count port = free_ports used count (port + 1)"
        using True by (subst free_ports.simps) simp
      moreover have "{port..65535} - used = {port + 1..65535} - used" using split used by auto
      ultimately show ?thesis using "1.IH"(1) [OF True used] by simp
    next
      case free: False
      then have e: "free_ports used count port = port # free_ports used (count - 1) (port + 1)"
        using True by (subst free_ports.simps) simp
      have s: "{port..65535} - used = insert port ({port + 1..65535} - used)" using split free by auto
      note IH = "1.IH"(2) [OF True free]
      have "\<forall>p \<in> set (free_ports used (count - 1) (port + 1)). port < p" using IH by auto
      then show ?thesis unfolding e s using IH True by auto
    qed
  qed
qed

section \<open>Secrets\<close>

definition secret_alphabet :: string where
  "secret_alphabet = ''ABCDEFGHIJKLMNOPQRSTUVWXYZabcdefghijklmnopqrstuvwxyz0123456789''"

text \<open>The random bytes are the argument.\<close>

definition generate_secret :: "nat list \<Rightarrow> string" where
  "generate_secret bytes = map (\<lambda>b. secret_alphabet ! (b mod length secret_alphabet)) bytes"

text \<open>\<open>text.split(sep)\<close> for a text that is not empty: left to right, without overlaps.\<close>

function split_text :: "string \<Rightarrow> string \<Rightarrow> string list" where
  "split_text sep s =
     (if sep = [] then map (\<lambda>c. [c]) s
      else case index_of sep s of
        None \<Rightarrow> [s]
      | Some i \<Rightarrow> take i s # split_text sep (drop (i + length sep) s))"
  by pat_completeness auto
termination
proof (relation "measure (\<lambda>(sep, s). length s)", goal_cases)
  case (2 sep s i)
  then have "prefix sep (drop i s)" "i \<le> length s" using index_of_Some [of sep s i] by auto
  then have "length sep \<le> length s - i" by (metis length_drop prefix_length_le)
  moreover have "0 < length sep" using 2 by simp
  ultimately have "length s - (i + length sep) < length s" by linarith
  with 2 show ?case by simp
qed simp

declare split_text.simps [simp del]

definition mask_text :: string where
  "mask_text = ''********''"

definition mask_secret :: "string \<Rightarrow> string \<Rightarrow> string" where
  "mask_secret text secret = (if secret = [] then text else join mask_text (split_text secret text))"

lemma sublist_no_index: "index_of sub s = None \<Longrightarrow> \<not> sublist sub s"
proof
  assume none: "index_of sub s = None" and "sublist sub s"
  then obtain p q where s: "s = p @ sub @ q" by (auto simp: sublist_def)
  then have "prefix sub (drop (length p) s)" by simp
  with index_of_None [OF none, of "length p"] s show False by simp
qed

lemma take_no_sublist:
  assumes "index_of sub s = Some i" and "sub \<noteq> []"
  shows "\<not> sublist sub (take i s)"
proof
  assume "sublist sub (take i s)"
  then obtain p q where t: "take i s = p @ sub @ q" by (auto simp: sublist_def)
  have i: "i \<le> length s" "\<forall>j < i. \<not> prefix sub (drop j s)" using index_of_Some [OF assms(1)] by auto
  have "length p < i" using arg_cong [OF t, of length] assms(2) i(1) by (cases sub) auto
  moreover have "s = (p @ sub @ q) @ drop i s" using t by (metis append_take_drop_id)
  then have "prefix sub (drop (length p) s)" by (metis append.assoc append_eq_conv_conj prefixI)
  ultimately show False using i(2) by blast
qed

lemma split_no_sep: "sep \<noteq> [] \<Longrightarrow> p \<in> set (split_text sep s) \<Longrightarrow> \<not> sublist sep p"
proof (induction sep s rule: split_text.induct)
  case (1 sep s)
  show ?case
  proof (cases "index_of sep s")
    case None
    then show ?thesis using 1(2,3) sublist_no_index [OF None] by (subst (asm) split_text.simps) simp
  next
    case (Some i)
    have "p = take i s \<or> p \<in> set (split_text sep (drop (i + length sep) s))"
      using 1(2,3) Some by (subst (asm) split_text.simps) simp
    then show ?thesis using take_no_sublist [OF Some 1(2)] "1.IH" [OF 1(2) Some] 1(2) by blast
  qed
qed

text \<open>A text without a mask character lies between two of them.\<close>

lemma sublist_across:
  assumes "sublist sub (p @ m @ q)" and "m \<noteq> []" and "set sub \<inter> set m = {}" and "sub \<noteq> []"
  shows "sublist sub p \<or> sublist sub q"
proof -
  obtain a b where e: "p @ m @ q = a @ sub @ b" using assms(1) by (auto simp: sublist_def)
  consider "length (a @ sub) \<le> length p" | "length (p @ m) \<le> length a"
    | "length p < length (a @ sub)" "length a < length (p @ m)" by linarith
  then show ?thesis
  proof cases
    case 1
    then have "\<exists>r. p = (a @ sub) @ r" using e by (metis append.assoc append_eq_append_conv_if append_take_drop_id)
    then show ?thesis by (auto simp: sublist_def)
  next
    case 2
    then have "\<exists>r. a = (p @ m) @ r" using e by (metis append.assoc append_eq_append_conv_if append_take_drop_id)
    then have "\<exists>r. q = r @ sub @ b" using e by auto
    then show ?thesis by (auto simp: sublist_def)
  next
    case 3
    text \<open>Some position belongs both to the mask and to the text.\<close>
    define k where "k = max (length a) (length p)"
    have sublen: "0 < length sub" and mlen: "0 < length m" using assms(2,4) by auto
    have k: "length a \<le> k" "k < length (a @ sub)" "length p \<le> k" "k < length (p @ m)"
      using 3 sublen mlen by (auto simp: k_def)
    have d: "k - length a < length sub" "k - length p < length m" using k by auto
    have "(a @ sub @ b) ! k = sub ! (k - length a)" using k(1) d(1) by (simp add: nth_append)
    moreover have "(p @ m @ q) ! k = m ! (k - length p)" using k(3) d(2) by (simp add: nth_append)
    ultimately have "sub ! (k - length a) = m ! (k - length p)" using e by simp
    moreover have "sub ! (k - length a) \<in> set sub" "m ! (k - length p) \<in> set m" using k by auto
    ultimately show ?thesis using assms(3) by auto
  qed
qed

lemma join_no_sublist:
  assumes "\<forall>p \<in> set ps. \<not> sublist sub p" and "m \<noteq> []" and "set sub \<inter> set m = {}" and "sub \<noteq> []"
  shows "\<not> sublist sub (join m ps)"
  using assms(1)
proof (induction ps)
  case Nil
  then show ?case using assms(4) by simp
next
  case (Cons p ps)
  then show ?case using sublist_across [OF _ assms(2-4), of p "join m ps"] by (cases ps) auto
qed

lemma mask_hides:
  assumes "secret \<noteq> []" and "CHR ''*'' \<notin> set secret"
  shows "\<not> sublist secret (mask_secret text secret)"
  using join_no_sublist [of "split_text secret text" secret mask_text] split_no_sep [OF assms(1)] assms
  by (auto simp: mask_secret_def mask_text_def)

section \<open>The reviewed changes\<close>

record file_edit =
  fe_path :: string
  fe_before :: "string option"
  fe_after :: string

text \<open>Edit of a file only when its text really changes.\<close>

definition edit_of :: "string \<Rightarrow> string option \<Rightarrow> string \<Rightarrow> file_edit list" where
  "edit_of path before after =
     (if before = Some after then [] else [\<lparr>fe_path = path, fe_before = before, fe_after = after\<rparr>])"

record draft_server =
  ds_id :: "string option"
  ds_name :: string
  ds_port :: nat
  ds_running :: bool

record server_edits =
  se_server :: draft_server
  se_edits :: "file_edit list"

datatype change_kind = ChangeCreate | ChangeUpdate

record file_change =
  fc_server :: "string option"
  fc_name :: string
  fc_path :: string
  fc_kind :: change_kind
  fc_diff :: "diff_line list"

definition file_changes :: "server_edits list \<Rightarrow> string \<Rightarrow> file_change list" where
  "file_changes edits secret =
     concat (map (\<lambda>se. map (\<lambda>e. \<lparr>fc_server = ds_id (se_server se), fc_name = ds_name (se_server se),
         fc_path = fe_path e, fc_kind = (if fe_before e = None then ChangeCreate else ChangeUpdate),
         fc_diff = line_diff (mask_secret (case fe_before e of None \<Rightarrow> [] | Some b \<Rightarrow> b) secret)
                             (mask_secret (fe_after e) secret) 3\<rparr>) (se_edits se)) edits)"

definition needs_restart :: "server_edits list \<Rightarrow> string list" where
  "needs_restart edits =
     map (\<lambda>se. the (ds_id (se_server se)))
       (filter (\<lambda>se. (case ds_id (se_server se) of None \<Rightarrow> False | Some i \<Rightarrow> i \<noteq> []) \<and> ds_running (se_server se)) edits)"

text \<open>A proxy in a container reaches the published ports through the host.\<close>

definition backend_address :: "bool \<Rightarrow> draft_server \<Rightarrow> string" where
  "backend_address docker backend =
     (if docker then ''host.docker.internal'' else ''127.0.0.1'') @ '':'' @ digits (ds_port backend)"

text \<open>The order in which the proxy tries its backends.\<close>

definition try_list :: "(string \<times> nat option) list \<Rightarrow> string list" where
  "try_list backends = map fst (sort_key (\<lambda>b. the (snd b)) (filter (\<lambda>b. snd b \<noteq> None) backends))"

lemma split_eol_first: "split_eol t = p # ps \<Longrightarrow> prefix p t"
proof (induction t arbitrary: p ps rule: split_eol.induct)
  case (2 c cs)
  show ?case
  proof (cases "c = LF")
    case True
    then show ?thesis using "2.prems" by simp
  next
    case nlf: False
    show ?thesis
    proof (cases "c = CR \<and> cs \<noteq> [] \<and> hd cs = LF")
      case True
      then have "p = []" using "2.prems" nlf by (cases cs) auto
      then show ?thesis by simp
    next
      case False
      then show ?thesis using "2.prems" "2.IH"(3) nlf by (auto split: list.splits)
    qed
  qed
qed simp

lemma split_eol_sublist: "l \<in> set (split_eol t) \<Longrightarrow> sublist l t"
proof (induction t arbitrary: l rule: split_eol.induct)
  case (2 c cs)
  show ?case
  proof (cases "c = LF \<or> (c = CR \<and> cs \<noteq> [] \<and> hd cs = LF)")
    case True
    then show ?thesis using "2.IH"(1,2) "2.prems" by (auto simp: sublist_Cons_right split: if_splits)
  next
    case False
    then obtain p ps where s: "split_eol cs = p # ps" "l = c # p \<or> l \<in> set ps"
      using "2.prems" by (cases "split_eol cs") auto
    have "prefix (c # p) (c # cs)" using split_eol_first [OF s(1)] by simp
    then show ?thesis using s "2.IH"(3) [of l] False by (auto simp: sublist_Cons_right)
  qed
qed simp

lemma fold_lines_ops: "DLine p t \<in> set (fold_lines ls ks n) \<Longrightarrow> (p, t) \<in> set ls"
  by (induction ls ks n rule: fold_lines.induct) (auto split: if_splits)

lemma ops_lines: "(p, t) \<in> set (diff_ops a b) \<Longrightarrow> t \<in> set a \<union> set b"
proof -
  assume m: "(p, t) \<in> set (diff_ops a b)"
  have "old_side (diff_ops a b) = a" "new_side (diff_ops a b) = b"
    by (simp_all add: diff_ops_ref diff_ref_sides)
  moreover have "t \<in> set (old_side d) \<or> t \<in> set (new_side d)" if "(p, t) \<in> set d" for d
  proof (cases "p = Add")
    case True
    then have "(p, t) \<in> set (filter (\<lambda>l. fst l \<noteq> Del) d)" using that by simp
    from imageI [OF this, of snd] have "t \<in> set (new_side d)" by (simp only: new_side_def set_map snd_conv)
    then show ?thesis by simp
  next
    case False
    then have "(p, t) \<in> set (filter (\<lambda>l. fst l \<noteq> Add) d)" using that by simp
    from imageI [OF this, of snd] have "t \<in> set (old_side d)" by (simp only: old_side_def set_map snd_conv)
    then show ?thesis by simp
  qed
  ultimately show ?thesis using m by (metis UnCI)
qed

lemma line_diff_sublist:
  assumes "DLine p t \<in> set (line_diff before after ctx)"
  shows "sublist t before \<or> sublist t after"
proof -
  have "(p, t) \<in> set (diff_ops (split_lines before) (split_lines after))"
    using assms unfolding line_diff_def Let_def by (rule fold_lines_ops)
  then have "t \<in> set (split_lines before) \<union> set (split_lines after)" by (rule ops_lines)
  moreover have "l \<in> set (split_lines x) \<Longrightarrow> l \<in> set (split_eol x)" for l x
    by (auto simp: split_lines_def Let_def dest: in_set_butlastD split: if_splits)
  ultimately show ?thesis using split_eol_sublist by blast
qed

section \<open>Properties\<close>

text \<open>
  Every server gets an alias: the search ends, and what it gives is not taken, not empty and
  made of lower-case letters, digits, underscores and hyphens only; it is the plain name unless
  that is taken.
\<close>

theorem alias_is_fresh:
  "\<exists>a. alias_for norm name taken = Some a \<and> a \<notin> set taken \<and> a \<noteq> [] \<and> list_all alias_char a \<and>
     (a = alias_base norm name \<or> alias_base norm name \<in> set taken)"
proof -
  let ?b = "alias_base norm name"
  obtain a where a: "alias_for norm name taken = Some a"
    using alias_from_Some [of ?b taken] by (auto simp: alias_for_def)
  then have fresh: "a \<notin> set taken" and "\<exists>k. a = alias_candidate ?b k"
    using alias_from_fresh [of ?b taken 1 "Suc (length taken)" a] by (auto simp: alias_for_def)
  then obtain k where k: "a = alias_candidate ?b k" by blast
  have "alias_char c" if "c \<in> set a" for c
    using that k alias_base_chars [of c norm name] digits_chars [of c k]
    by (auto simp: alias_candidate_def alias_char_def split: if_splits)
  moreover have "a \<noteq> []" using k alias_base_bounds [of norm name] by (simp add: alias_candidate_def)
  moreover have "a = ?b" if "?b \<notin> set taken"
    using a that by (simp add: alias_for_def alias_candidate_def)
  ultimately show ?thesis using a fresh by (auto simp: list_all_iff)
qed

text \<open>
  The ports offered are the first free ones: in order, from the start up, at most as many as
  asked for, none of them used and none left out before another; fewer are given only when no
  more are free up to 65535.
\<close>

theorem free_ports_first:
  "let ps = free_ports used count start in
     set ps \<subseteq> {start..65535} - used \<and> sorted_wrt (<) ps \<and> length ps \<le> count \<and>
     (length ps < count \<longrightarrow> set ps = {start..65535} - used) \<and>
     (\<forall>p \<in> {start..65535} - used. \<forall>q \<in> set ps. p < q \<longrightarrow> p \<in> set ps)"
  using free_ports_spec [of used count start] by (simp add: Let_def)

theorem free_ports_first_witness:
  "free_ports {25566} 2 25565 = [25565, 25567] \<and> set (free_ports {65535} 3 65534) = {65534}"
proof -
  have a: "free_ports {25566} 2 25565 = [25565, 25567]"
    by (simp add: free_ports.simps [of _ _ 25565] free_ports.simps [of _ _ 25566] free_ports.simps [of _ _ 25567]
        free_ports.simps [of _ 0])
  have "length (free_ports {65535} 3 65534) < 3"
    by (simp add: free_ports.simps [of _ _ 65534] free_ports.simps [of _ _ 65535] free_ports.simps [of _ _ 65536])
  with free_ports_first [of "{65535}" 3 65534] have "set (free_ports {65535} 3 65534) = {65534..65535} - {65535}"
    by (simp add: Let_def)
  also have "\<dots> = {65534 :: int}" by auto
  finally show ?thesis using a by simp
qed

text \<open>
  The changes shown for review never show the forwarding secret: no line of any diff
  contains it, whatever the files hold, for every secret that the panel generates.
\<close>

theorem changes_hide_secret:
  assumes "bytes \<noteq> []" and "ch \<in> set (file_changes edits (generate_secret bytes))"
    and "DLine p t \<in> set (fc_diff ch)"
  shows "\<not> sublist (generate_secret bytes) t"
proof -
  let ?s = "generate_secret bytes"
  have ne: "?s \<noteq> []" using assms(1) by (simp add: generate_secret_def)
  have "secret_alphabet ! (b mod length secret_alphabet) \<in> set secret_alphabet" for b
    by (rule nth_mem) (simp add: secret_alphabet_def)
  moreover have "CHR ''*'' \<notin> set secret_alphabet" by (simp add: secret_alphabet_def)
  ultimately have star: "CHR ''*'' \<notin> set ?s" by (auto simp: generate_secret_def)
  obtain x y where "DLine p t \<in> set (line_diff (mask_secret x ?s) (mask_secret y ?s) 3)"
    using assms(2,3) by (auto simp: file_changes_def)
  then have "sublist t (mask_secret x ?s) \<or> sublist t (mask_secret y ?s)" by (rule line_diff_sublist)
  then show ?thesis using mask_hides [OF ne star] sublist_order.order.trans by blast
qed

theorem changes_hide_secret_witness:
  "let s = generate_secret [0, 1, 2];
       ed = \<lparr>se_server = \<lparr>ds_id = None, ds_name = ''p'', ds_port = 1, ds_running = False\<rparr>,
             se_edits = [\<lparr>fe_path = ''f'', fe_before = None, fe_after = ''x=ABC''\<rparr>]\<rparr>;
       cs = file_changes [ed] s
   in s = ''ABC'' \<and> map fc_diff cs = [[DLine Add ''x=********'']] \<and> \<not> sublist s ''x=********''"
proof -
  let ?ed = "\<lparr>se_server = \<lparr>ds_id = None, ds_name = ''p'', ds_port = 1, ds_running = False\<rparr>,
             se_edits = [\<lparr>fe_path = ''f'', fe_before = None, fe_after = ''x=ABC''\<rparr>]\<rparr>"
  have s: "generate_secret [0, 1, 2] = ''ABC''" by code_simp
  have m: "map fc_diff (file_changes [?ed] (generate_secret [0, 1, 2])) = [[DLine Add ''x=********'']]" by code_simp
  then obtain c where c: "c \<in> set (file_changes [?ed] (generate_secret [0, 1, 2]))" "DLine Add ''x=********'' \<in> set (fc_diff c)"
    by (cases "file_changes [?ed] (generate_secret [0, 1, 2])") auto
  from changes_hide_secret [OF _ c] s m show ?thesis by (simp add: Let_def)
qed

end
