(* ===== verification/Java_Properties.thy ===== *)
theory Java_Properties
  imports Prelude "HOL-Library.Word"
begin

text \<open>
  The \<open>.properties\<close> files of game servers (\<open>core/properties/properties-document.ts\<close>,
  \<open>core/properties/properties-values.ts\<close>): reading, editing and writing them.

  A JavaScript string is the list of its 16 bit code units, because \<open>\uXXXX\<close> escapes denote
  code units of this width.  \<open>lit\<close> is a literal of the source.
\<close>

section \<open>Code units\<close>

type_synonym unit16 = "16 word"
type_synonym jtext = "16 word list"

definition lit :: "string \<Rightarrow> jtext" where
  "lit s = map of_char s"

abbreviation cLF :: unit16 where "cLF \<equiv> 0x0A"
abbreviation cCR :: unit16 where "cCR \<equiv> 0x0D"
abbreviation cTAB :: unit16 where "cTAB \<equiv> 0x09"
abbreviation cFF :: unit16 where "cFF \<equiv> 0x0C"
abbreviation cSP :: unit16 where "cSP \<equiv> 0x20"
abbreviation cBANG :: unit16 where "cBANG \<equiv> 0x21"
abbreviation cHASH :: unit16 where "cHASH \<equiv> 0x23"
abbreviation cCOLON :: unit16 where "cCOLON \<equiv> 0x3A"
abbreviation cEQ :: unit16 where "cEQ \<equiv> 0x3D"
abbreviation cBS :: unit16 where "cBS \<equiv> 0x5C"

text \<open>What \<open>trimStart\<close> removes: the white space and line terminators of ECMAScript.\<close>

definition js_space :: "unit16 \<Rightarrow> bool" where
  "js_space c \<longleftrightarrow> c \<in> set [cTAB, cLF, 0x0B, cFF, cCR, cSP, 0xA0, 0x1680, 0x2028, 0x2029, 0x202F, 0x205F, 0x3000, 0xFEFF]
     \<or> 0x2000 \<le> c \<and> c \<le> 0x200A"

definition js_trim_start :: "jtext \<Rightarrow> jtext" where
  "js_trim_start s = dropWhile js_space s"

definition prop_space :: "unit16 \<Rightarrow> bool" where
  "prop_space c \<longleftrightarrow> c \<in> set [cSP, cTAB, cFF]"

definition ESCAPES :: "(unit16 \<times> unit16) list" where
  "ESCAPES = [(0x74, cTAB), (0x6E, cLF), (0x72, cCR), (0x66, cFF)]"

section \<open>Entries\<close>

definition ends_with_continuation :: "jtext \<Rightarrow> bool" where
  "ends_with_continuation line = odd (length (takeWhile (\<lambda>c. c = cBS) (rev line)))"

definition hex_digit :: "unit16 \<Rightarrow> unit16 option" where
  "hex_digit c =
     (if 0x30 \<le> c \<and> c \<le> 0x39 then Some (c - 0x30)
      else if 0x61 \<le> c \<and> c \<le> 0x66 then Some (c - 0x57)
      else if 0x41 \<le> c \<and> c \<le> 0x46 then Some (c - 0x37)
      else None)"

text \<open>Four hexadecimal digits and nothing else.\<close>

definition hex_unit :: "jtext \<Rightarrow> unit16 option" where
  "hex_unit s =
     (if length s = 4 \<and> (\<forall>c \<in> set s. hex_digit c \<noteq> None)
      then Some (fold (\<lambda>c n. n * 16 + the (hex_digit c)) s 0) else None)"

fun unescape_loop :: "jtext \<Rightarrow> jtext" where
  "unescape_loop [] = []"
| "unescape_loop (c # cs) =
     (if c \<noteq> cBS then c # unescape_loop cs
      else case cs of
        [] \<Rightarrow> []
      | nxt # rest \<Rightarrow>
          (case (if nxt = 0x75 then hex_unit (take 4 rest) else None) of
             Some u \<Rightarrow> u # unescape_loop (drop 4 rest)
           | None \<Rightarrow> (case map_of ESCAPES nxt of Some e \<Rightarrow> e | None \<Rightarrow> nxt) # unescape_loop rest))"

definition unescape :: "jtext \<Rightarrow> jtext" where
  "unescape s = (if cBS \<notin> set s then s else unescape_loop s)"

text \<open>Where the key ends: an escape takes two units, also at the end of the line.\<close>

fun key_end :: "jtext \<Rightarrow> nat" where
  "key_end [] = 0"
| "key_end (c # cs) =
     (if c = cBS then (case cs of [] \<Rightarrow> 2 | d # ds \<Rightarrow> key_end ds + 2)
      else if c = cEQ \<or> c = cCOLON \<or> prop_space c then 0
      else key_end cs + 1)"

definition parse_entry :: "jtext \<Rightarrow> jtext \<times> jtext" where
  "parse_entry line =
     (let i = key_end line;
          key = unescape (take i line);
          r1 = dropWhile prop_space (drop i line);
          r2 = (if r1 \<noteq> [] \<and> (hd r1 = cEQ \<or> hd r1 = cCOLON) then tl r1 else r1);
          r3 = dropWhile prop_space r2
      in (key, unescape r3))"

definition replace_all :: "unit16 \<Rightarrow> jtext \<Rightarrow> jtext \<Rightarrow> jtext" where
  "replace_all c by_text s = concat (map (\<lambda>x. if x = c then by_text else [x]) s)"

definition escape_common :: "jtext \<Rightarrow> jtext" where
  "escape_common s =
     replace_all cFF [cBS, 0x66] (replace_all cTAB [cBS, 0x74] (replace_all cCR [cBS, 0x72]
       (replace_all cLF [cBS, 0x6E] (replace_all cBS [cBS, cBS] s))))"

definition escape_key :: "jtext \<Rightarrow> jtext" where
  "escape_key key =
     (let s = concat (map (\<lambda>x. if x \<in> set [cSP, cEQ, cCOLON] then [cBS, x] else [x]) (escape_common key))
      in if s \<noteq> [] \<and> (hd s = cHASH \<or> hd s = cBANG) then cBS # s else s)"

definition escape_value :: "jtext \<Rightarrow> jtext" where
  "escape_value v =
     (let s = escape_common v in if s \<noteq> [] \<and> hd s = cSP then cBS # s else s)"

section \<open>Documents\<close>

text \<open>A text line keeps its raw text; the raw text of an entry is gone once it was changed.\<close>

datatype prop_line = TextLine jtext | EntryLine (pl_key: jtext) (pl_value: jtext) (pl_raw: "jtext option")

record prop_doc =
  pd_lines :: "prop_line list"
  pd_eol :: jtext
  pd_trailing :: bool

text \<open>\<open>text.split\<close> at \<open>\r\n\<close>, \<open>\n\<close> and \<open>\r\<close>.\<close>

fun split_any :: "jtext \<Rightarrow> jtext list" where
  "split_any [] = [[]]"
| "split_any (c # cs) =
     (if c = cLF then [] # split_any cs
      else if c = cCR then [] # (case cs of [] \<Rightarrow> split_any [] | d # ds \<Rightarrow> if d = cLF then split_any ds else split_any (d # ds))
      else (case split_any cs of [] \<Rightarrow> [[c]] | l # ls \<Rightarrow> (c # l) # ls))"

fun has_crlf :: "jtext \<Rightarrow> bool" where
  "has_crlf (c # d # cs) = (c = cCR \<and> d = cLF \<or> has_crlf (d # cs))"
| "has_crlf _ = False"

text \<open>
  The inner loop: the physical lines an entry goes on over, its logical line, and the lines
  left for the next entry.
\<close>

fun gather :: "jtext \<Rightarrow> jtext list \<Rightarrow> jtext list \<times> jtext \<times> jtext list" where
  "gather logical [] = ([], logical, [])"
| "gather logical (p # ps) =
     (if ends_with_continuation logical
      then (case gather (butlast logical @ dropWhile prop_space p) ps of
              (parts, l, rest) \<Rightarrow> (p # parts, l, rest))
      else ([], logical, p # ps))"

lemma gather_length: "gather l ps = (parts, l2, rest) \<Longrightarrow> length rest \<le> length ps"
  by (induction l ps arbitrary: parts rule: gather.induct) (fastforce split: if_splits prod.splits)+

definition is_comment_or_blank :: "jtext \<Rightarrow> bool" where
  "is_comment_or_blank head \<longleftrightarrow> head = [] \<or> hd head = cHASH \<or> hd head = cBANG"

function parse_lines :: "jtext \<Rightarrow> jtext list \<Rightarrow> prop_line list" where
  "parse_lines eol [] = []"
| "parse_lines eol (first # others) =
     (let head = js_trim_start first in
      if is_comment_or_blank head then TextLine first # parse_lines eol others
      else (case gather head others of (parts, logical, rest) \<Rightarrow>
        (let l = (if ends_with_continuation logical then butlast logical else logical);
             (key, val) = parse_entry l
         in EntryLine key val (Some (join eol (first # parts))) # parse_lines eol rest)))"
  by pat_completeness auto
termination
  by (relation "measure (\<lambda>(eol, ps). length ps)") (auto dest!: gather_length [OF sym])

definition parse_doc :: "jtext \<Rightarrow> prop_doc" where
  "parse_doc text =
     (let eol = (if has_crlf text then [cCR, cLF] else [cLF]);
          physical = split_any text;
          trailing = (text = [] \<or> last physical = [])
      in \<lparr>pd_lines = parse_lines eol (if trailing then butlast physical else physical),
          pd_eol = eol, pd_trailing = trailing\<rparr>)"

definition entry_key :: "prop_line \<Rightarrow> jtext option" where
  "entry_key l = (case l of TextLine _ \<Rightarrow> None | EntryLine k _ _ \<Rightarrow> Some k)"

text \<open>The last entry with a key, and its position.\<close>

definition last_entry :: "prop_doc \<Rightarrow> jtext \<Rightarrow> prop_line option" where
  "last_entry d key = List.find (\<lambda>l. entry_key l = Some key) (rev (pd_lines d))"

definition prop_get :: "prop_doc \<Rightarrow> jtext \<Rightarrow> jtext option" where
  "prop_get d key = map_option pl_value (last_entry d key)"

definition prop_has :: "prop_doc \<Rightarrow> jtext \<Rightarrow> bool" where
  "prop_has d key \<longleftrightarrow> last_entry d key \<noteq> None"

text \<open>A JavaScript \<open>Map\<close> as an association list in the order of first insertion.\<close>

definition to_record :: "prop_doc \<Rightarrow> (jtext \<times> jtext) list" where
  "to_record d = fold (\<lambda>l m. case l of TextLine _ \<Rightarrow> m | EntryLine k v _ \<Rightarrow> AList.update k v m) (pd_lines d) []"

definition prop_keys :: "prop_doc \<Rightarrow> jtext list" where
  "prop_keys d = map fst (to_record d)"

text \<open>The effective entry of a key is the last one: changed in the reversed list.\<close>

fun change_first :: "jtext \<Rightarrow> jtext \<Rightarrow> prop_line list \<Rightarrow> prop_line list" where
  "change_first key val [] = []"
| "change_first key val (l # ls) =
     (if entry_key l = Some key
      then (if pl_value l = val then l else EntryLine key val None) # ls
      else l # change_first key val ls)"

definition prop_set :: "jtext \<Rightarrow> jtext \<Rightarrow> prop_doc \<Rightarrow> prop_doc" where
  "prop_set key val d =
     (if last_entry d key = None then d\<lparr>pd_lines := pd_lines d @ [EntryLine key val None]\<rparr>
      else d\<lparr>pd_lines := rev (change_first key val (rev (pd_lines d)))\<rparr>)"

definition prop_delete :: "jtext \<Rightarrow> prop_doc \<Rightarrow> bool \<times> prop_doc" where
  "prop_delete key d =
     (\<exists>l \<in> set (pd_lines d). entry_key l = Some key,
      d\<lparr>pd_lines := filter (\<lambda>l. entry_key l \<noteq> Some key) (pd_lines d)\<rparr>)"

definition prop_assign :: "(jtext \<times> jtext) list \<Rightarrow> prop_doc \<Rightarrow> prop_doc" where
  "prop_assign rec d =
     fold (\<lambda>(k, v) d. prop_set k v d) rec
       (fold (\<lambda>k d. if map_of rec k = None then snd (prop_delete k d) else d) (prop_keys d) d)"

definition line_text :: "prop_line \<Rightarrow> jtext" where
  "line_text l = (case l of
      TextLine raw \<Rightarrow> raw
    | EntryLine k v (Some raw) \<Rightarrow> raw
    | EntryLine k v None \<Rightarrow> escape_key k @ [cEQ] @ escape_value v)"

definition doc_text :: "prop_doc \<Rightarrow> jtext" where
  "doc_text d =
     (let body = join (pd_eol d) (map line_text (pd_lines d))
      in if pd_trailing d \<and> pd_lines d \<noteq> [] then body @ pd_eol d else body)"

section \<open>Reading values\<close>

text \<open>
  \<open>toLowerCase\<close> on the Latin letters; no other code unit becomes one of the letters it is
  compared with.
\<close>

definition lower_unit :: "unit16 \<Rightarrow> unit16" where
  "lower_unit c = (if 0x41 \<le> c \<and> c \<le> 0x5A then c + 0x20 else c)"

definition property_flag :: "jtext option \<Rightarrow> bool" where
  "property_flag v =
     (case v of None \<Rightarrow> False
      | Some s \<Rightarrow> map lower_unit (rev (js_trim_start (rev (js_trim_start s)))) = lit ''true'')"

text \<open>\<open>Number.parseInt(s, 10)\<close>: white space, a sign, the longest run of digits, \<open>NaN\<close> without any.\<close>

definition is_digit_unit :: "unit16 \<Rightarrow> bool" where
  "is_digit_unit c \<longleftrightarrow> 0x30 \<le> c \<and> c \<le> 0x39"

definition parse_int10 :: "jtext \<Rightarrow> int option" where
  "parse_int10 s =
     (let t = js_trim_start s;
          neg = (t \<noteq> [] \<and> hd t = 0x2D);
          u = (if t \<noteq> [] \<and> (hd t = 0x2D \<or> hd t = 0x2B) then tl t else t);
          ds = takeWhile is_digit_unit u;
          n = foldl (\<lambda>acc c. acc * 10 + uint (c - 0x30)) 0 ds
      in if ds = [] then None else Some (if neg then - n else n))"

definition property_port :: "jtext option \<Rightarrow> int option" where
  "property_port v =
     (case parse_int10 (case v of None \<Rightarrow> [] | Some s \<Rightarrow> s) of
        None \<Rightarrow> None
      | Some port \<Rightarrow> if 0 < port \<and> port < 65536 then Some port else None)"

end
