(* ===== verification/Properties_Text.thy ===== *)
theory Properties_Text
  imports Java_Properties
begin

text \<open>
  The text of property files: escapes are undone by the reader, physical lines are found
  again, and entries are read back from what is written for them.
\<close>

section \<open>Escapes\<close>

definition esc_unit :: "unit16 \<Rightarrow> jtext" where
  "esc_unit x =
     (if x = cBS then [cBS, cBS] else if x = cLF then [cBS, 0x6E] else if x = cCR then [cBS, 0x72]
      else if x = cTAB then [cBS, 0x74] else if x = cFF then [cBS, 0x66] else [x])"

definition key_unit :: "unit16 \<Rightarrow> jtext" where
  "key_unit x = (if x = cSP \<or> x = cEQ \<or> x = cCOLON then [cBS, x] else esc_unit x)"

abbreviation esc_units :: "jtext \<Rightarrow> jtext" where "esc_units s \<equiv> concat (map esc_unit s)"
abbreviation key_units :: "jtext \<Rightarrow> jtext" where "key_units s \<equiv> concat (map key_unit s)"

lemma replace_all_simps [simp]:
  "replace_all c t [] = []"
  "replace_all c t (x # s) = (if x = c then t else [x]) @ replace_all c t s"
  "replace_all c t (s @ s2) = replace_all c t s @ replace_all c t s2"
  by (simp_all add: replace_all_def)

lemma escape_common_units: "escape_common s = esc_units s"
proof (induction s)
  case (Cons x s)
  then show ?case by (simp add: escape_common_def esc_unit_def)
qed (simp add: escape_common_def)

lemma escape_key_units:
  "escape_key k = (if k \<noteq> [] \<and> (hd k = cHASH \<or> hd k = cBANG) then [cBS] else []) @ key_units k"
proof -
  have "concat (map (\<lambda>x. if x \<in> set [cSP, cEQ, cCOLON] then [cBS, x] else [x]) (esc_units k)) = key_units k"
    by (induction k) (auto simp: key_unit_def esc_unit_def)
  moreover have "key_units k \<noteq> [] \<and> (hd (key_units k) = cHASH \<or> hd (key_units k) = cBANG) \<longleftrightarrow>
      k \<noteq> [] \<and> (hd k = cHASH \<or> hd k = cBANG)"
    by (cases k) (auto simp: key_unit_def esc_unit_def)
  ultimately show ?thesis by (simp add: escape_key_def escape_common_units Let_def)
qed

lemma escape_value_units:
  "escape_value v = (if v \<noteq> [] \<and> hd v = cSP then [cBS] else []) @ esc_units v"
proof -
  have "esc_units v \<noteq> [] \<and> hd (esc_units v) = cSP \<longleftrightarrow> v \<noteq> [] \<and> hd v = cSP"
    by (cases v) (auto simp: esc_unit_def)
  then show ?thesis by (simp add: escape_value_def escape_common_units Let_def)
qed

lemma unescape_loop_plain: "cBS \<notin> set s \<Longrightarrow> unescape_loop s = s"
  by (induction s) auto

lemma unescape_is_loop: "unescape s = unescape_loop s"
  by (simp add: unescape_def unescape_loop_plain)

lemma unescape_esc_unit: "unescape_loop (esc_unit x @ s) = x # unescape_loop s"
  by (simp add: esc_unit_def ESCAPES_def)

lemma unescape_key_unit: "unescape_loop (key_unit x @ s) = x # unescape_loop s"
  by (simp add: key_unit_def unescape_esc_unit) (simp add: ESCAPES_def)

lemma unescape_esc_units: "unescape_loop (esc_units s) = s"
  by (induction s) (simp_all add: unescape_esc_unit)

lemma unescape_key_units: "unescape_loop (key_units s) = s"
  by (induction s) (simp_all add: unescape_key_unit)

lemma unescape_bs: "c = cHASH \<or> c = cBANG \<or> c = cSP \<Longrightarrow> unescape_loop (cBS # c # s) = c # unescape_loop s"
  by (auto simp: ESCAPES_def)

lemma unescape_value: "unescape (escape_value v) = v"
proof (cases "v \<noteq> [] \<and> hd v = cSP")
  case True
  then obtain vs where "v = cSP # vs" by (cases v) auto
  moreover have "esc_unit cSP = [cSP]" by (simp add: esc_unit_def)
  ultimately show ?thesis
    using unescape_bs [of cSP "esc_units vs"] unescape_esc_units [of vs]
    by (simp add: escape_value_units unescape_is_loop del: unescape_loop.simps)
next
  case False
  then have "escape_value v = esc_units v" by (auto simp: escape_value_units)
  then show ?thesis by (simp add: unescape_is_loop unescape_esc_units)
qed

lemma unescape_key: "unescape (escape_key k) = k"
proof (cases "k \<noteq> [] \<and> (hd k = cHASH \<or> hd k = cBANG)")
  case True
  then obtain c ks where k: "k = c # ks" "c = cHASH \<or> c = cBANG" by (cases k) auto
  then have "key_unit c = [c]" by (auto simp: key_unit_def esc_unit_def)
  with k show ?thesis
    using unescape_bs [of c "key_units ks"] unescape_key_units [of ks]
    by (auto simp: escape_key_units unescape_is_loop simp del: unescape_loop.simps)
next
  case False
  then show ?thesis by (auto simp: escape_key_units unescape_is_loop unescape_key_units)
qed

section \<open>Entries read back\<close>

lemma key_end_unit: "key_end (key_unit x @ s) = length (key_unit x) + key_end s"
  by (simp add: key_unit_def esc_unit_def prop_space_def)

lemma key_end_units: "key_end (key_units k @ cEQ # r) = length (key_units k)"
  by (induction k) (simp_all add: key_end_unit)

lemma key_end_key: "key_end (escape_key k @ cEQ # r) = length (escape_key k)"
proof (cases "k \<noteq> [] \<and> (hd k = cHASH \<or> hd k = cBANG)")
  case True
  then obtain c ks where k: "k = c # ks" "c = cHASH \<or> c = cBANG" by (cases k) auto
  then have "key_unit c = [c]" by (auto simp: key_unit_def esc_unit_def)
  with k show ?thesis using key_end_units [of ks r] by (auto simp: escape_key_units)
next
  case False
  then show ?thesis by (auto simp: escape_key_units key_end_units)
qed

lemma value_start: "dropWhile prop_space (escape_value v) = escape_value v"
  by (cases v) (auto simp: escape_value_units esc_unit_def prop_space_def)

lemma parse_written: "parse_entry (escape_key k @ [cEQ] @ escape_value v) = (k, v)"
proof -
  have "key_end (escape_key k @ [cEQ] @ escape_value v) = length (escape_key k)"
    using key_end_key [of k "escape_value v"] by simp
  moreover have "\<not> prop_space cEQ" by (simp add: prop_space_def)
  ultimately show ?thesis
    by (simp add: parse_entry_def Let_def value_start unescape_key unescape_value)
qed

lemma continuation_snoc [simp]:
  "ends_with_continuation (s @ [c]) \<longleftrightarrow> c = cBS \<and> \<not> ends_with_continuation s"
  "\<not> ends_with_continuation []"
  by (auto simp: ends_with_continuation_def)

lemma continuation_snoc2 [simp]:
  "ends_with_continuation (s @ [c, d]) \<longleftrightarrow> d = cBS \<and> \<not> (c = cBS \<and> \<not> ends_with_continuation s)"
  using continuation_snoc(1) [of "s @ [c]" d] by simp

lemma continuation_esc_unit: "ends_with_continuation (s @ esc_unit x) \<longleftrightarrow> x = cBS \<and> ends_with_continuation s"
  by (simp add: esc_unit_def)

lemma continuation_esc:
  "\<not> ends_with_continuation s \<Longrightarrow> \<not> ends_with_continuation (s @ esc_units v)"
proof (induction v rule: rev_induct)
  case (snoc x v)
  then have "\<not> ends_with_continuation (s @ esc_units v)" by simp
  then show ?case using continuation_esc_unit [of "s @ esc_units v" x] by simp
qed simp

lemma written_closed: "\<not> ends_with_continuation (escape_key k @ [cEQ] @ escape_value v)"
proof (cases "v \<noteq> [] \<and> hd v = cSP")
  case True
  then obtain vs where v: "v = cSP # vs" by (cases v) auto
  have "\<not> ends_with_continuation ((escape_key k @ [cEQ]) @ [cBS, cSP])" by (simp only: continuation_snoc2) simp
  from continuation_esc [OF this, of vs] v show ?thesis by (simp add: escape_value_units esc_unit_def)
next
  case False
  have "\<not> ends_with_continuation (escape_key k @ [cEQ])" by simp
  from continuation_esc [OF this, of v] False show ?thesis by (auto simp: escape_value_units)
qed

end
