(* ===== verification/Properties_Documents.thy ===== *)
theory Properties_Documents
  imports Properties_Text
begin

text \<open>
  Property documents: what parsing keeps, what the operations change, and that a document
  that was edited and written is read back as it was.
\<close>

section \<open>Physical lines\<close>

definition clean :: "jtext \<Rightarrow> bool" where
  "clean p \<longleftrightarrow> cLF \<notin> set p \<and> cCR \<notin> set p"

abbreviation eols :: "jtext set" where "eols \<equiv> {[cLF], [cCR, cLF]}"

lemma split_any_not_Nil [simp]: "split_any s \<noteq> []"
  by (cases s) (auto split: list.splits)

lemma split_any_eol: "eol \<in> eols \<Longrightarrow> split_any (eol @ t) = [] # split_any t"
  by auto

lemma split_any_line:
  assumes "clean p" and "eol \<in> eols"
  shows "split_any (p @ eol @ t) = p # split_any t"
  using assms(1)
proof (induction p)
  case Nil
  then show ?case using split_any_eol [OF assms(2)] by simp
next
  case (Cons c p)
  then show ?case by (simp add: clean_def)
qed

lemma split_any_clean: "clean p \<Longrightarrow> split_any p = [p]"
  by (induction p) (auto simp: clean_def)

lemma split_any_join:
  assumes "eol \<in> eols" and "ps \<noteq> []" and "\<forall>p \<in> set ps. clean p"
  shows "split_any (join eol ps) = ps"
  using assms(2,3)
proof (induction ps)
  case (Cons p ps)
  then show ?case using split_any_line [OF _ assms(1), of p] by (cases ps) (simp_all add: split_any_clean)
qed simp

lemma has_crlf_line: "clean p \<Longrightarrow> has_crlf (p @ [cLF] @ t) = has_crlf t"
  by (induction p) (auto simp: clean_def neq_Nil_conv elim: has_crlf.elims)

lemma has_crlf_clean: "clean p \<Longrightarrow> \<not> has_crlf p"
  by (induction p rule: has_crlf.induct) (auto simp: clean_def)

lemma join_app: "join s (xs @ ys) = (if xs = [] then join s ys else if ys = [] then join s xs else join s xs @ s @ join s ys)"
  by (induction xs) (auto simp: join_Cons)

section \<open>Entries over several lines\<close>

lemma gather_split: "gather l ps = (parts, l2, rest) \<Longrightarrow> ps = parts @ rest"
  by (induction l ps arbitrary: parts rule: gather.induct) (auto split: if_splits prod.splits)

lemma gather_open: "gather l ps = (parts, l2, rest) \<Longrightarrow> rest \<noteq> [] \<Longrightarrow> \<not> ends_with_continuation l2"
  by (induction l ps arbitrary: parts rule: gather.induct) (auto split: if_splits prod.splits)

lemma gather_app:
  "gather l ps = (parts, l2, []) \<Longrightarrow> \<not> ends_with_continuation l2 \<Longrightarrow> gather l (ps @ qs) = (parts, l2, qs)"
proof (induction l ps arbitrary: parts rule: gather.induct)
  case (1 l)
  then show ?case by (cases qs) auto
qed (auto split: if_splits prod.splits)

lemma gather_prefix:
  "gather l ps = (parts, l2, rest) \<Longrightarrow> gather l parts = (parts, l2, [])"
  by (induction l ps arbitrary: parts rule: gather.induct) (auto split: if_splits prod.splits)

text \<open>Whether a logical line is followed by an empty physical line or by the end does not matter.\<close>

definition closed_logical :: "jtext \<Rightarrow> jtext" where
  "closed_logical l = (if ends_with_continuation l then butlast l else l)"

lemma butlast_closed: "ends_with_continuation l \<Longrightarrow> \<not> ends_with_continuation (butlast l)"
  by (cases l rule: rev_cases) auto

lemma gather_blank_end:
  assumes "gather l ps = (parts, l2, rest)"
  shows "(if ends_with_continuation l2
          then gather l (ps @ [[]]) = (parts @ [[]], butlast l2, [])
          else gather l (ps @ [[]]) = (parts, l2, rest @ [[]]))"
  using assms
proof (induction l ps arbitrary: parts rule: gather.induct)
  case (1 l)
  then show ?case by (auto simp: butlast_closed)
qed (auto split: if_splits prod.splits)

definition kv :: "prop_line \<Rightarrow> (jtext \<times> jtext) list" where
  "kv l = (case l of TextLine _ \<Rightarrow> [] | EntryLine k v _ \<Rightarrow> [(k, v)])"

abbreviation kvs :: "prop_line list \<Rightarrow> (jtext \<times> jtext) list" where
  "kvs ls \<equiv> concat (map kv ls)"

lemma kv_simps [simp]: "kv (TextLine t) = []" "kv (EntryLine k v r) = [(k, v)]"
  by (simp_all add: kv_def)

lemma parse_lines_Cons:
  "parse_lines eol (p # ps) =
     (if is_comment_or_blank (js_trim_start p) then TextLine p # parse_lines eol ps
      else case gather (js_trim_start p) ps of (parts, l, rest) \<Rightarrow>
        EntryLine (fst (parse_entry (closed_logical l))) (snd (parse_entry (closed_logical l)))
          (Some (join eol (p # parts))) # parse_lines eol rest)"
  by (simp add: Let_def closed_logical_def split: prod.splits)

declare parse_lines.simps(2) [simp del]

lemma parse_lines_blank_end: "kvs (parse_lines eol (ps @ [[]])) = kvs (parse_lines eol2 ps)"
proof (induction "length ps" arbitrary: ps rule: less_induct)
  case less
  show ?case
  proof (cases ps)
    case Nil
    then show ?thesis by (simp add: parse_lines_Cons js_trim_start_def is_comment_or_blank_def)
  next
    case (Cons p qs)
    show ?thesis
    proof (cases "is_comment_or_blank (js_trim_start p)")
      case True
      then show ?thesis using less [of qs] Cons by (simp add: parse_lines_Cons)
    next
      case False
      obtain parts l rest where g: "gather (js_trim_start p) qs = (parts, l, rest)" by (metis prod_cases3)
      have "length rest < length ps" using gather_length [OF g] Cons by simp
      then have IH: "kvs (parse_lines eol (rest @ [[]])) = kvs (parse_lines eol2 rest)" by (rule less)
      show ?thesis
      proof (cases "ends_with_continuation l")
        case True
        then have "rest = []" using gather_open [OF g] by blast
        with True False g gather_blank_end [OF g] Cons show ?thesis
          by (simp add: parse_lines_Cons closed_logical_def butlast_closed)
      next
        case nc: False
        with False g gather_blank_end [OF g] Cons IH show ?thesis
          by (simp add: parse_lines_Cons closed_logical_def)
      qed
    qed
  qed
qed

lemma parse_lines_eol: "kvs (parse_lines eol ps) = kvs (parse_lines eol2 ps)"
  using parse_lines_blank_end [of eol ps eol] parse_lines_blank_end [of eol ps eol2] by simp

section \<open>An untouched document\<close>

lemma parse_lines_Nil_iff [simp]: "parse_lines eol ps = [] \<longleftrightarrow> ps = []"
  by (cases ps) (auto simp: parse_lines_Cons split: prod.splits)

lemma line_text_simps [simp]:
  "line_text (TextLine t) = t" "line_text (EntryLine k v (Some r)) = r"
  "line_text (EntryLine k v None) = escape_key k @ [cEQ] @ escape_value v"
  by (simp_all add: line_text_def)

lemma parse_lines_text: "join eol (map line_text (parse_lines eol ps)) = join eol ps"
proof (induction "length ps" arbitrary: ps rule: less_induct)
  case less
  show ?case
  proof (cases ps)
    case (Cons p qs)
    show ?thesis
    proof (cases "is_comment_or_blank (js_trim_start p)")
      case True
      then show ?thesis using less [of qs] Cons by (simp add: parse_lines_Cons join_Cons)
    next
      case False
      obtain parts l rest where g: "gather (js_trim_start p) qs = (parts, l, rest)" by (metis prod_cases3)
      have "length rest < length ps" using gather_length [OF g] Cons by simp
      then have "join eol (map line_text (parse_lines eol rest)) = join eol rest" by (rule less)
      then show ?thesis using False g gather_split [OF g] Cons
        by (simp add: parse_lines_Cons join_Cons join_app)
    qed
  qed simp
qed

lemma eol_of_text:
  assumes "eol \<in> eols" and "\<forall>p \<in> set ps. clean p" and "2 \<le> length ps"
  shows "(if has_crlf (join eol ps) then [cCR, cLF] else [cLF]) = eol"
proof -
  have lf: "\<not> has_crlf (join [cLF] qs)" if "\<forall>p \<in> set qs. clean p" for qs
    using that
  proof (induction qs)
    case (Cons q qs)
    then show ?case using has_crlf_line [of q] by (cases qs) (simp_all add: has_crlf_clean)
  qed simp
  have crlf: "has_crlf (p @ [cCR, cLF] @ t)" for p t
    by (induction p rule: has_crlf.induct) auto
  obtain p q qs where ps: "ps = p # q # qs" using assms(3) by (metis Suc_le_length_iff numeral_2_eq_2)
  from assms(1) show ?thesis
  proof
    assume "eol = [cLF]"
    then show ?thesis using lf [OF assms(2)] by simp
  next
    assume "eol \<in> {[cCR, cLF]}"
    then show ?thesis using crlf [of p] ps by simp
  qed
qed

section \<open>A document that was edited\<close>

definition key_ok :: "jtext \<Rightarrow> bool" where
  "key_ok k \<longleftrightarrow> k = [] \<or> \<not> js_space (hd k) \<or> hd k \<in> set [cSP, cTAB, cFF, cLF, cCR]"

text \<open>The physical lines of an entry, and what they are read as.\<close>

definition reads_as :: "jtext list \<Rightarrow> jtext \<Rightarrow> jtext \<Rightarrow> bool" where
  "reads_as phys k v \<longleftrightarrow> (\<exists>p parts l. phys = p # parts \<and> (\<forall>x \<in> set phys. clean x) \<and>
     \<not> is_comment_or_blank (js_trim_start p) \<and> gather (js_trim_start p) parts = (parts, l, []) \<and>
     \<not> ends_with_continuation l \<and> parse_entry l = (k, v))"

definition line_ok :: "jtext \<Rightarrow> prop_line \<Rightarrow> bool" where
  "line_ok eol l = (case l of
      TextLine raw \<Rightarrow> clean raw \<and> is_comment_or_blank (js_trim_start raw)
    | EntryLine k v None \<Rightarrow> key_ok k
    | EntryLine k v (Some raw) \<Rightarrow> \<exists>phys. raw = join eol phys \<and> reads_as phys k v)"

definition doc_ok :: "prop_doc \<Rightarrow> bool" where
  "doc_ok d \<longleftrightarrow> pd_eol d \<in> eols \<and> (\<forall>l \<in> set (pd_lines d). line_ok (pd_eol d) l)"

lemma esc_unit_clean: "cLF \<notin> set (esc_unit x)" "cCR \<notin> set (esc_unit x)"
  by (auto simp: esc_unit_def)

lemma key_unit_clean: "cLF \<notin> set (key_unit x)" "cCR \<notin> set (key_unit x)"
  by (auto simp: key_unit_def esc_unit_clean)

lemma written_clean: "clean (escape_key k @ [cEQ] @ escape_value v)"
  using esc_unit_clean key_unit_clean by (auto simp: clean_def escape_key_units escape_value_units)

lemma written_head:
  assumes "key_ok k"
  shows "js_trim_start (escape_key k @ [cEQ] @ escape_value v) = escape_key k @ [cEQ] @ escape_value v"
    and "\<not> is_comment_or_blank (escape_key k @ [cEQ] @ escape_value v)"
proof -
  have bs: "\<not> js_space cBS" and eq: "\<not> js_space cEQ" by (simp_all add: js_space_def)
  have "\<not> js_space (hd (escape_key k @ [cEQ])) \<and> hd (escape_key k @ [cEQ]) \<notin> {cHASH, cBANG}"
  proof (cases k)
    case Nil
    then show ?thesis using eq by (simp add: escape_key_units)
  next
    case (Cons c ks)
    then show ?thesis using assms bs by (auto simp: escape_key_units key_unit_def esc_unit_def key_ok_def)
  qed
  moreover obtain c s where "escape_key k @ [cEQ] = c # s" by (cases "escape_key k") auto
  ultimately show "js_trim_start (escape_key k @ [cEQ] @ escape_value v) = escape_key k @ [cEQ] @ escape_value v"
    and "\<not> is_comment_or_blank (escape_key k @ [cEQ] @ escape_value v)"
    unfolding append_assoc [symmetric] by (simp_all add: js_trim_start_def is_comment_or_blank_def)
qed

lemma reads_as_written: "key_ok k \<Longrightarrow> reads_as [escape_key k @ [cEQ] @ escape_value v] k v"
  unfolding reads_as_def
  using written_clean [of k v] written_head [of k v] written_closed [of k v] parse_written [of k v]
  by simp

text \<open>Every good line is written as physical lines that are read back as the same entry.\<close>

lemma line_phys:
  assumes "line_ok eol l"
  obtains phys where "line_text l = join eol phys" "phys \<noteq> []" "\<forall>p \<in> set phys. clean p"
    "\<And>qs. kvs (parse_lines eol (phys @ qs)) = kv l @ kvs (parse_lines eol qs)"
proof (cases l)
  case (TextLine raw)
  then show ?thesis using assms by (intro that [of "[raw]"]) (simp_all add: line_ok_def parse_lines_Cons)
next
  case (EntryLine k v raw)
  obtain phys where phys: "line_text l = join eol phys" "reads_as phys k v"
  proof (cases raw)
    case None
    then show ?thesis using assms EntryLine reads_as_written [of k v]
      by (intro that [of "[escape_key k @ [cEQ] @ escape_value v]"]) (simp_all add: line_ok_def)
  next
    case (Some r)
    then show ?thesis using assms EntryLine that by (auto simp: line_ok_def)
  qed
  then obtain p parts lg where ph: "phys = p # parts" "\<forall>x \<in> set phys. clean x"
    "\<not> is_comment_or_blank (js_trim_start p)" "gather (js_trim_start p) parts = (parts, lg, [])"
    "\<not> ends_with_continuation lg" "parse_entry lg = (k, v)" by (auto simp: reads_as_def)
  have "kvs (parse_lines eol (phys @ qs)) = kv l @ kvs (parse_lines eol qs)" for qs
    using ph gather_app [OF ph(4,5), of qs] EntryLine by (simp add: parse_lines_Cons closed_logical_def)
  then show ?thesis using ph phys by (intro that [of phys]) simp_all
qed

lemma lines_phys:
  assumes "\<forall>l \<in> set ls. line_ok eol l"
  obtains phys where "join eol (map line_text ls) = join eol phys" "phys = [] \<longleftrightarrow> ls = []"
    "\<forall>p \<in> set phys. clean p" "kvs (parse_lines eol phys) = kvs ls"
  using assms
proof (induction ls arbitrary: thesis)
  case Nil
  then show ?case by simp
next
  case (Cons l ls)
  from Cons.prems(2) have "\<forall>l \<in> set ls. line_ok eol l" by simp
  from Cons.IH [OF _ this] obtain phys where r: "join eol (map line_text ls) = join eol phys"
    "phys = [] \<longleftrightarrow> ls = []" "\<forall>p \<in> set phys. clean p" "kvs (parse_lines eol phys) = kvs ls" by blast
  from Cons.prems(2) obtain ph where h: "line_text l = join eol ph" "ph \<noteq> []" "\<forall>p \<in> set ph. clean p"
    "\<And>qs. kvs (parse_lines eol (ph @ qs)) = kv l @ kvs (parse_lines eol qs)"
    by (auto elim: line_phys)
  show ?case using r h by (intro Cons.prems(1) [of "ph @ phys"]) (auto simp: join_Cons join_app)
qed

lemma kvs_reparse:
  assumes "doc_ok d"
  shows "kvs (pd_lines (parse_doc (doc_text d))) = kvs (pd_lines d)"
proof -
  let ?eol = "pd_eol d"
  from assms have eol: "?eol \<in> eols" and ok: "\<forall>l \<in> set (pd_lines d). line_ok ?eol l" by (auto simp: doc_ok_def)
  from ok obtain phys where ph: "join ?eol (map line_text (pd_lines d)) = join ?eol phys"
    "phys = [] \<longleftrightarrow> pd_lines d = []" "\<forall>p \<in> set phys. clean p" "kvs (parse_lines ?eol phys) = kvs (pd_lines d)"
    by (rule lines_phys)
  show ?thesis
  proof (cases "pd_lines d = []")
    case True
    then show ?thesis by (simp add: doc_text_def Let_def parse_doc_def)
  next
    case False
    define all where "all = (if pd_trailing d then phys @ [[]] else phys)"
    have all: "doc_text d = join ?eol all" "all \<noteq> []" "\<forall>p \<in> set all. clean p"
      using False ph(1-3) by (auto simp: all_def doc_text_def Let_def join_app clean_def)
    have sp: "split_any (doc_text d) = all" using all split_any_join [OF eol] by simp
    have kv: "kvs (parse_lines e all) = kvs (pd_lines d)" for e
      using parse_lines_blank_end [of e phys ?eol] parse_lines_eol [of e phys ?eol] ph(4) by (simp add: all_def)
    have but: "kvs (parse_lines e (butlast all)) = kvs (pd_lines d)" if "last all = []" for e
      using parse_lines_blank_end [of e "butlast all" e] append_butlast_last_id [OF all(2)] that kv [of e] by simp
    have "kvs (pd_lines (parse_doc (doc_text d))) = kvs (pd_lines d)" if "doc_text d \<noteq> [] \<or> last all = []"
      using that kv but unfolding parse_doc_def Let_def sp by simp
    moreover have "last all = []" if "doc_text d = []" using sp that by auto
    ultimately show ?thesis by blast
  qed
qed

end
