(* ===== verification/Properties_Files.thy ===== *)
theory Properties_Files
  imports Properties_Documents
begin

text \<open>
  The operations of a property document, the property files of the panel
  (\<open>core/properties/properties-file.ts\<close>, \<open>instances/server-properties-file.ts\<close>), and the
  properties of both.
\<close>

section \<open>Files\<close>

text \<open>A file is its text, \<open>None\<close> when it does not exist.\<close>

definition read_properties_file :: "jtext option \<Rightarrow> prop_doc option" where
  "read_properties_file file = map_option parse_doc file"

definition update_properties_file :: "jtext option \<Rightarrow> (prop_doc \<Rightarrow> prop_doc) \<Rightarrow> jtext option \<times> prop_doc" where
  "update_properties_file file mutate =
     (let doc = (case read_properties_file file of None \<Rightarrow> parse_doc [] | Some d \<Rightarrow> d);
          doc1 = mutate doc
      in (Some (doc_text doc1), doc1))"

record properties_snapshot =
  sn_values :: "(jtext \<times> jtext) list"
  sn_port :: "int option"
  sn_query_port :: "int option"

definition server_properties_read :: "jtext option \<Rightarrow> properties_snapshot option" where
  "server_properties_read file =
     (case read_properties_file file of
        None \<Rightarrow> None
      | Some doc \<Rightarrow> Some \<lparr>sn_values = to_record doc,
          sn_port = property_port (prop_get doc (lit ''server-port'')),
          sn_query_port = property_port (prop_get doc (lit ''query.port''))\<rparr>)"

text \<open>The record is what \<open>toPropertyRecord\<close> made of the request: strings without an empty key.\<close>

definition server_properties_write :: "jtext option \<Rightarrow> (jtext \<times> jtext) list \<Rightarrow> jtext option" where
  "server_properties_write file rec = fst (update_properties_file file (prop_assign rec))"

section \<open>Effective values\<close>

lemma last_entry_Some: "last_entry d k = Some l \<Longrightarrow> entry_key l = Some k"
  by (auto simp: last_entry_def find_Some_iff)

definition kv_get :: "prop_line list \<Rightarrow> jtext \<Rightarrow> jtext option" where
  "kv_get ls k = map_of (rev (kvs ls)) k"

lemma kv_get_simps [simp]:
  "kv_get [] k = None"
  "kv_get (ls @ [l]) k = (if entry_key l = Some k then Some (pl_value l) else kv_get ls k)"
  by (cases l; simp add: kv_get_def entry_key_def)+

lemma prop_get_kv: "prop_get d k = kv_get (pd_lines d) k"
proof -
  have "map_option pl_value (List.find (\<lambda>l. entry_key l = Some k) (rev ls)) = kv_get ls k" for ls
    by (induction ls rule: rev_induct) auto
  then show ?thesis by (simp add: prop_get_def last_entry_def)
qed

lemma to_record_kvs:
  "to_record d = fold (\<lambda>(k, v) m. AList.update k v m) (kvs (pd_lines d)) []"
proof -
  have "fold (\<lambda>l m. case l of TextLine _ \<Rightarrow> m | EntryLine k v _ \<Rightarrow> AList.update k v m) ls m =
      fold (\<lambda>(k, v) m. AList.update k v m) (kvs ls) m" for ls and m :: "(jtext \<times> jtext) list"
    by (induction ls arbitrary: m) (auto split: prop_line.splits)
  then show ?thesis by (simp add: to_record_def)
qed

lemma map_of_record: "map_of (to_record d) = prop_get d"
proof -
  have "map_of (fold (\<lambda>(k, v) m. AList.update k v m) ps []) = map_of (rev ps)" for ps :: "(jtext \<times> jtext) list"
    by (induction ps rule: rev_induct) (auto simp: update_conv split: prod.splits)
  then show ?thesis by (rule_tac ext) (simp add: to_record_kvs prop_get_kv kv_get_def)
qed

lemma prop_keys_set: "k \<in> set (prop_keys d) \<longleftrightarrow> prop_get d k \<noteq> None"
  unfolding prop_keys_def map_of_record [symmetric] by (simp add: map_of_eq_None_iff)

lemma last_entry_None: "last_entry d k = None \<longleftrightarrow> prop_get d k = None"
  by (simp add: prop_get_def)

lemma change_first_rev:
  "kv_get (rev (change_first k v ls)) j =
     (if j = k \<and> kv_get (rev ls) k \<noteq> None then Some v else kv_get (rev ls) j)"
  by (induction ls) (auto simp: entry_key_def split: prop_line.splits)

lemma prop_get_set: "prop_get (prop_set k v d) j = (if j = k then Some v else prop_get d j)"
proof (cases "last_entry d k")
  case None
  then show ?thesis by (simp add: prop_set_def prop_get_kv entry_key_def)
next
  case (Some l)
  then have "prop_get d k \<noteq> None" by (simp add: prop_get_def)
  with Some show ?thesis using change_first_rev [of k v "rev (pd_lines d)" j]
    by (simp add: prop_set_def prop_get_kv)
qed

lemma prop_get_delete: "prop_get (snd (prop_delete k d)) j = (if j = k then None else prop_get d j)"
proof -
  have "kv_get (filter (\<lambda>l. entry_key l \<noteq> Some k) ls) j = (if j = k then None else kv_get ls j)" for ls
    by (induction ls rule: rev_induct) auto
  then show ?thesis by (simp add: prop_delete_def prop_get_kv)
qed

definition drop_absent :: "(jtext \<times> jtext) list \<Rightarrow> jtext list \<Rightarrow> prop_doc \<Rightarrow> prop_doc" where
  "drop_absent rec ks d = fold (\<lambda>k d. if map_of rec k = None then snd (prop_delete k d) else d) ks d"

definition put_all :: "(jtext \<times> jtext) list \<Rightarrow> prop_doc \<Rightarrow> prop_doc" where
  "put_all rec d = fold (\<lambda>(k, v) d. prop_set k v d) rec d"

lemma prop_assign_parts: "prop_assign rec d = put_all rec (drop_absent rec (prop_keys d) d)"
  by (simp add: prop_assign_def put_all_def drop_absent_def)

lemma drop_absent_get:
  "prop_get (drop_absent rec ks d) j = (if j \<in> set ks \<and> map_of rec j = None then None else prop_get d j)"
  by (induction ks arbitrary: d) (auto simp: drop_absent_def prop_get_delete)

lemma put_all_get:
  "distinct (map fst rec) \<Longrightarrow> prop_get (put_all rec d) j = (case map_of rec j of None \<Rightarrow> prop_get d j | Some v \<Rightarrow> Some v)"
proof (induction rec arbitrary: d)
  case (Cons p rec)
  obtain k v where p: "p = (k, v)" by (cases p)
  have "map_of rec k = None" using Cons.prems p by (simp add: map_of_eq_None_iff)
  moreover have "put_all (p # rec) d = put_all rec (prop_set k v d)" by (simp add: put_all_def p)
  moreover have "distinct (map fst rec)" using Cons.prems by simp
  ultimately show ?case using Cons.IH [of "prop_set k v d"] p
    by (auto simp: prop_get_set split: option.splits)
qed (simp add: put_all_def)

lemma prop_assign_get:
  assumes "distinct (map fst rec)"
  shows "prop_get (prop_assign rec d) j = map_of rec j"
  using prop_keys_set [of j d]
  by (auto simp: prop_assign_parts put_all_get [OF assms] drop_absent_get split: option.splits)

section \<open>Lines that stay\<close>

definition stays :: "(jtext \<times> jtext) list \<Rightarrow> prop_doc \<Rightarrow> prop_line \<Rightarrow> bool" where
  "stays rec d l \<longleftrightarrow> (case entry_key l of None \<Rightarrow> True | Some k \<Rightarrow> map_of rec k \<noteq> None \<and> map_of rec k = prop_get d k)"

lemma subseq_rev: "subseq xs ys \<Longrightarrow> subseq (rev xs) (rev ys)"
  by (induction rule: list_emb.induct) (auto simp: list_emb_append_mono)

lemma change_first_keeps:
  assumes "\<And>l. P l \<Longrightarrow> entry_key l \<noteq> Some k"
  shows "filter P (change_first k v ls) = filter P ls \<or> subseq (filter P ls) (filter P (change_first k v ls))"
  by (induction ls) (auto dest: assms)

lemma prop_set_same: "prop_get d k = Some v \<Longrightarrow> prop_set k v d = d"
proof -
  assume "prop_get d k = Some v"
  then obtain l where l: "last_entry d k = Some l" "pl_value l = v" by (auto simp: prop_get_def)
  have "List.find (\<lambda>l. entry_key l = Some k) ls = Some l \<Longrightarrow> change_first k v ls = ls" for ls
    using l(2) by (induction ls) (auto split: if_splits)
  with l show ?thesis by (simp add: prop_set_def last_entry_def)
qed

lemma prop_set_keeps:
  assumes "\<And>l. P l \<Longrightarrow> entry_key l \<noteq> Some k"
  shows "subseq (filter P (pd_lines d)) (filter P (pd_lines (prop_set k v d)))"
proof -
  have "subseq (filter P ls) (filter P (rev (change_first k v (rev ls))))" for ls
    using change_first_keeps [OF assms, where ls = "rev ls" and v = v, THEN disjE] subseq_rev
    by (metis rev_filter rev_rev_ident subseq_order.refl)
  then show ?thesis by (auto simp: prop_set_def)
qed

lemma put_all_keeps:
  assumes "distinct (map fst rec)"
    and "\<forall>(k, v) \<in> set rec. prop_get d k = Some v \<or> (\<forall>l. P l \<longrightarrow> entry_key l \<noteq> Some k)"
  shows "subseq (filter P (pd_lines d)) (filter P (pd_lines (put_all rec d)))"
  using assms
proof (induction rec arbitrary: d)
  case (Cons p rec)
  obtain k v where p: "p = (k, v)" by (cases p)
  let ?d = "prop_set k v d"
  have "subseq (filter P (pd_lines d)) (filter P (pd_lines ?d))"
  proof (cases "prop_get d k = Some v")
    case True
    then show ?thesis by (simp add: prop_set_same)
  next
    case False
    then have "entry_key l \<noteq> Some k" if "P l" for l using Cons.prems(2) p that by simp
    then show ?thesis by (rule prop_set_keeps)
  qed
  also have "subseq (filter P (pd_lines ?d)) (filter P (pd_lines (put_all rec ?d)))"
  proof (rule Cons.IH)
    show "distinct (map fst rec)" using Cons.prems(1) by simp
    show "\<forall>(j, w) \<in> set rec. prop_get ?d j = Some w \<or> (\<forall>l. P l \<longrightarrow> entry_key l \<noteq> Some j)"
    proof -
      have "prop_get ?d j = Some w \<or> (\<forall>l. P l \<longrightarrow> entry_key l \<noteq> Some j)" if jw: "(j, w) \<in> set rec" for j w
      proof -
        have "j \<noteq> k" using Cons.prems(1) p jw by force
        moreover have "prop_get d j = Some w \<or> (\<forall>l. P l \<longrightarrow> entry_key l \<noteq> Some j)"
          using Cons.prems(2) jw by auto
        ultimately show ?thesis by (simp add: prop_get_set)
      qed
      then show ?thesis by auto
    qed
  qed
  also have "put_all rec ?d = put_all (p # rec) d" by (simp add: put_all_def p)
  finally show ?case .
qed (simp add: put_all_def)

lemma drop_absent_lines:
  "pd_lines (drop_absent rec ks d) =
     filter (\<lambda>l. \<not> (\<exists>k \<in> set ks. entry_key l = Some k \<and> map_of rec k = None)) (pd_lines d)"
  by (induction ks arbitrary: d) (auto simp: drop_absent_def prop_delete_def intro: filter_cong)

lemma assign_keeps:
  assumes "distinct (map fst rec)"
  shows "subseq (filter (stays rec d) (pd_lines d)) (pd_lines (prop_assign rec d))"
proof -
  let ?d = "drop_absent rec (prop_keys d) d"
  have "filter (stays rec d) (pd_lines ?d) = filter (stays rec d) (pd_lines d)"
    unfolding drop_absent_lines filter_filter by (rule filter_cong) (auto simp: stays_def, metis)
  moreover have "subseq (filter (stays rec d) (pd_lines ?d)) (filter (stays rec d) (pd_lines (put_all rec ?d)))"
  proof (rule put_all_keeps [OF assms])
    show "\<forall>(k, v) \<in> set rec. prop_get ?d k = Some v \<or> (\<forall>l. stays rec d l \<longrightarrow> entry_key l \<noteq> Some k)"
      using assms by (auto simp: drop_absent_get stays_def)
  qed
  ultimately have "subseq (filter (stays rec d) (pd_lines d)) (filter (stays rec d) (pd_lines (prop_assign rec d)))"
    by (simp add: prop_assign_parts)
  also have "subseq (filter (stays rec d) (pd_lines (prop_assign rec d))) (pd_lines (prop_assign rec d))"
    by (rule subseq_filter_left)
  finally show ?thesis .
qed

section \<open>Good documents\<close>

lemma split_any_parts: "p \<in> set (split_any t) \<Longrightarrow> clean p"
proof (induction t arbitrary: p rule: split_any.induct)
  case (2 c cs)
  show ?case
  proof (cases "c = cLF \<or> c = cCR")
    case nl: True
    consider "p = []" | "p \<in> set (split_any cs)" | d ds where "cs = d # ds" "d = cLF" "c = cCR" "p \<in> set (split_any ds)"
    proof (cases "c = cLF")
      case True
      then show ?thesis using "2.prems" that by auto
    next
      case False
      then show ?thesis using "2.prems" nl that by (cases cs) (auto split: if_splits)
    qed
    then show ?thesis
    proof cases
      case 1
      then show ?thesis by (simp add: clean_def)
    next
      case 2
      then show ?thesis using "2.IH" nl by (cases cs) (auto simp: clean_def split: if_splits)
    next
      case 3
      then show ?thesis using "2.IH"(3) [of d ds] by simp
    qed
  next
    case False
    then have "clean q" if "q \<in> set (split_any cs)" for q using "2.IH" that by auto
    then show ?thesis using False "2.prems" by (cases "split_any cs") (auto simp: clean_def)
  qed
qed (simp add: clean_def)

text \<open>A text whose last line does not end with a backslash.\<close>

definition last_line_open :: "jtext \<Rightarrow> bool" where
  "last_line_open t \<longleftrightarrow>
     (let ps = filter (\<lambda>p. p \<noteq> []) (split_any t) in ps \<noteq> [] \<and> last (last ps) = cBS)"

definition open_end :: "jtext list \<Rightarrow> bool" where
  "open_end ps \<longleftrightarrow> ps \<noteq> [] \<and> last ps \<noteq> [] \<and> last (last ps) = cBS"

lemma last_dropWhile: "dropWhile P xs \<noteq> [] \<Longrightarrow> last (dropWhile P xs) = last xs"
  by (induction xs) auto

lemma continuation_last: "ends_with_continuation l \<Longrightarrow> l \<noteq> [] \<and> last l = cBS"
  by (cases l rule: rev_cases) auto

lemma gather_closed:
  assumes "gather l ps = (parts, l2, [])" and "\<not> open_end ps" and "ps = [] \<Longrightarrow> \<not> ends_with_continuation l"
  shows "\<not> ends_with_continuation l2"
  using assms
proof (induction l ps arbitrary: parts rule: gather.induct)
  case (2 logical p ps)
  show ?case
  proof (cases "ends_with_continuation logical")
    case True
    let ?l = "butlast logical @ dropWhile prop_space p"
    have closed: "\<not> ends_with_continuation ?l" if "ps = []"
    proof (cases "dropWhile prop_space p = []")
      case True
      then have "?l = butlast logical" by (simp only: append_Nil2)
      then show ?thesis using butlast_closed [OF \<open>ends_with_continuation logical\<close>] by (simp only: not_False_eq_True)
    next
      case False
      then have "last ?l = last p" by (simp add: last_dropWhile)
      moreover have "last p \<noteq> cBS" using 2(3) that False by (auto simp: open_end_def)
      ultimately show ?thesis using continuation_last [of ?l] by auto
    qed
    have "\<not> open_end ps" using 2(3) by (auto simp: open_end_def)
    moreover obtain q where "gather ?l ps = (q, l2, [])" using 2(2) True by (auto split: prod.splits)
    ultimately show ?thesis using 2(1) True closed by blast
  qed (use 2(2) in auto)
qed auto

lemma parse_lines_ok:
  assumes "\<forall>p \<in> set ps. clean p" and "\<not> open_end ps"
  shows "\<forall>l \<in> set (parse_lines eol ps). line_ok eol l"
  using assms
proof (induction "length ps" arbitrary: ps rule: less_induct)
  case less
  show ?case
  proof (cases ps)
    case (Cons p qs)
    have oq: "\<not> open_end qs" using less.prems(2) Cons by (auto simp: open_end_def)
    show ?thesis
    proof (cases "is_comment_or_blank (js_trim_start p)")
      case True
      then show ?thesis using less.hyps [of qs] less.prems(1) oq Cons by (simp add: parse_lines_Cons line_ok_def)
    next
      case False
      obtain parts l rest where g: "gather (js_trim_start p) qs = (parts, l, rest)" by (metis prod_cases3)
      have qs: "qs = parts @ rest" using gather_split [OF g] .
      have "\<not> open_end rest" using oq qs by (auto simp: open_end_def)
      moreover have "length rest < length ps" using gather_length [OF g] Cons by simp
      ultimately have IH: "\<forall>l \<in> set (parse_lines eol rest). line_ok eol l"
        using less.hyps [of rest] less.prems(1) Cons qs by simp
      have closed: "\<not> ends_with_continuation l"
      proof (cases "rest = []")
        case True
        have "\<not> ends_with_continuation (js_trim_start p)" if "qs = []"
        proof
          assume "ends_with_continuation (js_trim_start p)"
          then have "p \<noteq> [] \<and> last p = cBS"
            using continuation_last [of "js_trim_start p"] last_dropWhile [of js_space p] by (auto simp: js_trim_start_def)
          then show False using less.prems(2) Cons that by (simp add: open_end_def)
        qed
        then show ?thesis using gather_closed [of "js_trim_start p" qs parts l] g True oq by blast
      qed (use gather_open [OF g] in blast)
      have "reads_as (p # parts) (fst (parse_entry l)) (snd (parse_entry l))"
        unfolding reads_as_def using gather_prefix [OF g] closed False less.prems(1) Cons qs by simp
      then show ?thesis using IH False g closed Cons
        by (auto simp: parse_lines_Cons closed_logical_def line_ok_def)
    qed
  qed simp
qed

lemma parse_doc_ok:
  assumes "\<not> last_line_open t"
  shows "doc_ok (parse_doc t)"
proof -
  let ?ps = "split_any t"
  have open_iff: "\<not> open_end ps" if "filter (\<lambda>p. p \<noteq> []) ps = filter (\<lambda>p. p \<noteq> []) ?ps" for ps
  proof (cases "ps \<noteq> [] \<and> last ps \<noteq> []")
    case True
    then have "filter (\<lambda>p. p \<noteq> []) ps \<noteq> [] \<and> last (filter (\<lambda>p. p \<noteq> []) ps) = last ps"
      by (cases ps rule: rev_cases) auto
    then show ?thesis using assms that by (auto simp: last_line_open_def open_end_def Let_def)
  qed (auto simp: open_end_def)
  define qs where "qs = (if t = [] \<or> last ?ps = [] then butlast ?ps else ?ps)"
  have "filter (\<lambda>p. p \<noteq> []) qs = filter (\<lambda>p. p \<noteq> []) ?ps"
  proof (cases "last ?ps = []")
    case True
    define xs where "xs = butlast ?ps"
    have "?ps = xs @ [[]]" using append_butlast_last_id [OF split_any_not_Nil, of t] True by (simp add: xs_def)
    moreover have "qs = xs" using True by (simp add: qs_def xs_def)
    ultimately show ?thesis by simp
  next
    case False
    then have "t \<noteq> []" by auto
    with False show ?thesis by (simp add: qs_def)
  qed
  then have "\<not> open_end qs" by (rule open_iff)
  moreover have "\<forall>p \<in> set qs. clean p"
    unfolding qs_def by (auto intro: split_any_parts dest: in_set_butlastD)
  ultimately have "\<forall>l \<in> set (parse_lines eol qs). line_ok eol l" for eol by (rule parse_lines_ok [rotated])
  then show ?thesis unfolding doc_ok_def parse_doc_def Let_def qs_def [symmetric] by simp
qed

datatype prop_edit = PSet jtext jtext | PDelete jtext | PAssign "(jtext \<times> jtext) list"

fun apply_edit :: "prop_doc \<Rightarrow> prop_edit \<Rightarrow> prop_doc" where
  "apply_edit d (PSet k v) = prop_set k v d"
| "apply_edit d (PDelete k) = snd (prop_delete k d)"
| "apply_edit d (PAssign rec) = prop_assign rec d"

fun edit_keys :: "prop_edit \<Rightarrow> jtext list" where
  "edit_keys (PSet k v) = [k]"
| "edit_keys (PDelete k) = []"
| "edit_keys (PAssign rec) = map fst rec"

lemma doc_ok_set: "doc_ok d \<Longrightarrow> key_ok k \<Longrightarrow> doc_ok (prop_set k v d)"
proof -
  assume d: "doc_ok d" and k: "key_ok k"
  have "l \<in> set (change_first k v ls) \<Longrightarrow> l \<in> set ls \<or> l = EntryLine k v None" for l ls
    by (induction ls) (auto split: if_splits)
  then have "line_ok (pd_eol d) l" if "l \<in> set (change_first k v (rev (pd_lines d)))" for l
    using d k that by (fastforce simp: doc_ok_def line_ok_def)
  moreover have "line_ok e (EntryLine k v None)" for e using k by (simp add: line_ok_def)
  ultimately show "doc_ok (prop_set k v d)" using d by (auto simp: prop_set_def doc_ok_def)
qed

lemma doc_ok_delete: "doc_ok d \<Longrightarrow> doc_ok (snd (prop_delete k d))"
  by (auto simp: prop_delete_def doc_ok_def)

lemma doc_ok_assign: "doc_ok d \<Longrightarrow> \<forall>k \<in> set (map fst rec). key_ok k \<Longrightarrow> doc_ok (prop_assign rec d)"
proof -
  assume d: "doc_ok d" and k: "\<forall>k \<in> set (map fst rec). key_ok k"
  have "doc_ok (drop_absent rec ks d)" for ks
    using d by (induction ks arbitrary: d) (auto simp: drop_absent_def doc_ok_delete)
  moreover have "doc_ok d \<Longrightarrow> \<forall>k \<in> set (map fst r). key_ok k \<Longrightarrow> doc_ok (put_all r d)" for r d
    by (induction r arbitrary: d) (auto simp: put_all_def doc_ok_set)
  ultimately show ?thesis using k by (simp add: prop_assign_parts)
qed

text \<open>Edits with unreadable keys are left out, so that every sequence of edits is a run.\<close>

interpretation docm: machine "\<lambda>d e. if list_all key_ok (edit_keys e) then apply_edit d e else d" doc_ok
proof
  fix d e assume "doc_ok d"
  then show "doc_ok (if list_all key_ok (edit_keys e) then apply_edit d e else d)"
    by (cases e) (auto simp: list_all_iff doc_ok_set doc_ok_delete doc_ok_assign)
qed

section \<open>Properties\<close>

text \<open>
  A file that was read and not changed is written back as it was, unit for unit, with its
  comments, blank lines, spelling, line ends and final line end, as long as it uses one kind
  of line end.
\<close>

theorem properties_untouched:
  assumes "eol \<in> eols" and "\<forall>p \<in> set ps. clean p"
  shows "doc_text (parse_doc (join eol ps)) = join eol ps"
proof (cases "2 \<le> length ps")
  case True
  then have ne: "ps \<noteq> []" by auto
  have sp: "split_any (join eol ps) = ps" using split_any_join [OF assms(1) ne assms(2)] .
  have jn: "join eol ps \<noteq> []" using sp True by (cases "join eol ps = []") auto
  have eol: "(if has_crlf (join eol ps) then [cCR, cLF] else [cLF]) = eol"
    using eol_of_text [OF assms True] .
  have d: "parse_doc (join eol ps) =
      \<lparr>pd_lines = parse_lines eol (if last ps = [] then butlast ps else ps), pd_eol = eol, pd_trailing = (last ps = [])\<rparr>"
    unfolding parse_doc_def Let_def sp eol using jn by simp
  show ?thesis
  proof (cases "last ps = []")
    case last: True
    then have "join eol ps = join eol (butlast ps @ [[]])" using append_butlast_last_id [OF ne] by simp
    moreover have "butlast ps \<noteq> []" using True by (cases ps rule: rev_cases) auto
    ultimately show ?thesis using d last by (simp add: doc_text_def parse_lines_text join_app)
  qed (use d in \<open>simp add: doc_text_def parse_lines_text\<close>)
next
  case False
  then have "ps = [] \<or> (\<exists>p. ps = [p])" by (cases ps) (auto simp: Suc_le_eq)
  then consider "join eol ps = []" | p where "ps = [p]" "p \<noteq> []" by fastforce
  then show ?thesis
  proof cases
    case 1
    then show ?thesis by (simp add: parse_doc_def doc_text_def Let_def)
  next
    case 2
    then show ?thesis using assms(2) parse_lines_text [of "[cLF]" ps]
      by (simp add: parse_doc_def doc_text_def Let_def split_any_clean has_crlf_clean)
  qed
qed

theorem properties_untouched_witness:
  "let t = lit ''#Minecraft'' @ [cCR, cLF] @ lit ''motd = a:b'' @ [cCR, cLF]
   in doc_text (parse_doc t) = t \<and> prop_get (parse_doc t) (lit ''motd'') = Some (lit ''a:b'')"
proof -
  let ?t = "lit ''#Minecraft'' @ [cCR, cLF] @ lit ''motd = a:b'' @ [cCR, cLF]"
  have "\<forall>p \<in> set [lit ''#Minecraft'', lit ''motd = a:b'', []]. clean p" by (simp add: clean_def lit_def)
  from properties_untouched [OF _ this, of "[cCR, cLF]"] have "doc_text (parse_doc ?t) = ?t" by simp
  moreover have "prop_get (parse_doc ?t) (lit ''motd'') = Some (lit ''a:b'')" by code_simp
  ultimately show ?thesis by (simp only: Let_def)
qed

text \<open>
  Whatever sequence of edits is made to a file, what is written is read back with the
  same values: every key and value survives escaping, comments and continued lines in between
  included (unless the last line of the file ends with a backslash, and as long as new keys do
  not start with white space beyond blank, tab, form feed and line ends).
\<close>

theorem edits_read_back:
  assumes "\<not> last_line_open t"
    and "d = run (\<lambda>d e. if list_all key_ok (edit_keys e) then apply_edit d e else d) (parse_doc t) es"
  shows "to_record (parse_doc (doc_text d)) = to_record d"
proof -
  have "doc_ok d" unfolding assms(2) by (rule docm.run_inv) (rule parse_doc_ok [OF assms(1)])
  then show ?thesis by (simp add: to_record_kvs kvs_reparse)
qed

theorem edits_read_back_witness:
  "let t = lit ''a=1'' @ [cLF] @ lit ''#x'' @ [cLF];
       d = prop_set (lit '' k'') (lit '' v'' @ [cBS, cLF]) (snd (prop_delete (lit ''a'') (parse_doc t)))
   in to_record (parse_doc (doc_text d)) = [(lit '' k'', lit '' v'' @ [cBS, cLF])]"
proof -
  let ?t = "lit ''a=1'' @ [cLF] @ lit ''#x'' @ [cLF]"
  let ?d = "prop_set (lit '' k'') (lit '' v'' @ [cBS, cLF]) (snd (prop_delete (lit ''a'') (parse_doc ?t)))"
  have t: "\<not> last_line_open ?t" by code_simp
  have "key_ok (lit '' k'')" by code_simp
  then have "?d = run (\<lambda>d e. if list_all key_ok (edit_keys e) then apply_edit d e else d) (parse_doc ?t)
      [PDelete (lit ''a''), PSet (lit '' k'') (lit '' v'' @ [cBS, cLF])]"
    by simp
  from edits_read_back [OF t this] have "to_record (parse_doc (doc_text ?d)) = to_record ?d" .
  moreover have "to_record ?d = [(lit '' k'', lit '' v'' @ [cBS, cLF])]" by code_simp
  ultimately show ?thesis by (simp only: Let_def)
qed



text \<open>
  The flaw of a file that ends in a continued line: a key that is set then is appended
  behind the backslash, so it becomes part of the last value and is gone when the file is
  read again.
\<close>

theorem open_line_swallows_new_key:
  assumes "k \<noteq> lit ''a''"
  shows "let d = prop_set k v (parse_doc (lit ''a=b'' @ [cBS]))
   in prop_get d k = Some v \<and> prop_get (parse_doc (doc_text d)) k = None"
proof -
  let ?t = "lit ''a=b'' @ [cBS]" and ?w = "escape_key k @ [cEQ] @ escape_value v"
  have p: "parse_doc ?t = \<lparr>pd_lines = [EntryLine (lit ''a'') (lit ''b'') (Some ?t)], pd_eol = [cLF], pd_trailing = False\<rparr>"
    by code_simp
  have "clean ?t" by (simp add: clean_def lit_def)
  then have sp: "split_any (?t @ [cLF] @ ?w) = [?t, ?w]"
    using split_any_line [of ?t "[cLF]" ?w] split_any_clean [OF written_clean] by (simp del: append_assoc)
  have d: "doc_text (prop_set k v (parse_doc ?t)) = ?t @ [cLF] @ ?w"
    using assms unfolding p by (simp add: prop_set_def last_entry_def entry_key_def doc_text_def Let_def)
  have w: "?w \<noteq> []" by simp
  have open_t: "js_trim_start ?t = ?t" "\<not> is_comment_or_blank ?t" "ends_with_continuation ?t" by code_simp+
  have g: "gather ?t [?w] = ([?w], lit ''a=b'' @ dropWhile prop_space ?w, [])"
    using open_t(3) by (simp add: lit_def)
  have "\<exists>x. closed_logical (lit ''a=b'' @ y) = lit ''a=b'' @ x" for y
  proof (cases "ends_with_continuation (lit ''a=b'' @ y)")
    case True
    moreover have "\<not> ends_with_continuation (lit ''a=b'')" by code_simp
    ultimately have "y \<noteq> []" by (metis append_Nil2)
    with True show ?thesis by (auto simp: closed_logical_def butlast_append)
  qed (auto simp: closed_logical_def)
  then obtain x where x: "closed_logical (lit ''a=b'' @ dropWhile prop_space ?w) = lit ''a=b'' @ x" by blast
  have "key_end (lit ''a=b'' @ x) = 1" by (simp add: lit_def prop_space_def)
  then have "fst (parse_entry (lit ''a=b'' @ x)) = lit ''a''"
    by (simp add: parse_entry_def Let_def lit_def unescape_def)
  then obtain v2 where e: "parse_entry (lit ''a=b'' @ x) = (lit ''a'', v2)" by (metis prod.collapse)
  have "\<exists>r. pd_lines (parse_doc (?t @ [cLF] @ ?w)) = [EntryLine (lit ''a'') v2 r]"
    unfolding parse_doc_def Let_def sp using w open_t g x e by (simp add: parse_lines_Cons)
  then have "prop_get (parse_doc (?t @ [cLF] @ ?w)) k = None"
    using assms by (auto simp: prop_get_kv kv_get_def)
  then show ?thesis using d by (simp add: Let_def prop_get_set)
qed

theorem open_line_swallows_new_key_witness:
  "let d = prop_set (lit ''motd'') (lit ''x'') (parse_doc (lit ''a=b'' @ [cBS]))
   in doc_text d = lit ''a=b'' @ [cBS, cLF] @ lit ''motd=x'' \<and>
      prop_get (parse_doc (doc_text d)) (lit ''motd'') = None"
proof -
  have "lit ''motd'' \<noteq> lit ''a''" by (simp add: lit_def)
  note open_line_swallows_new_key [OF this, of "lit ''x''"]
  moreover have "doc_text (prop_set (lit ''motd'') (lit ''x'') (parse_doc (lit ''a=b'' @ [cBS]))) =
      lit ''a=b'' @ [cBS, cLF] @ lit ''motd=x''" by code_simp
  ultimately show ?thesis by (simp only: Let_def)
qed

end
