(* ===== verification/Instances.thy ===== *)
theory Instances
  imports Backups
begin

text \<open>
  One server instance and its processes (\<open>instances/instance.ts\<close>, \<open>pending-stop.ts\<close>,
  \<open>crash-restart.ts\<close>, \<open>status-detector.ts\<close>).

  A method runs up to its next \<open>await\<close> at once; what happens when the awaited thing is there
  is an operation of its own.  Between them anything else may happen, which is what makes the
  instance hard: a launch that prepares its command, a stop that waits for the process, a crash
  restart that waits for its pause.  Runtimes (a native process or a container) are numbered.
  Left out are the process id, time stamps, the memory limit and the console buffer.
\<close>

section \<open>Crash restarts\<close>

record restart_setting =
  rs_on :: bool
  rs_attempts :: nat

datatype crash_verdict = VRestart | VExhausted | VOff

text \<open>\<open>setting.attempts || 3\<close>.\<close>

definition max_attempts :: "restart_setting \<Rightarrow> nat" where
  "max_attempts s = (if rs_attempts s = 0 then 3 else rs_attempts s)"

definition on_crash :: "nat \<Rightarrow> restart_setting option \<Rightarrow> bool \<Rightarrow> crash_verdict \<times> nat" where
  "on_crash attempts setting suppressed =
     (case setting of
        None \<Rightarrow> (VOff, attempts)
      | Some s \<Rightarrow>
          (if \<not> rs_on s \<or> suppressed then (VOff, attempts)
           else if attempts \<ge> max_attempts s then (VExhausted, attempts)
           else (VRestart, attempts + 1)))"

section \<open>Statuses\<close>

datatype server_status = SStopped | SRunning | SStarting | SStopping | SCrashed

text \<open>The patterns are predicates on trimmed lines.\<close>

record detection =
  dt_starting :: "(string \<Rightarrow> bool) list"
  dt_running :: "(string \<Rightarrow> bool) list"
  dt_stopping :: "(string \<Rightarrow> bool) list"

definition detect :: "detection \<Rightarrow> string \<Rightarrow> server_status option" where
  "detect d line =
     (let t = trim line in
      if t = [] then None
      else if \<exists>re \<in> set (dt_starting d). re t then Some SStarting
      else if \<exists>re \<in> set (dt_running d). re t then Some SRunning
      else if \<exists>re \<in> set (dt_stopping d). re t then Some SStopping
      else None)"

fun last_status_match :: "string list \<Rightarrow> (server_status \<times> (string \<Rightarrow> bool) list) list \<Rightarrow> server_status option" where
  "last_status_match [] patterns = None"
| "last_status_match (l # ls) patterns =
     (case last_status_match ls patterns of
        Some s \<Rightarrow> Some s
      | None \<Rightarrow> map_option fst (List.find (\<lambda>(s, res). \<exists>re \<in> set res. re l) patterns))"

definition detect_last :: "detection \<Rightarrow> string list \<Rightarrow> server_status option" where
  "detect_last d ls =
     last_status_match ls [(SStarting, dt_starting d), (SRunning, dt_running d), (SStopping, dt_stopping d)]"

section \<open>The state\<close>

datatype launch_origin = Manual | AfterCrash

text \<open>A launch waits for its command (\<open>Preparing\<close>) or for its runtime to start.\<close>

datatype launch_phase = Preparing | StartingRuntime nat

record launch =
  la_id :: nat
  la_origin :: launch_origin
  la_phase :: launch_phase

datatype stop_phase = Grace | Escalated

datatype stop_waiter = WaitStop | WaitRestart

datatype inst_log =
    LogStatus server_status
  | LogCrashed int
  | LogKilled int
  | LogRestartFailed nat
  | LogRestartError

record inst =
  in_status :: "server_status option"
  in_setting :: "restart_setting option"
  in_current :: "nat option"
  in_alive :: "nat list"
  in_next :: nat
  in_attempts :: nat
  in_shutting :: bool
  in_exit_requested :: bool
  in_disposed :: bool
  in_stop :: "stop_phase option"
  in_waiters :: "stop_waiter list"
  in_answers :: "bool list"
  in_launches :: "launch list"
  in_adopting :: "nat list"
  in_crash_timers :: nat
  in_restart_timers :: nat
  in_log :: "inst_log list"

text \<open>
  The status is that of the row of the server, \<open>None\<close> when the row is gone.  \<open>in_current\<close> is
  \<open>serverRuntime\<close>; \<open>in_alive\<close> are the runtimes whose process lives.  \<open>in_answers\<close> are the
  answers given to calls of \<open>stop\<close>.
\<close>

definition is_running :: "inst \<Rightarrow> bool" where
  "is_running w = (case in_current w of None \<Rightarrow> False | Some r \<Rightarrow> r \<in> set (in_alive w))"

definition update_status :: "server_status \<Rightarrow> inst \<Rightarrow> inst" where
  "update_status s w =
     (let w1 = (if s = SRunning then w\<lparr>in_attempts := 0\<rparr> else w) in
      case in_status w1 of
        None \<Rightarrow> w1
      | Some old \<Rightarrow> if old = s then w1 else w1\<lparr>in_status := Some s, in_log := in_log w1 @ [LogStatus s]\<rparr>)"

section \<open>Stopping\<close>

text \<open>Everybody who waits for the stop is answered; a restart then waits for its pause.\<close>

definition stop_finish :: "bool \<Rightarrow> inst \<Rightarrow> inst" where
  "stop_finish ok w =
     (case in_stop w of
        None \<Rightarrow> w
      | Some _ \<Rightarrow> w\<lparr>in_stop := None, in_waiters := [],
          in_answers := in_answers w @ map (\<lambda>_. ok) (filter (\<lambda>x. x = WaitStop) (in_waiters w)),
          in_restart_timers := in_restart_timers w + length (filter (\<lambda>x. x = WaitRestart) (in_waiters w))\<rparr>)"

definition inst_stop :: "stop_waiter \<Rightarrow> inst \<Rightarrow> inst" where
  "inst_stop who w =
     (if \<not> is_running w then (if who = WaitStop then w\<lparr>in_answers := in_answers w @ [False]\<rparr> else w)
      else if in_stop w \<noteq> None then w\<lparr>in_waiters := in_waiters w @ [who]\<rparr>
      else (update_status SStopping (w\<lparr>in_exit_requested := True\<rparr>))
             \<lparr>in_stop := Some Grace, in_waiters := in_waiters w @ [who]\<rparr>)"

text \<open>The timer of a pending stop: first the kill, then giving up.  The kill shows as an exit.\<close>

definition stop_timer :: "inst \<Rightarrow> inst" where
  "stop_timer w =
     (case in_stop w of
        None \<Rightarrow> w
      | Some Grace \<Rightarrow> w\<lparr>in_stop := Some Escalated\<rparr>
      | Some Escalated \<Rightarrow> stop_finish False w)"

definition inst_kill :: "inst \<Rightarrow> inst" where
  "inst_kill w = (if is_running w then w\<lparr>in_exit_requested := True\<rparr> else w)"

definition inst_restart :: "inst \<Rightarrow> inst" where
  "inst_restart w = (if is_running w then inst_stop WaitRestart w else w)"

definition stop_for_shutdown :: "inst \<Rightarrow> inst" where
  "stop_for_shutdown w = inst_stop WaitStop (w\<lparr>in_shutting := True\<rparr>)"

definition inst_dispose :: "inst \<Rightarrow> inst" where
  "inst_dispose w = w\<lparr>in_disposed := True\<rparr>"

section \<open>Launching\<close>

definition launch_begin :: "launch_origin \<Rightarrow> lock_kind option \<Rightarrow> inst \<Rightarrow> bool result \<times> inst" where
  "launch_begin origin holder w =
     (if is_running w then (Inr False, w)
      else if holder = Some LockRestore
        then (fail_code Conflict ''SERVER_BUSY'' ''A backup is being restored, start the server when it is done'', w)
      else let w1 = update_status SStarting (w\<lparr>in_exit_requested := False\<rparr>) in
           (Inr True, w1\<lparr>in_next := in_next w1 + 1,
              in_launches := in_launches w1 @ [\<lparr>la_id = in_next w1, la_origin = origin, la_phase = Preparing\<rparr>]\<rparr>))"

definition inst_start :: "lock_kind option \<Rightarrow> inst \<Rightarrow> bool result \<times> inst" where
  "inst_start holder w =
     (if is_running w then (Inr False, w) else launch_begin Manual holder (w\<lparr>in_attempts := 0\<rparr>))"

text \<open>The command is there: a new runtime becomes the current one and is started.\<close>

definition launch_ready :: "nat \<Rightarrow> inst \<Rightarrow> inst" where
  "launch_ready i w =
     (case List.find (\<lambda>l. la_id l = i \<and> la_phase l = Preparing) (in_launches w) of
        None \<Rightarrow> w
      | Some l \<Rightarrow> w\<lparr>in_current := Some (in_next w), in_next := in_next w + 1,
          in_launches := map (\<lambda>x. if la_id x = i then x\<lparr>la_phase := StartingRuntime (in_next w)\<rparr> else x)
            (in_launches w)\<rparr>)"

definition launch_started :: "nat \<Rightarrow> inst \<Rightarrow> inst" where
  "launch_started i w =
     (case List.find (\<lambda>l. la_id l = i) (in_launches w) of
        Some l \<Rightarrow>
          (case la_phase l of
             StartingRuntime r \<Rightarrow>
               w\<lparr>in_alive := r # in_alive w, in_launches := filter (\<lambda>x. la_id x \<noteq> i) (in_launches w)\<rparr>
           | Preparing \<Rightarrow> w)
      | None \<Rightarrow> w)"

text \<open>What the crash restart does when its launch throws.\<close>

definition crash_launch_failed :: "inst \<Rightarrow> inst" where
  "crash_launch_failed w =
     (let w1 = (if is_running w then w else update_status SCrashed w)
      in w1\<lparr>in_log := in_log w1 @ [LogRestartFailed (in_attempts w1), LogRestartError]\<rparr>)"

text \<open>A launch that throws: the crash restart catches it, a start passes it on to its caller.\<close>

definition launch_failed :: "nat \<Rightarrow> inst \<Rightarrow> inst" where
  "launch_failed i w =
     (case List.find (\<lambda>l. la_id l = i) (in_launches w) of
        None \<Rightarrow> w
      | Some l \<Rightarrow>
          (let w1 = w\<lparr>in_launches := filter (\<lambda>x. la_id x \<noteq> i) (in_launches w)\<rparr> in
           case la_origin l of Manual \<Rightarrow> w1 | AfterCrash \<Rightarrow> crash_launch_failed w1))"

definition crash_relaunch :: "lock_kind option \<Rightarrow> inst \<Rightarrow> inst" where
  "crash_relaunch holder w =
     (case launch_begin AfterCrash holder w of
        (Inr _, w1) \<Rightarrow> w1
      | (Inl _, w1) \<Rightarrow> crash_launch_failed w1)"

definition crash_timer :: "lock_kind option \<Rightarrow> inst \<Rightarrow> inst" where
  "crash_timer holder w =
     (if in_crash_timers w = 0 then w
      else let w1 = w\<lparr>in_crash_timers := in_crash_timers w - 1\<rparr> in
           if in_disposed w1 \<or> in_shutting w1 \<or> is_running w1 then w1
           else if in_status w1 \<noteq> Some SCrashed then w1
           else crash_relaunch holder w1)"

definition restart_timer :: "lock_kind option \<Rightarrow> inst \<Rightarrow> inst" where
  "restart_timer holder w =
     (if in_restart_timers w = 0 then w
      else snd (inst_start holder (w\<lparr>in_restart_timers := in_restart_timers w - 1\<rparr>)))"

section \<open>The end of a process\<close>

definition exit_crashed :: "int option \<Rightarrow> bool" where
  "exit_crashed code = (case code of None \<Rightarrow> False | Some c \<Rightarrow> c > 1 \<and> c \<noteq> 127)"

text \<open>A status in the last unfinished line (\<open>flushed\<close>) is seen before the process counts as down.\<close>

definition close_status :: "int option \<Rightarrow> server_status option \<Rightarrow> inst \<Rightarrow> inst" where
  "close_status code flushed w =
     update_status (if exit_crashed code then SCrashed else SStopped)
       (case flushed of None \<Rightarrow> w | Some s \<Rightarrow> update_status s w)"

definition close_crashed :: "int \<Rightarrow> inst \<Rightarrow> inst" where
  "close_crashed code w =
     (let w1 = w\<lparr>in_log := in_log w @ [LogCrashed code]\<rparr> in
      case on_crash (in_attempts w) (in_setting w) (in_shutting w \<or> in_exit_requested w) of
        (VExhausted, n) \<Rightarrow> w1\<lparr>in_attempts := n, in_log := in_log w1 @ [LogRestartFailed n]\<rparr>
      | (VRestart, n) \<Rightarrow> w1\<lparr>in_attempts := n, in_crash_timers := in_crash_timers w1 + 1\<rparr>
      | (VOff, n) \<Rightarrow> w1\<lparr>in_attempts := n\<rparr>)"

definition on_close :: "int option \<Rightarrow> server_status option \<Rightarrow> inst \<Rightarrow> inst" where
  "on_close code flushed w =
     (let w1 = close_status code flushed w;
          w2 = (if exit_crashed code then close_crashed (the code) w1
                else if code = Some 1 \<or> code = Some 127 then w1\<lparr>in_log := in_log w1 @ [LogKilled (the code)]\<rparr>
                else w1)
      in stop_finish True w2)"

definition process_exit :: "nat \<Rightarrow> int option \<Rightarrow> server_status option \<Rightarrow> inst \<Rightarrow> inst" where
  "process_exit r code flushed w =
     (if r \<notin> set (in_alive w) then w
      else on_close code flushed (w\<lparr>in_alive := removeAll r (in_alive w)\<rparr>))"

definition on_line :: "detection \<Rightarrow> string \<Rightarrow> inst \<Rightarrow> inst" where
  "on_line d line w = (case detect d line of None \<Rightarrow> w | Some s \<Rightarrow> update_status s w)"

section \<open>Adopting a container\<close>

definition adopt_begin :: "inst \<Rightarrow> bool \<times> inst" where
  "adopt_begin w =
     (if is_running w then (False, w)
      else (True, w\<lparr>in_exit_requested := False, in_current := Some (in_next w), in_next := in_next w + 1,
                    in_adopting := in_next w # in_adopting w\<rparr>))"

definition adopt_done :: "detection \<Rightarrow> nat \<Rightarrow> string list \<Rightarrow> inst \<Rightarrow> inst" where
  "adopt_done d r history w =
     (if r \<notin> set (in_adopting w) then w
      else update_status (case detect_last d history of None \<Rightarrow> SRunning | Some s \<Rightarrow> s)
             (w\<lparr>in_adopting := removeAll r (in_adopting w), in_alive := r # in_alive w\<rparr>))"

definition adopt_failed :: "nat \<Rightarrow> inst \<Rightarrow> inst" where
  "adopt_failed r w =
     (if r \<notin> set (in_adopting w) then w
      else w\<lparr>in_adopting := removeAll r (in_adopting w), in_current := None\<rparr>)"

section \<open>The instance in its world\<close>

fun server_status_key :: "server_status \<Rightarrow> string" where
  "server_status_key SStopped = ''stopped''"
| "server_status_key SRunning = ''running''"
| "server_status_key SStarting = ''starting''"
| "server_status_key SStopping = ''stopping''"
| "server_status_key SCrashed = ''crashed''"

record iworld =
  iw_inst :: inst
  iw_locks :: locks
  iw_backups :: bworld

datatype inst_op =
    IStart | IStop | IKill | IRestart | IShutdown | IDispose
  | IReady nat | IStarted nat | ILaunchFail nat
  | IExit nat "int option" "server_status option" | ILine string
  | IStopTimer | ICrashTimer | IRestartTimer
  | IAdopt | IAdoptDone nat "string list" | IAdoptFail nat
  | ISetting "restart_setting option" | IRowGone
  | IRestore string | IBackup | IRelease nat

text \<open>\<open>sid\<close> is the id of the server; the locks and the backups are those of all servers.\<close>

definition iw_holder :: "string \<Rightarrow> iworld \<Rightarrow> lock_kind option" where
  "iw_holder sid w = lock_holder (iw_locks w) sid"

definition on_inst :: "(inst \<Rightarrow> inst) \<Rightarrow> iworld \<Rightarrow> iworld" where
  "on_inst f w = w\<lparr>iw_inst := f (iw_inst w)\<rparr>"

text \<open>Other servers count as stopped for their own restores.\<close>

definition iw_status :: "string \<Rightarrow> iworld \<Rightarrow> string \<Rightarrow> string option" where
  "iw_status sid w i = (if i = sid then map_option server_status_key (in_status (iw_inst w)) else Some ''stopped'')"

definition iw_restore :: "string \<Rightarrow> string \<Rightarrow> iworld \<Rightarrow> nat result \<times> iworld" where
  "iw_restore sid b w =
     (case backup_restore_begin (iw_backups w) (iw_locks w) (iw_status sid w) b of
        (r, lk) \<Rightarrow> (r, w\<lparr>iw_locks := lk\<rparr>))"

fun inst_step :: "detection \<Rightarrow> string \<Rightarrow> iworld \<Rightarrow> inst_op \<Rightarrow> iworld" where
  "inst_step d sid w IStart = on_inst (\<lambda>x. snd (inst_start (iw_holder sid w) x)) w"
| "inst_step d sid w IStop = on_inst (inst_stop WaitStop) w"
| "inst_step d sid w IKill = on_inst inst_kill w"
| "inst_step d sid w IRestart = on_inst inst_restart w"
| "inst_step d sid w IShutdown = on_inst stop_for_shutdown w"
| "inst_step d sid w IDispose = on_inst inst_dispose w"
| "inst_step d sid w (IReady i) = on_inst (launch_ready i) w"
| "inst_step d sid w (IStarted i) = on_inst (launch_started i) w"
| "inst_step d sid w (ILaunchFail i) = on_inst (launch_failed i) w"
| "inst_step d sid w (IExit r code flushed) = on_inst (process_exit r code flushed) w"
| "inst_step d sid w (ILine l) = on_inst (on_line d l) w"
| "inst_step d sid w IStopTimer = on_inst stop_timer w"
| "inst_step d sid w ICrashTimer = on_inst (crash_timer (iw_holder sid w)) w"
| "inst_step d sid w IRestartTimer = on_inst (restart_timer (iw_holder sid w)) w"
| "inst_step d sid w IAdopt = on_inst (\<lambda>x. snd (adopt_begin x)) w"
| "inst_step d sid w (IAdoptDone r h) = on_inst (adopt_done d r h) w"
| "inst_step d sid w (IAdoptFail r) = on_inst (adopt_failed r) w"
| "inst_step d sid w (ISetting s) = on_inst (\<lambda>x. x\<lparr>in_setting := s\<rparr>) w"
| "inst_step d sid w IRowGone = on_inst (\<lambda>x. x\<lparr>in_status := None\<rparr>) w"
| "inst_step d sid w (IRestore b) = snd (iw_restore sid b w)"
| "inst_step d sid w IBackup = w\<lparr>iw_locks := snd (lock_acquire (iw_locks w) sid LockBackup)\<rparr>"
| "inst_step d sid w (IRelease tok) = w\<lparr>iw_locks := lock_release (iw_locks w) tok\<rparr>"

end
