(* ===== verification/Instance_Steps.thy ===== *)
theory Instance_Steps
  imports Instances
begin

text \<open>
  What the operations of an instance do to each part of its state, and the invariant that keeps
  a restored folder and a running process apart.
\<close>

section \<open>The parts of the state\<close>

lemma update_status_fields [simp]:
  "in_setting (update_status s w) = in_setting w" "in_current (update_status s w) = in_current w"
  "in_alive (update_status s w) = in_alive w" "in_next (update_status s w) = in_next w"
  "in_shutting (update_status s w) = in_shutting w" "in_exit_requested (update_status s w) = in_exit_requested w"
  "in_disposed (update_status s w) = in_disposed w" "in_stop (update_status s w) = in_stop w"
  "in_waiters (update_status s w) = in_waiters w" "in_answers (update_status s w) = in_answers w"
  "in_launches (update_status s w) = in_launches w" "in_adopting (update_status s w) = in_adopting w"
  "in_crash_timers (update_status s w) = in_crash_timers w" "in_restart_timers (update_status s w) = in_restart_timers w"
  "in_status (update_status s w) = map_option (\<lambda>_. s) (in_status w)"
  "in_attempts (update_status s w) = (if s = SRunning then 0 else in_attempts w)"
  by (simp_all add: update_status_def Let_def split: option.splits)

lemma stop_finish_fields [simp]:
  "in_setting (stop_finish ok w) = in_setting w" "in_current (stop_finish ok w) = in_current w"
  "in_alive (stop_finish ok w) = in_alive w" "in_next (stop_finish ok w) = in_next w"
  "in_shutting (stop_finish ok w) = in_shutting w" "in_exit_requested (stop_finish ok w) = in_exit_requested w"
  "in_disposed (stop_finish ok w) = in_disposed w" "in_stop (stop_finish ok w) = None"
  "in_launches (stop_finish ok w) = in_launches w" "in_adopting (stop_finish ok w) = in_adopting w"
  "in_crash_timers (stop_finish ok w) = in_crash_timers w" "in_status (stop_finish ok w) = in_status w"
  "in_attempts (stop_finish ok w) = in_attempts w" "in_log (stop_finish ok w) = in_log w"
  by (simp_all add: stop_finish_def split: option.splits)

lemma crash_launch_failed_fields [simp]:
  "in_setting (crash_launch_failed w) = in_setting w" "in_current (crash_launch_failed w) = in_current w"
  "in_alive (crash_launch_failed w) = in_alive w" "in_next (crash_launch_failed w) = in_next w"
  "in_shutting (crash_launch_failed w) = in_shutting w" "in_exit_requested (crash_launch_failed w) = in_exit_requested w"
  "in_disposed (crash_launch_failed w) = in_disposed w" "in_stop (crash_launch_failed w) = in_stop w"
  "in_waiters (crash_launch_failed w) = in_waiters w" "in_answers (crash_launch_failed w) = in_answers w"
  "in_launches (crash_launch_failed w) = in_launches w" "in_adopting (crash_launch_failed w) = in_adopting w"
  "in_crash_timers (crash_launch_failed w) = in_crash_timers w"
  "in_restart_timers (crash_launch_failed w) = in_restart_timers w"
  "in_attempts (crash_launch_failed w) = in_attempts w"
  "in_status (crash_launch_failed w) = (if is_running w then in_status w else map_option (\<lambda>_. SCrashed) (in_status w))"
  by (simp_all add: crash_launch_failed_def Let_def)

lemma is_running_cong: "in_current w = in_current v \<Longrightarrow> in_alive w = in_alive v \<Longrightarrow> is_running w = is_running v"
  by (simp add: is_running_def split: option.splits)

lemma is_running_update_status [simp]: "is_running (update_status s w) = is_running w"
  by (rule is_running_cong) simp_all

section \<open>One process at a time\<close>

text \<open>
  What the callers of the instance take care of, or happens in this order on the machine:
  nothing is launched while a launch or an adoption is under way, output comes from a process
  that runs, containers are adopted before anything else, and nothing is restored meanwhile.
\<close>

definition orderly :: "inst_op \<Rightarrow> string \<Rightarrow> iworld \<Rightarrow> bool" where
  "orderly e sid w =
     (let x = iw_inst w; calm = (in_launches x = [] \<and> in_adopting x = []) in
      case e of
        IStart \<Rightarrow> calm | IRestartTimer \<Rightarrow> calm | ICrashTimer \<Rightarrow> calm
      | IAdopt \<Rightarrow> calm \<and> iw_holder sid w \<noteq> Some LockRestore
      | ILine l \<Rightarrow> is_running x
      | IRestore b \<Rightarrow> in_adopting x = []
      | _ \<Rightarrow> True)"

text \<open>The processes alive and on their way.\<close>

definition in_flight :: "inst \<Rightarrow> nat" where
  "in_flight x = length (in_alive x) + length (in_launches x) + length (in_adopting x)"

definition one_process :: "inst \<Rightarrow> bool" where
  "one_process x \<longleftrightarrow> in_flight x \<le> 1 \<and> (\<forall>r \<in> set (in_alive x) \<union> set (in_adopting x). in_current x = Some r) \<and>
     (\<forall>l \<in> set (in_launches x). \<forall>r. la_phase l = StartingRuntime r \<longrightarrow> in_current x = Some r) \<and>
     (in_status x \<in> {Some SStopped, Some SCrashed} \<longrightarrow> in_alive x = [] \<and> in_launches x = [])"

text \<open>\<open>h\<close> is who holds the lock of the server.\<close>

definition apart :: "lock_kind option \<Rightarrow> inst \<Rightarrow> bool" where
  "apart h x \<longleftrightarrow> one_process x \<and> (h = Some LockRestore \<longrightarrow> in_flight x = 0)"

definition restore_inv :: "string \<Rightarrow> iworld \<Rightarrow> bool" where
  "restore_inv sid w \<longleftrightarrow> apart (iw_holder sid w) (iw_inst w)"

text \<open>The shapes an instance with one process can have.\<close>

lemma one_process_cases:
  assumes "one_process x"
  obtains (idle) "in_alive x = []" "in_launches x = []" "in_adopting x = []"
  | (alive) r where "in_alive x = [r]" "in_launches x = []" "in_adopting x = []" "in_current x = Some r"
      "is_running x" "in_status x \<notin> {Some SStopped, Some SCrashed}"
  | (launching) l where "in_alive x = []" "in_launches x = [l]" "in_adopting x = []" "\<not> is_running x"
      "in_status x \<notin> {Some SStopped, Some SCrashed}"
      "\<And>r. la_phase l = StartingRuntime r \<Longrightarrow> in_current x = Some r"
  | (adopting) r where "in_alive x = []" "in_launches x = []" "in_adopting x = [r]" "in_current x = Some r"
      "\<not> is_running x"
proof -
  have c: "length (in_alive x) + length (in_launches x) + length (in_adopting x) \<le> 1"
    using assms by (simp add: one_process_def in_flight_def)
  consider "in_flight x = 0" | "length (in_alive x) = 1" | "length (in_launches x) = 1" | "length (in_adopting x) = 1"
    using c unfolding in_flight_def by linarith
  then show ?thesis
  proof cases
    case 1
    then show ?thesis using idle by (simp add: in_flight_def)
  next
    case 2
    then obtain r where a: "in_alive x = [r]" by (cases "in_alive x") auto
    moreover have "in_launches x = []" "in_adopting x = []" using c 2 by auto
    moreover have "in_current x = Some r" and "in_status x \<notin> {Some SStopped, Some SCrashed}"
      using assms a by (auto simp: one_process_def)
    ultimately show ?thesis using alive [of r] by (simp add: is_running_def)
  next
    case 3
    then obtain l where a: "in_launches x = [l]" by (cases "in_launches x") auto
    moreover have "in_alive x = []" "in_adopting x = []" using c 3 by auto
    moreover have "\<And>r. la_phase l = StartingRuntime r \<Longrightarrow> in_current x = Some r"
      and "in_status x \<notin> {Some SStopped, Some SCrashed}"
      using assms a by (auto simp: one_process_def)
    ultimately show ?thesis using launching [of l] by (simp add: is_running_def split: option.splits)
  next
    case 4
    then obtain r where a: "in_adopting x = [r]" by (cases "in_adopting x") auto
    moreover have "in_alive x = []" "in_launches x = []" using c 4 by auto
    moreover have "in_current x = Some r" using assms a by (auto simp: one_process_def)
    ultimately show ?thesis using adopting [of r] by (simp add: is_running_def)
  qed
qed

lemma one_processI:
  assumes "in_alive x = []" and "in_launches x = []" and "in_adopting x = []"
  shows "one_process x" "in_flight x = 0"
  using assms by (simp_all add: one_process_def in_flight_def)

text \<open>Operations that leave the processes alone and show no idle status.\<close>

lemma apart_status:
  assumes "apart h x" and "in_alive y = in_alive x" and "in_launches y = in_launches x"
    and "in_adopting y = in_adopting x" and "in_current y = in_current x"
    and "in_status y = in_status x \<or> in_status y \<notin> {Some SStopped, Some SCrashed} \<or>
      in_alive x = [] \<and> in_launches x = []"
  shows "apart h y"
  using assms unfolding apart_def one_process_def in_flight_def by auto

lemma apart_stop: "apart h x \<Longrightarrow> apart h (inst_stop who x)"
  by (erule apart_status) (auto simp: inst_stop_def)

lemma apart_kill: "apart h x \<Longrightarrow> apart h (inst_kill x)"
  by (erule apart_status) (auto simp: inst_kill_def)

lemma apart_restart: "apart h x \<Longrightarrow> apart h (inst_restart x)"
  by (simp add: inst_restart_def apart_stop)

lemma apart_shutdown: "apart h x \<Longrightarrow> apart h (stop_for_shutdown x)"
proof -
  assume "apart h x"
  then have "apart h (x\<lparr>in_shutting := True\<rparr>)" by (rule apart_status) simp_all
  then show ?thesis by (simp add: stop_for_shutdown_def apart_stop)
qed

lemma apart_finish: "apart h x \<Longrightarrow> apart h (stop_finish ok x)"
  by (erule apart_status) simp_all

lemma apart_stop_timer: "apart h x \<Longrightarrow> apart h (stop_timer x)"
proof -
  assume a: "apart h x"
  then have "apart h (x\<lparr>in_stop := Some Escalated\<rparr>)" by (rule apart_status) simp_all
  with a show ?thesis by (auto simp: stop_timer_def apart_finish split: option.splits stop_phase.splits)
qed

lemma detect_not_idle: "detect d l = Some s \<Longrightarrow> s \<notin> {SStopped, SCrashed}"
  by (auto simp: detect_def Let_def split: if_splits)

lemma detect_last_not_idle: "detect_last d ls = Some s \<Longrightarrow> s \<notin> {SStopped, SCrashed}"
  unfolding detect_last_def
  by (induction ls) (auto split: option.splits if_splits)

lemma apart_line: "apart h x \<Longrightarrow> apart h (on_line d l x)"
  by (erule apart_status) (auto simp: on_line_def dest: detect_not_idle split: option.splits)

lemma one_process_launch:
  assumes "in_alive y = []" and "in_launches y = [l]" and "in_adopting y = []"
    and "\<And>r. la_phase l = StartingRuntime r \<Longrightarrow> in_current y = Some r"
    and "in_status y \<notin> {Some SStopped, Some SCrashed}"
  shows "one_process y"
  using assms by (simp add: one_process_def in_flight_def)

lemma apart_launch:
  assumes "apart h x" and "in_launches x = []" and "in_adopting x = []"
  shows "apart h (snd (launch_begin origin h x))"
proof -
  from assms(1) have "one_process x" by (simp add: apart_def)
  then show ?thesis
  proof (cases rule: one_process_cases)
    case idle
    let ?y = "snd (launch_begin origin h x)"
    show ?thesis
    proof (cases "h = Some LockRestore")
      case True
      then show ?thesis using assms by (simp add: launch_begin_def)
    next
      case False
      have "\<not> is_running x" using idle by (simp add: is_running_def split: option.splits)
      then have "one_process ?y"
        using idle False
        by (intro one_process_launch [of ?y "\<lparr>la_id = in_next x, la_origin = origin, la_phase = Preparing\<rparr>"])
          (auto simp: launch_begin_def Let_def)
      then show ?thesis using False by (simp add: apart_def)
    qed
  next
    case (alive r)
    then show ?thesis using assms(1) by (simp add: launch_begin_def)
  qed (use assms in simp_all)
qed

lemma apart_start: "apart h x \<Longrightarrow> in_launches x = [] \<Longrightarrow> in_adopting x = [] \<Longrightarrow> apart h (snd (inst_start h x))"
proof -
  assume a: "apart h x" "in_launches x = []" "in_adopting x = []"
  have "apart h (x\<lparr>in_attempts := 0\<rparr>)" by (rule apart_status [OF a(1)]) simp_all
  then show ?thesis using a by (simp add: inst_start_def apart_launch)
qed

lemma apart_restart_timer:
  "apart h x \<Longrightarrow> in_launches x = [] \<Longrightarrow> in_adopting x = [] \<Longrightarrow> apart h (restart_timer h x)"
proof -
  assume a: "apart h x" "in_launches x = []" "in_adopting x = []"
  have "apart h (x\<lparr>in_restart_timers := in_restart_timers x - 1\<rparr>)" by (rule apart_status [OF a(1)]) simp_all
  then show ?thesis using a by (simp add: restart_timer_def apart_start)
qed

lemma apart_crash_failed:
  assumes "apart h x" and "in_launches x = []"
  shows "apart h (crash_launch_failed x)"
proof (rule apart_status [OF assms(1)])
  have "one_process x" using assms(1) by (simp add: apart_def)
  then show "in_status (crash_launch_failed x) = in_status x \<or>
      in_status (crash_launch_failed x) \<notin> {Some SStopped, Some SCrashed} \<or> in_alive x = [] \<and> in_launches x = []"
    by (cases rule: one_process_cases) (simp_all add: assms(2))
qed simp_all

lemma apart_crash_timer:
  "apart h x \<Longrightarrow> in_launches x = [] \<Longrightarrow> in_adopting x = [] \<Longrightarrow> apart h (crash_timer h x)"
proof -
  assume a: "apart h x" "in_launches x = []" "in_adopting x = []"
  let ?y = "x\<lparr>in_crash_timers := in_crash_timers x - 1\<rparr>"
  have y: "apart h ?y" by (rule apart_status [OF a(1)]) simp_all
  then have l: "apart h (snd (launch_begin AfterCrash h ?y))" using a by (simp add: apart_launch)
  have "in_launches (snd (launch_begin AfterCrash h ?y)) = []" if "fst (launch_begin AfterCrash h ?y) = Inl e" for e
    using that a by (auto simp: launch_begin_def Let_def split: if_splits)
  with l y a show ?thesis
    by (auto simp: crash_timer_def crash_relaunch_def Let_def apart_crash_failed split: prod.splits sum.splits)
qed

lemma apart_ready:
  assumes "apart h x"
  shows "apart h (launch_ready i x)"
proof (cases "List.find (\<lambda>l. la_id l = i \<and> la_phase l = Preparing) (in_launches x)")
  case None
  then show ?thesis using assms by (simp add: launch_ready_def)
next
  case (Some l)
  then have l: "l \<in> set (in_launches x)" "la_id l = i" by (auto simp: find_Some_iff)
  from assms have "one_process x" by (simp add: apart_def)
  then show ?thesis
  proof (cases rule: one_process_cases)
    case (launching k)
    then have "k = l" using l by simp
    let ?y = "launch_ready i x"
    have "one_process ?y"
      using launching Some l \<open>k = l\<close>
      by (intro one_process_launch [of ?y "l\<lparr>la_phase := StartingRuntime (in_next x)\<rparr>"])
        (simp_all add: launch_ready_def)
    moreover have "h \<noteq> Some LockRestore" using assms launching by (simp add: apart_def in_flight_def)
    ultimately show ?thesis by (simp add: apart_def)
  qed (use l in simp_all)
qed

lemma apart_started:
  assumes "apart h x"
  shows "apart h (launch_started i x)"
proof (cases "List.find (\<lambda>l. la_id l = i) (in_launches x)")
  case None
  then show ?thesis using assms by (simp add: launch_started_def)
next
  case (Some l)
  then have l: "l \<in> set (in_launches x)" "la_id l = i" by (auto simp: find_Some_iff)
  from assms have "one_process x" by (simp add: apart_def)
  then show ?thesis
  proof (cases rule: one_process_cases)
    case (launching k)
    then have kl: "k = l" using l by simp
    show ?thesis
    proof (cases "la_phase l")
      case Preparing
      then show ?thesis using assms Some by (simp add: launch_started_def)
    next
      case (StartingRuntime r)
      then have "in_current x = Some r" using launching(6) kl by simp
      then have "one_process (launch_started i x)"
        using launching Some l kl StartingRuntime
        by (simp add: launch_started_def one_process_def in_flight_def)
      moreover have "h \<noteq> Some LockRestore" using assms launching by (simp add: apart_def in_flight_def)
      ultimately show ?thesis by (simp add: apart_def)
    qed
  qed (use l in simp_all)
qed

lemma apart_failed:
  assumes "apart h x"
  shows "apart h (launch_failed i x)"
proof (cases "List.find (\<lambda>l. la_id l = i) (in_launches x)")
  case None
  then show ?thesis using assms by (simp add: launch_failed_def)
next
  case (Some l)
  then have l: "l \<in> set (in_launches x)" "la_id l = i" by (auto simp: find_Some_iff)
  from assms have "one_process x" by (simp add: apart_def)
  then show ?thesis
  proof (cases rule: one_process_cases)
    case (launching k)
    let ?y = "x\<lparr>in_launches := filter (\<lambda>l. la_id l \<noteq> i) (in_launches x)\<rparr>"
    have e: "in_alive ?y = []" "in_launches ?y = []" "in_adopting ?y = []" using launching l by auto
    from one_processI [OF this] have "apart h ?y" by (simp add: apart_def)
    with e show ?thesis
      by (simp add: launch_failed_def Some Let_def apart_crash_failed split: launch_origin.splits)
  qed (use l in simp_all)
qed

lemma close_status_fields [simp]:
  "in_setting (close_status c f x) = in_setting x" "in_current (close_status c f x) = in_current x"
  "in_alive (close_status c f x) = in_alive x" "in_next (close_status c f x) = in_next x"
  "in_shutting (close_status c f x) = in_shutting x" "in_exit_requested (close_status c f x) = in_exit_requested x"
  "in_disposed (close_status c f x) = in_disposed x" "in_stop (close_status c f x) = in_stop x"
  "in_waiters (close_status c f x) = in_waiters x" "in_answers (close_status c f x) = in_answers x"
  "in_launches (close_status c f x) = in_launches x" "in_adopting (close_status c f x) = in_adopting x"
  "in_crash_timers (close_status c f x) = in_crash_timers x"
  "in_status (close_status c f x) = map_option (\<lambda>_. if exit_crashed c then SCrashed else SStopped) (in_status x)"
  "in_attempts (close_status c f x) = (if f = Some SRunning then 0 else in_attempts x)"
  by (auto simp: close_status_def option.map_comp comp_def split: option.splits)

lemma close_crashed_fields [simp]:
  "in_setting (close_crashed k x) = in_setting x" "in_current (close_crashed k x) = in_current x"
  "in_alive (close_crashed k x) = in_alive x" "in_next (close_crashed k x) = in_next x"
  "in_shutting (close_crashed k x) = in_shutting x" "in_exit_requested (close_crashed k x) = in_exit_requested x"
  "in_disposed (close_crashed k x) = in_disposed x" "in_stop (close_crashed k x) = in_stop x"
  "in_waiters (close_crashed k x) = in_waiters x" "in_answers (close_crashed k x) = in_answers x"
  "in_launches (close_crashed k x) = in_launches x" "in_adopting (close_crashed k x) = in_adopting x"
  "in_status (close_crashed k x) = in_status x"
  by (simp_all add: close_crashed_def Let_def split: prod.splits crash_verdict.splits)

lemma on_close_fields [simp]:
  "in_alive (on_close c f x) = in_alive x" "in_launches (on_close c f x) = in_launches x"
  "in_adopting (on_close c f x) = in_adopting x" "in_current (on_close c f x) = in_current x"
  "in_disposed (on_close c f x) = in_disposed x" "in_shutting (on_close c f x) = in_shutting x"
  "in_setting (on_close c f x) = in_setting x" "in_exit_requested (on_close c f x) = in_exit_requested x"
  "in_stop (on_close c f x) = None" "in_next (on_close c f x) = in_next x"
  by (simp_all add: on_close_def Let_def)

lemma apart_exit:
  assumes "apart h x"
  shows "apart h (process_exit r c f x)"
proof (cases "r \<in> set (in_alive x)")
  case False
  then show ?thesis using assms by (simp add: process_exit_def)
next
  case True
  from assms have "one_process x" by (simp add: apart_def)
  then show ?thesis
  proof (cases rule: one_process_cases)
    case (alive k)
    let ?y = "process_exit r c f x"
    have "in_alive ?y = []" "in_launches ?y = []" "in_adopting ?y = []"
      using alive True by (simp_all add: process_exit_def)
    from one_processI [OF this] show ?thesis by (simp add: apart_def)
  qed (use True in simp_all)
qed

lemma apart_adopt:
  assumes "apart h x" and "in_launches x = []" and "in_adopting x = []" and "h \<noteq> Some LockRestore"
  shows "apart h (snd (adopt_begin x))"
proof (cases "is_running x")
  case True
  then show ?thesis using assms by (simp add: adopt_begin_def)
next
  case False
  from assms(1) have "one_process x" by (simp add: apart_def)
  then have "in_alive x = []" using False assms by (cases rule: one_process_cases) simp_all
  then show ?thesis using False assms by (simp add: adopt_begin_def apart_def one_process_def in_flight_def)
qed

lemma apart_adopt_done:
  assumes "apart h x"
  shows "apart h (adopt_done d r ls x)"
proof (cases "r \<in> set (in_adopting x)")
  case False
  then show ?thesis using assms by (simp add: adopt_done_def)
next
  case True
  from assms have "one_process x" by (simp add: apart_def)
  then show ?thesis
  proof (cases rule: one_process_cases)
    case (adopting k)
    let ?s = "case detect_last d ls of None \<Rightarrow> SRunning | Some s \<Rightarrow> s"
    have "?s \<notin> {SStopped, SCrashed}" by (auto split: option.splits dest: detect_last_not_idle)
    then have "one_process (adopt_done d r ls x)"
      using adopting True by (auto simp: adopt_done_def one_process_def in_flight_def)
    moreover have "h \<noteq> Some LockRestore" using assms adopting by (simp add: apart_def in_flight_def)
    ultimately show ?thesis by (simp add: apart_def)
  qed (use True in simp_all)
qed

lemma apart_adopt_failed:
  assumes "apart h x"
  shows "apart h (adopt_failed r x)"
proof (cases "r \<in> set (in_adopting x)")
  case False
  then show ?thesis using assms by (simp add: adopt_failed_def)
next
  case True
  from assms have "one_process x" by (simp add: apart_def)
  then show ?thesis
  proof (cases rule: one_process_cases)
    case (adopting k)
    let ?y = "adopt_failed r x"
    have "in_alive ?y = []" "in_launches ?y = []" "in_adopting ?y = []"
      using adopting True by (simp_all add: adopt_failed_def)
    from one_processI [OF this] show ?thesis by (simp add: apart_def)
  qed (use True in simp_all)
qed

section \<open>The locks around it\<close>

lemma acquire_holder:
  "lock_holder (snd (lock_acquire lk i k)) j =
     (if i = j \<and> lock_holder lk i = None then Some k else lock_holder lk j)"
  by (auto simp: lock_acquire_def lock_holder_def split: option.splits)

lemma acquire_other: "lock_acquire lk i k = (r, lk2) \<Longrightarrow> lock_holder lk2 j \<noteq> lock_holder lk j \<Longrightarrow> i = j"
  using acquire_holder [of lk i k j] by (auto split: if_splits)

lemma release_holder: "lock_holder (lock_release lk tok) j \<in> {lock_holder lk j, None}"
  by (auto simp: lock_release_def lock_holder_def split: option.splits)

lemma restore_locks:
  "snd (iw_restore sid b w) = w\<lparr>iw_locks := iw_locks (snd (iw_restore sid b w))\<rparr>"
  "iw_holder sid (snd (iw_restore sid b w)) = iw_holder sid w \<or>
   in_status (iw_inst w) \<in> {Some SStopped, Some SCrashed}"
proof -
  show "snd (iw_restore sid b w) = w\<lparr>iw_locks := iw_locks (snd (iw_restore sid b w))\<rparr>"
    by (simp add: iw_restore_def split: prod.splits)
  have "in_status (iw_inst w) \<in> {Some SStopped, Some SCrashed}"
    if "iw_status sid w sid = Some st" "st \<in> {''stopped'', ''crashed''}" for st
  proof -
    from that obtain s where "in_status (iw_inst w) = Some s" "server_status_key s = st" by (auto simp: iw_status_def)
    with that(2) show ?thesis by (cases s) auto
  qed
  then show "iw_holder sid (snd (iw_restore sid b w)) = iw_holder sid w \<or>
   in_status (iw_inst w) \<in> {Some SStopped, Some SCrashed}"
    by (auto simp: iw_restore_def backup_restore_begin_def iw_holder_def
        split: prod.splits sum.splits option.splits if_splits dest!: acquire_other)
qed

lemma restore_inv_step:
  assumes "restore_inv sid w" and "orderly e sid w"
  shows "restore_inv sid (inst_step d sid w e)"
proof -
  let ?h = "iw_holder sid w" and ?x = "iw_inst w"
  have a: "apart ?h ?x" using assms(1) by (simp add: restore_inv_def)
  have inst: "restore_inv sid (on_inst f w)" if "apart ?h (f ?x)" for f
    using that by (simp add: restore_inv_def on_inst_def iw_holder_def)
  have set: "apart ?h (?x\<lparr>in_setting := s\<rparr>)" "apart ?h (?x\<lparr>in_status := None\<rparr>)" "apart ?h (inst_dispose ?x)" for s
    by (rule apart_status [OF a]; simp add: inst_dispose_def)+
  show ?thesis
  proof (cases e)
    case (IRestore b)
    show ?thesis
    proof (cases "iw_holder sid (snd (iw_restore sid b w)) = ?h")
      case True
      then show ?thesis using a restore_locks(1) [of sid b w] IRestore
        by (simp add: restore_inv_def) (metis iworld.ext_inject iworld.surjective iworld.update_convs(2))
    next
      case False
      then have "in_status ?x \<in> {Some SStopped, Some SCrashed}" using restore_locks(2) by metis
      then have "in_flight ?x = 0"
        using a assms(2) IRestore by (auto simp: apart_def one_process_def in_flight_def orderly_def Let_def)
      moreover have "iw_inst (snd (iw_restore sid b w)) = ?x"
        by (simp add: iw_restore_def split: prod.splits)
      ultimately show ?thesis using a IRestore by (simp add: restore_inv_def apart_def)
    qed
  next
    case IBackup
    then show ?thesis using a
      by (auto simp: restore_inv_def apart_def iw_holder_def acquire_holder split: if_splits)
  next
    case (IRelease tok)
    then show ?thesis using a release_holder [of "iw_locks w" tok sid]
      by (auto simp: restore_inv_def apart_def iw_holder_def)
  qed (use a assms(2) set in \<open>simp_all add: inst orderly_def Let_def apart_start apart_stop apart_kill apart_restart
      apart_shutdown apart_ready apart_started apart_failed apart_exit apart_line apart_stop_timer apart_crash_timer
      apart_restart_timer apart_adopt apart_adopt_done apart_adopt_failed\<close>)
qed

text \<open>A step that is out of order is left out.\<close>

interpretation restorem: machine "\<lambda>w e. if orderly e sid w then inst_step d sid w e else w" "restore_inv sid"
  by unfold_locales (simp add: restore_inv_step)

end
