(* ===== verification/Instance_Properties.thy ===== *)
theory Instance_Properties
  imports Instance_Steps
begin

text \<open>The properties of server instances.\<close>

section \<open>Counting crash restarts\<close>

lemma inst_step_inst: "iw_inst (inst_step d sid w e) =
  (case e of
     IRestore b \<Rightarrow> iw_inst w | IBackup \<Rightarrow> iw_inst w | IRelease t \<Rightarrow> iw_inst w
   | _ \<Rightarrow> iw_inst (inst_step d sid w e))"
  by (cases e) (simp_all add: iw_restore_def split: prod.splits)

text \<open>Operations that neither start the count of attempts again nor change the setting.\<close>

definition keeps_count :: "detection \<Rightarrow> inst_op \<Rightarrow> bool" where
  "keeps_count d e = (case e of
     IStart \<Rightarrow> False | IRestartTimer \<Rightarrow> False | ISetting s \<Rightarrow> False | IAdoptDone r h \<Rightarrow> False
   | ILine l \<Rightarrow> detect d l \<noteq> Some SRunning | IExit r c f \<Rightarrow> f \<noteq> Some SRunning | _ \<Rightarrow> True)"

definition crash_launches_now :: "inst_op \<Rightarrow> inst \<Rightarrow> inst \<Rightarrow> nat" where
  "crash_launches_now e x y = (if e = ICrashTimer then length (in_launches y) - length (in_launches x) else 0)"

fun crash_launches :: "detection \<Rightarrow> string \<Rightarrow> iworld \<Rightarrow> inst_op list \<Rightarrow> nat" where
  "crash_launches d sid w [] = 0"
| "crash_launches d sid w (e # es) =
     crash_launches_now e (iw_inst w) (iw_inst (inst_step d sid w e)) + crash_launches d sid (inst_step d sid w e) es"

definition restarts_left :: "restart_setting \<Rightarrow> inst \<Rightarrow> nat" where
  "restarts_left s x = in_crash_timers x + (max_attempts s - in_attempts x)"

lemma launch_begin_fields [simp]:
  "in_setting (snd (launch_begin o' h x)) = in_setting x"
  "in_attempts (snd (launch_begin o' h x)) = in_attempts x"
  "in_crash_timers (snd (launch_begin o' h x)) = in_crash_timers x"
  "in_stop (snd (launch_begin o' h x)) = in_stop x"
  "in_waiters (snd (launch_begin o' h x)) = in_waiters x"
  "in_answers (snd (launch_begin o' h x)) = in_answers x"
  "in_disposed (snd (launch_begin o' h x)) = in_disposed x"
  "in_shutting (snd (launch_begin o' h x)) = in_shutting x"
  "length (in_launches (snd (launch_begin o' h x))) \<le> Suc (length (in_launches x))"
  by (simp_all add: launch_begin_def Let_def)

lemma close_crashed_count:
  assumes "in_setting x = Some s"
  shows "restarts_left s (close_crashed k x) \<le> restarts_left s x"
proof -
  obtain v n where oc: "on_crash (in_attempts x) (in_setting x) (in_shutting x \<or> in_exit_requested x) = (v, n)"
    by fastforce
  then have n: "if v = VRestart then n = Suc (in_attempts x) \<and> in_attempts x < max_attempts s else n = in_attempts x"
    using assms by (auto simp: on_crash_def split: if_splits)
  show ?thesis
  proof (cases "v = VRestart")
    case True
    then have "in_attempts (close_crashed k x) = n \<and> in_crash_timers (close_crashed k x) = Suc (in_crash_timers x)"
      by (simp add: close_crashed_def Let_def oc)
    with n True have "in_attempts (close_crashed k x) = Suc (in_attempts x)" "in_attempts x < max_attempts s"
      "in_crash_timers (close_crashed k x) = Suc (in_crash_timers x)" by simp_all
    then show ?thesis unfolding restarts_left_def by arith
  next
    case False
    then have "in_attempts (close_crashed k x) = n \<and> in_crash_timers (close_crashed k x) = in_crash_timers x"
      by (cases v) (simp_all add: close_crashed_def Let_def oc)
    then show ?thesis using n False by (simp add: restarts_left_def)
  qed
qed

lemma restarts_left_cong:
  "in_attempts y = in_attempts x \<Longrightarrow> in_crash_timers y = in_crash_timers x \<Longrightarrow> restarts_left s y = restarts_left s x"
  by (simp add: restarts_left_def)

lemma on_close_count:
  assumes "f \<noteq> Some SRunning" and "in_setting x = Some s"
  shows "restarts_left s (on_close c f x) \<le> restarts_left s x"
proof -
  let ?x = "close_status c f x"
  have same: "restarts_left s ?x = restarts_left s x" using assms(1) by (intro restarts_left_cong) simp_all
  have "restarts_left s (on_close c f x) = restarts_left s (if exit_crashed c then close_crashed (the c) ?x else ?x)"
    by (rule restarts_left_cong) (simp_all add: on_close_def Let_def)
  also have "\<dots> \<le> restarts_left s ?x" using close_crashed_count [of ?x s "the c"] assms(2) by simp
  finally show ?thesis using same by simp
qed

lemma crash_relaunch_fields [simp]:
  "in_setting (crash_relaunch h x) = in_setting x" "in_attempts (crash_relaunch h x) = in_attempts x"
  "in_crash_timers (crash_relaunch h x) = in_crash_timers x" "in_stop (crash_relaunch h x) = in_stop x"
  "in_waiters (crash_relaunch h x) = in_waiters x" "in_answers (crash_relaunch h x) = in_answers x"
  "in_disposed (crash_relaunch h x) = in_disposed x" "in_shutting (crash_relaunch h x) = in_shutting x"
  "length (in_launches (crash_relaunch h x)) \<le> Suc (length (in_launches x))"
  by (simp_all add: crash_relaunch_def launch_begin_def Let_def)

lemma crash_timer_count:
  "restarts_left s (crash_timer h x) + (length (in_launches (crash_timer h x)) - length (in_launches x)) \<le> restarts_left s x"
proof (cases "in_crash_timers x = 0")
  case True
  then show ?thesis by (simp add: crash_timer_def restarts_left_def)
next
  case False
  let ?y = "x\<lparr>in_crash_timers := in_crash_timers x - 1\<rparr>"
  have t: "crash_timer h x = ?y \<or> crash_timer h x = crash_relaunch h ?y"
    using False by (simp add: crash_timer_def Let_def)
  have "length (in_launches (crash_relaunch h ?y)) \<le> Suc (length (in_launches x))"
    using crash_relaunch_fields(9) [of h ?y] by simp
  with t False show ?thesis by (auto simp: restarts_left_def)
qed

lemma step_count:
  assumes "keeps_count d e" and "in_setting (iw_inst w) = Some s"
  shows "in_setting (iw_inst (inst_step d sid w e)) = Some s \<and>
    restarts_left s (iw_inst (inst_step d sid w e)) +
      crash_launches_now e (iw_inst w) (iw_inst (inst_step d sid w e)) \<le> restarts_left s (iw_inst w)"
proof (cases e)
  case (IExit r c f)
  then show ?thesis using assms on_close_count [of f "(iw_inst w)\<lparr>in_alive := removeAll r (in_alive (iw_inst w))\<rparr>" s c]
    by (simp add: on_inst_def process_exit_def keeps_count_def crash_launches_now_def restarts_left_def)
next
  case ICrashTimer
  have "in_setting (crash_timer h x) = in_setting x" for h x
    by (simp add: crash_timer_def Let_def)
  then show ?thesis using assms ICrashTimer crash_timer_count [of s "iw_holder sid w" "iw_inst w"]
    by (simp add: on_inst_def crash_launches_now_def)
qed (use assms in \<open>simp_all add: on_inst_def keeps_count_def crash_launches_now_def restarts_left_def
    inst_stop_def inst_kill_def inst_restart_def stop_for_shutdown_def inst_dispose_def launch_ready_def
    launch_started_def launch_failed_def on_line_def stop_timer_def adopt_begin_def adopt_failed_def
    iw_restore_def Let_def split: option.splits stop_phase.splits launch_phase.splits launch_origin.splits prod.splits\<close>)


section \<open>Deliberate ends\<close>

definition suppressed :: "inst \<Rightarrow> bool" where
  "suppressed x \<longleftrightarrow> in_shutting x \<or> in_exit_requested x"

lemma crashed_suppressed:
  assumes "suppressed x"
  shows "in_crash_timers (close_crashed k x) = in_crash_timers x"
proof -
  have "on_crash (in_attempts x) (in_setting x) (in_shutting x \<or> in_exit_requested x) = (VOff, in_attempts x)"
    using assms by (auto simp: on_crash_def suppressed_def split: option.splits)
  then show ?thesis by (simp add: close_crashed_def Let_def)
qed

lemma close_suppressed:
  assumes "suppressed x"
  shows "in_crash_timers (on_close c f x) = in_crash_timers x"
  using assms crashed_suppressed [of "close_status c f x" "the c"]
  by (simp add: on_close_def Let_def suppressed_def)

definition launches_nothing :: "inst_op \<Rightarrow> bool" where
  "launches_nothing e \<longleftrightarrow> e \<notin> {IStart, IRestartTimer, ICrashTimer, IAdopt}"

lemma step_suppressed:
  assumes "launches_nothing e" and "suppressed (iw_inst w)"
  shows "suppressed (iw_inst (inst_step d sid w e)) \<and>
    in_crash_timers (iw_inst (inst_step d sid w e)) = in_crash_timers (iw_inst w)"
proof (cases e)
  case (IExit r c f)
  let ?y = "(iw_inst w)\<lparr>in_alive := removeAll r (in_alive (iw_inst w))\<rparr>"
  have "suppressed ?y" using assms(2) by (simp add: suppressed_def)
  from close_suppressed [OF this, of c f] IExit assms(2) show ?thesis
    by (simp add: on_inst_def process_exit_def suppressed_def)
qed (use assms in \<open>simp_all add: on_inst_def launches_nothing_def suppressed_def
    inst_stop_def inst_kill_def inst_restart_def stop_for_shutdown_def inst_dispose_def launch_ready_def
    launch_started_def launch_failed_def on_line_def stop_timer_def adopt_done_def adopt_failed_def
    iw_restore_def Let_def split: option.splits stop_phase.splits launch_phase.splits launch_origin.splits prod.splits\<close>)

text \<open>
  A server that is stopped, killed or shut down on purpose is not started again by the
  crash policy: whatever the exit code of its process and whatever else happens, no crash
  restart is scheduled before somebody launches it.
\<close>

theorem deliberate_end_no_restart:
  assumes "is_running (iw_inst w)" and "in_stop (iw_inst w) = None" and "e \<in> {IStop, IKill, IRestart, IShutdown}"
    and "\<forall>x \<in> set es. launches_nothing x"
  shows "in_crash_timers (iw_inst (run (inst_step d sid) w (e # es))) = in_crash_timers (iw_inst w)"
proof -
  let ?w = "inst_step d sid w e"
  have "suppressed (iw_inst ?w) \<and> in_crash_timers (iw_inst ?w) = in_crash_timers (iw_inst w)"
    using assms(1-3) is_running_cong [of "(iw_inst w)\<lparr>in_shutting := True\<rparr>" "iw_inst w"]
    by (auto simp: on_inst_def inst_stop_def inst_kill_def inst_restart_def stop_for_shutdown_def suppressed_def)
  moreover have "suppressed (iw_inst (run (inst_step d sid) v es)) \<and>
      in_crash_timers (iw_inst (run (inst_step d sid) v es)) = in_crash_timers (iw_inst v)"
    if "suppressed (iw_inst v)" for v
    using that assms(4)
  proof (induction es arbitrary: v)
    case (Cons x es)
    then show ?case using step_suppressed [of x v d sid] by simp
  qed simp
  ultimately show ?thesis by simp
qed

section \<open>Stopping comes to an end\<close>

text \<open>A stop that waits: its phase, and that nobody was answered yet.\<close>

definition stop_pending :: "stop_phase \<Rightarrow> nat \<Rightarrow> inst \<Rightarrow> bool" where
  "stop_pending ph n x \<longleftrightarrow> in_stop x = Some ph \<and> WaitStop \<in> set (in_waiters x) \<and> n \<le> length (in_answers x)"

definition stop_answered :: "nat \<Rightarrow> inst \<Rightarrow> bool" where
  "stop_answered n x \<longleftrightarrow> n < length (in_answers x)"

lemma finish_answers:
  "length (in_answers x) \<le> length (in_answers (stop_finish ok x))"
  "stop_pending ph n x \<Longrightarrow> stop_answered n (stop_finish ok x)"
proof -
  show "length (in_answers x) \<le> length (in_answers (stop_finish ok x))"
    by (simp add: stop_finish_def split: option.splits)
  assume p: "stop_pending ph n x"
  then have "filter (\<lambda>w. w = WaitStop) (in_waiters x) \<noteq> []" by (auto simp: stop_pending_def filter_empty_conv)
  then have "0 < length (filter (\<lambda>w. w = WaitStop) (in_waiters x))" by blast
  with p show "stop_answered n (stop_finish ok x)"
    unfolding stop_answered_def stop_finish_def stop_pending_def by (simp del: length_greater_0_conv)
qed

lemma close_answers:
  "length (in_answers x) \<le> length (in_answers (on_close c f x))"
  "stop_pending ph n x \<Longrightarrow> stop_answered n (on_close c f x)"
proof -
  obtain y where y: "on_close c f x = stop_finish True y" "in_stop y = in_stop x"
    "in_waiters y = in_waiters x" "in_answers y = in_answers x"
    by (rule that [of "let w1 = close_status c f x in
          (if exit_crashed c then close_crashed (the c) w1
           else if c = Some 1 \<or> c = Some 127 then w1\<lparr>in_log := in_log w1 @ [LogKilled (the c)]\<rparr> else w1)"])
      (simp_all add: on_close_def Let_def)
  show "length (in_answers x) \<le> length (in_answers (on_close c f x))"
    using finish_answers(1) [of y True] y by simp
  assume "stop_pending ph n x"
  then have "stop_pending ph n y" using y by (simp add: stop_pending_def)
  then show "stop_answered n (on_close c f x)" using finish_answers(2) y by simp
qed

lemma launch_stop [simp]:
  "in_stop (snd (inst_start h x)) = in_stop x" "in_waiters (snd (inst_start h x)) = in_waiters x"
  "in_answers (snd (inst_start h x)) = in_answers x"
  by (simp_all add: inst_start_def)

lemma step_stop:
  assumes "stop_pending ph n (iw_inst w)"
  shows "stop_answered n (iw_inst (inst_step d sid w e)) \<or>
    stop_pending (if e = IStopTimer then Escalated else ph) n (iw_inst (inst_step d sid w e)) \<and>
    (e = IStopTimer \<longrightarrow> ph = Grace)"
proof (cases e)
  case (IExit r c f)
  let ?y = "(iw_inst w)\<lparr>in_alive := removeAll r (in_alive (iw_inst w))\<rparr>"
  have "stop_pending ph n ?y" using assms by (simp add: stop_pending_def)
  from close_answers(2) [OF this, of c f] IExit assms show ?thesis by (simp add: on_inst_def process_exit_def)
next
  case IStopTimer
  then show ?thesis using assms finish_answers(2) [OF assms, of False]
    by (cases ph) (simp_all add: on_inst_def stop_timer_def stop_pending_def)
qed (use assms in \<open>auto simp: on_inst_def stop_pending_def stop_answered_def crash_timer_def restart_timer_def
    inst_stop_def inst_kill_def inst_restart_def stop_for_shutdown_def inst_dispose_def launch_ready_def
    launch_started_def launch_failed_def on_line_def adopt_begin_def adopt_done_def adopt_failed_def
    iw_restore_def Let_def split: option.splits launch_phase.splits launch_origin.splits prod.splits\<close>)

lemma step_answers: "stop_answered n (iw_inst w) \<Longrightarrow> stop_answered n (iw_inst (inst_step d sid w e))"
proof -
  assume a: "stop_answered n (iw_inst w)"
  have "length (in_answers (iw_inst w)) \<le> length (in_answers (iw_inst (inst_step d sid w e)))"
  proof (cases e)
    case (IExit r c f)
    then show ?thesis
      using close_answers(1) [of "(iw_inst w)\<lparr>in_alive := removeAll r (in_alive (iw_inst w))\<rparr>" c f]
      by (simp add: on_inst_def process_exit_def)
  next
    case IStopTimer
    then show ?thesis using finish_answers(1) [of "iw_inst w" False]
      by (simp add: on_inst_def stop_timer_def split: option.splits stop_phase.splits)
  qed (auto simp: on_inst_def crash_timer_def restart_timer_def
    inst_stop_def inst_kill_def inst_restart_def stop_for_shutdown_def inst_dispose_def launch_ready_def
    launch_started_def launch_failed_def on_line_def adopt_begin_def adopt_done_def adopt_failed_def
    iw_restore_def Let_def split: option.splits launch_phase.splits launch_origin.splits prod.splits)
  with a show ?thesis by (simp add: stop_answered_def)
qed

lemma run_answers: "stop_answered n (iw_inst w) \<Longrightarrow> stop_answered n (iw_inst (run (inst_step d sid) w es))"
  by (induction es arbitrary: w) (simp_all add: step_answers)

lemma pending_answered:
  assumes "stop_pending ph n (iw_inst w)" and "(if ph = Grace then 2 else 1) \<le> count_list es IStopTimer"
  shows "stop_answered n (iw_inst (run (inst_step d sid) w es))"
  using assms
proof (induction es arbitrary: w ph)
  case (Cons e es)
  from step_stop [OF Cons.prems(1), of d sid e] show ?case
  proof
    assume "stop_answered n (iw_inst (inst_step d sid w e))"
    then show ?thesis by (simp add: run_answers)
  next
    assume p: "stop_pending (if e = IStopTimer then Escalated else ph) n (iw_inst (inst_step d sid w e)) \<and>
      (e = IStopTimer \<longrightarrow> ph = Grace)"
    show ?thesis
      using Cons.IH [OF conjunct1 [OF p]] Cons.prems(2) p by (cases "e = IStopTimer") (auto split: if_splits)
  qed
qed (simp split: if_splits)

text \<open>
  C14: A call of \<open>stop\<close> never hangs: once its timer went off twice (the grace period and the
  pause after the kill), it was answered, whatever else happened in between and whether or not
  the process ever ended.
\<close>

theorem stop_answers:
  assumes "is_running (iw_inst w)" and "2 \<le> count_list es IStopTimer"
  shows "length (in_answers (iw_inst w)) < length (in_answers (iw_inst (run (inst_step d sid) w (IStop # es))))"
proof -
  let ?n = "length (in_answers (iw_inst w))"
  obtain ph where "stop_pending ph ?n (iw_inst (inst_step d sid w IStop))"
    using assms(1) by (cases "in_stop (iw_inst w)") (auto simp: on_inst_def inst_stop_def stop_pending_def)
  then have "stop_answered ?n (iw_inst (run (inst_step d sid) (inst_step d sid w IStop) es))"
    by (rule pending_answered) (use assms(2) in simp)
  then show ?thesis by (simp add: stop_answered_def)
qed

section \<open>Launches and restores\<close>

definition idle_inst :: "inst \<Rightarrow> bool" where
  "idle_inst x \<longleftrightarrow> in_alive x = [] \<and> in_launches x = [] \<and> in_adopting x = []"

lemma idle_not_running: "idle_inst x \<Longrightarrow> \<not> is_running x"
  by (simp add: idle_inst_def is_running_def split: option.splits)

text \<open>
  C12: As long as things happen in order (one launch at a time, output only from the running
  process, containers adopted before anything is restored), a backup is never restored into
  the folder of a server that runs or is being launched: whoever comes first keeps the other
  out, through the lock one way and through the status of the server the other way.
\<close>

theorem restore_excludes_processes:
  assumes "idle_inst (iw_inst w)"
    and "v = run (\<lambda>w e. if orderly e sid w then inst_step d sid w e else w) w es"
    and "iw_holder sid v = Some LockRestore"
  shows "in_alive (iw_inst v) = [] \<and> in_launches (iw_inst v) = [] \<and> in_adopting (iw_inst v) = []"
proof -
  have "restore_inv sid w"
    using assms(1) one_processI [of "iw_inst w"] by (simp add: restore_inv_def apart_def idle_inst_def)
  then have "restore_inv sid v" unfolding assms(2) by (rule restorem.run_inv)
  then show ?thesis using assms(3) by (simp add: restore_inv_def apart_def in_flight_def)
qed

lemma restore_begins:
  assumes "require_completed (iw_backups w) b = Inr bk" and "b_server bk = sid"
    and "in_status (iw_inst w) \<in> {Some SStopped, Some SCrashed}" and "iw_holder sid w = None"
  shows "is_ok (fst (iw_restore sid b w)) \<and> iw_holder sid (snd (iw_restore sid b w)) = Some LockRestore \<and>
    iw_inst (snd (iw_restore sid b w)) = iw_inst w"
proof -
  obtain st where "iw_status sid w sid = Some st" "st \<in> {''stopped'', ''crashed''}"
    using assms(3) by (auto simp: iw_status_def)
  then show ?thesis
    using assms(1,2,4) acquire_holder [of "iw_locks w" sid LockRestore sid]
    by (auto simp: iw_restore_def backup_restore_begin_def iw_holder_def lock_holder_def lock_acquire_def)
qed

lemma start_idle:
  assumes "\<not> is_running x" and "h \<noteq> Some LockRestore"
  shows "snd (inst_start h x) = (let y = update_status SStarting (x\<lparr>in_attempts := 0, in_exit_requested := False\<rparr>) in
    y\<lparr>in_next := in_next y + 1,
      in_launches := in_launches y @ [\<lparr>la_id = in_next y, la_origin = Manual, la_phase = Preparing\<rparr>]\<rparr>)"
  using assms is_running_cong [of "x\<lparr>in_attempts := 0\<rparr>" x] by (simp add: inst_start_def launch_begin_def Let_def)

text \<open>
  The flaw of an unguarded launch: two starts that overlap both get past the check that the
  server is not running, because it counts as running only when its command was prepared.  Two
  processes then run in one folder, the instance knows only the second, and when that one ends
  the server counts as stopped and a restore begins while the first one still runs.
\<close>

theorem overlapping_starts:
  assumes "idle_inst (iw_inst w)" and "in_status (iw_inst w) = Some SStopped" and "iw_holder sid w = None"
    and "n = in_next (iw_inst w)" and "require_completed (iw_backups w) b = Inr bk" and "b_server bk = sid"
  shows "let v = run (inst_step d sid) w [IStart, IStart, IReady n, IReady (n + 1), IStarted n, IStarted (n + 1)];
             u = run (inst_step d sid) v [IExit (n + 3) (Some 0) None, IRestore b]
         in in_alive (iw_inst v) = [n + 3, n + 2] \<and> in_current (iw_inst v) = Some (n + 3) \<and>
            iw_holder sid u = Some LockRestore \<and> in_alive (iw_inst u) = [n + 2]"
proof -
  let ?s = "inst_step d sid"
  let ?v = "run ?s w [IStart, IStart, IReady n, IReady (n + 1), IStarted n, IStarted (n + 1)]"
  let ?x = "iw_inst w"
  let ?w2 = "run ?s w [IStart, IStart]"
  have nr: "\<not> is_running ?x" using assms(1) by (rule idle_not_running)
  have l2: "in_launches (iw_inst ?w2) =
      [\<lparr>la_id = n, la_origin = Manual, la_phase = Preparing\<rparr>, \<lparr>la_id = n + 1, la_origin = Manual, la_phase = Preparing\<rparr>]"
    and a2: "in_alive (iw_inst ?w2) = []" "in_next (iw_inst ?w2) = n + 2" "in_status (iw_inst ?w2) = Some SStarting"
    and b2: "iw_locks ?w2 = iw_locks w" "iw_backups ?w2 = iw_backups w"
    using assms(1-4) nr
    by (simp_all add: on_inst_def iw_holder_def start_idle Let_def is_running_def idle_inst_def split: option.splits)
  have v: "?v = run ?s ?w2 [IReady n, IReady (n + 1), IStarted n, IStarted (n + 1)]" by simp
  have alive: "in_alive (iw_inst ?v) = [n + 3, n + 2]" and cur: "in_current (iw_inst ?v) = Some (n + 3)"
    and st: "in_status (iw_inst ?v) = Some SStarting" and lk: "iw_locks ?v = iw_locks w" "iw_backups ?v = iw_backups w"
    unfolding v using l2 a2 b2 by (simp_all add: on_inst_def launch_ready_def launch_started_def)
  let ?u = "?s ?v (IExit (n + 3) (Some 0) None)"
  have u: "in_alive (iw_inst ?u) = [n + 2]" "in_status (iw_inst ?u) = Some SStopped" "iw_locks ?u = iw_locks w" "iw_backups ?u = iw_backups w"
    using alive st lk by (simp_all add: on_inst_def process_exit_def on_close_def Let_def exit_crashed_def)
  have "iw_holder sid (?s ?u (IRestore b)) = Some LockRestore \<and> iw_inst (?s ?u (IRestore b)) = iw_inst ?u"
    using restore_begins [of ?u b bk sid] u assms(3,5,6) by (simp add: iw_holder_def)
  with alive cur u show ?thesis by (simp add: Let_def)
qed

text \<open>
  The flaw of a start that fails: the status was set to starting before the command was
  prepared, and only the crash restart takes it back.  After a failed start by hand the server
  says starting although nothing runs: stopping, killing, waiting and restarting change
  nothing, and no backup can be restored.
\<close>

theorem failed_start_stays_starting:
  assumes "idle_inst (iw_inst w)" and "in_status (iw_inst w) \<noteq> None" and "iw_holder sid w \<noteq> Some LockRestore"
    and "in_stop (iw_inst w) = None"
    and "v = run (inst_step d sid) w [IStart, ILaunchFail (in_next (iw_inst w))]"
    and "set es \<subseteq> {IStop, IKill, IRestart, IShutdown, IDispose, IStopTimer, ICrashTimer} \<union> range IRestore"
  shows "let u = run (inst_step d sid) v es in
    idle_inst (iw_inst u) \<and> in_status (iw_inst u) = Some SStarting \<and>
    (require_completed (iw_backups u) b = Inr bk \<longrightarrow> b_server bk = sid \<longrightarrow> \<not> is_ok (fst (iw_restore sid b u)))"
proof -
  define stuck where "stuck x \<longleftrightarrow> idle_inst x \<and> in_status x = Some SStarting \<and> in_stop x = None" for x
  have "stuck (iw_inst v)"
    using assms(1-4) idle_not_running [OF assms(1)] unfolding assms(5) stuck_def
    by (auto simp: on_inst_def start_idle Let_def launch_failed_def idle_inst_def)
  moreover have step: "stuck (iw_inst (inst_step d sid u e))"
    if "stuck (iw_inst u)" "e \<in> {IStop, IKill, IRestart, IShutdown, IDispose, IStopTimer, ICrashTimer} \<union> range IRestore" for u e
  proof -
    have "\<not> is_running (iw_inst u)" using that(1) idle_not_running by (simp add: stuck_def)
    moreover have "\<not> is_running ((iw_inst u)\<lparr>in_shutting := True\<rparr>)"
      using calculation is_running_cong [of "(iw_inst u)\<lparr>in_shutting := True\<rparr>" "iw_inst u"] by simp
    ultimately show ?thesis using that
      by (auto simp: stuck_def on_inst_def inst_stop_def inst_kill_def inst_restart_def stop_for_shutdown_def
          inst_dispose_def stop_timer_def crash_timer_def idle_inst_def Let_def iw_restore_def split: prod.splits)
  qed
  ultimately have u: "stuck (iw_inst (run (inst_step d sid) v es))"
    using assms(6)
  proof (induction es arbitrary: v)
    case (Cons e es)
    then show ?case using step [of v e] by simp
  qed simp
  have "\<not> is_ok (fst (iw_restore sid b u))" if "stuck (iw_inst u)" "require_completed (iw_backups u) b = Inr bk"
    "b_server bk = sid" for u
    using that by (simp add: iw_restore_def backup_restore_begin_def iw_status_def stuck_def)
  with u show ?thesis by (simp add: Let_def stuck_def)
qed

text \<open>
  The flaw of a restore at boot: a server whose container is still being adopted counts as
  stopped, and a restore, unlike a start, does not wait for that, so it begins while the
  container runs.
\<close>

theorem restore_during_adoption:
  assumes "idle_inst (iw_inst w)" and "in_status (iw_inst w) = Some SStopped" and "iw_holder sid w = None"
    and "require_completed (iw_backups w) b = Inr bk" and "b_server bk = sid"
  shows "let r = in_next (iw_inst w); u = run (inst_step d sid) w [IAdopt, IRestore b, IAdoptDone r h]
    in iw_holder sid u = Some LockRestore \<and> in_alive (iw_inst u) = [r] \<and> is_running (iw_inst u)"
proof -
  let ?s = "inst_step d sid" and ?x = "iw_inst w"
  let ?r = "in_next ?x" and ?v = "inst_step d sid w IAdopt"
  have nr: "\<not> is_running ?x" using assms(1) by (rule idle_not_running)
  have v: "in_adopting (iw_inst ?v) = [?r]" "in_alive (iw_inst ?v) = []" "in_current (iw_inst ?v) = Some ?r"
    "in_status (iw_inst ?v) = Some SStopped" "iw_locks ?v = iw_locks w" "iw_backups ?v = iw_backups w"
    using assms(1,2) nr by (simp_all add: on_inst_def adopt_begin_def idle_inst_def)
  have "iw_holder sid (?s ?v (IRestore b)) = Some LockRestore \<and> iw_inst (?s ?v (IRestore b)) = iw_inst ?v"
    using restore_begins [of ?v b bk sid] v assms(3-5) by (simp add: iw_holder_def)
  then show ?thesis using v
    by (simp add: Let_def on_inst_def adopt_done_def is_running_def iw_holder_def)
qed

section \<open>Example data\<close>

definition iex_backup :: backup where
  "iex_backup = \<lparr>b_id = ''b'', b_name = ''b'', b_description = None, b_type = BFull,
     b_status = BCompleted, b_created = 0, b_updated = 0, b_file_count = 1, b_total_size = 1,
     b_server = ''s'', b_owner = None, b_format = FZip, b_ratio = None, b_include = [], b_exclude = [],
     b_pinned = False, b_checksum = None\<rparr>"

definition iex_world :: iworld where
  "iex_world = \<lparr>iw_inst = \<lparr>in_status = Some SStopped, in_setting = Some \<lparr>rs_on = True, rs_attempts = 1\<rparr>,
       in_current = None, in_alive = [], in_next = 0, in_attempts = 0, in_shutting = False,
       in_exit_requested = False, in_disposed = False, in_stop = None, in_waiters = [], in_answers = [],
       in_launches = [], in_adopting = [], in_crash_timers = 0, in_restart_timers = 0, in_log = []\<rparr>,
     iw_locks = locks_init,
     iw_backups = \<lparr>bw_backups = [iex_backup], bw_copies = [], bw_leases = leases_init, bw_archives = [],
       bw_objects = [], bw_uploads = [], bw_removing = [], bw_retaining = [], bw_storages = [],
       bw_policies = [], bw_defaults = None\<rparr>\<rparr>"

definition iex_detection :: detection where
  "iex_detection = \<lparr>dt_starting = [], dt_running = [\<lambda>l. l = ''Done''], dt_stopping = []\<rparr>"

text \<open>The server of the example at work.\<close>

definition iex_up :: iworld where
  "iex_up = run (inst_step iex_detection ''s'') iex_world [IStart, IReady 0, IStarted 0, ILine ''Done'']"

lemma iex_up_facts:
  "is_running (iw_inst iex_up)" "in_stop (iw_inst iex_up) = None" "in_alive (iw_inst iex_up) = [1]"
  "in_setting (iw_inst iex_up) = Some \<lparr>rs_on = True, rs_attempts = 1\<rparr>" "in_crash_timers (iw_inst iex_up) = 0"
  "in_attempts (iw_inst iex_up) = 0"
  by code_simp+

lemma iex_facts:
  "idle_inst (iw_inst iex_world)" "in_status (iw_inst iex_world) = Some SStopped"
  "iw_holder ''s'' iex_world = None" "in_next (iw_inst iex_world) = 0" "in_stop (iw_inst iex_world) = None"
  "require_completed (iw_backups iex_world) ''b'' = Inr iex_backup" "b_server iex_backup = ''s''"
  by (simp_all add: iex_world_def idle_inst_def iw_holder_def lock_holder_def locks_init_def iex_backup_def
      require_completed_def require_backup_def brepo_find_def)


theorem deliberate_end_no_restart_witness:
  "in_crash_timers (iw_inst (run (inst_step iex_detection ''s'') iex_up [IKill, IExit 1 (Some 137) None])) = 0"
proof -
  have "\<forall>x \<in> set [IExit 1 (Some 137) None]. launches_nothing x" by (simp add: launches_nothing_def)
  from deliberate_end_no_restart [OF iex_up_facts(1,2) _ this, of IKill iex_detection "''s''"]
  show ?thesis by (simp add: iex_up_facts(5))
qed

theorem stop_answers_witness:
  "0 < length (in_answers (iw_inst (run (inst_step iex_detection ''s'') iex_up [IStop, IStopTimer, IStopTimer])))"
proof -
  have "2 \<le> count_list [IStopTimer, IStopTimer] IStopTimer" by simp
  from stop_answers [OF iex_up_facts(1) this, of iex_detection "''s''"] show ?thesis by (rule le_less_trans [OF le0])
qed

theorem restore_excludes_processes_witness:
  "let v = run (\<lambda>w e. if orderly e ''s'' w then inst_step iex_detection ''s'' w e else w) iex_world
             [IRestore ''b'', IStart]
   in iw_holder ''s'' v = Some LockRestore \<and> in_alive (iw_inst v) = []"
proof -
  let ?v = "run (\<lambda>w e. if orderly e ''s'' w then inst_step iex_detection ''s'' w e else w) iex_world
             [IRestore ''b'', IStart]"
  have h: "iw_holder ''s'' ?v = Some LockRestore" by code_simp
  from restore_excludes_processes [OF iex_facts(1) refl h] h show ?thesis by (simp add: Let_def)
qed

theorem overlapping_starts_witness:
  "let v = run (inst_step iex_detection ''s'') iex_world
             [IStart, IStart, IReady 0, IReady 1, IStarted 0, IStarted 1, IExit 3 (Some 0) None, IRestore ''b'']
   in iw_holder ''s'' v = Some LockRestore \<and> in_alive (iw_inst v) = [2]"
  using overlapping_starts [OF iex_facts(1-3) iex_facts(4) [symmetric] iex_facts(6,7), of iex_detection]
  by (simp add: Let_def)

theorem failed_start_stays_starting_witness:
  "let u = run (inst_step iex_detection ''s'') iex_world [IStart, ILaunchFail 0, IStop, IStopTimer]
   in in_status (iw_inst u) = Some SStarting \<and> idle_inst (iw_inst u)"
proof -
  have "in_status (iw_inst iex_world) \<noteq> None" "iw_holder ''s'' iex_world \<noteq> Some LockRestore"
    by (simp_all add: iex_facts)
  from failed_start_stays_starting [OF iex_facts(1) this iex_facts(5) refl, of "[IStop, IStopTimer]" iex_detection]
  show ?thesis by (simp add: Let_def iex_facts(4))
qed

theorem restore_during_adoption_witness:
  "let u = run (inst_step iex_detection ''s'') iex_world [IAdopt, IRestore ''b'', IAdoptDone 0 []]
   in iw_holder ''s'' u = Some LockRestore \<and> is_running (iw_inst u)"
  using restore_during_adoption [OF iex_facts(1-3,6,7), of iex_detection "[]"]
  by (simp add: Let_def iex_facts(4))

end
