(* ===== verification/Tasks.thy ===== *)
theory Tasks
  imports Access
begin

text \<open>
  Background tasks (\<open>tasks/tasks.service.ts\<close>, \<open>tasks/tasks.controller.ts\<close>) and the stages that
  roll up into the progress of one (\<open>tasks/task-stages.ts\<close>).  Callers that wait for a task
  (\<open>waitFor\<close>) are numbered in the order they began to wait; watchers are numbered too.  What a
  task carries beside its state (meta data but for the server, the result, the step) is left out.
\<close>

section \<open>Tasks\<close>

datatype task_status = TPending | TRunning | TSuccess | TFailed | TCancelled

datatype stage_status = StPending | StRunning | StDone | StFailed

record stage =
  sg_key :: string
  sg_status :: stage_status
  sg_progress :: "int option"

record task =
  tk_id :: string
  tk_type :: string
  tk_status :: task_status
  tk_progress :: int
  tk_message :: "string option"
  tk_error :: "(string \<times> string) option"
  tk_server :: "string option"
  tk_owner :: "string option"
  tk_stages :: "stage list option"
  tk_created :: int
  tk_updated :: int

text \<open>\<open>Partial<ITask>\<close>: \<open>None\<close> for a field that is not given.\<close>

record itask_patch =
  tp_status :: "task_status option"
  tp_progress :: "int option"
  tp_message :: "string option"
  tp_error :: "(string \<times> string) option"
  tp_stages :: "stage list option"

definition no_itask_patch :: itask_patch where
  "no_itask_patch = \<lparr>tp_status = None, tp_progress = None, tp_message = None, tp_error = None, tp_stages = None\<rparr>"

datatype task_event =
    EvUpdate task | EvDone task | EvFailed task | EvFinished task
  | EvCreated string | EvCompleted string bool

record tasks =
  ts_tasks :: "(string, task) jsmap"
  ts_waiters :: "(string, nat list) jsmap"
  ts_watchers :: "(string, nat list) jsmap"
  ts_next :: nat
  ts_resolved :: "(nat \<times> task) list"
  ts_called :: "(nat \<times> task) list"
  ts_events :: "task_event list"

definition tasks_init :: tasks where
  "tasks_init = \<lparr>ts_tasks = [], ts_waiters = [], ts_watchers = [], ts_next = 0, ts_resolved = [],
     ts_called = [], ts_events = []\<rparr>"

definition finished :: "task_status \<Rightarrow> bool" where
  "finished s \<longleftrightarrow> s \<in> set [TSuccess, TFailed, TCancelled]"

definition task_ttl :: int where "task_ttl = 1000 * 60 * 10"

definition create_task :: "string \<Rightarrow> string option \<Rightarrow> string option \<Rightarrow> string \<Rightarrow> int \<Rightarrow> tasks \<Rightarrow> string \<times> tasks" where
  "create_task ty server owner i now w =
     (let t = \<lparr>tk_id = i, tk_type = ty, tk_status = TPending, tk_progress = 0, tk_message = None, tk_error = None,
               tk_server = server, tk_owner = owner, tk_stages = None, tk_created = now, tk_updated = now\<rparr>
      in (i, w\<lparr>ts_tasks := jset (ts_tasks w) i t, ts_events := ts_events w @ [EvUpdate t, EvCreated i]\<rparr>))"

definition patch_itask :: "itask_patch \<Rightarrow> int \<Rightarrow> task \<Rightarrow> task" where
  "patch_itask p now t =
     t\<lparr>tk_status := (case tp_status p of None \<Rightarrow> tk_status t | Some s \<Rightarrow> s),
       tk_progress := (case tp_progress p of None \<Rightarrow> tk_progress t | Some x \<Rightarrow> x),
       tk_message := (case tp_message p of None \<Rightarrow> tk_message t | Some m \<Rightarrow> Some m),
       tk_error := (case tp_error p of None \<Rightarrow> tk_error t | Some e \<Rightarrow> Some e),
       tk_stages := (case tp_stages p of None \<Rightarrow> tk_stages t | Some g \<Rightarrow> Some g),
       tk_updated := now\<rparr>"

definition resolve_waiters :: "task \<Rightarrow> tasks \<Rightarrow> tasks" where
  "resolve_waiters t w =
     w\<lparr>ts_waiters := jdel (ts_waiters w) (tk_id t),
       ts_resolved := ts_resolved w @
         map (\<lambda>n. (n, t)) (case jget (ts_waiters w) (tk_id t) of None \<Rightarrow> [] | Some ns \<Rightarrow> ns)\<rparr>"

definition final_events :: "task \<Rightarrow> task_event list" where
  "final_events t = (case tk_status t of
      TSuccess \<Rightarrow> [EvDone t, EvFinished t, EvCompleted (tk_id t) True]
    | TFailed \<Rightarrow> [EvFailed t, EvFinished t, EvCompleted (tk_id t) False]
    | TCancelled \<Rightarrow> [EvFinished t]
    | _ \<Rightarrow> [])"

definition update_task :: "string \<Rightarrow> itask_patch \<Rightarrow> int \<Rightarrow> tasks \<Rightarrow> task option \<times> tasks" where
  "update_task i p now w =
     (case jget (ts_tasks w) i of
        None \<Rightarrow> (None, w)
      | Some t \<Rightarrow>
          (let u = patch_itask p now t;
               w1 = w\<lparr>ts_tasks := jset (ts_tasks w) i u, ts_events := ts_events w @ [EvUpdate u],
                      ts_called := ts_called w @
                        map (\<lambda>n. (n, u)) (case jget (ts_watchers w) i of None \<Rightarrow> [] | Some ns \<Rightarrow> ns)\<rparr>;
               w2 = (if finished (tk_status u) then resolve_waiters u w1 else w1)
           in (Some u, w2\<lparr>ts_events := ts_events w2 @ final_events u\<rparr>)))"

text \<open>\<open>waitFor\<close>: rejected, answered at once, or waiting as number \<open>ts_next\<close>.\<close>

definition wait_for :: "string \<Rightarrow> tasks \<Rightarrow> nat result \<times> tasks" where
  "wait_for i w =
     (case jget (ts_tasks w) i of
        None \<Rightarrow> (fail Internal (''Task '' @ i @ '' not found''), w)
      | Some t \<Rightarrow>
          (let n = ts_next w; w1 = w\<lparr>ts_next := Suc n\<rparr> in
           if finished (tk_status t) then (Inr n, w1\<lparr>ts_resolved := ts_resolved w1 @ [(n, t)]\<rparr>)
           else (Inr n, w1\<lparr>ts_waiters :=
                   jset (ts_waiters w1) i ((case jget (ts_waiters w1) i of None \<Rightarrow> [] | Some ns \<Rightarrow> ns) @ [n])\<rparr>)))"

definition watch :: "string \<Rightarrow> nat \<Rightarrow> tasks \<Rightarrow> tasks" where
  "watch i n w =
     (let ns = (case jget (ts_watchers w) i of None \<Rightarrow> [] | Some ns \<Rightarrow> ns)
      in w\<lparr>ts_watchers := jset (ts_watchers w) i (if n \<in> set ns then ns else ns @ [n])\<rparr>)"

definition unwatch :: "string \<Rightarrow> nat \<Rightarrow> tasks \<Rightarrow> tasks" where
  "unwatch i n w =
     (case jget (ts_watchers w) i of
        None \<Rightarrow> w
      | Some ns \<Rightarrow>
          (let left = filter (\<lambda>x. x \<noteq> n) ns
           in w\<lparr>ts_watchers := (if left = [] then jdel (ts_watchers w) i else jset (ts_watchers w) i left)\<rparr>))"

definition task_remove :: "string \<Rightarrow> tasks \<Rightarrow> bool \<times> tasks" where
  "task_remove i w = (jhas (ts_tasks w) i, w\<lparr>ts_tasks := jdel (ts_tasks w) i\<rparr>)"

definition cleanup_completed :: "int \<Rightarrow> tasks \<Rightarrow> tasks" where
  "cleanup_completed now w =
     w\<lparr>ts_tasks := filter (\<lambda>(i, t). \<not> (finished (tk_status t) \<and> now - tk_updated t > task_ttl)) (ts_tasks w)\<rparr>"

section \<open>Running a task\<close>

definition run_task_begin :: "string \<Rightarrow> string option \<Rightarrow> string \<Rightarrow> string \<Rightarrow> int \<Rightarrow> tasks \<Rightarrow> task option \<times> tasks" where
  "run_task_begin ty server owner i now w =
     (let w1 = snd (create_task ty server (Some owner) i now w);
          w2 = snd (update_task i (no_itask_patch\<lparr>tp_status := Some TRunning\<rparr>) now w1)
      in (jget (ts_tasks w2) i, w2))"

text \<open>A domain error keeps its code, everything else gets \<open>TASK_ERROR\<close>.\<close>

definition run_task_end :: "string \<Rightarrow> (string option \<times> string) option \<Rightarrow> int \<Rightarrow> tasks \<Rightarrow> tasks" where
  "run_task_end i err now w =
     snd (update_task i
       (case err of
          None \<Rightarrow> no_itask_patch\<lparr>tp_status := Some TSuccess, tp_progress := Some 100, tp_message := Some ''Completed''\<rparr>
        | Some (code, msg) \<Rightarrow> no_itask_patch\<lparr>tp_status := Some TFailed,
            tp_error := Some (case code of None \<Rightarrow> ''TASK_ERROR'' | Some c \<Rightarrow> c, msg)\<rparr>) now w)"

text \<open>What a user gets to see of the tasks.\<close>

definition task_visible :: "user \<Rightarrow> task \<Rightarrow> bool" where
  "task_visible u t = (case tk_server t of None \<Rightarrow> True | Some sid \<Rightarrow> sid = [] \<or> can_see_server (Some u) sid)"

definition tasks_for :: "user \<Rightarrow> tasks \<Rightarrow> task list" where
  "tasks_for u w = filter (task_visible u) (map snd (ts_tasks w))"

definition task_for :: "user \<Rightarrow> string \<Rightarrow> tasks \<Rightarrow> task option" where
  "task_for u i w = (case jget (ts_tasks w) i of None \<Rightarrow> None | Some t \<Rightarrow> if task_visible u t then Some t else None)"

section \<open>Stages\<close>

record tracker =
  tr_task_id :: string
  tr_stages :: "stage list"
  tr_weights :: "(string, int) jsmap"
  tr_emitted :: int

definition emit_every :: int where "emit_every = 250"

definition weight_of :: "(string, int) jsmap \<Rightarrow> string \<Rightarrow> int" where
  "weight_of ws k = (case jget ws k of None \<Rightarrow> 1 | Some x \<Rightarrow> x)"

text \<open>
  The share reached, in hundredths: \<open>Math.round\<close> of \<open>reached / total * 100\<close> is the quotient of
  whole numbers below, rounded half up.
\<close>

definition stage_reached :: "(string, int) jsmap \<Rightarrow> stage \<Rightarrow> int" where
  "stage_reached ws g =
     (case sg_status g of
        StDone \<Rightarrow> weight_of ws (sg_key g) * 100
      | StRunning \<Rightarrow> weight_of ws (sg_key g) * (case sg_progress g of None \<Rightarrow> 0 | Some p \<Rightarrow> p)
      | _ \<Rightarrow> 0)"

definition rolled_up :: "(string, int) jsmap \<Rightarrow> stage list \<Rightarrow> int" where
  "rolled_up ws gs =
     (let total = sum_list (map (\<lambda>g. weight_of ws (sg_key g)) gs);
          reached = sum_list (map (stage_reached ws) gs)
      in if total \<noteq> 0 then (2 * reached + total) div (2 * total) else 0)"

definition tracker_emit :: "int \<Rightarrow> tracker \<times> tasks \<Rightarrow> tracker \<times> tasks" where
  "tracker_emit now = (\<lambda>(r, w).
     (r\<lparr>tr_emitted := now\<rparr>,
      snd (update_task (tr_task_id r) (no_itask_patch\<lparr>tp_status := Some TRunning,
             tp_progress := Some (rolled_up (tr_weights r) (tr_stages r)), tp_stages := Some (tr_stages r)\<rparr>) now w)))"

definition tracker_new :: "string \<Rightarrow> (string \<times> int option) list \<Rightarrow> int \<Rightarrow> tasks \<Rightarrow> tracker \<times> tasks" where
  "tracker_new i specs now w =
     tracker_emit now (\<lparr>tr_task_id = i,
         tr_stages = map (\<lambda>(k, wt). \<lparr>sg_key = k, sg_status = StPending, sg_progress = None\<rparr>) specs,
         tr_weights = fold (\<lambda>(k, wt) m. jset m k (case wt of None \<Rightarrow> 1 | Some x \<Rightarrow> x)) specs [],
         tr_emitted = 0\<rparr>, w)"

text \<open>Only the first stage with the key is changed.\<close>

fun patch_stage :: "string \<Rightarrow> (stage \<Rightarrow> stage) \<Rightarrow> stage list \<Rightarrow> stage list" where
  "patch_stage k f [] = []"
| "patch_stage k f (g # gs) = (if sg_key g = k then f g # gs else g # patch_stage k f gs)"

definition stage_start :: "string \<Rightarrow> int \<Rightarrow> tracker \<times> tasks \<Rightarrow> tracker \<times> tasks" where
  "stage_start k now = (\<lambda>(r, w). tracker_emit now
     (r\<lparr>tr_stages := patch_stage k (\<lambda>g. g\<lparr>sg_status := StRunning, sg_progress := Some 0\<rparr>) (tr_stages r)\<rparr>, w))"

definition stage_update :: "string \<Rightarrow> int option \<Rightarrow> int \<Rightarrow> tracker \<times> tasks \<Rightarrow> tracker \<times> tasks" where
  "stage_update k progress now = (\<lambda>(r, w).
     let r1 = r\<lparr>tr_stages := patch_stage k (\<lambda>g. case progress of None \<Rightarrow> g | Some p \<Rightarrow> g\<lparr>sg_progress := Some p\<rparr>) (tr_stages r)\<rparr>
     in if now - tr_emitted r1 \<ge> emit_every then tracker_emit now (r1, w) else (r1, w))"

definition stage_done :: "string \<Rightarrow> int \<Rightarrow> tracker \<times> tasks \<Rightarrow> tracker \<times> tasks" where
  "stage_done k now = (\<lambda>(r, w). tracker_emit now
     (r\<lparr>tr_stages := patch_stage k (\<lambda>g. g\<lparr>sg_status := StDone, sg_progress := Some 100\<rparr>) (tr_stages r)\<rparr>, w))"

definition fail_running :: "int \<Rightarrow> tracker \<times> tasks \<Rightarrow> tracker \<times> tasks" where
  "fail_running now = (\<lambda>(r, w). tracker_emit now
     (r\<lparr>tr_stages := map (\<lambda>g. if sg_status g = StRunning then g\<lparr>sg_status := StFailed\<rparr> else g) (tr_stages r)\<rparr>, w))"

end
