(* ===== verification/Task_Properties.thy ===== *)
theory Task_Properties
  imports Tasks
begin

text \<open>The properties of background tasks and their stages.\<close>

section \<open>Waiting callers\<close>

datatype task_op =
    KCreate string "string option" "string option" string int
  | KUpdate string itask_patch int | KWait string | KRemove string | KCleanup int
  | KWatch string nat | KUnwatch string nat

fun task_step :: "tasks \<Rightarrow> task_op \<Rightarrow> tasks" where
  "task_step w (KCreate ty s owner i now) = snd (create_task ty s owner i now w)"
| "task_step w (KUpdate i p now) = snd (update_task i p now w)"
| "task_step w (KWait i) = snd (wait_for i w)"
| "task_step w (KRemove i) = snd (task_remove i w)"
| "task_step w (KCleanup now) = cleanup_completed now w"
| "task_step w (KWatch i n) = watch i n w"
| "task_step w (KUnwatch i n) = unwatch i n w"

definition waiting :: "tasks \<Rightarrow> nat list" where
  "waiting w = concat (map snd (ts_waiters w))"

definition unfinished_or_gone :: "tasks \<Rightarrow> string \<Rightarrow> bool" where
  "unfinished_or_gone w i = (case jget (ts_tasks w) i of None \<Rightarrow> True | Some t \<Rightarrow> \<not> finished (tk_status t))"

definition tasks_inv :: "tasks \<Rightarrow> bool" where
  "tasks_inv w \<longleftrightarrow> jsmap_ok (ts_waiters w) \<and> jsmap_ok (ts_tasks w) \<and> (\<forall>i t. jget (ts_tasks w) i = Some t \<longrightarrow> tk_id t = i) \<and>
     (\<forall>n. count_list (waiting w) n + count_list (map fst (ts_resolved w)) n = (if n < ts_next w then 1 else 0)) \<and>
     (\<forall>(n, t) \<in> set (ts_resolved w). finished (tk_status t)) \<and>
     (\<forall>i \<in> fst ` set (ts_waiters w). unfinished_or_gone w i)"

lemma count_del:
  fixes m :: "(string, nat list) jsmap"
  assumes "jsmap_ok m"
  shows "count_list (concat (map snd (jdel m i))) n +
      count_list (case jget m i of None \<Rightarrow> [] | Some ns \<Rightarrow> ns) n = count_list (concat (map snd m)) n"
  using assms
proof (induction m)
  case (Cons p m)
  obtain j ns where p: "p = (j, ns)" by (cases p)
  have ok: "jsmap_ok m" and j: "jget m j = None"
    using Cons.prems p by (auto simp: map_of_eq_None_iff jsmap_ok_def)
  show ?case
  proof (cases "j = i")
    case True
    then have "jdel m i = m" using j by (simp add: AList.delete_eq filter_id_conv map_of_eq_None_iff) force
    then show ?thesis using True p by simp
  next
    case False
    then show ?thesis using Cons.IH [OF ok] p by (simp add: AList.delete_eq)
  qed
qed simp

lemma count_set:
  fixes m :: "(string, nat list) jsmap"
  assumes "jsmap_ok m"
  shows "count_list (concat (map snd (jset m i ns))) n +
      count_list (case jget m i of None \<Rightarrow> [] | Some ns \<Rightarrow> ns) n = count_list (concat (map snd m)) n + count_list ns n"
  using assms
proof (induction m)
  case (Cons p m)
  obtain j ms where p: "p = (j, ms)" by (cases p)
  have "jsmap_ok m" using Cons.prems p by (simp add: jsmap_ok_def)
  then show ?case using Cons.IH p by (cases "j = i") simp_all
qed simp

lemma inv_create: "tasks_inv w \<Longrightarrow> tasks_inv (snd (create_task ty s owner i now w))"
  by (auto simp: tasks_inv_def create_task_def Let_def waiting_def unfinished_or_gone_def finished_def split: if_splits)

lemma inv_wait: "tasks_inv w \<Longrightarrow> tasks_inv (snd (wait_for i w))"
proof (cases "jget (ts_tasks w) i")
  case None
  assume "tasks_inv w"
  with None show ?thesis by (simp add: wait_for_def)
next
  case (Some t)
  assume inv: "tasks_inv w"
  show ?thesis
  proof (cases "finished (tk_status t)")
    case True
    have "count_list (waiting w) n + (count_list (map fst (ts_resolved w)) n + (if n = ts_next w then 1 else 0)) =
        (if n < Suc (ts_next w) then 1 else 0)" for n
      using inv unfolding tasks_inv_def by (cases "n = ts_next w") (auto simp: less_Suc_eq)
    then show ?thesis using inv Some True
      by (auto simp: tasks_inv_def wait_for_def Let_def waiting_def unfinished_or_gone_def)
  next
    case False
    let ?old = "case jget (ts_waiters w) i of None \<Rightarrow> [] | Some ns \<Rightarrow> ns"
    let ?m = "jset (ts_waiters w) i (?old @ [ts_next w])"
    have "count_list (concat (map snd ?m)) n + count_list (map fst (ts_resolved w)) n =
        (if n < Suc (ts_next w) then 1 else 0)" for n
      using inv count_set [of "ts_waiters w" i "?old @ [ts_next w]" n] unfolding tasks_inv_def waiting_def
      by (cases "n = ts_next w") (auto simp: less_Suc_eq)
    moreover have "fst ` set ?m = insert i (fst ` set (ts_waiters w))" by (simp add: dom_update)
    ultimately show ?thesis using inv Some False
      by (auto simp: tasks_inv_def wait_for_def Let_def waiting_def unfinished_or_gone_def)
  qed
qed

lemma jget_unique_key: "jsmap_ok m \<Longrightarrow> (i, v) \<in> set m \<Longrightarrow> jget m i = Some v"
  by (simp add: jsmap_ok_in_iff)

lemma inv_update:
  assumes "tasks_inv w"
  shows "tasks_inv (snd (update_task i p now w))"
proof (cases "jget (ts_tasks w) i")
  case None
  then show ?thesis using assms by (simp add: update_task_def)
next
  case (Some t)
  let ?u = "patch_itask p now t"
  have u: "tk_id ?u = i" using assms Some by (simp add: tasks_inv_def patch_itask_def)
  have ok: "jsmap_ok (ts_waiters w)" and c: "\<And>n. count_list (waiting w) n + count_list (map fst (ts_resolved w)) n =
      (if n < ts_next w then 1 else 0)" using assms by (simp_all add: tasks_inv_def)
  show ?thesis
  proof (cases "finished (tk_status ?u)")
    case False
    then show ?thesis using assms Some u
      by (auto simp: tasks_inv_def update_task_def Let_def waiting_def unfinished_or_gone_def split: if_splits)
  next
    case True
    let ?ns = "case jget (ts_waiters w) i of None \<Rightarrow> [] | Some ns \<Rightarrow> ns"
    have "count_list (concat (map snd (jdel (ts_waiters w) i))) n +
        (count_list (map fst (ts_resolved w)) n + count_list ?ns n) = (if n < ts_next w then 1 else 0)" for n
      using c [of n] count_del [OF ok, of i n] by (simp add: waiting_def)
    moreover have "map fst (map (\<lambda>n. (n, ?u)) ?ns) = ?ns" by (simp add: comp_def)
    moreover have "fst ` set (jdel (ts_waiters w) i) = fst ` set (ts_waiters w) - {i}" by (auto simp: AList.delete_eq)
    ultimately show ?thesis using assms Some u True
      by (auto simp: tasks_inv_def update_task_def resolve_waiters_def Let_def waiting_def unfinished_or_gone_def
          comp_def split: if_splits)
  qed
qed

lemma inv_remove: "tasks_inv w \<Longrightarrow> tasks_inv (snd (task_remove i w))"
  by (auto simp: tasks_inv_def task_remove_def waiting_def unfinished_or_gone_def split: if_splits)

lemma inv_cleanup:
  assumes "tasks_inv w"
  shows "tasks_inv (cleanup_completed now w)"
proof -
  let ?m = "ts_tasks (cleanup_completed now w)"
  have ok: "jsmap_ok (ts_tasks w)" using assms by (simp add: tasks_inv_def)
  have sub: "jget (ts_tasks w) i = Some t" if "jget ?m i = Some t" for i t
    using map_of_SomeD [OF that] ok by (auto simp: cleanup_completed_def jsmap_ok_in_iff)
  have "jsmap_ok ?m" using ok by (simp add: cleanup_completed_def jsmap_ok_def distinct_map_filter)
  moreover have "unfinished_or_gone (cleanup_completed now w) i" if "unfinished_or_gone w i" for i
    using that sub [of i] by (auto simp: unfinished_or_gone_def split: option.splits)
  ultimately show ?thesis using assms sub
    unfolding tasks_inv_def by (auto simp: cleanup_completed_def waiting_def)
qed

lemma inv_watchers: "tasks_inv (w\<lparr>ts_watchers := x\<rparr>) \<longleftrightarrow> tasks_inv w"
  by (simp add: tasks_inv_def waiting_def unfinished_or_gone_def)

interpretation taskm: machine task_step tasks_inv
proof
  fix w e assume "tasks_inv w"
  then show "tasks_inv (task_step w e)"
  proof (cases e)
    case (KWatch i n)
    then show ?thesis using \<open>tasks_inv w\<close> by (simp add: watch_def Let_def inv_watchers)
  next
    case (KUnwatch i n)
    then show ?thesis using \<open>tasks_inv w\<close>
      by (simp add: unwatch_def Let_def inv_watchers split: option.splits)
  qed (simp_all add: inv_create inv_update inv_wait inv_remove inv_cleanup)
qed

text \<open>
  C40: Whoever waits for a task is answered at most once and never forgotten: at any time every
  caller of \<open>waitFor\<close> either is still waiting, once, or was answered, once, and with a
  task that had finished; and nobody waits for a task that has finished already.
\<close>

theorem waiters_answered_once:
  "let w = run task_step tasks_init ops in
     (\<forall>n. count_list (waiting w) n + count_list (map fst (ts_resolved w)) n = (if n < ts_next w then 1 else 0)) \<and>
     list_all (\<lambda>(n, t). finished (tk_status t)) (ts_resolved w) \<and>
     list_all (\<lambda>(i, ns). case jget (ts_tasks w) i of None \<Rightarrow> True | Some t \<Rightarrow> \<not> finished (tk_status t)) (ts_waiters w)"
proof -
  have "tasks_inv tasks_init" by (simp add: tasks_inv_def tasks_init_def waiting_def)
  then have "tasks_inv (run task_step tasks_init ops)" by (rule taskm.run_inv)
  then show ?thesis by (auto simp: tasks_inv_def unfinished_or_gone_def list_all_iff Let_def)
qed

section \<open>Stages\<close>

datatype stage_op = GStart string | GUpdate string "int option" | GDone string | GFail

fun stage_step :: "tracker \<times> tasks \<Rightarrow> stage_op \<times> int \<Rightarrow> tracker \<times> tasks" where
  "stage_step x (GStart k, now) = stage_start k now x"
| "stage_step x (GUpdate k p, now) = stage_update k p now x"
| "stage_step x (GDone k, now) = stage_done k now x"
| "stage_step x (GFail, now) = fail_running now x"

definition percent :: "int \<Rightarrow> bool" where "percent p \<longleftrightarrow> 0 \<le> p \<and> p \<le> 100"

fun op_in_range :: "stage_op \<times> int \<Rightarrow> bool" where
  "op_in_range (GUpdate k (Some p), now) = percent p"
| "op_in_range _ = True"

definition stage_ok :: "stage \<Rightarrow> bool" where
  "stage_ok g \<longleftrightarrow> (case sg_progress g of None \<Rightarrow> True | Some p \<Rightarrow> percent p)"

definition tracker_inv :: "string \<Rightarrow> tracker \<times> tasks \<Rightarrow> bool" where
  "tracker_inv i = (\<lambda>(r, w). tr_task_id r = i \<and> (\<forall>k. 0 < weight_of (tr_weights r) k) \<and> (\<forall>g \<in> set (tr_stages r). stage_ok g) \<and>
     (\<forall>t. jget (ts_tasks w) i = Some t \<longrightarrow> percent (tk_progress t)))"

lemma rolled_up_percent:
  assumes "\<forall>k. 0 < weight_of ws k" and "\<forall>g \<in> set gs. stage_ok g"
  shows "percent (rolled_up ws gs)"
proof -
  let ?total = "sum_list (map (\<lambda>g. weight_of ws (sg_key g)) gs)" and ?reached = "sum_list (map (stage_reached ws) gs)"
  have one: "0 \<le> stage_reached ws g \<and> stage_reached ws g \<le> weight_of ws (sg_key g) * 100" if "g \<in> set gs" for g
  proof -
    have w: "0 < weight_of ws (sg_key g)" using assms(1) by simp
    have "stage_ok g" using assms(2) that by simp
    then show ?thesis using w
      by (cases "sg_status g"; cases "sg_progress g")
        (simp_all add: stage_reached_def stage_ok_def percent_def)
  qed
  have r0: "0 \<le> ?reached" by (rule sum_list_nonneg) (use one in auto)
  have r1: "?reached \<le> ?total * 100" using one
  proof (induction gs)
    case (Cons g gs)
    have "sum_list (map (stage_reached ws) gs) \<le> sum_list (map (\<lambda>g. weight_of ws (sg_key g)) gs) * 100"
      by (rule Cons.IH) (use Cons.prems in auto)
    moreover have "stage_reached ws g \<le> weight_of ws (sg_key g) * 100" using Cons.prems by auto
    ultimately show ?case by (simp add: distrib_right)
  qed simp
  show ?thesis
  proof (cases "?total = 0")
    case False
    then have t: "0 < ?total" using r0 r1 by linarith
    have "(2 * ?reached + ?total) div (2 * ?total) \<le> (200 * ?total + ?total) div (2 * ?total)"
      by (rule zdiv_mono1) (use t r1 in auto)
    also have "\<dots> \<le> 100"
    proof -
      have "(200 * ?total + ?total) div (2 * ?total) < 101" using t by (simp add: div_less_iff_less_mult)
      then show ?thesis by simp
    qed
    finally have "(2 * ?reached + ?total) div (2 * ?total) \<le> 100" .
    moreover have "0 \<le> (2 * ?reached + ?total) div (2 * ?total)"
      using t r0 by (simp add: pos_imp_zdiv_nonneg_iff)
    ultimately show ?thesis using False by (simp add: rolled_up_def Let_def percent_def)
  qed (simp add: rolled_up_def percent_def)
qed

lemma update_progress:
  "jget (ts_tasks (snd (update_task i p now w))) i =
     map_option (patch_itask p now) (jget (ts_tasks w) i)"
  by (simp add: update_task_def resolve_waiters_def Let_def split: option.splits)

lemma tracker_inv_emit:
  assumes "tr_task_id r = i" and "\<forall>k. 0 < weight_of (tr_weights r) k" and "\<forall>g \<in> set (tr_stages r). stage_ok g"
  shows "tracker_inv i (tracker_emit now (r, w))"
  using assms rolled_up_percent [OF assms(2,3)]
  by (auto simp: tracker_inv_def tracker_emit_def update_progress patch_itask_def no_itask_patch_def)

lemma patch_stage_ok:
  "\<forall>g \<in> set gs. stage_ok g \<Longrightarrow> (\<And>g. stage_ok g \<Longrightarrow> stage_ok (f g)) \<Longrightarrow> \<forall>g \<in> set (patch_stage k f gs). stage_ok g"
  by (induction gs) auto

lemma tracker_inv_step:
  assumes "tracker_inv i x" and "op_in_range e"
  shows "tracker_inv i (stage_step x e)"
proof -
  obtain r w op now where x: "x = (r, w)" and e: "e = (op, now)" by (cases x; cases e) auto
  from assms(1) x have inv: "tr_task_id r = i" "\<forall>k. 0 < weight_of (tr_weights r) k"
    "\<forall>g \<in> set (tr_stages r). stage_ok g" "\<forall>t. jget (ts_tasks w) i = Some t \<longrightarrow> percent (tk_progress t)"
    by (auto simp: tracker_inv_def)
  show ?thesis
  proof (cases op)
    case (GStart k)
    let ?f = "\<lambda>g. g\<lparr>sg_status := StRunning, sg_progress := Some 0\<rparr>"
    have "\<forall>g \<in> set (patch_stage k ?f (tr_stages r)). stage_ok g"
      by (rule patch_stage_ok [OF inv(3)]) (simp add: stage_ok_def percent_def)
    then have "tracker_inv i (tracker_emit now (r\<lparr>tr_stages := patch_stage k ?f (tr_stages r)\<rparr>, w))"
      using inv(1,2) by (intro tracker_inv_emit) simp_all
    then show ?thesis unfolding x e GStart by (simp add: stage_start_def)
  next
    case (GDone k)
    let ?f = "\<lambda>g. g\<lparr>sg_status := StDone, sg_progress := Some 100\<rparr>"
    have "\<forall>g \<in> set (patch_stage k ?f (tr_stages r)). stage_ok g"
      by (rule patch_stage_ok [OF inv(3)]) (simp add: stage_ok_def percent_def)
    then have "tracker_inv i (tracker_emit now (r\<lparr>tr_stages := patch_stage k ?f (tr_stages r)\<rparr>, w))"
      using inv(1,2) by (intro tracker_inv_emit) simp_all
    then show ?thesis unfolding x e GDone by (simp add: stage_done_def)
  next
    case GFail
    then show ?thesis unfolding x e using inv
      by (simp add: fail_running_def) (intro tracker_inv_emit, auto simp: stage_ok_def)
  next
    case (GUpdate k p)
    let ?f = "\<lambda>g. case p of None \<Rightarrow> g | Some q \<Rightarrow> g\<lparr>sg_progress := Some q\<rparr>"
    have "stage_ok (?f g)" if "stage_ok g" for g
      using that assms(2) e GUpdate by (auto simp: stage_ok_def split: option.splits)
    with inv(3) have ok: "\<forall>g \<in> set (patch_stage k ?f (tr_stages r)). stage_ok g" by (rule patch_stage_ok)
    have "tracker_inv i (r\<lparr>tr_stages := patch_stage k ?f (tr_stages r)\<rparr>, w)"
      using inv ok by (simp add: tracker_inv_def)
    moreover have "tracker_inv i (tracker_emit now (r\<lparr>tr_stages := patch_stage k ?f (tr_stages r)\<rparr>, w))"
      by (rule tracker_inv_emit) (use inv ok in simp_all)
    ultimately show ?thesis unfolding x e GUpdate by (simp add: stage_update_def Let_def)
  qed
qed

interpretation stagem: machine "\<lambda>x e. if op_in_range e then stage_step x e else x" "tracker_inv i"
  by unfold_locales (simp add: tracker_inv_step)

lemma weight_of_fold:
  "\<forall>(k, wt) \<in> set specs. case wt of None \<Rightarrow> True | Some x \<Rightarrow> 0 < x \<Longrightarrow> \<forall>k. 0 < weight_of m k \<Longrightarrow>
   \<forall>k. 0 < weight_of (fold (\<lambda>(k, wt) m. jset m k (case wt of None \<Rightarrow> 1 | Some x \<Rightarrow> x)) specs m) k"
proof (induction specs arbitrary: m)
  case (Cons p specs)
  obtain k wt where p: "p = (k, wt)" by (cases p)
  have "\<forall>j. 0 < weight_of (jset m k (case wt of None \<Rightarrow> 1 | Some x \<Rightarrow> x)) j"
    using Cons.prems p by (auto simp: weight_of_def split: option.splits)
  then show ?case using Cons p by simp
qed simp

text \<open>
  The progress bar stays a percentage: with positive weights and stages that report between
  0 and 100, the progress of the task is between 0 and 100 after whatever order of starts,
  updates, completions and failures; it says 100 when all stages are done.
\<close>

theorem progress_stays_percent:
  assumes "\<forall>(k, wt) \<in> set specs. case wt of None \<Rightarrow> True | Some x \<Rightarrow> 0 < x"
    and "x = run (\<lambda>x e. if op_in_range e then stage_step x e else x) (tracker_new i specs now w) es"
    and "jget (ts_tasks (snd x)) i = Some t"
  shows "percent (tk_progress t) \<and>
    (tr_stages (fst x) \<noteq> [] \<and> (\<forall>g \<in> set (tr_stages (fst x)). sg_status g = StDone) \<longrightarrow>
       rolled_up (tr_weights (fst x)) (tr_stages (fst x)) = 100)"
proof -
  have "tracker_inv i (tracker_new i specs now w)"
    unfolding tracker_new_def
    by (rule tracker_inv_emit) (use weight_of_fold [OF assms(1), of "[]"] in \<open>auto simp: stage_ok_def weight_of_def\<close>)
  then have inv: "tracker_inv i x" unfolding assms(2) by (rule stagem.run_inv)
  then have "percent (tk_progress t)" using assms(3) by (auto simp: tracker_inv_def)
  moreover have "rolled_up ws gs = 100" if ws: "\<forall>k. 0 < weight_of ws k" and gs: "gs \<noteq> []"
    "\<forall>g \<in> set gs. sg_status g = StDone" for ws gs
  proof -
    let ?total = "sum_list (map (\<lambda>g. weight_of ws (sg_key g)) gs)"
    have "sum_list (map (stage_reached ws) gs) = ?total * 100"
      using gs(2) by (induction gs) (simp_all add: stage_reached_def distrib_right)
    moreover have t: "0 < ?total" using gs(1)
    proof (induction gs)
      case (Cons g gs)
      then show ?case using ws by (cases "gs = []") (simp_all add: add_pos_pos)
    qed simp
    moreover have "(2 * (?total * 100) + ?total) div (2 * ?total) = 100"
      using t by (intro int_div_pos_eq [of _ _ 100 ?total]) simp_all
    ultimately show ?thesis by (simp add: rolled_up_def Let_def)
  qed
  ultimately show ?thesis using inv by (auto simp: tracker_inv_def split: prod.splits)
qed

theorem progress_stays_percent_witness:
  "let w = snd (create_task ''t'' None None ''i'' 0 tasks_init);
       x = run (\<lambda>x e. if op_in_range e then stage_step x e else x)
             (tracker_new ''i'' [(''a'', Some 3), (''b'', None)] 1 w)
             [(GStart ''a'', 2), (GUpdate ''a'' (Some 50), 900), (GDone ''a'', 901)]
   in map_option tk_progress (jget (ts_tasks (snd x)) ''i'') = Some 75 \<and> percent 75"
proof -
  let ?w = "snd (create_task ''t'' None None ''i'' 0 tasks_init)"
  let ?specs = "[(''a'', Some 3), (''b'', None)] :: (string \<times> int option) list"
  let ?x = "run (\<lambda>x e. if op_in_range e then stage_step x e else x) (tracker_new ''i'' ?specs 1 ?w)
             [(GStart ''a'', 2), (GUpdate ''a'' (Some 50), 900), (GDone ''a'', 901)]"
  have p: "map_option tk_progress (jget (ts_tasks (snd ?x)) ''i'') = Some 75" by code_simp
  then obtain t where t: "jget (ts_tasks (snd ?x)) ''i'' = Some t" "tk_progress t = 75" by blast
  have "\<forall>(k, wt) \<in> set ?specs. case wt of None \<Rightarrow> True | Some x \<Rightarrow> 0 < x" by simp
  from progress_stays_percent [OF this refl t(1)] t(2) p show ?thesis by (simp only: Let_def)
qed

section \<open>What others see\<close>

text \<open>
  A user sees exactly the tasks of the panel and of the servers that he sees; asking for a
  task by its id gives no more than the list.
\<close>

theorem tasks_follow_servers:
  "(t \<in> set (tasks_for u w) \<longleftrightarrow>
     t \<in> snd ` set (ts_tasks w) \<and> (tk_server t \<in> {None, Some []} \<or> can_see_server (Some u) (the (tk_server t)))) \<and>
   (task_for u i w = Some t \<longleftrightarrow> jget (ts_tasks w) i = Some t \<and> t \<in> set (tasks_for u w))"
proof -
  have v: "task_visible u t \<longleftrightarrow> tk_server t \<in> {None, Some []} \<or> can_see_server (Some u) (the (tk_server t))"
    by (auto simp: task_visible_def split: option.splits)
  have "t \<in> snd ` set (ts_tasks w)" if "jget (ts_tasks w) i = Some t"
    using imageI [OF map_of_SomeD [OF that], of snd] by simp
  then show ?thesis unfolding v [symmetric]
    by (auto simp: tasks_for_def task_for_def split: option.splits if_splits)
qed

end
