(* ===== verification/Server_Dates.thy ===== *)
theory Server_Dates
  imports Prelude
begin

text \<open>
  Dates in the server's own files (\<open>players/lists/list-codec.ts\<close>): the text
  \<open>yyyy-MM-dd HH:mm:ss Z\<close>, written with the UTC getters of \<open>Date\<close> and read back with
  \<open>Date.UTC\<close>.  The calendar is that of ECMAScript: milliseconds since 1970, no leap seconds,
  the proleptic Gregorian year.
\<close>

section \<open>The calendar of \<open>Date\<close>\<close>

definition ms_per_day :: int where "ms_per_day = 86400000"

text \<open>Number of the first day of a year.\<close>

definition day_from_year :: "int \<Rightarrow> int" where
  "day_from_year y = 365 * (y - 1970) + (y - 1969) div 4 - (y - 1901) div 100 + (y - 1601) div 400"

definition leap :: "int \<Rightarrow> bool" where
  "leap y \<longleftrightarrow> 4 dvd y \<and> \<not> 100 dvd y \<or> 400 dvd y"

text \<open>
  The largest year that starts on or before a day: an estimate from the mean length of a
  year, which is off by at most one.
\<close>

definition year_from_day :: "int \<Rightarrow> int" where
  "year_from_day d =
     (let y = 1970 + d * 400 div 146097 in
      if day_from_year (y + 1) \<le> d then y + 1 else if d < day_from_year y then y - 1 else y)"

definition month_starts :: "bool \<Rightarrow> int list" where
  "month_starts l = map (\<lambda>n. if l \<and> 59 \<le> n then n + 1 else n)
     [0, 31, 59, 90, 120, 151, 181, 212, 243, 273, 304, 334]"

definition month_from_day :: "int \<Rightarrow> nat" where
  "month_from_day d =
     (let y = year_from_day d in
      length (filter (\<lambda>n. n \<le> d - day_from_year y) (tl (month_starts (leap y)))))"

definition date_from_day :: "int \<Rightarrow> int" where
  "date_from_day d =
     (let y = year_from_day d in d - day_from_year y - month_starts (leap y) ! month_from_day d + 1)"

text \<open>\<open>Date.UTC(y, m, d, h, mi, s)\<close>: two-digit years are of the twentieth century, months overflow.\<close>

definition date_utc :: "int \<Rightarrow> int \<Rightarrow> int \<Rightarrow> int \<Rightarrow> int \<Rightarrow> int \<Rightarrow> int" where
  "date_utc y m d h mi s =
     (let yr = (if 0 \<le> y \<and> y \<le> 99 then 1900 + y else y);
          ym = yr + m div 12;
          day = day_from_year ym + month_starts (leap ym) ! nat (m mod 12) + d - 1
      in day * ms_per_day + h * 3600000 + mi * 60000 + s * 1000)"

section \<open>Writing and reading\<close>

definition int_text :: "int \<Rightarrow> string" where
  "int_text n = (if n < 0 then CHR ''-'' # digits (nat (- n)) else digits (nat n))"

text \<open>The getters of an invalid date are all \<open>NaN\<close>.\<close>

definition pad :: "int \<Rightarrow> string" where
  "pad n = (let s = int_text n in replicate (2 - length s) CHR ''0'' @ s)"

definition valid_time :: "int \<Rightarrow> bool" where
  "valid_time ms \<longleftrightarrow> \<bar>ms\<bar> \<le> 8640000000000000"

definition format_server_date :: "int \<Rightarrow> string" where
  "format_server_date ms =
     (if \<not> valid_time ms then ''NaN-NaN-NaN NaN:NaN:NaN +0000''
      else let d = ms div ms_per_day; t = ms mod ms_per_day in
        int_text (year_from_day d) @ ''-'' @ pad (int (month_from_day d) + 1) @ ''-''
          @ pad (date_from_day d) @ '' '' @ pad (t div 3600000) @ '':''
          @ pad (t div 60000 mod 60) @ '':'' @ pad (t div 1000 mod 60) @ '' +0000'')"

text \<open>
  The pattern has a fixed width: \<open>0\<close> stands for \<open>\d\<close> and \<open>+\<close> for \<open>[+-]\<close>; a group is the text
  of its columns.
\<close>

definition date_pattern :: string where "date_pattern = ''0000-00-00 00:00:00 +0000''"

definition pattern_char :: "char \<Rightarrow> char \<Rightarrow> bool" where
  "pattern_char p c =
     (if p = CHR ''0'' then is_digit c else if p = CHR ''+'' then c = CHR ''+'' \<or> c = CHR ''-'' else c = p)"

definition column :: "nat \<Rightarrow> nat \<Rightarrow> string \<Rightarrow> int" where
  "column i n s = int (dec_value (take n (drop i s)))"

definition parse_server_date :: "string \<Rightarrow> int option" where
  "parse_server_date value =
     (let s = trim value in
      if \<not> list_all2 pattern_char date_pattern s then None
      else let offset = (if s ! 20 = CHR ''-'' then - 1 else 1) * (column 21 2 s * 60 + column 23 2 s) * 60000
        in Some (date_utc (column 0 4 s) (column 5 2 s - 1) (column 8 2 s)
             (column 11 2 s) (column 14 2 s) (column 17 2 s) - offset))"

section \<open>The year of a day\<close>

lemma div_bounds: "0 < k \<Longrightarrow> k * (a div k) \<le> a \<and> a < k * (a div k) + (k::int)"
  using pos_mod_bound [of k a] pos_mod_sign [of k a] mult_div_mod_eq [of k a] by linarith

lemma year_estimate:
  defines "y d \<equiv> 1970 + d * 400 div 146097"
  shows "day_from_year (y d - 1) \<le> d" and "d < day_from_year (y d + 2)"
proof -
  define q where "q = d * 400 div 146097"
  have q: "146097 * q \<le> d * 400" "d * 400 < 146097 * q + 146097"
    using div_bounds [of 146097 "d * 400"] by (simp_all add: q_def)
  have y: "y d = 1970 + q" by (simp add: y_def q_def)
  show "day_from_year (y d - 1) \<le> d"
    using div_bounds [of 4 q] div_bounds [of 100 "q + 68"] div_bounds [of 400 "q + 368"] q
    by (simp add: y day_from_year_def add.commute)
  show "d < day_from_year (y d + 2)"
    using div_bounds [of 4 "q + 3"] div_bounds [of 100 "q + 71"] div_bounds [of 400 "q + 371"] q
    by (simp add: y day_from_year_def add.commute)
qed

lemma div_succ:
  assumes "0 < (k::int)"
  shows "(a + 1) div k = a div k + (if k dvd a + 1 then 1 else 0)"
proof (cases "k dvd a + 1")
  case True
  then obtain m where m: "a + 1 = k * m" by (auto simp: dvd_def)
  then have "a = k * (m - 1) + (k - 1)" by (simp add: algebra_simps)
  then have "a div k = m - 1" using assms by (intro int_div_pos_eq [of _ _ _ "k - 1"]) auto
  with m assms True show ?thesis by simp
next
  case False
  have "a + 1 \<noteq> k * (a div k) + k"
  proof
    assume "a + 1 = k * (a div k) + k"
    then have "a + 1 = k * (a div k + 1)" by (simp add: algebra_simps)
    with False show False by (metis dvd_triv_left)
  qed
  then have "(a + 1) div k = a div k"
    using div_bounds [OF assms, of a]
    by (intro int_div_pos_eq [of _ _ _ "a + 1 - k * (a div k)"]) auto
  with False show ?thesis by simp
qed

lemma day_from_year_step:
  "day_from_year (y + 1) = day_from_year y + (if leap y then 366 else 365)"
proof -
  have 4: "(y - 1968) div 4 = (y - 1969) div 4 + (if 4 dvd y then 1 else 0)"
    using div_succ [of 4 "y - 1969"] dvd_diff_left_iff [of 4 1968 y] by simp
  have 100: "(y - 1900) div 100 = (y - 1901) div 100 + (if 100 dvd y then 1 else 0)"
    using div_succ [of 100 "y - 1901"] dvd_diff_left_iff [of 100 1900 y] by simp
  have 400: "(y - 1600) div 400 = (y - 1601) div 400 + (if 400 dvd y then 1 else 0)"
    using div_succ [of 400 "y - 1601"] dvd_diff_left_iff [of 400 1600 y] by simp
  have "100 dvd y" if "400 dvd y" using that by (rule dvd_trans [rotated]) simp
  moreover have "4 dvd y" if "100 dvd y" using that by (rule dvd_trans [rotated]) simp
  moreover have e: "y + 1 - 1969 = y - 1968" "y + 1 - 1901 = y - 1900" "y + 1 - 1601 = y - 1600" by simp_all
  ultimately show ?thesis unfolding day_from_year_def e 4 100 400 leap_def by auto
qed

lemma year_from_day_spec:
  "day_from_year (year_from_day d) \<le> d" "d < day_from_year (year_from_day d + 1)"
  using year_estimate [of d] by (auto simp: year_from_day_def Let_def algebra_simps)

lemma day_from_year_less: "y < z \<Longrightarrow> day_from_year y < day_from_year z"
proof (induction z rule: int_gr_induct)
  case base
  show ?case by (simp add: day_from_year_step)
next
  case (step z)
  then show ?case by (simp add: day_from_year_step)
qed

lemma day_from_year_le: "y \<le> z \<Longrightarrow> day_from_year y \<le> day_from_year z"
  using day_from_year_less [of y z] by (cases "y = z") auto

lemma year_from_day_unique:
  assumes "day_from_year y \<le> d" and "d < day_from_year (y + 1)"
  shows "year_from_day d = y"
proof (rule ccontr)
  assume "year_from_day d \<noteq> y"
  then consider "year_from_day d + 1 \<le> y" | "y + 1 \<le> year_from_day d" by linarith
  then show False
  proof cases
    case 1
    then have "day_from_year (year_from_day d + 1) \<le> day_from_year y" by (rule day_from_year_le)
    with assms year_from_day_spec [of d] show False by linarith
  next
    case 2
    then have "day_from_year (y + 1) \<le> day_from_year (year_from_day d)" by (rule day_from_year_le)
    with assms year_from_day_spec [of d] show False by linarith
  qed
qed

lemma year_from_day_range:
  assumes "day_from_year a \<le> d" and "d < day_from_year b"
  shows "a \<le> year_from_day d \<and> year_from_day d < b"
proof (intro conjI; rule ccontr)
  assume "\<not> a \<le> year_from_day d"
  then have "year_from_day d + 1 \<le> a" by simp
  then have "day_from_year (year_from_day d + 1) \<le> day_from_year a" by (rule day_from_year_le)
  with assms year_from_day_spec [of d] show False by linarith
next
  assume "\<not> year_from_day d < b"
  then have "b \<le> year_from_day d" by simp
  then have "day_from_year b \<le> day_from_year (year_from_day d)" by (rule day_from_year_le)
  with assms year_from_day_spec [of d] show False by linarith
qed

section \<open>The text of a date\<close>

lemma month_index: "month_from_day d < 12"
proof -
  have "length (filter P xs) \<le> length xs" for P and xs :: "int list" by simp
  then have "month_from_day d \<le> length (tl (month_starts (leap (year_from_day d))))"
    unfolding month_from_day_def Let_def by blast
  then show ?thesis by (simp add: month_starts_def)
qed

lemma month_lengths:
  assumes "0 \<le> n" and "n < (if l then 366 else 365)"
  defines "m \<equiv> length (filter (\<lambda>s. s \<le> n) (tl (month_starts l)))"
  shows "1 \<le> n - month_starts l ! m + 1 \<and> n - month_starts l ! m + 1 \<le> 31"
  using assms by (cases l) (auto simp: month_starts_def split: if_splits)

lemma date_range: "1 \<le> date_from_day d \<and> date_from_day d \<le> 31"
proof -
  define y where "y = year_from_day d"
  have "0 \<le> d - day_from_year y" "d - day_from_year y < (if leap y then 366 else 365)"
    using year_from_day_spec [of d] by (auto simp: y_def day_from_year_step)
  from month_lengths [OF this] show ?thesis
    by (simp add: date_from_day_def month_from_day_def Let_def y_def)
qed

text \<open>Taking a day apart and putting it together again.\<close>

lemma day_parts:
  "day_from_year (year_from_day d) + month_starts (leap (year_from_day d)) ! month_from_day d
     + date_from_day d - 1 = d"
  by (simp add: date_from_day_def Let_def)

lemma pad_two:
  assumes "0 \<le> n" and "n < 100"
  shows "length (pad n) = 2" and "list_all is_digit (pad n)" and "int (dec_value (pad n)) = n"
proof -
  have len: "length (digits (nat n)) \<le> 2" using digits_length_le [of "nat n" 2] assms by simp
  moreover have "0 < length (digits (nat n))" using digits_length_ge [of 0 "nat n"] assms
    by (cases "n = 0") (simp_all add: digits.simps [of 0])
  ultimately show "length (pad n) = 2" using assms by (simp add: pad_def int_text_def Let_def)
  show "list_all is_digit (pad n)" using assms
    by (simp add: pad_def int_text_def Let_def list_all_iff [of _ "replicate _ _"] is_digit_def)
  show "int (dec_value (pad n)) = n" using assms by (simp add: pad_def int_text_def Let_def dec_value_zeros)
qed

lemma year_text:
  assumes "1000 \<le> y" and "y < 10000"
  shows "length (int_text y) = 4" and "list_all is_digit (int_text y)" and "int (dec_value (int_text y)) = y"
proof -
  have "length (digits (nat y)) \<le> 4" using digits_length_le [of "nat y" 4] assms by simp
  moreover have "3 < length (digits (nat y))" using digits_length_ge [of 3 "nat y"] assms by simp
  ultimately show "length (int_text y) = 4" using assms by (simp add: int_text_def)
  show "list_all is_digit (int_text y)" using assms by (simp add: int_text_def)
  show "int (dec_value (int_text y)) = y" using assms by (simp add: int_text_def)
qed

text \<open>Eight pieces of fixed width match the pattern, and the columns give them back.\<close>

definition date_text :: "string \<Rightarrow> string \<Rightarrow> string \<Rightarrow> string \<Rightarrow> string \<Rightarrow> string \<Rightarrow> string" where
  "date_text y m d h mi s =
     y @ ''-'' @ m @ ''-'' @ d @ '' '' @ h @ '':'' @ mi @ '':'' @ s @ '' +0000''"

lemma list_of_length:
  "length xs = 2 \<Longrightarrow> \<exists>a b. xs = [a, b]"
  "length xs = 4 \<Longrightarrow> \<exists>a b c d. xs = [a, b, c, d]"
  by (auto simp: length_Suc_conv eval_nat_numeral)

lemma date_text_columns:
  assumes len: "length y = 4" "length m = 2" "length d = 2" "length h = 2" "length mi = 2" "length s = 2"
  assumes dig: "list_all is_digit y" "list_all is_digit m" "list_all is_digit d"
    "list_all is_digit h" "list_all is_digit mi" "list_all is_digit s"
  defines "t \<equiv> date_text y m d h mi s"
  shows "list_all2 pattern_char date_pattern t" and "trim t = t" and "t ! 20 = CHR ''+''"
    and "column 0 4 t = int (dec_value y)" and "column 5 2 t = int (dec_value m)"
    and "column 8 2 t = int (dec_value d)" and "column 11 2 t = int (dec_value h)"
    and "column 14 2 t = int (dec_value mi)" and "column 17 2 t = int (dec_value s)"
    and "column 21 2 t = 0" and "column 23 2 t = 0"
proof -
  obtain y1 y2 y3 y4 where y: "y = [y1, y2, y3, y4]" using list_of_length(2) [OF len(1)] by blast
  obtain m1 m2 where m: "m = [m1, m2]" using list_of_length(1) [OF len(2)] by blast
  obtain d1 d2 where d: "d = [d1, d2]" using list_of_length(1) [OF len(3)] by blast
  obtain h1 h2 where h: "h = [h1, h2]" using list_of_length(1) [OF len(4)] by blast
  obtain i1 i2 where i: "mi = [i1, i2]" using list_of_length(1) [OF len(5)] by blast
  obtain s1 s2 where s: "s = [s1, s2]" using list_of_length(1) [OF len(6)] by blast
  note t = t_def date_text_def y m d h i s
  show "t ! 20 = CHR ''+''" by (simp add: t)
  show "list_all2 pattern_char date_pattern t"
    using dig by (simp add: t date_pattern_def pattern_char_def is_digit_def)
  show "trim t = t" using dig
    by (simp add: t trim_def trim_start_def trim_end_def is_space_def is_digit_def)
  show "column 0 4 t = int (dec_value y)" "column 5 2 t = int (dec_value m)"
    "column 8 2 t = int (dec_value d)" "column 11 2 t = int (dec_value h)"
    "column 14 2 t = int (dec_value mi)" "column 17 2 t = int (dec_value s)"
    by (simp_all add: t column_def)
  show "column 21 2 t = 0" "column 23 2 t = 0" by (simp_all add: t column_def dec_value_def)
qed

section \<open>Properties\<close>

lemma format_as_text:
  assumes "valid_time ms"
  defines "d \<equiv> ms div ms_per_day" and "t \<equiv> ms mod ms_per_day"
  shows "format_server_date ms =
    date_text (int_text (year_from_day d)) (pad (int (month_from_day d) + 1)) (pad (date_from_day d))
      (pad (t div 3600000)) (pad (t div 60000 mod 60)) (pad (t div 1000 mod 60))"
  using assms by (simp add: format_server_date_def Let_def date_text_def)

lemma clock_parts:
  fixes t :: int
  assumes "0 \<le> t" and "t < ms_per_day"
  shows "0 \<le> t div 3600000 \<and> t div 3600000 < 100"
    and "t div 3600000 * 3600000 + t div 60000 mod 60 * 60000 + t div 1000 mod 60 * 1000 = t - t mod 1000"
proof -
  show "0 \<le> t div 3600000 \<and> t div 3600000 < 100" using assms
    by (auto simp: ms_per_day_def pos_imp_zdiv_nonneg_iff div_less_iff_less_mult)
  have "t div 1000 div 60 = t div 60000" "t div 60000 div 60 = t div 3600000"
    by (simp_all add: zdiv_zmult2_eq [symmetric])
  then show "t div 3600000 * 3600000 + t div 60000 mod 60 * 60000 + t div 1000 mod 60 * 1000 = t - t mod 1000"
    using div_mult_mod_eq [of t 1000] div_mult_mod_eq [of "t div 1000" 60]
      div_mult_mod_eq [of "t div 60000" 60] by linarith
qed

lemma day_of_range:
  assumes "a * ms_per_day \<le> ms" and "ms < b * ms_per_day"
  shows "a \<le> ms div ms_per_day \<and> ms div ms_per_day < b"
  using assms by (auto simp: ms_per_day_def div_less_iff_less_mult less_eq_div_iff_mult_less_eq)

lemma date_text_tail:
  fixes a b c e g :: string
  assumes "2 \<le> length a" "2 \<le> length b" "2 \<le> length c" "2 \<le> length e" "2 \<le> length g"
  defines "r \<equiv> ''-'' @ a @ ''-'' @ b @ '' '' @ c @ '':'' @ e @ '':'' @ g @ '' +0000''"
  shows "21 \<le> length r" and "last r = CHR ''0''"
  using assms by (simp_all add: r_def)

lemma pad_length: "2 \<le> length (pad n)"
  by (simp add: pad_def Let_def)

lemma parse_date_text:
  assumes "length y = 4" "length m = 2" "length d = 2" "length h = 2" "length mi = 2" "length s = 2"
  assumes "list_all is_digit y" "list_all is_digit m" "list_all is_digit d"
    "list_all is_digit h" "list_all is_digit mi" "list_all is_digit s"
  shows "parse_server_date (date_text y m d h mi s) =
    Some (date_utc (int (dec_value y)) (int (dec_value m) - 1) (int (dec_value d))
      (int (dec_value h)) (int (dec_value mi)) (int (dec_value s)))"
proof -
  note cols = date_text_columns [OF assms]
  show ?thesis
    unfolding parse_server_date_def Let_def cols(2,4,5,6,7,8,9,10,11) using cols(1,3) by simp
qed

lemma year_of_time:
  assumes "a * ms_per_day \<le> ms" and "a = day_from_year y"
  shows "y \<le> year_from_day (ms div ms_per_day)"
proof -
  have "a \<le> ms div ms_per_day" using day_of_range [of a ms "ms div ms_per_day + 1"] assms(1)
    by (auto simp: ms_per_day_def less_eq_div_iff_mult_less_eq)
  then have "day_from_year y \<le> ms div ms_per_day" using assms(2) by simp
  from year_from_day_range [OF this year_from_day_spec(2)] show ?thesis by simp
qed

lemma four_digit_year:
  assumes "- 30610224000000 \<le> ms" and "ms < 253402300800000"
  shows "1000 \<le> year_from_day (ms div ms_per_day)" and "year_from_day (ms div ms_per_day) < 10000"
proof -
  show "1000 \<le> year_from_day (ms div ms_per_day)"
    using assms by (intro year_of_time [of "- 354285"]) (simp_all add: ms_per_day_def day_from_year_def)
  have "ms div ms_per_day < 2932897"
    using assms(2) by (simp add: ms_per_day_def div_less_iff_less_mult)
  moreover have "day_from_year 10000 = 2932897" by (simp add: day_from_year_def)
  ultimately have "ms div ms_per_day < day_from_year 10000" by simp
  from year_from_day_range [OF year_from_day_spec(1) this]
  show "year_from_day (ms div ms_per_day) < 10000" by simp
qed

lemma date_utc_of_parts:
  assumes "1000 \<le> year_from_day d" and "0 \<le> t" and "t < ms_per_day"
  shows "date_utc (year_from_day d) (int (month_from_day d)) (date_from_day d)
         (t div 3600000) (t div 60000 mod 60) (t div 1000 mod 60) = d * ms_per_day + (t - t mod 1000)"
proof -
  have mi: "int (month_from_day d) div 12 = 0" "nat (int (month_from_day d) mod 12) = month_from_day d"
    using month_index [of d] by simp_all
  have y: "\<not> (0 \<le> year_from_day d \<and> year_from_day d \<le> 99)" using assms(1) by simp
  show ?thesis
    unfolding date_utc_def Let_def mi if_not_P [OF y] add_0_right day_parts
    using clock_parts(2) [OF assms(2,3)] by simp
qed

lemma server_date_reads_back:
  assumes "- 30610224000000 \<le> ms" and "ms < 253402300800000"
  shows "parse_server_date (format_server_date ms) = Some (ms - ms mod 1000)"
proof -
  define d where "d = ms div ms_per_day"
  define t where "t = ms mod ms_per_day"
  have v: "valid_time ms" using assms by (simp add: valid_time_def)
  note y = four_digit_year [OF assms, folded d_def]
  have t: "0 \<le> t" "t < ms_per_day" by (simp_all add: t_def ms_per_day_def)
  have m: "0 \<le> int (month_from_day d) + 1" "int (month_from_day d) + 1 < 100"
    using month_index [of d] by simp_all
  have dt: "0 \<le> date_from_day d" "date_from_day d < 100" using date_range [of d] by simp_all
  have h: "0 \<le> t div 3600000" "t div 3600000 < 100" using clock_parts(1) [OF t] by blast+
  have s60: "0 \<le> n mod 60" "n mod 60 < 100" for n :: int
    using pos_mod_bound [of 60 n] by simp_all
  note parts = year_text [OF y] pad_two [OF m] pad_two [OF dt] pad_two [OF h] pad_two [OF s60]
  have "parse_server_date (format_server_date ms) =
      Some (date_utc (year_from_day d) (int (month_from_day d) + 1 - 1) (date_from_day d)
         (t div 3600000) (t div 60000 mod 60) (t div 1000 mod 60))"
    unfolding format_as_text [OF v, folded d_def t_def]
    by (subst parse_date_text) (simp_all only: parts)
  also have "\<dots> = Some (d * ms_per_day + (t - t mod 1000))"
    using date_utc_of_parts [OF y(1) t] by simp
  also have "d * ms_per_day + (t - t mod 1000) = ms - ms mod 1000"
  proof -
    have "t mod 1000 = ms mod 1000" by (simp add: t_def ms_per_day_def mod_mod_cancel)
    then show ?thesis using div_mult_mod_eq [of ms ms_per_day] by (simp add: d_def t_def)
  qed
  finally show ?thesis .
qed

text \<open>
  C30: A date the panel writes into a list file reads back as itself, cut to whole seconds, for
  every year of four digits.
\<close>

theorem server_date_round_trip:
  assumes "- 30610224000000 \<le> ms" and "ms < 253402300800000"
  shows "parse_server_date (format_server_date ms) = Some (ms - ms mod 1000)"
  by (rule server_date_reads_back [OF assms])

theorem server_date_round_trip_witness:
  "parse_server_date (format_server_date 1709251199999) = Some 1709251199000"
  using server_date_round_trip [of 1709251199999] by simp

text \<open>
  An end date from the year 10000 on, which the request may carry, is written so that the
  panel itself cannot read it back.
\<close>

theorem far_date_unreadable:
  assumes "253402300800000 \<le> ms"
  shows "parse_server_date (format_server_date ms) = None"
proof -
  have short: "length s = 25" if "list_all2 pattern_char date_pattern s" for s
    using list_all2_lengthD [OF that] by (simp add: date_pattern_def)
  show ?thesis
  proof (cases "valid_time ms")
    case False
    then have "format_server_date ms = ''NaN-NaN-NaN NaN:NaN:NaN +0000''" by (simp add: format_server_date_def)
    moreover have "parse_server_date ''NaN-NaN-NaN NaN:NaN:NaN +0000'' = None" by code_simp
    ultimately show ?thesis by simp
  next
    case True
    define d where "d = ms div ms_per_day"
    have "10000 \<le> year_from_day d" unfolding d_def
      using assms by (intro year_of_time [of 2932897]) (simp_all add: ms_per_day_def day_from_year_def)
    then have "10 ^ 4 \<le> nat (year_from_day d)" by simp
    then have y: "5 \<le> length (int_text (year_from_day d))"
      using digits_length_ge [of 4 "nat (year_from_day d)"] \<open>10000 \<le> year_from_day d\<close> by (simp add: int_text_def)
    define f where "f = format_server_date ms"
    define t where "t = ms mod ms_per_day"
    define r where "r = ''-'' @ pad (int (month_from_day d) + 1) @ ''-'' @ pad (date_from_day d) @ '' ''
      @ pad (t div 3600000) @ '':'' @ pad (t div 60000 mod 60) @ '':'' @ pad (t div 1000 mod 60) @ '' +0000''"
    have f: "f = int_text (year_from_day d) @ r"
      using format_as_text [OF True] by (simp only: f_def r_def date_text_def d_def t_def)
    have r: "21 \<le> length r" "last r = CHR ''0''"
      unfolding r_def by (rule date_text_tail [OF pad_length pad_length pad_length pad_length pad_length])+
    have "list_all is_digit (int_text (year_from_day d))"
      using \<open>10000 \<le> year_from_day d\<close> by (simp add: int_text_def)
    with y have "is_digit (hd (int_text (year_from_day d)))" by (cases "int_text (year_from_day d)") auto
    then have hd: "\<not> is_space (hd f)" using y by (auto simp: f hd_append digit_not_space)
    have "r \<noteq> []" using r(1) by auto
    then have last: "\<not> is_space (last f)" "f \<noteq> []" using r(2) by (simp_all add: f is_space_def)
    from last(2) hd last(1) have "trim f = f" by (rule trim_id)
    moreover have "\<not> list_all2 pattern_char date_pattern f" using short [of f] r(1) y by (auto simp: f)
    ultimately show ?thesis by (simp add: parse_server_date_def f_def [symmetric])
  qed
qed

end
