(* ===== verification/Players.thy ===== *)
theory Players
  imports Server_Dates Values Properties_Files
begin

text \<open>
  Whitelist, operators, bans and kicks (\<open>modules/players\<close>): the entries of the server's JSON
  lists, the console commands, and the two ways a change is applied.  On a running server the
  panel sends a command and watches the file; on a stopped one it writes the file itself.
\<close>

section \<open>Lists and changes\<close>

datatype player_list = Whitelist | Ops | Bans | IpBans

fun LIST_FILES :: "player_list \<Rightarrow> string" where
  "LIST_FILES Whitelist = ''whitelist.json''"
| "LIST_FILES Ops = ''ops.json''"
| "LIST_FILES Bans = ''banned-players.json''"
| "LIST_FILES IpBans = ''banned-ips.json''"

record player_entry =
  pl_name :: string
  pl_uuid :: string

record op_entry =
  op_player :: player_entry
  op_level :: int
  op_bypasses :: bool

record ban_fields =
  bf_reason :: string
  bf_source :: string
  bf_created :: "int option"
  bf_expires :: "int option"

record ban_change =
  bc_reason :: string
  bc_source :: string
  bc_expires :: "int option"

datatype list_change =
    WhitelistAdd player_entry
  | OpsAdd player_entry int bool
  | BansAdd player_entry ban_change
  | IpBansAdd string ban_change
  | WhitelistRemove string
  | OpsRemove string
  | BansRemove string
  | IpBansRemove string

fun change_list :: "list_change \<Rightarrow> player_list" where
  "change_list (WhitelistAdd _) = Whitelist"
| "change_list (OpsAdd _ _ _) = Ops"
| "change_list (BansAdd _ _) = Bans"
| "change_list (IpBansAdd _ _) = IpBans"
| "change_list (WhitelistRemove _) = Whitelist"
| "change_list (OpsRemove _) = Ops"
| "change_list (BansRemove _) = Bans"
| "change_list (IpBansRemove _) = IpBans"

section \<open>Reading entries\<close>

definition text_of :: "jsval \<Rightarrow> string" where
  "text_of v = (case v of JStr s \<Rightarrow> s | _ \<Rightarrow> [])"

definition decode_player :: "jsval \<Rightarrow> player_entry option" where
  "decode_player e =
     (let name = text_of (js_prop e ''name'') in
      if name \<noteq> [] then Some \<lparr>pl_name = name, pl_uuid = text_of (js_prop e ''uuid'')\<rparr> else None)"

definition forever :: string where "forever = ''forever''"
definition default_ban_reason :: string where "default_ban_reason = ''Banned by an operator.''"

definition decode_ban :: "jsval \<Rightarrow> ban_fields" where
  "decode_ban e =
     (let expires = text_of (js_prop e ''expires'') in
      \<lparr>bf_reason = text_of (js_prop e ''reason''), bf_source = text_of (js_prop e ''source''),
       bf_created = parse_server_date (text_of (js_prop e ''created'')),
       bf_expires = (if expires = [] \<or> expires = forever then None else parse_server_date expires)\<rparr>)"

definition decode_op :: "jsval \<Rightarrow> op_entry option" where
  "decode_op e =
     (case decode_player e of
        None \<Rightarrow> None
      | Some p \<Rightarrow> Some \<lparr>op_player = p,
          op_level = (case js_prop e ''level'' of JNum n \<Rightarrow> n | _ \<Rightarrow> 4),
          op_bypasses = (js_prop e ''bypassesPlayerLimit'' = JBool True)\<rparr>)"

definition decode_banned :: "jsval \<Rightarrow> (player_entry \<times> ban_fields) option" where
  "decode_banned e = map_option (\<lambda>p. (p, decode_ban e)) (decode_player e)"

definition decode_ip_ban :: "jsval \<Rightarrow> (string \<times> ban_fields) option" where
  "decode_ip_ban e =
     (let ip = text_of (js_prop e ''ip'') in if ip \<noteq> [] then Some (ip, decode_ban e) else None)"

text \<open>\<open>decodeList\<close>: malformed entries are skipped.\<close>

definition decode_list :: "(jsval \<Rightarrow> 'a option) \<Rightarrow> jsval list \<Rightarrow> 'a list" where
  "decode_list decode raw = List.map_filter decode raw"

section \<open>Changing entries\<close>

definition matches_player :: "jsval \<Rightarrow> player_entry \<Rightarrow> bool" where
  "matches_player e p \<longleftrightarrow>
     to_lower (text_of (js_prop e ''name'')) = to_lower (pl_name p)
     \<or> pl_uuid p \<noteq> [] \<and> to_lower (text_of (js_prop e ''uuid'')) = to_lower (pl_uuid p)"

definition matches_name :: "jsval \<Rightarrow> string \<Rightarrow> bool" where
  "matches_name e n \<longleftrightarrow> to_lower (text_of (js_prop e ''name'')) = to_lower n"

fun matches :: "jsval \<Rightarrow> list_change \<Rightarrow> bool" where
  "matches e (WhitelistAdd p) = matches_player e p"
| "matches e (OpsAdd p _ _) = matches_player e p"
| "matches e (BansAdd p _) = matches_player e p"
| "matches e (IpBansAdd ip _) = (text_of (js_prop e ''ip'') = ip)"
| "matches e (WhitelistRemove n) = matches_name e n"
| "matches e (OpsRemove n) = matches_name e n"
| "matches e (BansRemove n) = matches_name e n"
| "matches e (IpBansRemove ip) = (text_of (js_prop e ''ip'') = ip)"

definition encode_ban :: "ban_change \<Rightarrow> int \<Rightarrow> (string \<times> jsval) list" where
  "encode_ban b now =
     [(''created'', JStr (format_server_date now)),
      (''source'', JStr (bc_source b)),
      (''expires'', JStr (case bc_expires b of None \<Rightarrow> forever | Some t \<Rightarrow> format_server_date t)),
      (''reason'', JStr (if bc_reason b = [] then default_ban_reason else bc_reason b))]"

definition player_fields :: "player_entry \<Rightarrow> (string \<times> jsval) list" where
  "player_fields p = [(''uuid'', JStr (pl_uuid p)), (''name'', JStr (pl_name p))]"

text \<open>\<open>encode\<close>, for the changes that add; a removal has no entry.\<close>

fun encode :: "list_change \<Rightarrow> int \<Rightarrow> jsval option" where
  "encode (WhitelistAdd p) now = Some (JObj (player_fields p))"
| "encode (OpsAdd p l b) now =
     Some (JObj (player_fields p @ [(''level'', JNum l), (''bypassesPlayerLimit'', JBool b)]))"
| "encode (BansAdd p b) now = Some (JObj (player_fields p @ encode_ban b now))"
| "encode (IpBansAdd ip b) now = Some (JObj ((''ip'', JStr ip) # encode_ban b now))"
| "encode _ now = None"

definition is_add :: "list_change \<Rightarrow> bool" where
  "is_add c = (case c of WhitelistAdd _ \<Rightarrow> True | OpsAdd _ _ _ \<Rightarrow> True | BansAdd _ _ \<Rightarrow> True
     | IpBansAdd _ _ \<Rightarrow> True | _ \<Rightarrow> False)"

definition apply_change :: "jsval list \<Rightarrow> list_change \<Rightarrow> int \<Rightarrow> jsval list" where
  "apply_change raw c now =
     (let rest = filter (\<lambda>e. \<not> matches e c) raw in
      case encode c now of None \<Rightarrow> rest | Some e \<Rightarrow> rest @ [e])"

definition is_applied :: "jsval list \<Rightarrow> list_change \<Rightarrow> bool" where
  "is_applied raw c =
     (let present = list_ex (\<lambda>e. matches e c) raw in if is_add c then present else \<not> present)"

section \<open>Console commands\<close>

text \<open>\<open>\p{Cc}\<close>: the control characters.\<close>

definition is_control :: "char \<Rightarrow> bool" where
  "is_control c = (let n = (of_char c :: nat) in n < 32 \<or> 127 \<le> n \<and> n \<le> 159)"

fun control_runs :: "string \<Rightarrow> string" where
  "control_runs [] = []"
| "control_runs (c # cs) =
     (if \<not> is_control c then c # control_runs cs
      else if cs \<noteq> [] \<and> is_control (hd cs) then control_runs cs
      else CHR '' '' # control_runs cs)"

definition MAX_REASON :: nat where "MAX_REASON = 256"

definition clean_reason :: "string option \<Rightarrow> string" where
  "clean_reason r = take MAX_REASON (trim (control_runs (case r of None \<Rightarrow> [] | Some s \<Rightarrow> s)))"

definition with_reason :: "string \<Rightarrow> string \<Rightarrow> string" where
  "with_reason command reason = (if reason \<noteq> [] then command @ '' '' @ reason else command)"

fun command_for :: "list_change \<Rightarrow> string" where
  "command_for (WhitelistAdd p) = ''whitelist add '' @ pl_name p"
| "command_for (WhitelistRemove n) = ''whitelist remove '' @ n"
| "command_for (OpsAdd p _ _) = ''op '' @ pl_name p"
| "command_for (OpsRemove n) = ''deop '' @ n"
| "command_for (BansAdd p b) = with_reason (''ban '' @ pl_name p) (clean_reason (Some (bc_reason b)))"
| "command_for (BansRemove n) = ''pardon '' @ n"
| "command_for (IpBansAdd ip b) = with_reason (''ban-ip '' @ ip) (clean_reason (Some (bc_reason b)))"
| "command_for (IpBansRemove ip) = ''pardon-ip '' @ ip"

definition kick_command :: "string \<Rightarrow> string option \<Rightarrow> string" where
  "kick_command name reason = with_reason (''kick '' @ name) (clean_reason reason)"

definition whitelist_toggle_command :: "bool \<Rightarrow> string" where
  "whitelist_toggle_command enabled = ''whitelist '' @ (if enabled then ''on'' else ''off'')"

section \<open>List files\<close>

text \<open>
  What a read of a list file finds: no file, only white space, text that is not JSON, a JSON
  value, or a failing read (a link out of the server's folder, an I/O error).
\<close>

datatype list_file = LMissing | LBlank | LBroken | LJson jsval | LFails api_error

datatype list_read = REntries "jsval list" | RUnreadable | RError api_error

fun read_list_file :: "list_file \<Rightarrow> list_read" where
  "read_list_file LMissing = REntries []"
| "read_list_file LBlank = REntries []"
| "read_list_file LBroken = RUnreadable"
| "read_list_file (LJson (JArr xs)) = REntries (filter is_objectlike xs)"
| "read_list_file (LJson _) = RUnreadable"
| "read_list_file (LFails e) = RError e"

definition read_list_or_fail :: "player_list \<Rightarrow> list_file \<Rightarrow> jsval list result" where
  "read_list_or_fail l f =
     (case read_list_file f of
        REntries raw \<Rightarrow> Inr raw
      | RUnreadable \<Rightarrow> fail Internal (LIST_FILES l @ '' is not a valid player list'')
      | RError e \<Rightarrow> Inl e)"

definition write_list_file :: "jsval list \<Rightarrow> list_file" where
  "write_list_file raw = LJson (JArr raw)"

end
