(* ===== verification/Players_Service.thy ===== *)
theory Players_Service
  imports Players Instances
begin

text \<open>
  The services over the lists: the settings and the kind of a server
  (\<open>players-support.ts\<close>), the context of a request (\<open>players-context.service.ts\<close>), the
  identity of a player (\<open>profiles\<close>), polling, the live and the offline applier, and the
  operations of \<open>players.service.ts\<close> and \<open>players-settings.service.ts\<close>.
\<close>

section \<open>Servers with player lists\<close>

record blueprint_shape =
  bp_features :: "string list option"
  bp_protocol :: "string option"
  bp_config_files :: "(string \<times> string) list option"

text \<open>A configuration file is its parser and its path.\<close>

definition supports_player_lists :: "blueprint_shape option \<Rightarrow> bool" where
  "supports_player_lists blueprint =
     (case blueprint of
        None \<Rightarrow> False
      | Some b \<Rightarrow>
          if \<not> (case bp_features b of None \<Rightarrow> False | Some fs \<Rightarrow> ''players'' \<in> set fs) then False
          else if bp_protocol b = Some ''minecraft-bedrock'' then False
          else list_ex (\<lambda>(parser, path). parser = ''properties'' \<and> path = ''server.properties'')
                 (case bp_config_files b of None \<Rightarrow> [] | Some fs \<Rightarrow> fs))"

record players_settings =
  ps_whitelist :: bool
  ps_enforce :: bool
  ps_online :: bool
  ps_op_level :: int

definition DEFAULT_OP_LEVEL :: int where "DEFAULT_OP_LEVEL = 4"

definition props_value :: "(jtext \<times> jtext) list option \<Rightarrow> string \<Rightarrow> jtext option" where
  "props_value props key = (case props of None \<Rightarrow> None | Some m \<Rightarrow> map_of m (lit key))"

definition read_players_settings :: "(jtext \<times> jtext) list option \<Rightarrow> players_settings" where
  "read_players_settings props =
     (let level = parse_int10 (case props_value props ''op-permission-level'' of None \<Rightarrow> [] | Some s \<Rightarrow> s);
          online = props_value props ''online-mode''
      in \<lparr>ps_whitelist = property_flag (props_value props ''white-list''),
          ps_enforce = property_flag (props_value props ''enforce-whitelist''),
          ps_online = (online = None \<or> property_flag online),
          ps_op_level = (case level of None \<Rightarrow> DEFAULT_OP_LEVEL
             | Some n \<Rightarrow> if 1 \<le> n \<and> n \<le> 4 then n else DEFAULT_OP_LEVEL)\<rparr>)"

section \<open>The context of a request\<close>

text \<open>
  A server as these services see it: its row (\<open>None\<close> when there is none), whether its process
  runs, its property file, its list files, and the commands its console was sent.
\<close>

record players_server =
  pv_row :: "(server_status \<times> blueprint_shape option) option"
  pv_process :: bool
  pv_properties :: "jtext option"
  pv_files :: "player_list \<Rightarrow> list_file"
  pv_console :: "string list"

record players_context =
  pc_live :: bool
  pc_busy :: bool
  pc_settings :: players_settings

definition server_properties_record :: "players_server \<Rightarrow> (jtext \<times> jtext) list option" where
  "server_properties_record v = map_option sn_values (server_properties_read (pv_properties v))"

definition context_load :: "players_server \<Rightarrow> players_context result" where
  "context_load v =
     (case pv_row v of
        None \<Rightarrow> fail NotFound ''Server not found''
      | Some (status, blueprint) \<Rightarrow>
          if \<not> supports_player_lists blueprint
          then fail_code BadRequest ''PLAYERS_UNSUPPORTED'' ''This server type has no player lists''
          else let running = pv_process v; live = (running \<and> status = SRunning) in
            Inr \<lparr>pc_live = live, pc_busy = (running \<and> \<not> live),
                 pc_settings = read_players_settings (server_properties_record v)\<rparr>)"

definition context_load_writable :: "players_server \<Rightarrow> players_context result" where
  "context_load_writable v =
     and_then (context_load v) (\<lambda>ctx.
       if pc_busy ctx then fail_code Conflict ''SERVER_BUSY'' ''Wait until the server has started or stopped''
       else Inr ctx)"

record players_overview =
  po_whitelist :: "player_entry list"
  po_ops :: "op_entry list"
  po_bans :: "(player_entry \<times> ban_fields) list"
  po_ip_bans :: "(string \<times> ban_fields) list"
  po_settings :: players_settings
  po_live :: bool

text \<open>The four files are read at once; with several broken ones the code may report another of them.\<close>

definition overview_of :: "(player_list \<Rightarrow> list_file) \<Rightarrow> bool \<Rightarrow> players_settings \<Rightarrow> players_overview result" where
  "overview_of files live settings =
     and_then (read_list_or_fail Whitelist (files Whitelist)) (\<lambda>w.
     and_then (read_list_or_fail Ops (files Ops)) (\<lambda>p.
     and_then (read_list_or_fail Bans (files Bans)) (\<lambda>b.
     and_then (read_list_or_fail IpBans (files IpBans)) (\<lambda>i.
       Inr \<lparr>po_whitelist = decode_list decode_player w, po_ops = decode_list decode_op p,
            po_bans = decode_list decode_banned b, po_ip_bans = decode_list decode_ip_ban i,
            po_settings = settings, po_live = live\<rparr>))))"

section \<open>Who a player is\<close>

text \<open>
  What the services take from elsewhere: the answers of Mojang (\<open>Inl ()\<close> when it cannot be
  asked), the offline UUID, the network of the server, its YAML files (\<open>JNull\<close> when missing or
  broken) and whether a file exists, \<open>net.isIP\<close>, whether the process still runs when a command is
  sent, the clock, and during a live change the files the polls find, the clock after each of
  them, and the files when it is over.
\<close>

record players_env =
  ev_mojang :: "string \<Rightarrow> unit + (string \<times> string) option"
  ev_offline_uuid :: "string \<Rightarrow> string"
  ev_in_network :: bool
  ev_yaml :: "string \<Rightarrow> jsval"
  ev_exists :: "string \<Rightarrow> bool"
  ev_is_ip :: "string \<Rightarrow> bool"
  ev_sending :: bool
  ev_now :: int
  ev_poll_file :: "nat \<Rightarrow> list_file"
  ev_poll_properties :: "nat \<Rightarrow> jtext option"
  ev_poll_clock :: "nat \<Rightarrow> int"
  ev_files_after :: "player_list \<Rightarrow> list_file"
  ev_properties_after :: "jtext option"

definition dig :: "jsval \<Rightarrow> string list \<Rightarrow> jsval" where
  "dig v path = foldl (\<lambda>node key. if is_objectlike node then js_prop node key else JUndef) v path"

definition yaml_flag :: "players_env \<Rightarrow> string \<Rightarrow> string list \<Rightarrow> bool" where
  "yaml_flag env file path \<longleftrightarrow> dig (ev_yaml env file) path = JBool True"

definition is_behind_proxy :: "players_env \<Rightarrow> bool" where
  "is_behind_proxy env \<longleftrightarrow>
     list_ex id
       [yaml_flag env ''config/paper-global.yml'' [''proxies'', ''velocity'', ''enabled''],
        yaml_flag env ''paper.yml'' [''settings'', ''velocity-support'', ''enabled''],
        yaml_flag env ''spigot.yml'' [''settings'', ''bungeecord''],
        ev_exists env ''config/FabricProxy-Lite.toml'']"

definition name_char :: "char \<Rightarrow> bool" where
  "name_char c = (let n = (of_char c :: nat) in
     48 \<le> n \<and> n \<le> 57 \<or> 65 \<le> n \<and> n \<le> 90 \<or> 97 \<le> n \<and> n \<le> 122 \<or> n = 95)"

definition mojang_name :: "string \<Rightarrow> bool" where
  "mojang_name s \<longleftrightarrow> 1 \<le> length s \<and> length s \<le> 16 \<and> list_all name_char s"

definition PLAYER_NAME :: "string \<Rightarrow> bool" where
  "PLAYER_NAME s \<longleftrightarrow> mojang_name s \<or> (s \<noteq> [] \<and> hd s = CHR ''.'' \<and> mojang_name (tl s))"

datatype uuid_source = FromMojang | FromOffline

definition resolve_player :: "players_env \<Rightarrow> string \<Rightarrow> bool \<Rightarrow> (player_entry \<times> uuid_source) result" where
  "resolve_player env name online =
     (if \<not> (online \<or> ev_in_network env \<or> is_behind_proxy env)
      then Inr (\<lparr>pl_name = name, pl_uuid = ev_offline_uuid env name\<rparr>, FromOffline)
      else
        let missing = fail_code NotFound ''PLAYER_NOT_FOUND'' (''No Minecraft account named '' @ name) in
        if \<not> mojang_name name then missing
        else (case ev_mojang env name of
            Inl _ \<Rightarrow> fail_code ServiceUnavailable ''MOJANG_UNAVAILABLE'' ''Mojang is unreachable, try again later''
          | Inr None \<Rightarrow> missing
          | Inr (Some (n, u)) \<Rightarrow> Inr (\<lparr>pl_name = n, pl_uuid = u\<rparr>, FromMojang)))"

section \<open>Polling\<close>

text \<open>
  \<open>pollUntil\<close>: \<open>check k\<close> is the outcome of the \<open>k\<close>th check and \<open>clock k\<close> the time after it.  The
  loop has no bound of its own; the number is fuel, \<open>None\<close> means it ran out.
\<close>

fun poll_from :: "nat \<Rightarrow> (nat \<Rightarrow> bool result) \<Rightarrow> (nat \<Rightarrow> int) \<Rightarrow> int \<Rightarrow> int \<Rightarrow> nat \<Rightarrow> bool result option" where
  "poll_from 0 check clock deadline interval k = None"
| "poll_from (Suc n) check clock deadline interval k =
     (case check k of
        Inl e \<Rightarrow> Some (Inl e)
      | Inr True \<Rightarrow> Some (Inr True)
      | Inr False \<Rightarrow>
          if clock k + interval > deadline then Some (Inr False)
          else poll_from n check clock deadline interval (Suc k))"

definition poll_until :: "nat \<Rightarrow> (nat \<Rightarrow> bool result) \<Rightarrow> int \<Rightarrow> (nat \<Rightarrow> int) \<Rightarrow> int \<Rightarrow> int \<Rightarrow> bool result option" where
  "poll_until fuel check start clock timeout interval = poll_from fuel check clock (start + timeout) interval 0"

definition CONFIRM_TIMEOUT_MS :: int where "CONFIRM_TIMEOUT_MS = 6000"
definition TOGGLE_TIMEOUT_MS :: int where "TOGGLE_TIMEOUT_MS = 4000"
definition POLL_INTERVAL_MS :: int where "POLL_INTERVAL_MS = 250"

text \<open>Checks a poll of this length makes at most.\<close>

definition poll_fuel :: "int \<Rightarrow> nat" where
  "poll_fuel timeout = Suc (nat (timeout div POLL_INTERVAL_MS))"

section \<open>Applying a change\<close>

text \<open>A finished operation is its result and the server after it; \<open>None\<close> is a poll without an end.\<close>

type_synonym 'a players_outcome = "('a result \<times> players_server) option"

abbreviation not_running :: "'a result" where
  "not_running \<equiv> fail_code Conflict ''SERVER_NOT_RUNNING'' ''Server is not running''"

definition console_input :: "players_env \<Rightarrow> string \<Rightarrow> players_server \<Rightarrow> bool \<times> players_server" where
  "console_input env cmd v =
     (if ev_sending env then (True, v\<lparr>pv_console := pv_console v @ [cmd]\<rparr>) else (False, v))"

definition confirm_check :: "players_env \<Rightarrow> list_change \<Rightarrow> nat \<Rightarrow> bool result" where
  "confirm_check env c k =
     (case read_list_file (ev_poll_file env k) of
        REntries raw \<Rightarrow> Inr (is_applied raw c)
      | RUnreadable \<Rightarrow> Inr False
      | RError e \<Rightarrow> Inl e)"

definition live_send :: "players_env \<Rightarrow> list_change \<Rightarrow> players_server \<Rightarrow> unit players_outcome" where
  "live_send env c v =
     (case console_input env (command_for c) v of
        (False, v1) \<Rightarrow> Some (not_running, v1)
      | (True, v1) \<Rightarrow>
          let v2 = v1\<lparr>pv_files := ev_files_after env\<rparr> in
          (case poll_until (poll_fuel CONFIRM_TIMEOUT_MS) (confirm_check env c) (ev_now env) (ev_poll_clock env)
                  CONFIRM_TIMEOUT_MS POLL_INTERVAL_MS of
             None \<Rightarrow> None
           | Some (Inl e) \<Rightarrow> Some (Inl e, v2)
           | Some (Inr True) \<Rightarrow> Some (Inr (), v2)
           | Some (Inr False) \<Rightarrow>
               Some (fail_code GatewayTimeout ''PLAYERS_APPLY_TIMEOUT''
                       ''The server did not confirm the change, check the console'', v2)))"

definition live_apply :: "players_env \<Rightarrow> list_change \<Rightarrow> players_server \<Rightarrow> unit players_outcome" where
  "live_apply env c v =
     (case read_list_file (pv_files v (change_list c)) of
        RError e \<Rightarrow> Some (Inl e, v)
      | RUnreadable \<Rightarrow> live_send env c v
      | REntries raw \<Rightarrow> if is_applied raw c then Some (Inr (), v) else live_send env c v)"

definition offline_apply :: "players_env \<Rightarrow> list_change \<Rightarrow> players_server \<Rightarrow> unit players_outcome" where
  "offline_apply env c v =
     (case read_list_or_fail (change_list c) (pv_files v (change_list c)) of
        Inl e \<Rightarrow> Some (Inl e, v)
      | Inr raw \<Rightarrow>
          Some (Inr (), v\<lparr>pv_files := (pv_files v)(change_list c :=
                            write_list_file (apply_change raw c (ev_now env)))\<rparr>))"

section \<open>The operations\<close>

datatype named_list = NWhitelist | NOps | NBans

fun named_remove :: "named_list \<Rightarrow> string \<Rightarrow> list_change" where
  "named_remove NWhitelist n = WhitelistRemove n"
| "named_remove NOps n = OpsRemove n"
| "named_remove NBans n = BansRemove n"

datatype players_request =
    AddToWhitelist string
  | AddOp string "int option" "bool option"
  | AddBan string "string option" "int option" string
  | AddIpBan string "string option" "int option" string
  | RemoveNamed named_list string
  | RemoveIpBan string

text \<open>The last argument of a ban is the name of the account that asks for it.\<close>

definition needs_stopped_server :: "string \<Rightarrow> 'a result" where
  "needs_stopped_server what =
     fail_code Conflict ''PLAYERS_NEEDS_STOPPED_SERVER'' (what @ '' can only be set while the server is stopped'')"

definition context_player :: "players_env \<Rightarrow> players_context \<Rightarrow> string \<Rightarrow> player_entry result" where
  "context_player env ctx name =
     and_then (resolve_player env name (ps_online (pc_settings ctx))) (\<lambda>(p, _). Inr p)"

definition ban_of :: "string option \<Rightarrow> int option \<Rightarrow> string \<Rightarrow> ban_change" where
  "ban_of reason expires actor =
     \<lparr>bc_reason = clean_reason reason, bc_source = actor, bc_expires = expires\<rparr>"

text \<open>The change a request asks for, given the context.\<close>

fun build_change :: "players_env \<Rightarrow> players_request \<Rightarrow> players_context \<Rightarrow> list_change result" where
  "build_change env (AddToWhitelist name) ctx =
     and_then (context_player env ctx name) (\<lambda>p. Inr (WhitelistAdd p))"
| "build_change env (AddOp name level bypasses) ctx =
     (let l = (case level of None \<Rightarrow> ps_op_level (pc_settings ctx) | Some n \<Rightarrow> n);
          b = (case bypasses of None \<Rightarrow> False | Some x \<Rightarrow> x)
      in if pc_live ctx \<and> (l \<noteq> ps_op_level (pc_settings ctx) \<or> b)
         then needs_stopped_server ''Operator level''
         else and_then (context_player env ctx name) (\<lambda>p. Inr (OpsAdd p l b)))"
| "build_change env (AddBan name reason expires actor) ctx =
     (if pc_live ctx \<and> expires \<noteq> None then needs_stopped_server ''Ban expiry''
      else and_then (context_player env ctx name) (\<lambda>p. Inr (BansAdd p (ban_of reason expires actor))))"
| "build_change env (AddIpBan ip reason expires actor) ctx =
     (if pc_live ctx \<and> expires \<noteq> None then needs_stopped_server ''Ban expiry''
      else Inr (IpBansAdd ip (ban_of reason expires actor)))"
| "build_change env (RemoveNamed l name) ctx = Inr (named_remove l name)"
| "build_change env (RemoveIpBan ip) ctx = Inr (IpBansRemove ip)"

text \<open>The checks a removal makes before it loads anything.\<close>

fun request_check :: "players_env \<Rightarrow> players_request \<Rightarrow> unit result" where
  "request_check env (RemoveNamed l name) =
     (if PLAYER_NAME name then Inr () else fail BadRequest ''Invalid player name'')"
| "request_check env (RemoveIpBan ip) =
     (if ev_is_ip env ip then Inr () else fail BadRequest ''Invalid IP address'')"
| "request_check env _ = Inr ()"

definition apply_with :: "players_env \<Rightarrow> bool \<Rightarrow> list_change \<Rightarrow> players_server \<Rightarrow> unit players_outcome" where
  "apply_with env live c v = (if live then live_apply env c v else offline_apply env c v)"

definition players_change :: "players_env \<Rightarrow> players_request \<Rightarrow> players_server \<Rightarrow> players_overview players_outcome" where
  "players_change env req v =
     (case and_then (request_check env req) (\<lambda>_.
             and_then (context_load_writable v) (\<lambda>ctx.
               and_then (build_change env req ctx) (\<lambda>c. Inr (ctx, c)))) of
        Inl e \<Rightarrow> Some (Inl e, v)
      | Inr (ctx, c) \<Rightarrow>
          (case apply_with env (pc_live ctx) c v of
             None \<Rightarrow> None
           | Some (Inl e, v1) \<Rightarrow> Some (Inl e, v1)
           | Some (Inr _, v1) \<Rightarrow> Some (overview_of (pv_files v1) (pc_live ctx) (pc_settings ctx), v1)))"

definition players_kick :: "players_env \<Rightarrow> string \<Rightarrow> string option \<Rightarrow> players_server \<Rightarrow> unit result \<times> players_server" where
  "players_kick env name reason v =
     (case context_load v of
        Inl e \<Rightarrow> (Inl e, v)
      | Inr ctx \<Rightarrow>
          if \<not> pc_live ctx then (not_running, v)
          else (case console_input env (kick_command name reason) v of
                  (sent, v1) \<Rightarrow> (if sent then Inr () else not_running, v1)))"

definition players_overview_get :: "players_server \<Rightarrow> players_overview result" where
  "players_overview_get v =
     and_then (context_load v) (\<lambda>ctx. overview_of (pv_files v) (pc_live ctx) (pc_settings ctx))"

text \<open>What the decorators of the request classes accept.\<close>

fun request_valid :: "players_env \<Rightarrow> players_request \<Rightarrow> bool" where
  "request_valid env (AddToWhitelist name) = PLAYER_NAME name"
| "request_valid env (AddOp name level b) =
     (PLAYER_NAME name \<and> (case level of None \<Rightarrow> True | Some n \<Rightarrow> 1 \<le> n \<and> n \<le> 4))"
| "request_valid env (AddBan name reason expires actor) =
     (PLAYER_NAME name \<and> (case reason of None \<Rightarrow> True | Some r \<Rightarrow> length r \<le> 256)
        \<and> (case expires of None \<Rightarrow> True | Some t \<Rightarrow> 0 \<le> t))"
| "request_valid env (AddIpBan ip reason expires actor) =
     (ev_is_ip env ip \<and> (case reason of None \<Rightarrow> True | Some r \<Rightarrow> length r \<le> 256)
        \<and> (case expires of None \<Rightarrow> True | Some t \<Rightarrow> 0 \<le> t))"
| "request_valid env _ = True"

section \<open>The settings\<close>

definition toggle_live :: "players_env \<Rightarrow> players_context \<Rightarrow> bool option \<Rightarrow> players_server \<Rightarrow> unit players_outcome" where
  "toggle_live env ctx enabled v =
     (case enabled of
        None \<Rightarrow> Some (Inr (), v)
      | Some on \<Rightarrow>
          if \<not> pc_live ctx \<or> on = ps_whitelist (pc_settings ctx) then Some (Inr (), v)
          else (case console_input env (whitelist_toggle_command on) v of
              (False, v1) \<Rightarrow> Some (Inr (), v1)
            | (True, v1) \<Rightarrow>
                (case poll_until (poll_fuel TOGGLE_TIMEOUT_MS)
                        (\<lambda>k. Inr (ps_whitelist (read_players_settings
                            (map_option sn_values (server_properties_read (ev_poll_properties env k)))) = on))
                        (ev_now env) (ev_poll_clock env) TOGGLE_TIMEOUT_MS POLL_INTERVAL_MS of
                   None \<Rightarrow> None
                 | Some _ \<Rightarrow> Some (Inr (), v1\<lparr>pv_properties := ev_properties_after env\<rparr>))))"

definition flag_text :: "bool \<Rightarrow> jtext" where
  "flag_text b = (if b then lit ''true'' else lit ''false'')"

definition settings_edit :: "bool option \<Rightarrow> bool option \<Rightarrow> prop_doc \<Rightarrow> prop_doc" where
  "settings_edit whitelist enforce d =
     (let d1 = (case whitelist of None \<Rightarrow> d | Some b \<Rightarrow> prop_set (lit ''white-list'') (flag_text b) d)
      in case enforce of None \<Rightarrow> d1 | Some b \<Rightarrow> prop_set (lit ''enforce-whitelist'') (flag_text b) d1)"

definition settings_update :: "players_env \<Rightarrow> bool option \<Rightarrow> bool option \<Rightarrow> players_server \<Rightarrow> players_overview players_outcome" where
  "settings_update env whitelist enforce v =
     (case context_load_writable v of
        Inl e \<Rightarrow> Some (Inl e, v)
      | Inr ctx \<Rightarrow>
          (case toggle_live env ctx whitelist v of
             None \<Rightarrow> None
           | Some (Inl e, v1) \<Rightarrow> Some (Inl e, v1)
           | Some (Inr _, v1) \<Rightarrow>
               let (file, doc) = update_properties_file (pv_properties v1) (settings_edit whitelist enforce);
                   v2 = v1\<lparr>pv_properties := file\<rparr>
               in Some (overview_of (pv_files v2) (pc_live ctx) (read_players_settings (Some (to_record doc))), v2)))"

end
