(* ===== verification/Player_Properties.thy ===== *)
theory Player_Properties
  imports Players_Service
begin

text \<open>
  Properties of the player lists: what a change does to the lists on each way, what reaches the
  console, that polling ends, and two cases in which the panel reports success or writes where
  it should not.
\<close>

section \<open>What a change is for the lists\<close>

text \<open>
  The lists as the panel shows them, and the effect a change should have on them: the entries
  that are meant go, the new one is at the end.
\<close>

definition same_player :: "player_entry \<Rightarrow> player_entry \<Rightarrow> bool" where
  "same_player q p \<longleftrightarrow> to_lower (pl_name q) = to_lower (pl_name p)
     \<or> pl_uuid p \<noteq> [] \<and> to_lower (pl_uuid q) = to_lower (pl_uuid p)"

definition same_name :: "player_entry \<Rightarrow> string \<Rightarrow> bool" where
  "same_name q n \<longleftrightarrow> to_lower (pl_name q) = to_lower n"

definition seconds :: "int \<Rightarrow> int" where "seconds ms = ms - ms mod 1000"

definition ban_view :: "ban_change \<Rightarrow> int \<Rightarrow> ban_fields" where
  "ban_view b now =
     \<lparr>bf_reason = (if bc_reason b = [] then default_ban_reason else bc_reason b),
      bf_source = bc_source b, bf_created = Some (seconds now),
      bf_expires = map_option seconds (bc_expires b)\<rparr>"

fun abs_change :: "list_change \<Rightarrow> int \<Rightarrow> players_overview \<Rightarrow> players_overview" where
  "abs_change (WhitelistAdd p) now v =
     v\<lparr>po_whitelist := filter (\<lambda>q. \<not> same_player q p) (po_whitelist v) @ [p]\<rparr>"
| "abs_change (OpsAdd p l b) now v =
     v\<lparr>po_ops := filter (\<lambda>q. \<not> same_player (op_player q) p) (po_ops v)
         @ [\<lparr>op_player = p, op_level = l, op_bypasses = b\<rparr>]\<rparr>"
| "abs_change (BansAdd p b) now v =
     v\<lparr>po_bans := filter (\<lambda>q. \<not> same_player (fst q) p) (po_bans v) @ [(p, ban_view b now)]\<rparr>"
| "abs_change (IpBansAdd ip b) now v =
     v\<lparr>po_ip_bans := filter (\<lambda>q. fst q \<noteq> ip) (po_ip_bans v) @ [(ip, ban_view b now)]\<rparr>"
| "abs_change (WhitelistRemove n) now v =
     v\<lparr>po_whitelist := filter (\<lambda>q. \<not> same_name q n) (po_whitelist v)\<rparr>"
| "abs_change (OpsRemove n) now v =
     v\<lparr>po_ops := filter (\<lambda>q. \<not> same_name (op_player q) n) (po_ops v)\<rparr>"
| "abs_change (BansRemove n) now v =
     v\<lparr>po_bans := filter (\<lambda>q. \<not> same_name (fst q) n) (po_bans v)\<rparr>"
| "abs_change (IpBansRemove ip) now v =
     v\<lparr>po_ip_bans := filter (\<lambda>q. fst q \<noteq> ip) (po_ip_bans v)\<rparr>"

text \<open>Times the date format can hold, and targets that are not empty.\<close>

definition four_digit_time :: "int \<Rightarrow> bool" where
  "four_digit_time ms \<longleftrightarrow> - 30610224000000 \<le> ms \<and> ms < 253402300800000"

fun change_ok :: "list_change \<Rightarrow> bool" where
  "change_ok (WhitelistAdd p) = (pl_name p \<noteq> [])"
| "change_ok (OpsAdd p _ _) = (pl_name p \<noteq> [])"
| "change_ok (BansAdd p b) = (pl_name p \<noteq> [] \<and> pred_option four_digit_time (bc_expires b))"
| "change_ok (IpBansAdd ip b) = (ip \<noteq> [] \<and> pred_option four_digit_time (bc_expires b))"
| "change_ok _ = True"

section \<open>Decoding a changed list\<close>

lemma decode_list_simps [simp]:
  "decode_list f [] = []"
  "decode_list f (x # xs) = (case f x of None \<Rightarrow> decode_list f xs | Some y \<Rightarrow> y # decode_list f xs)"
  "decode_list f (xs @ ys) = decode_list f xs @ decode_list f ys"
  by (simp_all add: decode_list_def List.map_filter_def split: option.splits)

text \<open>Filtering entries by something their decoded form shows.\<close>

lemma decode_list_filter:
  assumes "\<And>e d. f e = Some d \<Longrightarrow> P e \<longleftrightarrow> Q d"
  shows "decode_list f (filter P raw) = filter Q (decode_list f raw)"
  by (induction raw) (auto simp: assms split: option.splits)

lemma decode_player_match:
  "decode_player e = Some q \<Longrightarrow> matches_player e p \<longleftrightarrow> same_player q p"
  "decode_player e = Some q \<Longrightarrow> matches_name e n \<longleftrightarrow> same_name q n"
  by (auto simp: decode_player_def Let_def matches_player_def same_player_def matches_name_def same_name_def
      split: if_splits)

lemma text_of_Str [simp]: "text_of (JStr s) = s"
  by (simp add: text_of_def)

lemma server_date_reads:
  "four_digit_time ms \<Longrightarrow> parse_server_date (format_server_date ms) = Some (seconds ms)"
  unfolding four_digit_time_def seconds_def by (rule server_date_reads_back) simp_all

lemma date_not_special:
  assumes "four_digit_time ms"
  shows "format_server_date ms \<noteq> []" "format_server_date ms \<noteq> forever"
proof -
  have "parse_server_date [] = None" "parse_server_date forever = None" by code_simp+
  with server_date_reads [OF assms] show "format_server_date ms \<noteq> []" "format_server_date ms \<noteq> forever" by auto
qed

lemma decode_encoded_ban:
  assumes "four_digit_time now" and "pred_option four_digit_time (bc_expires b)"
    and "\<And>f. f \<in> {''reason'', ''source'', ''created'', ''expires''} \<Longrightarrow> map_of xs f = None"
  shows "decode_ban (JObj (xs @ encode_ban b now)) = ban_view b now"
proof -
  have m: "js_prop (JObj (xs @ encode_ban b now)) ''reason'' =
        JStr (if bc_reason b = [] then default_ban_reason else bc_reason b)"
    "js_prop (JObj (xs @ encode_ban b now)) ''source'' = JStr (bc_source b)"
    "js_prop (JObj (xs @ encode_ban b now)) ''created'' = JStr (format_server_date now)"
    "js_prop (JObj (xs @ encode_ban b now)) ''expires'' =
        JStr (case bc_expires b of None \<Rightarrow> forever | Some t \<Rightarrow> format_server_date t)"
    by (simp_all add: assms(3) map_add_def encode_ban_def)
  show ?thesis
    unfolding decode_ban_def Let_def m text_of_Str server_date_reads [OF assms(1)] ban_view_def
    using assms(2) by (cases "bc_expires b") (simp_all add: server_date_reads date_not_special)
qed

lemma decode_encoded:
  assumes "pl_name p \<noteq> []"
  shows "decode_player (JObj (player_fields p @ xs)) = Some p"
    and "decode_player (JObj (player_fields p)) = Some p"
  using assms by (simp_all add: decode_player_def player_fields_def)

lemma decode_encoded_op:
  "pl_name p \<noteq> [] \<Longrightarrow>
   decode_op (JObj (player_fields p @ [(''level'', JNum l), (''bypassesPlayerLimit'', JBool b)])) =
     Some \<lparr>op_player = p, op_level = l, op_bypasses = b\<rparr>"
  by (simp add: decode_op_def decode_encoded) (simp add: player_fields_def)

lemma decode_encoded_bans:
  assumes "four_digit_time now" and "pred_option four_digit_time (bc_expires b)"
  shows "pl_name p \<noteq> [] \<Longrightarrow> decode_banned (JObj (player_fields p @ encode_ban b now)) = Some (p, ban_view b now)"
    and "ip \<noteq> [] \<Longrightarrow> decode_ip_ban (JObj ((''ip'', JStr ip) # encode_ban b now)) = Some (ip, ban_view b now)"
proof -
  have "decode_ban (JObj (player_fields p @ encode_ban b now)) = ban_view b now"
    by (rule decode_encoded_ban [OF assms]) (auto simp: player_fields_def)
  then show "pl_name p \<noteq> [] \<Longrightarrow> decode_banned (JObj (player_fields p @ encode_ban b now)) = Some (p, ban_view b now)"
    by (simp add: decode_banned_def decode_encoded)
  have "decode_ban (JObj ([(''ip'', JStr ip)] @ encode_ban b now)) = ban_view b now"
    by (rule decode_encoded_ban [OF assms]) auto
  then show "ip \<noteq> [] \<Longrightarrow> decode_ip_ban (JObj ((''ip'', JStr ip) # encode_ban b now)) = Some (ip, ban_view b now)"
    by (simp add: decode_ip_ban_def)
qed

text \<open>What \<open>abs_change\<close> does to the list of the change, and that it leaves the others.\<close>

lemma decode_op_match:
  "decode_op e = Some q \<Longrightarrow> matches_player e p \<longleftrightarrow> same_player (op_player q) p"
  "decode_op e = Some q \<Longrightarrow> matches_name e n \<longleftrightarrow> same_name (op_player q) n"
  by (auto simp: decode_op_def decode_player_match split: option.splits)

lemma decode_banned_match:
  "decode_banned e = Some q \<Longrightarrow> matches_player e p \<longleftrightarrow> same_player (fst q) p"
  "decode_banned e = Some q \<Longrightarrow> matches_name e n \<longleftrightarrow> same_name (fst q) n"
  by (auto simp: decode_banned_def decode_player_match)

lemma decode_ip_ban_match: "decode_ip_ban e = Some q \<Longrightarrow> text_of (js_prop e ''ip'') = ip \<longleftrightarrow> fst q = ip"
  by (auto simp: decode_ip_ban_def Let_def split: if_splits)

definition entries_of :: "list_file \<Rightarrow> jsval list" where
  "entries_of f = (case read_list_file f of REntries raw \<Rightarrow> raw | _ \<Rightarrow> [])"

definition shown_lists :: "(player_list \<Rightarrow> list_file) \<Rightarrow> bool \<Rightarrow> players_settings \<Rightarrow> players_overview" where
  "shown_lists files live settings =
     \<lparr>po_whitelist = decode_list decode_player (entries_of (files Whitelist)),
      po_ops = decode_list decode_op (entries_of (files Ops)),
      po_bans = decode_list decode_banned (entries_of (files Bans)),
      po_ip_bans = decode_list decode_ip_ban (entries_of (files IpBans)),
      po_settings = settings, po_live = live\<rparr>"

lemma shown_settings [simp]: "po_settings (shown_lists files live settings) = settings"
  by (simp add: shown_lists_def)

definition readable :: "list_file \<Rightarrow> bool" where
  "readable f \<longleftrightarrow> (\<exists>raw. read_list_file f = REntries raw)"

lemma read_or_fail_iff: "read_list_or_fail l f = Inr raw \<longleftrightarrow> readable f \<and> raw = entries_of f"
  by (auto simp: read_list_or_fail_def readable_def entries_of_def split: list_read.splits)

lemma overview_iff:
  "overview_of files live settings = Inr ov \<longleftrightarrow>
     (\<forall>l. readable (files l)) \<and> ov = shown_lists files live settings"
proof -
  have all: "(\<forall>l. readable (files l)) \<longleftrightarrow> readable (files Whitelist) \<and> readable (files Ops)
      \<and> readable (files Bans) \<and> readable (files IpBans)"
    by (metis player_list.exhaust)
  show ?thesis
    unfolding overview_of_def all and_then_Inr_iff read_or_fail_iff shown_lists_def by auto
qed

lemma readable_written: "list_all is_objectlike raw \<Longrightarrow> read_list_file (write_list_file raw) = REntries raw"
  by (simp add: write_list_file_def list_all_iff filter_True)

lemma entries_objects: "list_all is_objectlike (entries_of f)"
  by (cases f rule: read_list_file.cases) (simp_all add: entries_of_def list_all_iff)

lemma apply_change_objects:
  "list_all is_objectlike raw \<Longrightarrow> list_all is_objectlike (apply_change raw c now)"
  by (cases c) (auto simp: apply_change_def Let_def list_all_iff is_objectlike_def)

lemma shown_after_change:
  fixes files :: "player_list \<Rightarrow> list_file"
  assumes "change_ok c" and "four_digit_time now"
  defines "l \<equiv> change_list c"
  defines "files' \<equiv> files(l := write_list_file (apply_change (entries_of (files l)) c now))"
  shows "shown_lists files' live settings = abs_change c now (shown_lists files live settings)"
proof -
  have e: "entries_of (files' k) = (if k = l then apply_change (entries_of (files l)) c now else entries_of (files k))" for k
    using readable_written [OF apply_change_objects [OF entries_objects]]
    by (simp add: files'_def entries_of_def)
  show ?thesis
    using assms(1,2)
    by (cases c)
      (simp_all add: shown_lists_def e l_def apply_change_def decode_encoded decode_encoded_op decode_encoded_bans
        decode_list_filter [where f = decode_player, OF arg_cong [where f = Not, OF decode_player_match(1)]]
        decode_list_filter [where f = decode_player, OF arg_cong [where f = Not, OF decode_player_match(2)]]
        decode_list_filter [where f = decode_op, OF arg_cong [where f = Not, OF decode_op_match(1)]]
        decode_list_filter [where f = decode_op, OF arg_cong [where f = Not, OF decode_op_match(2)]]
        decode_list_filter [where f = decode_banned, OF arg_cong [where f = Not, OF decode_banned_match(1)]]
        decode_list_filter [where f = decode_banned, OF arg_cong [where f = Not, OF decode_banned_match(2)]]
        decode_list_filter [where f = decode_ip_ban, OF arg_cong [where f = Not, OF decode_ip_ban_match]])
qed

section \<open>Commands are one line\<close>

definition one_line :: "string \<Rightarrow> bool" where
  "one_line s \<longleftrightarrow> list_all (\<lambda>c. \<not> is_control c) s"

lemma one_line_simps [simp]:
  "one_line []"
  "one_line (c # xs) \<longleftrightarrow> \<not> is_control c \<and> one_line xs"
  "one_line (xs @ ys) \<longleftrightarrow> one_line xs \<and> one_line ys"
  by (simp_all add: one_line_def)

lemma one_line_subset: "one_line s \<Longrightarrow> set t \<subseteq> set s \<Longrightarrow> one_line t"
  by (auto simp: one_line_def list_all_iff)

lemma control_runs_one_line: "one_line (control_runs s)"
  by (induction s rule: control_runs.induct) (auto simp: is_control_def)

lemma set_trim: "set (trim s) \<subseteq> set s"
proof
  fix c assume "c \<in> set (trim s)"
  then have "c \<in> set (rev (dropWhile is_space s))" unfolding trim_def trim_start_def trim_end_def
    by (metis set_dropWhileD set_rev)
  then show "c \<in> set s" using set_dropWhileD by fastforce
qed

lemma clean_reason_one_line: "one_line (clean_reason r)"
proof (rule one_line_subset [OF control_runs_one_line])
  show "set (clean_reason r) \<subseteq> set (control_runs (case r of None \<Rightarrow> [] | Some s \<Rightarrow> s))"
    unfolding clean_reason_def by (meson order.trans set_take_subset set_trim)
qed

lemma clean_reason_length: "length (clean_reason r) \<le> 256"
  by (simp add: clean_reason_def MAX_REASON_def)

lemma name_char_not_control: "name_char c \<Longrightarrow> \<not> is_control c"
  by (auto simp: name_char_def is_control_def Let_def)

lemma mojang_name_one_line: "mojang_name s \<Longrightarrow> one_line s \<and> s \<noteq> []"
  by (auto simp: mojang_name_def one_line_def list_all_iff name_char_not_control)

lemma player_name_one_line: "PLAYER_NAME s \<Longrightarrow> one_line s \<and> s \<noteq> []"
proof (cases "mojang_name s")
  case True
  then show ?thesis by (rule mojang_name_one_line)
next
  case False
  assume "PLAYER_NAME s"
  with False have "s \<noteq> []" "hd s = CHR ''.''" "mojang_name (tl s)" by (auto simp: PLAYER_NAME_def)
  then show ?thesis using mojang_name_one_line [of "tl s"] by (cases s) (auto simp: is_control_def)
qed

text \<open>
  What the panel relies on outside: Mojang answers with account names, and an IP address is
  not empty and holds no control character.
\<close>

definition outside_ok :: "players_env \<Rightarrow> bool" where
  "outside_ok env \<longleftrightarrow> (\<forall>n p u. ev_mojang env n = Inr (Some (p, u)) \<longrightarrow> mojang_name p)
     \<and> (\<forall>ip. ev_is_ip env ip \<longrightarrow> one_line ip \<and> ip \<noteq> [])"

definition target_of :: "list_change \<Rightarrow> string" where
  "target_of c = (case c of WhitelistAdd p \<Rightarrow> pl_name p | OpsAdd p _ _ \<Rightarrow> pl_name p | BansAdd p _ \<Rightarrow> pl_name p
     | IpBansAdd ip _ \<Rightarrow> ip | WhitelistRemove n \<Rightarrow> n | OpsRemove n \<Rightarrow> n | BansRemove n \<Rightarrow> n | IpBansRemove ip \<Rightarrow> ip)"

lemma with_reason_one_line: "one_line (with_reason cmd (clean_reason r)) \<longleftrightarrow> one_line cmd"
  by (auto simp: with_reason_def clean_reason_one_line is_control_def)

lemma command_one_line: "one_line (target_of c) \<Longrightarrow> one_line (command_for c)"
  by (cases c) (simp_all add: target_of_def with_reason_one_line is_control_def)

lemma outside_mojang: "outside_ok env \<Longrightarrow> ev_mojang env n = Inr (Some (p, u)) \<Longrightarrow> one_line p \<and> p \<noteq> []"
  by (metis outside_ok_def mojang_name_one_line)

lemma outside_ip: "outside_ok env \<Longrightarrow> ev_is_ip env ip \<Longrightarrow> one_line ip \<and> ip \<noteq> []"
  by (simp add: outside_ok_def)

lemma resolved_name:
  assumes "outside_ok env" and "PLAYER_NAME name" and "context_player env ctx name = Inr p"
  shows "one_line (pl_name p) \<and> pl_name p \<noteq> []"
  using assms(3) outside_mojang [OF assms(1)] player_name_one_line [OF assms(2)]
  by (auto simp: context_player_def resolve_player_def and_then_Inr_iff Let_def
      split: if_splits sum.splits option.splits)

lemma built_target:
  assumes "outside_ok env" and "request_valid env req" and "request_check env req = Inr ()"
    and "build_change env req ctx = Inr c"
  shows "one_line (target_of c) \<and> (is_add c \<longrightarrow> target_of c \<noteq> [])"
proof (cases req)
  case (RemoveNamed l n)
  with assms(3,4) show ?thesis
    by (cases l) (auto simp: target_of_def is_add_def dest: player_name_one_line split: if_splits)
next
  case (RemoveIpBan ip)
  with assms(3,4) show ?thesis
    by (auto simp: target_of_def is_add_def dest: outside_ip [OF assms(1)] split: if_splits)
next
  case (AddIpBan ip r e a)
  with assms(2,4) show ?thesis
    by (auto simp: target_of_def is_add_def needs_stopped_server_def dest: outside_ip [OF assms(1)] split: if_splits)
next
  case (AddToWhitelist n)
  with assms(2,4) show ?thesis
    by (auto simp: target_of_def is_add_def and_then_Inr_iff dest: resolved_name [OF assms(1)])
next
  case (AddOp n l b)
  with assms(2,4) show ?thesis
    by (auto simp: target_of_def is_add_def and_then_Inr_iff Let_def needs_stopped_server_def
        dest: resolved_name [OF assms(1)] split: if_splits)
next
  case (AddBan n r e a)
  with assms(2,4) show ?thesis
    by (auto simp: target_of_def is_add_def and_then_Inr_iff needs_stopped_server_def
        dest: resolved_name [OF assms(1)] split: if_splits)
qed

section \<open>Opening a change\<close>

text \<open>What a request reads before it touches anything.\<close>

definition change_plan :: "players_env \<Rightarrow> players_request \<Rightarrow> players_server \<Rightarrow> (players_context \<times> list_change) result" where
  "change_plan env req v =
     and_then (request_check env req) (\<lambda>_.
       and_then (context_load_writable v) (\<lambda>ctx.
         and_then (build_change env req ctx) (\<lambda>c. Inr (ctx, c))))"

lemma change_plan_Inr:
  "change_plan env req v = Inr (ctx, c) \<longleftrightarrow>
     request_check env req = Inr () \<and> context_load_writable v = Inr ctx \<and> build_change env req ctx = Inr c"
  by (auto simp: change_plan_def and_then_Inr_iff)

lemma players_change_planned:
  "players_change env req v =
     (case change_plan env req v of
        Inl e \<Rightarrow> Some (Inl e, v)
      | Inr (ctx, c) \<Rightarrow>
          (case apply_with env (pc_live ctx) c v of
             None \<Rightarrow> None
           | Some (Inl e, v1) \<Rightarrow> Some (Inl e, v1)
           | Some (Inr _, v1) \<Rightarrow> Some (overview_of (pv_files v1) (pc_live ctx) (pc_settings ctx), v1)))"
  by (simp add: players_change_def change_plan_def)

lemma writable_context: "context_load_writable v = Inr ctx \<longleftrightarrow> context_load v = Inr ctx \<and> \<not> pc_busy ctx"
  by (auto simp: context_load_writable_def and_then_Inr_iff)

lemma context_flags:
  "context_load v = Inr ctx \<Longrightarrow>
     pc_live ctx = (pv_process v \<and> map_option fst (pv_row v) = Some SRunning)
     \<and> pc_busy ctx = (pv_process v \<and> map_option fst (pv_row v) \<noteq> Some SRunning)"
  by (auto simp: context_load_def Let_def split: option.splits if_splits)

lemma live_send_cases:
  "live_send env c v = Some (r, v') \<Longrightarrow>
     v' = v \<and> r \<noteq> Inr () \<or>
     v' = v\<lparr>pv_console := pv_console v @ [command_for c], pv_files := ev_files_after env\<rparr>"
  by (auto simp: live_send_def console_input_def Let_def split: if_splits option.splits sum.splits bool.splits)

lemma live_apply_cases:
  "live_apply env c v = Some (r, v') \<Longrightarrow>
     v' = v \<or> v' = v\<lparr>pv_console := pv_console v @ [command_for c], pv_files := ev_files_after env\<rparr>"
  by (auto simp: live_apply_def dest: live_send_cases split: list_read.splits if_splits)

lemma offline_apply_cases:
  "offline_apply env c v = Some (r, v') \<Longrightarrow> pv_console v' = pv_console v"
  by (auto simp: offline_apply_def split: sum.splits)


text \<open>A concrete server and surroundings for the instances below.\<close>

definition pex_blueprint :: blueprint_shape where
  "pex_blueprint = \<lparr>bp_features = Some [''players''], bp_protocol = None,
     bp_config_files = Some [(''properties'', ''server.properties'')]\<rparr>"

definition pex_server :: "server_status \<Rightarrow> bool \<Rightarrow> jsval list \<Rightarrow> players_server" where
  "pex_server st process bans =
     \<lparr>pv_row = Some (st, Some pex_blueprint), pv_process = process, pv_properties = None,
      pv_files = (\<lambda>_. LMissing)(Bans := LJson (JArr bans)), pv_console = []\<rparr>"

definition pex_env :: "int \<Rightarrow> (nat \<Rightarrow> list_file) \<Rightarrow> players_env" where
  "pex_env now polls =
     \<lparr>ev_mojang = (\<lambda>n. Inr (if n = ''steve'' then Some (''Steve'', ''u1'') else None)),
      ev_offline_uuid = (\<lambda>n. ''o-'' @ n), ev_in_network = False, ev_yaml = (\<lambda>_. JNull),
      ev_exists = (\<lambda>_. False), ev_is_ip = (\<lambda>ip. ip = ''203.0.113.7''), ev_sending = True, ev_now = now,
      ev_poll_file = polls, ev_poll_properties = (\<lambda>_. None),
      ev_poll_clock = (\<lambda>k. now + int k * 250), ev_files_after = (\<lambda>_. LMissing)(Bans := polls 3),
      ev_properties_after = None\<rparr>"

lemma pex_outside: "outside_ok (pex_env now polls)"
  by (auto simp: outside_ok_def pex_env_def mojang_name_def name_char_def is_control_def split: if_splits)

definition pex_entry :: "string \<Rightarrow> jsval" where
  "pex_entry expires = JObj [(''uuid'', JStr ''u1''), (''name'', JStr ''Steve''),
     (''created'', JStr ''2024-01-01 00:00:00 +0000''), (''source'', JStr ''admin''),
     (''expires'', JStr expires), (''reason'', JStr ''spam'')]"

definition pex_polls :: "nat \<Rightarrow> list_file" where
  "pex_polls k = (if k < 3 then LBroken else LJson (JArr [pex_entry ''forever'']))"


section \<open>A stopped server\<close>

fun expiry_of :: "players_request \<Rightarrow> int option" where
  "expiry_of (AddBan _ _ t _) = t"
| "expiry_of (AddIpBan _ _ t _) = t"
| "expiry_of _ = None"

lemma built_change_ok:
  assumes "outside_ok env" and "request_valid env req" and "pred_option four_digit_time (expiry_of req)"
    and "request_check env req = Inr ()" and "build_change env req ctx = Inr c"
  shows "change_ok c"
proof -
  have t: "is_add c \<Longrightarrow> target_of c \<noteq> []" using built_target [OF assms(1,2,4,5)] by blast
  show ?thesis
  proof (cases req)
    case (RemoveNamed l n)
    with assms(5) show ?thesis by (cases l) auto
  qed (use assms(3,5) t in \<open>auto simp: and_then_Inr_iff Let_def needs_stopped_server_def is_add_def
      target_of_def ban_of_def split: if_splits\<close>)
qed

lemma offline_apply_shown:
  assumes "readable (pv_files v (change_list c))" and "change_ok c" and "four_digit_time (ev_now env)"
  shows "\<exists>v'. offline_apply env c v = Some (Inr (), v') \<and> pv_console v' = pv_console v
     \<and> pv_files v' = (pv_files v)(change_list c :=
          write_list_file (apply_change (entries_of (pv_files v (change_list c))) c (ev_now env)))
     \<and> v' = v\<lparr>pv_files := pv_files v'\<rparr>"
proof -
  have "read_list_or_fail (change_list c) (pv_files v (change_list c)) = Inr (entries_of (pv_files v (change_list c)))"
    using assms(1) by (simp add: read_or_fail_iff)
  then show ?thesis by (simp add: offline_apply_def)
qed

lemma context_load_files: "context_load (v\<lparr>pv_files := f\<rparr>) = context_load v"
  by (cases "pv_row v") (auto simp: context_load_def server_properties_record_def Let_def)



section \<open>A running server\<close>

lemma poll_from_true:
  "poll_from n check clock deadline interval k = Some (Inr True) \<Longrightarrow> \<exists>j. k \<le> j \<and> j < k + n \<and> check j = Inr True"
proof (induction n arbitrary: k)
  case 0
  then show ?case by simp
next
  case (Suc n)
  show ?case
  proof (cases "check k = Inr True")
    case True
    then show ?thesis by (intro exI [of _ k]) simp
  next
    case False
    with Suc.prems have "poll_from n check clock deadline interval (Suc k) = Some (Inr True)"
      by (auto split: sum.splits bool.splits if_splits)
    from Suc.IH [OF this] obtain j where "Suc k \<le> j" "j < Suc k + n" "check j = Inr True" by blast
    then show ?thesis by (intro exI [of _ j]) simp
  qed
qed

text \<open>A clock that goes on by at least the pause between two checks.\<close>

definition steady :: "int \<Rightarrow> int \<Rightarrow> (nat \<Rightarrow> int) \<Rightarrow> bool" where
  "steady start interval clock \<longleftrightarrow> start \<le> clock 0 \<and> (\<forall>k. clock k + interval \<le> clock (Suc k))"

lemma steady_clock: "steady start interval clock \<Longrightarrow> start + int k * interval \<le> clock k"
proof (induction k)
  case 0
  then show ?case by (simp add: steady_def)
next
  case (Suc k)
  then have "start + int k * interval \<le> clock k" "clock k + interval \<le> clock (Suc k)"
    by (simp_all add: steady_def)
  then show ?case by (simp add: algebra_simps)
qed

lemma poll_from_returns:
  assumes "steady start interval clock" and "timeout < (int k + int n) * interval" and "0 < n"
  shows "poll_from n check clock (start + timeout) interval k \<noteq> None"
  using assms(2,3)
proof (induction n arbitrary: k)
  case 0
  then show ?case by simp
next
  case (Suc n)
  show ?case
  proof (cases "n = 0")
    case True
    have "start + timeout < clock k + interval"
      using steady_clock [OF assms(1), of k] Suc.prems(1) True by (simp add: algebra_simps)
    then show ?thesis by (auto split: sum.splits bool.splits)
  next
    case False
    have "poll_from n check clock (start + timeout) interval (Suc k) \<noteq> None"
      using Suc.prems(1) False by (intro Suc.IH) (simp_all add: algebra_simps)
    then show ?thesis by (auto split: sum.splits bool.splits)
  qed
qed

lemma poll_until_returns:
  assumes "steady start POLL_INTERVAL_MS clock" and "0 \<le> timeout"
  shows "poll_until (poll_fuel timeout) check start clock timeout POLL_INTERVAL_MS \<noteq> None"
proof -
  have "timeout < (int 0 + int (poll_fuel timeout)) * POLL_INTERVAL_MS"
    using assms(2) div_bounds [of POLL_INTERVAL_MS timeout]
    by (simp add: poll_fuel_def POLL_INTERVAL_MS_def algebra_simps)
  then show ?thesis
    unfolding poll_until_def by (rule poll_from_returns [OF assms(1)]) (simp add: poll_fuel_def)
qed

lemma live_send_returns: "steady (ev_now env) POLL_INTERVAL_MS (ev_poll_clock env) \<Longrightarrow> live_send env c v \<noteq> None"
  using poll_until_returns [of "ev_now env" "ev_poll_clock env" CONFIRM_TIMEOUT_MS "confirm_check env c"]
  by (auto simp: live_send_def console_input_def Let_def CONFIRM_TIMEOUT_MS_def split: option.splits sum.splits bool.splits)

text \<open>
  Every request comes to an end: while the clock goes on, no poll of the list files makes more
  than 25 checks and none of \<open>server.properties\<close> more than 17, whatever the server does.
\<close>

theorem players_requests_end:
  assumes "steady (ev_now env) POLL_INTERVAL_MS (ev_poll_clock env)"
  shows "players_change env req v \<noteq> None \<and> settings_update env w e v \<noteq> None
    \<and> poll_fuel CONFIRM_TIMEOUT_MS = 25 \<and> poll_fuel TOGGLE_TIMEOUT_MS = 17"
proof -
  have applied: "apply_with env l c v \<noteq> None" for l c
    using live_send_returns [OF assms]
    by (auto simp: apply_with_def live_apply_def offline_apply_def split: list_read.splits sum.splits)
  have "players_change env req v \<noteq> None"
  proof (cases "change_plan env req v")
    case (Inl e)
    then show ?thesis by (simp add: players_change_planned)
  next
    case (Inr p)
    obtain ctx c where p: "p = (ctx, c)" by (cases p)
    obtain r v1 where "apply_with env (pc_live ctx) c v = Some (r, v1)" using applied by fast
    with Inr p show ?thesis by (cases r) (simp_all add: players_change_planned)
  qed
  moreover have ends: False if "poll_until (poll_fuel TOGGLE_TIMEOUT_MS) check (ev_now env) (ev_poll_clock env)
      TOGGLE_TIMEOUT_MS POLL_INTERVAL_MS = None" for check
    using poll_until_returns [OF assms, of TOGGLE_TIMEOUT_MS check] that by (simp add: TOGGLE_TIMEOUT_MS_def)
  have toggled: False if "toggle_live env ctx w v = None" for ctx
    using that by (auto simp: toggle_live_def console_input_def dest: ends split: if_splits option.splits bool.splits)
  then have "settings_update env w e v \<noteq> None"
    by (auto simp: settings_update_def Let_def dest: toggled split: sum.splits option.splits prod.splits)
  ultimately show ?thesis by (simp add: poll_fuel_def CONFIRM_TIMEOUT_MS_def TOGGLE_TIMEOUT_MS_def POLL_INTERVAL_MS_def)
qed

theorem players_requests_end_witness:
  "let env = pex_env 1753449600000 (\<lambda>_. LBroken)
   in players_change env (AddToWhitelist ''steve'') (pex_server SRunning True []) \<noteq> None
     \<and> settings_update env (Some True) None (pex_server SRunning True []) \<noteq> None
     \<and> poll_fuel CONFIRM_TIMEOUT_MS = 25 \<and> poll_fuel TOGGLE_TIMEOUT_MS = 17"
proof -
  have "steady (ev_now (pex_env 1753449600000 (\<lambda>_. LBroken))) POLL_INTERVAL_MS
      (ev_poll_clock (pex_env 1753449600000 (\<lambda>_. LBroken)))"
    by (simp add: steady_def pex_env_def POLL_INTERVAL_MS_def)
  from players_requests_end [OF this, of "AddToWhitelist ''steve''" "pex_server SRunning True []" "Some True" None]
  show ?thesis unfolding Let_def .
qed

text \<open>
  On a running server a change is reported as done only when the file shows it: it was there
  before and nothing happened, or the command was sent once and one of at most 25 polls found
  the change in the file.
\<close>

theorem live_change_confirmed:
  assumes "players_change env req v = Some (Inr ov, v')" and "context_load v = Inr ctx" and "pc_live ctx"
  shows "\<exists>c. build_change env req ctx = Inr c \<and>
     (v' = v \<and> is_applied (entries_of (pv_files v (change_list c))) c
      \<or> pv_console v' = pv_console v @ [command_for c]
        \<and> (\<exists>k < 25. is_applied (entries_of (ev_poll_file env k)) c))"
proof -
  obtain c where p: "change_plan env req v = Inr (ctx, c)"
      and a: "apply_with env (pc_live ctx) c v = Some (Inr (), v')"
    using assms(1,2) by (auto simp: players_change_planned change_plan_Inr writable_context
      split: sum.splits option.splits)
  have c: "build_change env req ctx = Inr c" using p by (simp add: change_plan_Inr)
  have sent: "pv_console v' = pv_console v @ [command_for c]
      \<and> (\<exists>k < 25. is_applied (entries_of (ev_poll_file env k)) c)" if "live_send env c v = Some (Inr (), v')"
  proof -
    from that have "poll_until (poll_fuel CONFIRM_TIMEOUT_MS) (confirm_check env c) (ev_now env)
        (ev_poll_clock env) CONFIRM_TIMEOUT_MS POLL_INTERVAL_MS = Some (Inr True)"
      and console: "pv_console v' = pv_console v @ [command_for c]"
      by (auto simp: live_send_def console_input_def Let_def split: if_splits option.splits sum.splits bool.splits)
    then obtain k where "k < poll_fuel CONFIRM_TIMEOUT_MS" "confirm_check env c k = Inr True"
      unfolding poll_until_def by (auto dest: poll_from_true)
    moreover have "poll_fuel CONFIRM_TIMEOUT_MS = 25"
      by (simp add: poll_fuel_def CONFIRM_TIMEOUT_MS_def POLL_INTERVAL_MS_def)
    ultimately have "k < 25 \<and> is_applied (entries_of (ev_poll_file env k)) c"
      by (auto simp: confirm_check_def entries_of_def split: list_read.splits)
    with console show ?thesis by blast
  qed
  show ?thesis
    using a assms(3) c sent
    by (auto simp: apply_with_def live_apply_def entries_of_def split: list_read.splits if_splits)
qed

section \<open>Who may touch what\<close>

text \<open>
  The panel and a running server never write the same files: while the server starts or stops
  a request fails and changes nothing, while it runs the panel writes no list file, and while
  it does not run the panel sends no command.
\<close>

theorem one_owner_of_lists:
  assumes "players_change env req v = Some (r, v')" and "pv_row v = Some (status, b)"
  shows "(pv_process v \<and> status \<noteq> SRunning \<longrightarrow> v' = v \<and> \<not> is_ok r)
    \<and> (pv_process v \<and> status = SRunning \<longrightarrow>
         v' = v \<or> pv_files v' = ev_files_after env \<and> (\<exists>cmd. pv_console v' = pv_console v @ [cmd]))
    \<and> (\<not> pv_process v \<longrightarrow> pv_console v' = pv_console v)"
proof (cases "change_plan env req v")
  case (Inl e)
  with assms(1) have "v' = v \<and> \<not> is_ok r" by (auto simp: players_change_planned)
  then show ?thesis by simp
next
  case (Inr p)
  obtain ctx c where p: "p = (ctx, c)" by (cases p)
  have ctx: "context_load v = Inr ctx" "\<not> pc_busy ctx"
    using Inr p by (simp_all add: change_plan_Inr writable_context)
  obtain r1 where a: "apply_with env (pc_live ctx) c v = Some (r1, v')"
    using assms(1) Inr p by (auto simp: players_change_planned split: option.splits sum.splits)
  have flags: "pc_live ctx = (pv_process v \<and> status = SRunning)" "\<not> (pv_process v \<and> status \<noteq> SRunning)"
    using context_flags [OF ctx(1)] ctx(2) assms(2) by auto
  show ?thesis
  proof (cases "pc_live ctx")
    case True
    with a have "v' = v \<or> v' = v\<lparr>pv_console := pv_console v @ [command_for c], pv_files := ev_files_after env\<rparr>"
      by (auto simp: apply_with_def dest: live_apply_cases)
    with flags True show ?thesis by auto
  next
    case False
    with a flags show ?thesis by (auto simp: apply_with_def dest: offline_apply_cases)
  qed
qed

theorem live_change_confirmed_witness:
  "let env = pex_env 1753449600000 pex_polls; v = pex_server SRunning True [];
       v' = snd (the (players_change env (AddBan ''steve'' None None ''admin'') v))
   in pv_console v' = [''ban Steve''] \<and> (\<exists>k < 25. entries_of (ev_poll_file env k) \<noteq> [])"
proof -
  let ?env = "pex_env 1753449600000 pex_polls" and ?v = "pex_server SRunning True []"
  let ?req = "AddBan ''steve'' None None ''admin''"
  let ?ctx = "\<lparr>pc_live = True, pc_busy = False, pc_settings = \<lparr>ps_whitelist = False, ps_enforce = False,
    ps_online = True, ps_op_level = 4\<rparr>\<rparr>"
  let ?c = "BansAdd \<lparr>pl_name = ''Steve'', pl_uuid = ''u1''\<rparr>
    \<lparr>bc_reason = [], bc_source = ''admin'', bc_expires = None\<rparr>"
  have ok: "case players_change ?env ?req ?v of Some (Inr _, _) \<Rightarrow> True | _ \<Rightarrow> False" by code_simp
  then obtain ov v' where out: "players_change ?env ?req ?v = Some (Inr ov, v')"
    by (auto split: option.splits prod.splits sum.splits)
  have ctx: "context_load ?v = Inr ?ctx" by code_simp
  have c: "build_change ?env ?req ?ctx = Inr ?c" by code_simp
  have before: "\<not> is_applied (entries_of (pv_files ?v (change_list ?c))) ?c" by code_simp
  have cmd: "pv_console ?v @ [command_for ?c] = [''ban Steve'']" by code_simp
  have add: "is_applied [] ?c = False" by code_simp
  from live_change_confirmed [OF out ctx] c before cmd
  have r: "pv_console v' = [''ban Steve'']" "\<exists>k < 25. is_applied (entries_of (ev_poll_file ?env k)) ?c" by auto
  from r(2) obtain k where k: "k < 25" "is_applied (entries_of (ev_poll_file ?env k)) ?c" by blast
  then have "entries_of (ev_poll_file ?env k) \<noteq> []" using add by metis
  with k(1) r(1) show ?thesis unfolding Let_def out option.sel snd_conv by blast
qed

theorem one_owner_of_lists_witness:
  "let env = pex_env 1753449600000 pex_polls; v = pex_server SStopping True [];
       out = the (players_change env (AddToWhitelist ''steve'') v)
   in snd out = v \<and> \<not> is_ok (fst out)"
proof -
  let ?env = "pex_env 1753449600000 pex_polls" and ?v = "pex_server SStopping True []"
  have "case players_change ?env (AddToWhitelist ''steve'') ?v of None \<Rightarrow> False | Some _ \<Rightarrow> True" by code_simp
  then obtain r v' where out: "players_change ?env (AddToWhitelist ''steve'') ?v = Some (r, v')"
    by (auto split: option.splits)
  have row: "pv_row ?v = Some (SStopping, Some pex_blueprint)" "pv_process ?v" by (simp_all add: pex_server_def)
  from one_owner_of_lists [OF out row(1)] row(2) show ?thesis
    unfolding Let_def out option.sel fst_conv snd_conv by simp
qed

section \<open>Two cases that go wrong\<close>

text \<open>
  The files keep a ban that is over until the server writes them again, and the panel takes
  such an entry for an applied change: banning the player again on a running server reports
  success, and no command is sent.
\<close>

theorem stale_ban_blocks_ban:
  assumes "context_load v = Inr ctx" and "pc_live ctx"
    and "context_player env ctx name = Inr p"
    and "read_list_file (pv_files v Bans) = REntries raw" and "e \<in> set raw" and "matches_player e p"
    and "bf_expires (decode_ban e) = Some t" and "t < ev_now env"
  shows "players_change env (AddBan name reason None actor) v =
    Some (overview_of (pv_files v) True (pc_settings ctx), v)"
proof -
  have busy: "\<not> pc_busy ctx" using context_flags [OF assms(1)] assms(2) by auto
  let ?c = "BansAdd p (ban_of reason None actor)"
  have plan: "change_plan env (AddBan name reason None actor) v = Inr (ctx, ?c)"
    using assms(1-3) busy by (simp add: change_plan_Inr writable_context)
  have "is_applied raw ?c"
    using assms(5,6) by (auto simp: is_applied_def is_add_def list_ex_iff)
  then have "live_apply env ?c v = Some (Inr (), v)" by (simp add: live_apply_def assms(4))
  then show ?thesis using plan assms(2) by (simp add: players_change_planned apply_with_def)
qed

theorem stale_ban_blocks_ban_witness:
  "let env = pex_env 1753449600000 pex_polls; v = pex_server SRunning True [pex_entry ''2024-01-02 00:00:00 +0000''];
       out = the (players_change env (AddBan ''steve'' None None ''admin'') v)
   in snd out = v \<and> pv_console v = []"
proof -
  let ?env = "pex_env 1753449600000 pex_polls" and ?e = "pex_entry ''2024-01-02 00:00:00 +0000''"
  let ?v = "pex_server SRunning True [?e]"
  let ?ctx = "\<lparr>pc_live = True, pc_busy = False, pc_settings = \<lparr>ps_whitelist = False, ps_enforce = False,
    ps_online = True, ps_op_level = 4\<rparr>\<rparr>"
  let ?p = "\<lparr>pl_name = ''Steve'', pl_uuid = ''u1''\<rparr>"
  have a: "context_load ?v = Inr ?ctx" "context_player ?env ?ctx ''steve'' = Inr ?p" by code_simp+
  have f: "read_list_file (pv_files ?v Bans) = REntries [?e]"
    by (simp add: pex_server_def pex_entry_def is_objectlike_def)
  have m: "matches_player ?e ?p" "bf_expires (decode_ban ?e) = Some 1704153600000" by code_simp+
  have n: "(1704153600000::int) < ev_now ?env" by (simp add: pex_env_def)
  have "players_change ?env (AddBan ''steve'' None None ''admin'') ?v =
      Some (overview_of (pv_files ?v) True (pc_settings ?ctx), ?v)"
    by (rule stale_ban_blocks_ban [OF a(1) _ a(2) f _ m n]) simp_all
  then show ?thesis unfolding Let_def by (simp add: pex_server_def)
qed

text \<open>
  The check for a starting server looks at the process, which does not exist while a launch is
  being prepared: a start request that was just accepted leaves the status \<open>STARTING\<close>, and the
  player lists are still written as on a stopped server.
\<close>

theorem starting_server_takes_changes:
  assumes "inst_start holder w = (Inr True, w')" and "in_status w \<noteq> None"
    and "pv_row v = Some (the (in_status w'), b)" and "pv_process v = is_running w'"
    and "supports_player_lists b"
  shows "in_status w' = Some SStarting
    \<and> (\<exists>ctx. context_load_writable v = Inr ctx \<and> \<not> pc_live ctx)"
proof -
  have w': "in_status w' = Some SStarting \<and> \<not> is_running w'"
    using assms(1,2)
    by (auto simp: inst_start_def launch_begin_def update_status_def Let_def is_running_def
        split: if_splits option.splits)
  then have "\<exists>ctx. context_load v = Inr ctx" using assms(3,5) by (simp add: context_load_def Let_def)
  then obtain ctx where ctx: "context_load v = Inr ctx" by blast
  from context_flags [OF ctx] w' assms(3,4) ctx show ?thesis by (auto simp: writable_context)
qed

theorem starting_server_takes_changes_witness:
  "let w = \<lparr>in_status = Some SStopped, in_setting = None, in_current = None, in_alive = [], in_next = 0,
         in_attempts = 0, in_shutting = False, in_exit_requested = False, in_disposed = False, in_stop = None,
         in_waiters = [], in_answers = [], in_launches = [], in_adopting = [], in_crash_timers = 0,
         in_restart_timers = 0, in_log = []\<rparr>;
       w' = snd (inst_start None w);
       v = pex_server (the (in_status w')) (is_running w') []
   in in_status w' = Some SStarting \<and> (\<exists>ctx. context_load_writable v = Inr ctx \<and> \<not> pc_live ctx)"
proof -
  let ?w = "\<lparr>in_status = Some SStopped, in_setting = None, in_current = None, in_alive = [], in_next = 0,
         in_attempts = 0, in_shutting = False, in_exit_requested = False, in_disposed = False, in_stop = None,
         in_waiters = [], in_answers = [], in_launches = [], in_adopting = [], in_crash_timers = 0,
         in_restart_timers = 0, in_log = []\<rparr>"
  let ?w' = "snd (inst_start None ?w)"
  have s: "inst_start None ?w = (Inr True, ?w')"
    by (simp add: inst_start_def launch_begin_def is_running_def Let_def)
  have b: "supports_player_lists (Some pex_blueprint)" by code_simp
  have v: "pv_row (pex_server (the (in_status ?w')) (is_running ?w') []) = Some (the (in_status ?w'), Some pex_blueprint)"
    "pv_process (pex_server (the (in_status ?w')) (is_running ?w') []) = is_running ?w'"
    by (simp_all add: pex_server_def)
  have "in_status ?w \<noteq> None" by simp
  from starting_server_takes_changes [OF s this v b] show ?thesis unfolding Let_def .
qed

section \<open>The settings\<close>

definition flag_change :: "bool option \<Rightarrow> bool \<Rightarrow> bool" where
  "flag_change given old = (case given of None \<Rightarrow> old | Some b \<Rightarrow> b)"

lemma flag_reads: "property_flag (Some (flag_text b)) = b"
  by (cases b) (simp_all add: flag_text_def, code_simp+)

lemma settings_of_edit:
  "read_players_settings (Some (to_record (settings_edit w e d))) =
     (read_players_settings (Some (to_record d)))
       \<lparr>ps_whitelist := flag_change w (ps_whitelist (read_players_settings (Some (to_record d)))),
        ps_enforce := flag_change e (ps_enforce (read_players_settings (Some (to_record d))))\<rparr>"
proof -
  have k: "lit ''enforce-whitelist'' \<noteq> lit ''white-list''" "lit ''op-permission-level'' \<noteq> lit ''white-list''"
    "lit ''online-mode'' \<noteq> lit ''white-list''" "lit ''op-permission-level'' \<noteq> lit ''enforce-whitelist''"
    "lit ''online-mode'' \<noteq> lit ''enforce-whitelist''" by code_simp+
  have p: "prop_get (settings_edit w e d) j =
      (if j = lit ''enforce-whitelist'' \<and> e \<noteq> None then Some (flag_text (the e))
       else if j = lit ''white-list'' \<and> w \<noteq> None then Some (flag_text (the w)) else prop_get d j)" for j
    by (cases w; cases e) (auto simp: settings_edit_def prop_get_set)
  show ?thesis
    unfolding read_players_settings_def props_value_def option.case map_of_record p
    by (cases w; cases e) (simp_all add: k k [symmetric] flag_reads flag_change_def Let_def)
qed

lemma settings_edit_ok: "doc_ok d \<Longrightarrow> doc_ok (settings_edit w e d)"
proof -
  have k: "key_ok (lit ''white-list'')" "key_ok (lit ''enforce-whitelist'')" by code_simp+
  show "doc_ok d \<Longrightarrow> doc_ok (settings_edit w e d)"
    by (auto simp: settings_edit_def doc_ok_set k split: option.splits)
qed

text \<open>
  Changing the two whitelist settings of a server that does not run changes just these: the
  answer has the requested values and the old ones for what was not given, the permission
  level and the online mode as before, and the next request reads the same settings from the
  file.
\<close>

theorem settings_change_exact:
  assumes "context_load v = Inr ctx" and "\<not> pv_process v"
    and "pv_properties v = Some t" and "\<not> last_line_open t" and "\<forall>l. readable (pv_files v l)"
  shows "\<exists>ov v'. settings_update env w e v = Some (Inr ov, v')
    \<and> po_settings ov = (pc_settings ctx)
       \<lparr>ps_whitelist := flag_change w (ps_whitelist (pc_settings ctx)),
        ps_enforce := flag_change e (ps_enforce (pc_settings ctx))\<rparr>
    \<and> context_load v' = Inr (ctx\<lparr>pc_settings := po_settings ov\<rparr>)
    \<and> pv_console v' = pv_console v \<and> pv_files v' = pv_files v"
proof -
  let ?d = "parse_doc t"
  let ?s = "settings_edit w e ?d"
  let ?v = "v\<lparr>pv_properties := Some (doc_text ?s)\<rparr>"
  let ?ov = "shown_lists (pv_files v) (pc_live ctx) (read_players_settings (Some (to_record ?s)))"
  have flags: "\<not> pc_live ctx" "\<not> pc_busy ctx" using context_flags [OF assms(1)] assms(2) by simp_all
  have w: "context_load_writable v = Inr ctx" using assms(1) flags by (simp add: writable_context)
  have "toggle_live env ctx w v = Some (Inr (), v)"
    using flags by (simp add: toggle_live_def split: option.splits)
  moreover have "overview_of (pv_files v) (pc_live ctx) (read_players_settings (Some (to_record ?s))) = Inr ?ov"
    unfolding overview_iff using assms(5) by blast
  ultimately have out: "settings_update env w e v = Some (Inr ?ov, ?v)"
    by (simp add: settings_update_def w update_properties_file_def read_properties_file_def assms(3) Let_def)
  have set: "pc_settings ctx = read_players_settings (Some (to_record ?d))"
    using assms(1) by (auto simp: context_load_def server_properties_record_def server_properties_read_def
        read_properties_file_def assms(3) Let_def split: option.splits if_splits)
  have po: "po_settings ?ov = read_players_settings (Some (to_record ?s))"
    by (simp add: shown_lists_def)
  have "doc_ok ?s" by (rule settings_edit_ok [OF parse_doc_ok [OF assms(4)]])
  then have re: "to_record (parse_doc (doc_text ?s)) = to_record ?s" by (simp add: to_record_kvs kvs_reparse)
  have "context_load ?v = Inr (ctx\<lparr>pc_settings := po_settings ?ov\<rparr>)"
    using assms(1) by (auto simp: po context_load_def server_properties_record_def server_properties_read_def
        read_properties_file_def Let_def re split: option.splits if_splits)
  with out show ?thesis by (intro exI [of _ ?ov] exI [of _ ?v]) (simp add: po settings_of_edit set)
qed

theorem settings_change_exact_witness:
  "let v = (pex_server SStopped False [])\<lparr>pv_properties := Some (lit ''white-list=false'')\<rparr>
   in \<exists>ov v'. settings_update (pex_env 0 pex_polls) (Some True) None v = Some (Inr ov, v')
        \<and> ps_whitelist (po_settings ov) \<and> ps_op_level (po_settings ov) = 4"
proof -
  let ?v = "(pex_server SStopped False [])\<lparr>pv_properties := Some (lit ''white-list=false'')\<rparr>"
  let ?ctx = "\<lparr>pc_live = False, pc_busy = False, pc_settings = \<lparr>ps_whitelist = False, ps_enforce = False,
    ps_online = True, ps_op_level = 4\<rparr>\<rparr>"
  have ctx: "context_load ?v = Inr ?ctx" by code_simp
  have o: "\<not> last_line_open (lit ''white-list=false'')" by code_simp
  have v: "\<not> pv_process ?v" "pv_properties ?v = Some (lit ''white-list=false'')"
    by (simp_all add: pex_server_def)
  have r: "\<forall>l. readable (pv_files ?v l)" by (simp add: pex_server_def readable_def)
  from settings_change_exact [OF ctx v o r, of "pex_env 0 pex_polls" "Some True" None] obtain ov v' where
    out: "settings_update (pex_env 0 pex_polls) (Some True) None ?v = Some (Inr ov, v')"
    and po: "po_settings ov = (pc_settings ?ctx)\<lparr>ps_whitelist := flag_change (Some True) (ps_whitelist (pc_settings ?ctx)),
        ps_enforce := flag_change None (ps_enforce (pc_settings ?ctx))\<rparr>" by blast
  from po have "ps_whitelist (po_settings ov)" "ps_op_level (po_settings ov) = 4" by (simp_all add: flag_change_def)
  with out show ?thesis unfolding Let_def by blast
qed

end
