(* ===== verification/Paths.thy ===== *)
theory Paths
  imports Prelude
begin

text \<open>
  Paths and the checks that keep them inside a folder (\<open>core/utils/paths.ts\<close>,
  \<open>core/utils/serverPath.ts\<close>, \<open>modpacks/mrpack/mrpack-paths.ts\<close>), on a POSIX host: the functions of
  Node's \<open>path\<close> module over strings, and a file system with symbolic links.
\<close>

section \<open>Node's \<open>path\<close>\<close>

abbreviation slash :: char where "slash \<equiv> CHR ''/''"

definition dot :: string where "dot = ''.''"
definition dotdot :: string where "dotdot = ''..''"

definition is_absolute :: "string \<Rightarrow> bool" where
  "is_absolute p \<longleftrightarrow> p \<noteq> [] \<and> hd p = slash"

text \<open>
  The segments of a path after \<open>.\<close>, \<open>..\<close> and repeated slashes are worked off; the first
  argument says whether leading \<open>..\<close> are kept, the second holds the segments so far, last first.
\<close>

fun norm_segs :: "bool \<Rightarrow> string list \<Rightarrow> string list \<Rightarrow> string list" where
  "norm_segs up acc [] = rev acc"
| "norm_segs up acc (s # ss) =
     (if s = [] \<or> s = dot then norm_segs up acc ss
      else if s = dotdot then
        (case acc of
           [] \<Rightarrow> norm_segs up (if up then [dotdot] else []) ss
         | a # acc1 \<Rightarrow> if a \<noteq> dotdot then norm_segs up acc1 ss
                    else norm_segs up (if up then dotdot # acc else acc) ss)
      else norm_segs up (s # acc) ss)"

definition segs :: "bool \<Rightarrow> string \<Rightarrow> string list" where
  "segs up p = norm_segs up [] (split_on slash p)"

definition ends_with_slash :: "string \<Rightarrow> bool" where
  "ends_with_slash p \<longleftrightarrow> p \<noteq> [] \<and> last p = slash"

definition normalize_path :: "string \<Rightarrow> string" where
  "normalize_path p =
     (if p = [] then dot
      else let ab = is_absolute p; body = join [slash] (segs (\<not> ab) p); trailing = ends_with_slash p in
        if body = [] then (if ab then [slash] else if trailing then ''./'' else dot)
        else (if ab then [slash] else []) @ body @ (if trailing then [slash] else []))"

definition join_paths :: "string list \<Rightarrow> string" where
  "join_paths ps =
     (let parts = filter (\<lambda>p. p \<noteq> []) ps in
      if parts = [] then dot else normalize_path (join [slash] parts))"

text \<open>\<open>resolve\<close>: the last absolute argument, or the current folder, with what follows it.\<close>

fun absolute_text :: "string \<Rightarrow> string list \<Rightarrow> string" where
  "absolute_text cwd [] = cwd"
| "absolute_text cwd (p # ps) =
     absolute_text (if is_absolute p then p else if p = [] then cwd else cwd @ [slash] @ p) ps"

definition abs_segs :: "string \<Rightarrow> string list \<Rightarrow> string list" where
  "abs_segs cwd ps = segs False (absolute_text cwd ps)"

definition path_text :: "string list \<Rightarrow> string" where
  "path_text ss = [slash] @ join [slash] ss"

definition resolve_path :: "string \<Rightarrow> string list \<Rightarrow> string" where
  "resolve_path cwd ps = path_text (abs_segs cwd ps)"

fun strip_common :: "string list \<Rightarrow> string list \<Rightarrow> string list \<times> string list" where
  "strip_common (a # as) (b # bs) = (if a = b then strip_common as bs else (a # as, b # bs))"
| "strip_common as bs = (as, bs)"

definition relative_path :: "string \<Rightarrow> string \<Rightarrow> string \<Rightarrow> string" where
  "relative_path cwd p q =
     (case strip_common (abs_segs cwd [p]) (abs_segs cwd [q]) of
        (ups, downs) \<Rightarrow> join [slash] (map (\<lambda>_. dotdot) ups @ downs))"

definition dirname_segs :: "string list \<Rightarrow> string list" where
  "dirname_segs ss = butlast ss"

section \<open>Staying inside, by text\<close>

definition is_inside :: "string \<Rightarrow> string \<Rightarrow> string \<Rightarrow> bool" where
  "is_inside cwd base target =
     (let rel = relative_path cwd (resolve_path cwd [base]) (resolve_path cwd [target]) in
      if rel = [] then True
      else rel \<noteq> dotdot \<and> \<not> prefix (dotdot @ [slash]) rel \<and> \<not> is_absolute rel)"

text \<open>\<open>/[\\/]|\.\./.test(id)\<close>.\<close>

definition bad_server_id :: "string \<Rightarrow> bool" where
  "bad_server_id i \<longleftrightarrow> i = [] \<or> slash \<in> set i \<or> CHR 0x5C \<in> set i \<or> index_of dotdot i \<noteq> None"

definition get_server_path :: "string \<Rightarrow> string" where
  "get_server_path i = ''./servers/'' @ i"

abbreviation traversal :: "'a result" where
  "traversal \<equiv> fail BadRequest ''Invalid path: directory traversal attempt detected''"

definition get_safe_server_path :: "string \<Rightarrow> string \<Rightarrow> string \<Rightarrow> string result" where
  "get_safe_server_path cwd i requested =
     (if bad_server_id i then fail BadRequest ''Invalid server id''
      else
        let base = resolve_path cwd [get_server_path i];
            full = resolve_path cwd [join_paths [base, normalize_path requested]]
        in if \<not> is_inside cwd base full then traversal else Inr full)"

definition assert_safe_file_name :: "string \<Rightarrow> string result" where
  "assert_safe_file_name name =
     (if name = [] \<or> name = dot \<or> name = dotdot
         \<or> list_ex (\<lambda>c. c \<in> {CHR 0x5C, slash, CHR 0x00, CHR '':''}) name \<or> 255 < length name
      then fail BadRequest (''Unsafe file name: '' @ name) else Inr name)"

definition get_server_content_path :: "string \<Rightarrow> string \<Rightarrow> string \<Rightarrow> string \<Rightarrow> string result" where
  "get_server_content_path cwd i folder name =
     and_then (assert_safe_file_name name) (\<lambda>n. get_safe_server_path cwd i (join_paths [folder, n]))"

section \<open>Paths of a modpack\<close>

definition unsafe_path :: "string \<Rightarrow> 'a result" where
  "unsafe_path p = fail_code Internal ''UNSAFE_PATH'' (''Unsafe path in modpack: '' @ p)"

definition is_letter :: "char \<Rightarrow> bool" where
  "is_letter c = (let n = (of_char c :: nat) in 65 \<le> n \<and> n \<le> 90 \<or> 97 \<le> n \<and> n \<le> 122)"

definition drive_letter :: "string \<Rightarrow> bool" where
  "drive_letter p \<longleftrightarrow> 2 \<le> length p \<and> is_letter (p ! 0) \<and> p ! 1 = CHR '':''"

definition strip_slashes :: "string \<Rightarrow> string" where
  "strip_slashes p = rev (dropWhile (\<lambda>c. c = slash) (rev p))"

definition safe_relative_path :: "string \<Rightarrow> string result" where
  "safe_relative_path raw =
     (if raw = [] \<or> CHR 0x00 \<in> set raw then unsafe_path raw
      else if CHR 0x5C \<in> set raw \<or> is_absolute raw \<or> drive_letter raw then unsafe_path raw
      else if list_ex (\<lambda>s. s = dotdot) (split_on slash raw) then unsafe_path raw
      else let normalized = strip_slashes (normalize_path raw) in
        if normalized = [] \<or> normalized = dot \<or> prefix (dotdot @ [slash]) normalized then unsafe_path raw
        else Inr normalized)"

definition jail_path :: "string \<Rightarrow> string \<Rightarrow> string \<Rightarrow> string result" where
  "jail_path cwd base_dir relative =
     (let base = resolve_path cwd [base_dir] in
      and_then (safe_relative_path relative) (\<lambda>r.
        let full = resolve_path cwd [base, r] in
        if full = base \<or> \<not> is_inside cwd base full then unsafe_path relative else Inr full))"

datatype override_layer = Overrides | ServerOverrides

definition layer_prefix :: "override_layer \<Rightarrow> string" where
  "layer_prefix l = (case l of Overrides \<Rightarrow> ''overrides/'' | ServerOverrides \<Rightarrow> ''server-overrides/'')"

text \<open>The layers are tried in this order; the first that fits decides.\<close>

fun override_in :: "override_layer list \<Rightarrow> string \<Rightarrow> (override_layer \<times> string) option result" where
  "override_in [] name = Inr None"
| "override_in (l # ls) name =
     (if \<not> prefix (layer_prefix l) name then override_in ls name
      else let rest = drop (length (layer_prefix l)) name in
        if rest = [] \<or> ends_with_slash rest then Inr None
        else and_then (safe_relative_path rest) (\<lambda>p. Inr (Some (l, p))))"

definition override_entry :: "string \<Rightarrow> (override_layer \<times> string) option result" where
  "override_entry entry =
     override_in [ServerOverrides, Overrides] (if prefix ''./'' entry then drop 2 entry else entry)"

section \<open>Segments\<close>

definition clean_seg :: "string \<Rightarrow> bool" where
  "clean_seg s \<longleftrightarrow> s \<noteq> [] \<and> s \<noteq> dot \<and> s \<noteq> dotdot \<and> slash \<notin> set s"

lemma norm_segs_clean:
  "list_all clean_seg acc \<Longrightarrow> \<forall>s \<in> set ss. slash \<notin> set s \<Longrightarrow> list_all clean_seg (norm_segs False acc ss)"
proof (induction ss arbitrary: acc)
  case Nil
  then show ?case by (simp add: list_all_rev)
next
  case (Cons s ss)
  then show ?case by (cases acc) (auto simp: clean_seg_def)
qed

lemma segs_clean: "list_all clean_seg (segs False p)"
  unfolding segs_def using split_on_no_sep [of _ slash p] by (intro norm_segs_clean) auto

lemma abs_segs_clean: "list_all clean_seg (abs_segs cwd ps)"
  by (simp add: abs_segs_def segs_clean)

lemma norm_segs_of_clean: "list_all clean_seg ss \<Longrightarrow> norm_segs up acc ss = rev acc @ ss"
  by (induction ss arbitrary: acc) (auto simp: clean_seg_def)

lemma norm_segs_append:
  "norm_segs False acc (xs @ ys) = norm_segs False (rev (norm_segs False acc xs)) ys"
proof (induction xs arbitrary: acc)
  case Nil
  then show ?case by simp
next
  case (Cons x xs)
  then show ?case by (cases acc) auto
qed

lemma segs_join: "list_all clean_seg ss \<Longrightarrow> segs up (join [slash] ss) = ss"
proof (cases "ss = []")
  case True
  then show ?thesis by (simp add: segs_def)
next
  case False
  assume c: "list_all clean_seg ss"
  then have "split_on slash (join [slash] ss) = ss"
    using False by (intro split_on_join) (auto simp: list_all_iff clean_seg_def)
  then show ?thesis using c by (simp add: segs_def norm_segs_of_clean)
qed

lemma segs_slash: "segs False (p @ slash # q) = norm_segs False (rev (segs False p)) (split_on slash q)"
proof -
  have "split_on slash (p @ slash # q) = split_on slash p @ split_on slash q"
    by (induction p) (auto split: list.splits)
  then show ?thesis by (simp add: segs_def norm_segs_append)
qed

lemma segs_path_text [simp]: "list_all clean_seg ss \<Longrightarrow> segs False (path_text ss) = ss"
  using segs_slash [of "[]" "join [slash] ss"] segs_join [of ss False]
  by (simp add: path_text_def segs_def)

lemma path_text_absolute [simp]: "is_absolute (path_text ss)"
  by (simp add: path_text_def is_absolute_def)

lemma path_text_not_Nil [simp]: "path_text ss \<noteq> []"
  by (simp add: path_text_def)

lemma abs_segs_path_text [simp]: "list_all clean_seg ss \<Longrightarrow> abs_segs cwd [path_text ss] = ss"
  by (simp add: abs_segs_def)

lemma path_text_inj: "list_all clean_seg a \<Longrightarrow> list_all clean_seg b \<Longrightarrow> path_text a = path_text b \<longleftrightarrow> a = b"
  by (metis segs_path_text)

lemma resolve_absolute: "abs_segs cwd [resolve_path cwd ps] = abs_segs cwd ps"
  by (simp add: resolve_path_def abs_segs_clean)

section \<open>Inside, as a prefix of segments\<close>

lemma strip_common_parts:
  "strip_common a b = (us, ds) \<Longrightarrow>
     \<exists>c. a = c @ us \<and> b = c @ ds \<and> (us = [] \<or> ds = [] \<or> hd us \<noteq> hd ds)"
proof (induction a b rule: strip_common.induct)
  case (1 x as y bs)
  show ?case
  proof (cases "x = y")
    case True
    with 1 obtain c where "as = c @ us" "bs = c @ ds" "us = [] \<or> ds = [] \<or> hd us \<noteq> hd ds" by auto
    with True show ?thesis by (intro exI [of _ "x # c"]) simp
  next
    case False
    with "1.prems" show ?thesis by auto
  qed
qed auto

lemma strip_common_prefix:
  assumes "strip_common a b = (us, ds)"
  shows "us = [] \<longleftrightarrow> prefix a b"
proof -
  obtain c where c: "a = c @ us" "b = c @ ds" "us = [] \<or> ds = [] \<or> hd us \<noteq> hd ds"
    using strip_common_parts [OF assms] by blast
  show ?thesis
  proof
    assume "us = []" then show "prefix a b" using c by simp
  next
    assume "prefix a b"
    then have "prefix us ds" using c by simp
    then show "us = []" using c(3) by (cases us; cases ds) auto
  qed
qed

lemma join_eq_Nil: "join [slash] ss = [] \<longleftrightarrow> ss = [] \<or> ss = [[]]"
  by (cases ss) (auto simp: join_Cons)

lemma join_first: "join [slash] (s # ss) = s @ (if ss = [] then [] else slash # join [slash] ss)"
  by (simp add: join_Cons)

lemma clean_rel_ok:
  assumes "list_all clean_seg ds"
  shows "join [slash] ds \<noteq> dotdot" and "\<not> prefix (dotdot @ [slash]) (join [slash] ds)"
    and "\<not> is_absolute (join [slash] ds)"
proof -
  have split: "ds \<noteq> [] \<Longrightarrow> split_on slash (join [slash] ds) = ds"
    using assms by (intro split_on_join) (auto simp: list_all_iff clean_seg_def)
  have dd: "split_on slash dotdot = [dotdot]" by (simp add: dotdot_def)
  show "join [slash] ds \<noteq> dotdot"
  proof
    assume j: "join [slash] ds = dotdot"
    then have "ds \<noteq> []" by (auto simp: dotdot_def)
    with split j dd have "ds = [dotdot]" by simp
    with assms show False by (simp add: clean_seg_def)
  qed
  show "\<not> prefix (dotdot @ [slash]) (join [slash] ds)"
  proof
    assume "prefix (dotdot @ [slash]) (join [slash] ds)"
    then obtain r where j: "join [slash] ds = dotdot @ slash # r" by (auto simp: prefix_def)
    then have "ds \<noteq> []" by auto
    moreover have "split_on slash (dotdot @ slash # r) = dotdot # split_on slash r"
      by (rule split_on_append_sep) (simp add: dotdot_def)
    ultimately have "hd ds = dotdot" using split j by (metis list.sel(1))
    with assms \<open>ds \<noteq> []\<close> show False by (cases ds) (auto simp: clean_seg_def)
  qed
  show "\<not> is_absolute (join [slash] ds)"
    using assms by (cases ds) (auto simp: is_absolute_def join_first clean_seg_def hd_append dest: hd_in_set)
qed

lemma up_rel:
  fixes us ds :: "string list"
  shows "us \<noteq> [] \<Longrightarrow> join [slash] (map (\<lambda>_. dotdot) us @ ds) = dotdot \<or> prefix (dotdot @ [slash]) (join [slash] (map (\<lambda>_. dotdot) us @ ds))"
  by (cases us) (auto simp: join_first)

lemma inside_is_prefix:
  "is_inside cwd base target \<longleftrightarrow> prefix (abs_segs cwd [base]) (abs_segs cwd [target])"
proof -
  let ?a = "abs_segs cwd [base]" and ?b = "abs_segs cwd [target]"
  obtain us ds where sc: "strip_common ?a ?b = (us, ds)" by fastforce
  obtain c where b: "?b = c @ ds" using strip_common_parts [OF sc] by blast
  have cds: "list_all clean_seg ds" using abs_segs_clean [of cwd "[target]"] unfolding b by simp
  have rel: "relative_path cwd (resolve_path cwd [base]) (resolve_path cwd [target]) =
      join [slash] (map (\<lambda>_. dotdot) us @ ds)"
    by (simp add: relative_path_def resolve_absolute sc)
  show ?thesis
  proof (cases "us = []")
    case True
    then show ?thesis using clean_rel_ok [OF cds] strip_common_prefix [OF sc]
      by (simp add: is_inside_def rel Let_def)
  next
    case False
    moreover have "join [slash] (map (\<lambda>_. dotdot) us @ ds) \<noteq> []"
      using False by (cases us) (auto simp: join_first dotdot_def)
    ultimately show ?thesis using up_rel [OF False, of ds] strip_common_prefix [OF sc]
      by (auto simp: is_inside_def rel Let_def)
  qed
qed

section \<open>Properties of the text checks\<close>

text \<open>A folder name that is one plain segment.\<close>

definition server_dir :: "string \<Rightarrow> string \<Rightarrow> string list" where
  "server_dir cwd i = segs False cwd @ [''servers'', i]"

lemma split_servers: "split_on slash (get_server_path i) = dot # ''servers'' # split_on slash i"
  using split_on_append_sep [of slash dot "''servers/'' @ i"] split_on_append_sep [of slash "''servers''" i]
  by (simp add: get_server_path_def dot_def)

lemma no_dotdot_sub: "index_of dotdot i = None \<Longrightarrow> i \<noteq> dotdot"
  by (auto simp: dotdot_def)

lemma plain_id: "\<not> bad_server_id i \<Longrightarrow> i \<noteq> dot \<Longrightarrow> clean_seg i"
  by (auto simp: bad_server_id_def clean_seg_def no_dotdot_sub)

lemma server_base:
  assumes "\<not> bad_server_id i"
  shows "abs_segs cwd [get_server_path i] = segs False cwd @ ''servers'' # (if i = dot then [] else [i])"
proof -
  have rel: "\<not> is_absolute (get_server_path i)" "get_server_path i \<noteq> []"
    by (simp_all add: is_absolute_def get_server_path_def)
  have i: "split_on slash i = [i]" "i \<noteq> []" "i \<noteq> dotdot"
    using assms by (auto simp: bad_server_id_def no_dotdot_sub)
  have "''servers'' \<noteq> dot" "''servers'' \<noteq> dotdot" by (simp_all add: dot_def dotdot_def)
  then show ?thesis
    using rel i by (simp add: abs_segs_def segs_slash split_servers)
qed

text \<open>A normalized relative or absolute path, taken up from a folder.\<close>

lemma join_under:
  assumes "list_all clean_seg b"
  shows "abs_segs cwd [join_paths [path_text b, normalize_path r]] =
    norm_segs False (rev b) (split_on slash (normalize_path r))"
proof -
  have ne: "normalize_path r \<noteq> []" by (simp add: normalize_path_def Let_def dot_def)
  let ?p = "path_text b @ slash # normalize_path r"
  have j: "join_paths [path_text b, normalize_path r] = normalize_path ?p"
    using ne by (simp add: join_paths_def)
  have ab: "is_absolute ?p" by (simp add: path_text_def is_absolute_def)
  have sg: "segs False ?p = norm_segs False (rev b) (split_on slash (normalize_path r))"
    using assms by (simp add: segs_slash)
  have c: "list_all clean_seg (segs False ?p)" by (rule segs_clean)
  define body where "body = join [slash] (segs False ?p)"
  have np: "normalize_path ?p = (if body = [] then [slash]
      else [slash] @ body @ (if ends_with_slash ?p then [slash] else []))"
    using ab by (simp add: normalize_path_def Let_def body_def path_text_def)
  have b1: "segs False ([slash] @ body) = segs False ?p"
    using segs_path_text [OF c] by (simp add: path_text_def body_def)
  have b2: "segs False (q @ [slash]) = segs False q" for q
    using segs_slash [of q "[]"] norm_segs_of_clean [of "[]"] by simp
  have "segs False (normalize_path ?p) = segs False ?p"
    using b1 b2 [of "[slash] @ body"] by (auto simp: np)
  moreover have "is_absolute (normalize_path ?p)" by (simp add: np is_absolute_def)
  ultimately show ?thesis by (simp add: abs_segs_def j sg)
qed

text \<open>
  A path the panel resolves for a server is in the folder of that server: its segments are
  those of the folder followed by plain ones, whatever the request asked for.
\<close>

theorem safe_path_inside:
  assumes "get_safe_server_path cwd i requested = Inr full" and "i \<noteq> dot"
  shows "\<exists>rest. segs False full = server_dir cwd i @ rest \<and> list_all clean_seg rest
    \<and> full = path_text (segs False full)"
proof -
  have i: "\<not> bad_server_id i" using assms(1) by (auto simp: get_safe_server_path_def split: if_splits)
  obtain ps where full: "full = resolve_path cwd ps"
    and inside: "is_inside cwd (resolve_path cwd [get_server_path i]) full"
    using assms(1) by (auto simp: get_safe_server_path_def Let_def split: if_splits)
  have seg: "segs False full = abs_segs cwd ps" by (simp add: full resolve_path_def abs_segs_clean)
  have "prefix (server_dir cwd i) (segs False full)"
    using inside server_base [OF i, of cwd] assms(2)
    by (simp add: inside_is_prefix full resolve_absolute server_dir_def seg [unfolded full])
  then obtain rest where "segs False full = server_dir cwd i @ rest" by (auto simp: prefix_def)
  moreover from this have "list_all clean_seg rest" using segs_clean [of full] by simp
  moreover have "full = path_text (segs False full)" by (simp add: seg) (simp add: full resolve_path_def)
  ultimately show ?thesis by blast
qed

theorem safe_path_inside_witness:
  "\<exists>full rest. get_safe_server_path ''/srv/kubek'' ''abc'' ''/logs/../world//level.dat'' = Inr full
     \<and> segs False full = server_dir ''/srv/kubek'' ''abc'' @ rest
     \<and> full = ''/srv/kubek/servers/abc/world/level.dat''"
proof -
  let ?f = "''/srv/kubek/servers/abc/world/level.dat''"
  have f: "get_safe_server_path ''/srv/kubek'' ''abc'' ''/logs/../world//level.dat'' = Inr ?f" by code_simp
  have "''abc'' \<noteq> dot" by (simp add: dot_def)
  from safe_path_inside [OF f this] f show ?thesis by blast
qed

lemma join_clean_ends:
  assumes "list_all clean_seg ss" and "ss \<noteq> []"
  shows "join [slash] ss \<noteq> []" and "\<not> ends_with_slash (join [slash] ss)" and "\<not> is_absolute (join [slash] ss)"
proof -
  show "join [slash] ss \<noteq> []" using assms by (auto simp: join_eq_Nil clean_seg_def)
  show "\<not> is_absolute (join [slash] ss)" by (rule clean_rel_ok(3) [OF assms(1)])
  show "\<not> ends_with_slash (join [slash] ss)" using assms
  proof (induction ss)
    case Nil
    then show ?case by simp
  next
    case (Cons s ss)
    then have s: "s \<noteq> []" "last s \<noteq> slash" by (auto simp: clean_seg_def dest: last_in_set)
    show ?case
    proof (cases "ss = []")
      case True
      with s show ?thesis by (simp add: ends_with_slash_def)
    next
      case False
      then have "\<not> ends_with_slash (join [slash] ss)" "join [slash] ss \<noteq> []"
        using Cons by (auto simp: join_eq_Nil clean_seg_def)
      with False show ?thesis by (simp add: ends_with_slash_def join_first)
    qed
  qed
qed

lemma normalize_clean:
  assumes "list_all clean_seg ss" and "ss \<noteq> []"
  shows "normalize_path (join [slash] ss) = join [slash] ss" and "normalize_path (path_text ss) = path_text ss"
proof -
  note e = join_clean_ends [OF assms]
  show "normalize_path (join [slash] ss) = join [slash] ss"
    using e segs_join [OF assms(1)] by (simp add: normalize_path_def Let_def)
  have "ends_with_slash (path_text ss) = ends_with_slash (join [slash] ss)"
    using e(1) by (simp add: ends_with_slash_def path_text_def)
  then show "normalize_path (path_text ss) = path_text ss"
    using e segs_path_text [OF assms(1)] by (simp add: normalize_path_def Let_def) (simp add: path_text_def)
qed

lemma split_clean: "list_all clean_seg ss \<Longrightarrow> ss \<noteq> [] \<Longrightarrow> split_on slash (join [slash] ss) = ss"
  by (intro split_on_join) (auto simp: list_all_iff clean_seg_def)

text \<open>
  The check turns nothing legitimate away: every path of plain segments resolves to itself
  below the folder of the server, with or without a leading slash.
\<close>

theorem safe_path_complete:
  assumes "clean_seg i" and "CHR 0x5C \<notin> set i" and "index_of dotdot i = None"
    and "list_all clean_seg ss" and "ss \<noteq> []"
  shows "get_safe_server_path cwd i (join [slash] ss) = Inr (path_text (server_dir cwd i @ ss))
    \<and> get_safe_server_path cwd i (path_text ss) = Inr (path_text (server_dir cwd i @ ss))"
proof -
  have bad: "\<not> bad_server_id i" "i \<noteq> dot" using assms(1-3) by (auto simp: bad_server_id_def clean_seg_def)
  let ?b = "server_dir cwd i"
  have b: "abs_segs cwd [get_server_path i] = ?b" using server_base [OF bad(1)] bad(2) by (simp add: server_dir_def)
  then have cb: "list_all clean_seg ?b" using abs_segs_clean [of cwd "[get_server_path i]"] by simp
  have c: "list_all clean_seg (?b @ ss)" using cb assms(4) by simp
  have base: "resolve_path cwd [get_server_path i] = path_text ?b" by (simp add: resolve_path_def b)
  have in_base: "is_inside cwd (path_text ?b) (path_text (?b @ ss))"
    using cb c by (simp add: inside_is_prefix del: list_all_append)
  have ok: "get_safe_server_path cwd i r = Inr (path_text (?b @ ss))"
    if "norm_segs False (rev ?b) (split_on slash (normalize_path r)) = ?b @ ss" for r
  proof -
    have "resolve_path cwd [join_paths [path_text ?b, normalize_path r]] = path_text (?b @ ss)"
      unfolding resolve_path_def join_under [OF cb] that ..
    then show ?thesis using bad(1) in_base by (simp add: get_safe_server_path_def base Let_def)
  qed
  have "norm_segs False (rev ?b) ([] # ss) = ?b @ ss" "norm_segs False (rev ?b) ss = ?b @ ss"
    using norm_segs_of_clean [OF assms(4), of False "rev ?b"] by simp_all
  moreover have "split_on slash (path_text ss) = [] # ss"
    using split_on_append_sep [of slash "[]" "join [slash] ss"] split_clean [OF assms(4,5)] by (simp add: path_text_def)
  ultimately show ?thesis
    using ok normalize_clean [OF assms(4,5)] split_clean [OF assms(4,5)] by simp
qed

theorem safe_path_complete_witness:
  "get_safe_server_path ''/srv'' ''s1'' (join [slash] [''..conf'', ''a b'']) = Inr ''/srv/servers/s1/..conf/a b''"
proof -
  have c: "clean_seg ''s1''" "CHR 0x5C \<notin> set ''s1''" "index_of dotdot ''s1'' = None"
    "list_all clean_seg [''..conf'', ''a b'']" by code_simp+
  have "path_text (server_dir ''/srv'' ''s1'' @ [''..conf'', ''a b'']) = ''/srv/servers/s1/..conf/a b''" by code_simp
  with safe_path_complete [OF c, of "''/srv''"] show ?thesis by simp
qed

text \<open>
  The id of the current folder is not refused: with it, the folder of all servers takes the
  place of a server's own, and a path below it names any server.
\<close>

theorem dot_id_reaches_every_server:
  assumes "list_all clean_seg (i # ss)"
  shows "get_safe_server_path cwd dot (join [slash] (i # ss)) = Inr (path_text (server_dir cwd i @ ss))"
proof -
  have bad: "\<not> bad_server_id dot" by code_simp
  let ?b = "segs False cwd @ [''servers'']"
  have b: "abs_segs cwd [get_server_path dot] = ?b" using server_base [OF bad, of cwd] by simp
  then have cb: "list_all clean_seg ?b" using abs_segs_clean [of cwd "[get_server_path dot]"] by simp
  have c: "list_all clean_seg (?b @ i # ss)" using cb assms by simp
  have base: "resolve_path cwd [get_server_path dot] = path_text ?b" by (simp add: resolve_path_def b)
  have n: "normalize_path (join [slash] (i # ss)) = join [slash] (i # ss)"
    "split_on slash (join [slash] (i # ss)) = i # ss"
    using normalize_clean(1) [OF assms] split_clean [OF assms] by simp_all
  have ns: "norm_segs False (rev ?b) (i # ss) = ?b @ i # ss"
    using norm_segs_of_clean [OF assms, of False "rev ?b"] unfolding rev_rev_ident .
  have "resolve_path cwd [join_paths [path_text ?b, normalize_path (join [slash] (i # ss))]] = path_text (?b @ i # ss)"
    using join_under [OF cb, of cwd "join [slash] (i # ss)"] by (simp only: resolve_path_def n ns)
  moreover have "is_inside cwd (path_text ?b) (path_text (?b @ i # ss))"
    using cb c by (simp add: inside_is_prefix del: list_all_append)
  ultimately show ?thesis using bad by (simp add: get_safe_server_path_def base server_dir_def)
qed

theorem dot_id_reaches_every_server_witness:
  "get_safe_server_path ''/srv'' dot (join [slash] [''victim'', ''server.properties'']) =
     Inr (path_text (server_dir ''/srv'' ''victim'' @ [''server.properties'']))"
proof -
  have "list_all clean_seg [''victim'', ''server.properties'']" by code_simp
  then show ?thesis by (rule dot_id_reaches_every_server)
qed

section \<open>Properties of modpack paths\<close>

text \<open>
  A path of a modpack lands strictly below the base folder: never on it, never outside,
  whatever the archive names it.
\<close>

theorem jail_path_strictly_inside:
  assumes "jail_path cwd base r = Inr full"
  shows "\<exists>rest. rest \<noteq> [] \<and> list_all clean_seg rest \<and> segs False full = abs_segs cwd [base] @ rest
    \<and> full = path_text (segs False full)"
proof -
  obtain x where full: "full = resolve_path cwd [resolve_path cwd [base], x]" and ne: "full \<noteq> resolve_path cwd [base]"
    and inside: "is_inside cwd (resolve_path cwd [base]) full"
    using assms by (auto simp: jail_path_def Let_def and_then_Inr_iff unsafe_path_def split: if_splits)
  define ps where "ps = [resolve_path cwd [base], x]"
  note full = full [folded ps_def]
  have seg: "segs False full = abs_segs cwd ps" by (simp add: full resolve_path_def abs_segs_clean)
  have "prefix (abs_segs cwd [base]) (segs False full)"
    using inside by (simp add: inside_is_prefix full resolve_absolute seg [unfolded full])
  then obtain rest where rest: "segs False full = abs_segs cwd [base] @ rest" by (auto simp: prefix_def)
  have text_of_full: "full = path_text (segs False full)" by (simp add: seg) (simp add: full resolve_path_def)
  have "rest \<noteq> []" using ne rest text_of_full by (auto simp: resolve_path_def)
  moreover have "list_all clean_seg rest" using segs_clean [of full] rest by simp
  ultimately show ?thesis using rest text_of_full by blast
qed

theorem jail_path_strictly_inside_witness:
  "\<exists>rest. rest \<noteq> [] \<and> list_all clean_seg rest
     \<and> segs False ''/srv/s/a/mods/x.jar'' = abs_segs ''/srv'' [''s/a''] @ rest"
proof -
  have "jail_path ''/srv'' ''s/a'' ''mods//./x.jar'' = Inr ''/srv/s/a/mods/x.jar''" by code_simp
  from jail_path_strictly_inside [OF this] show ?thesis by blast
qed

end
