(* ===== verification/Real_Paths.thy ===== *)
theory Real_Paths
  imports Paths
begin

text \<open>
  The checks that see through symbolic links (\<open>isRealInside\<close> of \<open>core/utils/paths.ts\<close>,
  \<open>getRealServerPath\<close>, \<open>files/file-jail.ts\<close>) and the unpacking of archives
  (\<open>core/utils/archives.ts\<close>), over a file system whose entries are folders, files and links.
\<close>

section \<open>A file system with links\<close>

datatype fs_node = NDir | NFile (file_content: string) | NLink (link_target: string)

text \<open>An entry is found by its real location; the root, the empty list, is a folder.\<close>

type_synonym fs = "string list \<Rightarrow> fs_node option"

datatype walked =
    At "string list"
  | Absent "string list" "string list"
  | NoDir
  | TooManyLinks

text \<open>
  Following a path from a folder: where it ends, the folder in which a name is missing with the
  names not yet followed, a file in the middle, or more links than the number allows.
\<close>

function walk_path :: "nat \<Rightarrow> fs \<Rightarrow> string list \<Rightarrow> string list \<Rightarrow> walked" where
  "walk_path n f cur [] = At cur"
| "walk_path n f cur (s # ss) =
     (if s = [] \<or> s = dot then walk_path n f cur ss
      else if s = dotdot then walk_path n f (butlast cur) ss
      else (case f (cur @ [s]) of
          None \<Rightarrow> Absent cur (s # ss)
        | Some NDir \<Rightarrow> walk_path n f (cur @ [s]) ss
        | Some (NFile c) \<Rightarrow> if ss = [] then At (cur @ [s]) else NoDir
        | Some (NLink t) \<Rightarrow>
            (case n of
               0 \<Rightarrow> TooManyLinks
             | Suc m \<Rightarrow> walk_path m f (if is_absolute t then [] else cur) (split_on slash t @ ss))))"
  by pat_completeness auto
termination
  by (relation "measures [\<lambda>(n, f, cur, ss). n, \<lambda>(n, f, cur, ss). length ss]") auto

text \<open>The links one path may follow, as on Linux.\<close>

definition link_limit :: nat where "link_limit = 40"

definition real_path :: "fs \<Rightarrow> string list \<Rightarrow> walked" where
  "real_path f ss = walk_path link_limit f [] ss"

definition exists_path :: "fs \<Rightarrow> string list \<Rightarrow> bool" where
  "exists_path f ss \<longleftrightarrow> (case real_path f ss of At _ \<Rightarrow> True | _ \<Rightarrow> False)"

definition is_symlink :: "fs \<Rightarrow> string list \<Rightarrow> bool" where
  "is_symlink f ss \<longleftrightarrow> ss \<noteq> [] \<and>
     (case real_path f (butlast ss) of
        At d \<Rightarrow> (case f (d @ [last ss]) of Some (NLink _) \<Rightarrow> True | _ \<Rightarrow> False)
      | _ \<Rightarrow> False)"

section \<open>The real check\<close>

text \<open>From a path up to the closest parent that exists.\<close>

function probe_inside :: "string \<Rightarrow> fs \<Rightarrow> string list \<Rightarrow> bool \<Rightarrow> string list \<Rightarrow> bool" where
  "probe_inside cwd f rb allow ss =
     (case real_path f ss of
        At r \<Rightarrow> is_inside cwd (path_text rb) (path_text r)
      | Absent _ _ \<Rightarrow>
          if \<not> allow then False
          else if is_symlink f ss then False
          else if ss = [] then False
          else probe_inside cwd f rb allow (butlast ss)
      | _ \<Rightarrow> False)"
  by pat_completeness auto
termination
  by (relation "measure (\<lambda>(cwd, f, rb, allow, ss). length ss)") auto

declare probe_inside.simps [simp del]

definition is_real_inside :: "string \<Rightarrow> fs \<Rightarrow> string \<Rightarrow> string \<Rightarrow> bool \<Rightarrow> bool" where
  "is_real_inside cwd f base target allow =
     (case real_path f (abs_segs cwd [base]) of
        At rb \<Rightarrow> probe_inside cwd f rb allow (abs_segs cwd [target])
      | _ \<Rightarrow> False)"

definition get_real_server_path :: "string \<Rightarrow> fs \<Rightarrow> string \<Rightarrow> string \<Rightarrow> string result" where
  "get_real_server_path cwd f i requested =
     and_then (get_safe_server_path cwd i requested) (\<lambda>full.
     and_then (get_safe_server_path cwd i []) (\<lambda>base.
       if \<not> exists_path f (abs_segs cwd [base]) then Inr full
       else if \<not> is_real_inside cwd f base full True then traversal
       else Inr full))"

definition get_real_server_file :: "string \<Rightarrow> fs \<Rightarrow> string \<Rightarrow> string \<Rightarrow> string list option result" where
  "get_real_server_file cwd f i requested =
     and_then (get_safe_server_path cwd i requested) (\<lambda>full.
       case real_path f (abs_segs cwd [full]) of
         At r \<Rightarrow>
           and_then (get_safe_server_path cwd i []) (\<lambda>base.
             case real_path f (abs_segs cwd [base]) of
               At rb \<Rightarrow> if \<not> is_inside cwd (path_text rb) (path_text r) then traversal else Inr (Some r)
             | _ \<Rightarrow> fail Internal ''ENOENT'')
       | _ \<Rightarrow> Inr None)"

definition assert_real_path_inside :: "string \<Rightarrow> fs \<Rightarrow> string \<Rightarrow> string \<Rightarrow> bool \<Rightarrow> unit result" where
  "assert_real_path_inside cwd f i safe_path allow =
     and_then (get_safe_server_path cwd i []) (\<lambda>base.
       if \<not> exists_path f (abs_segs cwd [base]) then Inr ()
       else if \<not> is_real_inside cwd f base safe_path allow then traversal
       else Inr ())"

definition assert_parent_inside :: "string \<Rightarrow> fs \<Rightarrow> string \<Rightarrow> string \<Rightarrow> unit result" where
  "assert_parent_inside cwd f i safe_path =
     assert_real_path_inside cwd f i (path_text (butlast (abs_segs cwd [safe_path]))) False"

section \<open>Writing\<close>

text \<open>
  Where a path leads when what is missing is created: \<open>mkdir\<close> with \<open>recursive\<close> makes a folder of
  every missing name, a written file needs its folder to be there.
\<close>

definition add_dirs :: "fs \<Rightarrow> string list \<Rightarrow> string list \<Rightarrow> fs" where
  "add_dirs f d rest = (\<lambda>p. if strict_prefix d p \<and> prefix p (d @ rest) then Some NDir else f p)"

definition mkdir_p :: "fs \<Rightarrow> string list \<Rightarrow> fs result" where
  "mkdir_p f ss =
     (case real_path f ss of
        At r \<Rightarrow> (case f r of Some (NFile _) \<Rightarrow> fail Internal ''EEXIST'' | _ \<Rightarrow> Inr f)
      | Absent d rest \<Rightarrow> Inr (add_dirs f d rest)
      | NoDir \<Rightarrow> fail Internal ''ENOTDIR''
      | TooManyLinks \<Rightarrow> fail Internal ''ELOOP'')"

definition write_file :: "fs \<Rightarrow> string list \<Rightarrow> string \<Rightarrow> fs result" where
  "write_file f ss content =
     (case real_path f ss of
        At r \<Rightarrow> (case f r of Some (NFile _) \<Rightarrow> Inr (f(r := Some (NFile content))) | _ \<Rightarrow> fail Internal ''EISDIR'')
      | Absent d [s] \<Rightarrow> Inr (f(d @ [s] := Some (NFile content)))
      | Absent d _ \<Rightarrow> fail Internal ''ENOENT''
      | NoDir \<Rightarrow> fail Internal ''ENOTDIR''
      | TooManyLinks \<Rightarrow> fail Internal ''ELOOP'')"

section \<open>Unpacking an archive\<close>

record archive_entry =
  ae_name :: string
  ae_type :: "string option"
  ae_mode :: nat
  ae_content :: string

text \<open>The kind of a file is the four bits of the mode above the lowest twelve.\<close>

definition is_regular_file :: "archive_entry \<Rightarrow> bool" where
  "is_regular_file h =
     (if ae_type h \<noteq> None \<and> ae_type h \<noteq> Some [] \<and> ae_type h \<noteq> Some ''file'' then False
      else let kind = ae_mode h div 4096 mod 16 in kind = 0 \<or> kind = 8)"

abbreviation unsafe_entry :: "'a result" where
  "unsafe_entry \<equiv> fail BadRequest ''Archive contains entries with unsafe paths''"

definition write_entry :: "fs \<Rightarrow> string list \<Rightarrow> string \<Rightarrow> unit result \<times> fs" where
  "write_entry f ss content =
     (case mkdir_p f (butlast ss) of
        Inl e \<Rightarrow> (Inl e, f)
      | Inr f1 \<Rightarrow> (case write_file f1 ss content of Inl e \<Rightarrow> (Inl e, f1) | Inr f2 \<Rightarrow> (Inr (), f2)))"

definition make_dir :: "fs \<Rightarrow> string list \<Rightarrow> unit result \<times> fs" where
  "make_dir f ss = (case mkdir_p f ss of Inl e \<Rightarrow> (Inl e, f) | Inr f1 \<Rightarrow> (Inr (), f1))"

definition unpack_entry :: "string \<Rightarrow> string \<Rightarrow> archive_entry \<Rightarrow> fs \<Rightarrow> unit result \<times> fs" where
  "unpack_entry cwd root h f =
     (let out = resolve_path cwd [join_paths [root, ae_name h]] in
      if \<not> is_inside cwd root out then (unsafe_entry, f)
      else if ae_type h = Some ''directory'' then
        if \<not> is_real_inside cwd f root out True then (unsafe_entry, f)
        else make_dir f (abs_segs cwd [out])
      else if \<not> is_regular_file h then (Inr (), f)
      else if \<not> is_real_inside cwd f root out True then (unsafe_entry, f)
      else write_entry f (abs_segs cwd [out]) (ae_content h))"

text \<open>Entry by entry; the first error ends it and leaves what was unpacked before.\<close>

fun unpack_entries :: "string \<Rightarrow> string \<Rightarrow> archive_entry list \<Rightarrow> fs \<Rightarrow> unit result \<times> fs" where
  "unpack_entries cwd root [] f = (Inr (), f)"
| "unpack_entries cwd root (h # hs) f =
     (case unpack_entry cwd root h f of
        (Inl e, f1) \<Rightarrow> (Inl e, f1)
      | (Inr _, f1) \<Rightarrow> unpack_entries cwd root hs f1)"

definition unpack :: "string \<Rightarrow> string \<Rightarrow> archive_entry list \<Rightarrow> fs \<Rightarrow> unit result \<times> fs" where
  "unpack cwd dest hs f =
     (case make_dir f (abs_segs cwd [dest]) of
        (Inl e, f1) \<Rightarrow> (Inl e, f1)
      | (Inr _, f1) \<Rightarrow> unpack_entries cwd (resolve_path cwd [dest]) hs f1)"

section \<open>Following a path in two parts\<close>

fun stuck_with :: "string list \<Rightarrow> walked \<Rightarrow> walked" where
  "stuck_with ys (Absent d rest) = Absent d (rest @ ys)"
| "stuck_with ys w = w"

lemma walk_stuck:
  "(\<And>r. walk_path n f cur xs \<noteq> At r) \<Longrightarrow> walk_path n f cur (xs @ ys) = stuck_with ys (walk_path n f cur xs)"
proof (induction n f cur xs rule: walk_path.induct)
  case (1 n f cur)
  from "1.prems" [of cur] show ?case by simp
next
  case (2 n f cur s ss)
  consider "s = [] \<or> s = dot" | "s \<noteq> []" "s \<noteq> dot" "s = dotdot" | "s \<noteq> []" "s \<noteq> dot" "s \<noteq> dotdot" by blast
  then show ?case
  proof cases
    case 1
    then show ?thesis using "2.IH"(1) "2.prems" by simp
  next
    case 2
    then show ?thesis using "2.IH"(2) "2.prems" by simp
  next
    case 3
    show ?thesis
    proof (cases "f (cur @ [s])")
      case None
      with 3 show ?thesis by simp
    next
      case (Some node)
      show ?thesis
      proof (cases node)
        case NDir
        then show ?thesis using "2.IH"(3) [OF _ _ Some] "2.prems" 3 Some by simp
      next
        case (NFile c)
        then have "ss \<noteq> []" using "2.prems" [of "cur @ [s]"] 3 Some by (auto split: if_splits)
        with NFile 3 Some show ?thesis by simp
      next
        case (NLink t)
        show ?thesis
        proof (cases n)
          case 0
          with 3 Some NLink show ?thesis by simp
        next
          case (Suc m)
          then show ?thesis using "2.IH"(4) [OF _ _ Some NLink Suc] "2.prems" 3 Some NLink by simp
        qed
      qed
    qed
  qed
qed

text \<open>
  Names in the file system are plain, and what an entry is in is a folder.
\<close>

definition is_dir :: "fs \<Rightarrow> string list \<Rightarrow> bool" where
  "is_dir f p \<longleftrightarrow> p = [] \<or> f p = Some NDir"

definition fs_ok :: "fs \<Rightarrow> bool" where
  "fs_ok f \<longleftrightarrow> (\<forall>p. f p \<noteq> None \<longrightarrow> list_all clean_seg p \<and> is_dir f (butlast p)) \<and> f [] = None"

lemma is_dir_butlast: "fs_ok f \<Longrightarrow> is_dir f p \<Longrightarrow> is_dir f (butlast p)"
  unfolding fs_ok_def is_dir_def by (cases "p = []") auto

lemma walk_continue:
  "fs_ok f \<Longrightarrow> is_dir f cur \<Longrightarrow> walk_path n f cur xs = At r \<Longrightarrow> ys \<noteq> [] \<Longrightarrow>
     is_dir f r \<and> (\<exists>m. walk_path n f cur (xs @ ys) = walk_path m f r ys)
     \<or> (\<exists>c. f r = Some (NFile c)) \<and> walk_path n f cur (xs @ ys) = NoDir"
proof (induction n f cur xs rule: walk_path.induct)
  case (1 n f cur)
  then show ?case by auto
next
  case (2 n f cur s ss)
  consider "s = [] \<or> s = dot" | "s \<noteq> []" "s \<noteq> dot" "s = dotdot" | "s \<noteq> []" "s \<noteq> dot" "s \<noteq> dotdot" by blast
  then show ?case
  proof cases
    case 1
    then show ?thesis using "2.IH"(1) "2.prems" by simp
  next
    case 2
    then show ?thesis using "2.IH"(2) "2.prems" is_dir_butlast [OF "2.prems"(1,2)] by simp
  next
    case 3
    show ?thesis
    proof (cases "f (cur @ [s])")
      case None
      with 3 "2.prems" show ?thesis by simp
    next
      case (Some node)
      show ?thesis
      proof (cases node)
        case NDir
        then show ?thesis using "2.IH"(3) [OF _ _ Some NDir] "2.prems" 3 Some by (simp add: is_dir_def)
      next
        case (NFile c)
        with "2.prems" 3 Some show ?thesis by (auto split: if_splits)
      next
        case (NLink t)
        show ?thesis
        proof (cases n)
          case 0
          with "2.prems" 3 Some NLink show ?thesis by simp
        next
          case (Suc m)
          have d: "is_dir f (if is_absolute t then [] else cur)" using "2.prems"(2) by (simp add: is_dir_def)
          from "2.IH"(4) [OF _ _ Some NLink Suc "2.prems"(1) d _ "2.prems"(4)] "2.prems"(3) 3 Some NLink Suc
          show ?thesis by simp
        qed
      qed
    qed
  qed
qed

section \<open>Where a checked path leads\<close>

definition leads_to :: "fs \<Rightarrow> string list \<Rightarrow> string list option" where
  "leads_to f ss = (case real_path f ss of At r \<Rightarrow> Some r | Absent d rest \<Rightarrow> Some (d @ rest) | _ \<Rightarrow> None)"

lemma walk_clean:
  "fs_ok f \<Longrightarrow> list_all clean_seg cur \<Longrightarrow> walk_path n f cur ss = At r \<Longrightarrow> list_all clean_seg r"
proof (induction n f cur ss rule: walk_path.induct)
  case (2 n f cur s ss)
  show ?case
  proof (cases "s = [] \<or> s = dot \<or> s = dotdot")
    case True
    have "list_all clean_seg (butlast cur)" using "2.prems"(2) by (auto simp: list_all_iff dest: in_set_butlastD)
    then show ?thesis using True 2 by (auto split: if_splits)
  next
    case False
    with "2.prems" show ?thesis
      using "2.IH"(3,4) by (auto simp: fs_ok_def split: option.splits fs_node.splits nat.splits if_splits)
  qed
qed simp

lemma real_clean: "fs_ok f \<Longrightarrow> real_path f ss = At r \<Longrightarrow> list_all clean_seg r"
  unfolding real_path_def by (rule walk_clean) auto

lemma walk_one:
  assumes "clean_seg s"
  shows "walk_path m f r [s] = (case f (r @ [s]) of
      None \<Rightarrow> Absent r [s] | Some (NLink t) \<Rightarrow> walk_path m f r [s] | Some _ \<Rightarrow> At (r @ [s]))"
  using assms by (auto simp: clean_seg_def split: option.splits fs_node.splits)

text \<open>
  A missing path that is no link itself is missing where its parent leads to.
\<close>

lemma absent_parent:
  assumes "fs_ok f" and "real_path f ss = Absent d rest" and "ss \<noteq> []" and "clean_seg (last ss)"
    and "\<not> is_symlink f ss"
  shows "(\<exists>r. real_path f (butlast ss) = At r \<and> is_dir f r \<and> real_path f ss = Absent r [last ss])
    \<or> (\<exists>r ys. real_path f (butlast ss) = Absent r ys \<and> real_path f ss = Absent r (ys @ [last ss]))"
proof -
  let ?w = "real_path f (butlast ss)"
  have ss: "butlast ss @ [last ss] = ss" using assms(3) by simp
  show ?thesis
  proof (cases "\<exists>r. ?w = At r")
    case False
    then have "real_path f ss = stuck_with [last ss] ?w"
      using walk_stuck [of link_limit f "[]" "butlast ss" "[last ss]"] unfolding real_path_def ss by auto
    with assms(2) show ?thesis by (cases ?w) auto
  next
    case True
    then obtain r where r: "?w = At r" by blast
    have "is_dir f []" by (simp add: is_dir_def)
    then obtain m where dir: "is_dir f r" and m: "real_path f ss = walk_path m f r [last ss]"
      using walk_continue [of f "[]" link_limit "butlast ss" r "[last ss]"] assms(1,2) r
      unfolding real_path_def ss by auto
    have "f (r @ [last ss]) = None"
      using assms(2,5) m r walk_one [OF assms(4), of m f r] assms(3)
      by (auto simp: is_symlink_def split: option.splits fs_node.splits)
    then have "real_path f ss = Absent r [last ss]" using m walk_one [OF assms(4)] by simp
    with r dir show ?thesis by blast
  qed
qed

text \<open>A path that passes exists inside, or all that is missing of it is missing inside.\<close>

definition lands_inside :: "fs \<Rightarrow> string list \<Rightarrow> string list \<Rightarrow> bool" where
  "lands_inside f rb ss \<longleftrightarrow>
     (\<exists>r. real_path f ss = At r \<and> prefix rb r)
     \<or> (\<exists>xs ys r. ss = xs @ ys \<and> ys \<noteq> [] \<and> real_path f xs = At r \<and> is_dir f r \<and> real_path f ss = Absent r ys
          \<and> prefix rb r)"

lemma probe_lands_inside:
  assumes "fs_ok f" and "list_all clean_seg rb"
  shows "list_all clean_seg ss \<Longrightarrow> probe_inside cwd f rb allow ss \<Longrightarrow> lands_inside f rb ss"
proof (induction "length ss" arbitrary: ss)
  case 0
  then show ?case
    using assms by (auto simp: probe_inside.simps [of _ _ _ _ "[]"] lands_inside_def inside_is_prefix dest: real_clean
        split: walked.splits if_splits)
next
  case (Suc k)
  then have ne: "ss \<noteq> []" by auto
  show ?case
  proof (cases "real_path f ss")
    case (At r)
    then have "prefix rb r" using Suc.prems(2) assms real_clean [OF assms(1) At]
      by (simp add: probe_inside.simps [of _ _ _ _ ss] inside_is_prefix)
    with At show ?thesis by (simp add: lands_inside_def)
  next
    case (Absent d rest)
    then have p: "\<not> is_symlink f ss" "probe_inside cwd f rb allow (butlast ss)"
      using Suc.prems(2) by (auto simp: probe_inside.simps [of _ _ _ _ ss] split: if_splits)
    have c: "list_all clean_seg (butlast ss)" "clean_seg (last ss)"
      using Suc.prems(1) ne by (auto simp: list_all_iff dest: in_set_butlastD)
    have "k = length (butlast ss)" using Suc.hyps(2) by simp
    then have ih: "lands_inside f rb (butlast ss)" using Suc.hyps(1) c(1) p(2) by blast
    have ss: "butlast ss @ [last ss] = ss" using ne by simp
    from absent_parent [OF assms(1) Absent ne c(2) p(1)] show ?thesis
    proof (elim disjE exE conjE)
      fix r assume r: "real_path f (butlast ss) = At r" "is_dir f r" "real_path f ss = Absent r [last ss]"
      then have "prefix rb r" using ih by (auto simp: lands_inside_def)
      with r ss show ?thesis unfolding lands_inside_def by (metis list.distinct(1))
    next
      fix r ys assume r: "real_path f (butlast ss) = Absent r ys" "real_path f ss = Absent r (ys @ [last ss])"
      then obtain xs where xs: "butlast ss = xs @ ys" "real_path f xs = At r" "is_dir f r" "prefix rb r"
        using ih by (auto simp: lands_inside_def)
      then have "ss = xs @ (ys @ [last ss])" using ss by simp
      with r xs show ?thesis unfolding lands_inside_def by blast
    qed
  qed (use Suc.prems(2) in \<open>simp_all add: probe_inside.simps [of _ _ _ _ ss]\<close>)
qed

lemma real_inside_lands:
  assumes "fs_ok f" and "is_real_inside cwd f base target allow"
  shows "\<exists>rb. real_path f (abs_segs cwd [base]) = At rb \<and> lands_inside f rb (abs_segs cwd [target])"
proof -
  obtain rb where rb: "real_path f (abs_segs cwd [base]) = At rb"
    and p: "probe_inside cwd f rb allow (abs_segs cwd [target])"
    using assms(2) by (auto simp: is_real_inside_def split: walked.splits)
  from probe_lands_inside [OF assms(1) real_clean [OF assms(1) rb] abs_segs_clean p] rb show ?thesis by blast
qed

lemma lands_leads: "lands_inside f rb ss \<Longrightarrow> \<exists>l. leads_to f ss = Some l \<and> prefix rb l"
  by (auto simp: lands_inside_def leads_to_def)

text \<open>
  A path the panel accepts for a server with links resolved leads into the real folder of the
  server: an existing one by its links, a missing one by the place where creating it would put
  it.  (A server without a folder of its own has nothing to lead out of.)
\<close>

theorem real_server_path_contained:
  assumes "fs_ok f" and "get_real_server_path cwd f i requested = Inr full"
    and "get_safe_server_path cwd i [] = Inr base" and "exists_path f (abs_segs cwd [base])"
  shows "\<exists>rb l. real_path f (abs_segs cwd [base]) = At rb \<and> leads_to f (abs_segs cwd [full]) = Some l \<and> prefix rb l"
proof -
  have "is_real_inside cwd f base full True"
    using assms(2-4) by (auto simp: get_real_server_path_def and_then_Inr_iff split: if_splits)
  from real_inside_lands [OF assms(1) this] show ?thesis by (blast dest: lands_leads)
qed

text \<open>A server folder with a link out of it and one that stays inside.\<close>

definition pfs :: fs where
  "pfs = map_of
     [([''srv''], NDir), ([''srv'', ''servers''], NDir), ([''srv'', ''servers'', ''abc''], NDir),
      ([''srv'', ''db.sql''], NFile ''secret''), ([''srv'', ''servers'', ''abc'', ''world''], NDir),
      ([''srv'', ''servers'', ''abc'', ''w''], NLink ''./world''),
      ([''srv'', ''servers'', ''abc'', ''out''], NLink ''/srv''),
      ([''srv'', ''servers'', ''abc'', ''new''], NLink ''../../made.txt'')]"

lemma pfs_ok: "fs_ok pfs"
  by (simp add: fs_ok_def pfs_def is_dir_def clean_seg_def dot_def dotdot_def)

theorem real_server_path_contained_witness:
  "(\<exists>rb l. real_path pfs [''srv'', ''servers'', ''abc''] = At rb
       \<and> leads_to pfs [''srv'', ''servers'', ''abc'', ''w'', ''x'', ''y''] = Some l \<and> prefix rb l)
   \<and> \<not> is_ok (get_real_server_path ''/srv'' pfs ''abc'' ''out/db.sql'')
   \<and> \<not> is_ok (get_real_server_path ''/srv'' pfs ''abc'' ''new'')"
proof -
  have g: "get_real_server_path ''/srv'' pfs ''abc'' ''w/x/y'' = Inr ''/srv/servers/abc/w/x/y''"
    "get_safe_server_path ''/srv'' ''abc'' [] = Inr ''/srv/servers/abc''" by code_simp+
  have s: "abs_segs ''/srv'' [''/srv/servers/abc''] = [''srv'', ''servers'', ''abc'']"
    "abs_segs ''/srv'' [''/srv/servers/abc/w/x/y''] = [''srv'', ''servers'', ''abc'', ''w'', ''x'', ''y'']" by code_simp+
  have e: "exists_path pfs (abs_segs ''/srv'' [''/srv/servers/abc''])" by code_simp
  have no: "\<not> is_ok (get_real_server_path ''/srv'' pfs ''abc'' ''out/db.sql'')"
    "\<not> is_ok (get_real_server_path ''/srv'' pfs ''abc'' ''new'')" by code_simp+
  from real_server_path_contained [OF pfs_ok g e] no show ?thesis unfolding s by blast
qed

section \<open>Unpacking stays inside\<close>

text \<open>
  What a step of unpacking may do: every entry that changes lies in the real folder, folders
  and links stay what they are, and no link appears.
\<close>

definition grows_inside :: "string list \<Rightarrow> fs \<Rightarrow> fs \<Rightarrow> bool" where
  "grows_inside rb f f' \<longleftrightarrow> (\<forall>p. f' p \<noteq> f p \<longrightarrow> prefix rb p)
     \<and> (\<forall>p. f p = Some NDir \<longrightarrow> f' p = Some NDir)
     \<and> (\<forall>p t. f' p = Some (NLink t) \<longleftrightarrow> f p = Some (NLink t))"

lemma grows_refl [simp]: "grows_inside rb f f"
  by (simp add: grows_inside_def)

lemma grows_trans: "grows_inside rb f g \<Longrightarrow> grows_inside rb g h \<Longrightarrow> grows_inside rb f h"
  unfolding grows_inside_def by metis

lemma walk_grows:
  assumes "\<And>p. f p = Some NDir \<Longrightarrow> f' p = Some NDir" and "\<And>p t. f p = Some (NLink t) \<Longrightarrow> f' p = Some (NLink t)"
  shows "walk_path n f cur ss = At r \<Longrightarrow> is_dir f r \<Longrightarrow> walk_path n f' cur ss = At r"
  using assms
proof (induction n f cur ss rule: walk_path.induct)
  case (2 n f cur s ss)
  consider "s = [] \<or> s = dot" | "s \<noteq> []" "s \<noteq> dot" "s = dotdot" | "s \<noteq> []" "s \<noteq> dot" "s \<noteq> dotdot" by blast
  then show ?case
  proof cases
    case 1
    then show ?thesis using "2.IH"(1) "2.prems" by simp
  next
    case 2
    then show ?thesis using "2.IH"(2) "2.prems" by simp
  next
    case 3
    show ?thesis
    proof (cases "f (cur @ [s])")
      case None
      with 3 "2.prems" show ?thesis by simp
    next
      case (Some node)
      show ?thesis
      proof (cases node)
        case NDir
        then show ?thesis using "2.IH"(3) [OF _ _ Some NDir] "2.prems" 3 Some by simp
      next
        case (NFile c)
        with "2.prems" 3 Some show ?thesis by (auto simp: is_dir_def split: if_splits)
      next
        case (NLink t)
        show ?thesis
        proof (cases n)
          case 0
          with "2.prems" 3 Some NLink show ?thesis by simp
        next
          case (Suc m)
          then show ?thesis using "2.IH"(4) [OF _ _ Some NLink Suc] "2.prems" 3 Some NLink by simp
        qed
      qed
    qed
  qed
qed simp

lemma walk_absent: "walk_path n f cur ss = Absent d rest \<Longrightarrow> rest \<noteq> [] \<and> f (d @ [hd rest]) = None"
  by (induction n f cur ss rule: walk_path.induct) (auto split: if_splits option.splits fs_node.splits nat.splits)

lemma none_below: "fs_ok f \<Longrightarrow> f q = None \<Longrightarrow> q \<noteq> [] \<Longrightarrow> f (q @ zs) = None"
proof (induction zs rule: rev_induct)
  case Nil
  then show ?case by simp
next
  case (snoc z zs)
  show ?case
  proof (rule ccontr)
    assume "f (q @ zs @ [z]) \<noteq> None"
    then have "is_dir f (q @ zs)" using snoc.prems(1) unfolding fs_ok_def by (metis append_assoc butlast_snoc)
    with snoc show False by (simp add: is_dir_def)
  qed
qed

lemma strict_prefix_self [simp]: "strict_prefix r (r @ z) \<longleftrightarrow> z \<noteq> []"
  by (auto simp: strict_prefix_def)

lemma continue_dir:
  assumes "fs_ok f" and "real_path f xs = At r" and "is_dir f r" and "ys \<noteq> []"
  shows "\<exists>m. real_path f (xs @ ys) = walk_path m f r ys"
proof -
  have "is_dir f []" by (simp add: is_dir_def)
  moreover have "\<not> (\<exists>c. f r = Some (NFile c))" using assms(1,3) by (auto simp: is_dir_def fs_ok_def)
  ultimately show ?thesis
    using walk_continue [OF assms(1) _ assms(2) [unfolded real_path_def] assms(4)] unfolding real_path_def by blast
qed

lemma missing_below:
  assumes "fs_ok f" and "real_path f ss = Absent r ys" and "strict_prefix r p" and "prefix p (r @ ys)"
  shows "f p = None"
proof -
  have y: "ys \<noteq> []" "f (r @ [hd ys]) = None" using walk_absent assms(2) unfolding real_path_def by blast+
  obtain zs where zs: "p = r @ zs" "zs \<noteq> []" using assms(3) by (auto simp: strict_prefix_def prefix_def)
  then obtain us where "ys = zs @ us" using assms(4) by (auto simp: prefix_def)
  then have "hd zs = hd ys" using zs(2) by simp
  then have "p = (r @ [hd ys]) @ tl zs" using zs by (cases zs) auto
  with none_below [OF assms(1) y(2)] show ?thesis by simp
qed

lemma add_dirs_grows:
  assumes "fs_ok f" and "real_path f ss = Absent r ys" and "is_dir f r" and "list_all clean_seg (r @ ys)"
    and "prefix rb r" and "prefix zs ys"
  shows "grows_inside rb f (add_dirs f r zs)" and "fs_ok (add_dirs f r zs)"
proof -
  let ?f = "add_dirs f r zs"
  have none: "f p = None" if "strict_prefix r p" "prefix p (r @ zs)" for p
  proof (rule missing_below [OF assms(1,2) that(1)])
    show "prefix p (r @ ys)" using that(2) assms(6) by (auto intro: prefix_order.order_trans)
  qed
  show g: "grows_inside rb f ?f"
  proof -
    have "prefix rb p" if "strict_prefix r p" for p
      using assms(5) that by (auto simp: strict_prefix_def intro: prefix_order.order_trans)
    then show ?thesis using none by (auto simp: grows_inside_def add_dirs_def)
  qed
  show "fs_ok ?f"
    unfolding fs_ok_def
  proof (intro conjI allI impI)
    fix p assume p: "?f p \<noteq> None"
    show "list_all clean_seg p"
    proof (cases "strict_prefix r p \<and> prefix p (r @ zs)")
      case True
      then have "set p \<subseteq> set (r @ zs)" by (blast dest: set_mono_prefix)
      moreover have "set zs \<subseteq> set ys" using assms(6) by (rule set_mono_prefix)
      ultimately have "set p \<subseteq> set (r @ ys)" by auto
      then show ?thesis using assms(4) unfolding list_all_iff by blast
    next
      case False
      then have "f p \<noteq> None" using p by (auto simp: add_dirs_def)
      then show ?thesis using assms(1) unfolding fs_ok_def by blast
    qed
    show "is_dir ?f (butlast p)"
    proof (cases "strict_prefix r p \<and> prefix p (r @ zs)")
      case True
      then obtain ws where ws: "p = r @ ws" "ws \<noteq> []" by (auto simp: strict_prefix_def prefix_def)
      show ?thesis
      proof (cases "butlast ws = []")
        case True
        then have "butlast p = r" using ws by (simp add: butlast_append)
        moreover have "\<not> strict_prefix r r" by simp
        ultimately show ?thesis using assms(3) by (simp add: is_dir_def add_dirs_def)
      next
        case False
        then have "strict_prefix r (butlast p)" "prefix (butlast p) (r @ zs)"
          using ws True by (auto simp: butlast_append intro: prefix_order.order_trans [OF prefixeq_butlast])
        then show ?thesis by (simp add: is_dir_def add_dirs_def)
      qed
    next
      case False
      then have "f p \<noteq> None" using p by (auto simp: add_dirs_def)
      then have "is_dir f (butlast p)" using assms(1) unfolding fs_ok_def by blast
      then show ?thesis using g by (auto simp: is_dir_def grows_inside_def)
    qed
  next
    show "?f [] = None" using assms(1) by (auto simp: add_dirs_def fs_ok_def)
  qed
qed

lemma put_file_grows:
  assumes "fs_ok f" and "prefix rb p" and "f p = None \<or> (\<exists>c. f p = Some (NFile c))"
    and "list_all clean_seg p" and "p \<noteq> []" and "is_dir f (butlast p)"
  shows "grows_inside rb f (f(p := Some (NFile c)))" and "fs_ok (f(p := Some (NFile c)))"
proof -
  show g: "grows_inside rb f (f(p := Some (NFile c)))" using assms(2,3) by (auto simp: grows_inside_def)
  have "is_dir f q \<Longrightarrow> is_dir (f(p := Some (NFile c))) q" for q
    using g by (auto simp: is_dir_def grows_inside_def)
  then show "fs_ok (f(p := Some (NFile c)))"
    using assms(1,4,5,6) unfolding fs_ok_def by auto
qed

lemma walk_added:
  "list_all clean_seg zs \<Longrightarrow> (\<And>k. k < length zs \<Longrightarrow> f (r @ take (Suc k) zs) = Some NDir) \<Longrightarrow>
     walk_path m f r (zs @ ws) = walk_path m f (r @ zs) ws"
proof (induction zs arbitrary: r)
  case Nil
  then show ?case by simp
next
  case (Cons z zs)
  have z: "z \<noteq> [] \<and> z \<noteq> dot \<and> z \<noteq> dotdot" using Cons.prems(1) by (simp add: clean_seg_def)
  have d: "f (r @ [z]) = Some NDir" using Cons.prems(2) [of 0] by simp
  have "walk_path m f (r @ [z]) (zs @ ws) = walk_path m f ((r @ [z]) @ zs) ws"
  proof (rule Cons.IH)
    show "list_all clean_seg zs" using Cons.prems(1) by simp
    show "f ((r @ [z]) @ take (Suc k) zs) = Some NDir" if "k < length zs" for k
      using Cons.prems(2) [of "Suc k"] that by simp
  qed
  with z d show ?case by simp
qed

lemma mkdir_grows:
  assumes "fs_ok f" and "lands_inside f rb ss" and "list_all clean_seg ss" and "mkdir_p f ss = Inr f'"
  shows "grows_inside rb f f' \<and> fs_ok f'"
proof (cases "real_path f ss")
  case (At r)
  with assms show ?thesis by (auto simp: mkdir_p_def split: option.splits fs_node.splits)
next
  case (Absent d rest)
  then obtain xs where xs: "ss = xs @ rest" "real_path f xs = At d" "is_dir f d" "prefix rb d"
    using assms(2) by (auto simp: lands_inside_def)
  have "list_all clean_seg (d @ rest)" using assms(3) xs real_clean [OF assms(1) xs(2)] by simp
  from add_dirs_grows [OF assms(1) Absent xs(3) this xs(4), of rest] assms(4) Absent
  show ?thesis by (simp add: mkdir_p_def)
qed (use assms(4) in \<open>simp_all add: mkdir_p_def\<close>)

lemma parent_exists:
  assumes "real_path f ss = At r" shows "\<exists>d. real_path f (butlast ss) = At d"
proof (rule ccontr)
  assume no: "\<nexists>d. real_path f (butlast ss) = At d"
  then have "ss \<noteq> []" using assms by auto
  then have "real_path f ss = stuck_with [last ss] (real_path f (butlast ss))"
    using no walk_stuck [of link_limit f "[]" "butlast ss" "[last ss]"] unfolding real_path_def by simp
  with assms no show False by (cases "real_path f (butlast ss)") auto
qed

lemma parent_missing:
  assumes "fs_ok f" and "real_path f xs = At r" and "is_dir f r" and "real_path f (xs @ ys) = Absent r ys"
    and "list_all clean_seg ys" and "zs \<noteq> []" and "prefix zs ys"
  shows "real_path f (xs @ zs) = Absent r zs"
proof -
  have y: "f (r @ [hd ys]) = None" using walk_absent assms(4) unfolding real_path_def by blast
  obtain m where m: "real_path f (xs @ zs) = walk_path m f r zs"
    using continue_dir [OF assms(1-3,6)] by blast
  obtain z zs' where z: "zs = z # zs'" using assms(6) by (cases zs) auto
  then have "z = hd ys" "clean_seg z" using assms(5,7) by (auto simp: prefix_def)
  then show ?thesis using m z y by (auto simp: clean_seg_def)
qed

lemma write_after_dirs:
  assumes "fs_ok f" and "real_path f xs = At r" and "is_dir f r" and "real_path f (xs @ ys) = Absent r ys"
    and "list_all clean_seg ys" and "ys \<noteq> []" and "list_all clean_seg r"
  defines "f1 \<equiv> add_dirs f r (butlast ys)"
  shows "real_path f1 (xs @ ys) = Absent (r @ butlast ys) [last ys]" and "is_dir f1 (r @ butlast ys)"
proof -
  have b: "prefix (butlast ys) ys" by (rule prefixeq_butlast)
  note g = add_dirs_grows [OF assms(1,4,3) _ prefix_order.refl b, folded f1_def]
  have cl: "list_all clean_seg (r @ ys)" using assms(5,7) by simp
  have "real_path f1 xs = At r" if "grows_inside r f f1"
    unfolding real_path_def
  proof (rule walk_grows)
    show "walk_path link_limit f [] xs = At r" using assms(2) by (simp add: real_path_def)
  qed (use that assms(3) in \<open>auto simp: grows_inside_def\<close>)
  then have x1: "real_path f1 xs = At r" using g(1) [OF cl] .
  have d1: "is_dir f1 r" using g(1) [OF cl] assms(3) by (auto simp: is_dir_def grows_inside_def)
  obtain m where m: "real_path f1 (xs @ ys) = walk_path m f1 r ys"
    using continue_dir [OF g(2) [OF cl] x1 d1 assms(6)] by blast
  have added: "f1 (r @ take (Suc k) (butlast ys)) = Some NDir" if "k < length (butlast ys)" for k
  proof -
    have "butlast ys \<noteq> []" using that by force
    then have "take (Suc k) (butlast ys) \<noteq> []" by simp
    then have "strict_prefix r (r @ take (Suc k) (butlast ys))" by (auto simp: strict_prefix_def)
    then show ?thesis by (simp add: f1_def add_dirs_def take_is_prefix)
  qed
  have cb: "list_all clean_seg (butlast ys)" "clean_seg (last ys)"
    using assms(5,6) by (auto simp: list_all_iff dest: in_set_butlastD)
  have "walk_path m f1 r (butlast ys @ [last ys]) = walk_path m f1 (r @ butlast ys) [last ys]"
    by (rule walk_added [where zs = "butlast ys", OF cb(1)]) (rule added)
  moreover have "f1 (r @ ys) = None"
  proof -
    have "\<not> prefix (r @ ys) (r @ butlast ys)"
    proof
      assume "prefix (r @ ys) (r @ butlast ys)"
      then have "prefix ys (butlast ys)" by simp
      then have "length ys \<le> length (butlast ys)" by (rule prefix_length_le)
      with assms(6) show False by (cases ys rule: rev_cases) auto
    qed
    moreover have "f (r @ ys) = None"
      using missing_below [OF assms(1,4), of "r @ ys"] assms(6) by (auto simp: strict_prefix_def)
    ultimately show ?thesis by (simp add: f1_def add_dirs_def)
  qed
  then have "f1 ((r @ butlast ys) @ [last ys]) = None" using assms(6) by simp
  ultimately show "real_path f1 (xs @ ys) = Absent (r @ butlast ys) [last ys]"
    using m assms(6) walk_one [OF cb(2), of m f1 "r @ butlast ys"] by simp
  show "is_dir f1 (r @ butlast ys)"
  proof (cases "butlast ys = []")
    case True
    with d1 show ?thesis by simp
  next
    case False
    define j where "j = length (butlast ys) - 1"
    have "0 < length (butlast ys)" using False by (simp only: length_greater_0_conv not_False_eq_True)
    then have j: "j < length (butlast ys)" "Suc j = length (butlast ys)" by (simp_all add: j_def)
    from added [OF j(1)] have "f1 (r @ butlast ys) = Some NDir" unfolding j(2) by simp
    then show ?thesis by (simp add: is_dir_def)
  qed
qed

lemma add_no_dirs [simp]: "add_dirs f r [] = f"
  by (auto simp: add_dirs_def fun_eq_iff)

lemma write_entry_grows:
  assumes "fs_ok f" and "lands_inside f rb ss" and "list_all clean_seg ss" and "list_all clean_seg rb"
  shows "grows_inside rb f (snd (write_entry f ss c)) \<and> fs_ok (snd (write_entry f ss c))"
proof (cases "\<exists>r. real_path f ss = At r")
  case True
  then obtain r where r: "real_path f ss = At r" "prefix rb r" using assms(2) by (auto simp: lands_inside_def)
  obtain d where d: "real_path f (butlast ss) = At d" using parent_exists [OF r(1)] by blast
  have "mkdir_p f (butlast ss) = Inr f \<or> (\<exists>e. mkdir_p f (butlast ss) = Inl e)"
    by (auto simp: mkdir_p_def d split: option.splits fs_node.splits)
  moreover have "grows_inside rb f (f(r := Some (NFile c))) \<and> fs_ok (f(r := Some (NFile c)))"
    if "f r = Some (NFile x)" for x
  proof -
    have "list_all clean_seg r" "is_dir f (butlast r)" "r \<noteq> []" using assms(1) that unfolding fs_ok_def by auto
    then show ?thesis using put_file_grows [OF assms(1) r(2)] that by blast
  qed
  ultimately show ?thesis using assms(1)
    by (auto simp: write_entry_def write_file_def r(1) split: option.splits fs_node.splits)
next
  case False
  then obtain xs ys r where p: "ss = xs @ ys" "ys \<noteq> []" "real_path f xs = At r" "is_dir f r"
      "real_path f ss = Absent r ys" "prefix rb r"
    using assms(2) by (auto simp: lands_inside_def)
  have cr: "list_all clean_seg r" by (rule real_clean [OF assms(1) p(3)])
  have cy: "list_all clean_seg ys" "list_all clean_seg (r @ ys)" using assms(3) p(1) cr by simp_all
  have b: "prefix (butlast ys) ys" by (rule prefixeq_butlast)
  have bs: "butlast ss = xs @ butlast ys" using p(1,2) by (simp add: butlast_append)
  let ?f1 = "add_dirs f r (butlast ys)"
  have "mkdir_p f (butlast ss) = Inr ?f1"
  proof (cases "butlast ys = []")
    case True
    have "\<not> (\<exists>c. f r = Some (NFile c))" using p(4) assms(1) by (auto simp: is_dir_def fs_ok_def)
    with True p(3) bs show ?thesis by (auto simp: mkdir_p_def split: option.splits fs_node.splits)
  next
    case False
    from parent_missing [OF assms(1) p(3,4) p(5) [unfolded p(1)] cy(1) False b] bs
    show ?thesis by (simp add: mkdir_p_def)
  qed
  note g = add_dirs_grows [OF assms(1) p(5,4) cy(2) p(6) b]
  note w = write_after_dirs [OF assms(1) p(3,4) p(5) [unfolded p(1)] cy(1) p(2) cr]
  have none: "?f1 ((r @ butlast ys) @ [last ys]) = None"
    using walk_absent w(1) unfolding real_path_def by fastforce
  have ne: "(r @ butlast ys) @ [last ys] = r @ ys" using p(2) by simp
  have "prefix rb (r @ ys)" using p(6) by (auto simp: prefix_def)
  moreover have "is_dir ?f1 (butlast (r @ ys))" using w(2) p(2) by (simp add: butlast_append)
  ultimately have "grows_inside rb ?f1 (?f1(r @ ys := Some (NFile c))) \<and> fs_ok (?f1(r @ ys := Some (NFile c)))"
    using put_file_grows [OF g(2), of rb "r @ ys" c] none cy(2) p(2) unfolding ne by auto
  moreover have "snd (write_entry f ss c) = ?f1(r @ ys := Some (NFile c))"
    using \<open>mkdir_p f (butlast ss) = Inr ?f1\<close> w(1) p(1) ne
    by (simp add: write_entry_def write_file_def)
  ultimately show ?thesis using g(1) by (auto intro: grows_trans)
qed

lemma make_dir_grows:
  assumes "fs_ok f" and "lands_inside f rb ss" and "list_all clean_seg ss"
  shows "grows_inside rb f (snd (make_dir f ss)) \<and> fs_ok (snd (make_dir f ss))"
  using mkdir_grows [OF assms] assms(1) by (auto simp: make_dir_def split: sum.splits)

lemma unpack_entry_grows:
  assumes "fs_ok f" and "real_path f (abs_segs cwd [root]) = At rb"
  shows "grows_inside rb f (snd (unpack_entry cwd root h f)) \<and> fs_ok (snd (unpack_entry cwd root h f))"
proof -
  let ?out = "resolve_path cwd [join_paths [root, ae_name h]]"
  have l: "lands_inside f rb (abs_segs cwd [?out])" if "is_real_inside cwd f root ?out True"
    using real_inside_lands [OF assms(1) that] assms(2) by auto
  note md = make_dir_grows [OF assms(1) l abs_segs_clean]
  note wr = write_entry_grows [OF assms(1) l abs_segs_clean real_clean [OF assms(1,2)]]
  show ?thesis using md wr assms(1) by (simp add: unpack_entry_def Let_def)
qed

lemma unpack_entries_grow:
  assumes "fs_ok f" and "real_path f (abs_segs cwd [root]) = At rb" and "is_dir f rb"
  shows "grows_inside rb f (snd (unpack_entries cwd root hs f)) \<and> fs_ok (snd (unpack_entries cwd root hs f))"
  using assms
proof (induction hs arbitrary: f)
  case Nil
  then show ?case by simp
next
  case (Cons h hs)
  let ?f1 = "snd (unpack_entry cwd root h f)"
  have g: "grows_inside rb f ?f1" "fs_ok ?f1" using unpack_entry_grows [OF Cons.prems(1,2)] by blast+
  have rb: "real_path ?f1 (abs_segs cwd [root]) = At rb"
    unfolding real_path_def
  proof (rule walk_grows)
    show "walk_path link_limit f [] (abs_segs cwd [root]) = At rb" using Cons.prems(2) by (simp add: real_path_def)
  qed (use g(1) Cons.prems(3) in \<open>auto simp: grows_inside_def\<close>)
  have d: "is_dir ?f1 rb" using g(1) Cons.prems(3) by (auto simp: is_dir_def grows_inside_def)
  obtain r f1 where e: "unpack_entry cwd root h f = (r, f1)" by fastforce
  then show ?case
    using g Cons.IH [OF g(2) rb d] by (cases r) (auto intro: grows_trans)
qed

text \<open>
  C27: Unpacking an archive over a folder that exists changes nothing outside the real folder, even
  with entries named to climb out, links stored in the archive, or links already in the folder;
  inside, it turns no folder or link into something else and makes no link.  This holds of the
  part that was unpacked before an error, too.
\<close>

theorem unpack_contained:
  assumes "fs_ok f" and "real_path f (abs_segs cwd [dest]) = At rb" and "is_dir f rb"
  shows "grows_inside rb f (snd (unpack cwd dest hs f))"
proof -
  have "\<not> (\<exists>c. f rb = Some (NFile c))" using assms(1,3) by (auto simp: is_dir_def fs_ok_def)
  then have m: "make_dir f (abs_segs cwd [dest]) = (Inr (), f)"
    by (auto simp: make_dir_def mkdir_p_def assms(2) split: option.splits fs_node.splits)
  have "real_path f (abs_segs cwd [resolve_path cwd [dest]]) = At rb" by (simp add: resolve_absolute assms(2))
  from unpack_entries_grow [OF assms(1) this assms(3)] show ?thesis by (simp add: unpack_def m)
qed

text \<open>An archive that tries every way out of \<open>pfs\<close>.\<close>

definition evil_archive :: "archive_entry list" where
  "evil_archive =
     [\<lparr>ae_name = ''world/level.dat'', ae_type = Some ''file'', ae_mode = 33188, ae_content = ''ok''\<rparr>,
      \<lparr>ae_name = ''esc'', ae_type = Some ''symlink'', ae_mode = 41471, ae_content = ''/srv''\<rparr>,
      \<lparr>ae_name = ''out/db.sql'', ae_type = None, ae_mode = 0, ae_content = ''gone''\<rparr>]"

theorem unpack_contained_witness:
  "let f' = snd (unpack ''/srv'' ''./servers/abc'' evil_archive pfs)
   in grows_inside [''srv'', ''servers'', ''abc''] pfs f'
     \<and> f' [''srv'', ''db.sql''] = Some (NFile ''secret'')"
proof -
  have r: "real_path pfs (abs_segs ''/srv'' [''./servers/abc'']) = At [''srv'', ''servers'', ''abc'']" by code_simp
  have d: "is_dir pfs [''srv'', ''servers'', ''abc'']" by code_simp
  have u: "\<not> prefix [''srv'', ''servers'', ''abc''] [''srv'', ''db.sql'']"
    "pfs [''srv'', ''db.sql''] = Some (NFile ''secret'')" by code_simp+
  define f' where "f' = snd (unpack ''/srv'' ''./servers/abc'' evil_archive pfs)"
  have g: "grows_inside [''srv'', ''servers'', ''abc''] pfs f'"
    unfolding f'_def by (rule unpack_contained [OF pfs_ok r d])
  then have "f' [''srv'', ''db.sql''] = pfs [''srv'', ''db.sql'']" using u(1) unfolding grows_inside_def by blast
  with u(2) g show ?thesis unfolding Let_def f'_def [symmetric] by simp
qed

end
