(* ===== verification/Access_Events.thy ===== *)
theory Access_Events
  imports Accounts
begin

text \<open>
  What the account and role handlers announce on the event bus (\<open>app-events.service.ts\<close>):
  everybody whose access a handler changes is named by an event it emits.  The WebSocket
  gateway relies on this (theory \<open>Gateway_Properties\<close>).
\<close>

section \<open>Access of a stored account\<close>

definition same_access :: "user option \<Rightarrow> user option \<Rightarrow> bool" where
  "same_access x y \<longleftrightarrow> (\<forall>a l. can x a l = can y a l) \<and> (\<forall>i. reaches_server x i = reaches_server y i)"

lemma same_access_refl [simp]: "same_access x x"
  by (simp add: same_access_def)

lemma same_access_sees: "same_access x y \<Longrightarrow> can_see_server x i = can_see_server y i"
  by (simp add: same_access_def can_see_server_def sees_servers_def)

lemma same_access_on: "same_access x y \<Longrightarrow> can_on_server x a l i = can_on_server y a l i"
  by (simp add: same_access_def can_on_server_def)

lemma can_loaded:
  "can (Some (load_user db u)) a l \<longleftrightarrow> is_admin u \<or> entries_grant (valid_levels (u_grants u)) a l \<or>
     (\<exists>r \<in> set (user_role_rows db u). entries_grant (valid_levels (r_grants r)) a l)"
  using load_user_levels [of db u a l] by (simp add: can_Some entries_grant_ok)

lemma reaches_loaded:
  "reaches_server (Some (load_user db u)) i \<longleftrightarrow>
     is_admin u \<or> \<not> rs_enabled (u_restrict u) \<or> i \<in> set (rs_allowed (u_restrict u))"
  by (simp add: reaches_server_def)

lemma same_access_loaded:
  assumes "is_admin v = is_admin u" and "u_grants v = u_grants u" and "u_restrict v = u_restrict u"
    and "\<And>a l. (\<exists>r \<in> set (user_role_rows db' v). entries_grant (valid_levels (r_grants r)) a l) \<longleftrightarrow>
                (\<exists>r \<in> set (user_role_rows db u). entries_grant (valid_levels (r_grants r)) a l)"
  shows "same_access (Some (load_user db u)) (Some (load_user db' v))"
  by (simp add: same_access_def can_loaded reaches_loaded assms)

lemma same_access_password: "same_access x (Some (u\<lparr>u_password := p\<rparr>)) = same_access x (Some u)"
  by (simp add: same_access_def can_def reaches_server_def)

lemma load_password:
  "load_user db (store_user db (v\<lparr>u_password := p\<rparr>)) = (load_user db (store_user db v))\<lparr>u_password := p\<rparr>"
  by (simp add: load_user_def store_user_def user_role_rows_def Let_def)

section \<open>Announced changes\<close>

text \<open>
  \<open>told\<close> are the accounts the events name; an account that does not exist yet has nothing to
  lose.
\<close>

definition announced :: "adb \<Rightarrow> adb \<Rightarrow> string list \<Rightarrow> bool" where
  "announced db db' told \<longleftrightarrow>
     (\<forall>uid. uid \<in> set told \<or> ur_find_by_id db uid = None \<or>
        same_access (ur_find_by_id db uid) (ur_find_by_id db' uid))"

fun event_user :: "account_event \<Rightarrow> string" where
  "event_user (EvAccessChanged uid) = uid"
| "event_user (EvUserDeleted uid) = uid"

lemma announcedI:
  assumes "\<And>raw. raw \<in> set (db_users db) \<Longrightarrow> row_find u_id (u_id raw) (db_users db) = Some raw \<Longrightarrow>
     u_id raw \<notin> set told \<Longrightarrow> same_access (Some (load_user db raw)) (ur_find_by_id db' (u_id raw))"
  shows "announced db db' told"
  unfolding announced_def
proof (intro allI)
  fix uid
  show "uid \<in> set told \<or> ur_find_by_id db uid = None \<or> same_access (ur_find_by_id db uid) (ur_find_by_id db' uid)"
  proof (cases "row_find u_id uid (db_users db)")
    case None
    then show ?thesis by (simp add: ur_find_by_id_def)
  next
    case (Some raw)
    with row_find_Some_in [OF Some] assms [of raw] show ?thesis by (auto simp: ur_find_by_id_def)
  qed
qed

lemma announced_create_user:
  assumes "ur_create db u = Inr db'" shows "announced db db' []"
proof (rule announcedI)
  fix raw assume raw: "row_find u_id (u_id raw) (db_users db) = Some raw"
  from assms have d: "db' = db\<lparr>db_users := db_users db @ [store_user db u]\<rparr>"
    by (auto simp: ur_create_def row_insert_def split: if_splits)
  then have "load_user db' raw = load_user db raw" by (intro load_user_roles_only) simp
  moreover have "row_find u_id (u_id raw) (db_users db') = Some raw" using raw by (simp add: d row_find_append)
  ultimately show "same_access (Some (load_user db raw)) (ur_find_by_id db' (u_id raw))"
    by (simp add: ur_find_by_id_def)
qed

lemma announced_delete_user: "db_inv db \<Longrightarrow> announced db (ur_delete db i) [i]"
proof (rule announcedI)
  fix raw assume inv: "db_inv db" and raw: "row_find u_id (u_id raw) (db_users db) = Some raw" and "u_id raw \<notin> set [i]"
  then have "row_find u_id (u_id raw) (row_delete u_id i (db_users db)) = Some raw"
    by (simp add: row_delete_def row_find_filter db_inv_def)
  then show "same_access (Some (load_user db raw)) (ur_find_by_id (ur_delete db i) (u_id raw))"
    by (simp add: ur_find_by_id_def ur_delete_def load_user_def user_role_rows_def)
qed

lemma announced_create_role:
  assumes "db_inv db" and "rr_create db r = Inr db'" shows "announced db db' []"
proof (rule announcedI)
  fix raw assume mem: "raw \<in> set (db_users db)" and raw: "row_find u_id (u_id raw) (db_users db) = Some raw"
  from assms(2) have d: "db' = db\<lparr>db_roles := db_roles db @ [store_role r]\<rparr>"
    and new: "r_id r \<notin> r_id ` set (db_roles db)"
    by (auto simp: rr_create_def row_insert_def row_find_None_iff split: if_splits)
  have "r_id r \<notin> set (u_roles raw)" using assms(1) mem new by (auto simp: db_inv_def user_row_ok_def)
  then have "user_role_rows db' raw = user_role_rows db raw" by (simp add: d user_role_rows_def)
  then show "same_access (Some (load_user db raw)) (ur_find_by_id db' (u_id raw))"
    using raw by (simp add: ur_find_by_id_def d load_user_def)
qed

section \<open>Updating and deleting an account\<close>

definition asked_update :: "user \<Rightarrow> user \<Rightarrow> update_dto \<Rightarrow> string \<Rightarrow> role list \<Rightarrow> user" where
  "asked_update actor u dto hash rs = (let v = apply_dto actor u dto hash
     in v\<lparr>u_access := effective_access rs (u_grants v) (u_ext v)\<rparr>)"

lemma asked_update_simps [simp]:
  "u_id (asked_update actor u dto hash rs) = u_id u"
  "u_grants (asked_update actor u dto hash rs) = (case ud_grants dto of None \<Rightarrow> u_grants u | Some g \<Rightarrow> g)"
  "u_roles (asked_update actor u dto hash rs) = (case ud_roles dto of None \<Rightarrow> u_roles u | Some rs \<Rightarrow> uniq rs)"
  by (simp_all add: asked_update_def apply_dto_def Let_def)

lemma update_account_parts:
  assumes "update_account w actor username dto hash session now = Inr w'"
  obtains u rs v db1 where "ur_find_by_username (aw_db w) username = Some u"
    and "v = asked_update actor u dto hash rs"
    and "roles_resolve (aw_db w) (u_roles v) = Inr rs" and "acc_update (aw_db w) v = Inr db1"
    and "aw_db w' = db1"
    and "aw_events w' = aw_events w @ (if access_changed u v then [EvAccessChanged (u_id u)] else [])"
    and "aw_sessions w' = (if needs_session_revoke u v
           then revoke_sessions (aw_sessions w) (u_id u) actor session now else aw_sessions w)"
proof -
  from assms obtain u where f: "find_managed (aw_db w) actor username = Inr u"
    and fin: "update_account_finish w actor u dto hash session now = Inr w'"
    by (auto simp: update_account_def and_then_Inr_iff)
  from f have found: "ur_find_by_username (aw_db w) username = Some u"
    by (auto simp: find_managed_def and_then_Inr_iff split: option.splits)
  from fin obtain rs where rs: "roles_resolve (aw_db w) (u_roles (apply_dto actor u dto hash)) = Inr rs"
    and acc: "acc_update (aw_db w) (asked_update actor u dto hash rs) = Inr (aw_db w')"
    and ev: "aw_events w' = aw_events w @ (if access_changed u (asked_update actor u dto hash rs) then [EvAccessChanged (u_id u)] else [])"
    and ss: "aw_sessions w' = (if needs_session_revoke u (asked_update actor u dto hash rs)
           then revoke_sessions (aw_sessions w) (u_id u) actor session now else aw_sessions w)"
    unfolding update_account_finish_def asked_update_def Let_def and_then_Inr_iff by auto
  have "roles_resolve (aw_db w) (u_roles (asked_update actor u dto hash rs)) = Inr rs"
    using rs by (simp add: apply_dto_def)
  from that [OF found refl this acc refl ev ss] show thesis .
qed

lemma announced_update_account:
  assumes inv: "db_inv (aw_db w)" and g: "case ud_grants dto of None \<Rightarrow> True | Some g \<Rightarrow> jsmap_ok g"
    and upd: "update_account w actor username dto hash session now = Inr w'"
  shows "\<exists>evs. aw_events w' = aw_events w @ evs \<and> announced (aw_db w) (aw_db w') (map event_user evs)"
proof -
  obtain u rs v db1 where found: "ur_find_by_username (aw_db w) username = Some u"
    and v: "v = asked_update actor u dto hash rs"
    and rs: "roles_resolve (aw_db w) (u_roles v) = Inr rs" and acc: "acc_update (aw_db w) v = Inr db1"
    and db': "aw_db w' = db1"
    and ev: "aw_events w' = aw_events w @ (if access_changed u v then [EvAccessChanged (u_id u)] else [])"
    by (rule update_account_parts [OF upd])
  from found obtain raw0 where mem0: "raw0 \<in> set (db_users (aw_db w))" and u: "u = load_user (aw_db w) raw0"
    by (auto simp: ur_find_by_username_def dest: row_find_Some_in)
  have i: "u_id v = u_id u" by (simp add: v)
  from mem0 inv have g0: "jsmap_ok (u_grants raw0)" by (simp add: db_inv_def user_row_ok_def)
  have ur: "ur_update (aw_db w) v = Inr db1" using acc by (auto simp: acc_update_def split: if_splits)
  have roles: "db_roles db1 = db_roles (aw_db w)" by (rule ur_update_roles [OF ur])
  have users: "db_users db1 = row_patch u_id (\<lambda>r x. store_user (aw_db w) r) v (db_users (aw_db w))"
    using ur by (auto simp: ur_update_def split: if_splits)
  have "same_access (Some (load_user (aw_db w) raw)) (ur_find_by_id (aw_db w') (u_id raw))"
    if mem: "raw \<in> set (db_users (aw_db w))" and raw: "row_find u_id (u_id raw) (db_users (aw_db w)) = Some raw"
      and quiet: "u_id raw = u_id u \<Longrightarrow> \<not> access_changed u v" for raw
  proof (cases "u_id raw = u_id u")
    case False
    then have "row_find u_id (u_id raw) (db_users db1) = Some raw"
      using raw by (simp add: users row_find_patch [OF store_keeps_key] i)
    then show ?thesis by (simp add: db' ur_find_by_id_def load_user_roles_only [OF roles])
  next
    case True
    then have same: "raw = raw0" using inv mem mem0 row_key_eq [of u_id "db_users (aw_db w)" raw raw0]
      by (simp add: u db_inv_def)
    let ?v = "v\<lparr>u_password := u_password u\<rparr>"
    have "\<not> needs_session_revoke u ?v" using quiet [OF True]
      by (simp add: needs_session_revoke_def access_changed_def same_restrict_def)
    moreover have "jsmap_ok (u_grants ?v)"
      using g g0 by (auto simp: v u jsmap_ok_valid_levels split: option.splits)
    moreover have "roles_resolve (aw_db w) (u_roles ?v) = Inr rs" using rs by simp
    ultimately have "same_powers (load_user (aw_db w) (store_user (aw_db w) ?v)) u"
      by (intro unchanged_same_powers [OF inv mem0 u])
    then have "same_access (Some u) (Some (load_user (aw_db w) (store_user (aw_db w) ?v)))"
      by (simp add: same_powers_def same_access_def)
    then have "same_access (Some u) (Some (load_user (aw_db w) (store_user (aw_db w) v)))"
      by (simp add: load_password same_access_password)
    then show ?thesis using acc_update_read [OF acc] True i by (simp add: db' same u)
  qed
  then have "announced (aw_db w) (aw_db w')
      (map event_user (if access_changed u v then [EvAccessChanged (u_id u)] else []))"
    by (intro announcedI) auto
  with ev show ?thesis by blast
qed

lemma announced_delete_account:
  assumes "db_inv (aw_db w)" and "delete_account w actor username = Inr w'"
  shows "\<exists>evs. aw_events w' = aw_events w @ evs \<and> announced (aw_db w) (aw_db w') (map event_user evs)"
proof -
  from assms(2) have "\<exists>i. aw_db w' = ur_delete (aw_db w) i \<and> aw_events w' = aw_events w @ [EvUserDeleted i]"
    by (auto simp: delete_account_def and_then_Inr_iff acc_delete_def split: if_splits)
  then obtain i where "aw_db w' = ur_delete (aw_db w) i" and "aw_events w' = aw_events w @ [EvUserDeleted i]"
    by blast
  with announced_delete_user [OF assms(1), of i] show ?thesis by simp
qed

section \<open>Updating and deleting a role\<close>

lemma members_ids: "u_id ` set (roles_members db i) = u_id ` {u \<in> set (db_users db). i \<in> set (u_roles u)}"
proof -
  have "\<exists>u. ur_find_by_id db (u_id x) = Some u \<and> u_id u = u_id x" if "x \<in> set (db_users db)" for x
    using that by (cases "row_find u_id (u_id x) (db_users db)")
      (auto simp: ur_find_by_id_def row_find_None_iff dest: row_find_Some_in)
  then show ?thesis
    by (fastforce simp: roles_members_def rr_member_ids_def ur_find_by_id_def image_iff
        split: option.splits dest: row_find_Some_in)
qed

lemma role_rows_patched:
  assumes "r_id r \<notin> set (u_roles u)"
  shows "user_role_rows (db\<lparr>db_roles := row_patch r_id patch_role r (db_roles db)\<rparr>) u = user_role_rows db u"
proof -
  have "filter (\<lambda>x. r_id x \<in> set (u_roles u)) (row_patch r_id patch_role r t)
      = filter (\<lambda>x. r_id x \<in> set (u_roles u)) t" for t
    using assms by (induction t) (auto simp: row_patch_def patch_role_def)
  then show ?thesis by (simp add: user_role_rows_def)
qed

lemma role_grants_kept:
  assumes "rows_ok r_id (db_roles db)" and "r \<in> set (db_roles db)" and "r_id nxt = r_id r"
    and "r_grants nxt = valid_levels (r_grants r)"
  shows "(\<exists>x \<in> set (user_role_rows (db\<lparr>db_roles := row_patch r_id patch_role nxt (db_roles db)\<rparr>) u).
            entries_grant (valid_levels (r_grants x)) a l)
       \<longleftrightarrow> (\<exists>x \<in> set (user_role_rows db u). entries_grant (valid_levels (r_grants x)) a l)"
proof -
  let ?p = "\<lambda>x. if r_id x = r_id nxt then patch_role nxt x else x"
  have p: "r_id (?p x) = r_id x"
    "entries_grant (valid_levels (r_grants (?p x))) a l = entries_grant (valid_levels (r_grants x)) a l"
    if "x \<in> set (db_roles db)" for x
    using row_key_eq [OF assms(1) that assms(2)] assms(3,4) by (auto simp: patch_role_def store_role_def)
  have rows: "user_role_rows (db\<lparr>db_roles := row_patch r_id patch_role nxt (db_roles db)\<rparr>) u =
      filter (\<lambda>r. r_id r \<in> set (u_roles u)) (map ?p (db_roles db))"
    by (simp add: user_role_rows_def row_patch_def)
  have "(\<exists>x \<in> set (filter (\<lambda>r. r_id r \<in> set (u_roles u)) (map ?p (db_roles db))). entries_grant (valid_levels (r_grants x)) a l)
      \<longleftrightarrow> (\<exists>x \<in> set (db_roles db). r_id (?p x) \<in> set (u_roles u) \<and> entries_grant (valid_levels (r_grants (?p x))) a l)"
    unfolding set_filter set_map by blast
  also have "\<dots> \<longleftrightarrow> (\<exists>x \<in> set (db_roles db). r_id x \<in> set (u_roles u) \<and> entries_grant (valid_levels (r_grants x)) a l)"
    using p by (intro bex_cong) (simp_all only:)
  also have "\<dots> \<longleftrightarrow> (\<exists>x \<in> set (user_role_rows db u). entries_grant (valid_levels (r_grants x)) a l)"
    unfolding user_role_rows_def by auto
  finally show ?thesis unfolding rows .
qed

lemma announced_update_role:
  assumes inv: "db_inv db" and upd: "roles_update db actor i inp now = Inr (before, v, told, db')"
  shows "announced db db' told"
proof -
  from upd obtain nxt n where b: "rr_find_by_id db i = Some before"
    and nxt: "nxt = updated_role before inp n now" and rr: "rr_update db nxt = Inr db'"
    and told: "told = (if ri_grants inp \<noteq> None \<or> ri_ext inp \<noteq> None then map u_id (roles_members db i) else [])"
    by (auto simp: roles_update_def Let_def and_then_Inr_iff roles_find_def split: if_splits option.splits)
  from b obtain r where r: "r \<in> set (db_roles db)" "r_id r = i" "before = load_role r"
    by (auto simp: rr_find_by_id_def dest: row_find_Some_in)
  have id: "r_id nxt = i" by (simp add: nxt updated_role_def r load_role_def)
  have d: "db' = db\<lparr>db_roles := row_patch r_id patch_role nxt (db_roles db)\<rparr>"
    using rr by (auto simp: rr_update_def split: if_splits)
  show ?thesis
  proof (rule announcedI)
    fix raw assume mem: "raw \<in> set (db_users db)" and raw: "row_find u_id (u_id raw) (db_users db) = Some raw"
      and quiet: "u_id raw \<notin> set told"
    have "same_access (Some (load_user db raw)) (Some (load_user db' raw))"
    proof (cases "i \<in> set (u_roles raw)")
      case False
      then show ?thesis by (intro same_access_loaded) (simp_all add: d role_rows_patched id)
    next
      case True
      then have "u_id raw \<in> u_id ` set (roles_members db i)" using mem by (auto simp: members_ids)
      with quiet told have "ri_grants inp = None" by (auto split: if_splits)
      then have "r_grants nxt = valid_levels (r_grants r)" by (simp add: nxt updated_role_def r load_role_def)
      then show ?thesis using inv r id
        by (intro same_access_loaded) (simp_all add: d role_grants_kept db_inv_def)
    qed
    then show "same_access (Some (load_user db raw)) (ur_find_by_id db' (u_id raw))"
      using raw by (simp add: ur_find_by_id_def d)
  qed
qed

definition drop_role :: "string \<Rightarrow> user \<Rightarrow> user" where
  "drop_role i u = u\<lparr>u_roles := filter (\<lambda>r. r \<noteq> i) (u_roles u)\<rparr>"

lemma drop_role_id [simp]: "u_id (drop_role i u) = u_id u"
  by (simp add: drop_role_def)

lemma find_drop_role: "row_find u_id j (map (drop_role i) t) = map_option (drop_role i) (row_find u_id j t)"
  by (induction t) auto

lemma drop_other_role: "i \<notin> set (u_roles u) \<Longrightarrow> drop_role i u = u"
proof -
  assume "i \<notin> set (u_roles u)"
  then have "filter (\<lambda>r. r \<noteq> i) (u_roles u) = u_roles u" by (auto intro!: filter_True)
  then show ?thesis by (simp add: drop_role_def)
qed

lemma rr_delete_drop:
  "rr_delete db i = db\<lparr>db_roles := row_delete r_id i (db_roles db), db_users := map (drop_role i) (db_users db)\<rparr>"
proof -
  have "drop_role i = (\<lambda>u. u\<lparr>u_roles := filter (\<lambda>r. r \<noteq> i) (u_roles u)\<rparr>)" by (rule ext) (simp add: drop_role_def)
  then show ?thesis by (simp add: rr_delete_def)
qed

lemma announced_remove_role:
  assumes rem: "roles_remove db actor i = Inr (v, told, db')"
  shows "announced db db' told"
proof -
  from rem have told: "told = map u_id (roles_members db i)" and d: "db' = rr_delete db i"
    by (auto simp: roles_remove_def Let_def and_then_Inr_iff split: if_splits option.splits)
  show ?thesis
  proof (rule announcedI)
    fix raw assume mem: "raw \<in> set (db_users db)" and raw: "row_find u_id (u_id raw) (db_users db) = Some raw"
      and quiet: "u_id raw \<notin> set told"
    have other: "i \<notin> set (u_roles raw)"
    proof
      assume "i \<in> set (u_roles raw)"
      then have "u_id raw \<in> u_id ` set (roles_members db i)" using mem by (auto simp: members_ids)
      with quiet told show False by simp
    qed
    then have "filter (\<lambda>r. r_id r \<in> set (u_roles raw)) (row_delete r_id i t) =
        filter (\<lambda>r. r_id r \<in> set (u_roles raw)) t" for t
      by (induction t) (auto simp: row_delete_def)
    then have rows: "user_role_rows db' raw = user_role_rows db raw"
      by (simp add: d rr_delete_drop user_role_rows_def)
    have "same_access (Some (load_user db raw)) (Some (load_user db' raw))"
      by (intro same_access_loaded) (simp_all add: rows)
    moreover have "ur_find_by_id db' (u_id raw) = Some (load_user db' raw)"
      by (simp add: ur_find_by_id_def) (simp add: d rr_delete_drop find_drop_role raw drop_other_role [OF other])
    ultimately show "same_access (Some (load_user db raw)) (ur_find_by_id db' (u_id raw))" by simp
  qed
qed

section \<open>An update that waited\<close>

lemma resolved_known: "resolve_ids db is = Inr rs \<Longrightarrow> i \<in> set is \<Longrightarrow> i \<in> r_id ` set (db_roles db)"
  by (induction "is" arbitrary: rs)
     (auto simp: and_then_Inr_iff rr_find_by_id_def split: option.splits dest!: row_find_Some_in)

text \<open>
  C3: A password is hashed in between reading the account and writing it back.  An update that
  sets a new password writes the roles, levels, keys, servers and admin flag it read before
  (\<open>u\<close>), whatever the account became meanwhile (\<open>w\<close>), and announces no change of access:
  taking access away while a password change is under way is undone.
\<close>

theorem stale_update_restores_access:
  assumes "update_account_finish w actor u dto hash session now = Inr w'"
    and "ud_roles dto = None" and "ud_grants dto = None" and "ud_ext dto = None" and "ud_restrict dto = None"
    and "ud_admin dto = None" and "distinct (u_roles u)"
  shows "\<exists>x. ur_find_by_id (aw_db w') (u_id u) = Some x
    \<and> is_admin x = is_admin u \<and> u_roles x = u_roles u
    \<and> u_grants x = valid_levels (u_grants u) \<and> set (u_ext x) = set (u_ext u)
    \<and> rs_enabled (u_restrict x) = rs_enabled (u_restrict u)
    \<and> set (rs_allowed (u_restrict x)) = set (rs_allowed (u_restrict u)) \<inter> set (db_servers (aw_db w))
    \<and> aw_events w' = aw_events w"
proof -
  let ?v = "\<lambda>rs. asked_update actor u dto hash rs"
  from assms(1) obtain rs where rs: "roles_resolve (aw_db w) (u_roles (apply_dto actor u dto hash)) = Inr rs"
    and acc: "acc_update (aw_db w) (?v rs) = Inr (aw_db w')"
    and ev: "aw_events w' = aw_events w @ (if access_changed u (?v rs) then [EvAccessChanged (u_id u)] else [])"
    unfolding update_account_finish_def asked_update_def Let_def and_then_Inr_iff by auto
  have v: "u_roles (?v rs) = u_roles u" "u_grants (?v rs) = u_grants u" "u_ext (?v rs) = u_ext u"
    "u_restrict (?v rs) = u_restrict u" "is_admin (?v rs) = is_admin u" "u_id (?v rs) = u_id u"
    using assms(2-6) by (simp_all add: asked_update_def apply_dto_def Let_def)
  have "\<not> access_changed u (?v rs)"
    using assms(2,3) by (simp add: access_changed_def v same_set_def same_grants_def same_restrict_def list_all_iff)
  then have quiet: "aw_events w' = aw_events w" using ev by simp
  have "resolve_ids (aw_db w) (uniq (u_roles u)) = Inr rs"
    using rs assms(2) by (simp add: roles_resolve_def apply_dto_def)
  then have known: "set (u_roles u) \<subseteq> r_id ` set (db_roles (aw_db w))" by (auto dest: resolved_known)
  then have "u_roles (store_user (aw_db w) (?v rs)) = u_roles u"
    using assms(2,7) filter_True [of "u_roles u" "\<lambda>i. i \<in> r_id ` set (db_roles (aw_db w))"]
    by (simp add: store_user_def uniq_distinct subset_iff)
  moreover have "ur_find_by_id (aw_db w') (u_id u) = Some (load_user (aw_db w) (store_user (aw_db w) (?v rs)))"
    using acc_update_read [OF acc] v(6) by simp
  moreover have "valid_levels (valid_levels m) = valid_levels m" for m by simp
  ultimately show ?thesis using quiet assms(2,3) by (auto simp: v) (auto simp: store_user_def v)
qed

text \<open>The actor sets the password of \<open>b\<close>; while it is hashed, \<open>b\<close> loses its role.\<close>

definition ex_password :: update_dto where
  "ex_password = \<lparr>ud_username = None, ud_roles = None, ud_grants = None, ud_ext = None, ud_restrict = None,
     ud_password = Some ''pw'', ud_admin = None\<rparr>"

theorem stale_update_restores_access_witness:
  "\<exists>u w1 w2 x. ur_find_by_username ex_db ''b'' = Some u
     \<and> update_account ex_world ex_actor ''b'' (ex_password\<lparr>ud_roles := Some []\<rparr>) ''h1'' None 5 = Inr w1
     \<and> map_option u_roles (ur_find_by_id (aw_db w1) ''b'') = Some []
     \<and> update_account_finish w1 ex_actor u ex_password ''h2'' None 6 = Inr w2
     \<and> ur_find_by_id (aw_db w2) ''b'' = Some x \<and> u_roles x = [''r''] \<and> aw_events w2 = aw_events w1"
proof -
  let ?r = "update_account ex_world ex_actor ''b'' (ex_password\<lparr>ud_roles := Some []\<rparr>) ''h1'' None 5"
  let ?go = "\<lambda>w1. update_account_finish w1 ex_actor (the (ur_find_by_username ex_db ''b'')) ex_password ''h2'' None 6"
  have "case ?r of Inl _ \<Rightarrow> False | Inr w1 \<Rightarrow>
      map_option u_roles (ur_find_by_id (aw_db w1) ''b'') = Some [] \<and> is_ok (?go w1)" by code_simp
  then obtain w1 where w1: "?r = Inr w1" "map_option u_roles (ur_find_by_id (aw_db w1) ''b'') = Some []" "is_ok (?go w1)"
    by (auto split: sum.splits)
  have "map_option (\<lambda>u. (u_id u, u_roles u, u_grants u)) (ur_find_by_username ex_db ''b'') = Some (''b'', [''r''], [])" by code_simp
  then obtain u where u: "ur_find_by_username ex_db ''b'' = Some u" "u_id u = ''b''" "u_roles u = [''r'']" "u_grants u = []"
    by auto
  from w1(3) u(1) obtain w2 where w2: "update_account_finish w1 ex_actor u ex_password ''h2'' None 6 = Inr w2"
    by (auto simp: is_ok_iff)
  have "\<exists>x. ur_find_by_id (aw_db w2) (u_id u) = Some x
    \<and> is_admin x = is_admin u \<and> u_roles x = u_roles u
    \<and> u_grants x = valid_levels (u_grants u) \<and> set (u_ext x) = set (u_ext u)
    \<and> rs_enabled (u_restrict x) = rs_enabled (u_restrict u)
    \<and> set (rs_allowed (u_restrict x)) = set (rs_allowed (u_restrict u)) \<inter> set (db_servers (aw_db w1))
    \<and> aw_events w2 = aw_events w1"
    by (rule stale_update_restores_access [OF w2]) (simp_all add: ex_password_def u)
  then show ?thesis using u w1(1,2) w2 by auto
qed

end
