(* ===== verification/Gateway.thy ===== *)
theory Gateway
  imports Access_Events
begin

text \<open>
  The WebSocket gateway (\<open>ws/server.gateway.ts\<close> and \<open>ws/services\<close>): sockets, the rooms they are
  in, the events of the account and session services that cut sockets, and what is sent to whom.

  A socket is named by its position in \<open>gw_sockets\<close>; closed sockets stay in the list.  The rooms
  are the strings of the code.  Handlers of the event bus run later than the emitter
  (\<open>queueMicrotask\<close>), so emitted events wait in \<open>gw_queue\<close>; a handler that awaits
  \<open>fetchSockets\<close> leaves the sockets it found in \<open>gw_cuts\<close>; a subscription that awaits \<open>join\<close>
  leaves the account it read in \<open>gw_joining\<close>.
\<close>

section \<open>Sockets and rooms\<close>

record socket =
  sk_user :: "(string \<times> string) option"
  sk_rooms :: "string list"
  sk_open :: bool

text \<open>\<open>sk_user\<close> is the account id and the session id of \<open>client.data\<close>.\<close>

definition user_room :: "string \<Rightarrow> string" where
  "user_room uid = ''user:'' @ uid"

definition server_room :: "string \<Rightarrow> string" where
  "server_room sid = ''server:'' @ sid"

definition console_room :: "string \<Rightarrow> string" where
  "console_room sid = ''console:'' @ sid"

definition global_room :: string where
  "global_room = ''global''"

datatype ws_event =
    CutSession string string
  | CutOthers string "string option"
  | CutUser string

record subscription =
  sb_socket :: nat
  sb_user :: "user option"
  sb_server :: string

record gateway =
  gw_acc :: aworld
  gw_sockets :: "socket list"
  gw_queue :: "ws_event list"
  gw_cuts :: "nat list list"
  gw_joining :: "subscription list"

definition join_room :: "string \<Rightarrow> socket \<Rightarrow> socket" where
  "join_room r s = (if r \<in> set (sk_rooms s) then s else s\<lparr>sk_rooms := sk_rooms s @ [r]\<rparr>)"

definition leave_room :: "string \<Rightarrow> socket \<Rightarrow> socket" where
  "leave_room r s = s\<lparr>sk_rooms := removeAll r (sk_rooms s)\<rparr>"

definition close_socket :: "socket \<Rightarrow> socket" where
  "close_socket s = s\<lparr>sk_open := False, sk_rooms := []\<rparr>"

definition on_socket :: "nat \<Rightarrow> (socket \<Rightarrow> socket) \<Rightarrow> gateway \<Rightarrow> gateway" where
  "on_socket n f w = (if n < length (gw_sockets w)
     then w\<lparr>gw_sockets := (gw_sockets w)[n := f (gw_sockets w ! n)]\<rparr> else w)"

definition gw_db :: "gateway \<Rightarrow> adb" where
  "gw_db w = aw_db (gw_acc w)"

text \<open>The open sockets in a room, whom \<open>io.to(room).emit\<close> reaches.\<close>

definition members_of :: "gateway \<Rightarrow> string \<Rightarrow> nat list" where
  "members_of w r = filter (\<lambda>n. sk_open (gw_sockets w ! n) \<and> r \<in> set (sk_rooms (gw_sockets w ! n)))
     [0..<length (gw_sockets w)]"

section \<open>Connecting (auth.service.ts, handleConnection)\<close>

record handshake =
  hs_lower :: "string option"
  hs_upper :: "string option"
  hs_auth :: "string option"

definition header_or :: "string option \<Rightarrow> string option \<Rightarrow> string option" where
  "header_or a b = (case a of None \<Rightarrow> b | Some s \<Rightarrow> if s = [] then b else a)"

definition extract_auth_header :: "handshake \<Rightarrow> string option" where
  "extract_auth_header h = header_or (hs_lower h) (header_or (hs_upper h) (hs_auth h))"

definition authenticate_client ::
  "(string \<Rightarrow> string) \<Rightarrow> adb \<Rightarrow> handshake \<Rightarrow> sessions \<Rightarrow> int \<Rightarrow> (user \<times> session) result \<times> sessions" where
  "authenticate_client hash db h ss now =
     (case parse_bearer_token (extract_auth_header h) of
        None \<Rightarrow> (fail Unauthorized ''Invalid Authorization header'', ss)
      | Some token \<Rightarrow> sess_authenticate hash (ur_find_by_id db) ss token now)"

text \<open>A refused socket gets the error and is closed.  The result is the error or the list of servers sent.\<close>

definition handle_connection ::
  "(string \<Rightarrow> string) \<Rightarrow> (string \<times> 's) list \<Rightarrow> gateway \<Rightarrow> handshake \<Rightarrow> int \<Rightarrow> (string \<times> 's) list result \<times> gateway" where
  "handle_connection hash servers w h now =
     (case authenticate_client hash (gw_db w) h (aw_sessions (gw_acc w)) now of
        (Inl e, ss) \<Rightarrow>
          (Inl e, w\<lparr>gw_acc := (gw_acc w)\<lparr>aw_sessions := ss\<rparr>,
                    gw_sockets := gw_sockets w @ [\<lparr>sk_user = None, sk_rooms = [], sk_open = False\<rparr>]\<rparr>)
      | (Inr (u, s), ss) \<Rightarrow>
          (Inr (visible_servers (Some u) fst servers),
           w\<lparr>gw_acc := (gw_acc w)\<lparr>aw_sessions := ss\<rparr>,
             gw_sockets := gw_sockets w @
               [\<lparr>sk_user = Some (u_id u, s_id s), sk_rooms = [user_room (u_id u), global_room], sk_open = True\<rparr>]\<rparr>))"

definition handle_disconnect :: "gateway \<Rightarrow> nat \<Rightarrow> gateway" where
  "handle_disconnect w n = on_socket n close_socket w"

section \<open>Rooms (room.service.ts)\<close>

definition can_read_console :: "user option \<Rightarrow> string \<Rightarrow> bool" where
  "can_read_console u sid = can_on_server u AConsole LRead sid"

text \<open>\<open>const [prefix, id] = room.split(":")\<close>.\<close>

definition room_parts :: "string \<Rightarrow> string \<times> string" where
  "room_parts room = (case split_on CHR '':'' room of
      p # i # _ \<Rightarrow> (p, i)
    | [p] \<Rightarrow> (p, [])
    | [] \<Rightarrow> ([], []))"

definition room_server :: "string \<Rightarrow> string" where
  "room_server room = (let i = snd (room_parts room) in if i = [] then ''-1'' else i)"

text \<open>Up to \<open>await client.join(room)\<close>; the flag is the refusal \<open>{ ok: false }\<close>.\<close>

definition subscribe_begin :: "gateway \<Rightarrow> nat \<Rightarrow> string \<Rightarrow> bool \<times> gateway" where
  "subscribe_begin w n room =
     (case sk_user (gw_sockets w ! n) of
        None \<Rightarrow> (True, w)
      | Some (uid, _) \<Rightarrow>
          let user = ur_find_by_id (gw_db w) uid; sid = room_server room in
          if fst (room_parts room) \<noteq> ''server'' \<or> \<not> can_see_server user sid then (True, w)
          else (False, (on_socket n (join_room room) w)\<lparr>gw_joining := gw_joining w @
                 [\<lparr>sb_socket = n, sb_user = user, sb_server = sid\<rparr>]\<rparr>))"

text \<open>
  After the await, for the \<open>k\<close>-th subscription under way.  \<open>has_log\<close> says which servers have a
  process; the flag says whether the log so far is sent to the socket.
\<close>

definition subscribe_end :: "(string \<Rightarrow> bool) \<Rightarrow> gateway \<Rightarrow> nat \<Rightarrow> bool \<times> gateway" where
  "subscribe_end has_log w k =
     (let sb = gw_joining w ! k;
          w1 = w\<lparr>gw_joining := take k (gw_joining w) @ drop (Suc k) (gw_joining w)\<rparr> in
      if \<not> can_read_console (sb_user sb) (sb_server sb) then (False, w1)
      else (sk_open (gw_sockets w ! sb_socket sb) \<and> has_log (sb_server sb),
            on_socket (sb_socket sb) (join_room (console_room (sb_server sb))) w1))"

definition unsubscribe :: "gateway \<Rightarrow> nat \<Rightarrow> string \<Rightarrow> bool \<times> gateway" where
  "unsubscribe w n room =
     (case sk_user (gw_sockets w ! n) of
        None \<Rightarrow> (True, w)
      | Some _ \<Rightarrow>
          let w1 = on_socket n (leave_room room) w in
          (False, if fst (room_parts room) = ''server'' \<and> snd (room_parts room) \<noteq> []
                  then on_socket n (leave_room (console_room (snd (room_parts room)))) w1 else w1))"

section \<open>Cutting sockets (afterInit, dropSockets)\<close>

fun session_cuts :: "session_event \<Rightarrow> ws_event list" where
  "session_cuts (EvLogin uid ip) = []"
| "session_cuts (EvSessionRevoked uid sid) = [CutSession uid sid]"
| "session_cuts (EvSessionsRevoked uid e) = [CutOthers uid e]"

fun cuts_session :: "ws_event \<Rightarrow> string \<Rightarrow> string \<Rightarrow> bool" where
  "cuts_session (CutSession uid i) u sid \<longleftrightarrow> u = uid \<and> sid = i"
| "cuts_session (CutOthers uid e) u sid \<longleftrightarrow> u = uid \<and> Some sid \<noteq> e"
| "cuts_session (CutUser uid) u sid \<longleftrightarrow> u = uid"

text \<open>The events a handler emitted join the queue of the bus.\<close>

definition gw_emit :: "gateway \<Rightarrow> aworld \<Rightarrow> gateway" where
  "gw_emit w a = w\<lparr>gw_acc := a, gw_queue := gw_queue w
     @ concat (map session_cuts (drop (length (ss_events (aw_sessions (gw_acc w)))) (ss_events (aw_sessions a))))
     @ map (\<lambda>e. CutUser (event_user e)) (drop (length (aw_events (gw_acc w))) (aw_events a))\<rparr>"

definition close_all :: "nat list \<Rightarrow> gateway \<Rightarrow> gateway" where
  "close_all ns w = fold (\<lambda>n. on_socket n close_socket) ns w"

text \<open>The sessions of \<open>fetchSockets\<close> that a filter takes.\<close>

definition fetched :: "gateway \<Rightarrow> string \<Rightarrow> (string \<Rightarrow> bool) \<Rightarrow> nat list" where
  "fetched w uid by_session = filter (\<lambda>n. case sk_user (gw_sockets w ! n) of None \<Rightarrow> False
      | Some (_, sid) \<Rightarrow> by_session sid) (members_of w (user_room uid))"

definition run_event :: "gateway \<Rightarrow> gateway" where
  "run_event w =
     (case gw_queue w of
        [] \<Rightarrow> w
      | CutSession uid sid # q \<Rightarrow> w\<lparr>gw_queue := q, gw_cuts := gw_cuts w @ [fetched w uid (\<lambda>i. i = sid)]\<rparr>
      | CutOthers uid e # q \<Rightarrow> w\<lparr>gw_queue := q, gw_cuts := gw_cuts w @ [fetched w uid (\<lambda>i. Some i \<noteq> e)]\<rparr>
      | CutUser uid # q \<Rightarrow> close_all (members_of w (user_room uid)) (w\<lparr>gw_queue := q\<rparr>))"

definition run_cut :: "gateway \<Rightarrow> gateway" where
  "run_cut w = (case gw_cuts w of [] \<Rightarrow> w | ns # rest \<Rightarrow> close_all ns (w\<lparr>gw_cuts := rest\<rparr>))"

section \<open>Sending (server-broadcast.service.ts)\<close>

definition emit_server_log :: "gateway \<Rightarrow> string \<Rightarrow> nat list" where
  "emit_server_log w sid = members_of w (console_room sid)"

definition emit_server_status :: "gateway \<Rightarrow> string \<Rightarrow> nat list" where
  "emit_server_status w sid = members_of w (server_room sid)"

text \<open>Everything else about one server (query data, errors) goes to the same room as its status.\<close>

definition emit_servers_list :: "gateway \<Rightarrow> (string \<times> 's) list \<Rightarrow> (nat \<times> (string \<times> 's) list) list" where
  "emit_servers_list w servers =
     concat (map (\<lambda>n. case sk_user (gw_sockets w ! n) of
          None \<Rightarrow> []
        | Some (uid, _) \<Rightarrow> if uid = [] then []
            else [(n, visible_servers (ur_find_by_id (gw_db w) uid) fst servers)])
       (filter (\<lambda>n. sk_open (gw_sockets w ! n)) [0..<length (gw_sockets w)]))"

section \<open>Console messages (command-handler.service.ts, terminal-handler.service.ts)\<close>

definition current_user :: "gateway \<Rightarrow> nat \<Rightarrow> user option" where
  "current_user w n = (case sk_user (gw_sockets w ! n) of
      None \<Rightarrow> None
    | Some (uid, _) \<Rightarrow> if uid = [] then None else ur_find_by_id (gw_db w) uid)"

text \<open>The line that reaches the console, with the account it is recorded for.\<close>

definition submit_command :: "user option \<Rightarrow> (string \<Rightarrow> bool) \<Rightarrow> string \<Rightarrow> string \<Rightarrow> (user \<times> string) option" where
  "submit_command user running sid command =
     (case user of
        None \<Rightarrow> None
      | Some u \<Rightarrow>
          if \<not> can_on_server user AConsole LWrite sid then None
          else if \<not> running sid then None
          else Some (u, command))"

definition fetch_full_log :: "user option \<Rightarrow> (string \<Rightarrow> 'l list option) \<Rightarrow> string \<Rightarrow> 'l list" where
  "fetch_full_log user log_of sid =
     (if user = None \<or> \<not> can_read_console user sid then []
      else case log_of sid of None \<Rightarrow> [] | Some l \<Rightarrow> l)"

definition complete_line ::
  "user option \<Rightarrow> (string \<Rightarrow> (string \<Rightarrow> string \<times> string list) option) \<Rightarrow> string \<Rightarrow> string \<Rightarrow> string \<times> string list" where
  "complete_line user completer sid line =
     (if user = None \<or> \<not> can_on_server user AConsole LWrite sid then (line, [])
      else case completer sid of None \<Rightarrow> (line, []) | Some f \<Rightarrow> f line)"

section \<open>The gateway at work\<close>

text \<open>
  One step of the panel as far as the gateway sees it.  Request bodies are JSON objects, whose
  keys are distinct; a new session gets an id nobody had before (\<open>randomUUID\<close>).  An update of an
  account is one step when it sets no password; with one, the account read before the hash is
  awaited is written afterwards (\<open>stale_update_restores_access\<close>).
\<close>

inductive gw_step :: "(string \<Rightarrow> string) \<Rightarrow> gateway \<Rightarrow> gateway \<Rightarrow> bool" for hash where
  connect: "gw_step hash w (snd (handle_connection hash (servers :: (string \<times> string) list) w h now))"
| disconnect: "gw_step hash w (handle_disconnect w n)"
| subscribe: "n < length (gw_sockets w) \<Longrightarrow> sk_open (gw_sockets w ! n) \<Longrightarrow>
    gw_step hash w (snd (subscribe_begin w n room))"
| subscribed: "k < length (gw_joining w) \<Longrightarrow> gw_step hash w (snd (subscribe_end has_log w k))"
| unsubscribe: "n < length (gw_sockets w) \<Longrightarrow> sk_open (gw_sockets w ! n) \<Longrightarrow>
    gw_step hash w (snd (unsubscribe w n room))"
| event: "gw_step hash w (run_event w)"
| cut: "gw_step hash w (run_cut w)"
| account_update: "update_account (gw_acc w) actor name dto pw session now = Inr a \<Longrightarrow>
    (case ud_grants dto of None \<Rightarrow> True | Some g \<Rightarrow> jsmap_ok g) \<Longrightarrow>
    (case ud_password dto of None \<Rightarrow> True | Some p \<Rightarrow> p = []) \<Longrightarrow> gw_step hash w (gw_emit w a)"
| account_delete: "delete_account (gw_acc w) actor name = Inr a \<Longrightarrow> gw_step hash w (gw_emit w a)"
| account_create: "acc_create_finish (gw_db w) dto uid pw = Inr (r, db) \<Longrightarrow>
    gw_step hash w (gw_emit w ((gw_acc w)\<lparr>aw_db := db\<rparr>))"
| role_create: "roles_create (gw_db w) actor inp name rid now = Inr (v, db) \<Longrightarrow>
    gw_step hash w (gw_emit w ((gw_acc w)\<lparr>aw_db := db\<rparr>))"
| role_update: "roles_update (gw_db w) actor i inp now = Inr (before, v, told, db) \<Longrightarrow>
    gw_step hash w (gw_emit w ((gw_acc w)\<lparr>aw_db := db,
      aw_events := aw_events (gw_acc w) @ map EvAccessChanged told\<rparr>))"
| role_remove: "roles_remove (gw_db w) actor i = Inr (v, told, db) \<Longrightarrow>
    gw_step hash w (gw_emit w ((gw_acc w)\<lparr>aw_db := db,
      aw_events := aw_events (gw_acc w) @ map EvAccessChanged told\<rparr>))"
| login: "sid \<noteq> [] \<Longrightarrow> sid \<notin> s_id ` set (ss_rows (aw_sessions (gw_acc w))) \<Longrightarrow>
    (\<forall>s \<in> set (gw_sockets w). map_option snd (sk_user s) \<noteq> Some sid) \<Longrightarrow>
    gw_step hash w (gw_emit w ((gw_acc w)\<lparr>aw_sessions :=
      snd (sess_create hash (aw_sessions (gw_acc w)) sid token uid ip ua now)\<rparr>))"
| request: "gw_step hash w (gw_emit w ((gw_acc w)\<lparr>aw_sessions :=
    snd (sess_authenticate hash (ur_find_by_id (gw_db w)) (aw_sessions (gw_acc w)) token now)\<rparr>))"
| revoke: "gw_step hash w (gw_emit w ((gw_acc w)\<lparr>aw_sessions :=
    snd (sess_revoke (aw_sessions (gw_acc w)) sid now)\<rparr>))"
| revoke_all: "gw_step hash w (gw_emit w ((gw_acc w)\<lparr>aw_sessions :=
    sess_revoke_all (aw_sessions (gw_acc w)) uid except now\<rparr>))"
| cleanup: "gw_step hash w (gw_emit w ((gw_acc w)\<lparr>aw_sessions :=
    sess_cleanup_expired (aw_sessions (gw_acc w)) now\<rparr>))"

definition gw_start :: "aworld \<Rightarrow> gateway" where
  "gw_start a = \<lparr>gw_acc = a, gw_sockets = [], gw_queue = [], gw_cuts = [], gw_joining = []\<rparr>"

text \<open>What the panel can come to after it was started over the accounts and sessions \<open>a\<close>.\<close>

inductive gw_reach :: "(string \<Rightarrow> string) \<Rightarrow> aworld \<Rightarrow> gateway \<Rightarrow> bool" for hash a where
  start: "gw_reach hash a (gw_start a)"
| more_steps: "gw_reach hash a w \<Longrightarrow> gw_step hash w w' \<Longrightarrow> gw_reach hash a w'"

end
