(* ===== verification/Gateway_Properties.thy ===== *)
theory Gateway_Properties
  imports Gateway
begin

text \<open>
  The properties of the WebSocket gateway.  \<open>gw_inv\<close> holds in every state the panel can come
  to: a socket in the room of its account is only in rooms its account may be in now, or an
  event that cuts it is on its way; the same for its session.
\<close>

section \<open>Rooms\<close>

lemma room_parts_pre:
  assumes "CHR '':'' \<notin> set p"
  shows "room_parts (p @ CHR '':'' # i) = (p, fst (room_parts i))"
proof -
  have "split_on CHR '':'' (p @ CHR '':'' # i) = p # split_on CHR '':'' i" by (rule split_on_append_sep [OF assms])
  then show ?thesis
    by (cases "split_on CHR '':'' i"; cases "tl (split_on CHR '':'' i)") (simp_all add: room_parts_def split_on_not_Nil)
qed

lemma room_first [simp]:
  "fst (room_parts (user_room uid)) = ''user''" "fst (room_parts (console_room sid)) = ''console''"
  using room_parts_pre [of "''user''" uid] room_parts_pre [of "''console''" sid]
  by (simp_all add: user_room_def console_room_def)

lemma room_neq [simp]:
  "user_room u \<noteq> console_room i" "console_room i \<noteq> user_room u" "user_room u \<noteq> global_room"
  "global_room \<noteq> user_room u" "console_room i \<noteq> global_room" "server_room i \<noteq> user_room u"
  "console_room i = console_room j \<longleftrightarrow> i = j" "user_room u = user_room v \<longleftrightarrow> u = v"
  by (simp_all add: user_room_def console_room_def global_room_def server_room_def)

text \<open>The rooms an account (as the tables have it now) may be in.\<close>

definition room_allowed :: "user option \<Rightarrow> string \<Rightarrow> string \<Rightarrow> bool" where
  "room_allowed u uid r \<longleftrightarrow> r = user_room uid \<or> r = global_room \<or>
     (fst (room_parts r) = ''server'' \<and> can_see_server u (room_server r)) \<or>
     (\<exists>sid. r = console_room sid \<and> can_read_console u sid)"

lemma console_allowed: "room_allowed u uid (console_room sid) \<longleftrightarrow> can_read_console u sid"
  by (auto simp: room_allowed_def)

lemma room_allowed_same: "same_access u v \<Longrightarrow> room_allowed u uid r = room_allowed v uid r"
  by (simp add: room_allowed_def can_read_console_def same_access_sees same_access_on)

lemma room_allowed_nobody: "room_allowed None uid r \<Longrightarrow> room_allowed u uid r"
  by (auto simp: room_allowed_def can_see_server_def can_read_console_def can_on_server_def reaches_server_def)

section \<open>Closing\<close>

lemma on_socket_simps [simp]:
  "gw_acc (on_socket n f w) = gw_acc w" "gw_queue (on_socket n f w) = gw_queue w"
  "gw_cuts (on_socket n f w) = gw_cuts w" "gw_joining (on_socket n f w) = gw_joining w"
  "length (gw_sockets (on_socket n f w)) = length (gw_sockets w)"
  by (simp_all add: on_socket_def)

lemma on_socket_nth:
  "m < length (gw_sockets w) \<Longrightarrow>
   gw_sockets (on_socket n f w) ! m = (if m = n then f (gw_sockets w ! m) else gw_sockets w ! m)"
  by (simp add: on_socket_def)

lemma close_socket_simps [simp]:
  "sk_open (close_socket s) = False" "sk_user (close_socket s) = sk_user s" "sk_rooms (close_socket s) = []"
  by (simp_all add: close_socket_def)

lemma close_socket_twice [simp]: "close_socket (close_socket s) = close_socket s"
  by (simp add: close_socket_def)

lemma close_all_simps [simp]:
  "gw_acc (close_all ns w) = gw_acc w" "gw_queue (close_all ns w) = gw_queue w"
  "gw_cuts (close_all ns w) = gw_cuts w" "gw_joining (close_all ns w) = gw_joining w"
  "length (gw_sockets (close_all ns w)) = length (gw_sockets w)"
  unfolding close_all_def by (induction ns arbitrary: w) simp_all

lemma close_all_nth:
  "m < length (gw_sockets w) \<Longrightarrow>
   gw_sockets (close_all ns w) ! m = (if m \<in> set ns then close_socket (gw_sockets w ! m) else gw_sockets w ! m)"
  unfolding close_all_def by (induction ns arbitrary: w) (simp_all add: on_socket_nth)

lemma members_of_iff:
  "n \<in> set (members_of w r) \<longleftrightarrow>
     n < length (gw_sockets w) \<and> sk_open (gw_sockets w ! n) \<and> r \<in> set (sk_rooms (gw_sockets w ! n))"
  by (auto simp: members_of_def)

section \<open>The invariant\<close>

abbreviation gw_rows :: "gateway \<Rightarrow> session list" where
  "gw_rows w \<equiv> ss_rows (aw_sessions (gw_acc w))"

definition access_ok :: "gateway \<Rightarrow> nat \<Rightarrow> string \<Rightarrow> bool" where
  "access_ok w n uid \<longleftrightarrow> CutUser uid \<in> set (gw_queue w) \<or>
     (\<forall>r \<in> set (sk_rooms (gw_sockets w ! n)). room_allowed (ur_find_by_id (gw_db w) uid) uid r) \<and>
     (\<forall>sb \<in> set (gw_joining w). sb_socket sb = n \<longrightarrow> can_read_console (sb_user sb) (sb_server sb) \<longrightarrow>
        can_read_console (ur_find_by_id (gw_db w) uid) (sb_server sb))"

definition session_ok :: "gateway \<Rightarrow> nat \<Rightarrow> string \<Rightarrow> string \<Rightarrow> bool" where
  "session_ok w n uid sid \<longleftrightarrow> (\<exists>e \<in> set (gw_queue w). cuts_session e uid sid) \<or> (\<exists>c \<in> set (gw_cuts w). n \<in> set c) \<or>
     (\<forall>row \<in> set (gw_rows w). s_id row = sid \<longrightarrow> s_revoked_at row = None)"

definition socket_ok :: "gateway \<Rightarrow> nat \<Rightarrow> bool" where
  "socket_ok w n \<longleftrightarrow> sk_open (gw_sockets w ! n) \<longrightarrow>
     (case sk_user (gw_sockets w ! n) of None \<Rightarrow> False
      | Some (uid, sid) \<Rightarrow>
          (\<forall>row \<in> set (gw_rows w). s_id row = sid \<longrightarrow> s_user_id row = uid) \<and>
          (user_room uid \<in> set (sk_rooms (gw_sockets w ! n)) \<longrightarrow> access_ok w n uid \<and> session_ok w n uid sid))"

definition rows_fine :: "session list \<Rightarrow> bool" where
  "rows_fine t \<longleftrightarrow> rows_ok s_id t \<and> [] \<notin> s_id ` set t"

definition gw_inv :: "gateway \<Rightarrow> bool" where
  "gw_inv w \<longleftrightarrow> db_inv (gw_db w) \<and> rows_fine (gw_rows w) \<and>
     (\<forall>sb \<in> set (gw_joining w). sb_socket sb < length (gw_sockets w)) \<and>
     (\<forall>n < length (gw_sockets w). socket_ok w n)"

lemma gw_inv_socket: "gw_inv w \<Longrightarrow> n < length (gw_sockets w) \<Longrightarrow> socket_ok w n"
  by (simp add: gw_inv_def)

text \<open>A change that leaves every socket closed or as it was, and its reasons in force.\<close>

lemma gw_inv_sockets:
  assumes inv: "gw_inv w" and len: "length (gw_sockets w') = length (gw_sockets w)" and acc: "gw_acc w' = gw_acc w"
    and join: "\<And>sb. sb \<in> set (gw_joining w') \<Longrightarrow> sb_socket sb < length (gw_sockets w)"
    and ok: "\<And>n. n < length (gw_sockets w) \<Longrightarrow> socket_ok w n \<Longrightarrow> socket_ok w' n"
  shows "gw_inv w'"
  using inv join ok unfolding gw_inv_def len acc gw_db_def by blast

lemma socket_ok_closed: "\<not> sk_open (gw_sockets w ! n) \<Longrightarrow> socket_ok w n"
  by (simp add: socket_ok_def)

lemma inv_disconnect: "gw_inv w \<Longrightarrow> gw_inv (handle_disconnect w n)"
proof (rule gw_inv_sockets [of w])
  fix m assume m: "m < length (gw_sockets w)" and ok: "socket_ok w m"
  show "socket_ok (handle_disconnect w n) m"
  proof (cases "m = n")
    case True
    then show ?thesis using m by (intro socket_ok_closed) (simp add: handle_disconnect_def on_socket_nth)
  next
    case False
    then show ?thesis using ok m
      by (simp add: handle_disconnect_def socket_ok_def access_ok_def session_ok_def gw_db_def on_socket_nth
          split: option.splits prod.splits)
  qed
qed (simp_all add: handle_disconnect_def gw_inv_def)

section \<open>Subscribing\<close>

lemma sk_simps [simp]:
  "sk_open (join_room r s) = sk_open s" "sk_user (join_room r s) = sk_user s"
  "set (sk_rooms (join_room r s)) = insert r (set (sk_rooms s))"
  "sk_open (leave_room r s) = sk_open s" "sk_user (leave_room r s) = sk_user s"
  "set (sk_rooms (leave_room r s)) = set (sk_rooms s) - {r}"
  by (auto simp: join_room_def leave_room_def)

text \<open>A socket that only lost rooms.\<close>

lemma socket_ok_fewer:
  assumes "socket_ok w n" and "sk_open (gw_sockets w' ! n) = sk_open (gw_sockets w ! n)"
    and "sk_user (gw_sockets w' ! n) = sk_user (gw_sockets w ! n)"
    and "set (sk_rooms (gw_sockets w' ! n)) \<subseteq> set (sk_rooms (gw_sockets w ! n))"
    and "gw_acc w' = gw_acc w" and "gw_queue w' = gw_queue w" and "gw_cuts w' = gw_cuts w"
    and "set (gw_joining w') \<subseteq> set (gw_joining w)"
  shows "socket_ok w' n"
  using assms by (auto simp: socket_ok_def access_ok_def session_ok_def gw_db_def subset_iff
      split: option.splits prod.splits)

lemma inv_unsubscribe: "gw_inv w \<Longrightarrow> gw_inv (snd (unsubscribe w n room))"
proof (rule gw_inv_sockets [of w])
  fix m assume m: "m < length (gw_sockets w)" and ok: "socket_ok w m"
  show "socket_ok (snd (unsubscribe w n room)) m"
    using m by (intro socket_ok_fewer [OF ok]) (auto simp: unsubscribe_def Let_def on_socket_nth split: option.splits)
qed (auto simp: unsubscribe_def Let_def gw_inv_def split: option.splits if_splits)

lemma inv_subscribe:
  assumes inv: "gw_inv w" and n: "n < length (gw_sockets w)"
  shows "gw_inv (snd (subscribe_begin w n room))"
proof (cases "sk_user (gw_sockets w ! n)")
  case None
  then show ?thesis using inv by (simp add: subscribe_begin_def)
next
  case (Some us)
  obtain uid sid where us: "us = (uid, sid)" by (cases us)
  let ?u = "ur_find_by_id (gw_db w) uid" and ?i = "room_server room"
  show ?thesis
  proof (cases "fst (room_parts room) \<noteq> ''server'' \<or> \<not> can_see_server ?u ?i")
    case True
    then show ?thesis using inv Some us by (simp add: subscribe_begin_def Let_def)
  next
    case False
    let ?sb = "\<lparr>sb_socket = n, sb_user = ?u, sb_server = ?i\<rparr>"
    have w': "snd (subscribe_begin w n room) = (on_socket n (join_room room) w)\<lparr>gw_joining := gw_joining w @ [?sb]\<rparr>"
      using False Some us by (simp add: subscribe_begin_def Let_def)
    have allowed: "room_allowed ?u uid room" and other: "\<And>x. room \<noteq> user_room x"
      using False by (auto simp: room_allowed_def)
    show ?thesis unfolding w'
    proof (rule gw_inv_sockets [of w])
      fix m assume m: "m < length (gw_sockets w)" and ok: "socket_ok w m"
      show "socket_ok ((on_socket n (join_room room) w)\<lparr>gw_joining := gw_joining w @ [?sb]\<rparr>) m"
        using ok allowed other [of uid] Some us m
        by (cases "m = n") (auto simp: socket_ok_def access_ok_def session_ok_def gw_db_def on_socket_nth
            split: option.splits prod.splits)
    qed (use inv n in \<open>auto simp: gw_inv_def\<close>)
  qed
qed

lemma inv_subscribed:
  assumes inv: "gw_inv w" and k: "k < length (gw_joining w)"
  shows "gw_inv (snd (subscribe_end has_log w k))"
proof -
  define sb where "sb = gw_joining w ! k"
  let ?rest = "take k (gw_joining w) @ drop (Suc k) (gw_joining w)"
  have sub: "set ?rest \<subseteq> set (gw_joining w)" using set_take_subset set_drop_subset by fastforce
  have sb: "sb \<in> set (gw_joining w)" using k by (simp add: sb_def)
  show ?thesis
  proof (rule gw_inv_sockets [of w])
    fix m assume m: "m < length (gw_sockets w)" and ok: "socket_ok w m"
    show "socket_ok (snd (subscribe_end has_log w k)) m"
    proof (cases "can_read_console (sb_user sb) (sb_server sb) \<and> m = sb_socket sb")
      case False
      then show ?thesis
        by (intro socket_ok_fewer [OF ok]) (use sub in \<open>auto simp: subscribe_end_def Let_def sb_def [symmetric] on_socket_nth m\<close>)
    next
      case True
      then show ?thesis using ok sub sb m
        by (auto simp: subscribe_end_def Let_def sb_def [symmetric] on_socket_nth socket_ok_def access_ok_def
            session_ok_def gw_db_def console_allowed subset_iff split: option.splits prod.splits)
    qed
  next
    fix s assume "s \<in> set (gw_joining (snd (subscribe_end has_log w k)))"
    then have "s \<in> set ?rest" by (simp add: subscribe_end_def Let_def split: if_splits)
    then show "sb_socket s < length (gw_sockets w)" using inv sub by (auto simp: gw_inv_def)
  qed (use inv in \<open>simp_all add: subscribe_end_def Let_def\<close>)
qed

section \<open>Cutting\<close>

lemma fetched_iff:
  "n \<in> set (fetched w uid f) \<longleftrightarrow> n < length (gw_sockets w) \<and> sk_open (gw_sockets w ! n)
     \<and> user_room uid \<in> set (sk_rooms (gw_sockets w ! n)) \<and> (\<exists>u sid. sk_user (gw_sockets w ! n) = Some (u, sid) \<and> f sid)"
  by (auto simp: fetched_def members_of_iff split: option.splits prod.splits)

text \<open>A step that takes one reason away and closes the sockets that rested on it.\<close>

lemma socket_ok_less:
  assumes ok: "socket_ok w n" and s: "gw_sockets w' ! n = gw_sockets w ! n" and acc: "gw_acc w' = gw_acc w"
    and join: "gw_joining w' = gw_joining w"
    and user: "\<And>uid sid. sk_open (gw_sockets w ! n) \<Longrightarrow> sk_user (gw_sockets w ! n) = Some (uid, sid) \<Longrightarrow>
        user_room uid \<in> set (sk_rooms (gw_sockets w ! n)) \<Longrightarrow>
        (CutUser uid \<in> set (gw_queue w) \<longrightarrow> CutUser uid \<in> set (gw_queue w'))
        \<and> ((\<exists>e \<in> set (gw_queue w). cuts_session e uid sid) \<or> (\<exists>c \<in> set (gw_cuts w). n \<in> set c) \<longrightarrow>
            (\<exists>e \<in> set (gw_queue w'). cuts_session e uid sid) \<or> (\<exists>c \<in> set (gw_cuts w'). n \<in> set c))"
  shows "socket_ok w' n"
proof (cases "sk_open (gw_sockets w ! n)")
  case False
  then show ?thesis by (simp add: socket_ok_def s)
next
  case True
  with ok obtain uid sid where u: "sk_user (gw_sockets w ! n) = Some (uid, sid)"
    by (auto simp: socket_ok_def split: option.splits)
  show ?thesis using ok user [OF True u] True u unfolding socket_ok_def access_ok_def session_ok_def s acc join gw_db_def
    by simp blast
qed

lemma inv_event:
  assumes inv: "gw_inv w" shows "gw_inv (run_event w)"
proof (cases "gw_queue w")
  case Nil
  then show ?thesis using inv by (simp add: run_event_def)
next
  case (Cons e q)
  have fetch: "gw_inv (w\<lparr>gw_queue := q, gw_cuts := gw_cuts w @ [fetched w u f]\<rparr>)"
    if f: "\<And>uid sid. cuts_session e uid sid \<Longrightarrow> uid = u \<and> f sid" and no: "\<And>uid. e \<noteq> CutUser uid" for u f
  proof (rule gw_inv_sockets [OF inv])
    fix m assume m: "m < length (gw_sockets w)" and ok: "socket_ok w m"
    show "socket_ok (w\<lparr>gw_queue := q, gw_cuts := gw_cuts w @ [fetched w u f]\<rparr>) m"
    proof (rule socket_ok_less [OF ok])
      fix uid sid assume o: "sk_open (gw_sockets w ! m)" and s: "sk_user (gw_sockets w ! m) = Some (uid, sid)"
        and r: "user_room uid \<in> set (sk_rooms (gw_sockets w ! m))"
      have "m \<in> set (fetched w u f)" if "cuts_session e uid sid"
        using f [OF that] o s r m by (simp add: fetched_iff)
      then show "(CutUser uid \<in> set (gw_queue w) \<longrightarrow> CutUser uid \<in> set (gw_queue (w\<lparr>gw_queue := q, gw_cuts := gw_cuts w @ [fetched w u f]\<rparr>)))
        \<and> ((\<exists>e \<in> set (gw_queue w). cuts_session e uid sid) \<or> (\<exists>c \<in> set (gw_cuts w). m \<in> set c) \<longrightarrow>
            (\<exists>e \<in> set (gw_queue (w\<lparr>gw_queue := q, gw_cuts := gw_cuts w @ [fetched w u f]\<rparr>)). cuts_session e uid sid)
            \<or> (\<exists>c \<in> set (gw_cuts (w\<lparr>gw_queue := q, gw_cuts := gw_cuts w @ [fetched w u f]\<rparr>)). m \<in> set c))"
        using Cons no by auto
    qed simp_all
  qed (use inv in \<open>auto simp: gw_inv_def\<close>)
  show ?thesis
  proof (cases e)
    case (CutSession u i)
    then show ?thesis using Cons fetch [of u "\<lambda>j. j = i"] by (simp add: run_event_def)
  next
    case (CutOthers u x)
    then show ?thesis using Cons fetch [of u "\<lambda>j. Some j \<noteq> x"] by (simp add: run_event_def)
  next
    case (CutUser u)
    let ?w = "close_all (members_of w (user_room u)) (w\<lparr>gw_queue := q\<rparr>)"
    have "gw_inv ?w"
    proof (rule gw_inv_sockets [OF inv])
      fix m assume m: "m < length (gw_sockets w)" and ok: "socket_ok w m"
      show "socket_ok ?w m"
      proof (cases "m \<in> set (members_of w (user_room u))")
        case True
        then show ?thesis using m by (intro socket_ok_closed) (simp add: close_all_nth)
      next
        case False
        show ?thesis
        proof (rule socket_ok_less [OF ok])
          fix uid sid assume "sk_open (gw_sockets w ! m)" and "user_room uid \<in> set (sk_rooms (gw_sockets w ! m))"
          then have "uid \<noteq> u" using False m by (auto simp: members_of_iff)
          then show "(CutUser uid \<in> set (gw_queue w) \<longrightarrow> CutUser uid \<in> set (gw_queue ?w))
            \<and> ((\<exists>e \<in> set (gw_queue w). cuts_session e uid sid) \<or> (\<exists>c \<in> set (gw_cuts w). m \<in> set c) \<longrightarrow>
               (\<exists>e \<in> set (gw_queue ?w). cuts_session e uid sid) \<or> (\<exists>c \<in> set (gw_cuts ?w). m \<in> set c))"
            using Cons CutUser by auto
        qed (use False m in \<open>simp_all add: close_all_nth\<close>)
      qed
    qed (use inv in \<open>auto simp: gw_inv_def\<close>)
    then show ?thesis using Cons CutUser by (simp add: run_event_def)
  qed
qed

lemma inv_cut:
  assumes inv: "gw_inv w" shows "gw_inv (run_cut w)"
proof (cases "gw_cuts w")
  case Nil
  then show ?thesis using inv by (simp add: run_cut_def)
next
  case (Cons ns rest)
  let ?w = "close_all ns (w\<lparr>gw_cuts := rest\<rparr>)"
  have "gw_inv ?w"
  proof (rule gw_inv_sockets [OF inv])
    fix m assume m: "m < length (gw_sockets w)" and ok: "socket_ok w m"
    show "socket_ok ?w m"
    proof (cases "m \<in> set ns")
      case True
      then show ?thesis using m by (intro socket_ok_closed) (simp add: close_all_nth)
    next
      case False
      then show ?thesis using m Cons by (intro socket_ok_less [OF ok]) (auto simp: close_all_nth)
    qed
  qed (use inv in \<open>auto simp: gw_inv_def\<close>)
  then show ?thesis using Cons by (simp add: run_cut_def)
qed

section \<open>Changes of accounts and sessions\<close>

text \<open>\<open>t'\<close> are sessions of \<open>t\<close>, revoked only where an event tells so, and the new ones \<open>ids\<close>.\<close>

definition rows_follow :: "string list \<Rightarrow> session list \<Rightarrow> session list \<Rightarrow> ws_event list \<Rightarrow> bool" where
  "rows_follow ids t t' cuts \<longleftrightarrow> (\<forall>r' \<in> set t'. s_id r' \<in> set ids \<or>
     (\<exists>r \<in> set t. s_id r = s_id r' \<and> s_user_id r = s_user_id r' \<and>
        (s_revoked_at r' = s_revoked_at r \<or> (\<exists>e \<in> set cuts. cuts_session e (s_user_id r') (s_id r')))))"

definition new_cuts :: "gateway \<Rightarrow> aworld \<Rightarrow> ws_event list" where
  "new_cuts w a = concat (map session_cuts (drop (length (ss_events (aw_sessions (gw_acc w)))) (ss_events (aw_sessions a))))"

definition new_told :: "gateway \<Rightarrow> aworld \<Rightarrow> string list" where
  "new_told w a = map event_user (drop (length (aw_events (gw_acc w))) (aw_events a))"

lemma emit_simps [simp]:
  "gw_acc (gw_emit w a) = a" "gw_sockets (gw_emit w a) = gw_sockets w" "gw_cuts (gw_emit w a) = gw_cuts w"
  "gw_joining (gw_emit w a) = gw_joining w" "gw_queue (gw_emit w a) = gw_queue w @ new_cuts w a @ map CutUser (new_told w a)"
  by (simp_all add: gw_emit_def new_cuts_def new_told_def comp_def)

lemma can_read_nobody [simp]: "\<not> can_read_console None sid"
  by (simp add: can_read_console_def can_on_server_def reaches_server_def)

lemma socket_ok_emit:
  assumes ok: "socket_ok w n" and n: "n < length (gw_sockets w)"
    and ann: "announced (gw_db w) (aw_db a) (new_told w a)"
    and follow: "rows_follow ids (gw_rows w) (ss_rows (aw_sessions a)) (new_cuts w a)"
    and fresh: "\<forall>s \<in> set (gw_sockets w). \<forall>u i. sk_user s = Some (u, i) \<longrightarrow> i \<notin> set ids"
  shows "socket_ok (gw_emit w a) n"
proof (cases "sk_open (gw_sockets w ! n)")
  case False
  then show ?thesis by (simp add: socket_ok_def)
next
  case True
  with ok obtain uid sid where u: "sk_user (gw_sockets w ! n) = Some (uid, sid)"
    and owner: "\<forall>row \<in> set (gw_rows w). s_id row = sid \<longrightarrow> s_user_id row = uid"
    and ok1: "user_room uid \<in> set (sk_rooms (gw_sockets w ! n)) \<longrightarrow> access_ok w n uid \<and> session_ok w n uid sid"
    by (auto simp: socket_ok_def split: option.splits)
  have new: "sid \<notin> set ids" using fresh u n by (metis nth_mem)
  have rows: "\<exists>r \<in> set (gw_rows w). s_id r = sid \<and> s_user_id r' = uid \<and>
      (s_revoked_at r' = s_revoked_at r \<or> (\<exists>e \<in> set (new_cuts w a). cuts_session e uid sid))"
    if "r' \<in> set (ss_rows (aw_sessions a))" "s_id r' = sid" for r'
    using follow that new owner unfolding rows_follow_def by metis
  have "access_ok (gw_emit w a) n uid" if acc: "access_ok w n uid"
  proof -
    have "uid \<in> set (new_told w a) \<or> ur_find_by_id (gw_db w) uid = None \<or>
        same_access (ur_find_by_id (gw_db w) uid) (ur_find_by_id (aw_db a) uid)"
      using ann by (simp add: announced_def)
    then show ?thesis
    proof (elim disjE)
      assume "uid \<in> set (new_told w a)"
      then show ?thesis by (simp add: access_ok_def)
    next
      assume "ur_find_by_id (gw_db w) uid = None"
      with acc show ?thesis unfolding access_ok_def by (auto intro: room_allowed_nobody simp: gw_db_def)
    next
      assume same: "same_access (ur_find_by_id (gw_db w) uid) (ur_find_by_id (aw_db a) uid)"
      have "can_read_console (ur_find_by_id (gw_db w) uid) i = can_read_console (ur_find_by_id (aw_db a) uid) i" for i
        by (simp add: can_read_console_def same_access_on [OF same])
      with acc room_allowed_same [OF same] show ?thesis unfolding access_ok_def by (auto simp: gw_db_def)
    qed
  qed
  moreover have "session_ok (gw_emit w a) n uid sid" if sess: "session_ok w n uid sid"
  proof (cases "(\<exists>e \<in> set (gw_queue w @ new_cuts w a). cuts_session e uid sid) \<or> (\<exists>c \<in> set (gw_cuts w). n \<in> set c)")
    case True
    then show ?thesis by (auto simp: session_ok_def)
  next
    case False
    with sess have "\<forall>row \<in> set (gw_rows w). s_id row = sid \<longrightarrow> s_revoked_at row = None" by (auto simp: session_ok_def)
    with rows False have "\<forall>row \<in> set (ss_rows (aw_sessions a)). s_id row = sid \<longrightarrow> s_revoked_at row = None"
      by fastforce
    then show ?thesis by (simp add: session_ok_def)
  qed
  ultimately show ?thesis using True u ok1 rows by (auto simp: socket_ok_def)
qed

lemma inv_emit:
  assumes inv: "gw_inv w" and db: "db_inv (aw_db a)" and fine: "rows_fine (ss_rows (aw_sessions a))"
    and ann: "announced (gw_db w) (aw_db a) (new_told w a)"
    and follow: "rows_follow ids (gw_rows w) (ss_rows (aw_sessions a)) (new_cuts w a)"
    and fresh: "\<forall>s \<in> set (gw_sockets w). \<forall>u i. sk_user s = Some (u, i) \<longrightarrow> i \<notin> set ids"
  shows "gw_inv (gw_emit w a)"
  using inv db fine socket_ok_emit [OF _ _ ann follow fresh] by (simp add: gw_inv_def gw_db_def)

subsection \<open>Session rows\<close>

lemma follow_refl [simp]: "rows_follow ids t t cuts"
  by (auto simp: rows_follow_def)

lemma follow_map:
  assumes "\<And>r. r \<in> set t \<Longrightarrow> s_id (f r) = s_id r \<and> s_user_id (f r) = s_user_id r \<and>
     (s_revoked_at (f r) = s_revoked_at r \<or> (\<exists>e \<in> set cuts. cuts_session e (s_user_id r) (s_id r)))"
  shows "rows_follow ids t (map f t) cuts"
proof -
  have "\<exists>x \<in> set t. s_id x = s_id (f r) \<and> s_user_id x = s_user_id (f r) \<and>
     (s_revoked_at (f r) = s_revoked_at x \<or> (\<exists>e \<in> set cuts. cuts_session e (s_user_id (f r)) (s_id (f r))))"
    if "r \<in> set t" for r
    using that assms [OF that] by (intro bexI [of _ r]) simp_all
  then show ?thesis by (auto simp: rows_follow_def)
qed

lemma fine_map: "(\<And>r. r \<in> set t \<Longrightarrow> s_id (f r) = s_id r) \<Longrightarrow> rows_fine (map f t) = rows_fine t"
  by (simp add: rows_fine_def rows_ok_def comp_def image_image cong: map_cong)

lemma fine_filter: "rows_fine t \<Longrightarrow> rows_fine (filter P t)"
  by (auto simp: rows_fine_def rows_ok_filter)

lemma follow_filter: "rows_follow ids t (filter P t) cuts"
  by (auto simp: rows_follow_def)

lemma touched:
  "rows_follow ids (ss_rows st) (ss_rows (sess_touch st i now)) cuts"
  "rows_fine (ss_rows (sess_touch st i now)) = rows_fine (ss_rows st)"
  "ss_events (sess_touch st i now) = ss_events st"
  by (auto simp: sess_touch_def Let_def srepo_touch_def fine_map intro!: follow_map)

lemma authenticated:
  "rows_follow ids (ss_rows st) (ss_rows (snd (sess_authenticate h f st tok now))) cuts"
  "rows_fine (ss_rows (snd (sess_authenticate h f st tok now))) = rows_fine (ss_rows st)"
  "ss_events (snd (sess_authenticate h f st tok now)) = ss_events st"
  by (auto simp: sess_authenticate_def touched split: option.splits)

lemma revoked:
  assumes "rows_fine (ss_rows st)"
  shows "rows_follow ids (ss_rows st) (ss_rows (snd (sess_revoke st i now)))
      (concat (map session_cuts (drop (length (ss_events st)) (ss_events (snd (sess_revoke st i now))))))"
    and "rows_fine (ss_rows (snd (sess_revoke st i now)))"
proof (atomize (full), cases "srepo_find_by_id i (ss_rows st)")
  case None
  then show "rows_follow ids (ss_rows st) (ss_rows (snd (sess_revoke st i now)))
      (concat (map session_cuts (drop (length (ss_events st)) (ss_events (snd (sess_revoke st i now))))))
    \<and> rows_fine (ss_rows (snd (sess_revoke st i now)))" using assms by (simp add: sess_revoke_def)
next
  case (Some s)
  have "s_user_id r = s_user_id s" if "r \<in> set (ss_rows st)" "s_id r = i" for r
    using that Some assms row_find_in [of s_id "ss_rows st" r] by (simp add: srepo_find_by_id_def rows_fine_def)
  then have "rows_follow ids (ss_rows st) (srepo_revoke i now (ss_rows st)) [CutSession (s_user_id s) i]"
    unfolding srepo_revoke_def by (intro follow_map) simp
  moreover have "rows_fine (srepo_revoke i now (ss_rows st))"
    using assms by (simp add: srepo_revoke_def fine_map)
  ultimately show "rows_follow ids (ss_rows st) (ss_rows (snd (sess_revoke st i now)))
      (concat (map session_cuts (drop (length (ss_events st)) (ss_events (snd (sess_revoke st i now))))))
    \<and> rows_fine (ss_rows (snd (sess_revoke st i now)))" using Some by (simp add: sess_revoke_def)
qed

lemma revoked_all:
  assumes "rows_fine (ss_rows st)"
  shows "rows_follow ids (ss_rows st) (ss_rows (sess_revoke_all st uid e now))
      (concat (map session_cuts (drop (length (ss_events st)) (ss_events (sess_revoke_all st uid e now)))))"
    and "rows_fine (ss_rows (sess_revoke_all st uid e now))"
proof -
  have "kept_id e = Some (s_id r)" if "r \<in> set (ss_rows st)" "e = Some (s_id r)" for r
    using that assms by (auto simp: kept_id_def rows_fine_def image_iff)
  then have "rows_follow ids (ss_rows st) (srepo_revoke_all uid now e (ss_rows st)) [CutOthers uid e]"
    unfolding srepo_revoke_all_def by (intro follow_map) auto
  then show "rows_follow ids (ss_rows st) (ss_rows (sess_revoke_all st uid e now))
      (concat (map session_cuts (drop (length (ss_events st)) (ss_events (sess_revoke_all st uid e now)))))"
    by (simp add: sess_revoke_all_def)
  show "rows_fine (ss_rows (sess_revoke_all st uid e now))"
    using assms by (simp add: sess_revoke_all_def srepo_revoke_all_def fine_map)
qed

subsection \<open>The steps\<close>

lemma gw_inv_tables: "gw_inv w \<Longrightarrow> db_inv (gw_db w)" "gw_inv w \<Longrightarrow> rows_fine (gw_rows w)"
  by (simp_all add: gw_inv_def)

text \<open>A step that changes only the sessions.\<close>

lemma new_cuts_same [simp]: "ss_events (aw_sessions a) = ss_events (aw_sessions (gw_acc w)) \<Longrightarrow> new_cuts w a = []"
  by (simp add: new_cuts_def)

lemma new_told_same [simp]: "aw_events a = aw_events (gw_acc w) \<Longrightarrow> new_told w a = []"
  by (simp add: new_told_def)

lemma announced_refl [simp]: "announced db db told"
  by (simp add: announced_def)

lemma inv_sessions:
  assumes inv: "gw_inv w" and fine: "rows_fine (ss_rows ss)"
    and follow: "rows_follow ids (gw_rows w) (ss_rows ss)
      (concat (map session_cuts (drop (length (ss_events (aw_sessions (gw_acc w)))) (ss_events ss))))"
    and fresh: "\<forall>s \<in> set (gw_sockets w). \<forall>u i. sk_user s = Some (u, i) \<longrightarrow> i \<notin> set ids"
  shows "gw_inv (gw_emit w ((gw_acc w)\<lparr>aw_sessions := ss\<rparr>))"
  using inv fine follow fresh
  by (intro inv_emit [where ids = ids]) (simp_all add: gw_inv_def gw_db_def new_cuts_def)

lemma gw_inv_update:
  assumes inv: "gw_inv w" and upd: "update_account (gw_acc w) actor name dto pw session now = Inr a"
    and g: "case ud_grants dto of None \<Rightarrow> True | Some g \<Rightarrow> jsmap_ok g"
  shows "gw_inv (gw_emit w a)"
proof -
  have db: "db_inv (aw_db (gw_acc w))" and fine: "rows_fine (gw_rows w)" using inv by (simp_all add: gw_inv_def gw_db_def)
  obtain u v db1 where acc: "acc_update (aw_db (gw_acc w)) v = Inr db1" and a: "aw_db a = db1"
    and ss: "aw_sessions a = (if needs_session_revoke u v
           then revoke_sessions (aw_sessions (gw_acc w)) (u_id u) actor session now else aw_sessions (gw_acc w))"
    by (rule update_account_parts [OF upd]) blast
  have "db_inv (aw_db a)"
    using acc db a by (auto simp: acc_update_def intro: db_inv_update_user split: if_splits)
  moreover obtain evs where "aw_events a = aw_events (gw_acc w) @ evs"
    and "announced (aw_db (gw_acc w)) (aw_db a) (map event_user evs)"
    using announced_update_account [OF db g upd] by blast
  then have "announced (gw_db w) (aw_db a) (new_told w a)" by (simp add: new_told_def gw_db_def)
  moreover have "rows_fine (ss_rows (aw_sessions a)) \<and> rows_follow [] (gw_rows w) (ss_rows (aw_sessions a)) (new_cuts w a)"
    using fine revoked_all [OF fine] by (simp add: ss new_cuts_def revoke_sessions_def Let_def)
  ultimately show ?thesis using inv by (intro inv_emit [where ids = "[]"]) simp_all
qed

lemma inv_delete:
  assumes inv: "gw_inv w" and del: "delete_account (gw_acc w) actor name = Inr a"
  shows "gw_inv (gw_emit w a)"
proof -
  have db: "db_inv (aw_db (gw_acc w))" and fine: "rows_fine (gw_rows w)" using inv by (simp_all add: gw_inv_def gw_db_def)
  from del obtain i where a: "aw_db a = ur_delete (aw_db (gw_acc w)) i"
    and ss: "ss_events (aw_sessions a) = ss_events (aw_sessions (gw_acc w))"
      "ss_rows (aw_sessions a) = filter (\<lambda>s. s_user_id s \<noteq> i) (gw_rows w)"
    by (auto simp: delete_account_def and_then_Inr_iff acc_delete_def split: if_splits)
  obtain evs where "aw_events a = aw_events (gw_acc w) @ evs"
    and "announced (aw_db (gw_acc w)) (aw_db a) (map event_user evs)"
    using announced_delete_account [OF db del] by blast
  then have "announced (gw_db w) (aw_db a) (new_told w a)" by (simp add: new_told_def gw_db_def)
  then show ?thesis using inv db_inv_delete_user [OF db] fine_filter [OF fine] follow_filter
    by (intro inv_emit [where ids = "[]"]) (simp_all add: a ss)
qed

lemma inv_tables:
  assumes inv: "gw_inv w" and db: "db_inv db'" and ann: "announced (gw_db w) db' told"
  shows "gw_inv (gw_emit w ((gw_acc w)\<lparr>aw_db := db', aw_events := aw_events (gw_acc w) @ map EvAccessChanged told\<rparr>))"
  using inv db ann by (intro inv_emit [where ids = "[]"]) (simp_all add: new_told_def comp_def gw_inv_def)

lemma inv_tables_quiet:
  assumes "gw_inv w" and "db_inv db'" and "announced (gw_db w) db' []"
  shows "gw_inv (gw_emit w ((gw_acc w)\<lparr>aw_db := db'\<rparr>))"
  using inv_tables [OF assms] by simp

lemma roles_writes:
  "roles_create db actor inp name rid now = Inr (v, db') \<Longrightarrow> \<exists>r. rr_create db r = Inr db'"
  "roles_update db actor i inp now = Inr (before, v, told, db') \<Longrightarrow> \<exists>r. rr_update db r = Inr db'"
  "roles_remove db actor i = Inr (v, told, db') \<Longrightarrow> db' = rr_delete db i"
  by (auto simp: roles_create_def roles_update_def roles_remove_def Let_def and_then_Inr_iff split: if_splits)

lemma inv_connect:
  assumes inv: "gw_inv w"
  shows "gw_inv (snd (handle_connection hash servers w h now))"
proof -
  let ?st = "aw_sessions (gw_acc w)"
  define r ss where "r = fst (authenticate_client hash (gw_db w) h ?st now)"
    and "ss = snd (authenticate_client hash (gw_db w) h ?st now)"
  then have rs: "authenticate_client hash (gw_db w) h ?st now = (r, ss)" by simp
  have fine: "rows_fine (gw_rows w)" using inv by (simp add: gw_inv_def)
  have ss: "rows_follow [] (gw_rows w) (ss_rows ss) []" "rows_fine (ss_rows ss)" "ss_events ss = ss_events ?st"
    using fine by (auto simp: ss_def authenticate_client_def authenticated split: option.splits)
  let ?w = "gw_emit w ((gw_acc w)\<lparr>aw_sessions := ss\<rparr>)"
  have inv1: "gw_inv ?w" using inv ss by (intro inv_sessions [where ids = "[]"]) simp_all
  define s where "s = (case r of Inl _ \<Rightarrow> \<lparr>sk_user = None, sk_rooms = [], sk_open = False\<rparr>
    | Inr (u, x) \<Rightarrow> \<lparr>sk_user = Some (u_id u, s_id x), sk_rooms = [user_room (u_id u), global_room], sk_open = True\<rparr>)"
  have w': "snd (handle_connection hash servers w h now) = ?w\<lparr>gw_sockets := gw_sockets ?w @ [s]\<rparr>" (is "_ = ?w'")
    using rs ss(3) by (cases r) (auto simp: handle_connection_def s_def gw_emit_def)
  have old: "socket_ok ?w' n" if "n < length (gw_sockets ?w)" for n
    using gw_inv_socket [OF inv1 that] that
    by (simp add: socket_ok_def access_ok_def session_ok_def nth_append gw_db_def split: option.splits prod.splits)
  have new: "socket_ok ?w' (length (gw_sockets w))"
  proof (cases r)
    case (Inl e)
    then show ?thesis by (simp add: socket_ok_def s_def)
  next
    case (Inr ux)
    obtain u x where ux: "ux = (u, x)" by (cases ux)
    have "fst (sess_authenticate hash (ur_find_by_id (gw_db w)) ?st tok now) = Inr (u, x) \<Longrightarrow>
        x \<in> set (gw_rows w) \<and> s_revoked_at x = None \<and> u_id u = s_user_id x" for tok
      by (auto simp: sess_authenticate_def sess_find_by_token_def srepo_find_by_token_hash_def session_live_def
          ur_find_by_id_def find_Some_iff dest: row_find_Some_in split: option.splits if_splits)
    with Inr have x: "x \<in> set (gw_rows w)" "s_revoked_at x = None" "u_id u = s_user_id x"
      by (auto simp: r_def ux authenticate_client_def split: option.splits)
    have row: "s_user_id y = s_user_id x \<and> s_revoked_at y = None" if y: "y \<in> set (ss_rows ss)" "s_id y = s_id x" for y
    proof -
      from ss(1) y obtain z where z: "z \<in> set (gw_rows w)" "s_id z = s_id x" "s_user_id z = s_user_id y" "s_revoked_at y = s_revoked_at z"
        by (auto simp: rows_follow_def)
      have "z = x" using row_key_eq [of s_id "gw_rows w" z x] z x fine by (simp add: rows_fine_def)
      with z x show ?thesis by simp
    qed
    have "\<forall>sb \<in> set (gw_joining w). sb_socket sb \<noteq> length (gw_sockets w)" using inv by (auto simp: gw_inv_def)
    then show ?thesis using Inr ux x row
      by (auto simp: socket_ok_def access_ok_def session_ok_def s_def room_allowed_def)
  qed
  show ?thesis unfolding w' gw_inv_def using inv1 old new
    by (auto simp: gw_inv_def gw_db_def less_Suc_eq)
qed

lemma inv_step:
  assumes "gw_step hash w w'" and inv: "gw_inv w" shows "gw_inv w'"
  using assms(1)
proof cases
  case (account_create dto uid pw r db)
  then have "ur_create (gw_db w) (new_user dto uid pw) = Inr db" by (auto simp: acc_create_finish_def and_then_Inr_iff)
  then show ?thesis unfolding account_create(1)
    by (intro inv_tables_quiet [OF inv] db_inv_create_user [OF gw_inv_tables(1) [OF inv]] announced_create_user)
next
  case (role_create actor inp name rid now v db)
  then obtain r where "rr_create (gw_db w) r = Inr db" by (blast dest: roles_writes)
  then show ?thesis unfolding role_create(1)
    by (intro inv_tables_quiet [OF inv] db_inv_create_role [OF gw_inv_tables(1) [OF inv]]
        announced_create_role [OF gw_inv_tables(1) [OF inv]])
next
  case (role_update actor i inp now before v told db)
  then obtain r where "rr_update (gw_db w) r = Inr db" by (blast dest: roles_writes)
  then show ?thesis unfolding role_update(1) using role_update(2)
    by (intro inv_tables [OF inv] db_inv_update_role [OF gw_inv_tables(1) [OF inv]]
        announced_update_role [OF gw_inv_tables(1) [OF inv]])
next
  case (role_remove actor i v told db)
  then have "db = rr_delete (gw_db w) i" by (blast dest: roles_writes)
  then show ?thesis unfolding role_remove(1) using role_remove(2) db_inv_delete_role [OF gw_inv_tables(1) [OF inv]]
    by (intro inv_tables [OF inv] announced_remove_role) simp_all
next
  case (login sid token uid ip ua now)
  let ?ss = "snd (sess_create hash (aw_sessions (gw_acc w)) sid token uid ip ua now)"
  have rows: "ss_rows ?ss = gw_rows w @ [new_session hash sid token uid ip ua now]"
    by (simp add: sess_create_def srepo_create_def row_insert_def Let_def)
  have "rows_fine (ss_rows ?ss)" using login gw_inv_tables(2) [OF inv]
    by (auto simp: rows rows_fine_def rows_ok_def new_session_def)
  moreover have "rows_follow [sid] (gw_rows w) (ss_rows ?ss) cuts" for cuts
    unfolding rows by (auto simp: rows_follow_def new_session_def)
  ultimately show ?thesis unfolding login(1) using login(4) by (intro inv_sessions [OF inv]) force+
next
  case (request token now)
  then show ?thesis using gw_inv_tables(2) [OF inv]
    by (auto intro!: inv_sessions [OF inv, where ids = "[]"] simp: authenticated)
next
  case (revoke sid now)
  then show ?thesis using revoked [OF gw_inv_tables(2) [OF inv]]
    by (auto intro!: inv_sessions [OF inv, where ids = "[]"])
next
  case (revoke_all uid except now)
  then show ?thesis using revoked_all [OF gw_inv_tables(2) [OF inv]]
    by (auto intro!: inv_sessions [OF inv, where ids = "[]"])
next
  case (cleanup now)
  then show ?thesis using gw_inv_tables(2) [OF inv]
    by (auto intro!: inv_sessions [OF inv, where ids = "[]"] fine_filter follow_filter
        simp: sess_cleanup_expired_def srepo_delete_expired_def)
qed (use inv in \<open>auto intro: inv_connect inv_disconnect inv_subscribe inv_subscribed inv_unsubscribe
      inv_event inv_cut gw_inv_update inv_delete\<close>)

lemma inv_start: "db_inv (aw_db a) \<Longrightarrow> rows_fine (ss_rows (aw_sessions a)) \<Longrightarrow> gw_inv (gw_start a)"
  by (simp add: gw_start_def gw_inv_def gw_db_def)

lemma inv_reach:
  assumes "gw_reach hash a w" and "db_inv (aw_db a)" and "rows_fine (ss_rows (aw_sessions a))"
  shows "gw_inv w"
  using assms by (induction rule: gw_reach.induct) (blast intro: inv_step inv_start)+

section \<open>Properties\<close>


definition ex_handshake :: handshake where
  "ex_handshake = \<lparr>hs_lower = None, hs_upper = None, hs_auth = Some ''Bearer t''\<rparr>"

definition ex_listening :: gateway where
  "ex_listening = snd (subscribe_end (\<lambda>_. True) (snd (subscribe_begin
     (snd (handle_connection (\<lambda>t. t) ([] :: (string \<times> string) list) (gw_start ex_world) ex_handshake 5)) 0 ''server:s1'')) 0)"

lemma ex_listening_reached: "gw_reach (\<lambda>t. t) ex_world ex_listening"
proof -
  let ?w1 = "snd (handle_connection (\<lambda>t. t) ([] :: (string \<times> string) list) (gw_start ex_world) ex_handshake 5)"
  let ?w2 = "snd (subscribe_begin ?w1 0 ''server:s1'')"
  have o: "0 < length (gw_sockets ?w1) \<and> sk_open (gw_sockets ?w1 ! 0)" "0 < length (gw_joining ?w2)" by code_simp+
  have r1: "gw_reach (\<lambda>t. t) ex_world ?w1"
    by (rule gw_reach.more_steps [OF gw_reach.start gw_step.connect])
  have r2: "gw_reach (\<lambda>t. t) ex_world ?w2"
    by (rule gw_reach.more_steps [OF r1 gw_step.subscribe]) (use o in blast)+
  show ?thesis unfolding ex_listening_def
    by (rule gw_reach.more_steps [OF r2 gw_step.subscribed]) (rule o(2))
qed

lemma ex_listening_facts:
  "emit_server_log ex_listening ''s1'' = [0]" "sk_user (gw_sockets ex_listening ! 0) = Some (''b'', ''x'')"
  "sk_rooms (gw_sockets ex_listening ! 0) = [''user:b'', ''global'', ''server:s1'', ''console:s1'']"
  "gw_queue ex_listening = []" "gw_cuts ex_listening = []" "length (gw_sockets ex_listening) = 1"
  "sk_open (gw_sockets ex_listening ! 0)"
  by code_simp+

lemma ex_start_ok: "db_inv (aw_db ex_world)" "rows_fine (ss_rows (aw_sessions ex_world))"
  by code_simp (simp add: rows_fine_def rows_ok_def ex_world_def ex_session_def)


text \<open>
  C11: The same for sessions: a socket that is still in the room of its account and whose session
  was revoked (by the account, by an admin, by a password change) is about to be cut: the
  event is in the queue, or the handler already holds the socket.
\<close>

theorem revoked_session_is_cut:
  assumes "gw_reach hash a w" and "db_inv (aw_db a)" and "rows_fine (ss_rows (aw_sessions a))"
    and "n < length (gw_sockets w)" and "sk_open (gw_sockets w ! n)" and "sk_user (gw_sockets w ! n) = Some (uid, sid)"
    and "user_room uid \<in> set (sk_rooms (gw_sockets w ! n))"
    and "row \<in> set (ss_rows (aw_sessions (gw_acc w)))" and "s_id row = sid" and "s_revoked_at row \<noteq> None"
  shows "(\<exists>e \<in> set (gw_queue w). cuts_session e uid sid) \<or> (\<exists>c \<in> set (gw_cuts w). n \<in> set c)"
proof -
  have "socket_ok w n" by (rule gw_inv_socket [OF inv_reach [OF assms(1-3)] assms(4)])
  then have "session_ok w n uid sid" using assms(5-7) by (simp add: socket_ok_def)
  then show ?thesis using assms(8-10) by (auto simp: session_ok_def)
qed

theorem revoked_session_is_cut_witness:
  "\<exists>w. gw_reach (\<lambda>t. t) ex_world w \<and> sk_open (gw_sockets w ! 0) \<and>
     ((\<exists>e \<in> set (gw_queue w). cuts_session e ''b'' ''x'') \<or> (\<exists>c \<in> set (gw_cuts w). 0 \<in> set c))"
proof -
  define w where "w = gw_emit ex_listening ((gw_acc ex_listening)\<lparr>aw_sessions :=
    snd (sess_revoke (aw_sessions (gw_acc ex_listening)) ''x'' 9)\<rparr>)"
  have r: "gw_reach (\<lambda>t. t) ex_world w" unfolding w_def
    by (rule gw_reach.more_steps [OF ex_listening_reached gw_step.revoke])
  have s: "gw_sockets w = gw_sockets ex_listening" by (simp add: w_def)
  have "\<exists>row \<in> set (ss_rows (snd (sess_revoke (aw_sessions (gw_acc ex_listening)) ''x'' 9))).
      s_id row = ''x'' \<and> s_revoked_at row \<noteq> None" by code_simp
  then obtain row where row: "row \<in> set (ss_rows (aw_sessions (gw_acc w)))" "s_id row = ''x''" "s_revoked_at row \<noteq> None"
    by (auto simp: w_def)
  from revoked_session_is_cut [OF r ex_start_ok _ _ _ _ row, of 0 "''b''"] r show ?thesis
    by (auto simp: s ex_listening_facts user_room_def)
qed

text \<open>
  A client may ask to leave the room of its account, and is let.  From then on nothing the
  account or session services do reaches the socket: whatever they change (\<open>a\<close>) and
  however many events are handled, it stays open, keeps getting the console lines, and its
  commands are judged by the account alone, so a revoked session goes on typing commands.
\<close>

theorem left_room_outlives_revocation:
  assumes "n < length (gw_sockets w)" and "sk_open (gw_sockets w ! n)" and "sk_user (gw_sockets w ! n) = Some (uid, sid)"
    and "\<forall>r \<in> set (sk_rooms (gw_sockets w ! n)). \<forall>u. r = user_room u \<longrightarrow> u = uid"
    and "\<forall>c \<in> set (gw_cuts w). n \<notin> set c"
    and "w1 = snd (unsubscribe w n (user_room uid))"
    and "w2 = ((\<lambda>v. run_cut (run_event v)) ^^ k) (gw_emit w1 a)"
  shows "gw_sockets w2 ! n = leave_room (user_room uid) (gw_sockets w ! n)
    \<and> (n \<in> set (emit_server_log w server) \<longrightarrow> n \<in> set (emit_server_log w2 server))
    \<and> (uid \<noteq> [] \<longrightarrow> submit_command (current_user w2 n) running server line
          = submit_command (ur_find_by_id (aw_db a) uid) running server line)"
proof -
  define s where "s = leave_room (user_room uid) (gw_sockets w ! n)"
  define kept :: "gateway \<Rightarrow> bool" where "kept v \<longleftrightarrow> n < length (gw_sockets v) \<and> gw_sockets v ! n = s \<and> gw_acc v = a
      \<and> (\<forall>c \<in> set (gw_cuts v). n \<notin> set c)" for v
  have no: "user_room u \<notin> set (sk_rooms s)" for u using assms(4) by (auto simp: s_def)
  have "kept (gw_emit w1 a)"
    using assms(1,3,5) by (simp add: kept_def assms(6) unsubscribe_def on_socket_nth s_def)
  moreover have "kept (run_event v)" if "kept v" for v
  proof -
    have "n \<notin> set (members_of v (user_room u))" and "n \<notin> set (fetched v u f)" for u f
      using that no by (auto simp: kept_def members_of_iff fetched_iff)
    then show ?thesis using that
      by (auto simp: run_event_def kept_def close_all_nth split: list.splits ws_event.splits)
  qed
  moreover have "kept (run_cut v)" if "kept v" for v
    using that by (auto simp: run_cut_def kept_def close_all_nth split: list.splits)
  ultimately have k: "kept w2" unfolding assms(7) by (induction k) simp_all
  then have "gw_sockets w2 ! n = s" "n < length (gw_sockets w2)" "gw_db w2 = aw_db a" by (simp_all add: kept_def gw_db_def)
  then show ?thesis using assms(2,3)
    by (auto simp: s_def emit_server_log_def members_of_iff current_user_def)
qed

theorem left_room_outlives_revocation_witness:
  "\<exists>w2. w2 = ((\<lambda>v. run_cut (run_event v)) ^^ 3) (gw_emit (snd (unsubscribe ex_listening 0 ''user:b''))
       ((gw_acc ex_listening)\<lparr>aw_sessions := snd (sess_revoke (aw_sessions (gw_acc ex_listening)) ''x'' 9)\<rparr>))
     \<and> sk_open (gw_sockets w2 ! 0) \<and> 0 \<in> set (emit_server_log w2 ''s1'')"
proof -
  let ?a = "(gw_acc ex_listening)\<lparr>aw_sessions := snd (sess_revoke (aw_sessions (gw_acc ex_listening)) ''x'' 9)\<rparr>"
  have rooms: "\<forall>r \<in> set (sk_rooms (gw_sockets ex_listening ! 0)). \<forall>u. r = user_room u \<longrightarrow> u = ''b''"
    by (simp add: ex_listening_facts user_room_def)
  have u: "user_room ''b'' = ''user:b''" by (simp add: user_room_def)
  from left_room_outlives_revocation [OF _ _ _ rooms _ refl refl, of "''x''" 3 ?a "''s1''"]
  show ?thesis by (simp add: ex_listening_facts u)
qed

end
