(* ===== verification/Assistant_Loop.thy ===== *)
theory Assistant_Loop
  imports Guards
begin

text \<open>
  The agent loop of the assistant (\<open>assistant/runner/agent-loop.ts\<close>, \<open>history.ts\<close>, the tool
  registry) over the messages of one conversation: the model is asked, its tool calls are
  validated, read tools run, write tools wait for the user, and the model is asked again.

  The loop awaits the model, the previews of write calls and the tools.  \<open>loop_phase\<close> says what it
  waits for, and each answer is one step.  The provider, \<open>JSON.parse\<close>, the argument schemas, the
  tools themselves and the redaction of their output are arguments.
\<close>

section \<open>Messages and calls (messages.repository.ts)\<close>

datatype call_status = CallPending | CallRunning | CallDone | CallError | CallRejected

record tool_call =
  tc_id :: string
  tc_message :: string
  tc_name :: string
  tc_args :: jsval
  tc_status :: call_status
  tc_result :: "string option"
  tc_preview :: "string option"

datatype message_role = RoleUser | RoleAssistant

record chat_message =
  cm_id :: string
  cm_role :: message_role
  cm_content :: string
  cm_error :: "string option"
  cm_created :: int
  cm_calls :: "tool_call list"

text \<open>The rows of one conversation; \<open>ch_gone\<close> once it was deleted, with its messages (\<open>ON DELETE CASCADE\<close>).\<close>

record chat =
  ch_gone :: bool
  ch_messages :: "chat_message list"

definition chat_list :: "chat \<Rightarrow> chat_message list" where
  "chat_list c = (if ch_gone c then [] else ch_messages c)"

definition chat_insert :: "chat_message \<Rightarrow> chat \<Rightarrow> chat result" where
  "chat_insert m c =
     (if ch_gone c then fail Internal ''FOREIGN KEY constraint failed''
      else Inr (c\<lparr>ch_messages := ch_messages c @ [m]\<rparr>))"

definition map_calls :: "(tool_call \<Rightarrow> tool_call) \<Rightarrow> chat_message \<Rightarrow> chat_message" where
  "map_calls f m = m\<lparr>cm_calls := map f (cm_calls m)\<rparr>"

definition chat_update_call :: "string \<Rightarrow> (tool_call \<Rightarrow> tool_call) \<Rightarrow> chat \<Rightarrow> chat" where
  "chat_update_call i f c =
     (if ch_gone c then c
      else c\<lparr>ch_messages := map (map_calls (\<lambda>x. if tc_id x = i then f x else x)) (ch_messages c)\<rparr>)"

definition all_calls :: "chat_message list \<Rightarrow> tool_call list" where
  "all_calls ms = concat (map cm_calls ms)"

definition find_tool_call :: "chat \<Rightarrow> string \<Rightarrow> tool_call option" where
  "find_tool_call c i = List.find (\<lambda>x. tc_id x = i) (all_calls (chat_list c))"

section \<open>History (history.ts)\<close>

definition DECLINED :: string where "DECLINED = ''The user declined this action''"
definition STEP_LIMIT :: string where "STEP_LIMIT = ''Step limit reached, send a message to continue''"
definition STOPPED :: string where "STOPPED = ''Stopped''"

definition tool_result_text :: "tool_call \<Rightarrow> string" where
  "tool_result_text c =
     (case tc_status c of
        CallDone \<Rightarrow> (case tc_result c of None \<Rightarrow> [] | Some r \<Rightarrow> r)
      | CallRejected \<Rightarrow> (case tc_result c of None \<Rightarrow> DECLINED | Some r \<Rightarrow> r)
      | CallError \<Rightarrow> ''Error: '' @ (case tc_result c of None \<Rightarrow> ''unknown error'' | Some r \<Rightarrow> r)
      | _ \<Rightarrow> ''Error: the call did not finish'')"

text \<open>Messages for the provider; \<open>AskCalls\<close> holds id, name and arguments of each call.\<close>

datatype provider_message =
    AskUser string
  | AskAssistant "string option" "(string \<times> string \<times> jsval) list"
  | AskTool string string

definition build_message :: "chat_message \<Rightarrow> provider_message list" where
  "build_message m =
     (if cm_role m = RoleUser then [AskUser (cm_content m)]
      else if cm_content m = [] \<and> cm_calls m = [] then []
      else AskAssistant (if cm_content m = [] then None else Some (cm_content m))
             (map (\<lambda>c. (tc_id c, tc_name c, tc_args c)) (cm_calls m))
           # map (\<lambda>c. AskTool (tc_id c) (tool_result_text c)) (cm_calls m))"

definition build_history :: "chat_message list \<Rightarrow> provider_message list" where
  "build_history ms = concat (map build_message ms)"

definition steps_since_user :: "chat_message list \<Rightarrow> nat" where
  "steps_since_user ms = length (takeWhile (\<lambda>m. cm_role m \<noteq> RoleUser) (rev ms))"

definition has_pending :: "chat_message list \<Rightarrow> bool" where
  "has_pending ms = (ms \<noteq> [] \<and> list_ex (\<lambda>c. tc_status c = CallPending) (cm_calls (last ms)))"

section \<open>Tools (tool-schema.ts, tool-registry.service.ts)\<close>

text \<open>\<open>t_parse\<close> is the schema: issues with path and message, or the parsed arguments.\<close>

record chat_tool = assistant_tool +
  t_parse :: "jsval \<Rightarrow> (string list \<times> string) list + jsval"

record streamed_call =
  sc_name :: string
  sc_arguments :: string

definition issue_text :: "string list \<times> string \<Rightarrow> string" where
  "issue_text i = (case join ''.'' (fst i) of [] \<Rightarrow> ''args'' | p \<Rightarrow> p) @ '': '' @ snd i"

definition raw_object :: "jsval \<Rightarrow> jsval" where
  "raw_object v = (case v of JObj o' \<Rightarrow> v | _ \<Rightarrow> JObj [])"

text \<open>The arguments or the error for the model, and the object kept with the call.\<close>

definition parse_tool_args :: "(string \<Rightarrow> jsval option) \<Rightarrow> chat_tool \<Rightarrow> string \<Rightarrow> (string + jsval) \<times> jsval" where
  "parse_tool_args json tool raw_text =
     (case (if trim raw_text = [] then Some (JObj []) else json raw_text) of
        None \<Rightarrow> (Inl ''Arguments are not valid JSON'', JObj [])
      | Some raw \<Rightarrow>
         (case t_parse tool raw of
            Inr args \<Rightarrow> (Inr args, raw_object raw)
          | Inl issues \<Rightarrow> (Inl (''Invalid arguments: '' @ join ''; '' (map issue_text issues)), raw_object raw)))"

definition truncate_output :: "string \<Rightarrow> nat \<Rightarrow> string" where
  "truncate_output s limit =
     (if length s \<le> limit then s
      else take limit s @ [CHR 0x0A] @ ''[truncated '' @ digits (length s - limit) @ '' more characters]'')"

definition OUTPUT_LIMIT :: nat where "OUTPUT_LIMIT = 12000"

record tool_result =
  tr_content :: string
  tr_error :: bool

section \<open>The loop (agent-loop.ts)\<close>

text \<open>What the outside answers at one step: fresh ids, the clock, tools, which servers exist.\<close>

record loop_env =
  le_tool :: "string \<Rightarrow> chat_tool option"
  le_json :: "string \<Rightarrow> jsval option"
  le_server :: "string \<Rightarrow> bool"
  le_redact :: "string \<Rightarrow> string"
  le_id :: "nat \<Rightarrow> string"
  le_now :: int

record planned_call =
  pl_call :: tool_call
  pl_args :: "jsval option"

datatype loop_phase =
    WaitModel string
  | WaitPreviews string string "planned_call list"
  | WaitTool planned_call "planned_call list" "tool_call list"
  | WaitDecided tool_call jsval
  | Ended

datatype loop_event =
    LMessage chat_message
  | LTool tool_call
  | LConfirm tool_call
  | LDone bool
  | LError string

text \<open>A tool that was started, for whom and with what; and the audit entries of write tools.\<close>

record started =
  st_call :: string
  st_kind :: tool_kind
  st_args :: jsval
  st_for :: user

record loop_state =
  lo_chat :: chat
  lo_user :: user
  lo_max :: nat
  lo_aborted :: bool
  lo_phase :: loop_phase
  lo_events :: "loop_event list"
  lo_started :: "started list"
  lo_audit :: "(string \<times> bool) list"

definition emit_event :: "loop_event \<Rightarrow> loop_state \<Rightarrow> loop_state" where
  "emit_event e s = s\<lparr>lo_events := lo_events s @ [e]\<rparr>"

text \<open>\<open>run.events.done(finished)\<close> and the return that follows it.\<close>

definition finish_run :: "bool \<Rightarrow> loop_state \<Rightarrow> loop_state" where
  "finish_run fin s = (emit_event (LDone fin) s)\<lparr>lo_phase := Ended\<rparr>"

text \<open>What \<open>background\<close> does with an error that leaves the loop.\<close>

definition crash_run :: "api_error \<Rightarrow> loop_state \<Rightarrow> loop_state" where
  "crash_run e s = (emit_event (LError (err_msg e)) s)\<lparr>lo_phase := Ended\<rparr>"

text \<open>\<open>save\<close>, then the rest of the caller when the insert did not throw.\<close>

definition save_then ::
  "loop_env \<Rightarrow> string \<Rightarrow> string \<Rightarrow> string option \<Rightarrow> tool_call list \<Rightarrow> (loop_state \<Rightarrow> loop_state) \<Rightarrow> loop_state \<Rightarrow> loop_state" where
  "save_then env mid content error calls k s =
     (let m = \<lparr>cm_id = mid, cm_role = RoleAssistant, cm_content = content, cm_error = error,
               cm_created = le_now env, cm_calls = calls\<rparr> in
      case chat_insert m (lo_chat s) of
        Inl e \<Rightarrow> crash_run e s
      | Inr c \<Rightarrow> k (emit_event (LMessage m) (s\<lparr>lo_chat := c\<rparr>)))"

definition update_call :: "tool_call \<Rightarrow> call_status \<Rightarrow> string option \<Rightarrow> loop_state \<Rightarrow> loop_state" where
  "update_call c st r s =
     (let set_fields = (\<lambda>x. x\<lparr>tc_status := st, tc_result := (case r of None \<Rightarrow> tc_result x | Some _ \<Rightarrow> r)\<rparr>) in
      emit_event (LTool (set_fields c)) (s\<lparr>lo_chat := chat_update_call (tc_id c) set_fields (lo_chat s)\<rparr>))"

text \<open>The head of the \<open>for (;;)\<close> of \<open>run\<close>, up to the await of the model.\<close>

definition loop_head :: "loop_env \<Rightarrow> loop_state \<Rightarrow> loop_state" where
  "loop_head env s =
     (let history = chat_list (lo_chat s) in
      if has_pending history then finish_run False s
      else if steps_since_user history \<ge> lo_max s
      then save_then env (le_id env 0) [] (Some STEP_LIMIT) [] (finish_run True) s
      else s\<lparr>lo_phase := WaitModel (le_id env 0)\<rparr>)"

text \<open>\<open>plan\<close> up to the await of the preview; a write call that passes waits for one.\<close>

definition plan_call :: "loop_env \<Rightarrow> user \<Rightarrow> string \<Rightarrow> string \<Rightarrow> streamed_call \<Rightarrow> planned_call" where
  "plan_call env u mid cid call =
     (let stored = \<lparr>tc_id = cid, tc_message = mid, tc_name = sc_name call, tc_args = JObj [],
                    tc_status = CallError, tc_result = None, tc_preview = None\<rparr> in
      case le_tool env (sc_name call) of
        None \<Rightarrow> \<lparr>pl_call = stored\<lparr>tc_result := Some (''Unknown tool '' @ sc_name call)\<rparr>, pl_args = None\<rparr>
      | Some tool \<Rightarrow>
         (case parse_tool_args (le_json env) tool (sc_arguments call) of
            (Inl e, raw) \<Rightarrow> \<lparr>pl_call = stored\<lparr>tc_args := raw, tc_result := Some e\<rparr>, pl_args = None\<rparr>
          | (Inr args, raw) \<Rightarrow>
             (case deny_reason u (assistant_tool.truncate tool) args (le_server env) of
                Some d \<Rightarrow> \<lparr>pl_call = stored\<lparr>tc_args := raw, tc_result := Some d\<rparr>, pl_args = None\<rparr>
              | None \<Rightarrow> \<lparr>pl_call = stored\<lparr>tc_args := raw,
                    tc_status := (if t_kind tool = ToolRead then CallRunning else CallPending)\<rparr>, pl_args = Some args\<rparr>)))"

text \<open>Each call of an answer gets an id of its own.\<close>

fun plan_calls :: "loop_env \<Rightarrow> user \<Rightarrow> string \<Rightarrow> nat \<Rightarrow> streamed_call list \<Rightarrow> planned_call list" where
  "plan_calls env u mid n [] = []"
| "plan_calls env u mid n (c # cs) = plan_call env u mid (le_id env n) c # plan_calls env u mid (Suc n) cs"

text \<open>\<open>plan\<close> after it: \<open>preview\<close> gives the text of the card, or the message of what it threw.\<close>

definition plan_preview :: "(planned_call \<Rightarrow> string + string) \<Rightarrow> planned_call \<Rightarrow> planned_call" where
  "plan_preview preview p =
     (if tc_status (pl_call p) \<noteq> CallPending then p
      else case preview p of
        Inr v \<Rightarrow> p\<lparr>pl_call := (pl_call p)\<lparr>tc_preview := Some v\<rparr>\<rparr>
      | Inl e \<Rightarrow> \<lparr>pl_call = (pl_call p)\<lparr>tc_status := CallError, tc_result := Some e\<rparr>, pl_args = None\<rparr>)"

text \<open>What follows the tools of one answer.\<close>

definition after_tools :: "loop_env \<Rightarrow> tool_call list \<Rightarrow> loop_state \<Rightarrow> loop_state" where
  "after_tools env pending s =
     (let s1 = fold (\<lambda>c. emit_event (LConfirm c)) pending s in
      if lo_aborted s1 then finish_run True s1
      else if pending \<noteq> [] then finish_run False s1
      else loop_head env s1)"

definition start_tool :: "tool_call \<Rightarrow> tool_kind \<Rightarrow> jsval \<Rightarrow> loop_state \<Rightarrow> loop_state" where
  "start_tool c k args s =
     s\<lparr>lo_started := lo_started s @ [\<lparr>st_call = tc_id c, st_kind = k, st_args = args, st_for = lo_user s\<rparr>]\<rparr>"

text \<open>
  The calls of an answer that run at once, in order; \<open>pending\<close> are those that wait for the user.
  The registry checks access before a tool runs and answers in its place when it is denied.
\<close>

fun exec_calls :: "loop_env \<Rightarrow> planned_call list \<Rightarrow> tool_call list \<Rightarrow> loop_state \<Rightarrow> loop_state" where
  "exec_calls env [] pending s = after_tools env pending s"
| "exec_calls env (p # ps) pending s =
     (if tc_status (pl_call p) \<noteq> CallRunning then exec_calls env ps pending s
      else case (le_tool env (tc_name (pl_call p)), pl_args p) of
        (Some tool, Some args) \<Rightarrow>
          (case deny_reason (lo_user s) (assistant_tool.truncate tool) args (le_server env) of
             Some d \<Rightarrow> exec_calls env ps pending (update_call (pl_call p) CallError (Some d) s)
           | None \<Rightarrow> (start_tool (pl_call p) (t_kind tool) args s)\<lparr>lo_phase := WaitTool p ps pending\<rparr>)
      | _ \<Rightarrow> exec_calls env ps pending s)"

text \<open>The provider answered, or failed with \<open>e\<close> after it had streamed some text.\<close>

definition model_failed :: "loop_env \<Rightarrow> string \<Rightarrow> string \<Rightarrow> loop_state \<Rightarrow> loop_state" where
  "model_failed env streamed e s =
     (case lo_phase s of
        WaitModel mid \<Rightarrow>
          let stopped = lo_aborted s; error = (if stopped then STOPPED else e) in
          save_then env mid streamed (Some error) []
            (\<lambda>s1. if stopped then finish_run True s1 else (emit_event (LError error) s1)\<lparr>lo_phase := Ended\<rparr>) s
      | _ \<Rightarrow> s)"

definition model_answered :: "loop_env \<Rightarrow> string \<Rightarrow> streamed_call list \<Rightarrow> loop_state \<Rightarrow> loop_state" where
  "model_answered env content calls s =
     (case lo_phase s of
        WaitModel mid \<Rightarrow> s\<lparr>lo_phase := WaitPreviews mid content
          (plan_calls env (lo_user s) mid 1 calls)\<rparr>
      | _ \<Rightarrow> s)"

definition previews_answered :: "loop_env \<Rightarrow> (planned_call \<Rightarrow> string + string) \<Rightarrow> loop_state \<Rightarrow> loop_state" where
  "previews_answered env preview s =
     (case lo_phase s of
        WaitPreviews mid content ps \<Rightarrow>
          let planned = map (plan_preview preview) ps; calls = map pl_call planned in
          save_then env mid content None calls
            (\<lambda>s1. if planned = [] then finish_run True s1
                  else exec_calls env planned (filter (\<lambda>c. tc_status c = CallPending) calls) s1) s
      | _ \<Rightarrow> s)"

text \<open>The end of \<open>ToolRegistryService.execute\<close> and of \<open>AgentLoop.execute\<close>.\<close>

definition tool_finished :: "loop_env \<Rightarrow> tool_call \<Rightarrow> tool_result \<Rightarrow> loop_state \<Rightarrow> loop_state" where
  "tool_finished env c r s =
     (let kind = (case le_tool env (tc_name c) of None \<Rightarrow> ToolRead | Some t \<Rightarrow> t_kind t);
          s1 = (if kind = ToolWrite then s\<lparr>lo_audit := lo_audit s @ [(tc_name c, \<not> tr_error r)]\<rparr> else s) in
      update_call c (if tr_error r then CallError else CallDone)
        (Some (truncate_output (le_redact env (tr_content r)) OUTPUT_LIMIT)) s1)"

definition tool_answered :: "loop_env \<Rightarrow> tool_result \<Rightarrow> loop_state \<Rightarrow> loop_state" where
  "tool_answered env r s =
     (case lo_phase s of
        WaitTool p ps pending \<Rightarrow> exec_calls env ps pending (tool_finished env (pl_call p) r s)
      | WaitDecided c _ \<Rightarrow> loop_head env (tool_finished env c r s)
      | _ \<Rightarrow> s)"

text \<open>\<open>decide\<close>, then \<open>run\<close>.\<close>

definition decide_call :: "loop_env \<Rightarrow> tool_call \<Rightarrow> bool \<Rightarrow> loop_state \<Rightarrow> loop_state" where
  "decide_call env c approve s =
     (let refuse = (\<lambda>r. loop_head env
            (update_call c (if approve then CallError else CallRejected) (Some r) s)) in
      if \<not> approve then refuse DECLINED
      else case le_tool env (tc_name c) of
        None \<Rightarrow> refuse ''The call is no longer valid''
      | Some tool \<Rightarrow>
         (case t_parse tool (tc_args c) of
            Inl _ \<Rightarrow> refuse ''The call is no longer valid''
          | Inr args \<Rightarrow>
              let s1 = update_call c CallRunning None s; c1 = c\<lparr>tc_status := CallRunning\<rparr> in
              case deny_reason (lo_user s) (assistant_tool.truncate tool) args (le_server env) of
                Some d \<Rightarrow> loop_head env (update_call c1 CallError (Some d) s1)
              | None \<Rightarrow> (start_tool c1 (t_kind tool) args s1)\<lparr>lo_phase := WaitDecided c1 args\<rparr>))"

text \<open>Answers to a run, each taken only when the loop waits for it.\<close>

datatype loop_answer =
    ModelFailed string string
  | ModelAnswered string "streamed_call list"
  | PreviewsAnswered "planned_call \<Rightarrow> string + string"
  | ToolAnswered tool_result

fun loop_step :: "loop_env \<Rightarrow> loop_answer \<Rightarrow> loop_state \<Rightarrow> loop_state" where
  "loop_step env (ModelFailed streamed e) s = model_failed env streamed e s"
| "loop_step env (ModelAnswered content calls) s = model_answered env content calls s"
| "loop_step env (PreviewsAnswered preview) s = previews_answered env preview s"
| "loop_step env (ToolAnswered r) s = tool_answered env r s"

definition is_running_loop :: "loop_state \<Rightarrow> bool" where
  "is_running_loop s \<longleftrightarrow> lo_phase s \<noteq> Ended"

end
