(* ===== verification/Assistant.thy ===== *)
theory Assistant
  imports Assistant_Loop Rate_Limit
begin

text \<open>
  The conversations of the assistant: \<open>conversations.service.ts\<close>, its repository and
  \<open>agent-runner.service.ts\<close>.

  A row carries the state of its loop; a run is active (\<open>active.has\<close>) while the loop has not
  ended.  A deleted conversation stays in the list with \<open>ch_gone\<close>, as its run may still be on.
  \<open>as_approved\<close> lists the confirmations so far (conversation, account, call); no operation reads it.
\<close>

record conversation =
  cv_id :: string
  cv_user :: string
  cv_title :: string
  cv_server :: "string option"
  cv_created :: int
  cv_updated :: int
  cv_loop :: loop_state

record assistant =
  as_rows :: "conversation list"
  as_limits :: rate_limits
  as_approved :: "(string \<times> string \<times> string) list"

abbreviation cv_gone :: "conversation \<Rightarrow> bool" where
  "cv_gone r \<equiv> ch_gone (lo_chat (cv_loop r))"

section \<open>The repository (conversations.repository.ts)\<close>

definition conv_find :: "assistant \<Rightarrow> string \<Rightarrow> string \<Rightarrow> conversation option" where
  "conv_find w uid i = List.find (\<lambda>r. cv_user r = uid \<and> cv_id r = i \<and> \<not> cv_gone r) (as_rows w)"

fun str_less :: "string \<Rightarrow> string \<Rightarrow> bool" where
  "str_less [] b = (b \<noteq> [])"
| "str_less (a # as') [] = False"
| "str_less (a # as') (b # bs) =
     ((of_char a :: nat) < of_char b \<or> a = b \<and> str_less as' bs)"

text \<open>\<open>ORDER BY updatedAt DESC, id DESC\<close>: \<open>a\<close> comes before \<open>b\<close>.\<close>

definition cv_newer :: "conversation \<Rightarrow> conversation \<Rightarrow> bool" where
  "cv_newer a b \<longleftrightarrow> cv_updated a > cv_updated b \<or> cv_updated a = cv_updated b \<and> str_less (cv_id b) (cv_id a)"

fun insert_newest :: "conversation \<Rightarrow> conversation list \<Rightarrow> conversation list" where
  "insert_newest r [] = [r]"
| "insert_newest r (x # xs) = (if cv_newer x r then x # insert_newest r xs else r # x # xs)"

definition conv_list :: "assistant \<Rightarrow> string \<Rightarrow> conversation list" where
  "conv_list w uid = foldr insert_newest (filter (\<lambda>r. cv_user r = uid \<and> \<not> cv_gone r) (as_rows w)) []"

definition gone_row :: "conversation \<Rightarrow> conversation" where
  "gone_row r = r\<lparr>cv_loop := (cv_loop r)\<lparr>lo_chat := (lo_chat (cv_loop r))\<lparr>ch_gone := True\<rparr>\<rparr>\<rparr>"

definition conv_delete :: "assistant \<Rightarrow> string \<Rightarrow> string \<Rightarrow> bool \<times> assistant" where
  "conv_delete w uid i =
     (conv_find w uid i \<noteq> None,
      w\<lparr>as_rows := map (\<lambda>r. if cv_user r = uid \<and> cv_id r = i then gone_row r else r) (as_rows w)\<rparr>)"

definition prune_beyond :: "assistant \<Rightarrow> string \<Rightarrow> nat \<Rightarrow> assistant" where
  "prune_beyond w uid keep =
     (let drop_ids = map cv_id (drop keep (conv_list w uid)) in
      w\<lparr>as_rows := map (\<lambda>r. if cv_user r = uid \<and> cv_id r \<in> set drop_ids then gone_row r else r) (as_rows w)\<rparr>)"

definition on_row :: "string \<Rightarrow> (conversation \<Rightarrow> conversation) \<Rightarrow> assistant \<Rightarrow> assistant" where
  "on_row i f w = w\<lparr>as_rows := map (\<lambda>r. if cv_id r = i then f r else r) (as_rows w)\<rparr>"

definition conv_touch :: "string \<Rightarrow> string option \<Rightarrow> int \<Rightarrow> assistant \<Rightarrow> assistant" where
  "conv_touch i server now w =
     on_row i (\<lambda>r. if cv_gone r then r
       else r\<lparr>cv_updated := now, cv_server := (case server of None \<Rightarrow> cv_server r | Some s \<Rightarrow> Some s)\<rparr>) w"

section \<open>Titles (context-builder.ts)\<close>

text \<open>\<open>content.replace(/\s+/g, " ")\<close>.\<close>

fun collapse_spaces :: "string \<Rightarrow> string" where
  "collapse_spaces [] = []"
| "collapse_spaces (c # cs) =
     (if \<not> is_space c then c # collapse_spaces cs
      else if cs \<noteq> [] \<and> is_space (hd cs) then collapse_spaces cs
      else CHR '' '' # collapse_spaces cs)"

definition last_space :: "string \<Rightarrow> nat option" where
  "last_space s = (case filter (\<lambda>i. s ! i = CHR '' '') [0..<length s] of [] \<Rightarrow> None | is \<Rightarrow> Some (last is))"

definition title_from :: "string \<Rightarrow> string" where
  "title_from content =
     (let line = trim (collapse_spaces content) in
      if length line \<le> 60 then (if line = [] then ''New chat'' else line)
      else let cut = take 60 line in
        (case last_space cut of
           Some n \<Rightarrow> (if 2 * n > 60 then take n cut else cut)
         | None \<Rightarrow> cut) @ ''...'')"

section \<open>The service (conversations.service.ts)\<close>

definition MAX_CONVERSATIONS :: nat where "MAX_CONVERSATIONS = 50"

definition assistant_busy :: "string \<Rightarrow> 'a result" where
  "assistant_busy m = fail_code Conflict ''ASSISTANT_BUSY'' m"

abbreviation no_conversation :: "'a result" where
  "no_conversation \<equiv> fail NotFound ''Conversation not found''"

definition conv_require :: "assistant \<Rightarrow> string \<Rightarrow> string \<Rightarrow> conversation result" where
  "conv_require w uid i = (case conv_find w uid i of None \<Rightarrow> no_conversation | Some r \<Rightarrow> Inr r)"

definition is_running_conv :: "conversation \<Rightarrow> bool" where
  "is_running_conv r = is_running_loop (cv_loop r)"

definition server_context :: "(string \<Rightarrow> bool) \<Rightarrow> user \<Rightarrow> string option \<Rightarrow> string option" where
  "server_context server_exists u server =
     (case server of None \<Rightarrow> None
      | Some sid \<Rightarrow> if sid = [] \<or> \<not> can_see_server (Some u) sid then None
                   else if server_exists sid then Some sid else None)"

definition assert_can_continue :: "assistant \<Rightarrow> string \<Rightarrow> string \<Rightarrow> unit result" where
  "assert_can_continue w uid i =
     and_then (conv_require w uid i) (\<lambda>r.
       if is_running_conv r then assistant_busy ''The assistant is still answering''
       else if has_pending (chat_list (lo_chat (cv_loop r)))
       then assistant_busy ''Confirm or cancel the pending action first''
       else Inr ())"

definition idle_loop :: "user \<Rightarrow> loop_state" where
  "idle_loop u = \<lparr>lo_chat = \<lparr>ch_gone = False, ch_messages = []\<rparr>, lo_user = u, lo_max = 0, lo_aborted = False,
     lo_phase = Ended, lo_events = [], lo_started = [], lo_audit = []\<rparr>"

definition open_conv :: "assistant \<Rightarrow> user \<Rightarrow> string \<Rightarrow> string option \<Rightarrow> string \<Rightarrow> int \<Rightarrow> assistant" where
  "open_conv w u content server i now =
     prune_beyond (w\<lparr>as_rows := as_rows w @ [\<lparr>cv_id = i, cv_user = u_id u, cv_title = title_from content,
        cv_server = server, cv_created = now, cv_updated = now, cv_loop = idle_loop u\<rparr>]\<rparr>) (u_id u) MAX_CONVERSATIONS"

text \<open>A new run of the loop: who asked, the step limit of the settings, nothing aborted yet.\<close>

definition start_run :: "user \<Rightarrow> nat \<Rightarrow> loop_state \<Rightarrow> loop_state" where
  "start_run u max_steps s = s\<lparr>lo_user := u, lo_max := max_steps, lo_aborted := False\<rparr>"

definition user_message :: "string \<Rightarrow> string \<Rightarrow> int \<Rightarrow> chat_message" where
  "user_message mid content now = \<lparr>cm_id = mid, cm_role = RoleUser, cm_content = trim content, cm_error = None,
     cm_created = now, cm_calls = []\<rparr>"

text \<open>\<open>mid\<close> and \<open>i\<close> are the fresh ids of the message and of a new conversation.\<close>

definition deliver :: "loop_env \<Rightarrow> nat \<Rightarrow> assistant \<Rightarrow> user \<Rightarrow> string \<Rightarrow> string option \<Rightarrow> chat_message \<Rightarrow> string result \<times> assistant" where
  "deliver env max_steps w u i server m =
     (case conv_find w (u_id u) i of
        None \<Rightarrow> (fail Internal ''FOREIGN KEY constraint failed'', w)
      | Some _ \<Rightarrow> (Inr i, conv_touch i server (le_now env) (on_row i (\<lambda>r. r\<lparr>cv_loop :=
          loop_head env (start_run u max_steps ((cv_loop r)\<lparr>lo_chat :=
            (lo_chat (cv_loop r))\<lparr>ch_messages := ch_messages (lo_chat (cv_loop r)) @ [m]\<rparr>\<rparr>))\<rparr>) w)))"

definition conv_send ::
  "loop_env \<Rightarrow> bool \<Rightarrow> nat \<Rightarrow> assistant \<Rightarrow> user \<Rightarrow> string option \<Rightarrow> string \<Rightarrow> string option \<Rightarrow> string \<Rightarrow> string \<Rightarrow>
     string result \<times> assistant" where
  "conv_send env configured max_steps w u conv content server i mid =
     (if \<not> configured then (fail_code Conflict ''ASSISTANT_NOT_CONFIGURED'' ''The assistant is not set up'', w)
      else let sid = server_context (le_server env) u server; now = le_now env; m = user_message mid content now in
      case (case conv of None \<Rightarrow> Inr () | Some c \<Rightarrow> assert_can_continue w (u_id u) c) of
        Inl e \<Rightarrow> (Inl e, w)
      | Inr _ \<Rightarrow>
         (case rl_hit (as_limits w) PAssistant (u_id u) now of
            (Inl e, rl) \<Rightarrow> (Inl e, w\<lparr>as_limits := rl\<rparr>)
          | (Inr _, rl) \<Rightarrow>
              let w1 = w\<lparr>as_limits := rl\<rparr> in
              (case conv of
                 Some c \<Rightarrow> deliver env max_steps w1 u c sid m
               | None \<Rightarrow> deliver env max_steps (open_conv w1 u content sid i now) u i sid m)))"

definition conv_confirm ::
  "loop_env \<Rightarrow> nat \<Rightarrow> assistant \<Rightarrow> user \<Rightarrow> string \<Rightarrow> string \<Rightarrow> bool \<Rightarrow> unit result \<times> assistant" where
  "conv_confirm env max_steps w u i call_id approve =
     (case conv_require w (u_id u) i of
        Inl e \<Rightarrow> (Inl e, w)
      | Inr r \<Rightarrow>
          if is_running_conv r then (assistant_busy ''The assistant is still working'', w)
          else case find_tool_call (lo_chat (cv_loop r)) call_id of
            None \<Rightarrow> (fail NotFound ''Tool call not found'', w)
          | Some c \<Rightarrow>
              if tc_status c \<noteq> CallPending then (assistant_busy ''This call was already decided'', w)
              else (Inr (), (on_row i (\<lambda>r. r\<lparr>cv_loop := decide_call env c approve (start_run u max_steps (cv_loop r))\<rparr>) w)
                     \<lparr>as_approved := as_approved w @ (if approve then [(i, u_id u, call_id)] else [])\<rparr>))"

definition runner_stop :: "assistant \<Rightarrow> string \<Rightarrow> assistant" where
  "runner_stop w i = on_row i (\<lambda>r. if is_running_conv r then r\<lparr>cv_loop := (cv_loop r)\<lparr>lo_aborted := True\<rparr>\<rparr> else r) w"

definition conv_stop :: "assistant \<Rightarrow> user \<Rightarrow> string \<Rightarrow> unit result \<times> assistant" where
  "conv_stop w u i =
     (case conv_require w (u_id u) i of Inl e \<Rightarrow> (Inl e, w) | Inr _ \<Rightarrow> (Inr (), runner_stop w i))"

definition conv_remove :: "assistant \<Rightarrow> user \<Rightarrow> string \<Rightarrow> unit result \<times> assistant" where
  "conv_remove w u i =
     (case conv_delete (runner_stop w i) (u_id u) i of
        (True, w1) \<Rightarrow> (Inr (), w1)
      | (False, w1) \<Rightarrow> (no_conversation, w1))"

text \<open>An answer from outside reaches the run of a conversation.\<close>

definition conv_answer :: "loop_env \<Rightarrow> assistant \<Rightarrow> string \<Rightarrow> loop_answer \<Rightarrow> assistant" where
  "conv_answer env w i ans = on_row i (\<lambda>r. r\<lparr>cv_loop := loop_step env ans (cv_loop r)\<rparr>) w"

section \<open>The assistant at work\<close>

text \<open>The ids of the calls of a loop, saved or about to be.\<close>

definition phase_calls :: "loop_phase \<Rightarrow> tool_call list" where
  "phase_calls p = (case p of WaitPreviews _ _ ps \<Rightarrow> map pl_call ps | _ \<Rightarrow> [])"

definition call_ids :: "loop_state \<Rightarrow> string list" where
  "call_ids s = map tc_id (all_calls (ch_messages (lo_chat s)) @ phase_calls (lo_phase s))"

text \<open>\<open>randomUUID\<close>: the ids of one step are new, and different from each other.\<close>

definition fresh_env :: "(string \<Rightarrow> chat_tool option) \<Rightarrow> assistant \<Rightarrow> loop_env \<Rightarrow> bool" where
  "fresh_env tools w env \<longleftrightarrow> le_tool env = tools \<and> inj (le_id env) \<and>
     (\<forall>r \<in> set (as_rows w). \<forall>n. le_id env n \<notin> set (call_ids (cv_loop r)))"

inductive as_step :: "(string \<Rightarrow> chat_tool option) \<Rightarrow> assistant \<Rightarrow> assistant \<Rightarrow> bool" for tools where
  send: "fresh_env tools w env \<Longrightarrow> i \<notin> cv_id ` set (as_rows w) \<Longrightarrow>
    as_step tools w (snd (conv_send env configured max_steps w u conv content server i mid))"
| confirm: "fresh_env tools w env \<Longrightarrow> as_step tools w (snd (conv_confirm env max_steps w u i call_id approve))"
| stop: "as_step tools w (snd (conv_stop w u i))"
| remove: "as_step tools w (snd (conv_remove w u i))"
| answer: "fresh_env tools w env \<Longrightarrow> as_step tools w (conv_answer env w i ans)"

definition as_start :: assistant where
  "as_start = \<lparr>as_rows = [], as_limits = rate_limits_init, as_approved = []\<rparr>"

inductive as_reach :: "(string \<Rightarrow> chat_tool option) \<Rightarrow> assistant \<Rightarrow> bool" for tools where
  as_first: "as_reach tools as_start"
| as_next: "as_reach tools w \<Longrightarrow> as_step tools w w' \<Longrightarrow> as_reach tools w'"

end
