(* ===== verification/Assistant_Properties.thy ===== *)
theory Assistant_Properties
  imports Assistant
begin

text \<open>
  The properties of the assistant: what runs without the user, what runs after a confirmation,
  how long a run lasts, and who controls a conversation.
\<close>

section \<open>Calls of a conversation\<close>

lemma all_calls_simps [simp]:
  "all_calls [] = []" "all_calls (m # ms) = cm_calls m @ all_calls ms" "all_calls (ms @ ns) = all_calls ms @ all_calls ns"
  by (simp_all add: all_calls_def)

lemma map_calls_simps [simp]:
  "cm_calls (map_calls f m) = map f (cm_calls m)" "cm_role (map_calls f m) = cm_role m"
  by (simp_all add: map_calls_def)

lemma all_calls_map: "all_calls (map (map_calls f) ms) = map f (all_calls ms)"
  by (induction ms) simp_all

definition no_pending :: "chat \<Rightarrow> bool" where
  "no_pending c \<longleftrightarrow> ch_gone c \<or> (\<forall>x \<in> set (all_calls (ch_messages c)). tc_status x \<noteq> CallPending)"

definition core :: "string set \<Rightarrow> chat \<Rightarrow> started list \<Rightarrow> bool" where
  "core A c st \<longleftrightarrow> distinct (map tc_id (all_calls (ch_messages c))) \<and>
     (\<forall>x \<in> set (all_calls (butlast (ch_messages c))). tc_status x \<noteq> CallPending) \<and>
     distinct (map st_call st) \<and>
     (\<forall>t \<in> set st. (\<exists>x \<in> set (all_calls (ch_messages c)). tc_id x = st_call t \<and> tc_status x \<noteq> CallPending)
        \<and> (st_kind t = ToolWrite \<longrightarrow> st_call t \<in> A))"

text \<open>The calls still to be run at once: known, of read tools, and not started.\<close>

definition queue_ok :: "(string \<Rightarrow> chat_tool option) \<Rightarrow> chat \<Rightarrow> started list \<Rightarrow> planned_call list \<Rightarrow> bool" where
  "queue_ok tools c st ps \<longleftrightarrow>
     (let rs = filter (\<lambda>x. tc_status x = CallRunning) (map pl_call ps) in
      distinct (map tc_id rs) \<and>
      (\<forall>x \<in> set rs. (\<exists>y \<in> set (all_calls (ch_messages c)). tc_id y = tc_id x \<and> tc_status y \<noteq> CallPending)
         \<and> tc_id x \<notin> st_call ` set st
         \<and> (\<forall>t. tools (tc_name x) = Some t \<longrightarrow> t_kind t = ToolRead)))"

definition loop_inv :: "(string \<Rightarrow> chat_tool option) \<Rightarrow> string set \<Rightarrow> loop_state \<Rightarrow> bool" where
  "loop_inv tools A s \<longleftrightarrow> core A (lo_chat s) (lo_started s) \<and>
     (case lo_phase s of
        WaitModel _ \<Rightarrow> no_pending (lo_chat s)
      | WaitPreviews _ _ ps \<Rightarrow> no_pending (lo_chat s) \<and> distinct (call_ids s) \<and>
          (\<forall>p \<in> set ps. tc_status (pl_call p) = CallRunning \<longrightarrow>
             (\<forall>t. tools (tc_name (pl_call p)) = Some t \<longrightarrow> t_kind t = ToolRead))
      | WaitTool p ps pend \<Rightarrow> queue_ok tools (lo_chat s) (lo_started s) ps
      | _ \<Rightarrow> True)"

lemma not_has_pending:
  assumes "core A c st" and "\<not> has_pending (ch_messages c)" shows "no_pending c"
proof (cases "ch_messages c" rule: rev_cases)
  case Nil
  then show ?thesis by (simp add: no_pending_def)
next
  case (snoc ms m)
  with assms show ?thesis by (auto simp: no_pending_def core_def has_pending_def list_ex_iff)
qed

lemma emit_fields [simp]:
  "lo_chat (emit_event e s) = lo_chat s" "lo_started (emit_event e s) = lo_started s"
  "lo_phase (emit_event e s) = lo_phase s" "lo_user (emit_event e s) = lo_user s"
  "lo_aborted (emit_event e s) = lo_aborted s" "lo_max (emit_event e s) = lo_max s"
  by (simp_all add: emit_event_def)

lemma fold_emit [simp]:
  "lo_chat (fold (\<lambda>c. emit_event (g c)) cs s) = lo_chat s" "lo_started (fold (\<lambda>c. emit_event (g c)) cs s) = lo_started s"
  "lo_phase (fold (\<lambda>c. emit_event (g c)) cs s) = lo_phase s" "lo_user (fold (\<lambda>c. emit_event (g c)) cs s) = lo_user s"
  "lo_aborted (fold (\<lambda>c. emit_event (g c)) cs s) = lo_aborted s" "lo_max (fold (\<lambda>c. emit_event (g c)) cs s) = lo_max s"
  by (induction cs arbitrary: s) simp_all

lemma finish_fields [simp]:
  "lo_chat (finish_run b s) = lo_chat s" "lo_started (finish_run b s) = lo_started s" "lo_phase (finish_run b s) = Ended"
  "lo_chat (crash_run e s) = lo_chat s" "lo_started (crash_run e s) = lo_started s" "lo_phase (crash_run e s) = Ended"
  by (simp_all add: finish_run_def crash_run_def)

section \<open>Updates of a call\<close>

lemma update_call_fields [simp]:
  "lo_started (update_call c st r s) = lo_started s" "lo_phase (update_call c st r s) = lo_phase s"
  "lo_user (update_call c st r s) = lo_user s" "lo_aborted (update_call c st r s) = lo_aborted s"
  "lo_max (update_call c st r s) = lo_max s"
  by (simp_all add: update_call_def Let_def)

text \<open>The messages after an update: one call has another status, unless the conversation is gone.\<close>

lemma update_call_messages:
  assumes "st \<noteq> CallPending"
  obtains f where "ch_messages (lo_chat (update_call c st r s)) = map (map_calls f) (ch_messages (lo_chat s))"
    and "\<And>x. tc_id (f x) = tc_id x" and "\<And>x. tc_status x \<noteq> CallPending \<Longrightarrow> tc_status (f x) \<noteq> CallPending"
    and "\<not> ch_gone (lo_chat s) \<Longrightarrow> (\<And>x. tc_id x = tc_id c \<Longrightarrow> tc_status (f x) = st)"
    and "ch_gone (lo_chat (update_call c st r s)) = ch_gone (lo_chat s)"
proof (cases "ch_gone (lo_chat s)")
  case True
  have "map_calls (\<lambda>x. x) = (\<lambda>m. m)" by (rule ext) (simp add: map_calls_def)
  then show ?thesis using True by (intro that [of "\<lambda>x. x"]) (simp_all add: update_call_def Let_def chat_update_call_def)
next
  case False
  define f :: "tool_call \<Rightarrow> tool_call" where "f = (\<lambda>x. if tc_id x = tc_id c
      then x\<lparr>tc_status := st, tc_result := (case r of None \<Rightarrow> tc_result x | Some _ \<Rightarrow> r)\<rparr> else x)"
  show ?thesis
    by (rule that [of f]) (use False assms in \<open>simp_all add: f_def update_call_def Let_def chat_update_call_def\<close>)
qed

lemma core_map:
  assumes "core A c st" and "ch_messages c' = map (map_calls f) (ch_messages c)" and "\<And>x. tc_id (f x) = tc_id x"
    and "\<And>x. tc_status x \<noteq> CallPending \<Longrightarrow> tc_status (f x) \<noteq> CallPending"
  shows "core A c' st"
proof -
  have b: "butlast (map (map_calls f) ms) = map (map_calls f) (butlast ms)" for ms by (simp add: map_butlast)
  show ?thesis using assms(1) unfolding core_def assms(2) b all_calls_map
    by (auto simp: comp_def assms(3,4)) (metis assms(3,4) image_eqI)
qed

lemma core_update:
  assumes "st \<noteq> CallPending" and "core A (lo_chat s) t"
  shows "core A (lo_chat (update_call c st r s)) t"
  by (rule update_call_messages [OF assms(1), of c r s]) (rule core_map [OF assms(2)])

lemma pending_update:
  assumes "st \<noteq> CallPending" and "no_pending (lo_chat s)" shows "no_pending (lo_chat (update_call c st r s))"
  by (rule update_call_messages [OF assms(1), of c r s])
     (use assms(2) in \<open>auto simp: no_pending_def all_calls_map\<close>)

lemma queue_update:
  assumes "st \<noteq> CallPending" and "queue_ok tools (lo_chat s) t ps"
  shows "queue_ok tools (lo_chat (update_call c st r s)) t ps"
proof (rule update_call_messages [OF assms(1), of c r s])
  fix f assume m: "ch_messages (lo_chat (update_call c st r s)) = map (map_calls f) (ch_messages (lo_chat s))"
    and f: "\<And>x. tc_id (f x) = tc_id x" "\<And>x. tc_status x \<noteq> CallPending \<Longrightarrow> tc_status (f x) \<noteq> CallPending"
  have "\<exists>y \<in> set (all_calls (ch_messages (lo_chat (update_call c st r s)))). tc_id y = i \<and> tc_status y \<noteq> CallPending"
    if "\<exists>y \<in> set (all_calls (ch_messages (lo_chat s))). tc_id y = i \<and> tc_status y \<noteq> CallPending" for i
    using that f by (auto simp: m all_calls_map)
  with assms(2) show ?thesis unfolding queue_ok_def Let_def by blast
qed

section \<open>The steps of the loop\<close>

lemma finish_inv: "core A (lo_chat s) (lo_started s) \<Longrightarrow> loop_inv tools A (finish_run b s)"
  by (simp add: loop_inv_def)

lemma core_insert:
  assumes "core A c st" and "no_pending c" and "chat_insert m c = Inr c'"
    and "distinct (map tc_id (all_calls (ch_messages c) @ cm_calls m))"
  shows "core A c' st"
proof -
  have c': "c' = c\<lparr>ch_messages := ch_messages c @ [m]\<rparr>" and n: "\<forall>x \<in> set (all_calls (ch_messages c)). tc_status x \<noteq> CallPending"
    using assms(2,3) by (auto simp: chat_insert_def no_pending_def split: if_splits)
  show ?thesis unfolding core_def
  proof (intro conjI ballI)
    fix t assume "t \<in> set st"
    with assms(1) show "\<exists>x \<in> set (all_calls (ch_messages c')). tc_id x = st_call t \<and> tc_status x \<noteq> CallPending"
      unfolding core_def c' by auto
  qed (use assms(1,4) n in \<open>auto simp: core_def c'\<close>)
qed

lemma save_then_inv:
  assumes core: "core A (lo_chat s) (lo_started s)" and none: "no_pending (lo_chat s)"
    and ids: "distinct (map tc_id (all_calls (ch_messages (lo_chat s)) @ calls))"
    and k: "\<And>s1. core A (lo_chat s1) (lo_started s1) \<Longrightarrow> lo_started s1 = lo_started s \<Longrightarrow>
        all_calls (ch_messages (lo_chat s1)) = all_calls (ch_messages (lo_chat s)) @ calls \<Longrightarrow> loop_inv tools A (k s1)"
  shows "loop_inv tools A (save_then env mid content error calls k s)"
proof (cases "ch_gone (lo_chat s)")
  case True
  then show ?thesis using core by (simp add: save_then_def chat_insert_def loop_inv_def)
next
  case False
  let ?m = "\<lparr>cm_id = mid, cm_role = RoleAssistant, cm_content = content, cm_error = error, cm_created = le_now env, cm_calls = calls\<rparr>"
  let ?c = "(lo_chat s)\<lparr>ch_messages := ch_messages (lo_chat s) @ [?m]\<rparr>"
  have ins: "chat_insert ?m (lo_chat s) = Inr ?c" using False by (simp add: chat_insert_def)
  have "core A ?c (lo_started s)" by (rule core_insert [OF core none ins]) (use ids in simp)
  then have "loop_inv tools A (k (emit_event (LMessage ?m) (s\<lparr>lo_chat := ?c\<rparr>)))"
    by (intro k) simp_all
  then show ?thesis unfolding save_then_def Let_def ins by simp
qed

lemma head_inv:
  assumes "core A (lo_chat s) (lo_started s)" shows "loop_inv tools A (loop_head env s)"
proof -
  show ?thesis
  proof (cases "has_pending (chat_list (lo_chat s))")
    case True
    then show ?thesis using assms by (simp add: loop_head_def loop_inv_def)
  next
    case False
    have none: "no_pending (lo_chat s)"
      using not_has_pending [OF assms] False by (auto simp: chat_list_def no_pending_def split: if_splits)
    have "loop_inv tools A (save_then env (le_id env 0) [] (Some STEP_LIMIT) [] (finish_run True) s)"
      by (rule save_then_inv [OF assms none]) (use assms in \<open>auto simp: loop_inv_def core_def\<close>)
    then show ?thesis using False assms none by (simp add: loop_head_def Let_def) (simp add: loop_inv_def)
  qed
qed

lemma after_tools_inv:
  "core A (lo_chat s) (lo_started s) \<Longrightarrow> loop_inv tools A (after_tools env pending s)"
  by (auto simp: after_tools_def Let_def intro: head_inv) (simp_all add: loop_inv_def)

lemma start_tool_fields [simp]:
  "lo_chat (start_tool c k a s) = lo_chat s" "lo_phase (start_tool c k a s) = lo_phase s"
  "lo_user (start_tool c k a s) = lo_user s" "lo_aborted (start_tool c k a s) = lo_aborted s" "lo_max (start_tool c k a s) = lo_max s"
  "lo_started (start_tool c k a s) = lo_started s @ [\<lparr>st_call = tc_id c, st_kind = k, st_args = a, st_for = lo_user s\<rparr>]"
  by (simp_all add: start_tool_def)

lemma core_start:
  assumes "core A c st" and "\<exists>y \<in> set (all_calls (ch_messages c)). tc_id y = st_call t \<and> tc_status y \<noteq> CallPending"
    and "st_call t \<notin> st_call ` set st" and "st_kind t = ToolWrite \<longrightarrow> st_call t \<in> A"
  shows "core A c (st @ [t])"
  using assms by (auto simp: core_def)

lemma exec_inv:
  assumes "le_tool env = tools" and "core A (lo_chat s) (lo_started s)" and "queue_ok tools (lo_chat s) (lo_started s) ps"
  shows "loop_inv tools A (exec_calls env ps pending s)"
  using assms(2,3)
proof (induction ps arbitrary: s)
  case Nil
  then show ?case by (simp add: after_tools_inv)
next
  case (Cons p ps)
  have rest: "queue_ok tools (lo_chat s) (lo_started s) ps" using Cons.prems(2) by (auto simp: queue_ok_def Let_def split: if_splits)
  show ?case
  proof (cases "tc_status (pl_call p) = CallRunning")
    case False
    then show ?thesis using Cons.IH [OF Cons.prems(1) rest] by simp
  next
    case True
    let ?c = "pl_call p"
    from True Cons.prems(2) have q: "\<exists>y \<in> set (all_calls (ch_messages (lo_chat s))). tc_id y = tc_id ?c \<and> tc_status y \<noteq> CallPending"
      "tc_id ?c \<notin> st_call ` set (lo_started s)" "\<And>t. tools (tc_name ?c) = Some t \<Longrightarrow> t_kind t = ToolRead"
      by (auto simp: queue_ok_def Let_def)
    have "tc_id ?c \<notin> tc_id ` {x \<in> pl_call ` set ps. tc_status x = CallRunning}"
      using True Cons.prems(2) by (simp add: queue_ok_def Let_def)
    then have q4: "\<forall>x \<in> set (map pl_call ps). tc_status x = CallRunning \<longrightarrow> tc_id x \<noteq> tc_id ?c"
      by (metis (mono_tags, lifting) image_eqI list.set_map mem_Collect_eq)
    show ?thesis
    proof (cases "le_tool env (tc_name ?c)")
      case None
      then show ?thesis using Cons.IH [OF Cons.prems(1) rest] True by simp
    next
      case (Some tool)
      show ?thesis
      proof (cases "pl_args p")
        case None
        then show ?thesis using Cons.IH [OF Cons.prems(1) rest] True Some by simp
      next
        case a: (Some args)
        show ?thesis
        proof (cases "deny_reason (lo_user s) (assistant_tool.truncate tool) args (le_server env)")
          case d: (Some d)
          have "loop_inv tools A (exec_calls env ps pending (update_call ?c CallError (Some d) s))"
            using Cons.prems(1) rest by (intro Cons.IH) (simp_all add: core_update queue_update)
          then show ?thesis using True Some a d by simp
        next
          case None
          let ?t = "\<lparr>st_call = tc_id ?c, st_kind = t_kind tool, st_args = args, st_for = lo_user s\<rparr>"
          have "core A (lo_chat s) (lo_started s @ [?t])"
            using q Some assms(1) by (intro core_start [OF Cons.prems(1)]) auto
          moreover have "queue_ok tools (lo_chat s) (lo_started s @ [?t]) ps"
            using rest q4 by (auto simp: queue_ok_def Let_def)
          ultimately show ?thesis using True Some a None by (simp add: loop_inv_def)
        qed
      qed
    qed
  qed
qed

lemma tool_finished_fields [simp]:
  "lo_started (tool_finished env c r s) = lo_started s" "lo_phase (tool_finished env c r s) = lo_phase s"
  "lo_user (tool_finished env c r s) = lo_user s" "lo_aborted (tool_finished env c r s) = lo_aborted s"
  "lo_max (tool_finished env c r s) = lo_max s"
  by (simp_all add: tool_finished_def Let_def)

lemma tool_finished_chat:
  "\<exists>st r' s'. st \<noteq> CallPending \<and> lo_chat s' = lo_chat s \<and> lo_chat (tool_finished env c r s) = lo_chat (update_call c st r' s')"
proof -
  let ?kind = "case le_tool env (tc_name c) of None \<Rightarrow> ToolRead | Some t \<Rightarrow> t_kind t"
  let ?s = "if ?kind = ToolWrite then s\<lparr>lo_audit := lo_audit s @ [(tc_name c, \<not> tr_error r)]\<rparr> else s"
  show ?thesis
    by (intro exI [of _ "if tr_error r then CallError else CallDone"] exI [of _ ?s] exI conjI)
       (simp_all add: tool_finished_def Let_def)
qed

lemma tool_finished_inv:
  "core A (lo_chat s) t \<Longrightarrow> core A (lo_chat (tool_finished env c r s)) t"
  "queue_ok tools (lo_chat s) t ps \<Longrightarrow> queue_ok tools (lo_chat (tool_finished env c r s)) t ps"
  using tool_finished_chat [of s env c r] by (metis core_update, metis queue_update)

text \<open>What planning an answer gives.\<close>

lemma plan_call_facts:
  "tc_id (pl_call (plan_call env u mid cid c)) = cid"
  "tc_status (pl_call (plan_call env u mid cid c)) = CallRunning \<Longrightarrow>
     le_tool env (tc_name (pl_call (plan_call env u mid cid c))) = Some t \<Longrightarrow> t_kind t = ToolRead"
  by (auto simp: plan_call_def Let_def split: option.splits sum.splits prod.splits if_splits)

lemma plan_preview_facts:
  "tc_id (pl_call (plan_preview f p)) = tc_id (pl_call p)"
  "tc_status (pl_call (plan_preview f p)) = CallRunning \<longleftrightarrow> tc_status (pl_call p) = CallRunning"
  "tc_name (pl_call (plan_preview f p)) = tc_name (pl_call p)"
  by (auto simp: plan_preview_def split: sum.splits)

lemma plan_calls_ids: "map tc_id (map pl_call (plan_calls env u mid n cs)) = map (le_id env) [n..<n + length cs]"
proof (induction cs arbitrary: n)
  case (Cons c cs)
  have "[n..<n + length (c # cs)] = n # [Suc n..<Suc n + length cs]"
    using upt_conv_Cons [of n "n + length (c # cs)"] by (simp del: upt_Suc)
  then show ?case using Cons [of "Suc n"] by (simp add: plan_call_facts(1) del: upt_Suc)
qed simp

lemma plan_calls_kinds:
  "p \<in> set (plan_calls env u mid n cs) \<Longrightarrow> tc_status (pl_call p) = CallRunning \<Longrightarrow>
   le_tool env (tc_name (pl_call p)) = Some t \<Longrightarrow> t_kind t = ToolRead"
  by (induction cs arbitrary: n) (auto dest: plan_call_facts(2))

lemma planned_inv:
  assumes "loop_inv tools A s" and "le_tool env = tools" and "inj (le_id env)" and "\<forall>n. le_id env n \<notin> set (call_ids s)"
  shows "loop_inv tools A (model_answered env content calls s)"
proof (cases "lo_phase s")
  case (WaitModel mid)
  let ?ps = "plan_calls env (lo_user s) mid 1 calls"
  have "distinct (map (le_id env) [1..<1 + length calls])"
    using assms(3) by (simp add: distinct_map inj_on_subset [OF assms(3)])
  moreover have "set (map (le_id env) [1..<1 + length calls]) \<inter> set (map tc_id (all_calls (ch_messages (lo_chat s)))) = {}"
    using assms(4) by (auto simp: call_ids_def)
  moreover have "distinct (map tc_id (all_calls (ch_messages (lo_chat s))))"
    using assms(1) by (simp add: loop_inv_def core_def)
  ultimately have "distinct (map tc_id (all_calls (ch_messages (lo_chat s))) @ map tc_id (map pl_call ?ps))"
    unfolding plan_calls_ids distinct_append by blast
  moreover have "\<forall>p \<in> set ?ps. tc_status (pl_call p) = CallRunning \<longrightarrow>
      (\<forall>t. tools (tc_name (pl_call p)) = Some t \<longrightarrow> t_kind t = ToolRead)"
    using plan_calls_kinds assms(2) by blast
  ultimately show ?thesis using assms(1) WaitModel
    by (simp add: model_answered_def loop_inv_def call_ids_def phase_calls_def)
qed (use assms(1) in \<open>simp_all add: model_answered_def\<close>)

lemma previews_inv:
  assumes inv: "loop_inv tools A s" and tools: "le_tool env = tools"
  shows "loop_inv tools A (previews_answered env f s)"
proof (cases "lo_phase s")
  case (WaitPreviews mid content ps)
  let ?ps = "map (plan_preview f) ps" and ?calls = "map pl_call (map (plan_preview f) ps)"
  have core: "core A (lo_chat s) (lo_started s)" and none: "no_pending (lo_chat s)"
    and d: "distinct (map tc_id (all_calls (ch_messages (lo_chat s))) @ map tc_id (map pl_call ps))"
    and kinds: "\<forall>p \<in> set ps. tc_status (pl_call p) = CallRunning \<longrightarrow>
             (\<forall>t. tools (tc_name (pl_call p)) = Some t \<longrightarrow> t_kind t = ToolRead)"
    using inv WaitPreviews by (simp_all add: loop_inv_def call_ids_def phase_calls_def)
  have same: "map tc_id ?calls = map tc_id (map pl_call ps)" by (simp add: plan_preview_facts)
  have ids: "distinct (map tc_id (all_calls (ch_messages (lo_chat s)) @ ?calls))"
    using d same by (simp only: map_append)
  have old: "st_call t \<in> set (map tc_id (all_calls (ch_messages (lo_chat s))))" if "t \<in> set (lo_started s)" for t
    using core that by (force simp: core_def)
  have "loop_inv tools A (save_then env mid content None ?calls
      (\<lambda>s1. if ?ps = [] then finish_run True s1
            else exec_calls env ?ps (filter (\<lambda>c. tc_status c = CallPending) ?calls) s1) s)"
  proof (rule save_then_inv [OF core none ids])
    fix s1 :: loop_state assume c1: "core A (lo_chat s1) (lo_started s1)" and st: "lo_started s1 = lo_started s"
      and m: "all_calls (ch_messages (lo_chat s1)) = all_calls (ch_messages (lo_chat s)) @ ?calls"
    have "queue_ok tools (lo_chat s1) (lo_started s1) ?ps"
      unfolding queue_ok_def Let_def
    proof (intro conjI ballI)
      have "distinct (map tc_id ?calls)" using ids by simp
      then show "distinct (map tc_id (filter (\<lambda>x. tc_status x = CallRunning) ?calls))" by (rule distinct_map_filter)
      fix x assume x: "x \<in> set (filter (\<lambda>x. tc_status x = CallRunning) ?calls)"
      then show "\<exists>y \<in> set (all_calls (ch_messages (lo_chat s1))). tc_id y = tc_id x \<and> tc_status y \<noteq> CallPending"
        unfolding m by (intro bexI [of _ x]) auto
      have "tc_id x \<notin> set (map tc_id (all_calls (ch_messages (lo_chat s))))" using x ids by auto
      then show "tc_id x \<notin> st_call ` set (lo_started s1)" using old st by auto
      show "\<forall>t. tools (tc_name x) = Some t \<longrightarrow> t_kind t = ToolRead"
        using x kinds by (auto simp: plan_preview_facts)
    qed
    from exec_inv [OF tools c1 this] have "loop_inv tools A (exec_calls env ?ps pend s1)" for pend .
    with c1 show "loop_inv tools A (if ?ps = [] then finish_run True s1
            else exec_calls env ?ps (filter (\<lambda>c. tc_status c = CallPending) ?calls) s1)"
      by (simp add: finish_inv del: map_map)
  qed
  then show ?thesis using WaitPreviews by (simp add: previews_answered_def Let_def)
qed (use inv in \<open>simp_all add: previews_answered_def\<close>)

lemma failed_inv:
  assumes "loop_inv tools A s" shows "loop_inv tools A (model_failed env streamed e s)"
proof (cases "lo_phase s")
  case (WaitModel mid)
  let ?k = "\<lambda>er s1. if lo_aborted s then finish_run True s1 else (emit_event (LError er) s1)\<lparr>lo_phase := Ended\<rparr>"
  have core: "core A (lo_chat s) (lo_started s)" and none: "no_pending (lo_chat s)"
    using assms WaitModel by (simp_all add: loop_inv_def)
  have "loop_inv tools A (save_then env mid streamed (Some er) [] (?k er) s)" for er
    by (rule save_then_inv [OF core none]) (use core in \<open>simp_all add: loop_inv_def core_def\<close>)
  then show ?thesis using WaitModel by (simp add: model_failed_def Let_def)
qed (use assms in \<open>simp_all add: model_failed_def\<close>)

lemma answered_inv:
  assumes inv: "loop_inv tools A s" and "le_tool env = tools"
  shows "loop_inv tools A (tool_answered env r s)"
proof -
  have core: "core A (lo_chat s) (lo_started s)" using inv by (simp add: loop_inv_def)
  show ?thesis
  proof (cases "lo_phase s")
    case (WaitTool p ps pend)
    then show ?thesis using inv core
      by (auto simp: tool_answered_def loop_inv_def intro!: exec_inv [OF assms(2), unfolded loop_inv_def] tool_finished_inv)
  next
    case (WaitDecided c a)
    then show ?thesis using core by (simp add: tool_answered_def head_inv tool_finished_inv)
  qed (use inv in \<open>simp_all add: tool_answered_def\<close>)
qed

lemma step_inv_loop:
  assumes "loop_inv tools A s" and "le_tool env = tools" and "inj (le_id env)" and "\<forall>n. le_id env n \<notin> set (call_ids s)"
  shows "loop_inv tools A (loop_step env ans s)"
  using assms by (cases ans) (simp_all add: planned_inv previews_inv failed_inv answered_inv)

text \<open>A decision about a call that waits: the only way for a write tool to start.\<close>

lemma core_mono: "core A c st \<Longrightarrow> A \<subseteq> B \<Longrightarrow> core B c st"
  by (auto simp: core_def)

lemma decide_inv:
  assumes inv: "loop_inv tools A s" and gone: "\<not> ch_gone (lo_chat s)"
    and c: "c \<in> set (all_calls (ch_messages (lo_chat s)))" "tc_status c = CallPending"
    and B: "A \<subseteq> B" "approve \<longrightarrow> tc_id c \<in> B"
  shows "loop_inv tools B (decide_call env c approve s)"
proof -
  have core: "core B (lo_chat s) (lo_started s)" using inv B(1) by (auto simp: loop_inv_def intro: core_mono)
  have refused: "loop_inv tools B (loop_head env (update_call c (if approve then CallError else CallRejected) r s))" for r
    using core by (intro head_inv) (simp add: core_update)
  let ?s1 = "update_call c CallRunning None s" and ?c1 = "c\<lparr>tc_status := CallRunning\<rparr>"
  have denied: "loop_inv tools B (loop_head env (update_call ?c1 CallError d ?s1))" for d
    using core by (intro head_inv) (simp add: core_update)
  have "tc_id c \<notin> st_call ` set (lo_started s)"
  proof
    assume "tc_id c \<in> st_call ` set (lo_started s)"
    with core obtain y where y: "y \<in> set (all_calls (ch_messages (lo_chat s)))" "tc_id y = tc_id c" "tc_status y \<noteq> CallPending"
      unfolding core_def by fastforce
    have "y = c" using core y(1,2) c(1) unfolding core_def distinct_map by (auto dest: inj_onD)
    with y c show False by simp
  qed
  moreover have "\<exists>y \<in> set (all_calls (ch_messages (lo_chat ?s1))). tc_id y = tc_id c \<and> tc_status y \<noteq> CallPending"
  proof (rule update_call_messages [of CallRunning c None s])
    fix f assume m: "ch_messages (lo_chat ?s1) = map (map_calls f) (ch_messages (lo_chat s))"
      and f: "\<And>x. tc_id (f x) = tc_id x" "\<And>x. \<not> ch_gone (lo_chat s) \<Longrightarrow> tc_id x = tc_id c \<Longrightarrow> tc_status (f x) = CallRunning"
    show ?thesis unfolding m all_calls_map using c(1) f gone by (intro bexI [of _ "f c"]) auto
  qed simp
  ultimately have "loop_inv tools B ((start_tool ?c1 k a ?s1)\<lparr>lo_phase := WaitDecided ?c1 a\<rparr>)" if approve for k a
    using core_start [OF core_update [OF _ core, of CallRunning c None], of "\<lparr>st_call = tc_id c, st_kind = k, st_args = a, st_for = lo_user s\<rparr>"]
      that B(2) by (simp add: loop_inv_def)
  then show ?thesis using refused denied
    by (auto simp: decide_call_def Let_def split: option.splits sum.splits)
qed

section \<open>Every conversation\<close>

definition approved_in :: "assistant \<Rightarrow> conversation \<Rightarrow> string set" where
  "approved_in w r = {c. (cv_id r, cv_user r, c) \<in> set (as_approved w)}"

definition as_inv :: "(string \<Rightarrow> chat_tool option) \<Rightarrow> assistant \<Rightarrow> bool" where
  "as_inv tools w \<longleftrightarrow> distinct (map cv_id (as_rows w)) \<and>
     (\<forall>r \<in> set (as_rows w). loop_inv tools (approved_in w r) (cv_loop r))"

lemma loop_inv_mono: "loop_inv tools A s \<Longrightarrow> A \<subseteq> B \<Longrightarrow> loop_inv tools B s"
  by (auto simp: loop_inv_def intro: core_mono)

text \<open>Rows change one by one, keep their id and their invariant.\<close>

lemma as_inv_map:
  assumes "as_inv tools w" and "as_rows w' = map f (as_rows w)" and "\<And>r. cv_id (f r) = cv_id r" and "\<And>r. cv_user (f r) = cv_user r"
    and "set (as_approved w) \<subseteq> set (as_approved w')"
    and "\<And>r. r \<in> set (as_rows w) \<Longrightarrow> loop_inv tools (approved_in w' r) (cv_loop r) \<Longrightarrow>
       loop_inv tools (approved_in w' r) (cv_loop (f r))"
  shows "as_inv tools w'"
proof -
  have "loop_inv tools (approved_in w' r) (cv_loop r)" if "r \<in> set (as_rows w)" for r
    using assms(1,5) that by (auto simp: as_inv_def approved_in_def intro: loop_inv_mono)
  then show ?thesis using assms(1,3,4,6) unfolding as_inv_def assms(2) by (simp add: comp_def approved_in_def)
qed

lemma gone_inv: "loop_inv tools A s \<Longrightarrow> loop_inv tools A (s\<lparr>lo_chat := (lo_chat s)\<lparr>ch_gone := True\<rparr>\<rparr>)"
  by (auto simp: loop_inv_def core_def no_pending_def queue_ok_def call_ids_def split: loop_phase.splits)

lemma gone_row_simps [simp]: "cv_id (gone_row r) = cv_id r" "cv_user (gone_row r) = cv_user r"
  by (simp_all add: gone_row_def)

lemma gone_loop: "cv_loop (gone_row r) = (cv_loop r)\<lparr>lo_chat := (lo_chat (cv_loop r))\<lparr>ch_gone := True\<rparr>\<rparr>"
  by (simp add: gone_row_def)

lemma loop_inv_fields:
  "lo_chat s' = lo_chat s \<Longrightarrow> lo_started s' = lo_started s \<Longrightarrow> lo_phase s' = lo_phase s \<Longrightarrow>
   loop_inv tools A s' = loop_inv tools A s"
  by (cases "lo_phase s") (simp_all add: loop_inv_def call_ids_def)

lemma start_run_fields [simp]:
  "lo_chat (start_run u n s) = lo_chat s" "lo_started (start_run u n s) = lo_started s"
  "lo_phase (start_run u n s) = lo_phase s" "lo_user (start_run u n s) = u" "lo_max (start_run u n s) = n"
  "lo_aborted (start_run u n s) = False"
  by (simp_all add: start_run_def)

lemma inv_on_row:
  assumes "as_inv tools w" and "\<And>r. cv_id (f r) = cv_id r" and "\<And>r. cv_user (f r) = cv_user r"
    and "\<And>r. r \<in> set (as_rows w) \<Longrightarrow> cv_id r = i \<Longrightarrow> loop_inv tools (approved_in w r) (cv_loop r) \<Longrightarrow>
       loop_inv tools (approved_in w r) (cv_loop (f r))"
  shows "as_inv tools (on_row i f w)"
  by (rule as_inv_map [OF assms(1), where f = "\<lambda>r. if cv_id r = i then f r else r"])
     (use assms in \<open>auto simp: on_row_def approved_in_def\<close>)

lemma inv_prune: "as_inv tools w \<Longrightarrow> as_inv tools (prune_beyond w uid keep)"
  by (rule as_inv_map [of tools w _ "\<lambda>r. if cv_user r = uid \<and> cv_id r \<in> set (map cv_id (drop keep (conv_list w uid))) then gone_row r else r"])
     (auto simp: prune_beyond_def Let_def approved_in_def gone_loop intro: gone_inv)

lemma inv_delete_conv: "as_inv tools w \<Longrightarrow> as_inv tools (snd (conv_delete w uid i))"
  by (rule as_inv_map [of tools w _ "\<lambda>r. if cv_user r = uid \<and> cv_id r = i then gone_row r else r"])
     (auto simp: conv_delete_def approved_in_def gone_loop intro: gone_inv)

lemma loop_inv_aborted: "loop_inv tools A (s\<lparr>lo_aborted := b\<rparr>) = loop_inv tools A s"
  by (rule loop_inv_fields) simp_all

lemma loop_inv_start: "loop_inv tools A (start_run u n s) = loop_inv tools A s"
  by (rule loop_inv_fields) simp_all

lemma inv_runner_stop: "as_inv tools w \<Longrightarrow> as_inv tools (runner_stop w i)"
  unfolding runner_stop_def by (rule inv_on_row) (simp_all add: loop_inv_aborted)

lemma inv_touch: "as_inv tools w \<Longrightarrow> as_inv tools (conv_touch i server now w)"
  unfolding conv_touch_def by (rule inv_on_row) simp_all

lemma conv_find_Some:
  "conv_find w uid i = Some r \<Longrightarrow> r \<in> set (as_rows w) \<and> cv_user r = uid \<and> cv_id r = i \<and> \<not> cv_gone r"
  by (auto simp: conv_find_def find_Some_iff)

lemma as_row_unique: "as_inv tools w \<Longrightarrow> r \<in> set (as_rows w) \<Longrightarrow> x \<in> set (as_rows w) \<Longrightarrow> cv_id x = cv_id r \<Longrightarrow> x = r"
  by (auto simp: as_inv_def distinct_map dest: inj_onD)

lemma idle_inv: "loop_inv tools A (idle_loop u)"
  by (simp add: idle_loop_def loop_inv_def core_def)

lemma inv_open:
  assumes "as_inv tools w" and "i \<notin> cv_id ` set (as_rows w)"
  shows "as_inv tools (open_conv w u content server i now)"
  unfolding open_conv_def
  by (rule inv_prune) (use assms in \<open>auto simp: as_inv_def approved_in_def idle_inv\<close>)

text \<open>A user message goes to a conversation that is idle and where nothing waits.\<close>

lemma inv_deliver:
  assumes inv: "as_inv tools w"
    and idle: "\<And>r. conv_find w (u_id u) i = Some r \<Longrightarrow> \<not> has_pending (ch_messages (lo_chat (cv_loop r)))"
    and m: "cm_calls m = []"
  shows "as_inv tools (snd (deliver env max_steps w u i server m))"
proof (cases "conv_find w (u_id u) i")
  case None
  then show ?thesis using inv by (simp add: deliver_def)
next
  case (Some r0)
  let ?f = "\<lambda>r. r\<lparr>cv_loop := loop_head env (start_run u max_steps ((cv_loop r)\<lparr>lo_chat :=
            (lo_chat (cv_loop r))\<lparr>ch_messages := ch_messages (lo_chat (cv_loop r)) @ [m]\<rparr>\<rparr>))\<rparr>"
  have "as_inv tools (on_row i ?f w)"
  proof (rule inv_on_row [OF inv])
    fix r assume r: "r \<in> set (as_rows w)" "cv_id r = i" and li: "loop_inv tools (approved_in w r) (cv_loop r)"
    have core: "core (approved_in w r) (lo_chat (cv_loop r)) (lo_started (cv_loop r))" using li by (simp add: loop_inv_def)
    have "r = r0" using as_row_unique [OF inv] conv_find_Some [OF Some] r by blast
    then have "no_pending (lo_chat (cv_loop r))" "\<not> cv_gone r"
      using not_has_pending [OF core] idle Some conv_find_Some [OF Some] by auto
    then have "core (approved_in w r) ((lo_chat (cv_loop r))\<lparr>ch_messages := ch_messages (lo_chat (cv_loop r)) @ [m]\<rparr>) (lo_started (cv_loop r))"
      using core by (intro core_insert [OF core, where m = m]) (simp_all add: chat_insert_def m core_def)
    then show "loop_inv tools (approved_in w r) (cv_loop (?f r))"
      by (simp add: head_inv)
  qed simp_all
  then show ?thesis using Some by (simp add: deliver_def inv_touch)
qed

lemma user_message_calls [simp]: "cm_calls (user_message mid content now) = []"
  by (simp add: user_message_def)

lemma open_conv_find:
  assumes "as_inv tools w" and "i \<notin> cv_id ` set (as_rows w)" and "conv_find (open_conv w u content server i now) uid i = Some r"
  shows "ch_messages (lo_chat (cv_loop r)) = []"
proof -
  let ?new = "\<lparr>cv_id = i, cv_user = u_id u, cv_title = title_from content,
        cv_server = server, cv_created = now, cv_updated = now, cv_loop = idle_loop u\<rparr>"
  from conv_find_Some [OF assms(3)] obtain x where "x \<in> set (as_rows w @ [?new])" "r = x \<or> r = gone_row x" "cv_id r = i"
    by (auto simp: open_conv_def prune_beyond_def Let_def split: if_splits)
  with assms(2) have "x = ?new" by auto
  with \<open>r = x \<or> r = gone_row x\<close> show ?thesis by (auto simp: idle_loop_def gone_row_def)
qed

lemma inv_send:
  assumes inv: "as_inv tools w" and new: "i \<notin> cv_id ` set (as_rows w)"
  shows "as_inv tools (snd (conv_send env configured max_steps w u conv content server i mid))"
proof -
  have lim: "as_inv tools (w\<lparr>as_limits := rl\<rparr>)" for rl using inv by (simp add: as_inv_def approved_in_def)
  have find: "conv_find (w\<lparr>as_limits := rl\<rparr>) x y = conv_find w x y" for rl x y by (simp add: conv_find_def)
  have old: "as_inv tools (snd (deliver env max_steps (w\<lparr>as_limits := rl\<rparr>) u c sid (user_message mid content now)))"
    if "assert_can_continue w (u_id u) c = Inr ()" for rl c sid now
    using that conv_find_Some
    by (intro inv_deliver [OF lim]) (fastforce simp: find assert_can_continue_def conv_require_def and_then_Inr_iff chat_list_def assistant_busy_def
        split: if_splits)+
  have "as_inv tools (snd (deliver env max_steps (open_conv (w\<lparr>as_limits := rl\<rparr>) u content sid i now) u i sid (user_message mid content now)))" for rl sid now
    using open_conv_find [OF lim, of i] new
    by (intro inv_deliver inv_open [OF lim]) (simp_all add: has_pending_def)
  then show ?thesis using inv lim old
    by (auto simp: conv_send_def Let_def split: option.splits sum.splits prod.splits)
qed

lemma inv_confirm:
  assumes inv: "as_inv tools w"
  shows "as_inv tools (snd (conv_confirm env max_steps w u i call_id approve))"
proof (cases "\<exists>r c. conv_find w (u_id u) i = Some r \<and> \<not> is_running_conv r
    \<and> find_tool_call (lo_chat (cv_loop r)) call_id = Some c \<and> tc_status c = CallPending")
  case False
  then have "snd (conv_confirm env max_steps w u i call_id approve) = w"
    by (cases "conv_find w (u_id u) i") (auto simp: conv_confirm_def conv_require_def split: option.splits)
  with inv show ?thesis by simp
next
  case True
  then obtain r0 c where r0: "conv_find w (u_id u) i = Some r0" and c: "find_tool_call (lo_chat (cv_loop r0)) call_id = Some c"
    and p: "tc_status c = CallPending" and idle: "\<not> is_running_conv r0" by blast
  then have w': "snd (conv_confirm env max_steps w u i call_id approve) =
      (on_row i (\<lambda>r. r\<lparr>cv_loop := decide_call env c approve (start_run u max_steps (cv_loop r))\<rparr>) w)
        \<lparr>as_approved := as_approved w @ (if approve then [(i, u_id u, call_id)] else [])\<rparr>" (is "_ = ?w'")
    by (simp add: conv_confirm_def conv_require_def)
  have call: "c \<in> set (all_calls (ch_messages (lo_chat (cv_loop r0))))" "tc_id c = call_id"
    using c conv_find_Some [OF r0] by (auto simp: find_tool_call_def find_Some_iff chat_list_def)
  show ?thesis unfolding w'
  proof (rule as_inv_map [OF inv])
    show "as_rows ?w' = map (\<lambda>r. if cv_id r = i then r\<lparr>cv_loop := decide_call env c approve (start_run u max_steps (cv_loop r))\<rparr> else r) (as_rows w)"
      by (simp add: on_row_def)
    fix r assume r: "r \<in> set (as_rows w)" and li: "loop_inv tools (approved_in ?w' r) (cv_loop r)"
    show "loop_inv tools (approved_in ?w' r)
        (cv_loop (if cv_id r = i then r\<lparr>cv_loop := decide_call env c approve (start_run u max_steps (cv_loop r))\<rparr> else r))"
    proof (cases "cv_id r = i")
      case False
      then show ?thesis using li by simp
    next
      case True
      then have "r = r0" using as_row_unique [OF inv] conv_find_Some [OF r0] r by blast
      have "loop_inv tools (approved_in ?w' r) (start_run u max_steps (cv_loop r))"
        using li True by (simp add: loop_inv_start)
      moreover have "approve \<longrightarrow> tc_id c \<in> approved_in ?w' r" using conv_find_Some [OF r0] \<open>r = r0\<close>
        by (simp add: approved_in_def call(2))
      ultimately have "loop_inv tools (approved_in ?w' r) (decide_call env c approve (start_run u max_steps (cv_loop r)))"
        using call(1) p conv_find_Some [OF r0] \<open>r = r0\<close> by (intro decide_inv [OF _ _ _ _ subset_refl]) simp_all
      then show ?thesis using True by simp
    qed
  qed (auto simp: approved_in_def)
qed

lemma inv_answer:
  assumes inv: "as_inv tools w" and env: "fresh_env tools w env"
  shows "as_inv tools (conv_answer env w i ans)"
  unfolding conv_answer_def
  by (rule inv_on_row [OF inv]) (use env in \<open>auto simp: fresh_env_def intro!: step_inv_loop\<close>)

lemma as_inv_remove:
  assumes "as_inv tools w" shows "as_inv tools (snd (conv_remove w u i))"
  using inv_delete_conv [OF inv_runner_stop [OF assms]]
  by (simp add: conv_remove_def split: prod.splits bool.splits) (metis snd_conv)

lemma as_inv_step: "as_step tools w w' \<Longrightarrow> as_inv tools w \<Longrightarrow> as_inv tools w'"
  by (induction rule: as_step.induct)
     (auto simp: inv_send inv_confirm inv_answer as_inv_remove conv_stop_def inv_runner_stop split: sum.splits)

lemma as_inv_start: "as_inv tools as_start"
  by (simp add: as_start_def as_inv_def)

lemma as_inv_reach: "as_reach tools w \<Longrightarrow> as_inv tools w"
  by (induction rule: as_reach.induct) (auto intro: as_inv_step as_inv_start)

section \<open>A run ends\<close>

text \<open>Answers that fit what the loop waits for.\<close>

fun fits :: "loop_answer \<Rightarrow> loop_phase \<Rightarrow> bool" where
  "fits (ModelFailed _ _) p = (case p of WaitModel _ \<Rightarrow> True | _ \<Rightarrow> False)"
| "fits (ModelAnswered _ _) p = (case p of WaitModel _ \<Rightarrow> True | _ \<Rightarrow> False)"
| "fits (PreviewsAnswered _) p = (case p of WaitPreviews _ _ _ \<Rightarrow> True | _ \<Rightarrow> False)"
| "fits (ToolAnswered _) p = (case p of WaitTool _ _ _ \<Rightarrow> True | WaitDecided _ _ \<Rightarrow> True | _ \<Rightarrow> False)"

text \<open>In between, somebody may stop the run or delete the conversation.\<close>

definition disturb :: "bool \<times> bool \<Rightarrow> loop_state \<Rightarrow> loop_state" where
  "disturb d s = s\<lparr>lo_aborted := lo_aborted s \<or> fst d,
     lo_chat := (lo_chat s)\<lparr>ch_gone := ch_gone (lo_chat s) \<or> snd d\<rparr>\<rparr>"

fun drive :: "(nat \<Rightarrow> loop_env) \<Rightarrow> (nat \<Rightarrow> bool \<times> bool) \<Rightarrow> (nat \<Rightarrow> loop_answer) \<Rightarrow> nat \<Rightarrow> loop_state \<Rightarrow> loop_state" where
  "drive envs ds anss 0 s = s"
| "drive envs ds anss (Suc n) s = loop_step (envs n) (anss n) (disturb (ds n) (drive envs ds anss n s))"

definition turns_left :: "loop_state \<Rightarrow> nat" where
  "turns_left s = (if ch_gone (lo_chat s) then 0 else Suc (lo_max s - steps_since_user (ch_messages (lo_chat s))))"

fun phase_rank :: "loop_phase \<Rightarrow> nat" where
  "phase_rank (WaitDecided _ _) = 4"
| "phase_rank (WaitTool _ _ _) = 3"
| "phase_rank (WaitModel _) = 2"
| "phase_rank (WaitPreviews _ _ _) = 1"
| "phase_rank Ended = 0"

fun queued :: "loop_phase \<Rightarrow> nat" where
  "queued (WaitTool _ ps _) = length ps"
| "queued _ = 0"

definition run_measure :: "loop_state \<Rightarrow> nat \<times> nat \<times> nat" where
  "run_measure s = (turns_left s, phase_rank (lo_phase s), queued (lo_phase s))"

definition before :: "((nat \<times> nat \<times> nat) \<times> (nat \<times> nat \<times> nat)) set" where
  "before = less_than <*lex*> less_than <*lex*> less_than"

text \<open>While the model is asked, there is a turn left for it.\<close>

definition turn_open :: "loop_state \<Rightarrow> bool" where
  "turn_open s \<longleftrightarrow> (case lo_phase s of WaitModel _ \<Rightarrow> True | WaitPreviews _ _ _ \<Rightarrow> True | _ \<Rightarrow> False) \<longrightarrow>
     ch_gone (lo_chat s) \<or> steps_since_user (ch_messages (lo_chat s)) < lo_max s"

definition went_on :: "nat \<times> nat \<times> nat \<Rightarrow> loop_state \<Rightarrow> bool" where
  "went_on m s \<longleftrightarrow> turn_open s \<and> (lo_phase s = Ended \<or> (run_measure s, m) \<in> before)"

lemma before_iff:
  "((a, b, c), (a', b', c')) \<in> before \<longleftrightarrow> a < a' \<or> a = a' \<and> (b < b' \<or> b = b' \<and> c < c')"
  by (auto simp: before_def)

lemma steps_map_calls: "steps_since_user (map (map_calls f) ms) = steps_since_user ms"
  by (simp add: steps_since_user_def rev_map takeWhile_map comp_def)

lemma steps_snoc: "cm_role m = RoleAssistant \<Longrightarrow> steps_since_user (ms @ [m]) = Suc (steps_since_user ms)"
  by (simp add: steps_since_user_def)

lemma turns_update [simp]: "turns_left (update_call c st r s) = turns_left s"
  by (simp add: turns_left_def update_call_def Let_def chat_update_call_def steps_map_calls)

lemma turns_finished [simp]: "turns_left (tool_finished env c r s) = turns_left s"
  by (simp add: tool_finished_def Let_def) (simp add: turns_left_def)

lemma turns_started: "turns_left ((start_tool c k a s)\<lparr>lo_phase := p\<rparr>) = turns_left s"
  by (simp add: turns_left_def)

lemma ended_went_on: "lo_phase s = Ended \<Longrightarrow> went_on m s"
  by (simp add: went_on_def turn_open_def)

lemma went_on_cong:
  "lo_chat s' = lo_chat s \<Longrightarrow> lo_max s' = lo_max s \<Longrightarrow> lo_phase s' = lo_phase s \<Longrightarrow> went_on m s' = went_on m s"
  by (simp add: went_on_def turn_open_def run_measure_def turns_left_def)

lemma save_ended:
  assumes "\<And>s1. lo_phase (k s1) = Ended" shows "lo_phase (save_then env mid content er calls k s) = Ended"
  using assms by (simp add: save_then_def Let_def split: sum.splits)

lemma head_went_on:
  assumes "((turns_left s, 2, 0), m) \<in> before"
  shows "went_on m (loop_head env s)"
proof -
  have "lo_phase (loop_head env s) = Ended \<or> loop_head env s = s\<lparr>lo_phase := WaitModel (le_id env 0)\<rparr>
      \<and> steps_since_user (chat_list (lo_chat s)) < lo_max s"
    by (auto simp: loop_head_def Let_def not_le intro: save_ended)
  then show ?thesis
  proof (elim disjE conjE)
    assume e: "loop_head env s = s\<lparr>lo_phase := WaitModel (le_id env 0)\<rparr>"
      and l: "steps_since_user (chat_list (lo_chat s)) < lo_max s"
    show ?thesis unfolding e went_on_def using l assms
      by (simp add: turn_open_def chat_list_def run_measure_def turns_left_def split: if_splits)
  qed (rule ended_went_on)
qed

lemma after_tools_went_on:
  assumes "((turns_left s, 2, 0), m) \<in> before"
  shows "went_on m (after_tools env pend s)"
proof -
  let ?s = "fold (\<lambda>c. emit_event (LConfirm c)) pend s"
  have "turns_left ?s = turns_left s" by (simp add: turns_left_def)
  then have "went_on m (loop_head env ?s)" using assms by (intro head_went_on) simp
  then show ?thesis by (cases pend) (simp_all add: after_tools_def Let_def ended_went_on)
qed

lemma exec_went_on:
  assumes "((turns_left s, 2, 0), m) \<in> before" and "\<And>n. n < k \<Longrightarrow> ((turns_left s, 3, n), m) \<in> before" and "length ps \<le> k"
  shows "went_on m (exec_calls env ps pend s)"
  using assms
proof (induction ps arbitrary: s)
  case Nil
  then show ?case by (simp add: after_tools_went_on)
next
  case (Cons p ps)
  have skip: "went_on m (exec_calls env ps pend s')" if "turns_left s' = turns_left s" for s'
    using Cons.prems that by (intro Cons.IH) simp_all
  have wait: "went_on m ((start_tool (pl_call p) kd args s)\<lparr>lo_phase := WaitTool p ps pend\<rparr>)" for kd args
    using Cons.prems(2) [of "length ps"] Cons.prems(3) by (simp add: went_on_def turn_open_def run_measure_def turns_started)
  show ?case by (auto simp: skip wait split: option.splits)
qed

lemma step_went_on:
  assumes open_: "turn_open s" and f: "fits ans (lo_phase s)"
  shows "went_on (run_measure s) (loop_step env ans s)"
proof (cases ans)
  case (ModelFailed streamed e)
  then obtain mid where "lo_phase s = WaitModel mid" using f by (auto split: loop_phase.splits)
  then show ?thesis by (auto simp: ModelFailed model_failed_def Let_def intro!: ended_went_on save_ended)
next
  case (ModelAnswered content calls)
  then obtain mid where p: "lo_phase s = WaitModel mid" using f by (auto split: loop_phase.splits)
  then show ?thesis using open_
    by (simp add: ModelAnswered model_answered_def went_on_def turn_open_def run_measure_def turns_left_def before_iff)
next
  case (PreviewsAnswered g)
  then obtain mid content ps where p: "lo_phase s = WaitPreviews mid content ps" using f by (auto split: loop_phase.splits)
  let ?ps = "map (plan_preview g) ps" and ?calls = "map pl_call (map (plan_preview g) ps)"
  let ?m = "\<lparr>cm_id = mid, cm_role = RoleAssistant, cm_content = content, cm_error = None, cm_created = le_now env, cm_calls = ?calls\<rparr>"
  show ?thesis
  proof (cases "ch_gone (lo_chat s)")
    case True
    then show ?thesis using p
      by (simp add: PreviewsAnswered previews_answered_def Let_def save_then_def chat_insert_def ended_went_on)
  next
    case False
    let ?s1 = "emit_event (LMessage ?m) (s\<lparr>lo_chat := (lo_chat s)\<lparr>ch_messages := ch_messages (lo_chat s) @ [?m]\<rparr>\<rparr>)"
    have "turns_left ?s1 < turns_left s"
      using open_ False p by (simp add: turn_open_def turns_left_def steps_snoc)
    then have "went_on (run_measure s) (exec_calls env ?ps pend ?s1)" for pend
      by (intro exec_went_on [where k = "length ?ps"]) (simp_all add: run_measure_def before_iff)
    then show ?thesis using p False
      by (simp add: PreviewsAnswered previews_answered_def Let_def save_then_def chat_insert_def ended_went_on del: map_map)
  qed
next
  case (ToolAnswered r)
  show ?thesis
  proof (cases "lo_phase s")
    case (WaitTool p ps pend)
    have "went_on (run_measure s) (exec_calls env ps pend (tool_finished env (pl_call p) r s))"
      using WaitTool by (intro exec_went_on [where k = "length ps"]) (simp_all add: run_measure_def before_iff)
    then show ?thesis using WaitTool by (simp add: ToolAnswered tool_answered_def)
  next
    case (WaitDecided c a)
    have "went_on (run_measure s) (loop_head env (tool_finished env c r s))"
      using WaitDecided by (intro head_went_on) (simp add: run_measure_def before_iff)
    then show ?thesis using WaitDecided by (simp add: ToolAnswered tool_answered_def)
  qed (use f ToolAnswered in simp_all)
qed

lemma disturb_facts:
  "lo_phase (disturb d s) = lo_phase s" "turn_open s \<Longrightarrow> turn_open (disturb d s)"
  "(run_measure (disturb d s), run_measure s) \<in> before \<or> run_measure (disturb d s) = run_measure s"
  by (auto simp: disturb_def turn_open_def run_measure_def turns_left_def before_iff split: loop_phase.splits)

lemma before_trans: "trans before"
  by (auto simp: before_def intro: trans_lex_prod trans_less_than)

lemma before_wf: "wf before"
  by (auto simp: before_def)

text \<open>How a run starts: a message was sent, or the user decided about a call.\<close>

definition begins_run :: "loop_state \<Rightarrow> bool" where
  "begins_run s \<longleftrightarrow> (\<exists>env s0. s = loop_head env s0) \<or> (\<exists>env c b s0. s = decide_call env c b s0)"

lemma head_open: "turn_open (loop_head env s)"
proof -
  let ?m = "(Suc (turns_left s), 0, 0)"
  have "went_on ?m (loop_head env s)" by (rule head_went_on) (simp add: before_iff)
  then show ?thesis by (simp add: went_on_def)
qed

lemma begins_open: "begins_run s \<Longrightarrow> turn_open s"
proof -
  have "turn_open (x\<lparr>lo_phase := WaitDecided c a\<rparr>)" for x c a by (simp add: turn_open_def)
  then have "turn_open (decide_call env c b s0)" for env c b s0
    by (simp add: decide_call_def Let_def head_open split: option.splits sum.splits)
  then show "begins_run s \<Longrightarrow> turn_open s" by (auto simp: begins_run_def head_open)
qed

lemma drive_ends:
  assumes "turn_open s" and "\<And>n. lo_phase (drive envs ds anss n s) \<noteq> Ended \<Longrightarrow> fits (anss n) (lo_phase (drive envs ds anss n s))"
  shows "\<exists>n. lo_phase (drive envs ds anss n s) = Ended"
proof (rule ccontr)
  assume never: "\<nexists>n. lo_phase (drive envs ds anss n s) = Ended"
  have step: "turn_open (drive envs ds anss n s) \<and> (n > 0 \<longrightarrow>
      (run_measure (drive envs ds anss n s), run_measure (drive envs ds anss (n - 1) s)) \<in> before)" for n
  proof (induction n)
    case 0
    then show ?case using assms(1) by simp
  next
    case (Suc n)
    let ?s = "drive envs ds anss n s"
    have "went_on (run_measure (disturb (ds n) ?s)) (drive envs ds anss (Suc n) s)"
      using Suc never assms(2) [of n] by (simp add: step_went_on disturb_facts)
    then have "turn_open (drive envs ds anss (Suc n) s)"
      and "(run_measure (drive envs ds anss (Suc n) s), run_measure (disturb (ds n) ?s)) \<in> before"
      using never by (auto simp: went_on_def simp del: drive.simps)
    then show ?case using disturb_facts(3) [of "ds n" ?s] transD [OF before_trans]
      by (metis diff_Suc_1)
  qed
  have "(run_measure (drive envs ds anss (Suc n) s), run_measure (drive envs ds anss n s)) \<in> before" for n
    using step [of "Suc n"] by simp
  moreover have "\<not> (\<forall>n. (f (Suc n), f n) \<in> before)" for f :: "nat \<Rightarrow> nat \<times> nat \<times> nat"
    using before_wf by (auto simp: wf_iff_no_infinite_down_chain)
  from this [of "\<lambda>n. run_measure (drive envs ds anss n s)"] calculation show False by simp
qed

section \<open>Properties\<close>

text \<open>
  C19: A tool that changes something runs only after the owner of the conversation confirmed that
  very call, and no call runs twice: in every state the assistant can come to, with any
  number of conversations, answers of the model, decisions, stops and deletions in any order.
\<close>

theorem writes_need_approval:
  assumes "as_reach tools w" and "r \<in> set (as_rows w)"
  shows "(\<forall>t \<in> set (lo_started (cv_loop r)). st_kind t = ToolWrite \<longrightarrow>
       (cv_id r, cv_user r, st_call t) \<in> set (as_approved w))
     \<and> distinct (map st_call (lo_started (cv_loop r)))"
proof -
  have "loop_inv tools (approved_in w r) (cv_loop r)" using as_inv_reach [OF assms(1)] assms(2) by (simp add: as_inv_def)
  then show ?thesis by (simp add: loop_inv_def core_def approved_in_def)
qed

text \<open>
  C21: A run ends, whatever the model answers: as long as the answers come (and fit what the loop
  waits for), it reaches its end, also when it is stopped or its conversation deleted on the
  way.  The step limit is what makes this true.
\<close>

theorem assistant_run_ends:
  assumes "begins_run s"
    and "\<forall>n. lo_phase (drive envs ds anss n s) \<noteq> Ended \<longrightarrow> fits (anss n) (lo_phase (drive envs ds anss n s))"
  shows "\<exists>n. lo_phase (drive envs ds anss n s) = Ended"
  using drive_ends [OF begins_open [OF assms(1)]] assms(2) by blast

text \<open>
  C20: What runs after a confirmation is what the user was shown: the arguments of the preview,
  with the access checked again for the account as it is now.
\<close>

theorem confirmed_args_previewed:
  assumes "\<forall>v a. t_parse tool v = Inr a \<longrightarrow> (\<exists>o'. v = JObj o')"
    and "le_tool env (sc_name call) = Some tool" and "le_tool env' = le_tool env"
    and "p = plan_preview f (plan_call env u mid cid call)" and "tc_status (pl_call p) = CallPending"
    and "s' = decide_call env' (pl_call p) True s"
  shows "\<exists>args. pl_args (plan_call env u mid cid call) = Some args \<and> t_kind tool = ToolWrite
     \<and> (if deny_reason (lo_user s) (assistant_tool.truncate tool) args (le_server env') = None
        then lo_started s' = lo_started s @ [\<lparr>st_call = cid, st_kind = ToolWrite, st_args = args, st_for = lo_user s\<rparr>]
        else lo_started s' = lo_started s)"
proof -
  let ?q = "plan_call env u mid cid call"
  have st: "tc_status (pl_call ?q) = CallPending" and same: "tc_name (pl_call p) = tc_name (pl_call ?q)"
    "tc_args (pl_call p) = tc_args (pl_call ?q)" "tc_id (pl_call p) = tc_id (pl_call ?q)"
    using assms(4,5) by (auto simp: plan_preview_def split: sum.splits if_splits)
  from st assms(2) obtain args raw where parsed: "parse_tool_args (le_json env) tool (sc_arguments call) = (Inr args, raw)"
    and q: "?q = \<lparr>pl_call = \<lparr>tc_id = cid, tc_message = mid, tc_name = sc_name call, tc_args = raw,
          tc_status = CallPending, tc_result = None, tc_preview = None\<rparr>, pl_args = Some args\<rparr>" and k: "t_kind tool \<noteq> ToolRead"
    by (auto simp: plan_call_def Let_def split: sum.splits prod.splits option.splits if_splits)
  from parsed assms(1) have "t_parse tool raw = Inr args"
    by (auto simp: parse_tool_args_def raw_object_def split: option.splits sum.splits if_splits)
  moreover have "t_kind tool = ToolWrite" using k by (cases "t_kind tool") simp_all
  moreover have "lo_started (loop_head e x) = lo_started x" for e x
    by (auto simp: loop_head_def save_then_def Let_def split: sum.splits)
  ultimately show ?thesis using assms(2,3) same
    by (auto simp: assms(6) decide_call_def Let_def q split: option.splits)
qed

text \<open>
  Removing a conversation stops its answer before it looks whose it is: somebody else's
  request is refused, but the answer is aborted.
\<close>

theorem foreign_remove_stops_run:
  assumes "r \<in> set (as_rows w)" and "is_running_conv r" and "\<forall>x \<in> set (as_rows w). cv_id x = cv_id r \<longrightarrow> cv_user x \<noteq> u_id u"
  shows "\<exists>w'. conv_remove w u (cv_id r) = (fail NotFound ''Conversation not found'', w')
     \<and> r\<lparr>cv_loop := (cv_loop r)\<lparr>lo_aborted := True\<rparr>\<rparr> \<in> set (as_rows w')"
proof -
  let ?w = "runner_stop w (cv_id r)"
  have rows: "\<exists>y \<in> set (as_rows w). cv_id x = cv_id y \<and> cv_user x = cv_user y" if "x \<in> set (as_rows ?w)" for x
  proof -
    from that obtain y where "y \<in> set (as_rows w)" and "x = (if cv_id y = cv_id r
        then if is_running_conv y then y\<lparr>cv_loop := (cv_loop y)\<lparr>lo_aborted := True\<rparr>\<rparr> else y else y)"
      by (auto simp: runner_stop_def on_row_def)
    then show ?thesis by (intro bexI [of _ y]) (simp_all split: if_splits)
  qed
  then have none: "conv_find ?w (u_id u) (cv_id r) = None" using assms(3) by (fastforce simp: conv_find_def find_None_iff)
  have kept: "map (\<lambda>x. if cv_user x = u_id u \<and> cv_id x = cv_id r then gone_row x else x) (as_rows ?w) = as_rows ?w"
    using rows assms(3) by (intro map_idI) metis
  have "r\<lparr>cv_loop := (cv_loop r)\<lparr>lo_aborted := True\<rparr>\<rparr> \<in> set (as_rows ?w)"
    using assms(1,2) by (force simp: runner_stop_def on_row_def)
  then show ?thesis by (simp add: conv_remove_def conv_delete_def none kept)
qed

section \<open>An example\<close>

text \<open>One write tool that takes any object, an admin, and a conversation in which it is called.\<close>

definition wx_tool :: chat_tool where
  "wx_tool = \<lparr>t_name = ''set'', t_kind = ToolWrite, t_access = ToolServerView, server_scoped = False,
     t_parse = (\<lambda>v. case v of JObj _ \<Rightarrow> Inr v | _ \<Rightarrow> Inl [])\<rparr>"

definition wx_tools :: "string \<Rightarrow> chat_tool option" where
  "wx_tools n = (if n = ''set'' then Some wx_tool else None)"

definition wx_user :: "string \<Rightarrow> user" where
  "wx_user i = \<lparr>u_id = i, u_name = i, u_password = [], u_roles = [], u_grants = [], u_ext = [],
      u_access = \<lparr>acc_levels = [], acc_ext = []\<rparr>, u_restrict = \<lparr>rs_enabled = False, rs_allowed = []\<rparr>,
      is_admin = True, u_oobe = True, u_totp_secret = None, u_totp_enabled = False, u_tg2fa = False, u_primary = None\<rparr>"

definition wx_env :: "char \<Rightarrow> loop_env" where
  "wx_env c = \<lparr>le_tool = wx_tools, le_json = (\<lambda>_. None), le_server = (\<lambda>_. True), le_redact = (\<lambda>t. t),
     le_id = (\<lambda>n. c # replicate n CHR ''i''), le_now = 5\<rparr>"

definition wx1 :: assistant where
  "wx1 = snd (conv_send (wx_env CHR ''a'') True 8 as_start (wx_user ''u'') None ''hi'' None ''c'' ''m'')"
definition wx2 :: assistant where
  "wx2 = conv_answer (wx_env CHR ''b'') wx1 ''c'' (ModelAnswered [] [\<lparr>sc_name = ''set'', sc_arguments = []\<rparr>])"
definition wx3 :: assistant where
  "wx3 = conv_answer (wx_env CHR ''d'') wx2 ''c'' (PreviewsAnswered (\<lambda>_. Inr ''card''))"
definition wx4 :: assistant where
  "wx4 = snd (conv_confirm (wx_env CHR ''e'') 8 wx3 (wx_user ''u'') ''c'' ''bi'' True)"

lemma wx_fresh:
  assumes "\<forall>r \<in> set (as_rows w). c \<notin> hd ` set (call_ids (cv_loop r))" shows "fresh_env wx_tools w (wx_env c)"
  using assms by (auto simp: fresh_env_def wx_env_def inj_def) (metis image_eqI list.sel(1))

lemma wx_facts:
  "map (\<lambda>r. call_ids (cv_loop r)) (as_rows wx1) = [[]]" "map (\<lambda>r. call_ids (cv_loop r)) (as_rows wx2) = [[''bi'']]"
  "map (\<lambda>r. call_ids (cv_loop r)) (as_rows wx3) = [[''bi'']]"
  "map (\<lambda>r. map (\<lambda>t. (st_call t, st_kind t)) (lo_started (cv_loop r))) (as_rows wx4) = [[(''bi'', ToolWrite)]]"
  "map (\<lambda>r. (cv_id r, cv_user r)) (as_rows wx4) = [(''c'', ''u'')]"
  "map (\<lambda>r. (cv_id r, cv_user r, is_running_conv r)) (as_rows wx1) = [(''c'', ''u'', True)]"
  by code_simp+

lemma wx_reach: "as_reach wx_tools wx1" "as_reach wx_tools wx4"
proof -
  show r1: "as_reach wx_tools wx1" unfolding wx1_def
    by (rule as_next [OF as_first as_step.send]) (simp_all add: wx_fresh as_start_def)
  have r2: "as_reach wx_tools wx2" unfolding wx2_def
    by (rule as_next [OF r1 as_step.answer]) (rule wx_fresh, use wx_facts(1) in auto)
  have r3: "as_reach wx_tools wx3" unfolding wx3_def
    by (rule as_next [OF r2 as_step.answer]) (rule wx_fresh, use wx_facts(2) in auto)
  show "as_reach wx_tools wx4" unfolding wx4_def
    by (rule as_next [OF r3 as_step.confirm]) (rule wx_fresh, use wx_facts(3) in auto)
qed

theorem writes_need_approval_witness:
  "as_reach wx_tools wx4 \<and> (\<exists>r \<in> set (as_rows wx4). map st_kind (lo_started (cv_loop r)) = [ToolWrite])
     \<and> (''c'', ''u'', ''bi'') \<in> set (as_approved wx4)"
proof -
  from wx_facts(4,5) obtain r where r: "r \<in> set (as_rows wx4)" "cv_id r = ''c''" "cv_user r = ''u''"
    "map (\<lambda>t. (st_call t, st_kind t)) (lo_started (cv_loop r)) = [(''bi'', ToolWrite)]"
    by (auto simp: map_eq_Cons_conv)
  then obtain t where t: "lo_started (cv_loop r) = [t]" "st_call t = ''bi''" "st_kind t = ToolWrite"
    by (auto simp: map_eq_Cons_conv)
  have "\<exists>r \<in> set (as_rows wx4). map st_kind (lo_started (cv_loop r)) = [ToolWrite]"
    by (rule bexI [OF _ r(1)]) (simp add: t)
  moreover have "(''c'', ''u'', ''bi'') \<in> set (as_approved wx4)"
    using writes_need_approval [OF wx_reach(2) r(1)] r(2,3) t by simp
  ultimately show ?thesis using wx_reach(2) by simp
qed

lemma ended_stays:
  "lo_phase s = Ended \<Longrightarrow> lo_phase (loop_step env a (disturb d s)) = Ended"
  by (cases a) (simp_all add: disturb_facts model_failed_def model_answered_def previews_answered_def tool_answered_def)

definition wx_answers :: "nat \<Rightarrow> loop_answer" where
  "wx_answers n = (if n = 0 then ModelAnswered ''hello'' [] else PreviewsAnswered (\<lambda>_. Inr []))"

theorem assistant_run_ends_witness:
  "\<exists>n. lo_phase (drive (\<lambda>_. wx_env CHR ''b'') (\<lambda>_. (False, False)) wx_answers n
     (loop_head (wx_env CHR ''a'') (start_run (wx_user ''u'') 1 (idle_loop (wx_user ''u''))))) = Ended"
proof (rule assistant_run_ends)
  let ?s = "loop_head (wx_env CHR ''a'') (start_run (wx_user ''u'') 1 (idle_loop (wx_user ''u'')))"
  let ?d = "\<lambda>n. drive (\<lambda>_. wx_env CHR ''b'') (\<lambda>_. (False, False)) wx_answers n ?s"
  show "begins_run ?s" by (auto simp: begins_run_def)
  have first: "fits (wx_answers 0) (lo_phase (?d 0))" "fits (wx_answers 1) (lo_phase (?d 1))" "lo_phase (?d 2) = Ended"
    by code_simp+
  have "lo_phase (?d (2 + k)) = Ended" for k
    by (induction k) (use first(3) ended_stays in \<open>simp_all add: numeral_2_eq_2\<close>)
  then have "lo_phase (?d n) = Ended" if "2 \<le> n" for n using that by (metis le_Suc_ex)
  moreover have "n = 0 \<or> n = 1 \<or> 2 \<le> n" for n :: nat by arith
  ultimately show "\<forall>n. lo_phase (?d n) \<noteq> Ended \<longrightarrow> fits (wx_answers n) (lo_phase (?d n))"
    using first(1,2) by metis
qed

theorem confirmed_args_previewed_witness:
  "\<exists>s'. s' = decide_call (wx_env CHR ''e'') (pl_call (plan_preview (\<lambda>_. Inr ''card'')
        (plan_call (wx_env CHR ''b'') (wx_user ''u'') ''m'' ''x'' \<lparr>sc_name = ''set'', sc_arguments = []\<rparr>))) True (idle_loop (wx_user ''u''))
     \<and> lo_started s' = [\<lparr>st_call = ''x'', st_kind = ToolWrite, st_args = JObj [], st_for = wx_user ''u''\<rparr>]"
proof -
  let ?q = "plan_call (wx_env CHR ''b'') (wx_user ''u'') ''m'' ''x'' \<lparr>sc_name = ''set'', sc_arguments = []\<rparr>"
  let ?p = "plan_preview (\<lambda>_. Inr ''card'') ?q"
  have a: "\<forall>v a. t_parse wx_tool v = Inr a \<longrightarrow> (\<exists>o'. v = JObj o')" by (simp add: wx_tool_def split: jsval.splits)
  have t: "le_tool (wx_env CHR ''b'') (sc_name \<lparr>sc_name = ''set'', sc_arguments = []\<rparr>) = Some wx_tool"
    by (simp add: wx_env_def wx_tools_def)
  have p: "tc_status (pl_call ?p) = CallPending" "pl_args ?q = Some (JObj [])" by code_simp+
  have d: "deny_reason (wx_user ''u'') (assistant_tool.truncate wx_tool) (JObj []) (le_server (wx_env CHR ''e'')) = None" by code_simp
  from confirmed_args_previewed [OF a t _ refl p(1) refl, of "wx_env CHR ''e''" "idle_loop (wx_user ''u'')"] p(2) d
  show ?thesis by (auto simp: wx_env_def idle_loop_def)
qed

theorem foreign_remove_stops_run_witness:
  "\<exists>w' r. conv_remove wx1 (wx_user ''v'') ''c'' = (fail NotFound ''Conversation not found'', w')
     \<and> r \<in> set (as_rows w') \<and> lo_aborted (cv_loop r)"
proof -
  from wx_facts(6) obtain r where r: "as_rows wx1 = [r]" "cv_id r = ''c''" "cv_user r = ''u''" "is_running_conv r"
    by (auto simp: map_eq_Cons_conv)
  have o: "\<forall>x \<in> set (as_rows wx1). cv_id x = cv_id r \<longrightarrow> cv_user x \<noteq> u_id (wx_user ''v'')"
    using r by (simp add: wx_user_def)
  from foreign_remove_stops_run [OF _ r(4) o] r show ?thesis by fastforce
qed

end
