(* ===== verification/Launch_Args.thy ===== *)
theory Launch_Args
  imports Server_Dates Values
begin

text \<open>
  The launch command of a server: \<open>server-types/launch-args.ts\<close>, \<open>blueprint-resolver.service.ts\<close>
  and the native part of \<open>instances/launch-command-builder.ts\<close>.

  A blueprint brings a command template; placeholders in it are replaced by the values of its
  variables and ports, and the result runs through a shell.  \<open>Number\<close> of a value that is not a number,
  \<open>path.resolve\<close> and the Java installations are arguments; numbers are integers.
\<close>

section \<open>Values as text\<close>

text \<open>\<open>String(v)\<close>; an array is joined with commas, \<open>null\<close> and \<open>undefined\<close> in it are empty.\<close>

fun js_text :: "jsval \<Rightarrow> string" where
  "js_text JUndef = ''undefined''"
| "js_text JNull = ''null''"
| "js_text (JBool b) = (if b then ''true'' else ''false'')"
| "js_text (JNum n) = int_text n"
| "js_text (JStr s) = s"
| "js_text (JArr vs) = join '','' (map (\<lambda>v. if v = JUndef \<or> v = JNull then [] else js_text v) vs)"
| "js_text (JObj m) = ''[object Object]''"

definition nullish :: "jsval \<Rightarrow> bool" where
  "nullish v \<longleftrightarrow> v = JUndef \<or> v = JNull"

text \<open>\<open>a ?? b\<close>.\<close>

definition coalesce :: "jsval \<Rightarrow> jsval \<Rightarrow> jsval" where
  "coalesce a b = (if nullish a then b else a)"

text \<open>Reading \<open>scope[key]\<close>; keys are not names of \<open>Object.prototype\<close>.\<close>

type_synonym scope = "(string, jsval) jsmap"

definition in_scope :: "scope \<Rightarrow> string \<Rightarrow> jsval" where
  "in_scope sc k = (case jget sc k of None \<Rightarrow> JUndef | Some v \<Rightarrow> v)"

section \<open>Templates\<close>

definition is_word :: "char \<Rightarrow> bool" where
  "is_word c = (let n = (of_char c :: nat) in
     48 \<le> n \<and> n \<le> 57 \<or> 65 \<le> n \<and> n \<le> 90 \<or> 97 \<le> n \<and> n \<le> 122 \<or> n = 95)"

definition key_char :: "char \<Rightarrow> bool" where
  "key_char c \<longleftrightarrow> is_word c \<or> c = CHR ''.''"

text \<open>The pattern of a placeholder at the start of a text: its key and what follows.\<close>

definition placeholder :: "string \<Rightarrow> (string \<times> string) option" where
  "placeholder s =
     (let a = dropWhile is_space (drop 2 s);
          k = takeWhile key_char a;
          b = dropWhile is_space (dropWhile key_char a) in
      if take 2 s = ''{{'' \<and> k \<noteq> [] \<and> take 2 b = ''}}'' then Some (k, drop 2 b) else None)"

datatype piece = Lit char | Hole string

lemma placeholder_shorter: "placeholder s = Some (k, r) \<Longrightarrow> length r < length s"
proof -
  assume p: "placeholder s = Some (k, r)"
  let ?a = "dropWhile is_space (drop 2 s)" and ?b = "dropWhile is_space (dropWhile key_char (dropWhile is_space (drop 2 s)))"
  have r: "r = drop 2 ?b" and t: "take 2 s = ''{{''" and b: "take 2 ?b = ''}}''"
    using p by (auto simp: placeholder_def Let_def split: if_splits)
  have "length ?b \<le> length s - 2"
    using length_dropWhile_le [of is_space "dropWhile key_char ?a"] length_dropWhile_le [of key_char ?a]
      length_dropWhile_le [of is_space "drop 2 s"] by simp
  moreover have "s \<noteq> []" using t by auto
  ultimately show ?thesis using r by (cases s) auto
qed

text \<open>\<open>template.replace(PLACEHOLDER, ...)\<close> and \<open>matchAll\<close> see the same pieces, left to right.\<close>

function pieces :: "string \<Rightarrow> piece list" where
  "pieces [] = []"
| "pieces (c # cs) =
     (case placeholder (c # cs) of
        Some (k, rest) \<Rightarrow> Hole k # pieces rest
      | None \<Rightarrow> Lit c # pieces cs)"
  by pat_completeness auto
termination by (relation "measure length") (auto dest: placeholder_shorter)

definition hole_text :: "scope \<Rightarrow> string \<Rightarrow> string" where
  "hole_text sc k = (let v = in_scope sc k in if v = JUndef then [] else js_text v)"

definition piece_text :: "scope \<Rightarrow> piece \<Rightarrow> string" where
  "piece_text sc p = (case p of Lit c \<Rightarrow> [c] | Hole k \<Rightarrow> hole_text sc k)"

definition substitute :: "string \<Rightarrow> scope \<Rightarrow> string" where
  "substitute template sc = concat (map (piece_text sc) (pieces template))"

definition template_keys :: "string \<Rightarrow> string list" where
  "template_keys t = concat (map (\<lambda>p. case p of Lit c \<Rightarrow> [] | Hole k \<Rightarrow> [k]) (pieces t))"

section \<open>Values the shell must not see (launch-args.ts)\<close>

definition control_code :: "char \<Rightarrow> bool" where
  "control_code c \<longleftrightarrow> (of_char c :: nat) < 32 \<or> (of_char c :: nat) = 127"

definition shell_meta :: "char \<Rightarrow> bool" where
  "shell_meta c \<longleftrightarrow> c \<in> set '';|&$`<>()''"

abbreviation DQ :: char where "DQ \<equiv> CHR 0x22"
abbreviation SQ :: char where "SQ \<equiv> CHR 0x27"
abbreviation BS :: char where "BS \<equiv> CHR 0x5C"

text \<open>\<open>-XX:\+?On(Error|OutOfMemoryError)\b\<close>, in any case, at the start of a text.\<close>

definition ends_word :: "string \<Rightarrow> bool" where
  "ends_word s \<longleftrightarrow> s = [] \<or> \<not> is_word (hd s)"

definition hook_at :: "string \<Rightarrow> bool" where
  "hook_at s =
     (let t = to_lower s; a = drop 4 t; b = (if take 1 a = ''+'' then drop 1 a else a); c = drop 2 b in
      take 4 t = ''-xx:'' \<and> take 2 b = ''on'' \<and>
      (take 5 c = ''error'' \<and> ends_word (drop 5 c) \<or>
       take 16 c = ''outofmemoryerror'' \<and> ends_word (drop 16 c)))"

fun hook_from :: "bool \<Rightarrow> string \<Rightarrow> bool" where
  "hook_from ok s = (ok \<and> hook_at s \<or>
     (case s of [] \<Rightarrow> False | c # cs \<Rightarrow> hook_from (is_space c \<or> c = DQ \<or> c = SQ) cs))"

definition jvm_command_hook :: "string \<Rightarrow> bool" where
  "jvm_command_hook s = hook_from True s"

text \<open>The quote that is open after a text, from the quote that was open before it.\<close>

function quote_after :: "char option \<Rightarrow> string \<Rightarrow> char option" where
  "quote_after q [] = q"
| "quote_after q (c # cs) =
     (if q = Some SQ then quote_after (if c = SQ then None else q) cs
      else if c = BS \<and> cs \<noteq> [] \<and> hd cs = DQ then quote_after q (tl cs)
      else if q = Some DQ then quote_after (if c = DQ then None else q) cs
      else if c = DQ \<or> c = SQ then quote_after (Some c) cs
      else quote_after q cs)"
  by pat_completeness auto
termination by (relation "measure (\<lambda>(q, s). length s)") auto

definition quotes_balanced :: "string \<Rightarrow> bool" where
  "quotes_balanced s \<longleftrightarrow> quote_after None s = None"

definition unsafe_launch_reason :: "string \<Rightarrow> string option" where
  "unsafe_launch_reason s =
     (if list_ex control_code s then Some ''control characters are not allowed''
      else case List.find shell_meta s of
        Some c \<Rightarrow> Some (''character '' @ [DQ, c, DQ] @ '' is not allowed'')
      | None \<Rightarrow>
          if jvm_command_hook s then Some ''-XX:OnError and -XX:OnOutOfMemoryError are not allowed''
          else if \<not> quotes_balanced s then Some ''quotes are not balanced''
          else None)"

section \<open>Blueprints\<close>

datatype variable_type = VtString | VtNumber | VtBoolean | VtEnum

record blueprint_variable =
  bv_key :: string
  bv_type :: variable_type
  bv_default :: jsval
  bv_rules :: "string option"
  bv_versions :: bool

datatype port_protocol = Tcp | Udp | TcpUdp

record blueprint_port =
  bp_key :: string
  bp_default :: int
  bp_env :: "string option"
  bp_primary :: bool
  bp_protocol :: port_protocol

record stop_spec =
  sp_type :: string
  sp_value :: string

record blueprint_startup =
  su_command :: "string option"
  su_platforms :: "(string, string) jsmap"
  su_stop :: "stop_spec option"

record docker_profile =
  dp_stop :: "stop_spec option"

record blueprint =
  bl_variables :: "blueprint_variable list"
  bl_ports :: "blueprint_port list"
  bl_startup :: "blueprint_startup option"
  bl_docker :: "docker_profile option"

definition startup_templates :: "blueprint \<Rightarrow> string list" where
  "startup_templates bp =
     (case bl_startup bp of None \<Rightarrow> []
      | Some su \<Rightarrow> (case su_command su of None \<Rightarrow> [] | Some c \<Rightarrow> [c]) @ map snd (su_platforms su))"

definition declared_keys :: "blueprint \<Rightarrow> string list" where
  "declared_keys bp = map bv_key (bl_variables bp) @ map bp_key (bl_ports bp)"

definition launch_variable_keys :: "blueprint \<Rightarrow> string list" where
  "launch_variable_keys bp =
     (let used = concat (map template_keys (startup_templates bp)) in
      filter (\<lambda>k. k \<in> set used) (declared_keys bp))"

text \<open>The first variable with an unsafe value, with the reason; only strings are looked at.\<close>

fun first_unsafe :: "scope \<Rightarrow> string list \<Rightarrow> (string \<times> string) option" where
  "first_unsafe vars [] = None"
| "first_unsafe vars (k # ks) =
     (case in_scope vars k of
        JStr s \<Rightarrow> (case unsafe_launch_reason s of Some r \<Rightarrow> Some (k, r) | None \<Rightarrow> first_unsafe vars ks)
      | _ \<Rightarrow> first_unsafe vars ks)"

definition unsafe_message :: "string \<times> string \<Rightarrow> string" where
  "unsafe_message e = ''Variable '' @ fst e @ '' can''@ [SQ] @ ''t be used in the launch command: '' @ snd e"

definition assert_launch_variables_safe :: "blueprint \<Rightarrow> scope \<Rightarrow> unit result" where
  "assert_launch_variables_safe bp vars =
     (case first_unsafe vars (launch_variable_keys bp) of
        None \<Rightarrow> Inr ()
      | Some e \<Rightarrow> fail Internal (unsafe_message e))"

definition assert_safe_for_request :: "blueprint \<Rightarrow> scope \<Rightarrow> unit result" where
  "assert_safe_for_request bp vars =
     (case first_unsafe vars (launch_variable_keys bp) of
        None \<Rightarrow> Inr ()
      | Some e \<Rightarrow> fail_code BadRequest ''UNSAFE_LAUNCH_ARGUMENT'' (unsafe_message e))"

end
