(* ===== verification/Launch_Command.thy ===== *)
theory Launch_Command
  imports Launch_Args
begin

text \<open>
  From a blueprint and the variables of a server to its launch command:
  \<open>blueprint-resolver.service.ts\<close>, \<open>instances/launch-command-builder.ts\<close> and the checks an imported
  archive goes through in \<open>servers/server-transfer.ts\<close>.
\<close>

section \<open>What the panel adds\<close>

text \<open>
  The host: \<open>process.platform\<close>, the ids of its user, \<open>path.resolve\<close>, \<open>Number(v)\<close> (\<open>None\<close> is \<open>NaN\<close>) and
  the Java installations.
\<close>

record host =
  ho_platform :: string
  ho_uid :: jsval
  ho_gid :: jsval
  ho_resolve :: "string \<Rightarrow> string"
  ho_number :: "jsval \<Rightarrow> int option"
  ho_java_binary :: "string \<Rightarrow> string option"
  ho_managed_java :: "string \<Rightarrow> string option"

section \<open>The scope (blueprint-resolver.service.ts)\<close>

definition java_tags :: "int list" where
  "java_tags = [8, 11, 16, 17, 21, 25]"

definition java_image_tag :: "host \<Rightarrow> jsval \<Rightarrow> string option" where
  "java_image_tag ho v =
     (case ho_number ho v of
        None \<Rightarrow> None
      | Some n \<Rightarrow> Some (''java'' @ int_text
          (if n \<in> set java_tags then n
           else (case List.find (\<lambda>t. n \<le> t) java_tags of Some t \<Rightarrow> t | None \<Rightarrow> 25))))"

definition put_variable :: "scope \<Rightarrow> blueprint_variable \<Rightarrow> scope \<Rightarrow> scope" where
  "put_variable vars v sc =
     jset sc (bv_key v) (coalesce (coalesce (in_scope vars (bv_key v)) (bv_default v)) (JStr []))"

definition put_port :: "scope \<Rightarrow> blueprint_port \<Rightarrow> scope \<Rightarrow> scope" where
  "put_port vars p sc =
     (let x = coalesce (coalesce (in_scope vars (bp_key p)) (in_scope sc (bp_key p))) (JNum (bp_default p));
          sc1 = jset sc (bp_key p) x in
      case bp_env p of None \<Rightarrow> sc1 | Some e \<Rightarrow> if e = [] then sc1 else jset sc1 e x)"

definition primary_port :: "blueprint \<Rightarrow> blueprint_port option" where
  "primary_port bp =
     (case List.find bp_primary (bl_ports bp) of
        Some p \<Rightarrow> Some p
      | None \<Rightarrow> (case bl_ports bp of [] \<Rightarrow> None | p # _ \<Rightarrow> Some p))"

text \<open>\<open>sid\<close> and \<open>name\<close> are empty when they are not given.\<close>

definition put_panel :: "host \<Rightarrow> blueprint \<Rightarrow> string \<Rightarrow> string \<Rightarrow> scope \<Rightarrow> scope" where
  "put_panel ho bp sid name sc =
     (let sc1 = (if sid = [] then sc
                 else jset (jset sc ''SERVER_ID'' (JStr sid)) ''SERVER_DIR'' (JStr (ho_resolve ho (''./servers/'' @ sid))));
          sc2 = (if name = [] then sc1 else jset sc1 ''SERVER_NAME'' (JStr name));
          sc3 = (case primary_port bp of None \<Rightarrow> sc2
                 | Some p \<Rightarrow> jset sc2 ''SERVER_PORT'' (coalesce (in_scope sc2 (bp_key p)) (JNum (bp_default p))));
          sc4 = jset sc3 ''HOST_OS'' (JStr (ho_platform ho));
          sc5 = jset sc4 ''EXE_SUFFIX'' (JStr (if ho_platform ho = ''win32'' then ''.exe'' else []));
          sc6 = jset (jset sc5 ''HOST_UID'' (ho_uid ho)) ''HOST_GID'' (ho_gid ho) in
      case java_image_tag ho (in_scope sc6 ''JAVA_VERSION'') of
        None \<Rightarrow> sc6
      | Some tag \<Rightarrow> jset sc6 ''JAVA_IMAGE_TAG'' (JStr tag))"

definition build_scope :: "host \<Rightarrow> blueprint \<Rightarrow> string \<Rightarrow> string \<Rightarrow> scope \<Rightarrow> scope" where
  "build_scope ho bp sid name vars =
     put_panel ho bp sid name
       (fold (put_port vars) (bl_ports bp) (fold (put_variable vars) (bl_variables bp) []))"

section \<open>Checking variables\<close>

definition parse_rules :: "string option \<Rightarrow> string list" where
  "parse_rules rules =
     (case rules of None \<Rightarrow> []
      | Some r \<Rightarrow> if r = [] then [] else filter (\<lambda>x. x \<noteq> []) (map trim (split_on CHR ''|'' r)))"

definition coerce_variable :: "host \<Rightarrow> blueprint_variable \<Rightarrow> jsval \<Rightarrow> jsval result" where
  "coerce_variable ho v x =
     (case bv_type v of
        VtNumber \<Rightarrow>
          (case ho_number ho x of
             None \<Rightarrow> fail BadRequest (''Variable '' @ bv_key v @ '' must be a number'')
           | Some n \<Rightarrow> Inr (JNum n))
      | VtBoolean \<Rightarrow> Inr (JBool (x = JBool True \<or> x = JStr ''true''))
      | _ \<Rightarrow> Inr (JStr (js_text x)))"

definition is_web_url :: "string \<Rightarrow> bool" where
  "is_web_url s \<longleftrightarrow> take 7 s = ''http://'' \<or> take 8 s = ''https://''"

definition enforce_rule :: "host \<Rightarrow> blueprint_variable \<Rightarrow> jsval \<Rightarrow> string \<Rightarrow> unit result" where
  "enforce_rule ho v x rule =
     (let parts = split_on CHR '':'' rule; name = hd parts;
          arg = (case parts of _ # a # _ \<Rightarrow> JStr a | _ \<Rightarrow> JUndef);
          refuse = (\<lambda>t. fail BadRequest (''Variable '' @ bv_key v @ '' must be '' @ t)) in
      case (x, ho_number ho arg) of
        (JNum n, Some m) \<Rightarrow>
          if name = ''min'' \<and> n < m then refuse (''>= '' @ js_text arg)
          else if name = ''max'' \<and> n > m then refuse (''<= '' @ js_text arg)
          else if name = ''accepted'' then refuse ''accepted''
          else if name = ''url'' \<and> \<not> is_web_url (js_text x) then refuse ''a URL''
          else Inr ()
      | _ \<Rightarrow>
          if name = ''accepted'' \<and> x \<noteq> JBool True then refuse ''accepted''
          else if name = ''url'' \<and> \<not> is_web_url (js_text x) then refuse ''a URL''
          else Inr ())"

fun enforce_rules :: "host \<Rightarrow> blueprint_variable \<Rightarrow> jsval \<Rightarrow> string list \<Rightarrow> unit result" where
  "enforce_rules ho v x [] = Inr ()"
| "enforce_rules ho v x (r # rs) = and_then (enforce_rule ho v x r) (\<lambda>_. enforce_rules ho v x rs)"

fun validate_list :: "host \<Rightarrow> scope \<Rightarrow> blueprint_variable list \<Rightarrow> scope \<Rightarrow> scope result" where
  "validate_list ho input [] acc = Inr acc"
| "validate_list ho input (v # vs) acc =
     (let x = coalesce (in_scope input (bv_key v)) (bv_default v) in
      if x = JUndef
      then (if ''required'' \<in> set (parse_rules (bv_rules v))
            then fail BadRequest (''Variable '' @ bv_key v @ '' is required'')
            else validate_list ho input vs acc)
      else and_then (coerce_variable ho v x) (\<lambda>y.
        and_then (enforce_rules ho v y (parse_rules (bv_rules v))) (\<lambda>_.
          validate_list ho input vs (jset acc (bv_key v) y))))"

fun validate_ports :: "host \<Rightarrow> scope \<Rightarrow> blueprint_port list \<Rightarrow> scope \<Rightarrow> scope result" where
  "validate_ports ho input [] acc = Inr acc"
| "validate_ports ho input (p # ps) acc =
     (let raw = in_scope input (bp_key p) in
      case (if raw = JUndef then Some (bp_default p) else ho_number ho raw) of
        None \<Rightarrow> fail BadRequest (''Port '' @ bp_key p @ '' must be a number'')
      | Some n \<Rightarrow> validate_ports ho input ps (jset acc (bp_key p) (JNum n)))"

definition keep_java_path :: "scope \<Rightarrow> scope \<Rightarrow> scope" where
  "keep_java_path input acc =
     (case in_scope input ''JAVA_PATH'' of
        JStr s \<Rightarrow> if trim s = [] then acc else jset acc ''JAVA_PATH'' (JStr (trim s))
      | _ \<Rightarrow> acc)"

definition validate_variables :: "host \<Rightarrow> blueprint \<Rightarrow> scope \<Rightarrow> scope result" where
  "validate_variables ho bp input =
     and_then (validate_list ho input (bl_variables bp) []) (\<lambda>r1.
       and_then (validate_ports ho input (bl_ports bp) r1) (\<lambda>r2.
         let r = keep_java_path input r2 in
         and_then (assert_safe_for_request bp r) (\<lambda>_. Inr r)))"

definition java_version :: "blueprint \<Rightarrow> scope \<Rightarrow> string option" where
  "java_version bp sc =
     (case List.find (\<lambda>v. bv_key v = ''JAVA_VERSION'') (bl_variables bp) of
        None \<Rightarrow> None
      | Some v \<Rightarrow> Some (js_text (coalesce (coalesce (in_scope sc ''JAVA_VERSION'') (bv_default v)) (JNum 21))))"

section \<open>The command (launch-command-builder.ts)\<close>

definition startup_command :: "host \<Rightarrow> blueprint \<Rightarrow> string option" where
  "startup_command ho bp =
     (case bl_startup bp of None \<Rightarrow> None
      | Some su \<Rightarrow> (case jget (su_platforms su) (ho_platform ho) of Some c \<Rightarrow> Some c | None \<Rightarrow> su_command su))"

definition put_java :: "host \<Rightarrow> blueprint \<Rightarrow> scope \<Rightarrow> scope \<Rightarrow> scope result" where
  "put_java ho bp vars sc =
     (let managed =
            (case java_version bp sc of
               None \<Rightarrow> Inr sc
             | Some version \<Rightarrow>
                 if version = [] then Inr sc
                 else (case ho_managed_java ho version of
                     None \<Rightarrow> fail Internal (''Managed Java '' @ version @ '' is not installed'')
                   | Some p \<Rightarrow> Inr (jset sc ''JAVA_BIN'' (JStr (ho_resolve ho p))))) in
      case in_scope vars ''JAVA_PATH'' of
        JStr s \<Rightarrow>
          if trim s = [] then managed
          else (case ho_java_binary ho (trim s) of
              None \<Rightarrow> fail Internal (''No java binary found at '' @ trim s)
            | Some p \<Rightarrow> Inr (jset sc ''JAVA_BIN'' (JStr (ho_resolve ho p))))
      | _ \<Rightarrow> managed)"

definition native_command :: "host \<Rightarrow> blueprint \<Rightarrow> string \<Rightarrow> scope \<Rightarrow> scope \<Rightarrow> string result" where
  "native_command ho bp sid vars sc =
     (case startup_command ho bp of
        None \<Rightarrow> fail Internal (''Server '' @ sid @ '' has no blueprint launch command'')
      | Some command \<Rightarrow>
          if command = [] then fail Internal (''Server '' @ sid @ '' has no blueprint launch command'')
          else and_then (put_java ho bp vars sc) (\<lambda>sc1.
            and_then (assert_launch_variables_safe bp vars) (\<lambda>_. Inr (substitute command sc1))))"

text \<open>A launch reads the stored variables anew.\<close>

definition launch_command :: "host \<Rightarrow> blueprint \<Rightarrow> string \<Rightarrow> string \<Rightarrow> scope \<Rightarrow> string result" where
  "launch_command ho bp sid name vars = native_command ho bp sid vars (build_scope ho bp sid name vars)"

datatype stop_method = StopCommand string | StopSignal string

definition launch_stop_method :: "blueprint \<Rightarrow> bool \<Rightarrow> stop_method" where
  "launch_stop_method bp docker =
     (let own = (case bl_startup bp of None \<Rightarrow> None | Some su \<Rightarrow> su_stop su);
          stop = (case (if docker then (case bl_docker bp of None \<Rightarrow> None | Some d \<Rightarrow> dp_stop d) else None) of
                    Some s \<Rightarrow> Some s | None \<Rightarrow> own) in
      case stop of
        None \<Rightarrow> StopSignal ''SIGKILL''
      | Some s \<Rightarrow>
          if sp_type s = ''command'' then StopCommand (sp_value s)
          else if take 7 (sp_type s) = ''signal:'' then StopSignal (split_on CHR '':'' (sp_type s) ! 1)
          else StopSignal ''SIGKILL'')"

text \<open>The variables an imported archive brings; \<open>bp\<close> is its blueprint when the panel has it.\<close>

definition import_variables :: "blueprint option \<Rightarrow> scope \<Rightarrow> scope result" where
  "import_variables bp manifest_vars =
     (let vars = jdel manifest_vars ''JAVA_PATH'' in
      case bp of
        None \<Rightarrow> Inr vars
      | Some b \<Rightarrow> and_then (assert_safe_for_request b vars) (\<lambda>_. Inr vars))"

end
