(* ===== verification/Launch_Properties.thy ===== *)
theory Launch_Properties
  imports Launch_Command
begin

text \<open>
  What may reach the shell that runs a launch command, with values that went through
  \<open>validate_variables\<close> and with values that did not.
\<close>

section \<open>Text of scalars\<close>

definition scalar :: "jsval \<Rightarrow> bool" where
  "scalar v \<longleftrightarrow> (case v of JStr _ \<Rightarrow> True | JNum _ \<Rightarrow> True | JBool _ \<Rightarrow> True | _ \<Rightarrow> False)"

definition unsafe_char :: "char \<Rightarrow> bool" where
  "unsafe_char c \<longleftrightarrow> control_code c \<or> shell_meta c"

lemma digit_plain: "is_digit c \<Longrightarrow> \<not> unsafe_char c"
  by (auto simp: unsafe_char_def control_code_def is_digit_def shell_meta_def)

lemma int_text_plain: "c \<in> set (int_text n) \<Longrightarrow> \<not> unsafe_char c"
proof -
  assume c: "c \<in> set (int_text n)"
  have "\<not> unsafe_char (CHR ''-'')" by code_simp
  then show ?thesis using c digit_plain digits_digits unfolding int_text_def
    by (auto simp: list_all_iff split: if_splits)
qed

lemma bool_text_plain: "c \<in> set (js_text (JBool b)) \<Longrightarrow> \<not> unsafe_char c"
proof -
  have "list_all (\<lambda>c. \<not> unsafe_char c) (''true'' @ ''false'')" by code_simp
  then show "c \<in> set (js_text (JBool b)) \<Longrightarrow> \<not> unsafe_char c" by (auto simp: list_all_iff split: if_splits)
qed

lemma safe_string_plain:
  assumes "unsafe_launch_reason s = None" and "c \<in> set s"
  shows "\<not> unsafe_char c"
  using assms by (auto simp: unsafe_launch_reason_def unsafe_char_def list_ex_iff find_None_iff
      split: if_splits option.splits)

section \<open>Pieces\<close>

lemma substitute_chars:
  "c \<in> set (substitute t sc) \<longleftrightarrow>
     Lit c \<in> set (pieces t) \<or> (\<exists>k. Hole k \<in> set (pieces t) \<and> c \<in> set (hole_text sc k))"
proof -
  have "c \<in> set (concat (map (piece_text sc) ps)) \<longleftrightarrow>
      Lit c \<in> set ps \<or> (\<exists>k. Hole k \<in> set ps \<and> c \<in> set (hole_text sc k))" for ps
    by (induction ps) (auto simp: piece_text_def split: piece.splits)
  then show ?thesis by (simp add: substitute_def)
qed

lemma template_keys_iff: "k \<in> set (template_keys t) \<longleftrightarrow> Hole k \<in> set (pieces t)"
  by (force simp: template_keys_def split: piece.splits)

lemma startup_command_listed: "startup_command ho bp = Some c \<Longrightarrow> c \<in> set (startup_templates bp)"
  by (force simp: startup_command_def startup_templates_def dest: map_of_SomeD split: option.splits)

lemma first_unsafe_None:
  "first_unsafe vars ks = None \<Longrightarrow> k \<in> set ks \<Longrightarrow> in_scope vars k = JStr s \<Longrightarrow> unsafe_launch_reason s = None"
  by (induction vars ks rule: first_unsafe.induct) (auto split: jsval.splits option.splits)

section \<open>What validation leaves\<close>

lemma in_scope_jset [simp]: "in_scope (jset m k v) k' = (if k' = k then v else in_scope m k')"
  by (simp add: in_scope_def)

lemma in_scope_Nil [simp]: "in_scope [] k = JUndef"
  by (simp add: in_scope_def)

lemma coerce_scalar: "coerce_variable ho v x = Inr y \<Longrightarrow> scalar y"
  by (auto simp: coerce_variable_def scalar_def split: variable_type.splits option.splits)

definition settled :: "scope \<Rightarrow> bool" where
  "settled sc \<longleftrightarrow> (\<forall>k. in_scope sc k = JUndef \<or> scalar (in_scope sc k))"

lemma settled_jset: "settled sc \<Longrightarrow> scalar v \<Longrightarrow> settled (jset sc k v)"
  by (simp add: settled_def)

lemma scalar_simps [simp]: "scalar (JStr s)" "scalar (JNum n)" "scalar (JBool b)" "\<not> scalar JUndef" "\<not> scalar JNull"
  "\<not> scalar (JArr vs)" "\<not> scalar (JObj m)"
  by (simp_all add: scalar_def)

lemma validate_list_facts:
  assumes "validate_list ho input vs acc = Inr r" and "settled acc"
  shows "settled r \<and> (\<forall>k. in_scope acc k \<noteq> JUndef \<longrightarrow> in_scope r k \<noteq> JUndef)
     \<and> (\<forall>v \<in> set vs. bv_default v \<noteq> JUndef \<longrightarrow> in_scope r (bv_key v) \<noteq> JUndef)"
  using assms
proof (induction ho input vs acc rule: validate_list.induct)
  case (1 ho input acc)
  then show ?case by simp
next
  case (2 ho input v vs acc)
  let ?x = "coalesce (in_scope input (bv_key v)) (bv_default v)"
  show ?case
  proof (cases "?x = JUndef")
    case True
    then have "bv_default v = JUndef" by (auto simp: coalesce_def nullish_def split: if_splits)
    moreover have "validate_list ho input vs acc = Inr r"
      using "2.prems"(1) True by (simp add: Let_def split: if_splits)
    moreover have "\<not> (''required'' \<in> set (parse_rules (bv_rules v)))"
      using "2.prems"(1) True by (auto simp add: Let_def split: if_splits)
    ultimately show ?thesis using "2.IH"(1) [OF refl True] "2.prems"(2) by auto
  next
    case False
    then obtain y u where y: "coerce_variable ho v ?x = Inr y" "enforce_rules ho v y (parse_rules (bv_rules v)) = Inr u"
      and rest: "validate_list ho input vs (jset acc (bv_key v) y) = Inr r"
      using "2.prems"(1) by (auto simp: Let_def and_then_Inr_iff)
    have s: "scalar y" by (rule coerce_scalar [OF y(1)])
    have ne: "y \<noteq> JUndef" using s by (auto)
    show ?thesis using "2.IH"(2) [OF refl False rest settled_jset [OF "2.prems"(2) s]] ne
      by (auto split: if_splits)
  qed
qed

lemma validate_ports_facts:
  assumes "validate_ports ho input ps acc = Inr r" and "settled acc"
  shows "settled r \<and> (\<forall>k. in_scope acc k \<noteq> JUndef \<longrightarrow> in_scope r k \<noteq> JUndef)
     \<and> (\<forall>p \<in> set ps. in_scope r (bp_key p) \<noteq> JUndef)"
  using assms
proof (induction ho input ps acc rule: validate_ports.induct)
  case (2 ho input p ps acc)
  then obtain n where "validate_ports ho input ps (jset acc (bp_key p) (JNum n)) = Inr r"
    and sel: "(if in_scope input (bp_key p) = JUndef then Some (bp_default p) else ho_number ho (in_scope input (bp_key p))) = Some n"
    by (auto simp: Let_def split: option.splits)
  from "2.IH" [OF refl sel this(1) settled_jset [OF "2.prems"(2)]] show ?case by (auto split: if_splits)
qed simp

lemma validate_variables_facts:
  assumes "validate_variables ho bp input = Inr vars"
  shows "settled vars" "first_unsafe vars (launch_variable_keys bp) = None"
    "\<forall>v \<in> set (bl_variables bp). bv_default v \<noteq> JUndef \<longrightarrow> in_scope vars (bv_key v) \<noteq> JUndef"
    "\<forall>p \<in> set (bl_ports bp). in_scope vars (bp_key p) \<noteq> JUndef"
proof -
  from assms obtain r1 r2 where r: "validate_list ho input (bl_variables bp) [] = Inr r1"
    "validate_ports ho input (bl_ports bp) r1 = Inr r2" "vars = keep_java_path input r2"
    and checked: "assert_safe_for_request bp vars = Inr ()"
    by (auto simp: validate_variables_def and_then_Inr_iff Let_def)
  have f1: "settled r1" "\<forall>v \<in> set (bl_variables bp). bv_default v \<noteq> JUndef \<longrightarrow> in_scope r1 (bv_key v) \<noteq> JUndef"
    using validate_list_facts [OF r(1)] by (simp_all add: settled_def)
  note f2 = validate_ports_facts [OF r(2) f1(1)]
  have k: "in_scope vars k = in_scope r2 k \<or> (\<exists>s. in_scope vars k = JStr s)" for k
    by (simp add: r(3) keep_java_path_def split: jsval.splits)
  show "settled vars" unfolding settled_def
  proof
    fix k
    show "in_scope vars k = JUndef \<or> scalar (in_scope vars k)" using k [of k] f2 by (auto simp: settled_def)
  qed
  show "first_unsafe vars (launch_variable_keys bp) = None"
    using checked by (simp add: assert_safe_for_request_def split: option.splits)
  have stay: "in_scope r2 k \<noteq> JUndef \<Longrightarrow> in_scope vars k \<noteq> JUndef" for k using k [of k] by auto
  show "\<forall>v \<in> set (bl_variables bp). bv_default v \<noteq> JUndef \<longrightarrow> in_scope vars (bv_key v) \<noteq> JUndef"
    using f1(2) f2 stay by blast
  show "\<forall>p \<in> set (bl_ports bp). in_scope vars (bp_key p) \<noteq> JUndef" using f2 stay by blast
qed

section \<open>The scope of a launch\<close>

text \<open>Keys the panel fills itself.\<close>

definition panel_keys :: "blueprint \<Rightarrow> string set" where
  "panel_keys bp = set [''SERVER_ID'', ''SERVER_DIR'', ''SERVER_NAME'', ''SERVER_PORT'', ''HOST_OS'', ''EXE_SUFFIX'',
     ''HOST_UID'', ''HOST_GID'', ''JAVA_IMAGE_TAG'', ''JAVA_BIN''] \<union> {e. \<exists>p \<in> set (bl_ports bp). bp_env p = Some e}"

lemma fold_put_variable:
  "in_scope (fold (put_variable vars) vs sc) k = in_scope sc k \<and> k \<notin> bv_key ` set vs
   \<or> (\<exists>v \<in> set vs. bv_key v = k \<and>
        in_scope (fold (put_variable vars) vs sc) k = coalesce (coalesce (in_scope vars k) (bv_default v)) (JStr []))"
proof (induction vs rule: rev_induct)
  case (snoc v vs)
  then show ?case by (cases "bv_key v = k") (auto simp: put_variable_def)
qed simp

lemma fold_put_port:
  assumes "\<forall>p \<in> set ps. bp_env p \<noteq> Some k"
  shows "in_scope (fold (put_port vars) ps sc) k = in_scope sc k \<and> k \<notin> bp_key ` set ps
    \<or> k \<in> bp_key ` set ps \<and> (nullish (in_scope vars k) \<or> in_scope (fold (put_port vars) ps sc) k = in_scope vars k)"
  using assms
proof (induction ps rule: rev_induct)
  case (snoc p ps)
  have "in_scope (put_port vars p s) k = (if k = bp_key p
      then coalesce (coalesce (in_scope vars k) (in_scope s k)) (JNum (bp_default p)) else in_scope s k)" for s
    using snoc.prems by (auto simp: put_port_def Let_def split: option.splits)
  then show ?case using snoc by (auto simp: coalesce_def)
qed simp

lemma put_panel_other: "k \<notin> panel_keys bp \<Longrightarrow> in_scope (put_panel ho bp sid name sc) k = in_scope sc k"
  by (auto simp: put_panel_def panel_keys_def Let_def split: option.splits)

lemma put_java_other: "put_java ho bp vars sc = Inr sc' \<Longrightarrow> k \<noteq> ''JAVA_BIN'' \<Longrightarrow> in_scope sc' k = in_scope sc k"
  by (auto simp: put_java_def Let_def split: jsval.splits option.splits if_splits)

lemma launch_scope_value:
  assumes valid: "validate_variables ho bp input = Inr vars"
    and java: "put_java ho bp vars (build_scope ho bp sid name vars) = Inr sc"
    and k: "k \<in> set (declared_keys bp)" "k \<notin> panel_keys bp"
  shows "in_scope sc k = in_scope vars k \<and> scalar (in_scope vars k) \<or> in_scope sc k = JStr []"
proof -
  note facts = validate_variables_facts [OF valid]
  let ?v = "fold (put_variable vars) (bl_variables bp) []"
  let ?p = "fold (put_port vars) (bl_ports bp) ?v"
  have "k \<noteq> ''JAVA_BIN''" using k(2) by (auto simp: panel_keys_def)
  then have sc: "in_scope sc k = in_scope ?p k"
    using put_java_other [OF java] put_panel_other [OF k(2)] by (simp add: build_scope_def)
  have env: "\<forall>p \<in> set (bl_ports bp). bp_env p \<noteq> Some k" using k(2) by (auto simp: panel_keys_def)
  have some: "scalar (in_scope vars k) \<or> in_scope vars k = JUndef" using facts(1) by (auto simp: settled_def)
  show ?thesis
  proof (cases "k \<in> bp_key ` set (bl_ports bp)")
    case True
    then have "in_scope vars k \<noteq> JUndef" using facts(4) by auto
    then have "scalar (in_scope vars k)" using some by blast
    then have "\<not> nullish (in_scope vars k)" by (auto simp: nullish_def)
    then show ?thesis using fold_put_port [OF env, of vars ?v] True \<open>scalar (in_scope vars k)\<close> sc by auto
  next
    case False
    then have p: "in_scope sc k = in_scope ?v k" using fold_put_port [OF env, of vars ?v] sc by auto
    from False k(1) have "k \<in> bv_key ` set (bl_variables bp)" by (auto simp: declared_keys_def)
    with fold_put_variable [of vars "bl_variables bp" "[]" k]
    obtain v where v: "v \<in> set (bl_variables bp)" "bv_key v = k"
      "in_scope ?v k = coalesce (coalesce (in_scope vars k) (bv_default v)) (JStr [])" by auto
    show ?thesis
    proof (cases "in_scope vars k = JUndef")
      case True
      then have "bv_default v = JUndef" using facts(3) v by auto
      then show ?thesis using True v p by (simp add: coalesce_def nullish_def)
    next
      case False
      then show ?thesis using some v p by (auto simp: coalesce_def nullish_def)
    qed
  qed
qed

section \<open>Properties\<close>


text \<open>
  C17: An array is not looked at by either check but joined into the command: the variables of an
  imported archive put any text into it.
\<close>

theorem list_value_reaches_shell:
  assumes "vars = [(k, JArr [JStr cmds])]"
    and "k \<noteq> ''JAVA_PATH''" and "\<forall>p \<in> set (bl_ports bp). bp_env p \<noteq> Some k" and "k \<in> set (declared_keys bp)" and "k \<notin> panel_keys bp"
    and "startup_command ho bp = Some t" and "Hole k \<in> set (pieces t)"
    and "put_java ho bp vars (build_scope ho bp sid name vars) = Inr sc"
  shows "import_variables (Some bp) vars = Inr vars
     \<and> (\<exists>cmd. launch_command ho bp sid name vars = Inr cmd \<and> sublist cmds cmd)"
proof -
  have unseen: "first_unsafe vars ks = None" for ks
    by (induction ks) (auto simp: in_scope_def assms(1))
  have imp: "import_variables (Some bp) vars = Inr vars"
    using assms(2) by (simp add: import_variables_def Let_def assert_safe_for_request_def unseen [unfolded assms(1)] assms(1))
  have here: "in_scope vars k = JArr [JStr cmds]" by (simp add: assms(1) in_scope_def)
  then have nn: "\<not> nullish (in_scope vars k)" by (simp add: nullish_def)
  let ?v = "fold (put_variable vars) (bl_variables bp) []"
  have "k \<noteq> ''JAVA_BIN''" using assms(5) by (auto simp: panel_keys_def)
  then have "in_scope sc k = in_scope (fold (put_port vars) (bl_ports bp) ?v) k"
    using put_java_other [OF assms(8)] put_panel_other [OF assms(5)] by (simp add: build_scope_def)
  also have "\<dots> = JArr [JStr cmds]"
    using fold_put_port [OF assms(3), of vars ?v] fold_put_variable [of vars "bl_variables bp" "[]" k] assms(4) nn here
    by (auto simp: declared_keys_def coalesce_def)
  finally have hole: "hole_text sc k = cmds" by (simp add: hole_text_def)
  from assms(7) obtain a b where "pieces t = a @ Hole k # b" by (auto dest: split_list)
  then have "substitute t sc = concat (map (piece_text sc) a) @ cmds @ concat (map (piece_text sc) b)"
    by (simp add: substitute_def piece_text_def hole)
  then have "sublist cmds (substitute t sc)" by (metis sublist_appendI)
  moreover have "t \<noteq> []" using assms(7) by auto
  moreover have "assert_launch_variables_safe bp vars = Inr ()" by (simp add: assert_launch_variables_safe_def unseen)
  ultimately show ?thesis using imp assms(6,8) by (simp add: launch_command_def native_command_def)
qed

section \<open>Concrete launches\<close>

text \<open>The template and the variables of the bundled Paper blueprint that matter here.\<close>

definition paper_blueprint :: blueprint where
  "paper_blueprint = \<lparr>
     bl_variables = [
       \<lparr>bv_key = ''XMX'', bv_type = VtNumber, bv_default = JNum 2048, bv_rules = Some ''required|min:512'', bv_versions = False\<rparr>,
       \<lparr>bv_key = ''JVM_ARGS'', bv_type = VtString, bv_default = JStr [], bv_rules = None, bv_versions = False\<rparr>],
     bl_ports = [\<lparr>bp_key = ''SERVER_PORT'', bp_default = 25565, bp_env = None, bp_primary = True, bp_protocol = Tcp\<rparr>],
     bl_startup = Some \<lparr>su_command = Some ''java -Xmx{{XMX}}M {{ JVM_ARGS }} -jar server.jar nogui'', su_platforms = [], su_stop = None\<rparr>,
     bl_docker = None\<rparr>"

definition plain_host :: host where
  "plain_host = \<lparr>ho_platform = ''linux'', ho_uid = JNum 1000, ho_gid = JNum 1000, ho_resolve = (\<lambda>p. p),
     ho_number = (\<lambda>v. case v of JNum n \<Rightarrow> Some n | JStr s \<Rightarrow> if s = ''512'' then Some 512 else None | _ \<Rightarrow> None),
     ho_java_binary = (\<lambda>p. None), ho_managed_java = (\<lambda>v. None)\<rparr>"

definition plain_vars :: scope where
  "plain_vars = [(''XMX'', JNum 1024), (''JVM_ARGS'', JStr ''-Da=1''), (''SERVER_PORT'', JNum 25565)]"

lemma plain_launch:
  "validate_variables plain_host paper_blueprint [(''XMX'', JNum 1024), (''JVM_ARGS'', JStr ''-Da=1'')] = Inr plain_vars"
  "launch_command plain_host paper_blueprint ''s1'' ''Name'' plain_vars = Inr ''java -Xmx1024M -Da=1 -jar server.jar nogui''"
  "validate_variables plain_host paper_blueprint [(''JVM_ARGS'', JStr ''; id'')] =
     fail_code BadRequest ''UNSAFE_LAUNCH_ARGUMENT''
       (unsafe_message (''JVM_ARGS'', ''character '' @ [DQ, CHR '';'', DQ] @ '' is not allowed''))"
  by code_simp+

text \<open>Quotes inside the flag hide it from the check, and the shell takes them away again.\<close>

lemma quoted_hook_passes:
  "unsafe_launch_reason (''-XX:O'' @ [DQ, DQ] @ ''nError=reboot'') = None"
  "unsafe_launch_reason ''-XX:OnError=reboot'' \<noteq> None"
  by code_simp+

text \<open>A template that redirects, whose arrow is the only one in the command.\<close>

definition logged_blueprint :: blueprint where
  "logged_blueprint = paper_blueprint\<lparr>bl_startup := Some \<lparr>su_command = Some ''java {{JVM_ARGS}} > {{LOG}}'', su_platforms = [], su_stop = None\<rparr>\<rparr>"

lemma logged_launch:
  "validate_variables plain_host logged_blueprint [(''XMX'', JNum 1024), (''JVM_ARGS'', JStr ''-Da=1'')] = Inr plain_vars"
  "launch_command plain_host logged_blueprint ''s1'' ''Name'' plain_vars = Inr ''java -Da=1 > ''"
  "CHR ''>'' \<in> set ''java -Da=1 > '' \<and> shell_meta CHR ''>''"
  by code_simp+


theorem list_value_reaches_shell_witness:
  "\<exists>cmd. launch_command plain_host paper_blueprint ''s1'' ''Name'' [(''JVM_ARGS'', JArr [JStr ''; id ;''])] = Inr cmd
     \<and> sublist ''; id ;'' cmd"
proof -
  let ?vars = "[(''JVM_ARGS'', JArr [JStr ''; id ;''])]"
  have java: "java_version paper_blueprint sc = None" for sc by (simp add: java_version_def paper_blueprint_def)
  have "put_java plain_host paper_blueprint ?vars (build_scope plain_host paper_blueprint ''s1'' ''Name'' ?vars)
      = Inr (build_scope plain_host paper_blueprint ''s1'' ''Name'' ?vars)"
    by (simp add: put_java_def java in_scope_def)
  moreover have "Hole ''JVM_ARGS'' \<in> set (pieces ''java -Xmx{{XMX}}M {{ JVM_ARGS }} -jar server.jar nogui'')" by code_simp
  ultimately show ?thesis
    by (intro conjunct2 [OF list_value_reaches_shell [where bp = paper_blueprint and k = "''JVM_ARGS''" and ho = plain_host
        and t = "''java -Xmx{{XMX}}M {{ JVM_ARGS }} -jar server.jar nogui''"]])
      (auto simp: paper_blueprint_def declared_keys_def panel_keys_def startup_command_def)
qed

end
