(* ===== verification/Containers.thy ===== *)
theory Containers
  imports Paths Launch_Args
begin

text \<open>
  Which containers the panel takes for its own when it boots
  (\<open>server-types/runtime/container-reconcile.ts\<close>), the statuses it resets then
  (\<open>servers/server-boot.service.ts\<close>) and the ports it publishes (\<open>runtime/port-bindings.ts\<close>).
\<close>

section \<open>Names and labels\<close>

definition LABEL_MANAGED :: string where "LABEL_MANAGED = ''kubek.managed''"
definition LABEL_SERVER :: string where "LABEL_SERVER = ''kubek.server''"
definition LABEL_PANEL :: string where "LABEL_PANEL = ''kubek.panel''"
definition LABEL_DIR :: string where "LABEL_DIR = ''kubek.dir''"

definition container_name_for :: "string \<Rightarrow> string" where
  "container_name_for sid = ''kubek-'' @ sid"

definition container_labels :: "string \<Rightarrow> string \<Rightarrow> string option \<Rightarrow> (string, string) jsmap" where
  "container_labels sid panel dir =
     [(LABEL_MANAGED, ''true''), (LABEL_SERVER, sid), (LABEL_PANEL, panel)] @
     (case dir of None \<Rightarrow> [] | Some d \<Rightarrow> if d = [] then [] else [(LABEL_DIR, d)])"

record container_row =
  co_id :: string
  co_names :: "string list"
  co_state :: string
  co_labels :: "(string, string) jsmap"
  co_mounts :: "string option list"

datatype reconcile_action =
    Adopt string string
  | RemoveContainer string string
  | SkipContainer string string string

section \<open>Reconciling\<close>

definition without_end_slashes :: "string \<Rightarrow> string" where
  "without_end_slashes p = rev (dropWhile (\<lambda>c. c = CHR ''/'') (rev p))"

definition same_path :: "string \<Rightarrow> string \<Rightarrow> bool" where
  "same_path a b \<longleftrightarrow> without_end_slashes (normalize_path a) = without_end_slashes (normalize_path b)"

definition line_end :: "char \<Rightarrow> bool" where
  "line_end c \<longleftrightarrow> c = CHR 0x0A \<or> c = CHR 0x0D"

text \<open>\<open>/^\/kubek-(.+)$/\<close>: the server id of a container name.\<close>

definition old_name_id :: "string \<Rightarrow> string option" where
  "old_name_id n =
     (let i = drop 7 n in
      if take 7 n = ''/kubek-'' \<and> i \<noteq> [] \<and> \<not> list_ex line_end i then Some i else None)"

fun first_known :: "(string, string) jsmap \<Rightarrow> string list \<Rightarrow> string option" where
  "first_known dirs [] = None"
| "first_known dirs (n # ns) =
     (case old_name_id n of
        Some i \<Rightarrow> if jhas dirs i then Some i else first_known dirs ns
      | None \<Rightarrow> first_known dirs ns)"

definition owner_of :: "container_row \<Rightarrow> string \<Rightarrow> (string, string) jsmap \<Rightarrow> string option" where
  "owner_of row panel dirs =
     (case jget (co_labels row) LABEL_MANAGED of
        Some m \<Rightarrow>
          if m \<noteq> ''true'' then None
          else if jget (co_labels row) LABEL_PANEL \<noteq> Some panel then None
          else (case jget (co_labels row) LABEL_SERVER of
              None \<Rightarrow> None
            | Some sid \<Rightarrow>
                if sid = [] then None
                else if (CHR ''/'' # container_name_for sid) \<notin> set (co_names row) then None
                else Some sid)
      | None \<Rightarrow> first_known dirs (co_names row))"

definition own_dir :: "container_row \<Rightarrow> string \<Rightarrow> bool" where
  "own_dir row dir =
     (case jget (co_labels row) LABEL_DIR of
        Some d \<Rightarrow> if d = [] then list_ex (\<lambda>m. case m of None \<Rightarrow> False | Some s \<Rightarrow> s \<noteq> [] \<and> same_path s dir) (co_mounts row)
                  else same_path d dir
      | None \<Rightarrow> list_ex (\<lambda>m. case m of None \<Rightarrow> False | Some s \<Rightarrow> s \<noteq> [] \<and> same_path s dir) (co_mounts row))"

definition reconcile_row :: "string \<Rightarrow> (string, string) jsmap \<Rightarrow> container_row \<Rightarrow> reconcile_action list" where
  "reconcile_row panel dirs row =
     (case owner_of row panel dirs of
        None \<Rightarrow> []
      | Some sid \<Rightarrow>
          if sid = [] then []
          else (case jget dirs sid of
              None \<Rightarrow> if co_state row = ''running'' then [SkipContainer sid (co_id row) ''server not found'']
                      else [RemoveContainer sid (co_id row)]
            | Some dir \<Rightarrow>
                if dir = []
                then (if co_state row = ''running'' then [SkipContainer sid (co_id row) ''server not found'']
                      else [RemoveContainer sid (co_id row)])
                else if \<not> own_dir row dir then [SkipContainer sid (co_id row) ''data mount points elsewhere'']
                else if co_state row = ''running'' then [Adopt sid (co_id row)]
                else if co_state row = ''paused'' \<or> co_state row = ''restarting''
                then [SkipContainer sid (co_id row) (''state '' @ co_state row)]
                else [RemoveContainer sid (co_id row)]))"

definition reconcile_containers :: "container_row list \<Rightarrow> string \<Rightarrow> (string, string) jsmap \<Rightarrow> reconcile_action list" where
  "reconcile_containers rows panel dirs = concat (map (reconcile_row panel dirs) rows)"

section \<open>Ports\<close>

record port_binding =
  pb_host_ip :: "string option"
  pb_host_port :: string

text \<open>\<open>proxy\<close> is the proxy of the server's network, \<open>runtime\<close> what that proxy runs in.\<close>

definition publish_host_ip :: "string \<Rightarrow> string option \<Rightarrow> string option \<Rightarrow> string option" where
  "publish_host_ip sid proxy runtime =
     (case proxy of None \<Rightarrow> None
      | Some p \<Rightarrow> if p = sid then None else if runtime = Some ''docker'' then None else Some ''127.0.0.1'')"

fun protocol_names :: "port_protocol \<Rightarrow> string list" where
  "protocol_names Tcp = [''tcp'']"
| "protocol_names Udp = [''udp'']"
| "protocol_names TcpUdp = [''tcp'', ''udp'']"

definition bind_port :: "scope \<Rightarrow> string option \<Rightarrow> blueprint_port \<Rightarrow> (string, port_binding list) jsmap \<Rightarrow> (string, port_binding list) jsmap" where
  "bind_port sc host p out =
     (let v = js_text (coalesce (in_scope sc (bp_key p)) (JNum (bp_default p))) in
      fold (\<lambda>proto o'. jset o' (v @ ''/'' @ proto) [\<lparr>pb_host_ip = host, pb_host_port = v\<rparr>]) (protocol_names (bp_protocol p)) out)"

definition build_port_bindings :: "blueprint_port list \<Rightarrow> scope \<Rightarrow> string option \<Rightarrow> (string, port_binding list) jsmap" where
  "build_port_bindings ports sc host = fold (bind_port sc host) ports []"

section \<open>Lemmas\<close>

lemma first_known_in: "first_known dirs ns = Some i \<Longrightarrow> jhas dirs i \<and> (CHR ''/'' # container_name_for i) \<in> set ns"
proof (induction ns)
  case (Cons n ns)
  have "n = CHR ''/'' # container_name_for j" if "old_name_id n = Some j" for j
  proof -
    have "take 7 n = ''/kubek-''" "drop 7 n = j" using that by (simp_all add: old_name_id_def Let_def split: if_splits)
    then have "n = ''/kubek-'' @ j" by (metis append_take_drop_id)
    then show ?thesis by (simp add: container_name_for_def)
  qed
  then show ?case using Cons by (auto split: option.splits if_splits)
qed simp

lemma owner_named: "owner_of row panel dirs = Some i \<Longrightarrow> (CHR ''/'' # container_name_for i) \<in> set (co_names row)"
  by (auto simp: owner_of_def dest: first_known_in split: option.splits if_splits)

section \<open>Properties\<close>


text \<open>
  For a server the panel does not know (any more) the folder is not compared: a stopped
  container with the labels of the panel is removed wherever its data is.
\<close>

theorem unknown_server_removed:
  assumes "row \<in> set rows" and "jget (co_labels row) LABEL_MANAGED = Some ''true''"
    and "jget (co_labels row) LABEL_PANEL = Some panel" and "jget (co_labels row) LABEL_SERVER = Some sid" and "sid \<noteq> []"
    and "(CHR ''/'' # container_name_for sid) \<in> set (co_names row)" and "jget dirs sid = None" and "co_state row \<noteq> ''running''"
  shows "RemoveContainer sid (co_id row) \<in> set (reconcile_containers rows panel dirs)"
proof -
  have "reconcile_row panel dirs row = [RemoveContainer sid (co_id row)]"
    using assms(2-8) by (simp add: reconcile_row_def owner_of_def)
  then show ?thesis using assms(1) by (force simp: reconcile_containers_def)
qed

definition old_container :: container_row where
  "old_container = \<lparr>co_id = ''c1'', co_names = [''/kubek-a''], co_state = ''running'', co_labels = container_labels ''a'' ''p'' (Some ''/srv/a/''),
     co_mounts = [Some ''/srv/a'']\<rparr>"


theorem unknown_server_removed_witness:
  "RemoveContainer ''a'' ''c1'' \<in> set (reconcile_containers [old_container\<lparr>co_state := ''exited''\<rparr>] ''p'' [])"
  using unknown_server_removed [of "old_container\<lparr>co_state := ''exited''\<rparr>" "[old_container\<lparr>co_state := ''exited''\<rparr>]" "''p''" "''a''" "[]"]
  by (simp add: old_container_def container_labels_def container_name_for_def LABEL_MANAGED_def LABEL_PANEL_def LABEL_SERVER_def)

end
