(* ===== verification/Assistant_Stream.thy ===== *)
theory Assistant_Stream
  imports Assistant_Loop
begin

text \<open>
  The provider's answer as it arrives (\<open>assistant/llm/sse.ts\<close>, \<open>completion-accumulator.ts\<close>, the loop
  of \<open>llm-client.ts\<close>) and the file edits a model may ask for (\<open>tools/file-edits.ts\<close>, the plan of
  \<open>tools/files.tools.ts\<close>).  Chunks are texts: what \<open>TextDecoder\<close> makes of the bytes is an argument.
\<close>

section \<open>Event stream (sse.ts)\<close>

abbreviation CR :: char where "CR \<equiv> CHR 0x0D"
abbreviation LF :: char where "LF \<equiv> CHR 0x0A"

text \<open>\<open>buffer.search(/\r\n|\r|\n/)\<close>.\<close>

definition line_break :: "string \<Rightarrow> nat option" where
  "line_break s = (let n = length (takeWhile (\<lambda>c. c \<noteq> CR \<and> c \<noteq> LF) s) in if n < length s then Some n else None)"

record sse =
  ss_buffer :: string
  ss_data :: "string list"
  ss_out :: "string list"

definition payload :: "string \<Rightarrow> string" where
  "payload line = (let t = drop 5 line in if take 1 t = '' '' then drop 1 t else t)"

definition is_data :: "string \<Rightarrow> bool" where
  "is_data line \<longleftrightarrow> take 5 line = ''data:''"

text \<open>What one complete line does; an empty one ends the event.\<close>

definition sse_line :: "string \<Rightarrow> sse \<Rightarrow> sse" where
  "sse_line line s =
     (if line = [] then s\<lparr>ss_out := ss_out s @ (if ss_data s = [] then [] else [join [LF] (ss_data s)]), ss_data := []\<rparr>
      else if is_data line then s\<lparr>ss_data := ss_data s @ [payload line]\<rparr>
      else s)"

text \<open>The \<open>while\<close> loop over the lines of the buffer.\<close>

function sse_lines :: "string \<Rightarrow> sse \<Rightarrow> sse" where
  "sse_lines buffer s =
     (case line_break buffer of
        None \<Rightarrow> s\<lparr>ss_buffer := buffer\<rparr>
      | Some n \<Rightarrow>
          let line = take n buffer; width = (if take 2 (drop n buffer) = [CR, LF] then 2 else 1) in
          if width = 1 \<and> buffer ! n = CR \<and> n = length buffer - 1 then s\<lparr>ss_buffer := buffer\<rparr>
          else sse_lines (drop (n + width) buffer) (sse_line line s))"
  by pat_completeness auto
termination by (relation "measure (\<lambda>(b, s). length b)") (auto simp: line_break_def Let_def split: if_splits)

declare sse_lines.simps [simp del]

definition sse_chunk :: "string \<Rightarrow> sse \<Rightarrow> sse" where
  "sse_chunk chunk s = sse_lines (ss_buffer s @ chunk) s"

definition sse_finish :: "string \<Rightarrow> sse \<Rightarrow> string list" where
  "sse_finish rest s =
     (let b = ss_buffer s @ rest; d = ss_data s @ (if is_data b then [payload b] else []) in
      ss_out s @ (if d = [] then [] else [join [LF] d]))"

definition sse_start :: sse where
  "sse_start = \<lparr>ss_buffer = [], ss_data = [], ss_out = []\<rparr>"

text \<open>\<open>rest\<close> is what the decoder still gives at the end.\<close>

definition read_sse_data :: "string list \<Rightarrow> string \<Rightarrow> string list" where
  "read_sse_data chunks rest = sse_finish rest (fold sse_chunk chunks sse_start)"

section \<open>Accumulating chunks (completion-accumulator.ts)\<close>

text \<open>One entry of \<open>delta.tool_calls\<close>; \<open>None\<close> is a missing field.\<close>

record chunk_call =
  cc_index :: "nat option"
  cc_id :: "string option"
  cc_name :: "string option"
  cc_arguments :: "string option"

record chunk =
  ck_finish :: "string option"
  ck_content :: "string option"
  ck_calls :: "chunk_call list"

record acc_call =
  ac_id :: string
  ac_name :: string
  ac_arguments :: string

text \<open>\<open>calls\<close> is an array that may have holes; reading a hole as a call throws.\<close>

record accumulator =
  am_content :: string
  am_finish :: "string option"
  am_calls :: "acc_call option list"

definition acc_init :: accumulator where
  "acc_init = \<lparr>am_content = [], am_finish = None, am_calls = []\<rparr>"

abbreviation sent :: "string option \<Rightarrow> bool" where
  "sent x \<equiv> x \<noteq> None \<and> x \<noteq> Some []"

definition put_call :: "nat \<Rightarrow> acc_call \<Rightarrow> acc_call option list \<Rightarrow> acc_call option list" where
  "put_call i c cs = (if i < length cs then cs[i := Some c] else cs @ replicate (i - length cs) None @ [Some c])"

text \<open>\<open>calls.find(c => c.id === id)\<close>: the position, or the error of reading a hole.\<close>

fun find_call :: "string \<Rightarrow> nat \<Rightarrow> acc_call option list \<Rightarrow> nat option result" where
  "find_call i n [] = Inr None"
| "find_call i n (None # cs) = fail Internal ''undefined is not an object''"
| "find_call i n (Some c # cs) = (if ac_id c = i then Inr (Some n) else find_call i (Suc n) cs)"

text \<open>Where a part goes: the position of its call, or where a new one is put.\<close>

definition call_place :: "chunk_call \<Rightarrow> acc_call option list \<Rightarrow> nat result" where
  "call_place part cs =
     (case cc_index part of
        Some i \<Rightarrow> Inr i
      | None \<Rightarrow>
          if sent (cc_id part)
          then and_then (find_call (the (cc_id part)) 0 cs) (\<lambda>r. Inr (case r of Some n \<Rightarrow> n | None \<Rightarrow> length cs))
          else Inr (length cs - 1))"

definition extend_call :: "chunk_call \<Rightarrow> acc_call \<Rightarrow> acc_call" where
  "extend_call part c =
     (let c1 = (if sent (cc_id part) then c\<lparr>ac_id := the (cc_id part)\<rparr> else c);
          c2 = (if sent (cc_name part) \<and> the (cc_name part) \<noteq> ac_name c1 then c1\<lparr>ac_name := ac_name c1 @ the (cc_name part)\<rparr> else c1) in
      if sent (cc_arguments part) then c2\<lparr>ac_arguments := ac_arguments c2 @ the (cc_arguments part)\<rparr> else c2)"

definition call_at :: "nat \<Rightarrow> acc_call option list \<Rightarrow> acc_call option" where
  "call_at i cs = (if i < length cs then cs ! i else None)"

definition push_tool_call :: "chunk_call \<Rightarrow> acc_call option list \<Rightarrow> acc_call option list result" where
  "push_tool_call part cs =
     and_then (call_place part cs) (\<lambda>i.
       Inr (put_call i (extend_call part
         (case call_at i cs of Some c \<Rightarrow> c
          | None \<Rightarrow> \<lparr>ac_id = (case cc_id part of None \<Rightarrow> [] | Some x \<Rightarrow> x), ac_name = [], ac_arguments = []\<rparr>)) cs))"

fun push_tool_calls :: "chunk_call list \<Rightarrow> acc_call option list \<Rightarrow> acc_call option list result" where
  "push_tool_calls [] cs = Inr cs"
| "push_tool_calls (p # ps) cs = and_then (push_tool_call p cs) (push_tool_calls ps)"

text \<open>\<open>choice\<close> is \<open>choices[0]\<close>; a chunk without one adds nothing.\<close>

definition push_chunk :: "chunk option \<Rightarrow> accumulator \<Rightarrow> (string \<times> accumulator) result" where
  "push_chunk choice a =
     (case choice of
        None \<Rightarrow> Inr ([], a)
      | Some ck \<Rightarrow>
          let a1 = (if sent (ck_finish ck) then a\<lparr>am_finish := ck_finish ck\<rparr> else a);
              t = (case ck_content ck of None \<Rightarrow> [] | Some t \<Rightarrow> t);
              a2 = a1\<lparr>am_content := am_content a1 @ t\<rparr> in
          and_then (push_tool_calls (ck_calls ck) (am_calls a2)) (\<lambda>cs. Inr (t, a2\<lparr>am_calls := cs\<rparr>)))"

definition completion_calls :: "accumulator \<Rightarrow> streamed_call list" where
  "completion_calls a =
     concat (map (\<lambda>c. case c of None \<Rightarrow> [] | Some x \<Rightarrow>
        if ac_name x = [] then [] else [\<lparr>sc_name = ac_name x, sc_arguments = ac_arguments x\<rparr>]) (am_calls a))"

text \<open>
  The loop of \<open>stream\<close> over the payloads: the texts handed on, and the accumulated answer;
  \<open>parse\<close> is \<open>parseChunk\<close> with \<open>JSON.parse\<close> in it.
\<close>

fun stream_payloads :: "(string \<Rightarrow> chunk option result) \<Rightarrow> string list \<Rightarrow> accumulator \<Rightarrow> string list \<times> accumulator result" where
  "stream_payloads parse [] a = ([], Inr a)"
| "stream_payloads parse (d # ds) a =
     (if d = ''[DONE]'' then ([], Inr a)
      else case and_then (parse d) (\<lambda>ck. push_chunk ck a) of
        Inl e \<Rightarrow> ([], Inl e)
      | Inr (t, a') \<Rightarrow>
          (case stream_payloads parse ds a' of (ts, r) \<Rightarrow> ((if t = [] then ts else t # ts), r)))"

definition stream_answer :: "(string \<Rightarrow> chunk option result) \<Rightarrow> string list \<Rightarrow> string \<Rightarrow> string list \<times> accumulator result" where
  "stream_answer parse chunks rest = stream_payloads parse (read_sse_data chunks rest) acc_init"

section \<open>Edits (file-edits.ts, files.tools.ts)\<close>

record text_edit =
  fe_find :: string
  fe_replace :: string

definition edit_error :: "nat \<Rightarrow> string \<Rightarrow> string" where
  "edit_error i why = ''Edit '' @ digits (Suc i) @ '': text to find '' @ why"

fun apply_edits :: "nat \<Rightarrow> text_edit list \<Rightarrow> string \<Rightarrow> string + string" where
  "apply_edits i [] s = Inr s"
| "apply_edits i (e # es) s =
     (case index_of (fe_find e) s of
        None \<Rightarrow> Inl (edit_error i ''is not in the file'')
      | Some first \<Rightarrow>
          if index_of (fe_find e) (drop (first + 1) s) \<noteq> None
          then Inl (edit_error i ''matches more than once, add surrounding lines'')
          else apply_edits (Suc i) es (take first s @ fe_replace e @ drop (first + length (fe_find e)) s))"

definition REDACTED :: string where "REDACTED = ''[redacted]''"

definition contains_redaction :: "string \<Rightarrow> bool" where
  "contains_redaction s \<longleftrightarrow> index_of REDACTED s \<noteq> None"

definition ends_with :: "string \<Rightarrow> string \<Rightarrow> bool" where
  "ends_with e s \<longleftrightarrow> length e \<le> length s \<and> drop (length s - length e) s = e"

definition is_secret_file :: "string \<Rightarrow> bool" where
  "is_secret_file path =
     (let p = to_lower (trim path) in
      p = ''forwarding.secret'' \<or> ends_with ''/forwarding.secret'' p \<or> ends_with (CHR 0x5C # ''forwarding.secret'') p
      \<or> ends_with ''.pem'' p \<or> ends_with ''.key'' p)"

definition SECRET_FILE :: string where
  "SECRET_FILE = ''This file holds a secret and is hidden from the assistant''"

record write_plan =
  wp_before :: string
  wp_after :: string
  wp_created :: bool

text \<open>\<open>current\<close> is the text of the file, \<open>None\<close> when there is none; \<open>content\<close> or \<open>edits\<close> is given.\<close>

definition plan_write :: "string \<Rightarrow> string option \<Rightarrow> string option \<Rightarrow> text_edit list \<Rightarrow> string + write_plan" where
  "plan_write path current content edits =
     (if is_secret_file path then Inl SECRET_FILE
      else let before = (case current of None \<Rightarrow> [] | Some s \<Rightarrow> s) in
      case (case content of Some c \<Rightarrow> Inr c | None \<Rightarrow> apply_edits 0 edits before) of
        Inl e \<Rightarrow> Inl e
      | Inr after \<Rightarrow>
          if contains_redaction after \<and> \<not> contains_redaction before
          then Inl ''The new content contains a [redacted] placeholder, use edits that leave secret lines untouched''
          else Inr \<lparr>wp_before = before, wp_after = after, wp_created = (current = None)\<rparr>)"

end
