(* ===== verification/Assistant_Stream_Properties.thy ===== *)
theory Assistant_Stream_Properties
  imports Assistant_Stream Paths
begin

text \<open>
  Reading a streamed answer does not depend on where the network cuts it, calls are put
  together from their parts, and an edit is applied only where it is meant.
\<close>

section \<open>Line breaks\<close>

lemma line_break_None: "line_break s = None \<longleftrightarrow> CR \<notin> set s \<and> LF \<notin> set s"
proof -
  have "length (takeWhile P s) < length s \<longleftrightarrow> (\<exists>c \<in> set s. \<not> P c)" for P :: "char \<Rightarrow> bool"
    by (induction s) auto
  then show ?thesis by (auto simp: line_break_def Let_def)
qed

lemma line_break_Some:
  assumes "line_break s = Some n"
  shows "n < length s" "s ! n = CR \<or> s ! n = LF"
  using assms nth_length_takeWhile [of "\<lambda>c. c \<noteq> CR \<and> c \<noteq> LF" s]
  by (auto simp: line_break_def Let_def split: if_splits)

lemma line_break_append: "line_break s = Some n \<Longrightarrow> line_break (s @ t) = Some n"
proof -
  assume s: "line_break s = Some n"
  then have "\<exists>c \<in> set s. \<not> (c \<noteq> CR \<and> c \<noteq> LF)" using line_break_None [of s] by auto
  then have "takeWhile (\<lambda>c. c \<noteq> CR \<and> c \<noteq> LF) (s @ t) = takeWhile (\<lambda>c. c \<noteq> CR \<and> c \<noteq> LF) s"
    by (auto intro: takeWhile_append1)
  then show ?thesis using s by (auto simp: line_break_def Let_def split: if_splits)
qed

lemma line_break_plain:
  assumes "CR \<notin> set l" and "LF \<notin> set l"
  shows "line_break (l @ LF # t) = Some (length l)"
proof -
  have "takeWhile (\<lambda>c. c \<noteq> CR \<and> c \<noteq> LF) (l @ LF # t) = l" using assms by (induction l) auto
  then show ?thesis by (simp add: line_break_def)
qed

section \<open>Chunks\<close>

definition break_width :: "string \<Rightarrow> nat \<Rightarrow> nat" where
  "break_width b n = (if take 2 (drop n b) = [CR, LF] then 2 else 1)"

text \<open>A carriage return at the very end may be half of a line end.\<close>

definition half_break :: "string \<Rightarrow> nat \<Rightarrow> bool" where
  "half_break b n \<longleftrightarrow> b ! n = CR \<and> n = length b - 1"

lemma half_break_width: "half_break b n \<Longrightarrow> break_width b n = 1"
proof -
  assume "half_break b n"
  then have "length (take 2 (drop n b)) \<le> 1" by (simp add: half_break_def)
  moreover have "length (take 2 (drop n b)) = 2" if "take 2 (drop n b) = [CR, LF]" using that by (simp only:) simp
  ultimately have "take 2 (drop n b) \<noteq> [CR, LF]" by linarith
  then show ?thesis by (simp add: break_width_def)
qed

lemma sse_lines_unfold:
  "sse_lines b s =
     (case line_break b of
        None \<Rightarrow> s\<lparr>ss_buffer := b\<rparr>
      | Some n \<Rightarrow> if half_break b n then s\<lparr>ss_buffer := b\<rparr>
                 else sse_lines (drop (n + break_width b n) b) (sse_line (take n b) s))"
  by (subst sse_lines.simps) (auto simp: half_break_def break_width_def Let_def split: option.splits
      dest: half_break_width [unfolded half_break_def break_width_def, OF conjI])

lemma sse_lines_stop: "line_break b = None \<or> line_break b = Some n \<and> half_break b n \<Longrightarrow> sse_lines b s = s\<lparr>ss_buffer := b\<rparr>"
  by (subst sse_lines_unfold) auto

lemma sse_lines_go:
  assumes "line_break b = Some n" and "\<not> half_break b n"
  shows "sse_lines b s = sse_lines (drop (n + break_width b n) b) (sse_line (take n b) s)"
  using assms by (subst sse_lines_unfold) simp

lemma rest_shorter: "line_break b = Some n \<Longrightarrow> length (drop (n + break_width b n) b) < length b"
  by (drule line_break_Some(1)) (auto simp: break_width_def)

lemma sse_line_buffer: "sse_line l (s\<lparr>ss_buffer := x\<rparr>) = (sse_line l s)\<lparr>ss_buffer := x\<rparr>"
  by (simp add: sse_line_def)

lemma sse_lines_buffer: "sse_lines b (s\<lparr>ss_buffer := x\<rparr>) = sse_lines b s"
proof (induction b arbitrary: s rule: length_induct)
  case (1 b)
  show ?case
  proof (cases "\<exists>n. line_break b = Some n \<and> \<not> half_break b n")
    case True
    then obtain n where n: "line_break b = Some n" "\<not> half_break b n" by blast
    show ?thesis using 1 rest_shorter [OF n(1)] by (simp add: sse_lines_go [OF n] sse_line_buffer)
  next
    case False
    then have "line_break b = None \<or> line_break b = Some (the (line_break b)) \<and> half_break b (the (line_break b))"
      by (cases "line_break b") auto
    from sse_lines_stop [OF this] show ?thesis by simp
  qed
qed

lemma break_append:
  assumes "line_break b = Some n" and "\<not> half_break b n"
  shows "break_width (b @ c) n = break_width b n \<and> \<not> half_break (b @ c) n \<and> n + break_width b n \<le> length b"
proof (intro conjI)
  note n = line_break_Some [OF assms(1)]
  have LF: "take 2 (drop n x) \<noteq> [CR, LF]" if "n < length x" "x ! n = LF" for x
    using that by (simp add: Cons_nth_drop_Suc [symmetric] numeral_2_eq_2)
  show "break_width (b @ c) n = break_width b n"
  proof (cases "b ! n = LF")
    case True
    then show ?thesis using LF [of b] LF [of "b @ c"] n(1) by (simp add: break_width_def nth_append)
  next
    case False
    then have "2 \<le> length (drop n b)" using n assms(2) by (auto simp: half_break_def)
    moreover have "drop n (b @ c) = drop n b @ c" using n(1) by simp
    ultimately have "take 2 (drop n (b @ c)) = take 2 (drop n b)" by (simp only: take_append) simp
    then show ?thesis by (simp only: break_width_def)
  qed
  show "\<not> half_break (b @ c) n" using assms(2) n(1) by (auto simp: half_break_def nth_append)
  have "2 \<le> length (drop n b)" if "take 2 (drop n b) = [CR, LF]"
    using arg_cong [OF that, of length] by simp
  then show "n + break_width b n \<le> length b" using n(1) by (auto simp: break_width_def)
qed

text \<open>Reading on after some text is reading the text at once.\<close>

lemma sse_lines_append: "sse_lines (ss_buffer (sse_lines b s) @ c) (sse_lines b s) = sse_lines (b @ c) s"
proof (induction b arbitrary: s rule: length_induct)
  case (1 b)
  show ?case
  proof (cases "\<exists>n. line_break b = Some n \<and> \<not> half_break b n")
    case True
    then obtain n where n: "line_break b = Some n" "\<not> half_break b n" by blast
    note w = break_append [OF n, of c]
    let ?b = "drop (n + break_width b n) b" and ?s = "sse_line (take n b) s"
    have "sse_lines (ss_buffer (sse_lines ?b ?s) @ c) (sse_lines ?b ?s) = sse_lines (?b @ c) ?s"
      using 1 rest_shorter [OF n(1)] by blast
    also have "\<dots> = sse_lines (b @ c) s"
      using w line_break_Some(1) [OF n(1)] sse_lines_go [OF line_break_append [OF n(1), of c], of s]
      by simp
    finally show ?thesis by (simp add: sse_lines_go [OF n])
  next
    case False
    then have "line_break b = None \<or> line_break b = Some (the (line_break b)) \<and> half_break b (the (line_break b))"
      by (cases "line_break b") auto
    from sse_lines_stop [OF this] show ?thesis by (simp add: sse_lines_buffer)
  qed
qed

lemma sse_chunk_append: "sse_chunk (b @ c) s = sse_chunk c (sse_chunk b s)"
  by (simp add: sse_chunk_def sse_lines_append flip: append_assoc)

lemma fold_sse_chunk: "chunks \<noteq> [] \<Longrightarrow> fold sse_chunk chunks s = sse_chunk (concat chunks) s"
proof (induction chunks arbitrary: s)
  case (Cons c cs)
  then show ?case by (cases "cs = []") (simp_all add: sse_chunk_append)
qed simp

lemma sse_chunk_empty: "sse_chunk [] sse_start = sse_start"
  by (simp add: sse_chunk_def sse_start_def sse_lines_stop line_break_None)

lemma read_sse_concat: "read_sse_data chunks rest = sse_finish rest (sse_chunk (concat chunks) sse_start)"
  by (cases "chunks = []") (simp_all add: read_sse_data_def fold_sse_chunk sse_chunk_empty)

section \<open>Written events\<close>

definition write_event :: "string \<Rightarrow> string" where
  "write_event p = concat (map (\<lambda>l. ''data: '' @ l @ [LF]) (split_on LF p)) @ [LF]"

lemma sse_lines_plain:
  assumes "CR \<notin> set l" and "LF \<notin> set l"
  shows "sse_lines (l @ LF # t) s = sse_lines t (sse_line l s)"
proof -
  have n: "line_break (l @ LF # t) = Some (length l)" by (rule line_break_plain [OF assms])
  moreover have "\<not> half_break (l @ LF # t) (length l)" by (simp add: half_break_def)
  moreover have "break_width (l @ LF # t) (length l) = 1" by (cases t) (simp_all add: break_width_def)
  ultimately show ?thesis by (simp add: sse_lines_go)
qed

lemma payload_written: "payload (''data: '' @ l) = l"
  by (simp add: payload_def numeral_eq_Suc)

lemma read_data_lines:
  assumes "\<forall>l \<in> set ls. CR \<notin> set l \<and> LF \<notin> set l"
  shows "sse_lines (concat (map (\<lambda>l. ''data: '' @ l @ [LF]) ls) @ t) s = sse_lines t (s\<lparr>ss_data := ss_data s @ ls\<rparr>)"
  using assms
proof (induction ls arbitrary: s)
  case (Cons l ls)
  have "sse_line (''data: '' @ l) s = s\<lparr>ss_data := ss_data s @ [l]\<rparr>"
    by (simp add: sse_line_def is_data_def payload_written [simplified] numeral_eq_Suc)
  moreover have "sse_lines ((''data: '' @ l) @ LF # (concat (map (\<lambda>l. ''data: '' @ l @ [LF]) ls) @ t)) s
      = sse_lines (concat (map (\<lambda>l. ''data: '' @ l @ [LF]) ls) @ t) (sse_line (''data: '' @ l) s)"
    using Cons.prems by (intro sse_lines_plain) auto
  ultimately show ?case using Cons.IH [of "s\<lparr>ss_data := ss_data s @ [l]\<rparr>"] Cons.prems by simp
qed simp

lemma set_join: "l \<in> set ls \<Longrightarrow> set l \<subseteq> set (join sep ls)"
  by (induction ls) (auto simp: join_Cons)

lemma read_event:
  assumes "CR \<notin> set p" and "ss_data s = []"
  shows "sse_lines (write_event p @ t) s = sse_lines t (s\<lparr>ss_out := ss_out s @ [p]\<rparr>)"
proof -
  have parts: "\<forall>l \<in> set (split_on LF p). CR \<notin> set l \<and> LF \<notin> set l"
  proof
    fix l assume l: "l \<in> set (split_on LF p)"
    have "set l \<subseteq> set (join [LF] (split_on LF p))" by (rule set_join [OF l])
    then show "CR \<notin> set l \<and> LF \<notin> set l" using assms(1) split_on_no_sep [OF l] by (auto simp: join_split_on)
  qed
  have "sse_lines (write_event p @ t) s = sse_lines ([] @ LF # t) (s\<lparr>ss_data := split_on LF p\<rparr>)"
    using read_data_lines [OF parts, of "LF # t" s] assms(2) by (simp add: write_event_def)
  also have "\<dots> = sse_lines t (s\<lparr>ss_out := ss_out s @ [p]\<rparr>)"
  proof -
    have "sse_line [] (s\<lparr>ss_data := split_on LF p\<rparr>) = s\<lparr>ss_out := ss_out s @ [p]\<rparr>"
      using assms(2) by (cases s) (simp add: sse_line_def join_split_on)
    then show ?thesis by (subst sse_lines_plain) simp_all
  qed
  finally show ?thesis .
qed

lemma read_events:
  assumes "\<forall>p \<in> set ps. CR \<notin> set p" and "ss_data s = []"
  shows "sse_lines (concat (map write_event ps)) s = s\<lparr>ss_out := ss_out s @ ps, ss_buffer := []\<rparr>"
  using assms
proof (induction ps arbitrary: s)
  case Nil
  then show ?case by (simp add: sse_lines_stop line_break_None)
next
  case (Cons p ps)
  then show ?case by (simp add: read_event)
qed

text \<open>
  The payloads a provider writes are read back one by one, however the stream is cut into
  chunks: in the middle of a line, of a line end or of an event.
\<close>

theorem sse_round_trip:
  assumes "concat chunks = concat (map write_event ps)" and "\<forall>p \<in> set ps. CR \<notin> set p"
  shows "read_sse_data chunks [] = ps"
proof -
  have "sse_chunk (concat chunks) sse_start = sse_start\<lparr>ss_out := ps, ss_buffer := []\<rparr>"
    using read_events [OF assms(2), of sse_start] assms(1) by (simp add: sse_chunk_def sse_start_def)
  then show ?thesis by (simp add: read_sse_concat sse_finish_def sse_start_def is_data_def)
qed

text \<open>
  C22: The same for any stream, well formed or not: only the text counts.\<close>

theorem sse_cuts_do_not_matter:
  assumes "concat chunks = concat chunks'"
  shows "stream_answer parse chunks rest = stream_answer parse chunks' rest"
  using assms by (simp add: stream_answer_def read_sse_concat)


section \<open>Calls from parts\<close>

lemma call_at_put [simp]: "call_at j (put_call i c cs) = (if j = i then Some c else call_at j cs)"
  by (auto simp: call_at_def put_call_def nth_append nth_list_update nth_Cons')

definition arguments_at :: "nat \<Rightarrow> acc_call option list \<Rightarrow> string" where
  "arguments_at i cs = (case call_at i cs of None \<Rightarrow> [] | Some c \<Rightarrow> ac_arguments c)"

definition part_arguments :: "chunk_call \<Rightarrow> string" where
  "part_arguments p = (case cc_arguments p of None \<Rightarrow> [] | Some t \<Rightarrow> t)"

lemma extend_arguments: "ac_arguments (extend_call p c) = ac_arguments c @ part_arguments p"
  by (auto simp: extend_call_def Let_def part_arguments_def split: option.splits)

lemma push_indexed:
  assumes "cc_index p = Some j"
  shows "\<exists>cs'. push_tool_call p cs = Inr cs' \<and>
    (\<forall>i. arguments_at i cs' = arguments_at i cs @ (if i = j then part_arguments p else []))"
  using assms by (simp add: push_tool_call_def call_place_def arguments_at_def extend_arguments split: option.splits)

text \<open>
  Parts of several calls may come interleaved: with an index on every part, the arguments of each
  call are those of its own parts in order, and no part makes the accumulator fail.
\<close>

theorem calls_from_parts:
  assumes "\<forall>p \<in> set ps. cc_index p \<noteq> None"
  shows "\<exists>cs'. push_tool_calls ps cs = Inr cs'
     \<and> (\<forall>i. arguments_at i cs' = arguments_at i cs @ concat (map part_arguments (filter (\<lambda>p. cc_index p = Some i) ps)))"
  using assms
proof (induction ps arbitrary: cs)
  case (Cons p ps)
  then obtain j where j: "cc_index p = Some j" by auto
  from push_indexed [OF j, of cs] obtain cs1 where c1: "push_tool_call p cs = Inr cs1"
    "\<forall>i. arguments_at i cs1 = arguments_at i cs @ (if i = j then part_arguments p else [])" by blast
  from Cons obtain cs2 where "push_tool_calls ps cs1 = Inr cs2"
    "\<forall>i. arguments_at i cs2 = arguments_at i cs1 @ concat (map part_arguments (filter (\<lambda>p. cc_index p = Some i) ps))"
    by (metis list.set_intros(2))
  then show ?case using c1 j by auto
qed simp

section \<open>Edits\<close>

text \<open>\<open>e\<close> turns \<open>s\<close> into \<open>t\<close> at the only place where its text stands.\<close>

definition edits_to :: "text_edit \<Rightarrow> string \<Rightarrow> string \<Rightarrow> bool" where
  "edits_to e s t \<longleftrightarrow> (\<exists>a b. s = a @ fe_find e @ b \<and> t = a @ fe_replace e @ b \<and>
     (\<forall>a' b'. s = a' @ fe_find e @ b' \<longrightarrow> a' = a))"

fun edited :: "text_edit list \<Rightarrow> string \<Rightarrow> string \<Rightarrow> bool" where
  "edited [] s t = (s = t)"
| "edited (e # es) s t = (\<exists>u. edits_to e s u \<and> edited es u t)"

lemma prefix_at: "prefix sub (drop n s) \<and> n \<le> length s \<longleftrightarrow> (\<exists>a b. s = a @ sub @ b \<and> length a = n)"
proof
  assume n: "prefix sub (drop n s) \<and> n \<le> length s"
  then obtain b where "drop n s = sub @ b" by (auto simp: prefix_def)
  then have "s = take n s @ sub @ b" by (metis append_take_drop_id)
  moreover have "length (take n s) = n" using n by simp
  ultimately show "\<exists>a b. s = a @ sub @ b \<and> length a = n" by blast
qed auto

definition first_edit :: "text_edit \<Rightarrow> string \<Rightarrow> string \<Rightarrow> bool" where
  "first_edit e s t \<longleftrightarrow> (\<exists>n. index_of (fe_find e) s = Some n \<and> index_of (fe_find e) (drop (n + 1) s) = None
     \<and> t = take n s @ fe_replace e @ drop (n + length (fe_find e)) s)"

lemma first_edit_sound: "first_edit e s t \<Longrightarrow> edits_to e s t"
proof -
  assume "first_edit e s t"
  then obtain n where n: "index_of (fe_find e) s = Some n" "index_of (fe_find e) (drop (n + 1) s) = None"
    "t = take n s @ fe_replace e @ drop (n + length (fe_find e)) s" by (auto simp: first_edit_def)
  note at = index_of_Some [OF n(1)]
  from at obtain a b where ab: "s = a @ fe_find e @ b" "length a = n" using prefix_at by blast
  have "a' = a" if s': "s = a' @ fe_find e @ b'" for a' b'
  proof -
    have p: "prefix (fe_find e) (drop (length a') s)" by (simp add: s')
    have "\<not> length a' < n" using at p by blast
    moreover have "\<not> n < length a'"
    proof
      assume l: "n < length a'"
      then obtain m where m: "length a' = m + (n + 1)" by (metis Suc_eq_plus1 Suc_leI add.commute le_Suc_ex)
      have "length s = length a' + length (fe_find e) + length b'" by (simp add: s')
      then have "m \<le> length (drop (n + 1) s)" using m by simp
      from index_of_None [OF n(2) this] p show False by (simp only: drop_drop m)
    qed
    ultimately have "length a' = length a" using ab(2) by simp
    then show ?thesis using trans [OF ab(1) [symmetric] s'] by simp
  qed
  moreover have "t = a @ fe_replace e @ b" using ab n(3) by simp
  ultimately show "edits_to e s t" using ab(1) by (auto simp: edits_to_def)
qed

lemma first_edit_complete:
  assumes "edits_to e s t" and "fe_find e \<noteq> []"
  shows "first_edit e s t"
proof -
  from assms(1) obtain a b where ab: "s = a @ fe_find e @ b" "t = a @ fe_replace e @ b"
    and only: "\<And>a' b'. s = a' @ fe_find e @ b' \<Longrightarrow> a' = a" unfolding edits_to_def by blast
  have len: "length s = length a + length (fe_find e) + length b" by (simp add: ab(1))
  have here: "prefix (fe_find e) (drop (length a) s)" by (simp add: ab(1))
  have "index_of (fe_find e) s \<noteq> None"
  proof
    assume "index_of (fe_find e) s = None"
    from index_of_None [OF this, of "length a"] here show False by (simp only: len) simp
  qed
  then obtain n where n: "index_of (fe_find e) s = Some n" by blast
  have "prefix (fe_find e) (drop n s) \<and> n \<le> length s" using index_of_Some [OF n] by blast
  then obtain a' b' where a': "s = a' @ fe_find e @ b'" "length a' = n" using prefix_at by blast
  have la: "length a = n" using only [OF a'(1)] a'(2) by simp
  have "index_of (fe_find e) (drop (n + 1) s) = None"
  proof (rule ccontr)
    assume "\<not> ?thesis"
    then obtain k where k: "index_of (fe_find e) (drop (n + 1) s) = Some k" by auto
    have "prefix (fe_find e) (drop k (drop (n + 1) s)) \<and> k \<le> length (drop (n + 1) s)" using index_of_Some [OF k] by blast
    then obtain c d where cd: "drop (n + 1) s = c @ fe_find e @ d" using prefix_at by blast
    have "take (n + 1) s @ drop (n + 1) s = s" by (rule append_take_drop_id)
    then have "s = (take (n + 1) s @ c) @ fe_find e @ d" by (simp only: cd append_assoc)
    then have eq: "take (n + 1) s @ c = a" by (rule only)
    have "length (take (n + 1) s) \<le> n" using arg_cong [OF eq, of length] la by simp
    moreover have "0 < length (fe_find e)" using assms(2) by simp
    ultimately show False using len la by simp
  qed
  moreover have "t = take n s @ fe_replace e @ drop (n + length (fe_find e)) s"
    unfolding ab la [symmetric] by simp
  ultimately show ?thesis unfolding first_edit_def using n by blast
qed

lemma apply_edits_Cons:
  "apply_edits i (e # es) s = Inr t \<longleftrightarrow> (\<exists>u. first_edit e s u \<and> apply_edits (Suc i) es u = Inr t)"
  by (auto simp: first_edit_def split: option.splits)

text \<open>
  A list of edits goes through exactly when each text to find stands at exactly one place of
  what the edits before it left, and then only those places change.
\<close>

theorem edits_where_meant:
  assumes "\<forall>e \<in> set es. fe_find e \<noteq> []"
  shows "apply_edits i es s = Inr t \<longleftrightarrow> edited es s t"
  using assms
proof (induction es arbitrary: i s)
  case (Cons e es)
  have "first_edit e s u \<longleftrightarrow> edits_to e s u" for u
    using first_edit_sound first_edit_complete Cons.prems by auto
  then show ?case using Cons by (simp add: apply_edits_Cons del: apply_edits.simps(2))
qed simp

section \<open>Secret files\<close>

text \<open>
  The check for secret files looks at the spelling of the path, the file manager at the path it
  resolves to: with a slash behind it the name of the forwarding secret passes the check and
  names the same file.
\<close>

theorem secret_file_by_spelling:
  "is_secret_file ''forwarding.secret'' \<and> \<not> is_secret_file ''forwarding.secret/''
   \<and> get_safe_server_path cwd i ''forwarding.secret/'' = get_safe_server_path cwd i ''forwarding.secret''
   \<and> (plan_write ''forwarding.secret/'' current None [] \<noteq> Inl SECRET_FILE)"
proof -
  let ?p = "''forwarding.secret''" and ?q = "''forwarding.secret/''"
  let ?b = "abs_segs cwd [get_server_path i]"
  have n: "normalize_path ?p = ?p" "normalize_path ?q = ?q" by code_simp+
  have "split_on slash ?p = [?p]" "split_on slash ?q = [?p, []]" by code_simp+
  then have "norm_segs False (rev ?b) (split_on slash ?q) = norm_segs False (rev ?b) (split_on slash ?p)"
    by (simp add: dotdot_def)
  then have "resolve_path cwd [join_paths [resolve_path cwd [get_server_path i], normalize_path ?q]]
      = resolve_path cwd [join_paths [resolve_path cwd [get_server_path i], normalize_path ?p]]"
    using join_under [OF abs_segs_clean, of cwd cwd "[get_server_path i]" ?p] join_under [OF abs_segs_clean, of cwd cwd "[get_server_path i]" ?q] n
    by (simp add: resolve_path_def)
  then have "get_safe_server_path cwd i ?q = get_safe_server_path cwd i ?p"
    by (simp add: get_safe_server_path_def)
  moreover have s: "is_secret_file ?p \<and> \<not> is_secret_file ?q" by code_simp
  moreover have "plan_write ?q current None [] \<noteq> Inl SECRET_FILE"
    using s by (auto simp: plan_write_def Let_def SECRET_FILE_def)
  ultimately show ?thesis by blast
qed

section \<open>Concrete streams\<close>

theorem sse_round_trip_witness:
  "read_sse_data [''data: a'', [LF], ''data:'', '' b'' @ [LF, LF]] [] = [''a'' @ [LF] @ ''b'']"
  by (rule sse_round_trip) (simp_all add: write_event_def)

theorem sse_cuts_do_not_matter_witness:
  "stream_answer (\<lambda>d. Inr None) [''data: [DONE]'' @ [CR], [LF] @ [LF]] [] = stream_answer (\<lambda>d. Inr None) [''data: [DONE]'' @ [CR, LF, LF]] []"
  by (rule sse_cuts_do_not_matter) simp

theorem calls_from_parts_witness:
  "\<exists>cs'. push_tool_calls [\<lparr>cc_index = Some 1, cc_id = None, cc_name = None, cc_arguments = Some ''x''\<rparr>,
       \<lparr>cc_index = Some 0, cc_id = None, cc_name = None, cc_arguments = Some ''y''\<rparr>] [] = Inr cs'
     \<and> arguments_at 1 cs' = ''x''"
  using calls_from_parts [of "[\<lparr>cc_index = Some 1, cc_id = None, cc_name = None, cc_arguments = Some ''x''\<rparr>,
       \<lparr>cc_index = Some 0, cc_id = None, cc_name = None, cc_arguments = Some ''y''\<rparr>]" "[]"]
  by (auto simp: arguments_at_def [of _ "[]"] call_at_def part_arguments_def)

theorem edits_where_meant_witness:
  "apply_edits 0 [\<lparr>fe_find = ''b'', fe_replace = ''x''\<rparr>] ''abc'' = Inr ''axc'' \<and> edited [\<lparr>fe_find = ''b'', fe_replace = ''x''\<rparr>] ''abc'' ''axc''"
proof -
  have "apply_edits 0 [\<lparr>fe_find = ''b'', fe_replace = ''x''\<rparr>] ''abc'' = Inr ''axc''" by code_simp
  then show ?thesis using edits_where_meant [of "[\<lparr>fe_find = ''b'', fe_replace = ''x''\<rparr>]" 0 "''abc''" "''axc''"] by simp
qed

end
