(* ===== verification/Telegram_Links.thy ===== *)
theory Telegram_Links
  imports Rate_Limit
begin

text \<open>
  Linking a Telegram user to an account (\<open>telegram-bot/bot-linking.service.ts\<close>, \<open>bot-users.service.ts\<close>,
  the end of \<open>deliver\<close> in \<open>telegram-notifier.ts\<close>) over the tables \<open>telegram_users\<close> and \<open>otp_codes\<close>.

  An account asks the panel for a code of six digits; whoever sends that code to the bot is linked
  to the account.  The hash, the codes, ids and the clock are arguments.  \<open>ln_made\<close> lists the
  links so far (code, Telegram user, account); no operation reads it.
\<close>

section \<open>Tables (telegram-users.repository.ts, otp-codes.repository.ts)\<close>

datatype tg_lang = LangEn | LangRu

record tg_link =
  tl_id :: int
  tl_user :: string
  tl_username :: "string option"
  tl_first :: "string option"
  tl_last :: "string option"
  tl_at :: int
  tl_active :: bool
  tl_lang :: "tg_lang option"

record otp_code =
  oc_id :: string
  oc_user :: string
  oc_hash :: string
  oc_created :: int
  oc_expires :: int
  oc_used :: bool

text \<open>What the audit log says of an attempt: the account, and the error if it failed.\<close>

record link_audit =
  lk_user :: "string option"
  lk_error :: "string option"

record links =
  ln_links :: "tg_link list"
  ln_codes :: "otp_code list"
  ln_limits :: rate_limits
  ln_audit :: "link_audit list"
  ln_made :: "(string \<times> int \<times> string) list"

definition link_by_user :: "links \<Rightarrow> string \<Rightarrow> tg_link option" where
  "link_by_user w u = List.find (\<lambda>l. tl_user l = u) (ln_links w)"

text \<open>\<open>id\<close> is the primary key, and \<open>idx_telegram_users_user_id\<close> makes \<open>userId\<close> unique.\<close>

definition link_create :: "tg_link \<Rightarrow> tg_link list \<Rightarrow> tg_link list result" where
  "link_create l t =
     (if row_find tl_id (tl_id l) t \<noteq> None then fail Internal ''UNIQUE constraint failed: telegram_users.id''
      else if tl_user l \<in> tl_user ` set t then fail Internal ''UNIQUE constraint failed: telegram_users.userId''
      else Inr (t @ [l]))"

definition link_update :: "tg_link \<Rightarrow> tg_link list \<Rightarrow> tg_link list result" where
  "link_update l t =
     (if row_find tl_id (tl_id l) t \<noteq> None \<and> (\<exists>x \<in> set t. tl_id x \<noteq> tl_id l \<and> tl_user x = tl_user l)
      then fail Internal ''UNIQUE constraint failed: telegram_users.userId''
      else Inr (map (\<lambda>x. if tl_id x = tl_id l then l else x) t))"

definition link_deactivate :: "int \<Rightarrow> links \<Rightarrow> links" where
  "link_deactivate i w = w\<lparr>ln_links := map (\<lambda>x. if tl_id x = i then x\<lparr>tl_active := False\<rparr> else x) (ln_links w)\<rparr>"

definition newer_code :: "otp_code \<Rightarrow> otp_code option \<Rightarrow> otp_code option" where
  "newer_code c best = (case best of None \<Rightarrow> Some c | Some b \<Rightarrow> if oc_created b > oc_created c then Some b else Some c)"

text \<open>\<open>ORDER BY createdAt DESC LIMIT 1\<close>; among codes of one millisecond the one inserted first.\<close>

definition code_valid_for :: "links \<Rightarrow> string \<Rightarrow> int \<Rightarrow> otp_code option" where
  "code_valid_for w u now =
     foldr newer_code (filter (\<lambda>c. oc_user c = u \<and> now < oc_expires c \<and> \<not> oc_used c) (ln_codes w)) None"

definition code_mark_used :: "string \<Rightarrow> links \<Rightarrow> links" where
  "code_mark_used i w = w\<lparr>ln_codes := map (\<lambda>c. if oc_id c = i then c\<lparr>oc_used := True\<rparr> else c) (ln_codes w)\<rparr>"

definition code_delete_expired :: "int \<Rightarrow> links \<Rightarrow> links" where
  "code_delete_expired now w = w\<lparr>ln_codes := filter (\<lambda>c. \<not> oc_expires c < now) (ln_codes w)\<rparr>"

section \<open>Codes (bot-linking.service.ts)\<close>

definition OTP_EXPIRY_MS :: int where "OTP_EXPIRY_MS = 120000"

definition generate_otp :: "(string \<Rightarrow> string) \<Rightarrow> links \<Rightarrow> string \<Rightarrow> string \<Rightarrow> string \<Rightarrow> int \<Rightarrow> links" where
  "generate_otp hash w u otp i now =
     (let w1 = code_delete_expired now w in
      w1\<lparr>ln_codes := ln_codes w1 @ [\<lparr>oc_id = i, oc_user = u, oc_hash = hash otp, oc_created = now,
         oc_expires = now + OTP_EXPIRY_MS, oc_used = False\<rparr>]\<rparr>)"

definition validate_otp :: "(string \<Rightarrow> string) \<Rightarrow> links \<Rightarrow> string \<Rightarrow> string \<Rightarrow> int \<Rightarrow> bool result \<times> links" where
  "validate_otp hash w u code now =
     (case rl_check (ln_limits w) PTelegramOtp u now of
        (Inl e, rl) \<Rightarrow> (Inl e, w\<lparr>ln_limits := rl\<rparr>)
      | (Inr _, rl) \<Rightarrow>
          let w1 = w\<lparr>ln_limits := rl\<rparr>;
              wrong = (case rl_fail rl PTelegramOtp u \<lparr>ls_user_id = Some u, ls_username = None, ls_ip = None\<rparr> now of
                 (r, rl2) \<Rightarrow> (and_then r (\<lambda>_. Inr False), w\<lparr>ln_limits := rl2\<rparr>)) in
          (case code_valid_for w u now of
             None \<Rightarrow> wrong
           | Some c \<Rightarrow> if oc_hash c \<noteq> hash code then wrong
                      else (Inr True, code_mark_used (oc_id c) (w1\<lparr>ln_limits := rl_succeed rl PTelegramOtp u\<rparr>))))"

text \<open>The sender of a message.\<close>

record tg_from =
  tf_id :: int
  tf_username :: "string option"
  tf_first :: "string option"
  tf_last :: "string option"
  tf_lang :: "string option"

definition detect_lang :: "string option \<Rightarrow> tg_lang" where
  "detect_lang code = (case code of None \<Rightarrow> LangEn | Some c \<Rightarrow> if take 2 (to_lower c) = ''ru'' then LangRu else LangEn)"

datatype otp_reply =
    OtpTooMany int | OtpInvalid | OtpAccountElsewhere | OtpTelegramElsewhere | OtpSuccess tg_lang | OtpFailed

definition audit_link :: "string option \<Rightarrow> string option \<Rightarrow> links \<Rightarrow> links" where
  "audit_link u e w = w\<lparr>ln_audit := ln_audit w @ [\<lparr>lk_user = u, lk_error = e\<rparr>]\<rparr>"

definition tg_key :: "int \<Rightarrow> string" where
  "tg_key i = ''tg:'' @ (if i < 0 then CHR ''-'' # digits (nat (- i)) else digits (nat i))"

text \<open>
  A code sent to the bot; \<open>account\<close> says whether the account of a code still exists (for the audit).
  An error of the tables is caught and answered.
\<close>

definition handle_otp_code ::
  "(string \<Rightarrow> string) \<Rightarrow> (string \<Rightarrow> bool) \<Rightarrow> links \<Rightarrow> tg_from \<Rightarrow> string \<Rightarrow> int \<Rightarrow> otp_reply option \<times> links" where
  "handle_otp_code hash account w from code now =
     (let i = tf_id from in
      if i = 0 then (None, w)
      else case rl_wait_seconds (ln_limits w) PTelegramOtp (tg_key i) now of
        (wait, rl) \<Rightarrow>
          let w1 = w\<lparr>ln_limits := rl\<rparr> in
          if wait > 0 then (Some (OtpTooMany (ceil_div wait 60)), w1)
          else case List.find (\<lambda>c. oc_hash c = hash code \<and> now < oc_expires c \<and> \<not> oc_used c) (ln_codes w1) of
            None \<Rightarrow>
              (case rl_fail rl PTelegramOtp (tg_key i) \<lparr>ls_user_id = None, ls_username = None, ls_ip = None\<rparr> now of
                 (Inl e, rl2) \<Rightarrow> (Some OtpFailed, w\<lparr>ln_limits := rl2\<rparr>)
               | (Inr _, rl2) \<Rightarrow> (Some OtpInvalid, audit_link None (Some ''Invalid or expired code'') (w\<lparr>ln_limits := rl2\<rparr>)))
          | Some c \<Rightarrow>
              let w2 = w\<lparr>ln_limits := rl_succeed rl PTelegramOtp (tg_key i)\<rparr>;
                  actor = (if account (oc_user c) then Some (oc_user c) else None);
                  own = link_by_user w (oc_user c); old = row_find tl_id i (ln_links w) in
              if (case own of None \<Rightarrow> False | Some l \<Rightarrow> tl_active l \<and> tl_id l \<noteq> i)
              then (Some OtpAccountElsewhere, audit_link actor (Some ''Account is already linked to another Telegram user'') w2)
              else if (case old of None \<Rightarrow> False | Some l \<Rightarrow> tl_active l \<and> tl_user l \<noteq> oc_user c)
              then (Some OtpTelegramElsewhere, audit_link actor (Some ''Telegram user is already linked to another account'') w2)
              else
                let lang = (case old of Some l \<Rightarrow> (case tl_lang l of Some x \<Rightarrow> x | None \<Rightarrow> detect_lang (tf_lang from))
                            | None \<Rightarrow> detect_lang (tf_lang from));
                    link = \<lparr>tl_id = i, tl_user = oc_user c, tl_username = tf_username from, tl_first = tf_first from,
                            tl_last = tf_last from, tl_at = now, tl_active = True, tl_lang = Some lang\<rparr> in
                (case (case old of Some _ \<Rightarrow> link_update link (ln_links w2) | None \<Rightarrow> link_create link (ln_links w2)) of
                   Inl e \<Rightarrow> (Some OtpFailed, w2)
                 | Inr t \<Rightarrow>
                     (Some (OtpSuccess lang), audit_link actor None (code_mark_used (oc_id c)
                        (w2\<lparr>ln_links := t, ln_made := ln_made w2 @ [(oc_id c, i, oc_user c)]\<rparr>)))))"

section \<open>Unlinking, languages, deliveries\<close>

definition unlink_user :: "links \<Rightarrow> int \<Rightarrow> unit result \<times> links" where
  "unlink_user w i =
     (case row_find tl_id i (ln_links w) of
        None \<Rightarrow> (fail NotFound ''Telegram user not found'', w)
      | Some l \<Rightarrow> (Inr (), link_deactivate i w))"

definition active_link :: "links \<Rightarrow> int \<Rightarrow> tg_link option" where
  "active_link w i =
     (if i = 0 then None
      else case row_find tl_id i (ln_links w) of None \<Rightarrow> None | Some l \<Rightarrow> if tl_active l then Some l else None)"

definition set_language :: "links \<Rightarrow> int \<Rightarrow> tg_lang \<Rightarrow> unit result \<times> links" where
  "set_language w i lang =
     (case active_link w i of
        None \<Rightarrow> (Inr (), w)
      | Some l \<Rightarrow>
         (case link_update (l\<lparr>tl_lang := Some lang\<rparr>) (ln_links w) of
            Inl e \<Rightarrow> (Inl e, w) | Inr t \<Rightarrow> (Inr (), w\<lparr>ln_links := t\<rparr>)))"

text \<open>Who a notification for an account goes to, and what a failed delivery does.\<close>

definition linked_user :: "links \<Rightarrow> string \<Rightarrow> tg_link option" where
  "linked_user w u = (case link_by_user w u of None \<Rightarrow> None | Some l \<Rightarrow> if tl_active l then Some l else None)"

definition delivery_failed :: "bool \<Rightarrow> links \<Rightarrow> tg_link \<Rightarrow> links" where
  "delivery_failed unreachable w l = (if unreachable then link_deactivate (tl_id l) w else w)"

text \<open>\<open>ON DELETE CASCADE\<close> of the account.\<close>

definition links_account_deleted :: "string \<Rightarrow> links \<Rightarrow> links" where
  "links_account_deleted u w =
     w\<lparr>ln_links := filter (\<lambda>l. tl_user l \<noteq> u) (ln_links w), ln_codes := filter (\<lambda>c. oc_user c \<noteq> u) (ln_codes w)\<rparr>"

section \<open>All of it\<close>

inductive link_step :: "(string \<Rightarrow> string) \<Rightarrow> links \<Rightarrow> links \<Rightarrow> bool" for hash where
  generate: "i \<notin> oc_id ` set (ln_codes w) \<Longrightarrow> i \<notin> fst ` set (ln_made w) \<Longrightarrow> link_step hash w (generate_otp hash w u otp i now)"
| validate: "link_step hash w (snd (validate_otp hash w u code now))"
| message: "link_step hash w (snd (handle_otp_code hash account w from code now))"
| unlink: "link_step hash w (snd (unlink_user w i))"
| language: "link_step hash w (snd (set_language w i lang))"
| delivery: "link_step hash w (delivery_failed b w l)"
| account_gone: "link_step hash w (links_account_deleted u w)"

definition links_start :: links where
  "links_start = \<lparr>ln_links = [], ln_codes = [], ln_limits = rate_limits_init, ln_audit = [], ln_made = []\<rparr>"

inductive link_reach :: "(string \<Rightarrow> string) \<Rightarrow> links \<Rightarrow> bool" for hash where
  link_first: "link_reach hash links_start"
| link_next: "link_reach hash w \<Longrightarrow> link_step hash w w' \<Longrightarrow> link_reach hash w'"

section \<open>Invariant\<close>

text \<open>
  Telegram users and accounts are linked one to one; every link was made with a code, each code
  made at most one, and a code that made one is not valid any more.
\<close>

definition links_inv :: "links \<Rightarrow> bool" where
  "links_inv w \<longleftrightarrow> distinct (map tl_id (ln_links w)) \<and> distinct (map tl_user (ln_links w))
     \<and> distinct (map oc_id (ln_codes w)) \<and> distinct (map fst (ln_made w))
     \<and> (\<forall>l \<in> set (ln_links w). (tl_id l, tl_user l) \<in> snd ` set (ln_made w))
     \<and> (\<forall>c \<in> set (ln_codes w). oc_id c \<in> fst ` set (ln_made w) \<longrightarrow> oc_used c)"

lemma links_inv_limits [simp]: "links_inv (w\<lparr>ln_limits := rl\<rparr>) = links_inv w" "links_inv (audit_link u e w) = links_inv w"
  by (simp_all add: links_inv_def audit_link_def)

lemma map_link_keys:
  "(\<And>x. tl_id (f x) = tl_id x) \<Longrightarrow> map tl_id (map f t) = map tl_id t"
  "(\<And>x. tl_user (f x) = tl_user x) \<Longrightarrow> map tl_user (map f t) = map tl_user t"
  by (simp_all add: comp_def)

lemma inv_deactivate: "links_inv w \<Longrightarrow> links_inv (link_deactivate i w)"
  by (auto simp: links_inv_def link_deactivate_def map_link_keys simp del: map_map)

lemma mark_used_ids: "map oc_id (map (\<lambda>c. if oc_id c = i then c\<lparr>oc_used := True\<rparr> else c) t) = map oc_id t"
  by (induction t) auto

lemma inv_mark_used: "links_inv w \<Longrightarrow> links_inv (code_mark_used i w)"
  by (auto simp: links_inv_def code_mark_used_def mark_used_ids simp del: map_map)

lemma inv_generate:
  assumes "links_inv w" and "i \<notin> oc_id ` set (ln_codes w)" and "i \<notin> fst ` set (ln_made w)"
  shows "links_inv (generate_otp hash w u otp i now)"
  using assms by (auto simp: links_inv_def generate_otp_def code_delete_expired_def Let_def distinct_map_filter)

lemma inv_gone: "links_inv w \<Longrightarrow> links_inv (links_account_deleted u w)"
  by (auto simp: links_inv_def links_account_deleted_def distinct_map_filter)

lemma link_create_ok:
  assumes "link_create l t = Inr t'" and "distinct (map tl_id t)" and "distinct (map tl_user t)"
  shows "distinct (map tl_id t') \<and> distinct (map tl_user t') \<and> set t' = insert l (set t)"
  using assms by (auto simp: link_create_def row_find_None_iff split: if_splits)

lemma link_update_ok:
  assumes "link_update l t = Inr t'" and "distinct (map tl_id t)" and "distinct (map tl_user t)"
  shows "distinct (map tl_id t') \<and> distinct (map tl_user t') \<and> set t' \<subseteq> insert l (set t)"
proof -
  define f where "f = (\<lambda>x. if tl_id x = tl_id l then l else x)"
  have "\<not> (row_find tl_id (tl_id l) t \<noteq> None \<and> (\<exists>x \<in> set t. tl_id x \<noteq> tl_id l \<and> tl_user x = tl_user l))"
  proof
    assume "row_find tl_id (tl_id l) t \<noteq> None \<and> (\<exists>x \<in> set t. tl_id x \<noteq> tl_id l \<and> tl_user x = tl_user l)"
    then show False using assms(1) by (simp only: link_update_def if_True) simp
  qed
  then have t': "t' = map f t"
    and free: "row_find tl_id (tl_id l) t = None \<or> (\<forall>x \<in> set t. tl_id x = tl_id l \<or> tl_user x \<noteq> tl_user l)"
    using assms(1) unfolding link_update_def f_def by (simp_all only: if_False sum.inject) blast
  have ids: "tl_id (f x) = tl_id x" for x by (simp add: f_def)
  have "inj_on (\<lambda>x. tl_user (f x)) (set t)"
  proof (rule inj_onI)
    fix x y assume xy: "x \<in> set t" "y \<in> set t" "tl_user (f x) = tl_user (f y)"
    have same_id: "tl_id x = tl_id y \<Longrightarrow> x = y" by (rule row_key_eq [unfolded rows_ok_def, OF assms(2) xy(1,2)])
    have same_user: "tl_user x = tl_user y \<Longrightarrow> x = y" by (rule row_key_eq [unfolded rows_ok_def, OF assms(3) xy(1,2)])
    show "x = y"
    proof (cases "row_find tl_id (tl_id l) t = None")
      case True
      then have "tl_id x \<noteq> tl_id l" "tl_id y \<noteq> tl_id l" using xy(1,2) by (metis image_eqI row_find_None_iff)+
      then show ?thesis using same_user xy(3) by (simp add: f_def)
    next
      case False
      then have free': "\<forall>x \<in> set t. tl_id x = tl_id l \<or> tl_user x \<noteq> tl_user l"
        using free by (simp only: simp_thms)
      consider "tl_id x = tl_id l" "tl_id y = tl_id l" | "tl_id x = tl_id l" "tl_id y \<noteq> tl_id l"
        | "tl_id x \<noteq> tl_id l" "tl_id y = tl_id l" | "tl_id x \<noteq> tl_id l" "tl_id y \<noteq> tl_id l" by blast
      then show ?thesis
      proof cases
        case 1
        show ?thesis by (rule same_id) (simp add: 1)
      next
        case 2
        then have "tl_user y = tl_user l" using xy(3) by (simp add: f_def)
        then show ?thesis using free' xy(2) 2 by blast
      next
        case 3
        then have "tl_user x = tl_user l" using xy(3) by (simp add: f_def)
        then show ?thesis using free' xy(1) 3 by blast
      next
        case 4
        show ?thesis by (rule same_user) (use xy(3) 4 in \<open>simp add: f_def\<close>)
      qed
    qed
  qed
  moreover have "distinct t" using assms(2) by (simp add: distinct_map)
  ultimately have "distinct (map tl_user t')" by (simp add: t' distinct_map comp_def)
  moreover have "map tl_id t' = map tl_id t" by (simp add: t' comp_def ids)
  moreover have "set t' \<subseteq> insert l (set t)" by (auto simp: t' f_def)
  ultimately show ?thesis using assms(2) by simp
qed

lemma inv_language: "links_inv w \<Longrightarrow> links_inv (snd (set_language w i lang))"
proof -
  assume inv: "links_inv w"
  have "links_inv (w\<lparr>ln_links := t\<rparr>)"
    if l: "active_link w i = Some l" and u: "link_update (l\<lparr>tl_lang := Some lang\<rparr>) (ln_links w) = Inr t" for l t
  proof -
    have "l \<in> set (ln_links w)" using l by (auto simp: active_link_def dest: row_find_Some_in split: option.splits if_splits)
    then have "(tl_id l, tl_user l) \<in> snd ` set (ln_made w)" using inv by (simp add: links_inv_def)
    moreover have "set t \<subseteq> insert (l\<lparr>tl_lang := Some lang\<rparr>) (set (ln_links w))"
      "distinct (map tl_id t)" "distinct (map tl_user t)" using link_update_ok [OF u] inv by (auto simp: links_inv_def)
    ultimately have "\<forall>x \<in> set t. (tl_id x, tl_user x) \<in> snd ` set (ln_made w)"
      using inv by (auto simp: links_inv_def dest!: subsetD intro: rev_image_eqI)
    then show ?thesis using inv \<open>distinct (map tl_id t)\<close> \<open>distinct (map tl_user t)\<close> by (simp add: links_inv_def)
  qed
  then show ?thesis using inv by (auto simp: set_language_def split: option.splits sum.splits)
qed

lemma link_saved:
  assumes inv: "links_inv w" and c: "c \<in> set (ln_codes w)" "\<not> oc_used c"
    and t: "(case old of Some _ \<Rightarrow> link_update l (ln_links w) | None \<Rightarrow> link_create l (ln_links w)) = Inr t"
    and l: "tl_id l = i" "tl_user l = oc_user c"
  shows "links_inv (code_mark_used (oc_id c) (w\<lparr>ln_links := t, ln_made := ln_made w @ [(oc_id c, i, oc_user c)]\<rparr>))"
proof -
  have t2: "distinct (map tl_id t) \<and> distinct (map tl_user t) \<and> set t \<subseteq> insert l (set (ln_links w))"
    using t inv link_update_ok [of l "ln_links w" t] link_create_ok [of l "ln_links w" t]
    by (auto simp: links_inv_def split: option.splits)
  have "oc_id c \<notin> fst ` set (ln_made w)" using inv c by (auto simp: links_inv_def)
  then show ?thesis
    using inv t2 l by (auto simp: links_inv_def code_mark_used_def mark_used_ids simp del: map_map)
qed

lemma inv_message: "links_inv w \<Longrightarrow> links_inv (snd (handle_otp_code hash account w from code now))"
proof -
  assume inv: "links_inv w"
  define rl where "rl = snd (rl_wait_seconds (ln_limits w) PTelegramOtp (tg_key (tf_id from)) now)"
  have found: "c \<in> set (ln_codes w) \<and> \<not> oc_used c"
    if "List.find (\<lambda>c. oc_hash c = hash code \<and> now < oc_expires c \<and> \<not> oc_used c) (ln_codes w) = Some c" for c
    using that by (auto simp: find_Some_iff)
  have saved: "links_inv (code_mark_used (oc_id c) (w\<lparr>ln_limits := x, ln_links := t, ln_made := ln_made w @ [(oc_id c, i, oc_user c)]\<rparr>))"
    if "c \<in> set (ln_codes w)" "\<not> oc_used c"
      "(case old of Some _ \<Rightarrow> link_update l (ln_links w) | None \<Rightarrow> link_create l (ln_links w)) = Inr t"
      "tl_id l = i" "tl_user l = oc_user c" for c x t i l and old :: "tg_link option"
  proof -
    have "links_inv (w\<lparr>ln_limits := x\<rparr>)" "ln_links (w\<lparr>ln_limits := x\<rparr>) = ln_links w" using inv by simp_all
    then show ?thesis using link_saved [of "w\<lparr>ln_limits := x\<rparr>" c l old t i] that by (cases old) simp_all
  qed
  show ?thesis
    using inv unfolding handle_otp_code_def Let_def
    by (auto simp: links_inv_limits dest!: found intro!: saved split: prod.splits option.splits sum.splits if_splits)
qed

end
