(* ===== verification/Telegram_Properties.thy ===== *)
theory Telegram_Properties
  imports Telegram_Links Twofa
begin

text \<open>
  Who may decide a login over Telegram, and what unlinking leaves behind.
\<close>

lemma links_step: "link_step hash w w' \<Longrightarrow> links_inv w \<Longrightarrow> links_inv w'"
proof (induction rule: link_step.induct)
  case (generate i w u otp now)
  then show ?case using inv_generate by blast
next
  case (validate w u code now)
  then show ?case
    by (auto simp: validate_otp_def Let_def intro: inv_mark_used split: prod.splits sum.splits option.splits)
next
  case (message w account sender code now)
  then show ?case using inv_message by blast
next
  case (unlink w i)
  then show ?case by (auto simp: unlink_user_def inv_deactivate split: option.splits)
next
  case (language w i lang)
  then show ?case using inv_language by blast
next
  case (delivery w b l)
  then show ?case by (simp add: delivery_failed_def inv_deactivate)
next
  case (account_gone w u)
  then show ?case using inv_gone by blast
qed

lemma links_inv_reach: "link_reach hash w \<Longrightarrow> links_inv w"
  by (induction rule: link_reach.induct) (simp add: links_inv_def links_start_def, rule links_step)

section \<open>Properties\<close>

text \<open>What the second factor sees of the table.\<close>

definition tg_of_link :: "links \<Rightarrow> int \<Rightarrow> tg_user option" where
  "tg_of_link w i = map_option (\<lambda>l. \<lparr>tg_active = tl_active l, tg_user_id = Some (tl_user l)\<rparr>) (row_find tl_id i (ln_links w))"


text \<open>
  Unlinking leaves the row of the account behind, and the account is unique in the table: no other
  Telegram user can be linked to that account any more, whatever valid code it sends.  The code
  stays unused and the answer is that linking failed.
\<close>

theorem unlinked_account_not_linkable:
  assumes "links_inv w" and "l \<in> set (ln_links w)" and "\<not> tl_active l"
    and "tf_id from \<noteq> 0" and "tf_id from \<noteq> tl_id l"
    and "\<not> fst (rl_wait_seconds (ln_limits w) PTelegramOtp (tg_key (tf_id from)) now) > 0"
    and "List.find (\<lambda>c. oc_hash c = hash code \<and> now < oc_expires c \<and> \<not> oc_used c) (ln_codes w) = Some c"
    and "oc_user c = tl_user l"
    and "\<not> (\<exists>x \<in> set (ln_links w). tl_id x = tf_id from \<and> tl_active x)"
  shows "fst (handle_otp_code hash account w from code now) = Some OtpFailed
     \<and> ln_links (snd (handle_otp_code hash account w from code now)) = ln_links w
     \<and> ln_codes (snd (handle_otp_code hash account w from code now)) = ln_codes w"
proof -
  obtain wait rl where rl: "rl_wait_seconds (ln_limits w) PTelegramOtp (tg_key (tf_id from)) now = (wait, rl)" by fastforce
  have own: "link_by_user w (oc_user c) = Some l"
  proof -
    have "distinct (map tl_user (ln_links w))" using assms(1) by (simp add: links_inv_def)
    then show ?thesis using row_find_in [of tl_user "ln_links w" l] assms(2,8)
      by (simp add: link_by_user_def row_find_def rows_ok_def)
  qed
  have old: "case row_find tl_id (tf_id from) (ln_links w) of None \<Rightarrow> True | Some x \<Rightarrow> \<not> tl_active x"
    using assms(9) by (auto dest: row_find_Some_in split: option.splits)
  have taken: "link_create x (ln_links w) \<noteq> Inr t"
      "row_find tl_id (tf_id from) (ln_links w) = Some y \<Longrightarrow> link_update x (ln_links w) \<noteq> Inr t"
    if "tl_id x = tf_id from" "tl_user x = tl_user l" for x y t
    using assms(2,5) that by (auto simp: link_create_def link_update_def)
  show ?thesis
    using assms(3-8) own old taken rl
    by (auto simp: handle_otp_code_def Let_def split: option.splits sum.splits)
qed

section \<open>Concrete links\<close>

definition ex_sender :: "int \<Rightarrow> tg_from" where
  "ex_sender i = \<lparr>tf_id = i, tf_username = None, tf_first = None, tf_last = None, tf_lang = Some ''ru-RU''\<rparr>"

definition ex_linked :: links where
  "ex_linked = snd (handle_otp_code id (\<lambda>_. True) (generate_otp id links_start ''u'' ''123456'' ''k1'' 5) (ex_sender 7) ''123456'' 6)"

lemma ex_linked_reach: "link_reach id ex_linked"
  unfolding ex_linked_def
  by (rule link_next [OF link_next [OF link_first generate] message]) (simp_all add: links_start_def)

text \<open>Unlinked, and with a second code on the way.\<close>

definition ex_unlinked :: links where
  "ex_unlinked = generate_otp id (snd (unlink_user ex_linked 7)) ''u'' ''654321'' ''k2'' 10"

lemma ex_unlinked_reach: "link_reach id ex_unlinked"
proof -
  have made: "''k2'' \<notin> oc_id ` set (ln_codes (snd (unlink_user ex_linked 7)))"
    "''k2'' \<notin> fst ` set (ln_made (snd (unlink_user ex_linked 7)))" by code_simp+
  show ?thesis unfolding ex_unlinked_def
    by (rule link_next [OF link_next [OF ex_linked_reach unlink] generate]) (rule made)+
qed

definition ex_challenge :: twofa where
  "ex_challenge = \<lparr>tw_rows = [new_challenge ''c'' ''u'' MTelegram None None 0], tw_sending = [],
     tw_limits = rate_limits_init, tw_sessions = \<lparr>ss_rows = [], ss_touch = [], ss_events = []\<rparr>\<rparr>"


theorem unlinked_account_not_linkable_witness:
  "fst (handle_otp_code id (\<lambda>_. True) ex_unlinked (ex_sender 9) ''654321'' 11) = Some OtpFailed"
proof -
  obtain l where l: "l \<in> set (ln_links ex_unlinked)" "\<not> tl_active l" "tl_id l = 7" "tl_user l = ''u''" "length (ln_links ex_unlinked) = 1"
  proof -
    have "list_ex (\<lambda>l. \<not> tl_active l \<and> tl_id l = 7 \<and> tl_user l = ''u'') (ln_links ex_unlinked) \<and> length (ln_links ex_unlinked) = 1" by code_simp
    then show thesis using that by (auto simp: list_ex_iff)
  qed
  let ?found = "List.find (\<lambda>c. oc_hash c = id ''654321'' \<and> 11 < oc_expires c \<and> \<not> oc_used c) (ln_codes ex_unlinked)"
  have "map_option oc_user ?found = Some ''u''" by code_simp
  then obtain c where c: "?found = Some c" "oc_user c = ''u''" by auto
  have w: "\<not> fst (rl_wait_seconds (ln_limits ex_unlinked) PTelegramOtp (tg_key (tf_id (ex_sender 9))) 11) > 0" by code_simp
  have other: "\<not> (\<exists>x \<in> set (ln_links ex_unlinked). tl_id x = tf_id (ex_sender 9) \<and> tl_active x)" by code_simp
  show ?thesis
    by (rule conjunct1 [OF unlinked_account_not_linkable [where hash = id and code = "''654321''" and l = l, OF links_inv_reach [OF ex_unlinked_reach] l(1,2) _ _ w c(1) _ other]])
      (simp_all add: ex_sender_def l c)
qed

end
