(* ===== verification/Notifications.thy ===== *)
theory Notifications
  imports Roles Telegram_Links Tasks Instances Server_Dates
begin

text \<open>
  Notifications (\<open>modules/notifications\<close>): the rules that turn events into drafts, who a draft is
  for, the channels an account keeps on, the inbox and its pages, and the Telegram channel.

  Ids, the clock, the encoding of cursors and \<open>Number\<close> of a string are arguments.  A message
  handed to the bot is kept in \<open>nw_sent\<close>, an emit to the room of an account in \<open>nw_pushed\<close>;
  whether a chat can be reached is known later (\<open>telegram_answer\<close>).
\<close>

section \<open>Kinds (shared/types/notification.types.ts)\<close>

datatype category = CatTasks | CatServers | CatBackups | CatSecurity | CatSystem

datatype channel = ChInbox | ChTelegram

datatype severity = SevInfo | SevSuccess | SevWarning | SevError

datatype notice_kind =
    KTaskSucceeded | KTaskFailed | KTaskCancelled | KServerStatus | KServerCrashed | KServerError
  | KAuthLogin | KBackupFailed | KAuthLocked | KStorageUnreachable

text \<open>\<open>NotificationParamsMap\<close>.\<close>

datatype notice_params =
    PTask string int "string option" "string option" "string option" "string option"
  | PServerStatus string string server_status
  | PServerCrashed string string
  | PServerError string string string
  | PAuthLogin string "string option"
  | PBackupFailed string string string string "string option"
  | PAuthLocked "string option" string int
  | PStorageUnreachable string string string

record kind_spec =
  ks_category :: category
  ks_severity :: severity
  ks_inbox :: bool

definition all_categories :: "category list" where
  "all_categories = [CatTasks, CatServers, CatBackups, CatSecurity, CatSystem]"

definition all_channels :: "channel list" where
  "all_channels = [ChInbox, ChTelegram]"

fun notification_kinds :: "notice_kind \<Rightarrow> kind_spec" where
  "notification_kinds KTaskSucceeded = \<lparr>ks_category = CatTasks, ks_severity = SevSuccess, ks_inbox = False\<rparr>"
| "notification_kinds KTaskFailed = \<lparr>ks_category = CatTasks, ks_severity = SevError, ks_inbox = True\<rparr>"
| "notification_kinds KTaskCancelled = \<lparr>ks_category = CatTasks, ks_severity = SevWarning, ks_inbox = False\<rparr>"
| "notification_kinds KServerStatus = \<lparr>ks_category = CatServers, ks_severity = SevInfo, ks_inbox = False\<rparr>"
| "notification_kinds KServerCrashed = \<lparr>ks_category = CatServers, ks_severity = SevError, ks_inbox = True\<rparr>"
| "notification_kinds KServerError = \<lparr>ks_category = CatServers, ks_severity = SevWarning, ks_inbox = True\<rparr>"
| "notification_kinds KBackupFailed = \<lparr>ks_category = CatBackups, ks_severity = SevError, ks_inbox = True\<rparr>"
| "notification_kinds KStorageUnreachable = \<lparr>ks_category = CatBackups, ks_severity = SevError, ks_inbox = True\<rparr>"
| "notification_kinds KAuthLogin = \<lparr>ks_category = CatSecurity, ks_severity = SevInfo, ks_inbox = False\<rparr>"
| "notification_kinds KAuthLocked = \<lparr>ks_category = CatSecurity, ks_severity = SevWarning, ks_inbox = True\<rparr>"

section \<open>Preferences (notification-prefs.ts, notification-prefs.repository.ts)\<close>

type_synonym notice_prefs = "category \<Rightarrow> channel \<Rightarrow> bool"

record pref_override =
  po_category :: category
  po_channel :: channel
  po_enabled :: bool

fun channel_defaults :: "channel \<Rightarrow> category list" where
  "channel_defaults ChInbox = all_categories"
| "channel_defaults ChTelegram = [CatServers, CatBackups, CatSecurity]"

definition default_prefs :: notice_prefs where
  "default_prefs cat ch = (cat \<in> set (channel_defaults ch))"

definition apply_overrides :: "pref_override list \<Rightarrow> notice_prefs" where
  "apply_overrides os = fold (\<lambda>po p cat ch. if cat = po_category po \<and> ch = po_channel po then po_enabled po else p cat ch)
     os default_prefs"

text \<open>
  \<open>Partial<NotificationPrefs>\<close>: \<open>None\<close> for a category that is not a key, and per channel the switch
  when it is a boolean.
\<close>

type_synonym partial_prefs = "category \<Rightarrow> (channel \<Rightarrow> bool option) option"

definition to_overrides :: "partial_prefs \<Rightarrow> pref_override list" where
  "to_overrides prefs =
     concat (map (\<lambda>cat. concat (map (\<lambda>ch.
       case (case prefs cat of None \<Rightarrow> None | Some f \<Rightarrow> f ch) of
         None \<Rightarrow> []
       | Some on \<Rightarrow> if on \<noteq> default_prefs cat ch
                   then [\<lparr>po_category = cat, po_channel = ch, po_enabled = on\<rparr>] else []) all_channels)) all_categories)"

section \<open>The inbox (notifications.repository.ts)\<close>

record notice =
  nt_id :: string
  nt_user :: string
  nt_kind :: notice_kind
  nt_params :: notice_params
  nt_read :: "int option"
  nt_at :: int

text \<open>\<open>ORDER BY createdAt DESC, id DESC\<close>.\<close>

definition newer_notice :: "notice \<Rightarrow> notice \<Rightarrow> bool" where
  "newer_notice a b \<longleftrightarrow> nt_at b < nt_at a \<or> nt_at a = nt_at b \<and> nt_id b < nt_id a"

fun place_notice :: "notice \<Rightarrow> notice list \<Rightarrow> notice list" where
  "place_notice n [] = [n]"
| "place_notice n (m # ms) = (if newer_notice n m then n # m # ms else m # place_notice n ms)"

definition inbox_order :: "notice list \<Rightarrow> notice list" where
  "inbox_order ns = foldr place_notice ns []"

definition after_cursor :: "(int \<times> string) option \<Rightarrow> notice \<Rightarrow> bool" where
  "after_cursor c n =
     (case c of None \<Rightarrow> True | Some (at, i) \<Rightarrow> nt_at n < at \<or> nt_at n = at \<and> nt_id n < i)"

definition in_inbox :: "string \<Rightarrow> bool \<Rightarrow> notice \<Rightarrow> bool" where
  "in_inbox u unread n \<longleftrightarrow> nt_user n = u \<and> (unread \<longrightarrow> nt_read n = None)"

definition notices_page :: "notice list \<Rightarrow> string \<Rightarrow> nat \<Rightarrow> bool \<Rightarrow> (int \<times> string) option \<Rightarrow> notice list" where
  "notices_page rows u limit unread c =
     take limit (inbox_order (filter (\<lambda>n. in_inbox u unread n \<and> after_cursor c n) rows))"

definition unread_count :: "notice list \<Rightarrow> string \<Rightarrow> nat" where
  "unread_count rows u = length (filter (in_inbox u True) rows)"

text \<open>The table with its primary key; \<open>userId\<close> names an account.\<close>

definition notice_create :: "notice \<Rightarrow> notice list \<Rightarrow> notice list result" where
  "notice_create n rows =
     (if row_find nt_id (nt_id n) rows \<noteq> None then fail Internal ''UNIQUE constraint failed'' else Inr (rows @ [n]))"

definition mark_read_where :: "(notice \<Rightarrow> bool) \<Rightarrow> int \<Rightarrow> notice list \<Rightarrow> notice list" where
  "mark_read_where P now = map (\<lambda>n. if P n \<and> nt_read n = None then n\<lparr>nt_read := Some now\<rparr> else n)"

definition notices_prune :: "int \<Rightarrow> int \<Rightarrow> notice list \<Rightarrow> notice list" where
  "notices_prune read_before any_before =
     filter (\<lambda>n. \<not> (nt_read n \<noteq> None \<and> nt_at n < read_before \<or> nt_at n < any_before))"

section \<open>Cursors (notifications-cursor.ts)\<close>

definition encode_cursor :: "(string \<Rightarrow> string) \<Rightarrow> notice \<Rightarrow> string" where
  "encode_cursor base64 n = base64 (int_text (nt_at n) @ '':'' @ nt_id n)"

definition decode_cursor :: "(string \<Rightarrow> string) \<Rightarrow> (string \<Rightarrow> int option) \<Rightarrow> string \<Rightarrow> (int \<times> string) result" where
  "decode_cursor unbase64 number s =
     (let ps = split_on CHR '':'' (unbase64 s) in
      case (number (ps ! 0), if length ps > 1 then ps ! 1 else []) of
        (Some at, c # i) \<Rightarrow> Inr (at, c # i)
      | _ \<Rightarrow> fail BadRequest ''Invalid cursor'')"

section \<open>State\<close>

record news =
  nw_inbox :: "notice list"
  nw_prefs :: "(string \<times> pref_override) list"
  nw_links :: links
  nw_db :: adb
  nw_servers :: "(string, string) jsmap"
  nw_errors :: "(string, string \<times> int) jsmap"
  nw_alerts :: "(string, int) jsmap"
  nw_bot :: bool
  nw_pushed :: "(string \<times> notice) list"
  nw_sent :: "(int \<times> notice_kind \<times> notice_params) list"

section \<open>Who a draft is for (notification-audience.service.ts)\<close>

datatype audience =
    ForUser string
  | ForServer string area level
  | ForPanel area level

fun resolve_audience :: "adb \<Rightarrow> audience \<Rightarrow> user list" where
  "resolve_audience db (ForUser i) = (case ur_find_by_id db i of None \<Rightarrow> [] | Some u \<Rightarrow> [u])"
| "resolve_audience db (ForServer sid a l) = filter (\<lambda>u. can_on_server (Some u) a l sid) (ur_find_all db)"
| "resolve_audience db (ForPanel a l) = filter (\<lambda>u. can (Some u) a l) (ur_find_all db)"

section \<open>The service (notifications.service.ts) and its channels\<close>

definition get_prefs :: "news \<Rightarrow> string \<Rightarrow> notice_prefs" where
  "get_prefs w u = apply_overrides (map snd (filter (\<lambda>r. fst r = u) (nw_prefs w)))"

definition set_prefs :: "news \<Rightarrow> string \<Rightarrow> partial_prefs \<Rightarrow> news" where
  "set_prefs w u prefs =
     w\<lparr>nw_prefs := filter (\<lambda>r. fst r \<noteq> u) (nw_prefs w)
       @ map (\<lambda>po. (u, po)) (to_overrides (\<lambda>cat. case prefs cat of
             None \<Rightarrow> Some (\<lambda>ch. Some (get_prefs w u cat ch)) | Some f \<Rightarrow> Some f))\<rparr>"

record draft =
  dr_kind :: notice_kind
  dr_params :: notice_params
  dr_audience :: audience

definition inbox_deliver :: "(string \<Rightarrow> string) \<Rightarrow> int \<Rightarrow> user \<Rightarrow> draft \<Rightarrow> news \<Rightarrow> unit result \<times> news" where
  "inbox_deliver ids now u d w =
     (if \<not> ks_inbox (notification_kinds (dr_kind d)) then (Inr (), w)
      else let n = \<lparr>nt_id = ids (u_id u), nt_user = u_id u, nt_kind = dr_kind d, nt_params = dr_params d,
                    nt_read = None, nt_at = now\<rparr> in
        case notice_create n (nw_inbox w) of
          Inl e \<Rightarrow> (Inl e, w)
        | Inr rows \<Rightarrow> (Inr (), w\<lparr>nw_inbox := rows, nw_pushed := nw_pushed w @ [(''user:'' @ u_id u, n)]\<rparr>))"

text \<open>Every kind has a renderer.\<close>

definition telegram_deliver :: "user \<Rightarrow> draft \<Rightarrow> news \<Rightarrow> news" where
  "telegram_deliver u d w =
     (if \<not> nw_bot w then w
      else case linked_user (nw_links w) (u_id u) of
        None \<Rightarrow> w
      | Some l \<Rightarrow> w\<lparr>nw_sent := nw_sent w @ [(tl_id l, dr_kind d, dr_params d)]\<rparr>)"

fun channel_deliver :: "(string \<Rightarrow> string) \<Rightarrow> int \<Rightarrow> channel \<Rightarrow> user \<Rightarrow> draft \<Rightarrow> news \<Rightarrow> unit result \<times> news" where
  "channel_deliver ids now ChInbox u d w = inbox_deliver ids now u d w"
| "channel_deliver ids now ChTelegram u d w = (Inr (), telegram_deliver u d w)"

text \<open>
  The loops of \<open>notify\<close>.  An error of the inbox is thrown before there is a promise to catch it,
  so it ends both loops.
\<close>

fun notify_channels :: "(string \<Rightarrow> string) \<Rightarrow> int \<Rightarrow> notice_prefs \<Rightarrow> user \<Rightarrow> draft \<Rightarrow> channel list \<Rightarrow> news \<Rightarrow> unit result \<times> news" where
  "notify_channels ids now prefs u d [] w = (Inr (), w)"
| "notify_channels ids now prefs u d (ch # chs) w =
     (if \<not> prefs (ks_category (notification_kinds (dr_kind d))) ch then notify_channels ids now prefs u d chs w
      else case channel_deliver ids now ch u d w of
        (Inl e, w') \<Rightarrow> (Inl e, w')
      | (Inr _, w') \<Rightarrow> notify_channels ids now prefs u d chs w')"

fun notify_users :: "(string \<Rightarrow> string) \<Rightarrow> int \<Rightarrow> draft \<Rightarrow> user list \<Rightarrow> news \<Rightarrow> unit result \<times> news" where
  "notify_users ids now d [] w = (Inr (), w)"
| "notify_users ids now d (u # us) w =
     (case notify_channels ids now (get_prefs w (u_id u)) u d all_channels w of
        (Inl e, w') \<Rightarrow> (Inl e, w')
      | (Inr _, w') \<Rightarrow> notify_users ids now d us w')"

definition notify :: "(string \<Rightarrow> string) \<Rightarrow> int \<Rightarrow> draft \<Rightarrow> news \<Rightarrow> unit result \<times> news" where
  "notify ids now d w = notify_users ids now d (resolve_audience (nw_db w) (dr_audience d)) w"

definition notices_list ::
  "(string \<Rightarrow> string) \<Rightarrow> (string \<Rightarrow> string) \<Rightarrow> (string \<Rightarrow> int option) \<Rightarrow> news \<Rightarrow> string \<Rightarrow> nat \<Rightarrow> bool \<Rightarrow> string option
     \<Rightarrow> (notice list \<times> string option \<times> nat) result" where
  "notices_list base64 unbase64 number w u limit unread cursor =
     and_then (case cursor of None \<Rightarrow> Inr None
               | Some c \<Rightarrow> if c = [] then Inr None
                           else and_then (decode_cursor unbase64 number c) (\<lambda>p. Inr (Some p))) (\<lambda>c.
       let items = notices_page (nw_inbox w) u (limit + 1) unread c; more = length items > limit;
           page = (if more then take limit items else items) in
       Inr (page, if more then Some (encode_cursor base64 (last page)) else None, unread_count (nw_inbox w) u))"

definition notice_mark_read :: "news \<Rightarrow> string \<Rightarrow> string \<Rightarrow> int \<Rightarrow> news" where
  "notice_mark_read w u i now = w\<lparr>nw_inbox := mark_read_where (\<lambda>n. nt_user n = u \<and> nt_id n = i) now (nw_inbox w)\<rparr>"

definition notice_mark_all_read :: "news \<Rightarrow> string \<Rightarrow> int \<Rightarrow> news" where
  "notice_mark_all_read w u now = w\<lparr>nw_inbox := mark_read_where (\<lambda>n. nt_user n = u) now (nw_inbox w)\<rparr>"

definition notice_remove :: "news \<Rightarrow> string \<Rightarrow> string \<Rightarrow> unit result \<times> news" where
  "notice_remove w u i =
     (if \<not> list_ex (\<lambda>n. nt_user n = u \<and> nt_id n = i) (nw_inbox w) then (fail NotFound ''Notification not found'', w)
      else (Inr (), w\<lparr>nw_inbox := filter (\<lambda>n. \<not> (nt_user n = u \<and> nt_id n = i)) (nw_inbox w)\<rparr>))"

definition DAY_MS :: int where "DAY_MS = 24 * 60 * 60 * 1000"

definition news_prune :: "news \<Rightarrow> int \<Rightarrow> news" where
  "news_prune w now = w\<lparr>nw_inbox := notices_prune (now - 30 * DAY_MS) (now - 90 * DAY_MS) (nw_inbox w)\<rparr>"

text \<open>The answer of Telegram to a message, later.\<close>

definition telegram_answer :: "bool \<Rightarrow> tg_link \<Rightarrow> news \<Rightarrow> news" where
  "telegram_answer unreachable l w = w\<lparr>nw_links := delivery_failed unreachable (nw_links w) l\<rparr>"

section \<open>The rules (notification-rules.service.ts)\<close>

datatype news_event =
    TaskFinished task "string option" "string option"
  | StatusChanged string string server_status
  | ServerErr string string string string
  | ErrorResolved string
  | UserLogin string "string option"
  | AuthLocked string "string option" "string option" "string option" int
  | BackupOp string string "string option" "string option" "string option"
  | StorageDown string string string

definition ERROR_DEDUP_MS :: int where "ERROR_DEDUP_MS = 60000"
definition STORAGE_DEDUP_MS :: int where "STORAGE_DEDUP_MS = 60 * 60000"

fun task_kind :: "task_status \<Rightarrow> notice_kind option" where
  "task_kind TSuccess = Some KTaskSucceeded"
| "task_kind TFailed = Some KTaskFailed"
| "task_kind TCancelled = Some KTaskCancelled"
| "task_kind _ = None"

definition on_task_finished :: "task \<Rightarrow> string option \<Rightarrow> string option \<Rightarrow> draft option" where
  "on_task_finished t server_name plugin_name =
     (case tk_owner t of
        None \<Rightarrow> None
      | Some u \<Rightarrow>
          if u = [] \<or> tk_type t = ''modpack.inspect'' then None
          else (case task_kind (tk_status t) of
              None \<Rightarrow> None
            | Some k \<Rightarrow> Some \<lparr>dr_kind = k,
                dr_params = PTask (tk_type t) (max 0 (tk_updated t - tk_created t)) (tk_server t) server_name plugin_name
                  (map_option snd (tk_error t)),
                dr_audience = ForUser u\<rparr>))"

definition on_server_status :: "string \<Rightarrow> string \<Rightarrow> server_status \<Rightarrow> draft option" where
  "on_server_status sid name st =
     (if st = SCrashed
      then Some \<lparr>dr_kind = KServerCrashed, dr_params = PServerCrashed sid name, dr_audience = ForServer sid APower LRead\<rparr>
      else if st = SRunning \<or> st = SStopped
      then Some \<lparr>dr_kind = KServerStatus, dr_params = PServerStatus sid name st, dr_audience = ForServer sid APower LRead\<rparr>
      else None)"

definition on_server_error :: "string \<Rightarrow> string \<Rightarrow> string \<Rightarrow> string \<Rightarrow> int \<Rightarrow> news \<Rightarrow> draft option \<times> news" where
  "on_server_error sid name ty sev now w =
     (if sev \<notin> {''critical'', ''high''} then (None, w)
      else if (case jget (nw_errors w) sid of None \<Rightarrow> False | Some (ty0, at) \<Rightarrow> ty0 = ty \<and> now - at < ERROR_DEDUP_MS)
      then (None, w)
      else (Some \<lparr>dr_kind = KServerError, dr_params = PServerError sid name ty, dr_audience = ForServer sid APower LRead\<rparr>,
            w\<lparr>nw_errors := jset (nw_errors w) sid (ty, now)\<rparr>))"

definition on_login :: "adb \<Rightarrow> string \<Rightarrow> string option \<Rightarrow> draft option" where
  "on_login db u ip =
     (case ur_find_by_id db u of
        None \<Rightarrow> None
      | Some x \<Rightarrow> Some \<lparr>dr_kind = KAuthLogin, dr_params = PAuthLogin (u_name x) ip, dr_audience = ForUser u\<rparr>)"

definition on_locked :: "adb \<Rightarrow> string \<Rightarrow> string option \<Rightarrow> string option \<Rightarrow> string option \<Rightarrow> int \<Rightarrow> draft option" where
  "on_locked db policy uid uname ip retry =
     (case (case uid of Some u \<Rightarrow> Some u
            | None \<Rightarrow> (case uname of None \<Rightarrow> None
                      | Some n \<Rightarrow> if n = [] then None else map_option u_id (ur_find_by_username db n))) of
        None \<Rightarrow> None
      | Some u \<Rightarrow> if u = [] then None
          else Some \<lparr>dr_kind = KAuthLocked, dr_params = PAuthLocked ip policy retry, dr_audience = ForUser u\<rparr>)"

definition on_backup_operation :: "(string, string) jsmap \<Rightarrow> string \<Rightarrow> string \<Rightarrow> string option \<Rightarrow> string option \<Rightarrow> string option \<Rightarrow> draft option" where
  "on_backup_operation servers operation status sid bname msg =
     (case sid of
        None \<Rightarrow> None
      | Some s \<Rightarrow>
          if status \<noteq> ''failed'' \<or> s = [] \<or> operation \<notin> {''create'', ''upload'', ''restore''} then None
          else Some \<lparr>dr_kind = KBackupFailed,
            dr_params = PBackupFailed s (case jget servers s of None \<Rightarrow> s | Some n \<Rightarrow> n)
              (case bname of None \<Rightarrow> [] | Some b \<Rightarrow> b) operation msg,
            dr_audience = ForServer s ABackups LRead\<rparr>)"

definition on_storage_unreachable :: "string \<Rightarrow> string \<Rightarrow> string \<Rightarrow> int \<Rightarrow> news \<Rightarrow> draft option \<times> news" where
  "on_storage_unreachable i name err now w =
     (if (case jget (nw_alerts w) i of None \<Rightarrow> False | Some t0 \<Rightarrow> now - t0 < STORAGE_DEDUP_MS) then (None, w)
      else (Some \<lparr>dr_kind = KStorageUnreachable, dr_params = PStorageUnreachable i name err, dr_audience = ForPanel AStorages LManage\<rparr>,
            w\<lparr>nw_alerts := jset (nw_alerts w) i now\<rparr>))"

fun news_rule :: "int \<Rightarrow> news_event \<Rightarrow> news \<Rightarrow> draft option \<times> news" where
  "news_rule now (TaskFinished t sn pn) w = (on_task_finished t sn pn, w)"
| "news_rule now (StatusChanged sid name st) w = (on_server_status sid name st, w)"
| "news_rule now (ServerErr sid name ty sev) w = on_server_error sid name ty sev now w"
| "news_rule now (ErrorResolved sid) w = (None, w\<lparr>nw_errors := jdel (nw_errors w) sid\<rparr>)"
| "news_rule now (UserLogin u ip) w = (on_login (nw_db w) u ip, w)"
| "news_rule now (AuthLocked policy uid uname ip retry) w = (on_locked (nw_db w) policy uid uname ip retry, w)"
| "news_rule now (BackupOp oper status sid bname msg) w = (on_backup_operation (nw_servers w) oper status sid bname msg, w)"
| "news_rule now (StorageDown i name err) w = on_storage_unreachable i name err now w"

definition on_news :: "(string \<Rightarrow> string) \<Rightarrow> int \<Rightarrow> news_event \<Rightarrow> news \<Rightarrow> unit result \<times> news" where
  "on_news ids now ev w =
     (case news_rule now ev w of
        (None, w') \<Rightarrow> (Inr (), w')
      | (Some d, w') \<Rightarrow> notify ids now d w')"

end
