(* ===== verification/Notification_Properties.thy ===== *)
theory Notification_Properties
  imports Notifications
begin

text \<open>
  Who gets to hear of what, and that the pages of the inbox are the inbox.
\<close>

section \<open>Order of the inbox\<close>

lemma newer_trans: "newer_notice a b \<Longrightarrow> newer_notice b c \<Longrightarrow> newer_notice a c"
  by (auto simp: newer_notice_def)

lemma newer_total: "nt_id a \<noteq> nt_id b \<Longrightarrow> newer_notice a b \<or> newer_notice b a"
  by (auto simp: newer_notice_def)

lemma newer_irrefl [simp]: "\<not> newer_notice a a"
  by (simp add: newer_notice_def)

lemma set_place [simp]: "set (place_notice n ms) = insert n (set ms)"
  by (induction ms) auto

lemma set_inbox_order [simp]: "set (inbox_order ns) = set ns"
  by (induction ns) (auto simp: inbox_order_def)

lemma place_sorted:
  assumes "sorted_wrt newer_notice ms" and "nt_id n \<notin> nt_id ` set ms"
  shows "sorted_wrt newer_notice (place_notice n ms)"
  using assms
proof (induction ms)
  case (Cons m ms)
  then show ?case using newer_trans [of n m] newer_total [of m n] by auto
qed simp

lemma inbox_order_sorted: "distinct (map nt_id ns) \<Longrightarrow> sorted_wrt newer_notice (inbox_order ns)"
proof (induction ns)
  case (Cons n ns)
  then show ?case using place_sorted [of "inbox_order ns" n] by (simp add: inbox_order_def) (metis image_set set_inbox_order inbox_order_def)
qed (simp add: inbox_order_def)

lemma length_inbox_order [simp]: "length (inbox_order ns) = length ns"
proof -
  have "length (place_notice n ms) = Suc (length ms)" for n ms by (induction ms) auto
  then show ?thesis by (induction ns) (auto simp: inbox_order_def)
qed

lemma place_filter:
  assumes "sorted_wrt newer_notice ms"
  shows "filter P (place_notice n ms) = (if P n then place_notice n (filter P ms) else filter P ms)"
  using assms
proof (induction ms)
  case (Cons m ms)
  show ?case
  proof (cases "newer_notice n m")
    case True
    then have "\<forall>x \<in> set ms. newer_notice n x" using Cons.prems newer_trans by auto
    then have "place_notice n (filter P ms) = n # filter P ms"
      by (cases "filter P ms") (auto simp: filter_eq_Cons_iff)
    then show ?thesis using True by simp
  next
    case False
    then show ?thesis using Cons by simp
  qed
qed simp

lemma inbox_order_filter: "distinct (map nt_id ns) \<Longrightarrow> inbox_order (filter P ns) = filter P (inbox_order ns)"
proof (induction ns)
  case (Cons n ns)
  then show ?case using place_filter [OF inbox_order_sorted, of ns P n] by (simp add: inbox_order_def)
qed (simp add: inbox_order_def)

text \<open>The rows of an account in the order the inbox shows them.\<close>

definition whole_inbox :: "notice list \<Rightarrow> string \<Rightarrow> bool \<Rightarrow> notice list" where
  "whole_inbox rows u unread = inbox_order (filter (in_inbox u unread) rows)"

lemma page_of_inbox:
  assumes "distinct (map nt_id rows)"
  shows "notices_page rows u limit unread c = take limit (filter (after_cursor c) (whole_inbox rows u unread))"
proof -
  have d: "distinct (map nt_id (filter (in_inbox u unread) rows))" using assms by (simp add: distinct_map_filter)
  have "filter (\<lambda>n. in_inbox u unread n \<and> after_cursor c n) rows = filter (after_cursor c) (filter (in_inbox u unread) rows)"
    by (simp add: conj_commute)
  then show ?thesis using inbox_order_filter [OF d, of "after_cursor c"]
    by (simp add: notices_page_def whole_inbox_def)
qed

lemma after_the_cursor:
  assumes "sorted_wrt newer_notice (xs @ n # ys)"
  shows "filter (after_cursor (Some (nt_at n, nt_id n))) (xs @ n # ys) = ys"
proof -
  have c: "after_cursor (Some (nt_at n, nt_id n)) m = newer_notice n m" for m
    by (auto simp: after_cursor_def newer_notice_def)
  have "\<not> newer_notice n x" if "x \<in> set xs" for x
    using assms that newer_trans [of x n x] by (auto simp: sorted_wrt_append)
  moreover have "newer_notice n y" if "y \<in> set ys" for y using assms that by (auto simp: sorted_wrt_append)
  ultimately show ?thesis by (simp add: c filter_empty_conv)
qed

lemma cursor_round_trip:
  assumes "\<forall>s. unbase64 (base64 s) = s" and "\<forall>k. number (int_text k) = Some k"
    and "nt_id n \<noteq> []" and "CHR '':'' \<notin> set (nt_id n)"
  shows "decode_cursor unbase64 number (encode_cursor base64 n) = Inr (nt_at n, nt_id n)"
proof -
  have "CHR '':'' \<notin> set (int_text (nt_at n))"
  proof -
    have "\<not> is_digit CHR '':''" by code_simp
    then have "CHR '':'' \<notin> set (digits k)" for k using digits_digits [of k] by (auto simp: list_all_iff)
    then show ?thesis by (auto simp: int_text_def)
  qed
  then have "split_on CHR '':'' (int_text (nt_at n) @ '':'' @ nt_id n) = [int_text (nt_at n), nt_id n]"
    using split_on_append_sep [of "CHR '':''" "int_text (nt_at n)" "nt_id n"] assms(4) by simp
  then show ?thesis using assms(1-3) by (simp add: decode_cursor_def encode_cursor_def) (cases "nt_id n"; simp)
qed

section \<open>Reading page after page\<close>

fun read_inbox ::
  "(string \<Rightarrow> string) \<Rightarrow> (string \<Rightarrow> string) \<Rightarrow> (string \<Rightarrow> int option) \<Rightarrow> news \<Rightarrow> string \<Rightarrow> nat \<Rightarrow> bool \<Rightarrow> nat
     \<Rightarrow> string option \<Rightarrow> notice list option" where
  "read_inbox base64 unbase64 number w u limit unread 0 c = None"
| "read_inbox base64 unbase64 number w u limit unread (Suc fuel) c =
     (case notices_list base64 unbase64 number w u limit unread c of
        Inl e \<Rightarrow> None
      | Inr (items, nxt, cnt) \<Rightarrow>
          (case nxt of
             None \<Rightarrow> Some items
           | Some s \<Rightarrow> map_option ((@) items) (read_inbox base64 unbase64 number w u limit unread fuel (Some s))))"

lemma list_of_rest:
  assumes "distinct (map nt_id (nw_inbox w))" and "filter (after_cursor c) (whole_inbox (nw_inbox w) u unread) = ys"
    and "(case cursor of None \<Rightarrow> c = None | Some s \<Rightarrow> s \<noteq> [] \<and> (\<exists>p. c = Some p \<and> decode_cursor unbase64 number s = Inr p))"
  shows "notices_list base64 unbase64 number w u limit unread cursor =
    Inr (take limit ys, if length ys > limit then Some (encode_cursor base64 (last (take limit ys))) else None,
      unread_count (nw_inbox w) u)"
proof -
  have "(case cursor of None \<Rightarrow> Inr None | Some c \<Rightarrow> if c = [] then Inr None
      else and_then (decode_cursor unbase64 number c) (\<lambda>p. Inr (Some p))) = Inr c"
    using assms(3) by (auto split: option.splits)
  moreover have "notices_page (nw_inbox w) u (limit + 1) unread c = take (limit + 1) ys"
    using page_of_inbox [OF assms(1)] assms(2) by simp
  ultimately show ?thesis by (simp add: notices_list_def Let_def)
qed

lemma read_rest:
  assumes d: "distinct (map nt_id (nw_inbox w))" and limit: "0 < limit"
    and enc: "\<forall>s. unbase64 (base64 s) = s" "base64 [] = []" "\<forall>k. number (int_text k) = Some k"
    and ids: "\<forall>n \<in> set (nw_inbox w). nt_id n \<noteq> [] \<and> CHR '':'' \<notin> set (nt_id n)"
    and whole: "whole_inbox (nw_inbox w) u unread = xs @ ys"
    and cur: "case cursor of None \<Rightarrow> xs = [] | Some s \<Rightarrow> xs \<noteq> [] \<and> s = encode_cursor base64 (last xs)"
    and "length ys < fuel"
  shows "read_inbox base64 unbase64 number w u limit unread fuel cursor = Some ys"
  using whole cur assms(9)
proof (induction fuel arbitrary: xs ys cursor)
  case (Suc fuel)
  let ?L = "whole_inbox (nw_inbox w) u unread"
  have sorted: "sorted_wrt newer_notice ?L"
    using d by (simp add: whole_inbox_def inbox_order_sorted distinct_map_filter)
  have ids': "nt_id n \<noteq> [] \<and> CHR '':'' \<notin> set (nt_id n)" if "n \<in> set ?L" for n
    using ids that by (auto simp: whole_inbox_def)
  have nonempty: "encode_cursor base64 n \<noteq> []" for n
  proof
    assume "encode_cursor base64 n = []"
    then have "unbase64 (base64 []) = int_text (nt_at n) @ '':'' @ nt_id n"
      using enc(1,2) by (metis encode_cursor_def)
    then show False using enc(1) by simp
  qed
  define c where "c = (case cursor of None \<Rightarrow> None | Some s \<Rightarrow> Some (nt_at (last xs), nt_id (last xs)))"
  have rest: "filter (after_cursor c) ?L = ys"
  proof (cases cursor)
    case None
    then show ?thesis using Suc.prems by (simp add: c_def after_cursor_def)
  next
    case (Some s)
    then have "xs = butlast xs @ [last xs]" using Suc.prems(2) by simp
    then have "?L = butlast xs @ last xs # ys" using Suc.prems(1) by (metis append_Cons append_Nil append_assoc)
    then show ?thesis using after_the_cursor [of "butlast xs" "last xs" ys] sorted Some by (simp add: c_def)
  qed
  have dec: "case cursor of None \<Rightarrow> c = None | Some s \<Rightarrow> s \<noteq> [] \<and> (\<exists>p. c = Some p \<and> decode_cursor unbase64 number s = Inr p)"
  proof (cases cursor)
    case (Some s)
    then have "last xs \<in> set ?L" "s = encode_cursor base64 (last xs)" using Suc.prems by auto
    then show ?thesis using Some ids' cursor_round_trip [of unbase64 base64 number, OF enc(1,3)] nonempty by (simp add: c_def)
  qed (simp add: c_def)
  have now: "notices_list base64 unbase64 number w u limit unread cursor =
    Inr (take limit ys, if length ys > limit then Some (encode_cursor base64 (last (take limit ys))) else None,
      unread_count (nw_inbox w) u)"
    by (rule list_of_rest [OF d rest dec])
  show ?case
  proof (cases "length ys > limit")
    case True
    have "read_inbox base64 unbase64 number w u limit unread fuel (Some (encode_cursor base64 (last (take limit ys)))) = Some (drop limit ys)"
    proof (rule Suc.IH [of "xs @ take limit ys"])
      show "case Some (encode_cursor base64 (last (take limit ys))) of None \<Rightarrow> xs @ take limit ys = []
          | Some s \<Rightarrow> xs @ take limit ys \<noteq> [] \<and> s = encode_cursor base64 (last (xs @ take limit ys))"
        using True limit by (cases ys) (auto simp: take_Cons' last_append)
    qed (use True limit Suc.prems in auto)
    then show ?thesis using now True by simp
  qed (use now in simp)
qed simp

section \<open>Who hears of what\<close>

text \<open>
  What an event is about decides who may hear of it: the state of a server those who see its
  power switch, its backups those who see these, a storage those who manage storages, a task, a
  login and a lockout the account itself.
\<close>

fun concerns :: "adb \<Rightarrow> news_event \<Rightarrow> user \<Rightarrow> bool" where
  "concerns db (TaskFinished t sn pn) u \<longleftrightarrow> tk_owner t = Some (u_id u)"
| "concerns db (StatusChanged sid name st) u \<longleftrightarrow> can_on_server (Some u) APower LRead sid"
| "concerns db (ServerErr sid name ty sev) u \<longleftrightarrow> can_on_server (Some u) APower LRead sid"
| "concerns db (ErrorResolved sid) u \<longleftrightarrow> False"
| "concerns db (UserLogin i ip) u \<longleftrightarrow> u_id u = i"
| "concerns db (AuthLocked policy uid uname ip retry) u \<longleftrightarrow>
     (case uid of Some i \<Rightarrow> u_id u = i | None \<Rightarrow> (case uname of Some n \<Rightarrow> map_option u_id (ur_find_by_username db n) = Some (u_id u) | None \<Rightarrow> False))"
| "concerns db (BackupOp oper status sid bname msg) u \<longleftrightarrow> (case sid of Some s \<Rightarrow> can_on_server (Some u) ABackups LRead s | None \<Rightarrow> False)"
| "concerns db (StorageDown i name err) u \<longleftrightarrow> can (Some u) AStorages LManage"

lemma rule_frame:
  "news_rule now ev w = (r, w') \<Longrightarrow> nw_inbox w' = nw_inbox w \<and> nw_pushed w' = nw_pushed w \<and> nw_sent w' = nw_sent w
     \<and> nw_db w' = nw_db w \<and> nw_prefs w' = nw_prefs w \<and> nw_links w' = nw_links w"
  by (cases ev) (auto simp: on_server_error_def on_storage_unreachable_def split: if_splits)

lemma find_by_id_in_all: "ur_find_by_id db i = Some u \<Longrightarrow> u \<in> set (ur_find_all db) \<and> u_id u = i"
  by (auto simp: ur_find_by_id_def ur_find_all_def dest!: row_find_Some_in)

lemma rule_audience:
  assumes "news_rule now ev w = (Some d, w')" and "u \<in> set (resolve_audience db (dr_audience d))" and "db = nw_db w"
  shows "u \<in> set (ur_find_all db) \<and> concerns db ev u"
proof (cases ev)
  case (TaskFinished t sn pn)
  then show ?thesis using assms find_by_id_in_all
    by (auto simp: on_task_finished_def split: option.splits if_splits)
next
  case (StatusChanged sid name st)
  then show ?thesis using assms by (auto simp: on_server_status_def split: if_splits)
next
  case (ServerErr sid name ty sev)
  then show ?thesis using assms by (auto simp: on_server_error_def split: if_splits)
next
  case (ErrorResolved sid)
  then show ?thesis using assms by simp
next
  case (UserLogin i ip)
  then show ?thesis using assms find_by_id_in_all by (auto simp: on_login_def split: option.splits)
next
  case (AuthLocked policy uid uname ip retry)
  then show ?thesis using assms find_by_id_in_all
    by (auto simp: on_locked_def split: option.splits if_splits)
next
  case (BackupOp oper status sid bname msg)
  then show ?thesis using assms by (auto simp: on_backup_operation_def split: option.splits if_splits)
next
  case (StorageDown i name err)
  then show ?thesis using assms by (auto simp: on_storage_unreachable_def split: if_splits)
qed

text \<open>\<open>w'\<close> is \<open>w\<close> after \<open>d\<close> went to some of \<open>us\<close>, over channels they keep on.\<close>

definition told :: "user list \<Rightarrow> draft \<Rightarrow> news \<Rightarrow> news \<Rightarrow> bool" where
  "told us d w w' \<longleftrightarrow>
     nw_db w' = nw_db w \<and> nw_prefs w' = nw_prefs w \<and> nw_links w' = nw_links w \<and>
     (\<exists>N. nw_inbox w' = nw_inbox w @ N \<and> nw_pushed w' = nw_pushed w @ map (\<lambda>n. (''user:'' @ nt_user n, n)) N
        \<and> (\<forall>n \<in> set N. nt_kind n = dr_kind d \<and> ks_inbox (notification_kinds (dr_kind d))
             \<and> (\<exists>u \<in> set us. nt_user n = u_id u \<and> get_prefs w (u_id u) (ks_category (notification_kinds (dr_kind d))) ChInbox))) \<and>
     (\<exists>S. nw_sent w' = nw_sent w @ S \<and> (\<forall>x \<in> set S. \<exists>u \<in> set us. \<exists>l. linked_user (nw_links w) (u_id u) = Some l \<and> fst x = tl_id l
             \<and> fst (snd x) = dr_kind d \<and> get_prefs w (u_id u) (ks_category (notification_kinds (dr_kind d))) ChTelegram))"

lemma told_refl [simp]: "told us d w w"
  by (auto simp: told_def)

lemma told_mono: "told us d w w' \<Longrightarrow> set us \<subseteq> set vs \<Longrightarrow> told vs d w w'"
  unfolding told_def by blast

lemma told_trans:
  assumes "told us d w w1" and "told us d w1 w2"
  shows "told us d w w2"
proof -
  have g: "get_prefs w1 = get_prefs w" using assms(1) by (simp add: told_def get_prefs_def fun_eq_iff)
  obtain N1 S1 where 1: "nw_inbox w1 = nw_inbox w @ N1" "nw_pushed w1 = nw_pushed w @ map (\<lambda>n. (''user:'' @ nt_user n, n)) N1"
    "nw_sent w1 = nw_sent w @ S1"
    "\<forall>n \<in> set N1. nt_kind n = dr_kind d \<and> ks_inbox (notification_kinds (dr_kind d))
       \<and> (\<exists>u \<in> set us. nt_user n = u_id u \<and> get_prefs w (u_id u) (ks_category (notification_kinds (dr_kind d))) ChInbox)"
    "\<forall>x \<in> set S1. \<exists>u \<in> set us. \<exists>l. linked_user (nw_links w) (u_id u) = Some l \<and> fst x = tl_id l
       \<and> fst (snd x) = dr_kind d \<and> get_prefs w (u_id u) (ks_category (notification_kinds (dr_kind d))) ChTelegram"
    using assms(1) unfolding told_def by blast
  obtain N2 S2 where 2: "nw_inbox w2 = nw_inbox w1 @ N2" "nw_pushed w2 = nw_pushed w1 @ map (\<lambda>n. (''user:'' @ nt_user n, n)) N2"
    "nw_sent w2 = nw_sent w1 @ S2"
    "\<forall>n \<in> set N2. nt_kind n = dr_kind d \<and> ks_inbox (notification_kinds (dr_kind d))
       \<and> (\<exists>u \<in> set us. nt_user n = u_id u \<and> get_prefs w (u_id u) (ks_category (notification_kinds (dr_kind d))) ChInbox)"
    "\<forall>x \<in> set S2. \<exists>u \<in> set us. \<exists>l. linked_user (nw_links w) (u_id u) = Some l \<and> fst x = tl_id l
       \<and> fst (snd x) = dr_kind d \<and> get_prefs w (u_id u) (ks_category (notification_kinds (dr_kind d))) ChTelegram"
    using assms unfolding told_def g by auto
  have f: "nw_db w2 = nw_db w \<and> nw_prefs w2 = nw_prefs w \<and> nw_links w2 = nw_links w" using assms by (simp add: told_def)
  show ?thesis unfolding told_def
    by (intro conjI exI [of _ "N1 @ N2"] exI [of _ "S1 @ S2"]) (use f 1 2 in auto)
qed

lemma channel_told:
  assumes "channel_deliver ids now ch u d w = (r, w')"
    and "get_prefs w (u_id u) (ks_category (notification_kinds (dr_kind d))) ch"
  shows "told [u] d w w'"
proof (cases ch)
  case ChInbox
  then show ?thesis using assms
    by (auto simp: told_def inbox_deliver_def notice_create_def Let_def split: if_splits)
next
  case ChTelegram
  then show ?thesis using assms
    by (auto simp: told_def telegram_deliver_def split: if_splits option.splits)
qed

lemma channels_told:
  "notify_channels ids now (get_prefs w0 (u_id u)) u d chs w = (r, w') \<Longrightarrow> told [u] d w0 w \<Longrightarrow> told [u] d w0 w'"
proof (induction chs arbitrary: w)
  case (Cons ch chs)
  have g: "get_prefs w = get_prefs w0" using Cons.prems(2) by (simp add: told_def get_prefs_def fun_eq_iff)
  show ?case
  proof (cases "get_prefs w0 (u_id u) (ks_category (notification_kinds (dr_kind d))) ch")
    case True
    obtain r1 w1 where 1: "channel_deliver ids now ch u d w = (r1, w1)" by fastforce
    then have "told [u] d w0 w1" using channel_told [OF 1] True g Cons.prems(2) told_trans by metis
    then show ?thesis using Cons True 1 by (cases r1) auto
  qed (use Cons in simp)
qed simp

lemma users_told: "notify_users ids now d us w = (r, w') \<Longrightarrow> told us d w w'"
proof (induction us arbitrary: w)
  case (Cons u us)
  obtain r1 w1 where 1: "notify_channels ids now (get_prefs w (u_id u)) u d all_channels w = (r1, w1)" by fastforce
  from channels_told [OF 1 told_refl] have t: "told (u # us) d w w1" by (rule told_mono) simp
  show ?case
  proof (cases r1)
    case (Inl e)
    then show ?thesis using Cons.prems 1 t by simp
  next
    case (Inr x)
    then have "told us d w1 w'" using Cons 1 by simp
    then have "told (u # us) d w1 w'" by (rule told_mono) auto
    with t show ?thesis by (rule told_trans)
  qed
qed simp

section \<open>Properties\<close>

text \<open>
  C33: Whatever an event puts into an inbox or sends to a chat goes to an account the event concerns,
  over a channel that account keeps on for the category; what is pushed to a browser is what went
  into the inbox, in the room of its account.
\<close>

theorem notified_may_see:
  assumes "on_news ids now ev w = (r, w')"
  shows "\<exists>N S. nw_inbox w' = nw_inbox w @ N \<and> nw_sent w' = nw_sent w @ S
     \<and> nw_pushed w' = nw_pushed w @ map (\<lambda>n. (''user:'' @ nt_user n, n)) N
     \<and> (\<forall>n \<in> set N. \<exists>u \<in> set (ur_find_all (nw_db w)). nt_user n = u_id u \<and> concerns (nw_db w) ev u
          \<and> get_prefs w (u_id u) (ks_category (notification_kinds (nt_kind n))) ChInbox)
     \<and> (\<forall>(chat, k, p) \<in> set S. \<exists>u \<in> set (ur_find_all (nw_db w)). \<exists>l. linked_user (nw_links w) (u_id u) = Some l \<and> tl_id l = chat
          \<and> concerns (nw_db w) ev u \<and> get_prefs w (u_id u) (ks_category (notification_kinds k)) ChTelegram)"
proof -
  obtain od w1 where rule: "news_rule now ev w = (od, w1)" by fastforce
  note same = rule_frame [OF rule]
  show ?thesis
  proof (cases od)
    case None
    then show ?thesis using assms rule same by (auto simp: on_news_def)
  next
    case (Some d)
    let ?us = "resolve_audience (nw_db w) (dr_audience d)"
    have "notify_users ids now d ?us w1 = (r, w')" using assms rule Some same by (simp add: on_news_def notify_def)
    from users_told [OF this] have t: "told ?us d w1 w'" .
    have g: "get_prefs w1 = get_prefs w" using same by (simp add: get_prefs_def fun_eq_iff)
    have here: "u \<in> set (ur_find_all (nw_db w)) \<and> concerns (nw_db w) ev u" if "u \<in> set ?us" for u
      using rule_audience [OF rule [unfolded Some] that] by simp
    from t show ?thesis unfolding told_def g using same here by (fastforce simp: split_beta)
  qed
qed

text \<open>
  C34: Reading the inbox page after page, each from the cursor of the page before, gives every
  notification of the account once, the newest first.
\<close>

theorem pages_are_the_inbox:
  assumes "distinct (map nt_id (nw_inbox w))" and "0 < limit"
    and "\<forall>s. unbase64 (base64 s) = s" and "base64 [] = []" and "\<forall>k. number (int_text k) = Some k"
    and "\<forall>n \<in> set (nw_inbox w). nt_id n \<noteq> [] \<and> CHR '':'' \<notin> set (nt_id n)"
  shows "read_inbox base64 unbase64 number w u limit unread (Suc (length (nw_inbox w))) None
    = Some (inbox_order (filter (in_inbox u unread) (nw_inbox w)))"
proof -
  have "length (whole_inbox (nw_inbox w) u unread) < Suc (length (nw_inbox w))"
    by (simp add: whole_inbox_def le_imp_less_Suc)
  then show ?thesis using read_rest [OF assms, of u unread "[]" "whole_inbox (nw_inbox w) u unread" None]
    by (simp add: whole_inbox_def del: read_inbox.simps)
qed

lemma to_overrides_in:
  "po \<in> set (to_overrides p) \<longleftrightarrow>
     (case p (po_category po) of None \<Rightarrow> None | Some f \<Rightarrow> f (po_channel po)) = Some (po_enabled po)
     \<and> po_enabled po \<noteq> default_prefs (po_category po) (po_channel po)"
proof -
  have "po_category po \<in> set all_categories" "po_channel po \<in> set all_channels"
    by (cases "po_category po"; simp add: all_categories_def) (cases "po_channel po"; simp add: all_channels_def)
  then show ?thesis by (cases po) (auto simp: to_overrides_def split: option.splits if_splits)
qed

lemma apply_overrides_unchanged:
  "\<forall>po \<in> set os. \<not> (po_category po = cat \<and> po_channel po = ch)
     \<Longrightarrow> fold (\<lambda>po p cat ch. if cat = po_category po \<and> ch = po_channel po then po_enabled po else p cat ch) os p cat ch = p cat ch"
  by (induction os arbitrary: p) auto

lemma apply_overrides_agree:
  "\<exists>po \<in> set os. po_category po = cat \<and> po_channel po = ch
     \<Longrightarrow> \<forall>po \<in> set os. po_category po = cat \<and> po_channel po = ch \<longrightarrow> po_enabled po = b
     \<Longrightarrow> fold (\<lambda>po p cat ch. if cat = po_category po \<and> ch = po_channel po then po_enabled po else p cat ch) os p cat ch = b"
proof (induction os arbitrary: p)
  case (Cons x os)
  show ?case
  proof (cases "\<exists>po \<in> set os. po_category po = cat \<and> po_channel po = ch")
    case False
    then show ?thesis using Cons.prems by (subst fold.simps) (auto simp: apply_overrides_unchanged)
  qed (use Cons in auto)
qed simp

lemma overrides_read_back:
  "apply_overrides (to_overrides q) cat ch =
     (case (case q cat of None \<Rightarrow> None | Some f \<Rightarrow> f ch) of None \<Rightarrow> default_prefs cat ch | Some b \<Rightarrow> b)"
proof (cases "\<exists>po \<in> set (to_overrides q). po_category po = cat \<and> po_channel po = ch")
  case True
  then obtain b where "(case q cat of None \<Rightarrow> None | Some f \<Rightarrow> f ch) = Some b" by (auto simp: to_overrides_in)
  moreover from this have "\<forall>po \<in> set (to_overrides q). po_category po = cat \<and> po_channel po = ch \<longrightarrow> po_enabled po = b"
    by (auto simp: to_overrides_in)
  ultimately show ?thesis using apply_overrides_agree [OF True] by (simp add: apply_overrides_def)
next
  case False
  then have "apply_overrides (to_overrides q) cat ch = default_prefs cat ch"
    unfolding apply_overrides_def by (intro apply_overrides_unchanged) blast
  moreover have "(case q cat of None \<Rightarrow> None | Some f \<Rightarrow> f ch) \<noteq> Some b" if "b \<noteq> default_prefs cat ch" for b
  proof
    assume "(case q cat of None \<Rightarrow> None | Some f \<Rightarrow> f ch) = Some b"
    then have "\<lparr>po_category = cat, po_channel = ch, po_enabled = b\<rparr> \<in> set (to_overrides q)"
      using that by (simp add: to_overrides_in cong: option.case_cong)
    then show False using False by force
  qed
  ultimately show ?thesis by (cases "case q cat of None \<Rightarrow> None | Some f \<Rightarrow> f ch") auto
qed

text \<open>
  Saving switches stores only what differs from the defaults and reads back as what was given; a
  category that is given without one of its channels has that channel set back to its default.
\<close>

theorem prefs_read_back:
  "get_prefs (set_prefs w u p) v cat ch =
     (if v \<noteq> u then get_prefs w v cat ch
      else case p cat of
        None \<Rightarrow> get_prefs w u cat ch
      | Some f \<Rightarrow> (case f ch of Some b \<Rightarrow> b | None \<Rightarrow> default_prefs cat ch))"
proof (cases "v = u")
  case False
  have f: "filter (\<lambda>r. fst r \<noteq> u \<and> fst r = v) rs = filter (\<lambda>r. fst r = v) rs" for rs :: "(string \<times> pref_override) list"
    using False by (auto intro: filter_cong)
  show ?thesis using False by (simp add: get_prefs_def set_prefs_def f filter_empty_conv)
next
  case True
  let ?q = "\<lambda>cat. case p cat of None \<Rightarrow> Some (\<lambda>ch. Some (get_prefs w u cat ch)) | Some f \<Rightarrow> Some f"
  have "get_prefs (set_prefs w u p) u = apply_overrides (to_overrides ?q)"
    by (simp add: get_prefs_def set_prefs_def filter_map comp_def)
  then show ?thesis using True by (auto simp: overrides_read_back split: option.splits)
qed

section \<open>Examples\<close>

definition read_int :: "string \<Rightarrow> int option" where
  "read_int s = (case s of c # r \<Rightarrow> if c = CHR ''-'' then Some (- int (dec_value r)) else Some (int (dec_value s)) | [] \<Rightarrow> None)"

lemma read_int_text: "read_int (int_text k) = Some k"
proof -
  have "\<not> is_digit CHR ''-''" by code_simp
  then have "c \<noteq> CHR ''-''" if "digits m = c # r" for m c r using digits_digits [of m] that by auto
  moreover have "digits m \<noteq> []" for m by (subst digits.simps) simp
  ultimately have "read_int (digits m) = Some (int (dec_value (digits m)))" for m
    by (cases "digits m") (auto simp: read_int_def)
  then have "read_int (digits m) = Some (int m)" for m by simp
  moreover have "read_int (CHR ''-'' # digits m) = Some (- int m)" for m by (simp add: read_int_def)
  ultimately show ?thesis by (simp add: int_text_def)
qed

definition ex_user :: "string \<Rightarrow> user" where
  "ex_user i = \<lparr>u_id = i, u_name = i, u_password = [], u_roles = [], u_grants = [(APower, LRead)], u_ext = [],
     u_access = \<lparr>acc_levels = [], acc_ext = []\<rparr>, u_restrict = \<lparr>rs_enabled = i = ''b'', rs_allowed = []\<rparr>, is_admin = False,
     u_oobe = True, u_totp_secret = None, u_totp_enabled = False, u_tg2fa = False, u_primary = None\<rparr>"

definition ex_news :: news where
  "ex_news = \<lparr>nw_inbox = [], nw_prefs = [], nw_links = links_start, nw_db = \<lparr>db_users = [ex_user ''a'', ex_user ''b''], db_roles = [], db_servers = [''s'']\<rparr>,
     nw_servers = [], nw_errors = [], nw_alerts = [], nw_bot = True, nw_pushed = [], nw_sent = []\<rparr>"

definition ex_row :: "string \<Rightarrow> int \<Rightarrow> notice" where
  "ex_row i at = \<lparr>nt_id = i, nt_user = ''a'', nt_kind = KServerCrashed, nt_params = PServerCrashed ''s'' ''S'', nt_read = None, nt_at = at\<rparr>"

text \<open>A crash of a server that one of two accounts is kept from.\<close>

theorem notified_may_see_witness:
  "map nt_user (nw_inbox (snd (on_news (\<lambda>u. u) 5 (StatusChanged ''s'' ''S'' SCrashed) ex_news))) = [''a'']
   \<and> (\<exists>u. u_id u = ''a'' \<and> can_on_server (Some u) APower LRead ''s'')"
proof -
  obtain r w' where e: "on_news (\<lambda>u. u) 5 (StatusChanged ''s'' ''S'' SCrashed) ex_news = (r, w')" by fastforce
  have m: "map nt_user (nw_inbox (snd (on_news (\<lambda>u. u) 5 (StatusChanged ''s'' ''S'' SCrashed) ex_news))) = [''a'']" by code_simp
  with notified_may_see [OF e] e show ?thesis by (fastforce simp: ex_news_def)
qed

theorem pages_are_the_inbox_witness:
  "read_inbox (\<lambda>s. s) (\<lambda>s. s) read_int (ex_news\<lparr>nw_inbox := [ex_row ''x'' 5, ex_row ''y'' 7, ex_row ''z'' 5]\<rparr>) ''a'' 2 False 4 None
     = Some [ex_row ''y'' 7, ex_row ''z'' 5, ex_row ''x'' 5]"
proof -
  have "inbox_order (filter (in_inbox ''a'' False) [ex_row ''x'' 5, ex_row ''y'' 7, ex_row ''z'' 5]) = [ex_row ''y'' 7, ex_row ''z'' 5, ex_row ''x'' 5]"
    by code_simp
  then show ?thesis
    using pages_are_the_inbox [of "ex_news\<lparr>nw_inbox := [ex_row ''x'' 5, ex_row ''y'' 7, ex_row ''z'' 5]\<rparr>" 2 "\<lambda>s. s" "\<lambda>s. s" read_int "''a''" False]
    by (simp add: ex_row_def read_int_text eval_nat_numeral del: read_inbox.simps)
qed

end
