(* ===== verification/Json_Text.thy ===== *)
theory Json_Text
  imports Values Server_Dates
begin

text \<open>
  \<open>JSON.stringify\<close> of the values the panel compares and writes: strings with their escapes,
  arrays, objects in the order of their keys; \<open>undefined\<close> has no text, is \<open>null\<close> in an array and
  left out of an object.
\<close>

section \<open>Strings\<close>

definition json_hex :: "nat \<Rightarrow> char" where
  "json_hex n = (if n < 10 then char_of (48 + n) else char_of (87 + n))"

definition json_char :: "char \<Rightarrow> string" where
  "json_char c =
     (let n = (of_char c :: nat) in
      if n = 34 then [CHR 0x5C, CHR 0x22]
      else if n = 92 then [CHR 0x5C, CHR 0x5C]
      else if n = 8 then [CHR 0x5C, CHR ''b'']
      else if n = 9 then [CHR 0x5C, CHR ''t'']
      else if n = 10 then [CHR 0x5C, CHR ''n'']
      else if n = 12 then [CHR 0x5C, CHR ''f'']
      else if n = 13 then [CHR 0x5C, CHR ''r'']
      else if n < 32 then [CHR 0x5C, CHR ''u'', CHR ''0'', CHR ''0'', json_hex (n div 16), json_hex (n mod 16)]
      else [c])"

definition json_string :: "string \<Rightarrow> string" where
  "json_string s = CHR 0x22 # concat (map json_char s) @ [CHR 0x22]"

section \<open>Values\<close>

lemma member_size: "(k, v) \<in> set m \<Longrightarrow> size v < size (JObj m)"
  by (induction m) fastforce+

lemma prop_size: "size (js_prop v k) \<le> size v"
  by (cases v) (auto simp: js_prop_def split: option.split dest!: map_of_SomeD member_size)

lemma element_size: "v \<in> set vs \<Longrightarrow> size v < size (JArr vs)"
  by (induction vs) auto

function json_text :: "jsval \<Rightarrow> string option" where
  "json_text JUndef = None"
| "json_text JNull = Some ''null''"
| "json_text (JBool b) = Some (if b then ''true'' else ''false'')"
| "json_text (JNum n) = Some (int_text n)"
| "json_text (JStr s) = Some (json_string s)"
| "json_text (JArr vs) = Some (''['' @ join '','' (map (\<lambda>v. case json_text v of None \<Rightarrow> ''null'' | Some t \<Rightarrow> t) vs) @ '']'')"
| "json_text (JObj m) = Some (CHR 0x7B # join '','' (concat (map (\<lambda>kv. case json_text (snd kv) of
     None \<Rightarrow> [] | Some t \<Rightarrow> [json_string (fst kv) @ '':'' @ t]) m)) @ [CHR 0x7D])"
  by pat_completeness auto
termination by (relation "measure size") (auto dest: member_size element_size)

end
