(* ===== verification/Audit_Log.thy ===== *)
theory Audit_Log
  imports Json_Text Guards
begin

text \<open>
  The audit log (\<open>modules/audit-log\<close>): the diff of two snapshots, the entries a handler leaves
  behind, the table with its filters, and the rotation that removes old entries and records that
  it did.

  Ids and the clock are arguments.  The rows are in the order they were inserted, which is the
  order of their \<open>rowid\<close>.
\<close>

section \<open>Diff of snapshots (audit-diff.ts)\<close>

record diff_options =
  do_secrets :: "string list"
  do_ignore :: "string list"
  do_labels :: "(string, string) jsmap"

record audit_change =
  dc_field :: string
  dc_values :: "(jsval \<times> jsval) option"
  dc_label :: "string option"

definition is_plain :: "jsval \<Rightarrow> bool" where
  "is_plain v = (case v of JObj _ \<Rightarrow> True | _ \<Rightarrow> False)"

definition blank_null :: "jsval \<Rightarrow> jsval" where
  "blank_null v = (if v = JUndef \<or> v = JStr [] then JNull else v)"

definition same_json :: "jsval \<Rightarrow> jsval \<Rightarrow> bool" where
  "same_json a b \<longleftrightarrow> json_text (blank_null a) = json_text (blank_null b)"

definition js_keys :: "jsval \<Rightarrow> string list" where
  "js_keys v = (case v of JObj m \<Rightarrow> jkeys m | _ \<Rightarrow> [])"

definition no_value :: "jsval \<Rightarrow> bool" where
  "no_value v \<longleftrightarrow> v = JUndef \<or> v = JNull"

definition is_branch :: "jsval \<Rightarrow> jsval \<Rightarrow> bool" where
  "is_branch b a \<longleftrightarrow> (is_plain b \<or> is_plain a) \<and> (is_plain b \<or> no_value b) \<and> (is_plain a \<or> no_value a)"

definition both_keys :: "jsval \<Rightarrow> jsval \<Rightarrow> string list" where
  "both_keys b a = uniq (js_keys b @ js_keys a)"

definition sub_path :: "string \<Rightarrow> string \<Rightarrow> string" where
  "sub_path path k = (if path \<noteq> [] then path @ ''.'' @ k else k)"

definition value_change :: "diff_options \<Rightarrow> string \<Rightarrow> jsval \<Rightarrow> jsval \<Rightarrow> audit_change" where
  "value_change ops path b a =
     \<lparr>dc_field = path, dc_values = Some (blank_null b, blank_null a),
      dc_label = (case jget (do_labels ops) path of None \<Rightarrow> None | Some l \<Rightarrow> if l = [] then None else Some l)\<rparr>"

lemma key_size: "k \<in> set (js_keys v) \<Longrightarrow> size (js_prop v k) < size v"
  by (cases v) (auto simp: js_keys_def js_prop_def split: option.split dest!: map_of_SomeD member_size
      dest: weak_map_of_SomeI)

function diff_walk :: "diff_options \<Rightarrow> string \<Rightarrow> jsval \<Rightarrow> jsval \<Rightarrow> audit_change list" where
  "diff_walk ops path b a =
     (if path \<noteq> [] \<and> path \<in> set (do_ignore ops) then []
      else if path \<in> set (do_secrets ops)
      then (if same_json b a then [] else [\<lparr>dc_field = path, dc_values = None, dc_label = None\<rparr>])
      else if is_branch b a
      then concat (map (\<lambda>k. diff_walk ops (sub_path path k) (js_prop b k) (js_prop a k)) (both_keys b a))
      else if same_json b a then []
      else [value_change ops path b a])"
  by pat_completeness auto
termination
proof (relation "measure (\<lambda>(ops, path, b, a). size b + size a)", simp)
  fix ops path b a k
  assume "k \<in> set (both_keys b a)"
  then have "size (js_prop b k) < size b \<or> size (js_prop a k) < size a"
    using key_size by (auto simp: both_keys_def)
  then show "((ops, sub_path path k, js_prop b k, js_prop a k), ops, path, b, a) \<in> measure (\<lambda>(ops, path, b, a). size b + size a)"
    using prop_size [of b k] prop_size [of a k] by auto
qed

declare diff_walk.simps [simp del]

definition diff_changes :: "jsval \<Rightarrow> jsval \<Rightarrow> diff_options \<Rightarrow> audit_change list" where
  "diff_changes b a ops = diff_walk ops [] b a"

section \<open>The table (audit-logs.repository.ts)\<close>

datatype audit_result = AuditSuccess | AuditFailed

record audit_entry =
  ae_id :: string
  ae_user :: "string option"
  ae_name :: string
  ae_action :: string
  ae_category :: string
  ae_rtype :: "string option"
  ae_rid :: "string option"
  ae_rname :: "string option"
  ae_server :: "string option"
  ae_sname :: "string option"
  ae_changes :: "audit_change list option"
  ae_details :: jsval
  ae_result :: audit_result
  ae_error :: "string option"
  ae_ip :: "string option"
  ae_agent :: "string option"
  ae_source :: string
  ae_at :: int

text \<open>\<open>ORDER BY createdAt DESC, rowid DESC\<close>; rows come in the order of their \<open>rowid\<close>.\<close>

fun place_entry :: "audit_entry \<Rightarrow> audit_entry list \<Rightarrow> audit_entry list" where
  "place_entry e [] = [e]"
| "place_entry e (m # ms) = (if ae_at m \<le> ae_at e then e # m # ms else m # place_entry e ms)"

definition newest_entries :: "audit_entry list \<Rightarrow> audit_entry list" where
  "newest_entries rows = fold place_entry rows []"

definition audit_create :: "audit_entry \<Rightarrow> audit_entry list \<Rightarrow> audit_entry list result" where
  "audit_create e rows =
     (if row_find ae_id (ae_id e) rows \<noteq> None then fail Internal ''UNIQUE constraint failed'' else Inr (rows @ [e]))"

record prune_rule =
  pr_before :: "int option"
  pr_keep :: "nat option"

definition prunable :: "prune_rule \<Rightarrow> audit_entry list \<Rightarrow> audit_entry \<Rightarrow> bool" where
  "prunable rule rows e \<longleftrightarrow>
     (case pr_before rule of None \<Rightarrow> False | Some t \<Rightarrow> ae_at e < t) \<or>
     (case pr_keep rule of None \<Rightarrow> False | Some k \<Rightarrow> ae_id e \<notin> ae_id ` set (take k (newest_entries rows)))"

definition audit_prune :: "prune_rule \<Rightarrow> audit_entry list \<Rightarrow> audit_entry list" where
  "audit_prune rule rows = filter (\<lambda>e. \<not> prunable rule rows e) rows"

definition count_prunable :: "prune_rule \<Rightarrow> audit_entry list \<Rightarrow> nat" where
  "count_prunable rule rows = length (filter (prunable rule rows) rows)"

text \<open>\<open>LIKE\<close> of SQLite: ASCII letters without case, \<open>%\<close> and \<open>_\<close> as wildcards.\<close>

fun sql_like :: "string \<Rightarrow> string \<Rightarrow> bool" where
  "sql_like [] s \<longleftrightarrow> s = []"
| "sql_like (p # ps) [] \<longleftrightarrow> p = CHR ''%'' \<and> sql_like ps []"
| "sql_like (p # ps) (c # s) \<longleftrightarrow>
     (if p = CHR ''%'' then sql_like ps (c # s) \<or> sql_like (p # ps) s
      else (p = CHR ''_'' \<or> lower_char p = lower_char c) \<and> sql_like ps s)"

record audit_query =
  aq_category :: "string option"
  aq_action :: "string option"
  aq_user :: "string option"
  aq_server :: "string option"
  aq_result :: "audit_result option"
  aq_from :: "int option"
  aq_to :: "int option"
  aq_search :: "string option"
  aq_limit :: "nat option"
  aq_offset :: "nat option"

definition wanted :: "string option \<Rightarrow> string option \<Rightarrow> bool" where
  "wanted q v \<longleftrightarrow> (case q of None \<Rightarrow> True | Some s \<Rightarrow> s = [] \<or> v = Some s)"

definition like_opt :: "string \<Rightarrow> string option \<Rightarrow> bool" where
  "like_opt pat v \<longleftrightarrow> (case v of None \<Rightarrow> False | Some s \<Rightarrow> sql_like pat s)"

definition audit_matches :: "audit_query \<Rightarrow> audit_entry \<Rightarrow> bool" where
  "audit_matches q e \<longleftrightarrow>
     wanted (aq_category q) (Some (ae_category e)) \<and> wanted (aq_action q) (Some (ae_action e)) \<and>
     wanted (aq_user q) (ae_user e) \<and> wanted (aq_server q) (ae_server e) \<and>
     (case aq_result q of None \<Rightarrow> True | Some r \<Rightarrow> ae_result e = r) \<and>
     (case aq_from q of None \<Rightarrow> True | Some t \<Rightarrow> t \<le> ae_at e) \<and>
     (case aq_to q of None \<Rightarrow> True | Some t \<Rightarrow> ae_at e \<le> t) \<and>
     (case aq_search q of None \<Rightarrow> True | Some s \<Rightarrow> s = [] \<or>
        (let p = ''%'' @ s @ ''%'' in
         sql_like p (ae_name e) \<or> like_opt p (ae_rname e) \<or> like_opt p (ae_sname e) \<or> sql_like p (ae_action e)))"

definition audit_query_rows :: "audit_query \<Rightarrow> audit_entry list \<Rightarrow> audit_entry list \<times> nat" where
  "audit_query_rows q rows =
     (let hits = filter (audit_matches q) rows;
          limit = (case aq_limit q of None \<Rightarrow> 50 | Some l \<Rightarrow> l); offset = (case aq_offset q of None \<Rightarrow> 0 | Some n \<Rightarrow> n) in
      (take limit (drop offset (newest_entries hits)), length hits))"

section \<open>Recording (audit-log.service.ts)\<close>

record audit_input =
  ai_user :: "string option"
  ai_name :: "string option"
  ai_action :: string
  ai_category :: string
  ai_rtype :: "string option"
  ai_rid :: "string option"
  ai_rname :: "string option"
  ai_server :: "string option"
  ai_sname :: "string option"
  ai_changes :: "audit_change list option"
  ai_details :: jsval
  ai_result :: "audit_result option"
  ai_error :: "string option"
  ai_ip :: "string option"
  ai_agent :: "string option"
  ai_source :: "string option"

record audit_world =
  aw_rows :: "audit_entry list"
  aw_servers :: "(string, string) jsmap"
  aw_days :: "int option option"
  aw_max :: "nat option option"

definition text_given :: "string option \<Rightarrow> bool" where
  "text_given v \<longleftrightarrow> (case v of None \<Rightarrow> False | Some s \<Rightarrow> s \<noteq> [])"

definition own_server :: "audit_input \<Rightarrow> audit_input" where
  "own_server x =
     (if text_given (ai_server x) \<or> ai_rtype x \<noteq> Some ''server'' then x
      else x\<lparr>ai_server := ai_rid x, ai_sname := (case ai_sname x of None \<Rightarrow> ai_rname x | Some n \<Rightarrow> Some n)\<rparr>)"

definition audit_server_name :: "(string, string) jsmap \<Rightarrow> audit_input \<Rightarrow> string option" where
  "audit_server_name servers x =
     (if text_given (ai_sname x) then ai_sname x
      else case ai_server x of None \<Rightarrow> None | Some i \<Rightarrow> jget servers i)"

definition entry_of :: "(string, string) jsmap \<Rightarrow> audit_input \<Rightarrow> string \<Rightarrow> int \<Rightarrow> audit_entry" where
  "entry_of servers entry i now =
     (let x = own_server entry in
      \<lparr>ae_id = i, ae_user = ai_user x, ae_name = (if text_given (ai_name x) then the (ai_name x) else ''unknown''),
       ae_action = ai_action x, ae_category = ai_category x, ae_rtype = ai_rtype x, ae_rid = ai_rid x,
       ae_rname = ai_rname x, ae_server = ai_server x,
       ae_sname = (if text_given (ai_server x) then audit_server_name servers x else None),
       ae_changes = (case ai_changes x of Some (c # cs) \<Rightarrow> Some (c # cs) | _ \<Rightarrow> None),
       ae_details = (if no_value (ai_details x) then JNull else ai_details x),
       ae_result = (case ai_result x of None \<Rightarrow> AuditSuccess | Some r \<Rightarrow> r), ae_error = ai_error x,
       ae_ip = ai_ip x, ae_agent = ai_agent x,
       ae_source = (case ai_source x of None \<Rightarrow> ''panel'' | Some s \<Rightarrow> s), ae_at = now\<rparr>)"

text \<open>An error of the table is only logged.\<close>

definition audit_record :: "audit_input \<Rightarrow> string \<Rightarrow> int \<Rightarrow> audit_world \<Rightarrow> audit_world" where
  "audit_record x i now w =
     (case audit_create (entry_of (aw_servers w) x i now) (aw_rows w) of
        Inl e \<Rightarrow> w
      | Inr rows \<Rightarrow> w\<lparr>aw_rows := rows\<rparr>)"

section \<open>Rotation (audit-retention.service.ts)\<close>

definition audit_retention :: "audit_world \<Rightarrow> int option \<times> nat option" where
  "audit_retention w =
     ((case aw_days w of None \<Rightarrow> Some 180 | Some d \<Rightarrow> d), (case aw_max w of None \<Rightarrow> Some 1000 | Some k \<Rightarrow> k))"

definition rule_of :: "int option \<times> nat option \<Rightarrow> int \<Rightarrow> prune_rule" where
  "rule_of r now =
     \<lparr>pr_before = (case fst r of None \<Rightarrow> None | Some d \<Rightarrow> if d = 0 then None else Some (now - d * 86400000)),
      pr_keep = snd r\<rparr>"

definition prune_input :: "nat \<Rightarrow> int option \<times> nat option \<Rightarrow> audit_input" where
  "prune_input removed r =
     \<lparr>ai_user = None, ai_name = Some ''system'', ai_action = ''audit.prune'', ai_category = ''settings'',
      ai_rtype = Some ''audit_retention'', ai_rid = None, ai_rname = None, ai_server = None, ai_sname = None,
      ai_changes = None,
      ai_details = JObj [(''removed'', JNum (int removed)),
        (''keepDays'', case fst r of None \<Rightarrow> JNull | Some d \<Rightarrow> JNum d),
        (''maxEntries'', case snd r of None \<Rightarrow> JNull | Some k \<Rightarrow> JNum (int k))],
      ai_result = None, ai_error = None, ai_ip = None, ai_agent = None, ai_source = Some ''system''\<rparr>"

definition rotate_log :: "string \<Rightarrow> int \<Rightarrow> audit_world \<Rightarrow> audit_world" where
  "rotate_log i now w =
     (let r = audit_retention w; rows = audit_prune (rule_of r now) (aw_rows w);
          removed = length (aw_rows w) - length rows; w1 = w\<lparr>aw_rows := rows\<rparr> in
      if removed > 0 then audit_record (prune_input removed r) i now w1 else w1)"

text \<open>Saving limits; the rotation follows a tick later.\<close>

definition set_retention :: "int option \<Rightarrow> nat option \<Rightarrow> audit_world \<Rightarrow> audit_world" where
  "set_retention days keep w = w\<lparr>aw_days := Some days, aw_max := Some keep\<rparr>"

definition preview_retention :: "int option \<Rightarrow> nat option \<Rightarrow> int \<Rightarrow> audit_world \<Rightarrow> nat" where
  "preview_retention days keep now w = count_prunable (rule_of (days, keep) now) (aw_rows w)"

section \<open>Handlers (audit.decorator.ts, audit.interceptor.ts)\<close>

record audit_resolved =
  rv_skip :: "bool option"
  rv_action :: "string option"
  rv_category :: "string option"
  rv_user :: "string option"
  rv_name :: "string option"
  rv_rtype :: "string option"
  rv_rid :: "string option"
  rv_rname :: "string option"
  rv_server :: "string option"
  rv_sname :: "string option"
  rv_changes :: "audit_change list option"
  rv_details :: "(string, jsval) jsmap"

definition over :: "'a option \<Rightarrow> 'a option \<Rightarrow> 'a option" where
  "over later before = (case later of None \<Rightarrow> before | Some x \<Rightarrow> Some x)"

definition resolved_over :: "audit_resolved \<Rightarrow> audit_resolved \<Rightarrow> audit_resolved" where
  "resolved_over r n =
     \<lparr>rv_skip = over (rv_skip r) (rv_skip n), rv_action = over (rv_action r) (rv_action n),
      rv_category = over (rv_category r) (rv_category n), rv_user = over (rv_user r) (rv_user n),
      rv_name = over (rv_name r) (rv_name n), rv_rtype = over (rv_rtype r) (rv_rtype n),
      rv_rid = over (rv_rid r) (rv_rid n), rv_rname = over (rv_rname r) (rv_rname n),
      rv_server = over (rv_server r) (rv_server n), rv_sname = over (rv_sname r) (rv_sname n),
      rv_changes = over (rv_changes r) (rv_changes n), rv_details = spread (rv_details n) (rv_details r)\<rparr>"

definition nothing_resolved :: audit_resolved where
  "nothing_resolved = \<lparr>rv_skip = None, rv_action = None, rv_category = None, rv_user = None, rv_name = None, rv_rtype = None,
     rv_rid = None, rv_rname = None, rv_server = None, rv_sname = None, rv_changes = None, rv_details = []\<rparr>"

definition audit_merge :: "audit_resolved option \<Rightarrow> audit_resolved option \<Rightarrow> audit_resolved" where
  "audit_merge note resolved =
     resolved_over (case resolved of None \<Rightarrow> nothing_resolved | Some r \<Rightarrow> r)
       (case note of None \<Rightarrow> nothing_resolved | Some n \<Rightarrow> n)"

definition compact_details :: "(string, jsval) jsmap \<Rightarrow> jsval" where
  "compact_details m = (case filter (\<lambda>kv. \<not> no_value (snd kv)) m of [] \<Rightarrow> JNull | e # es \<Rightarrow> JObj (e # es))"

record audit_meta =
  am_action :: string
  am_category :: string
  am_rtype :: "string option"

record audit_request =
  ar_user :: "(string \<times> string) option"
  ar_param_id :: "string option"
  ar_body_name :: "string option"
  ar_ip :: "string option"
  ar_agent :: "string option"
  ar_note :: "audit_resolved option"

definition server_target :: "(string, string) jsmap \<Rightarrow> request \<Rightarrow> string option \<Rightarrow> string option \<times> string option" where
  "server_target servers rq field =
     (let i = (case field of None \<Rightarrow> None | Some f \<Rightarrow> if f = [] then None else request_server_id rq f) in
      (i, case i of None \<Rightarrow> None | Some s \<Rightarrow> if s = [] then None else jget servers s))"

definition audit_write ::
  "audit_meta \<Rightarrow> audit_request \<Rightarrow> audit_resolved \<Rightarrow> string option \<times> string option \<Rightarrow> audit_result \<Rightarrow> string option \<Rightarrow> audit_input" where
  "audit_write meta rq extra target result err =
     (let rtype = over (rv_rtype extra) (am_rtype meta);
          rid = over (rv_rid extra) (ar_param_id rq);
          server = over (rv_server extra) (over (fst target) (if rtype = Some ''server'' then rid else None));
          sname = over (rv_sname extra) (if server = fst target then snd target else None);
          rname = over (rv_rname extra) (if rtype = Some ''server'' then sname else None) in
      \<lparr>ai_user = over (rv_user extra) (map_option fst (ar_user rq)),
       ai_name = over (rv_name extra) (over (map_option snd (ar_user rq)) (over (ar_body_name rq) (Some ''unknown''))),
       ai_action = the (over (rv_action extra) (Some (am_action meta))),
       ai_category = the (over (rv_category extra) (Some (am_category meta))),
       ai_rtype = rtype, ai_rid = rid, ai_rname = rname, ai_server = server, ai_sname = sname,
       ai_changes = (case rv_changes extra of Some (c # cs) \<Rightarrow> Some (c # cs) | _ \<Rightarrow> None),
       ai_details = compact_details (rv_details extra), ai_result = Some result, ai_error = err,
       ai_ip = ar_ip rq, ai_agent = ar_agent rq, ai_source = Some ''panel''\<rparr>)"

text \<open>
  What follows the handler of an annotated route: its result, with what \<open>resolve\<close> made of it, or
  its error with the message.  Other routes pass through.
\<close>

datatype handled = HandlerResult "audit_resolved option" | HandlerError "audit_resolved option" "string option"

definition audit_handled ::
  "audit_meta option \<Rightarrow> audit_request \<Rightarrow> string option \<times> string option \<Rightarrow> handled \<Rightarrow> string \<Rightarrow> int \<Rightarrow> audit_world \<Rightarrow> audit_world" where
  "audit_handled meta rq target outcome i now w =
     (case meta of
        None \<Rightarrow> w
      | Some m \<Rightarrow>
         (case outcome of
            HandlerResult r \<Rightarrow>
              (let extra = audit_merge (ar_note rq) r in
               if rv_skip extra = Some True then w
               else audit_record (audit_write m rq extra target AuditSuccess None) i now w)
          | HandlerError r msg \<Rightarrow>
              audit_record (audit_write m rq (audit_merge (ar_note rq) r) target AuditFailed
                (Some (if text_given msg then the msg else ''Error''))) i now w))"

text \<open>\<open>auditNote\<close>: notes of one request add up.\<close>

definition audit_note :: "audit_resolved \<Rightarrow> audit_request \<Rightarrow> audit_request" where
  "audit_note n rq = rq\<lparr>ar_note := Some (audit_merge (ar_note rq) (Some n))\<rparr>"

end
