(* ===== verification/Audit_Properties.thy ===== *)
theory Audit_Properties
  imports Audit_Log
begin

text \<open>
  What the diff says of secrets, what a handler leaves behind, and what the rotation keeps.
\<close>

section \<open>Secrets in a diff\<close>

text \<open>
  The pair \<open>(b', a')\<close> of snapshots differs from \<open>(b, a)\<close> in secret values only, and each secret
  changed in both pairs or in none.
\<close>

inductive secret_variant :: "string list \<Rightarrow> string \<Rightarrow> jsval \<Rightarrow> jsval \<Rightarrow> jsval \<Rightarrow> jsval \<Rightarrow> bool" for secrets where
  sv_same: "secret_variant secrets p b a b a"
| sv_secret: "p \<in> set secrets \<Longrightarrow> same_json b a = same_json b' a' \<Longrightarrow> secret_variant secrets p b a b' a'"
| sv_branch: "p \<notin> set secrets \<Longrightarrow> is_branch b a \<Longrightarrow> is_branch b' a' \<Longrightarrow> both_keys b a = both_keys b' a'
    \<Longrightarrow> (\<And>k. k \<in> set (both_keys b a) \<Longrightarrow>
          secret_variant secrets (sub_path p k) (js_prop b k) (js_prop a k) (js_prop b' k) (js_prop a' k))
    \<Longrightarrow> secret_variant secrets p b a b' a'"

lemma walk_variant:
  "secret_variant (do_secrets ops) p b a b' a' \<Longrightarrow> diff_walk ops p b a = diff_walk ops p b' a'"
proof (induction rule: secret_variant.induct)
  case (sv_secret p b a b' a')
  then show ?case by (subst (1 2) diff_walk.simps) (cases "p = []"; simp)
next
  case (sv_branch p b a b' a')
  have "concat (map (\<lambda>k. diff_walk ops (sub_path p k) (js_prop b k) (js_prop a k)) (both_keys b a))
      = concat (map (\<lambda>k. diff_walk ops (sub_path p k) (js_prop b' k) (js_prop a' k)) (both_keys b' a'))"
    unfolding sv_branch.hyps(4) [symmetric] using sv_branch.IH by (intro arg_cong [where f = concat] map_cong) auto
  then show ?case using sv_branch.hyps(1-3) by (subst (1 2) diff_walk.simps) (cases "p = []"; simp)
qed simp

lemma walk_paths:
  "c \<in> set (diff_walk ops p b a) \<Longrightarrow> dc_values c \<noteq> None \<Longrightarrow> dc_field c \<notin> set (do_secrets ops)"
proof (induction ops p b a rule: diff_walk.induct)
  case (1 ops p b a)
  show ?case
  proof (cases "(p \<noteq> [] \<and> p \<in> set (do_ignore ops)) \<or> p \<in> set (do_secrets ops)")
    case True
    then show ?thesis using "1.prems" by (subst (asm) diff_walk.simps) (auto split: if_splits)
  next
    case False
    show ?thesis
    proof (cases "is_branch b a")
      case True
      then obtain k where "k \<in> set (both_keys b a)" "c \<in> set (diff_walk ops (sub_path p k) (js_prop b k) (js_prop a k))"
        using "1.prems"(1) False by (subst (asm) diff_walk.simps) auto
      then show ?thesis using "1.IH" [of k] "1.prems"(2) False True by blast
    next
      case nb: False
      then have "c = value_change ops p b a" using "1.prems"(1) False by (subst (asm) diff_walk.simps) (auto split: if_splits)
      then show ?thesis using False by (simp add: value_change_def)
    qed
  qed
qed

section \<open>The newest entries\<close>

lemma place_last: "\<forall>m \<in> set ms. ae_at m \<le> ae_at e \<Longrightarrow> place_entry e ms = e # ms"
  by (cases ms) auto

lemma set_place_entry [simp]: "set (place_entry e ms) = insert e (set ms)"
  by (induction ms) auto

lemma length_place_entry [simp]: "length (place_entry e ms) = Suc (length ms)"
  by (induction ms) auto

lemma fold_place: "sorted (map ae_at (rev acc @ rows)) \<Longrightarrow> fold place_entry rows acc = rev rows @ acc"
proof (induction rows arbitrary: acc)
  case (Cons e rows)
  have "\<forall>m \<in> set acc. ae_at m \<le> ae_at e" using Cons.prems by (auto simp: sorted_append)
  then have "place_entry e acc = e # acc" by (rule place_last)
  then show ?case using Cons by simp
qed simp

lemma newest_in_time: "sorted (map ae_at rows) \<Longrightarrow> newest_entries rows = rev rows"
  using fold_place [of "[]" rows] by (simp add: newest_entries_def)

lemma newest_set [simp]: "set (newest_entries rows) = set rows" "length (newest_entries rows) = length rows"
proof -
  have "set (fold place_entry rows acc) = set rows \<union> set acc" "length (fold place_entry rows acc) = length rows + length acc" for acc
    by (induction rows arbitrary: acc) auto
  then show "set (newest_entries rows) = set rows" "length (newest_entries rows) = length rows" by (simp_all add: newest_entries_def)
qed

section \<open>Rotation\<close>

lemma prune_in_time:
  assumes "sorted (map ae_at rows)" and "distinct (map ae_id rows)"
    and "pr_keep rule = Some k" and "\<forall>e \<in> set rows. \<not> (case pr_before rule of None \<Rightarrow> False | Some t \<Rightarrow> ae_at e < t)"
  shows "audit_prune rule rows = drop (length rows - k) rows"
proof -
  let ?n = "length rows - k"
  have newest: "set (take k (newest_entries rows)) = set (drop ?n rows)"
    using newest_in_time [OF assms(1)] by (simp add: take_rev)
  have ids: "ae_id e \<in> ae_id ` set (drop ?n rows) \<longleftrightarrow> e \<in> set (drop ?n rows)" if "e \<in> set rows" for e
    using assms(2) that by (auto simp: distinct_map dest: in_set_dropD inj_onD)
  have "audit_prune rule rows = filter (\<lambda>e. e \<in> set (drop ?n rows)) rows"
    unfolding audit_prune_def prunable_def assms(3) option.case newest
    using assms(4) ids by (intro filter_cong) auto
  also have "\<dots> = filter (\<lambda>e. e \<in> set (drop ?n rows)) (take ?n rows @ drop ?n rows)" by simp
  also have "\<dots> = drop ?n rows"
  proof -
    have "distinct rows" using assms(2) by (simp add: distinct_map)
    then have "set (take ?n rows) \<inter> set (drop ?n rows) = {}" by (rule set_take_disj_set_drop_if_distinct) simp
    then show ?thesis by (subst filter_append) (auto simp: filter_empty_conv)
  qed
  finally show ?thesis .
qed

lemma entry_of_simps [simp]: "ae_id (entry_of s x i now) = i" "ae_at (entry_of s x i now) = now"
  by (simp_all add: entry_of_def Let_def)

lemma record_fresh:
  "i \<notin> ae_id ` set (aw_rows w) \<Longrightarrow> audit_record x i now w = w\<lparr>aw_rows := aw_rows w @ [entry_of (aw_servers w) x i now]\<rparr>"
  using row_find_None_iff [of ae_id i "aw_rows w"] by (simp add: audit_record_def audit_create_def entry_of_def Let_def)

text \<open>The hourly rotation, \<open>ticks\<close> being its times with the ids of the entries it writes.\<close>

fun rotations :: "(int \<times> string) list \<Rightarrow> audit_world \<Rightarrow> audit_world" where
  "rotations [] w = w"
| "rotations ((now, i) # ticks) w = rotations ticks (rotate_log i now w)"

definition rotation_entry :: "audit_entry \<Rightarrow> bool" where
  "rotation_entry e \<longleftrightarrow> ae_action e = ''audit.prune'' \<and> ae_source e = ''system''"

lemma rotate_full:
  assumes "sorted (map ae_at (aw_rows w))" and "distinct (map ae_id (aw_rows w))"
    and "audit_retention w = (days, Some k)" and "length (aw_rows w) = Suc k"
    and "\<forall>d. days = Some d \<longrightarrow> d = 0 \<or> (\<forall>e \<in> set (aw_rows w). now - d * 86400000 \<le> ae_at e)"
    and "i \<notin> ae_id ` set (aw_rows w)"
  shows "\<exists>e. rotate_log i now w = w\<lparr>aw_rows := tl (aw_rows w) @ [e]\<rparr> \<and> ae_id e = i \<and> ae_at e = now \<and> rotation_entry e"
proof -
  let ?r = "rule_of (days, Some k) now"
  have "audit_prune ?r (aw_rows w) = drop (length (aw_rows w) - k) (aw_rows w)"
    by (rule prune_in_time [OF assms(1,2)]) (use assms(5) in \<open>force simp: rule_of_def linorder_not_less split: option.splits if_splits\<close>)+
  then have p: "audit_prune ?r (aw_rows w) = tl (aw_rows w)" using assms(4) by (simp add: drop_Suc)
  have "i \<notin> ae_id ` set (tl (aw_rows w))" using assms(6) by (cases "aw_rows w") auto
  then have "rotate_log i now w = w\<lparr>aw_rows := tl (aw_rows w) @ [entry_of (aw_servers w) (prune_input 1 (days, Some k)) i now]\<rparr>"
    using assms(3,4) p record_fresh [of i "w\<lparr>aw_rows := tl (aw_rows w)\<rparr>"] by (simp add: rotate_log_def Let_def)
  moreover have "rotation_entry (entry_of s (prune_input m r) i now)" for s m r
    by (simp add: rotation_entry_def entry_of_def own_server_def prune_input_def text_given_def Let_def)
  ultimately show ?thesis using entry_of_simps by blast
qed

lemma rotations_full:
  assumes "sorted (map ae_at (aw_rows w) @ map fst ticks)" and "distinct (map ae_id (aw_rows w) @ map snd ticks)"
    and "audit_retention w = (days, Some k)" and "length (aw_rows w) = Suc k"
    and "\<forall>d. days = Some d \<longrightarrow> d = 0 \<or> (\<forall>t \<in> set (map ae_at (aw_rows w) @ map fst ticks). \<forall>(now, i) \<in> set ticks. now - d * 86400000 \<le> t)"
  shows "\<exists>es. aw_rows (rotations ticks w) = drop (length ticks) (aw_rows w @ es) \<and> length es = length ticks
     \<and> (\<forall>e \<in> set es. rotation_entry e)"
  using assms
proof (induction ticks arbitrary: w)
  case Nil
  then show ?case by simp
next
  case (Cons t ticks)
  obtain now i where t: "t = (now, i)" by fastforce
  have "\<exists>e. rotate_log i now w = w\<lparr>aw_rows := tl (aw_rows w) @ [e]\<rparr> \<and> ae_id e = i \<and> ae_at e = now \<and> rotation_entry e"
  proof (rule rotate_full [OF _ _ Cons.prems(3,4)])
    show "\<forall>d. days = Some d \<longrightarrow> d = 0 \<or> (\<forall>e\<in>set (aw_rows w). now - d * 86400000 \<le> ae_at e)" using Cons.prems(5) t by fastforce
  qed (use Cons.prems(1,2) t in \<open>auto simp: sorted_append\<close>)
  then obtain e where e: "rotate_log i now w = w\<lparr>aw_rows := tl (aw_rows w) @ [e]\<rparr>" "ae_id e = i" "ae_at e = now" "rotation_entry e" by blast
  obtain r rs where rows: "aw_rows w = r # rs" using Cons.prems(4) by (cases "aw_rows w") auto
  let ?w = "rotate_log i now w"
  have rows': "aw_rows ?w = rs @ [e]" using e(1) rows by simp
  have same: "audit_retention ?w = (days, Some k)" using e(1) Cons.prems(3) by (simp add: audit_retention_def)
  have "\<exists>es. aw_rows (rotations ticks ?w) = drop (length ticks) (aw_rows ?w @ es) \<and> length es = length ticks \<and> (\<forall>e \<in> set es. rotation_entry e)"
  proof (rule Cons.IH [OF _ _ same])
    show "sorted (map ae_at (aw_rows ?w) @ map fst ticks)"
      using Cons.prems(1) rows rows' t e(3) by (auto simp: sorted_append)
    show "distinct (map ae_id (aw_rows ?w) @ map snd ticks)" using Cons.prems(2) rows rows' t e(2) by auto
    show "length (aw_rows ?w) = Suc k" using Cons.prems(4) rows rows' by simp
    show "\<forall>d. days = Some d \<longrightarrow> d = 0 \<or> (\<forall>t \<in> set (map ae_at (aw_rows ?w) @ map fst ticks). \<forall>(now, i) \<in> set ticks. now - d * 86400000 \<le> t)"
      using Cons.prems(5) rows rows' t e(3) by fastforce
  qed
  then obtain es where es: "aw_rows (rotations ticks ?w) = drop (length ticks) (aw_rows ?w @ es)" "length es = length ticks" "\<forall>e \<in> set es. rotation_entry e"
    by blast
  have "aw_rows (rotations (t # ticks) w) = drop (length (t # ticks)) (aw_rows w @ e # es)"
    using es(1) rows rows' t by simp
  then show ?case using es(2,3) e(4) by (intro exI [of _ "e # es"]) auto
qed

section \<open>Properties\<close>


definition too_old :: "int option \<Rightarrow> int \<Rightarrow> audit_entry \<Rightarrow> bool" where
  "too_old days now e = (case days of None \<Rightarrow> False | Some d \<Rightarrow> d \<noteq> 0 \<and> ae_at e < now - d * 86400000)"

text \<open>
  A rotation leaves nothing behind that is too old, at most the limit of old entries, and takes an
  entry only when it is too old or the limit is reached by newer ones.
\<close>

theorem rotation_within_limits:
  assumes "distinct (map ae_id (aw_rows w))" and "audit_retention w = (days, keep)"
  shows "\<exists>new. aw_rows (rotate_log i now w) = filter (\<lambda>e. \<not> too_old days now e \<and>
      (case keep of None \<Rightarrow> True | Some k \<Rightarrow> e \<in> set (take k (newest_entries (aw_rows w))))) (aw_rows w) @ new
    \<and> length new \<le> 1 \<and> (\<forall>e \<in> set new. rotation_entry e)
    \<and> (case keep of None \<Rightarrow> True | Some k \<Rightarrow> length (aw_rows (rotate_log i now w)) \<le> k + 1)"
proof -
  let ?in = "\<lambda>e. case keep of None \<Rightarrow> True | Some k \<Rightarrow> e \<in> set (take k (newest_entries (aw_rows w)))"
  let ?rows = "filter (\<lambda>e. \<not> too_old days now e \<and> ?in e) (aw_rows w)"
  have ids: "ae_id e \<in> ae_id ` set (take k (newest_entries (aw_rows w))) \<longleftrightarrow> e \<in> set (take k (newest_entries (aw_rows w)))"
    if "e \<in> set (aw_rows w)" for e k
    using assms(1) that inj_on_image_mem_iff [of ae_id "set (aw_rows w)" e "set (take k (newest_entries (aw_rows w)))"]
      set_take_subset [of k "newest_entries (aw_rows w)"] by (simp add: distinct_map)
  have p: "audit_prune (rule_of (days, keep) now) (aw_rows w) = ?rows"
    unfolding audit_prune_def prunable_def
    by (intro filter_cong refl) (auto simp: rule_of_def too_old_def ids split: option.splits)
  have "rotation_entry (entry_of s (prune_input m r) i now)" for s m r
    by (simp add: rotation_entry_def entry_of_def own_server_def prune_input_def text_given_def Let_def)
  then have "\<exists>new. aw_rows (rotate_log i now w) = ?rows @ new \<and> length new \<le> 1 \<and> (\<forall>e \<in> set new. rotation_entry e)"
    using assms(2) p by (auto simp: rotate_log_def Let_def audit_record_def audit_create_def)
  moreover have "length ?rows \<le> k" if "keep = Some k" for k
  proof -
    have d: "distinct ?rows" using assms(1) by (simp add: distinct_map)
    have "set ?rows \<subseteq> set (take k (newest_entries (aw_rows w)))" using that by auto
    then have "card (set ?rows) \<le> length (take k (newest_entries (aw_rows w)))"
      by (meson List.finite_set card_length card_mono le_trans)
    then show ?thesis using distinct_card [OF d] by simp
  qed
  ultimately show ?thesis by (auto split: option.splits)
qed


text \<open>
  An annotated route leaves one entry for every outcome: its error with the result failed, its
  result unless it asks to be skipped, under the name of the account that asked.
\<close>

theorem handler_leaves_entry:
  assumes "i \<notin> ae_id ` set (aw_rows w)" and "ar_user rq = Some (uid, name)" and "name \<noteq> []"
    and "\<forall>r. outcome = HandlerResult r \<longrightarrow> rv_skip (audit_merge (ar_note rq) r) \<noteq> Some True"
    and "\<forall>r m. (outcome = HandlerResult r \<or> outcome = HandlerError r m) \<longrightarrow>
      rv_user (audit_merge (ar_note rq) r) = None \<and> rv_name (audit_merge (ar_note rq) r) = None"
  shows "\<exists>e. aw_rows (audit_handled (Some meta) rq target outcome i now w) = aw_rows w @ [e]
     \<and> ae_user e = Some uid \<and> ae_name e = name \<and> ae_at e = now
     \<and> (case outcome of HandlerResult r \<Rightarrow> ae_result e = AuditSuccess \<and> ae_error e = None
        | HandlerError r m \<Rightarrow> ae_result e = AuditFailed \<and> ae_error e \<noteq> None)"
proof (cases outcome)
  case (HandlerResult r)
  then show ?thesis using assms record_fresh [OF assms(1)]
    by (auto simp: audit_handled_def Let_def entry_of_def own_server_def audit_write_def over_def text_given_def)
next
  case (HandlerError r m)
  then show ?thesis using assms record_fresh [OF assms(1)]
    by (auto simp: audit_handled_def Let_def entry_of_def own_server_def audit_write_def over_def text_given_def)
qed

section \<open>Examples\<close>

definition ex_options :: diff_options where
  "ex_options = \<lparr>do_secrets = [''bot.token''], do_ignore = [], do_labels = []\<rparr>"

definition ex_bot :: "string \<Rightarrow> jsval" where
  "ex_bot token = JObj [(''token'', JStr token), (''on'', JBool True)]"

definition ex_config :: "string \<Rightarrow> int \<Rightarrow> jsval" where
  "ex_config token port = JObj [(''bot'', ex_bot token), (''port'', JNum port)]"

lemma ex_bot_variant: "secret_variant [''bot.token''] ''bot'' (ex_bot ''old'') (ex_bot ''new'') (ex_bot ''a'') (ex_bot ''b'')"
proof (rule sv_branch)
  fix x assume "x \<in> set (both_keys (ex_bot ''old'') (ex_bot ''new''))"
  then have x: "x = ''token'' \<or> x = ''on''" by (auto simp: both_keys_def js_keys_def ex_bot_def)
  have s: "same_json (JStr ''old'') (JStr ''new'') = same_json (JStr ''a'') (JStr ''b'')" by code_simp
  from x show "secret_variant [''bot.token''] (sub_path ''bot'' x) (js_prop (ex_bot ''old'') x) (js_prop (ex_bot ''new'') x)
      (js_prop (ex_bot ''a'') x) (js_prop (ex_bot ''b'') x)"
  proof
    assume "x = ''token''"
    then show ?thesis using s by (intro sv_secret) (simp_all add: sub_path_def ex_bot_def)
  next
    assume "x = ''on''"
    then show ?thesis by (simp add: ex_bot_def sv_same)
  qed
qed (simp_all add: is_branch_def is_plain_def both_keys_def js_keys_def ex_bot_def)

lemma ex_config_variant:
  "secret_variant (do_secrets ex_options) [] (ex_config ''old'' 1) (ex_config ''new'' 2) (ex_config ''a'' 1) (ex_config ''b'' 2)"
proof (rule sv_branch)
  fix x assume "x \<in> set (both_keys (ex_config ''old'' 1) (ex_config ''new'' 2))"
  then have x: "x = ''bot'' \<or> x = ''port''" by (auto simp: both_keys_def js_keys_def ex_config_def)
  from x show "secret_variant (do_secrets ex_options) (sub_path [] x) (js_prop (ex_config ''old'' 1) x) (js_prop (ex_config ''new'' 2) x)
      (js_prop (ex_config ''a'' 1) x) (js_prop (ex_config ''b'' 2) x)"
  proof
    assume "x = ''bot''"
    then show ?thesis using ex_bot_variant by (simp add: sub_path_def ex_config_def ex_options_def)
  next
    assume "x = ''port''"
    then show ?thesis by (simp add: ex_config_def sv_same)
  qed
qed (simp_all add: is_branch_def is_plain_def both_keys_def js_keys_def ex_config_def ex_options_def)


definition ex_entry :: "string \<Rightarrow> int \<Rightarrow> audit_entry" where
  "ex_entry i at = (entry_of [] ((prune_input 0 (None, None))\<lparr>ai_action := ''server.start'', ai_source := None\<rparr>) i at)"

definition ex_log :: audit_world where
  "ex_log = \<lparr>aw_rows = [ex_entry ''a'' 1, ex_entry ''b'' 2], aw_servers = [], aw_days = None, aw_max = Some (Some 1)\<rparr>"

lemma ex_entry_simps [simp]: "ae_id (ex_entry i at) = i" "ae_at (ex_entry i at) = at"
  by (simp_all add: ex_entry_def)

lemma ex_log_simps: "aw_rows ex_log = [ex_entry ''a'' 1, ex_entry ''b'' 2]" "audit_retention ex_log = (Some 180, Some 1)"
  by (simp_all add: ex_log_def audit_retention_def)

theorem rotation_within_limits_witness:
  "length (aw_rows (rotate_log ''p'' 5 ex_log)) \<le> 2"
  using rotation_within_limits [where w = ex_log and days = "Some 180" and keep = "Some 1" and now = 5 and i = "''p''"] by (auto simp: ex_log_simps)


definition ex_asked :: audit_request where
  "ex_asked = \<lparr>ar_user = Some (''u'', ''Ann''), ar_param_id = None, ar_body_name = None, ar_ip = None, ar_agent = None, ar_note = None\<rparr>"

theorem handler_leaves_entry_witness:
  "\<exists>e. aw_rows (audit_handled (Some \<lparr>am_action = ''java.install'', am_category = ''settings'', am_rtype = None\<rparr>) ex_asked (None, None)
     (HandlerError None (Some ''no'')) ''n'' 9 ex_log) = aw_rows ex_log @ [e] \<and> ae_name e = ''Ann'' \<and> ae_result e = AuditFailed"
  using handler_leaves_entry [of "''n''" ex_log ex_asked "''u''" "''Ann''" "HandlerError None (Some ''no'')" "\<lparr>am_action = ''java.install'', am_category = ''settings'', am_rtype = None\<rparr>" "(None, None)" 9]
  by (auto simp: ex_log_simps ex_asked_def audit_merge_def nothing_resolved_def resolved_over_def over_def)

end
