(* ===== verification/Toml_Patcher.thy ===== *)
theory Toml_Patcher
  imports Json_Text
begin

text \<open>
  The line editor for TOML files (\<open>networks/config/toml-patcher.ts\<close>) and the settings of Velocity
  it writes (\<open>velocity-settings.ts\<close>, \<open>velocity-configurator.ts\<close>).

  A document is its list of lines with its line ending.  Lines are only looked at outside of
  values: the scan keeps the depth of brackets and the quotes of an open multiline string.  What
  \<open>Bun.TOML\<close> reads from a text is an argument.
\<close>

section \<open>Scanning a line\<close>

type_synonym scan_state = "int \<times> string option"

abbreviation top_state :: scan_state where "top_state \<equiv> (0, None)"

definition triple :: "char \<Rightarrow> string" where
  "triple c = [c, c, c]"

text \<open>Behind a quoted string; an escape counts in double quotes only.\<close>

fun behind_quote :: "char \<Rightarrow> string \<Rightarrow> string" where
  "behind_quote q [] = []"
| "behind_quote q [c] = []"
| "behind_quote q (c # d # s) =
     (if c = q then d # s else if q = CHR 0x22 \<and> c = CHR 0x5C then behind_quote q s else behind_quote q (d # s))"

lemma behind_quote_length: "length (behind_quote q s) \<le> length s"
  by (induction q s rule: behind_quote.induct) auto

function scan_line :: "string \<Rightarrow> scan_state \<Rightarrow> scan_state" where
  "scan_line s (d, Some q) =
     (case index_of q s of None \<Rightarrow> (d, Some q) | Some i \<Rightarrow> scan_line (drop (i + 3) s) (d, None))"
| "scan_line [] (d, None) = (d, None)"
| "scan_line (c # s) (d, None) =
     (if c = CHR ''#'' then (d, None)
      else if take 3 (c # s) = triple (CHR 0x22) \<or> take 3 (c # s) = triple (CHR 0x27)
      then scan_line (drop 2 s) (d, Some (take 3 (c # s)))
      else if c = CHR 0x22 \<or> c = CHR 0x27 then scan_line (behind_quote c s) (d, None)
      else scan_line s (if c = CHR ''['' then d + 1 else if c = CHR '']'' then d - 1 else d, None))"
  by pat_completeness auto
termination
proof (relation "measure (\<lambda>(s, st). 2 * length s + (if snd st = None then 0 else 1))", goal_cases)
  case (4 c s d)
  show ?case using behind_quote_length [of c s] by simp
qed (auto simp: triple_def dest!: arg_cong [where f = length])

section \<open>Headers and keys\<close>

definition is_bracket :: "char \<Rightarrow> bool" where
  "is_bracket c \<longleftrightarrow> c = CHR ''['' \<or> c = CHR '']''"

definition is_quote :: "char \<Rightarrow> bool" where
  "is_quote c \<longleftrightarrow> c = CHR 0x22 \<or> c = CHR 0x27"

definition unquote_key :: "string \<Rightarrow> string" where
  "unquote_key key =
     (let t = trim key in
      if length t \<ge> 2 \<and> is_quote (hd t) \<and> is_quote (last t) then butlast (tl t) else t)"

text \<open>The pattern \<open>HEADER\<close>.\<close>

definition header_name :: "string \<Rightarrow> string option" where
  "header_name line =
     (case trim_start line of
        [] \<Rightarrow> None
      | c # s \<Rightarrow>
          if c \<noteq> CHR ''['' then None
          else
            let s1 = (if take 1 s = ''['' then drop 1 s else s);
                body = takeWhile (\<lambda>x. \<not> is_bracket x) s1; s2 = drop (length body) s1;
                s3 = drop 1 s2; s4 = trim_start (if take 1 s3 = '']'' then drop 1 s3 else s3) in
            if body = [] \<or> take 1 s2 \<noteq> '']'' then None
            else if s4 = [] \<or> (take 1 s4 = ''#'' \<and> CHR 0x0D \<notin> set s4 \<and> CHR 0x0A \<notin> set s4) then Some (unquote_key body)
            else None)"

definition bare_char :: "char \<Rightarrow> bool" where
  "bare_char c \<longleftrightarrow> (CHR ''A'' \<le> c \<and> c \<le> CHR ''Z'') \<or> (CHR ''a'' \<le> c \<and> c \<le> CHR ''z'') \<or> is_digit c \<or> c = CHR ''_'' \<or> c = CHR ''-''"

text \<open>A basic string behind its opening quote: its text with the closing quote, and the rest.\<close>

fun basic_string :: "string \<Rightarrow> (string \<times> string) option" where
  "basic_string [] = None"
| "basic_string (c # s) =
     (if c = CHR 0x22 then Some ([c], s)
      else if c = CHR 0x5C
      then (case s of [] \<Rightarrow> None
            | d # s' \<Rightarrow> if d = CHR 0x0A \<or> d = CHR 0x0D then None
                       else map_option (\<lambda>(t, r). (c # d # t, r)) (basic_string s'))
      else map_option (\<lambda>(t, r). (c # t, r)) (basic_string s))"

definition key_token :: "string \<Rightarrow> (string \<times> string) option" where
  "key_token s =
     (case s of
        [] \<Rightarrow> None
      | c # r \<Rightarrow>
          if c = CHR 0x22 then map_option (\<lambda>(t, r). (c # t, r)) (basic_string r)
          else if c = CHR 0x27
          then (let body = takeWhile (\<lambda>x. x \<noteq> CHR 0x27) r in
                if length body < length r then Some (c # body @ [c], drop (length body + 1) r) else None)
          else (let k = takeWhile (\<lambda>x. bare_char x \<or> x = CHR ''.'') s in
                if k = [] then None else Some (k, drop (length k) s)))"

definition key_of :: "string \<Rightarrow> string option" where
  "key_of line =
     (case key_token (trim_start line) of
        None \<Rightarrow> None
      | Some (k, r) \<Rightarrow> if take 1 (trim_start r) = ''='' then Some (unquote_key k) else None)"

section \<open>Literals (tomlValue)\<close>

definition toml_bool :: "bool \<Rightarrow> string" where
  "toml_bool b = (if b then ''true'' else ''false'')"

definition toml_key :: "string \<Rightarrow> string" where
  "toml_key key = (if key \<noteq> [] \<and> list_all bare_char key then key else json_string key)"

definition toml_list :: "string list \<Rightarrow> string" where
  "toml_list vs =
     (if vs = [] then ''[]''
      else ''['' @ [CHR 0x0A] @ join ('','' @ [CHR 0x0A]) (map (\<lambda>v. ''    '' @ json_string v) vs) @ [CHR 0x0A] @ '']'')"

section \<open>The document\<close>

record toml =
  tm_lines :: "string list"
  tm_eol :: string

text \<open>\<open>split(/\r?\n/)\<close>: a carriage return goes with the line break behind it.\<close>

definition drop_cr :: "string \<Rightarrow> string" where
  "drop_cr l = (if l \<noteq> [] \<and> last l = CHR 0x0D then butlast l else l)"

definition toml_lines :: "string \<Rightarrow> string list" where
  "toml_lines text = (let ls = split_on (CHR 0x0A) text in map drop_cr (butlast ls) @ [last ls])"

definition toml_parse :: "string \<Rightarrow> toml" where
  "toml_parse s =
     \<lparr>tm_lines = toml_lines s,
      tm_eol = (if index_of [CHR 0x0D, CHR 0x0A] s \<noteq> None then [CHR 0x0D, CHR 0x0A] else [CHR 0x0A])\<rparr>"

definition toml_text :: "toml \<Rightarrow> string" where
  "toml_text p = join (tm_eol p) (tm_lines p)"

fun headers_from :: "nat \<Rightarrow> string list \<Rightarrow> scan_state \<Rightarrow> (string \<times> nat) list" where
  "headers_from i [] st = []"
| "headers_from i (l # ls) st =
     (case (if st = top_state then header_name l else None) of
        Some n \<Rightarrow> (n, i) # headers_from (Suc i) ls st
      | None \<Rightarrow> headers_from (Suc i) ls (scan_line l st))"

definition toml_headers :: "string list \<Rightarrow> (string \<times> nat) list" where
  "toml_headers ls = headers_from 0 ls top_state"

record toml_entry =
  te_key :: string
  te_start :: nat
  te_end :: nat

text \<open>The key a line begins at the top level.\<close>

definition toml_line_key :: "string \<Rightarrow> string option" where
  "toml_line_key l = (if trim l \<noteq> [] \<and> hd (trim l) \<noteq> CHR ''#'' then key_of l else None)"

fun entries_from :: "nat \<Rightarrow> string list \<Rightarrow> scan_state \<Rightarrow> toml_entry option \<Rightarrow> toml_entry list" where
  "entries_from i [] st open_entry = []"
| "entries_from i (l # ls) st open_entry =
     (let e = (case (if st = top_state then toml_line_key l else None) of
                 Some k \<Rightarrow> Some \<lparr>te_key = k, te_start = i, te_end = i\<rparr> | None \<Rightarrow> open_entry);
          st1 = scan_line l st in
      case (if st1 = top_state then e else None) of
        Some x \<Rightarrow> x\<lparr>te_end := i\<rparr> # entries_from (Suc i) ls st1 None
      | None \<Rightarrow> entries_from (Suc i) ls st1 e)"

definition toml_entries :: "string list \<Rightarrow> nat \<Rightarrow> nat \<Rightarrow> toml_entry list" where
  "toml_entries ls a b = entries_from a (take (b - a) (drop a ls)) top_state None"

definition splice_lines :: "nat \<Rightarrow> nat \<Rightarrow> string list \<Rightarrow> string list \<Rightarrow> string list" where
  "splice_lines i n new ls = take i ls @ new @ drop (i + n) ls"

text \<open>
  Putting a line into the entries from \<open>a\<close> to \<open>b\<close>: in the place of the entry of its key, else
  behind the last entry, else at \<open>a\<close>.
\<close>

definition put_entry :: "string list \<Rightarrow> nat \<Rightarrow> nat \<Rightarrow> string \<Rightarrow> string \<Rightarrow> string list" where
  "put_entry ls a b key line =
     (let es = toml_entries ls a b in
      case List.find (\<lambda>e. te_key e = key) es of
        Some e \<Rightarrow> splice_lines (te_start e) (te_end e - te_start e + 1) [line] ls
      | None \<Rightarrow> splice_lines (if es = [] then a else te_end (last es) + 1) 0 [line] ls)"

definition set_top_level :: "string \<Rightarrow> string \<Rightarrow> toml \<Rightarrow> toml" where
  "set_top_level key lit p =
     (let b = (case toml_headers (tm_lines p) of [] \<Rightarrow> length (tm_lines p) | (n, i) # _ \<Rightarrow> i) in
      p\<lparr>tm_lines := put_entry (tm_lines p) 0 b key (toml_key key @ '' = '' @ lit)\<rparr>)"

text \<open>The first header of a name with the line its table ends at.\<close>

fun find_table :: "string \<Rightarrow> nat \<Rightarrow> (string \<times> nat) list \<Rightarrow> (nat \<times> nat) option" where
  "find_table name len [] = None"
| "find_table name len ((n, i) # hs) =
     (if n = name then Some (Suc i, case hs of [] \<Rightarrow> len | (_, j) # _ \<Rightarrow> j) else find_table name len hs)"

definition drop_blank_end :: "string list \<Rightarrow> string list" where
  "drop_blank_end ls = rev (dropWhile (\<lambda>l. trim l = []) (rev ls))"

definition blanks_before :: "string list \<Rightarrow> nat \<Rightarrow> nat \<Rightarrow> nat" where
  "blanks_before ls a b = a + length (drop_blank_end (take (b - a) (drop a ls)))"

definition replace_table :: "string \<Rightarrow> string list \<Rightarrow> toml \<Rightarrow> toml" where
  "replace_table name body p =
     (let ls = tm_lines p in
      case find_table name (length ls) (toml_headers ls) of
        None \<Rightarrow> p\<lparr>tm_lines := drop_blank_end ls @ [[], ''['' @ name @ '']''] @ body @ [[]]\<rparr>
      | Some (a, b) \<Rightarrow>
          let es = toml_entries ls a b in
          if es \<noteq> [] then p\<lparr>tm_lines := splice_lines (te_start (hd es)) (te_end (last es) - te_start (hd es) + 1) body ls\<rparr>
          else p\<lparr>tm_lines := splice_lines (blanks_before ls a b) 0 body ls\<rparr>)"

definition set_in_table :: "string \<Rightarrow> string \<Rightarrow> string \<Rightarrow> toml \<Rightarrow> toml" where
  "set_in_table name key lit p =
     (let line = toml_key key @ '' = '' @ lit in
      case find_table name (length (tm_lines p)) (toml_headers (tm_lines p)) of
        None \<Rightarrow> replace_table name [line] p
      | Some (a, b) \<Rightarrow> p\<lparr>tm_lines := put_entry (tm_lines p) a b key line\<rparr>)"

end
