(* ===== verification/Toml_Properties.thy ===== *)
theory Toml_Properties
  imports Toml_Patcher
begin

text \<open>
  A document as a map from tables and keys to the lines of their entries, and the edits of the
  patcher as updates of that map.
\<close>

section \<open>Lines and states\<close>

definition scans :: "string list \<Rightarrow> scan_state \<Rightarrow> scan_state" where
  "scans ls st = fold scan_line ls st"

lemma scans_simps [simp]: "scans [] st = st" "scans (l # ls) st = scans ls (scan_line l st)"
    "scans (xs @ ys) st = scans ys (scans xs st)"
  by (simp_all add: scans_def)

text \<open>The number of lines after which the state is back at the top.\<close>

fun close_after :: "string list \<Rightarrow> scan_state \<Rightarrow> nat option" where
  "close_after [] st = None"
| "close_after (l # ls) st = (if scan_line l st = top_state then Some 1 else map_option Suc (close_after ls (scan_line l st)))"

lemma close_Some: "close_after ls st = Some n \<Longrightarrow> 0 < n \<and> n \<le> length ls \<and> scans (take n ls) st = top_state"
proof (induction ls arbitrary: st n)
  case (Cons l ls)
  show ?case
  proof (cases "scan_line l st = top_state")
    case False
    with Cons.prems obtain m where m: "close_after ls (scan_line l st) = Some m" "n = Suc m" by auto
    then show ?thesis using Cons.IH [OF m(1)] by simp
  qed (use Cons.prems in auto)
qed simp

lemma close_ex: "scans ls st = top_state \<Longrightarrow> ls \<noteq> [] \<Longrightarrow> \<exists>n. close_after ls st = Some n"
proof (induction ls arbitrary: st)
  case (Cons l ls)
  then show ?case by (cases "ls = []") auto
qed simp

lemma close_append: "close_after xs st = Some n \<Longrightarrow> close_after (xs @ ys) st = Some n"
proof (induction xs arbitrary: st n)
  case (Cons l xs)
  show ?case
  proof (cases "scan_line l st = top_state")
    case False
    with Cons.prems obtain m where m: "close_after xs (scan_line l st) = Some m" "n = Suc m" by auto
    then show ?thesis using Cons.IH [OF m(1)] False by simp
  qed (use Cons.prems in simp)
qed simp

text \<open>The entries of a region with their lines, by structure.\<close>

function blocks :: "string list \<Rightarrow> (string \<times> string list) list" where
  "blocks [] = []"
| "blocks (l # ls) =
     (case close_after (l # ls) top_state of
        None \<Rightarrow> []
      | Some n \<Rightarrow> (case toml_line_key l of None \<Rightarrow> [] | Some k \<Rightarrow> [(k, take n (l # ls))]) @ blocks (drop n (l # ls)))"
  by pat_completeness auto
termination
proof (relation "measure length", simp)
  fix l :: string and ls n
  assume "close_after (l # ls) top_state = Some n"
  from close_Some [OF this] show "(drop n (l # ls), l # ls) \<in> measure length" by simp
qed

declare blocks.simps(2) [simp del] close_after.simps(2) [simp del]

lemma blocks_append:
  assumes "scans xs top_state = top_state"
  shows "blocks (xs @ ys) = blocks xs @ blocks ys"
  using assms
proof (induction xs rule: blocks.induct)
  case (2 l ls)
  then obtain n where n: "close_after (l # ls) top_state = Some n" using close_ex by blast
  note c = close_Some [OF n]
  have "scans (drop n (l # ls)) top_state = top_state"
    using "2.prems" c scans_simps(3) [of "take n (l # ls)" "drop n (l # ls)" top_state] by simp
  then have "blocks (drop n (l # ls) @ ys) = blocks (drop n (l # ls)) @ blocks ys" using "2.IH" n by blast
  moreover have "drop n (l # ls @ ys) = drop n (l # ls) @ ys" "take n (l # ls @ ys) = take n (l # ls)"
    using c drop_append [of n "l # ls" ys] take_append [of n "l # ls" ys] by simp_all
  ultimately show ?case using n close_append [OF n, of ys]
    by (simp add: blocks.simps(2) split: option.split)
qed simp

section \<open>Entries by index\<close>

lemma entries_open:
  assumes "st \<noteq> top_state"
  shows "entries_from i ls st e =
    (case close_after ls st of None \<Rightarrow> []
     | Some n \<Rightarrow> (case e of None \<Rightarrow> [] | Some x \<Rightarrow> [x\<lparr>te_end := i + n - 1\<rparr>]) @ entries_from (i + n) (drop n ls) top_state None)"
  using assms
proof (induction ls arbitrary: i st)
  case (Cons l ls)
  show ?case
  proof (cases "scan_line l st = top_state")
    case True
    then show ?thesis using Cons.prems by (simp add: close_after.simps split: option.split)
  next
    case False
    then show ?thesis using Cons.IH [OF False, of "Suc i"] Cons.prems
      by (simp add: close_after.simps split: option.split)
  qed
qed simp

lemma entries_top:
  "entries_from i (l # ls) top_state None =
    (case close_after (l # ls) top_state of None \<Rightarrow> []
     | Some n \<Rightarrow> (case toml_line_key l of None \<Rightarrow> [] | Some k \<Rightarrow> [\<lparr>te_key = k, te_start = i, te_end = i + n - 1\<rparr>])
         @ entries_from (i + n) (drop n (l # ls)) top_state None)"
proof (cases "scan_line l top_state = top_state")
  case True
  then show ?thesis by (simp add: close_after.simps split: option.split)
next
  case False
  then show ?thesis using entries_open [OF False, of "Suc i" ls]
    by (simp add: close_after.simps split: option.split)
qed

declare entries_from.simps(2) [simp del]

text \<open>Where an entry stands.\<close>

lemma entries_split:
  assumes "entries_from i ls top_state None = es1 @ e # es2"
  shows "\<exists>pre old post. ls = pre @ old @ post \<and> old \<noteq> [] \<and> te_start e = i + length pre
     \<and> te_end e + 1 = i + length pre + length old \<and> scans pre top_state = top_state \<and> scans old top_state = top_state
     \<and> entries_from i pre top_state None = es1 \<and> blocks old = [(te_key e, old)]
     \<and> entries_from (i + length pre + length old) post top_state None = es2"
  using assms
proof (induction ls arbitrary: i es1 rule: blocks.induct)
  case (2 l ls)
  obtain n where n: "close_after (l # ls) top_state = Some n"
    using "2.prems" by (cases "close_after (l # ls) top_state") (simp_all add: entries_top)
  note c = close_Some [OF n]
  let ?b = "take n (l # ls)" and ?r = "drop n (l # ls)"
  have b: "?b = l # take (n - 1) ls" "length ?b = n" using c by (cases n; simp)+
  have nb: "close_after ?b top_state = Some n"
  proof -
    obtain m where m: "close_after ?b top_state = Some m" using close_ex [of ?b top_state] c b by auto
    from close_append [OF m, of ?r] n show ?thesis using m by simp
  qed
  have split: "entries_from i (l # ls) top_state None =
      (case toml_line_key l of None \<Rightarrow> [] | Some k \<Rightarrow> [\<lparr>te_key = k, te_start = i, te_end = i + n - 1\<rparr>]) @ entries_from (i + n) ?r top_state None"
    using n by (simp add: entries_top)
  have first: "entries_from i (?b @ pre) top_state None =
      (case toml_line_key l of None \<Rightarrow> [] | Some k \<Rightarrow> [\<lparr>te_key = k, te_start = i, te_end = i + n - 1\<rparr>]) @ entries_from (i + n) pre top_state None" for pre
  proof -
    have "drop n (?b @ pre) = pre" using b(2) drop_append [of n ?b pre] by simp
    then show ?thesis using close_append [OF nb, of pre] unfolding b(1) append_Cons entries_top by simp
  qed
  show ?case
  proof (cases "es1 = [] \<and> toml_line_key l \<noteq> None")
    case True
    then obtain k where k: "toml_line_key l = Some k" by blast
    then have e: "e = \<lparr>te_key = k, te_start = i, te_end = i + n - 1\<rparr>" "entries_from (i + n) ?r top_state None = es2"
      using "2.prems" split True by simp_all
    have "blocks ?b = [(k, ?b)]" using nb k b by (simp add: blocks.simps(2))
    moreover have "l # ls = [] @ ?b @ ?r" "?b \<noteq> []" using c by simp_all
    moreover have "te_start e = i + length []" "te_end e + 1 = i + length [] + length ?b" "te_key e = k" "te_end e + 1 = i + n"
      using e(1) c b(2) by simp_all
    moreover have "scans [] top_state = top_state" "scans ?b top_state = top_state" "entries_from i [] top_state None = es1"
      using c True by simp_all
    moreover have "entries_from (i + length [] + length ?b) ?r top_state None = es2" using e(2) b(2) by simp
    ultimately show ?thesis by blast
  next
    case False
    define hd1 where "hd1 = (case toml_line_key l of None \<Rightarrow> [] | Some k \<Rightarrow> [\<lparr>te_key = k, te_start = i, te_end = i + n - 1\<rparr>])"
    have "\<exists>es1'. es1 = hd1 @ es1' \<and> entries_from (i + n) ?r top_state None = es1' @ e # es2"
      using "2.prems" split False unfolding hd1_def by (cases es1) (auto split: option.splits)
    then obtain es1' where es: "es1 = hd1 @ es1'" "entries_from (i + n) ?r top_state None = es1' @ e # es2" by blast
    from "2.IH" [OF n es(2)] obtain pre old post where p:
      "?r = pre @ old @ post" "old \<noteq> []" "te_start e = i + n + length pre" "te_end e + 1 = i + n + length pre + length old"
      "scans pre top_state = top_state" "scans old top_state = top_state" "entries_from (i + n) pre top_state None = es1'"
      "blocks old = [(te_key e, old)]" "entries_from (i + n + length pre + length old) post top_state None = es2" by blast
    have "l # ls = (?b @ pre) @ old @ post" using p(1) by (metis append_assoc append_take_drop_id)
    moreover have "entries_from i (?b @ pre) top_state None = es1" using first p(7) es(1) hd1_def by simp
    moreover have "scans (?b @ pre) top_state = top_state" using c p(5) by simp
    moreover have "i + length (?b @ pre) = i + n + length pre" using b(2) by simp
    ultimately show ?thesis using p(2-4,6,8,9) by metis
  qed
qed simp

text \<open>The keys of the entries by index are those by structure.\<close>

lemma entries_keys: "map te_key (entries_from i ls top_state None) = map fst (blocks ls)"
proof (induction ls arbitrary: i rule: blocks.induct)
  case (2 l ls)
  then show ?case by (auto simp: entries_top blocks.simps(2) split: option.split)
qed simp

lemma find_split: "List.find P xs = Some e \<Longrightarrow> \<exists>a b. xs = a @ e # b \<and> P e \<and> (\<forall>x \<in> set a. \<not> P x)"
proof (induction xs)
  case (Cons x xs)
  show ?case
  proof (cases "P x")
    case True
    then show ?thesis using Cons.prems by force
  next
    case False
    with Cons obtain a b where "xs = a @ e # b" "P e" "\<forall>y \<in> set a. \<not> P y" by auto
    then show ?thesis using False by (intro exI [of _ "x # a"] exI [of _ b]) auto
  qed
qed simp

lemma put_region:
  defines "es \<equiv> \<lambda>a R. entries_from a R top_state None"
  shows "\<exists>pre old post. R = pre @ old @ post
     \<and> put_entry (A @ R @ B) (length A) (length A + length R) key line = A @ (pre @ [line] @ post) @ B
     \<and> scans pre top_state = top_state \<and> scans old top_state = top_state \<and> key \<notin> fst ` set (blocks pre)
     \<and> (blocks old = [(key, old)] \<or> old = [] \<and> blocks post = [])"
proof -
  have reg: "toml_entries (A @ R @ B) (length A) (length A + length R) = es (length A) R"
    by (simp add: toml_entries_def es_def)
  have keys: "key \<notin> fst ` set (blocks X)" if "\<forall>x \<in> set (es a X). te_key x \<noteq> key" for a X
    using that entries_keys [of a X] unfolding es_def by (metis image_iff list.set_map)
  show ?thesis
  proof (cases "List.find (\<lambda>e. te_key e = key) (es (length A) R)")
    case (Some e)
    then obtain es1 es2 where e: "es (length A) R = es1 @ e # es2" "te_key e = key" "\<forall>x \<in> set es1. te_key x \<noteq> key"
      using find_split [OF Some] by blast
    from entries_split [OF e(1) [unfolded es_def]] obtain pre old post where p:
      "R = pre @ old @ post" "old \<noteq> []" "te_start e = length A + length pre" "te_end e + 1 = length A + length pre + length old"
      "scans pre top_state = top_state" "scans old top_state = top_state" "entries_from (length A) pre top_state None = es1"
      "blocks old = [(te_key e, old)]" by blast
    have "te_end e - te_start e + 1 = length old" using p(2-4) by (cases old) simp_all
    then have "put_entry (A @ R @ B) (length A) (length A + length R) key line = A @ (pre @ [line] @ post) @ B"
      using Some p(1,3) reg by (simp add: put_entry_def splice_lines_def)
    moreover have "key \<notin> fst ` set (blocks pre)" using keys [of "length A" pre] p(7) e(3) by (simp add: es_def)
    moreover have "blocks old = [(key, old)]" using p(8) e(2) by simp
    ultimately show ?thesis using p(1,5,6) by blast
  next
    case None
    then have nokey: "\<forall>x \<in> set (es (length A) R). te_key x \<noteq> key" by (simp add: find_None_iff)
    show ?thesis
    proof (cases "es (length A) R = []")
      case True
      then have "blocks R = []" using entries_keys [of "length A" R] by (simp add: es_def)
      then show ?thesis using None True reg
        by (intro exI [of _ "[]"] exI [of _ R]) (simp add: put_entry_def splice_lines_def)
    next
      case False
      then have e: "es (length A) R = butlast (es (length A) R) @ last (es (length A) R) # []" by simp
      let ?e = "last (es (length A) R)"
      from entries_split [OF e [unfolded es_def]] obtain pre old post where p:
        "R = pre @ old @ post" "old \<noteq> []" "te_end ?e + 1 = length A + length pre + length old"
        "scans pre top_state = top_state" "scans old top_state = top_state"
        "entries_from (length A + length pre + length old) post top_state None = []" unfolding es_def by blast
      have post: "blocks post = []" using entries_keys [of "length A + length pre + length old" post] p(6) by simp
      have "put_entry (A @ R @ B) (length A) (length A + length R) key line = A @ ((pre @ old) @ [line] @ post) @ B"
        using None False reg p(1,3) by (simp add: put_entry_def splice_lines_def)
      moreover have "key \<notin> fst ` set (blocks (pre @ old))"
      proof -
        have "blocks R = blocks (pre @ old) @ blocks post" using blocks_append [of "pre @ old" post] p by simp
        then show ?thesis using keys [OF nokey] by auto
      qed
      ultimately show ?thesis using p(1,4,5) post
        by (intro exI [of _ "pre @ old"] exI [of _ "[]"] exI [of _ post]) simp
    qed
  qed
qed

section \<open>Tables\<close>

text \<open>The lines up to the first header, and those of the first table of a name.\<close>

definition header_here :: "scan_state \<Rightarrow> string \<Rightarrow> string option" where
  "header_here st l = (if st = top_state then header_name l else None)"

fun free_part :: "string list \<Rightarrow> scan_state \<Rightarrow> string list" where
  "free_part [] st = []"
| "free_part (l # ls) st = (if header_here st l \<noteq> None then [] else l # free_part ls (scan_line l st))"

fun table_body :: "string \<Rightarrow> string list \<Rightarrow> scan_state \<Rightarrow> string list option" where
  "table_body name [] st = None"
| "table_body name (l # ls) st =
     (case header_here st l of
        Some n \<Rightarrow> if n = name then Some (free_part ls top_state) else table_body name ls top_state
      | None \<Rightarrow> table_body name ls (scan_line l st))"

text \<open>The state behind lines among which are headers.\<close>

fun behind :: "string list \<Rightarrow> scan_state \<Rightarrow> scan_state" where
  "behind [] st = st"
| "behind (l # ls) st = (if header_here st l \<noteq> None then behind ls top_state else behind ls (scan_line l st))"

definition no_header :: "string list \<Rightarrow> scan_state \<Rightarrow> bool" where
  "no_header ls st \<longleftrightarrow> free_part ls st = ls"

definition toml_get :: "string option \<Rightarrow> string \<Rightarrow> string list \<Rightarrow> string list option" where
  "toml_get t k ls =
     (case (case t of None \<Rightarrow> Some (free_part ls top_state) | Some n \<Rightarrow> table_body n ls top_state) of
        None \<Rightarrow> None
      | Some R \<Rightarrow> map_of (blocks R) k)"

lemma no_header_simps [simp]: "no_header [] st" "no_header (l # ls) st \<longleftrightarrow> header_here st l = None \<and> no_header ls (scan_line l st)"
  by (auto simp: no_header_def)

lemma no_header_append [simp]: "no_header (xs @ ys) st \<longleftrightarrow> no_header xs st \<and> no_header ys (scans xs st)"
  by (induction xs arbitrary: st) auto

lemma free_no_header [simp]: "no_header (free_part ls st) st"
  by (induction ls arbitrary: st) auto

lemma behind_append [simp]: "behind (xs @ ys) st = behind ys (behind xs st)"
  by (induction xs arbitrary: st) auto

lemma behind_free [simp]: "no_header ls st \<Longrightarrow> behind ls st = scans ls st"
  by (induction ls arbitrary: st) auto

text \<open>A place where a document can be cut: at its end or at a header.\<close>

definition starts_table :: "string list \<Rightarrow> bool" where
  "starts_table ls \<longleftrightarrow> ls = [] \<or> header_name (hd ls) \<noteq> None"

lemma starts_table_Cons [simp]: "starts_table (l # ls) \<longleftrightarrow> header_name l \<noteq> None" "starts_table []"
  by (simp_all add: starts_table_def)

lemma free_append:
  "no_header R st \<Longrightarrow> B = [] \<or> starts_table B \<and> scans R st = top_state \<Longrightarrow> free_part (R @ B) st = R"
proof (induction R arbitrary: st)
  case Nil
  then show ?case by (cases B) (auto simp: header_here_def)
qed auto

lemma free_cut: "starts_table B \<Longrightarrow> behind A st = top_state \<Longrightarrow> free_part (A @ B) st = free_part A st"
proof (induction A arbitrary: st)
  case Nil
  then show ?case by (cases B) (auto simp: header_here_def)
qed (auto split: if_splits)

lemma body_cut:
  "starts_table B \<Longrightarrow> behind A st = top_state \<Longrightarrow>
     table_body t (A @ B) st = (case table_body t A st of Some R \<Rightarrow> Some R | None \<Rightarrow> table_body t B top_state)"
  by (induction A arbitrary: st) (auto simp: free_cut split: option.splits if_splits)

lemma body_free: "no_header R st \<Longrightarrow> table_body t (R @ B) st = table_body t B (scans R st)"
  by (induction R arbitrary: st) auto

lemma headers_top:
  "\<exists>T B. ls = T @ B \<and> no_header T st \<and>
     (B = [] \<and> headers_from i ls st = []
      \<or> (\<exists>n hs. starts_table B \<and> B \<noteq> [] \<and> scans T st = top_state \<and> headers_from i ls st = (n, i + length T) # hs))"
proof (induction ls arbitrary: i st)
  case (Cons l ls)
  show ?case
  proof (cases "header_here st l")
    case None
    from Cons.IH [where i = "Suc i" and st = "scan_line l st"] obtain T B where t: "ls = T @ B" "no_header T (scan_line l st)"
      "B = [] \<and> headers_from (Suc i) ls (scan_line l st) = []
       \<or> (\<exists>n hs. starts_table B \<and> B \<noteq> [] \<and> scans T (scan_line l st) = top_state \<and> headers_from (Suc i) ls (scan_line l st) = (n, Suc i + length T) # hs)"
      by blast
    have "headers_from i (l # ls) st = headers_from (Suc i) ls (scan_line l st)" using None by (simp add: header_here_def)
    then show ?thesis using t None by (intro exI [of _ "l # T"] exI [of _ B]) auto
  next
    case (Some n)
    then have st: "st = top_state" "header_name l = Some n" by (auto simp: header_here_def split: if_splits)
    then show ?thesis by (intro exI [of _ "[]"] exI [of _ "l # ls"]) (simp add: header_here_def)
  qed
qed simp

lemma table_found:
  "(case table_body name ls st of
      None \<Rightarrow> find_table name (i + length ls) (headers_from i ls st) = None
    | Some R \<Rightarrow> \<exists>A h B. ls = A @ h # R @ B \<and> header_name h = Some name \<and> table_body name A st = None
        \<and> behind A st = top_state \<and> no_header R top_state \<and> (B = [] \<or> starts_table B \<and> scans R top_state = top_state)
        \<and> find_table name (i + length ls) (headers_from i ls st) = Some (i + length A + 1, i + length A + 1 + length R))"
proof (induction ls arbitrary: i st)
  case (Cons l ls)
  have step: ?case if h: "table_body name (l # ls) st = table_body name ls st1"
      "headers_from i (l # ls) st = pre1 @ headers_from (Suc i) ls st1" "\<And>hs len. find_table name len (pre1 @ hs) = find_table name len hs"
      "\<And>X. table_body name (l # X) st = table_body name X st1" "\<And>X. behind (l # X) st = behind X st1" for st1 pre1
  proof (cases "table_body name ls st1")
    case None
    then show ?thesis using Cons.IH [where i = "Suc i" and st = st1] unfolding h(1,2,3) by simp
  next
    case (Some R)
    from Cons.IH [where i = "Suc i" and st = st1, unfolded Some] obtain A h' B where t:
      "ls = A @ h' # R @ B" "header_name h' = Some name" "table_body name A st1 = None" "behind A st1 = top_state"
      "no_header R top_state" "B = [] \<or> starts_table B \<and> scans R top_state = top_state"
      "find_table name (Suc i + length ls) (headers_from (Suc i) ls st1) = Some (Suc i + length A + 1, Suc i + length A + 1 + length R)"
      unfolding option.case by (elim exE conjE) blast
    have "l # ls = (l # A) @ h' # R @ B" using t(1) by simp
    moreover have "table_body name (l # A) st = None" "behind (l # A) st = top_state" using h(4,5) t(3,4) by auto
    moreover have "find_table name (i + length (l # ls)) (headers_from i (l # ls) st) = Some (i + length (l # A) + 1, i + length (l # A) + 1 + length R)"
      unfolding h(2,3) using t(7) by simp
    ultimately show ?thesis using h(1) Some t(2,5,6) by (simp only: option.case) blast
  qed
  show ?case
  proof (cases "header_here st l")
    case None
    have "headers_from i (l # ls) st = [] @ headers_from (Suc i) ls (scan_line l st)" using None by (simp add: header_here_def)
    from step [OF _ this] None show ?thesis by simp
  next
    case (Some n)
    then have st: "st = top_state" "header_name l = Some n" by (auto simp: header_here_def split: if_splits)
    have h: "headers_from i (l # ls) st = [(n, i)] @ headers_from (Suc i) ls top_state" using st by simp
    show ?thesis
    proof (cases "n = name")
      case True
      from headers_top [of ls top_state "Suc i"] obtain T B where t: "ls = T @ B" "no_header T top_state"
        "B = [] \<and> headers_from (Suc i) ls top_state = []
         \<or> (\<exists>n hs. starts_table B \<and> B \<noteq> [] \<and> scans T top_state = top_state \<and> headers_from (Suc i) ls top_state = (n, Suc i + length T) # hs)" by blast
      have "free_part ls top_state = T" using t free_append [of T top_state B] by auto
      then have "table_body name (l # ls) st = Some T" using True Some by simp
      moreover have "find_table name (i + length (l # ls)) (headers_from i (l # ls) st) = Some (i + 1, i + 1 + length T)"
        unfolding h using t True by auto
      moreover have "l # ls = [] @ l # T @ B" "B = [] \<or> starts_table B \<and> scans T top_state = top_state" using t by auto
      ultimately show ?thesis using st True t(2) by (simp only: option.case) (intro exI [of _ "[]"] exI [of _ l] exI [of _ B], simp)
    next
      case False
      from step [OF _ h] False Some show ?thesis by simp
    qed
  qed
qed simp

section \<open>Edits as updates\<close>

text \<open>A line that is an entry of its own.\<close>

definition entry_line :: "string \<Rightarrow> string \<Rightarrow> bool" where
  "entry_line line key \<longleftrightarrow> scan_line line top_state = top_state \<and> header_name line = None \<and> toml_line_key line = Some key"

lemma entry_line_block: "entry_line line key \<Longrightarrow> blocks [line] = [(key, [line])]"
  by (simp add: entry_line_def blocks.simps(2) close_after.simps)

lemma region_update:
  assumes R: "R = pre @ old @ post" and "scans pre top_state = top_state" and "scans old top_state = top_state"
    and "key \<notin> fst ` set (blocks pre)" and "blocks old = [(key, old)] \<or> old = [] \<and> blocks post = []" and line: "entry_line line key"
  shows "scans (pre @ [line] @ post) top_state = scans R top_state"
    and "no_header R top_state \<Longrightarrow> no_header (pre @ [line] @ post) top_state"
    and "map_of (blocks (pre @ [line] @ post)) k = (if k = key then Some [line] else map_of (blocks R) k)"
proof -
  show "scans (pre @ [line] @ post) top_state = scans R top_state" using assms by (simp add: entry_line_def)
  show "no_header (pre @ [line] @ post) top_state" if "no_header R top_state"
    using assms that by (simp add: entry_line_def header_here_def)
  have new: "blocks (pre @ [line] @ post) = blocks pre @ (key, [line]) # blocks post"
    using blocks_append [of pre "[line] @ post"] blocks_append [of "[line]" post] entry_line_block [OF line] assms(2) line
    by (simp add: entry_line_def)
  have before: "blocks R = blocks pre @ blocks old @ blocks post"
    using blocks_append [of pre "old @ post"] blocks_append [of old post] assms(1-3) by simp
  have pre: "map_of (blocks pre) key = None" using assms(4) by (simp add: map_of_eq_None_iff)
  show "map_of (blocks (pre @ [line] @ post)) k = (if k = key then Some [line] else map_of (blocks R) k)"
    using assms(5) pre unfolding new before by (auto simp: map_add_def split: option.splits)
qed

text \<open>The document with a region replaced, read through its tables.\<close>

lemma get_top_region:
  assumes "no_header T top_state" "B = [] \<or> starts_table B \<and> scans T top_state = top_state"
  shows "toml_get t k (T @ B) = (case t of None \<Rightarrow> map_of (blocks T) k
    | Some n \<Rightarrow> (case table_body n B top_state of None \<Rightarrow> None | Some R \<Rightarrow> map_of (blocks R) k))"
  using assms free_append [OF assms] by (auto simp: toml_get_def body_free split: option.split)

lemma get_table_region:
  assumes "header_name h = Some n" "table_body n A top_state = None" "behind A top_state = top_state"
    and "no_header R top_state" "B = [] \<or> starts_table B \<and> scans R top_state = top_state"
  shows "toml_get t k (A @ h # R @ B) = (if t = Some n then map_of (blocks R) k else
     case t of None \<Rightarrow> map_of (blocks (free_part A top_state)) k
     | Some m \<Rightarrow> (case (case table_body m A top_state of Some X \<Rightarrow> Some X | None \<Rightarrow> table_body m B top_state) of
         None \<Rightarrow> None | Some X \<Rightarrow> map_of (blocks X) k))"
proof -
  have top: "free_part (A @ h # R @ B) top_state = free_part A top_state" using assms(1,3) by (intro free_cut) simp_all
  have body: "table_body m (A @ h # R @ B) top_state =
      (case table_body m A top_state of Some X \<Rightarrow> Some X | None \<Rightarrow> if m = n then Some R else table_body m B top_state)" for m
    using assms body_cut [of "h # R @ B" A top_state m] free_append [OF assms(4,5)]
    by (auto simp: header_here_def body_free split: option.split)
  show ?thesis using assms(2) top body by (auto simp: toml_get_def split: option.split)
qed

lemma behind_update:
  assumes "no_header R top_state" "no_header R' top_state" "scans R' top_state = scans R top_state"
  shows "behind (R' @ B) top_state = behind (R @ B) top_state"
  using assms by simp

lemma set_top_get:
  assumes line: "entry_line (toml_key key @ '' = '' @ lit) key"
  shows "toml_get t k (tm_lines (set_top_level key lit p)) =
      (if t = None \<and> k = key then Some [toml_key key @ '' = '' @ lit] else toml_get t k (tm_lines p))"
    and "behind (tm_lines (set_top_level key lit p)) top_state = behind (tm_lines p) top_state"
proof -
  let ?line = "toml_key key @ '' = '' @ lit"
  from headers_top [of "tm_lines p" top_state 0] obtain T B where t: "tm_lines p = T @ B" "no_header T top_state"
    "B = [] \<and> headers_from 0 (tm_lines p) top_state = []
     \<or> (\<exists>n hs. starts_table B \<and> B \<noteq> [] \<and> scans T top_state = top_state \<and> headers_from 0 (tm_lines p) top_state = (n, 0 + length T) # hs)" by blast
  then have B: "B = [] \<or> starts_table B \<and> scans T top_state = top_state" by auto
  from put_region [where R = T and A = "[]" and B = B and key = key and line = ?line] obtain pre old post where r: "T = pre @ old @ post"
    "put_entry (T @ B) 0 (length T) key ?line = (pre @ [?line] @ post) @ B"
    "scans pre top_state = top_state" "scans old top_state = top_state" "key \<notin> fst ` set (blocks pre)"
    "blocks old = [(key, old)] \<or> old = [] \<and> blocks post = []"
    unfolding append_Nil list.size add_0_left by (elim exE conjE) (rule that)
  note up = region_update [OF r(1,3-6) line]
  have "tm_lines (set_top_level key lit p) = put_entry (T @ B) 0 (length T) key ?line"
    using t by (auto simp: set_top_level_def toml_headers_def)
  then have lines: "tm_lines (set_top_level key lit p) = (pre @ [?line] @ post) @ B" using r(2) by simp
  have B': "B = [] \<or> starts_table B \<and> scans (pre @ [?line] @ post) top_state = top_state" using B up(1) by simp
  show "toml_get t k (tm_lines (set_top_level key lit p)) =
      (if t = None \<and> k = key then Some [?line] else toml_get t k (tm_lines p))"
    unfolding lines t(1) get_top_region [OF t(2) B] get_top_region [OF up(2) [OF t(2)] B'] using up(3) by (auto split: option.split)
  show "behind (tm_lines (set_top_level key lit p)) top_state = behind (tm_lines p) top_state"
    unfolding lines t(1) by (rule behind_update [OF t(2) up(2) [OF t(2)] up(1)])
qed

lemma set_table_get:
  assumes line: "entry_line (toml_key key @ '' = '' @ lit) key" and there: "table_body n (tm_lines p) top_state \<noteq> None"
  shows "toml_get t k (tm_lines (set_in_table n key lit p)) =
      (if t = Some n \<and> k = key then Some [toml_key key @ '' = '' @ lit] else toml_get t k (tm_lines p))"
    and "behind (tm_lines (set_in_table n key lit p)) top_state = behind (tm_lines p) top_state"
proof -
  let ?line = "toml_key key @ '' = '' @ lit"
  from there obtain R where R: "table_body n (tm_lines p) top_state = Some R" by blast
  from table_found [where name = n and ls = "tm_lines p" and st = top_state and i = 0, unfolded R] obtain A h B where t:
    "tm_lines p = A @ h # R @ B" "header_name h = Some n" "table_body n A top_state = None" "behind A top_state = top_state"
    "no_header R top_state" "B = [] \<or> starts_table B \<and> scans R top_state = top_state"
    "find_table n (0 + length (tm_lines p)) (headers_from 0 (tm_lines p) top_state) = Some (0 + length A + 1, 0 + length A + 1 + length R)"
    unfolding option.case by (elim exE conjE) blast
  have at: "(A @ [h]) @ R @ B = A @ h # R @ B" "length (A @ [h]) = length A + 1" "\<And>X. (A @ [h]) @ X = A @ h # X" by simp_all
  from put_region [where R = R and A = "A @ [h]" and B = B and key = key and line = ?line, unfolded at] obtain pre old post where r: "R = pre @ old @ post"
    "put_entry (A @ h # R @ B) (length A + 1) (length A + 1 + length R) key ?line = A @ h # (pre @ [?line] @ post) @ B"
    "scans pre top_state = top_state" "scans old top_state = top_state" "key \<notin> fst ` set (blocks pre)"
    "blocks old = [(key, old)] \<or> old = [] \<and> blocks post = []" by (elim exE conjE) (rule that)
  note up = region_update [OF r(1,3-6) line]
  have lines: "tm_lines (set_in_table n key lit p) = A @ h # (pre @ [?line] @ post) @ B"
    using t(1,7) r(2) by (simp add: set_in_table_def toml_headers_def Let_def)
  have B': "B = [] \<or> starts_table B \<and> scans (pre @ [?line] @ post) top_state = top_state" using t(6) up(1) by simp
  show "toml_get t k (tm_lines (set_in_table n key lit p)) =
      (if t = Some n \<and> k = key then Some [?line] else toml_get t k (tm_lines p))"
    unfolding lines t(1) get_table_region [OF t(2-6)] get_table_region [OF t(2-4) up(2) [OF t(5)] B'] using up(3) by auto
  have "behind (h # (pre @ [?line] @ post) @ B) top_state = behind (h # R @ B) top_state"
    using t(2) behind_update [OF t(5) up(2) [OF t(5)] up(1), of B] by (simp add: header_here_def)
  then show "behind (tm_lines (set_in_table n key lit p)) top_state = behind (tm_lines p) top_state"
    unfolding lines t(1) behind_append t(4) .
qed

section \<open>Appended tables\<close>

lemma trim_start_all: "trim_start s = [] \<longleftrightarrow> list_all is_space s"
  by (induction s) (auto simp: trim_start_def)

lemma trim_Nil: "trim s = [] \<longleftrightarrow> list_all is_space s"
proof -
  have "dropWhile is_space s = [] \<longleftrightarrow> list_all is_space s" for s by (induction s) auto
  moreover have "list_all is_space (dropWhile is_space s) \<longleftrightarrow> list_all is_space s" for s by (induction s) auto
  ultimately show ?thesis by (simp add: trim_def trim_start_def trim_end_def list_all_rev)
qed

definition multi_ok :: "scan_state \<Rightarrow> bool" where
  "multi_ok st \<longleftrightarrow> (case snd st of None \<Rightarrow> True | Some q \<Rightarrow> q = triple (CHR 0x22) \<or> q = triple (CHR 0x27))"

lemma scan_ok: "multi_ok st \<Longrightarrow> multi_ok (scan_line l st)"
proof (induction l st rule: scan_line.induct)
  case (1 s d q)
  then show ?case by (auto simp: multi_ok_def split: option.split)
next
  case (3 c s d)
  then show ?case by (auto simp: multi_ok_def)
qed simp

lemma top_ok [simp]: "multi_ok top_state"
  by (simp add: multi_ok_def)

lemma behind_ok: "multi_ok st \<Longrightarrow> multi_ok (behind ls st)"
proof (induction ls arbitrary: st)
  case (Cons l ls)
  show ?case using Cons.IH [OF top_ok] Cons.IH [OF scan_ok [OF Cons.prems]] by simp
qed simp

lemma space_plain: "is_space c \<Longrightarrow> c \<noteq> CHR ''#'' \<and> c \<noteq> CHR ''['' \<and> c \<noteq> CHR '']'' \<and> c \<noteq> CHR 0x22 \<and> c \<noteq> CHR 0x27"
  by (auto simp: is_space_def)

lemma scan_spaces: "list_all is_space l \<Longrightarrow> scan_line l (d, None) = (d, None)"
proof (induction l)
  case (Cons c l)
  then have c: "c \<noteq> CHR ''#''" "c \<noteq> CHR ''[''" "c \<noteq> CHR '']''" "c \<noteq> CHR 0x22" "c \<noteq> CHR 0x27" using space_plain [of c] by simp_all
  then have "take 3 (c # l) \<noteq> triple (CHR 0x22)" "take 3 (c # l) \<noteq> triple (CHR 0x27)" by (simp_all add: triple_def)
  then show ?case using c Cons by (simp only: scan_line.simps if_False simp_thms list.pred_inject)
qed simp

lemma spaces_no_quote:
  assumes "list_all is_space l" and "q = triple (CHR 0x22) \<or> q = triple (CHR 0x27)"
  shows "index_of q l = None"
proof (rule ccontr)
  assume "index_of q l \<noteq> None"
  then obtain i where "index_of q l = Some i" by blast
  then have "set q \<subseteq> set l" using index_of_Some [of q l i] set_mono_prefix [of q "drop i l"] set_drop_subset [of i l] by blast
  then have "CHR 0x22 \<in> set l \<or> CHR 0x27 \<in> set l" using assms(2) by (auto simp: triple_def)
  then show False using assms(1) space_plain by (auto simp: list_all_iff)
qed

lemma scan_blank:
  assumes "list_all is_space l" and "multi_ok st"
  shows "scan_line l st = st"
proof -
  obtain d m where st: "st = (d, m)" by fastforce
  show ?thesis
  proof (cases m)
    case None
    then show ?thesis using scan_spaces [OF assms(1)] st by simp
  next
    case (Some q)
    have "index_of q l = None" using spaces_no_quote [OF assms(1), of q] assms(2) Some st by (simp add: multi_ok_def)
    then show ?thesis using Some st by (simp only: scan_line.simps option.case)
  qed
qed

lemma blank_nothing: "list_all is_space l \<Longrightarrow> header_name l = None \<and> toml_line_key l = None"
  using trim_start_all [of l] trim_Nil [of l] by (simp add: header_name_def toml_line_key_def)

definition blanks :: "string list \<Rightarrow> bool" where
  "blanks ls \<longleftrightarrow> list_all (list_all is_space) ls"

lemma blanks_simps [simp]: "blanks []" "blanks (l # ls) \<longleftrightarrow> list_all is_space l \<and> blanks ls"
  by (simp_all add: blanks_def)

lemma blanks_scans: "blanks ls \<Longrightarrow> multi_ok st \<Longrightarrow> scans ls st = st \<and> behind ls st = st \<and> no_header ls st"
proof (induction ls)
  case (Cons l ls)
  then show ?case using scan_blank [of l st] blank_nothing [of l] by (cases "st = top_state") (simp_all add: header_here_def)
qed simp

lemma blanks_blocks: "blanks ls \<Longrightarrow> blocks ls = []"
proof (induction ls)
  case (Cons l ls)
  then show ?case using scan_blank [of l top_state] blank_nothing [of l] by (simp add: blocks.simps(2) close_after.simps)
qed simp

lemma free_blanks:
  assumes "blanks bs" and "behind D st = top_state"
  shows "free_part (D @ bs) st = (if no_header D st then D @ bs else free_part D st)"
  using assms
proof (induction D arbitrary: st)
  case Nil
  then show ?case using blanks_scans [of bs top_state] by (simp add: no_header_def)
qed (auto split: if_splits)

lemma blocks_blanks:
  assumes "blanks bs" and "behind D top_state = top_state"
  shows "blocks (free_part (D @ bs) top_state) = blocks (free_part D top_state)"
  using free_blanks [OF assms] blocks_append [of D bs] blanks_blocks [OF assms(1)] assms(2)
  by (auto simp: no_header_def [symmetric]) (simp add: no_header_def)

lemma body_blanks:
  assumes "blanks bs" and "behind D st = top_state"
  shows "map_option blocks (table_body t (D @ bs) st) = map_option blocks (table_body t D st)"
  using assms
proof (induction D arbitrary: st)
  case Nil
  then show ?case using blanks_scans [of bs top_state] body_free [of bs top_state t "[]"] by simp
next
  case (Cons l D)
  show ?case
  proof (cases "header_here st l")
    case None
    then show ?thesis using Cons.IH [of "scan_line l st"] Cons.prems by simp
  next
    case (Some n)
    then show ?thesis using Cons.IH [of top_state] Cons.prems blocks_blanks [of bs D] by simp
  qed
qed

lemma get_blanks:
  assumes "blanks bs" and "behind D top_state = top_state"
  shows "toml_get t k (D @ bs) = toml_get t k D"
proof (cases t)
  case None
  then show ?thesis using blocks_blanks [OF assms] by (simp add: toml_get_def)
next
  case (Some n)
  then show ?thesis using body_blanks [OF assms, of n]
    by (cases "table_body n (D @ bs) top_state"; cases "table_body n D top_state") (simp_all add: toml_get_def)
qed

lemma drop_blank_end_split: "\<exists>bs. ls = drop_blank_end ls @ bs \<and> blanks bs"
proof (intro exI conjI)
  let ?P = "\<lambda>l. trim l = []"
  show "ls = drop_blank_end ls @ rev (takeWhile ?P (rev ls))"
    by (simp add: drop_blank_end_def) (metis rev_append rev_rev_ident takeWhile_dropWhile_id)
  show "blanks (rev (takeWhile ?P (rev ls)))" by (auto simp: blanks_def list_all_iff trim_Nil dest: set_takeWhileD)
qed

lemma closed_front:
  assumes "blanks bs" and "behind (D @ bs) top_state = top_state"
  shows "behind D top_state = top_state"
  using assms behind_ok [of top_state D] blanks_scans [of bs "behind D top_state"] by simp

lemma append_table_get:
  assumes line: "entry_line (toml_key key @ '' = '' @ lit) key" and missing: "table_body n (tm_lines p) top_state = None"
    and closed: "behind (tm_lines p) top_state = top_state" and name: "header_name (''['' @ n @ '']'') = Some n"
  shows "toml_get t k (tm_lines (set_in_table n key lit p)) =
      (if t = Some n \<and> k = key then Some [toml_key key @ '' = '' @ lit] else toml_get t k (tm_lines p))"
    and "behind (tm_lines (set_in_table n key lit p)) top_state = top_state"
proof -
  let ?line = "toml_key key @ '' = '' @ lit" and ?h = "''['' @ n @ '']''" 
  obtain D bs where bs: "tm_lines p = D @ bs" "blanks bs" and d: "drop_blank_end (tm_lines p) = D"
    using drop_blank_end_split by blast
  have D: "behind D top_state = top_state" using closed_front [OF bs(2)] closed bs(1) by simp
  have "find_table n (0 + length (tm_lines p)) (headers_from 0 (tm_lines p) top_state) = None"
    using table_found [where name = n and ls = "tm_lines p" and st = top_state and i = 0] missing by simp
  then have lines: "tm_lines (set_in_table n key lit p) = (D @ [[]]) @ ?h # [?line, []] @ []"
    by (simp add: set_in_table_def replace_table_def toml_headers_def Let_def d)
  have none: "table_body n (D @ [[]]) top_state = None"
    using body_blanks [of bs D top_state n] body_blanks [of "[[]]" D top_state n] bs D missing by simp
  have A: "behind (D @ [[]]) top_state = top_state" using D by (simp add: header_here_def header_name_def trim_start_def)
  have e: "header_name [] = None" by (simp add: header_name_def trim_start_def)
  have R: "no_header [?line, []] top_state" "scans [?line, []] top_state = top_state"
    using line e by (simp_all add: entry_line_def header_here_def)
  have same: "toml_get t k (tm_lines p) = toml_get t k (D @ [[]])" for t
    using get_blanks [OF bs(2) D] get_blanks [of "[[]]" D] bs(1) D by simp
  have b: "blocks [?line, []] = [(key, [?line])]"
    using blocks_append [of "[?line]" "[[]]"] entry_line_block [OF line] line blanks_blocks [of "[[]]"] by (simp add: entry_line_def)
  show "toml_get t k (tm_lines (set_in_table n key lit p)) =
      (if t = Some n \<and> k = key then Some [?line] else toml_get t k (tm_lines p))"
    unfolding lines get_table_region [OF name none A R(1) disjI1 [OF refl]] same b using none
    by (auto simp: toml_get_def split: option.split)
  show "behind (tm_lines (set_in_table n key lit p)) top_state = top_state"
  proof -
    have "behind (?h # [?line, []] @ []) top_state = top_state" using name R by (simp add: header_here_def)
    then show ?thesis unfolding lines by (subst behind_append) (simp only: A)
  qed
qed

section \<open>Replaced tables\<close>

lemma entries_nil_blocks: "entries_from a X top_state None = [] \<longleftrightarrow> blocks X = []"
  using entries_keys [of a X] by (metis Nil_is_map_conv)

lemma replaced_region:
  assumes "scans R top_state = top_state"
  shows "\<exists>pre mid post. R = pre @ mid @ post \<and> scans pre top_state = top_state \<and> scans mid top_state = top_state
     \<and> blocks pre = [] \<and> blocks post = []
     \<and> (let es = toml_entries (A @ R @ B) (length A) (length A + length R) in
        (if es \<noteq> [] then splice_lines (te_start (hd es)) (te_end (last es) - te_start (hd es) + 1) body (A @ R @ B)
         else splice_lines (blanks_before (A @ R @ B) (length A) (length A + length R)) 0 body (A @ R @ B))
        = A @ (pre @ body @ post) @ B)"
proof -
  let ?a = "length A"
  define es where "es = entries_from ?a R top_state None"
  have reg: "toml_entries (A @ R @ B) ?a (?a + length R) = es" by (simp add: toml_entries_def es_def)
  show ?thesis
  proof (cases "es = []")
    case True
    obtain bs where bs: "R = drop_blank_end R @ bs" "blanks bs" using drop_blank_end_split by blast
    define C where "C = drop_blank_end R"
    have R: "R = C @ bs" using bs(1) by (simp add: C_def)
    have "multi_ok (scans C top_state)"
    proof -
      have "multi_ok st \<Longrightarrow> multi_ok (scans X st)" for X st by (induction X arbitrary: st) (simp_all only: scans_simps scan_ok)
      then show ?thesis using top_ok by blast
    qed
    then have C: "scans C top_state = top_state" using assms R blanks_scans [OF bs(2), of "scans C top_state"] by simp
    have "blocks R = []" using True entries_nil_blocks by (simp add: es_def)
    then have "blocks C = []" using R blocks_append [OF C, of bs] by simp
    moreover have "blanks_before (A @ R @ B) ?a (?a + length R) = ?a + length C" by (simp add: blanks_before_def C_def)
    ultimately show ?thesis using True R C blanks_blocks [OF bs(2)] reg
      by (intro exI [of _ C] exI [of _ "[]"] exI [of _ bs]) (simp add: splice_lines_def)
  next
    case False
    then have f: "entries_from ?a R top_state None = [] @ hd es # tl es" by (simp add: es_def [symmetric])
    from entries_split [OF f] obtain pre old1 post1 where 1: "R = pre @ old1 @ post1" "te_start (hd es) = ?a + length pre"
      "scans pre top_state = top_state" "entries_from ?a pre top_state None = []" by blast
    have l: "entries_from ?a R top_state None = butlast es @ last es # []" using False by (simp add: es_def [symmetric])
    from entries_split [OF l] obtain pre2 old post where 2: "R = pre2 @ old @ post" "te_end (last es) + 1 = ?a + length pre2 + length old"
      "scans pre2 top_state = top_state" "scans old top_state = top_state" "blocks old = [(te_key (last es), old)]"
      "entries_from (?a + length pre2 + length old) post top_state None = []" by blast
    have nb: "blocks pre = []" "blocks post = []" using 1(4) 2(6) entries_nil_blocks by blast+
    have same: "pre @ (old1 @ post1) = (pre2 @ old) @ post" using 1(1) 2(1) by simp
    have "\<exists>mid. pre2 @ old = pre @ mid"
    proof (rule ccontr)
      assume no: "\<nexists>mid. pre2 @ old = pre @ mid"
      from same consider us where "pre = (pre2 @ old) @ us" | us where "pre @ us = pre2 @ old"
        unfolding append_eq_append_conv2 by blast
      then show False
      proof cases
        case 1
        then have "blocks pre = blocks pre2 @ blocks old @ blocks us"
          using blocks_append [OF 2(3), of "old @ us"] blocks_append [OF 2(4), of us] by simp
        then show False using nb(1) 2(5) by simp
      next
        case 2
        then show False using no by metis
      qed
    qed
    then obtain mid where mid: "pre2 @ old = pre @ mid" by blast
    have "scans mid top_state = top_state"
      using 1(3) 2(3,4) arg_cong [OF mid, of "\<lambda>X. scans X top_state"] by simp
    moreover have "R = pre @ mid @ post" using 2(1) mid by (metis append_assoc)
    moreover have "te_end (last es) + 1 = ?a + length pre + length mid" using 2(2) arg_cong [OF mid, of length] by simp
    moreover have "te_end (last es) - te_start (hd es) + 1 = length mid \<or> length mid = 0"
      using \<open>te_end (last es) + 1 = ?a + length pre + length mid\<close> 1(2) by linarith
    moreover have "length mid \<noteq> 0"
    proof
      assume "length mid = 0"
      then have "pre2 @ old = pre" using mid by simp
      then show False using nb(1) 2(5) blocks_append [OF 2(3), of old] by auto
    qed
    ultimately show ?thesis using False 1(2,3) nb reg
      by (intro exI [of _ pre] exI [of _ mid] exI [of _ post]) (simp add: splice_lines_def)
  qed
qed

lemma replace_table_get:
  assumes closed: "behind (tm_lines p) top_state = top_state" and body: "no_header body top_state" "scans body top_state = top_state"
    and name: "header_name (''['' @ n @ '']'') = Some n"
  shows "toml_get t k (tm_lines (replace_table n body p)) =
      (if t = Some n then map_of (blocks body) k else toml_get t k (tm_lines p))"
    and "behind (tm_lines (replace_table n body p)) top_state = top_state"
proof -
  have e: "header_name [] = None" by (simp add: header_name_def trim_start_def)
  have "(toml_get t k (tm_lines (replace_table n body p)) = (if t = Some n then map_of (blocks body) k else toml_get t k (tm_lines p)))
      \<and> behind (tm_lines (replace_table n body p)) top_state = top_state"
  proof (cases "table_body n (tm_lines p) top_state")
    case None
    let ?h = "''['' @ n @ '']''"
    obtain D bs where bs: "tm_lines p = D @ bs" "blanks bs" and d: "drop_blank_end (tm_lines p) = D"
      using drop_blank_end_split by blast
    have D: "behind D top_state = top_state" using closed_front [OF bs(2)] closed bs(1) by simp
    have "find_table n (0 + length (tm_lines p)) (headers_from 0 (tm_lines p) top_state) = None"
      using table_found [where name = n and ls = "tm_lines p" and st = top_state and i = 0] None by simp
    then have lines: "tm_lines (replace_table n body p) = (D @ [[]]) @ ?h # (body @ [[]]) @ []"
      by (simp add: replace_table_def toml_headers_def Let_def d)
    have none: "table_body n (D @ [[]]) top_state = None"
      using body_blanks [of bs D top_state n] body_blanks [of "[[]]" D top_state n] bs D None by simp
    have A: "behind (D @ [[]]) top_state = top_state" using D e by (simp add: header_here_def)
    have R: "no_header (body @ [[]]) top_state" "scans (body @ [[]]) top_state = top_state"
      using body e by (simp_all add: header_here_def)
    have same: "toml_get t k (tm_lines p) = toml_get t k (D @ [[]])"
      using get_blanks [OF bs(2) D] get_blanks [of "[[]]" D] bs(1) D by simp
    have b: "blocks (body @ [[]]) = blocks body"
      using blocks_append [OF body(2), of "[[]]"] blanks_blocks [of "[[]]"] by simp
    have "behind (?h # (body @ [[]]) @ []) top_state = top_state" using name R by (simp add: header_here_def)
    then have "behind (tm_lines (replace_table n body p)) top_state = top_state"
      unfolding lines by (subst behind_append) (simp only: A)
    moreover have "toml_get t k (tm_lines (replace_table n body p)) = (if t = Some n then map_of (blocks body) k else toml_get t k (tm_lines p))"
      unfolding lines get_table_region [OF name none A R(1) disjI1 [OF refl]] same b using none
      by (auto simp: toml_get_def split: option.split)
    ultimately show ?thesis by blast
  next
    case (Some R)
    from table_found [where name = n and ls = "tm_lines p" and st = top_state and i = 0, unfolded Some] obtain A h B where t:
      "tm_lines p = A @ h # R @ B" "header_name h = Some n" "table_body n A top_state = None" "behind A top_state = top_state"
      "no_header R top_state" "B = [] \<or> starts_table B \<and> scans R top_state = top_state"
      "find_table n (0 + length (tm_lines p)) (headers_from 0 (tm_lines p) top_state) = Some (0 + length A + 1, 0 + length A + 1 + length R)"
      unfolding option.case by (elim exE conjE) blast
    have h: "behind (h # R @ B) top_state = top_state" using closed t(1,4) by simp
    have R: "scans R top_state = top_state"
      using t(2,5,6) h by (auto simp: header_here_def)
    have at: "(A @ [h]) @ R @ B = A @ h # R @ B" "length (A @ [h]) = length A + 1" "\<And>X. (A @ [h]) @ X = A @ h # X" by simp_all
    from replaced_region [OF R, of "A @ [h]" B body, unfolded at] obtain pre mid post where r: "R = pre @ mid @ post"
      "scans pre top_state = top_state" "scans mid top_state = top_state" "blocks pre = []" "blocks post = []"
      "(let es = toml_entries (A @ h # R @ B) (length A + 1) (length A + 1 + length R) in
        (if es \<noteq> [] then splice_lines (te_start (hd es)) (te_end (last es) - te_start (hd es) + 1) body (A @ h # R @ B)
         else splice_lines (blanks_before (A @ h # R @ B) (length A + 1) (length A + 1 + length R)) 0 body (A @ h # R @ B))
        = A @ h # (pre @ body @ post) @ B)" by (elim exE conjE) (rule that)
    have lines: "tm_lines (replace_table n body p) = A @ h # (pre @ body @ post) @ B"
      using t(7) r(6) unfolding t(1) by (simp add: replace_table_def toml_headers_def t(1) Let_def split: if_splits)
    have R': "no_header (pre @ body @ post) top_state" "scans (pre @ body @ post) top_state = scans R top_state"
      using t(5) r(1-3) body by simp_all
    have b: "blocks (pre @ body @ post) = blocks body"
      using blocks_append [OF r(2), of "body @ post"] blocks_append [OF body(2), of post] r(4,5) by simp
    have B': "B = [] \<or> starts_table B \<and> scans (pre @ body @ post) top_state = top_state" using t(6) R'(2) by simp
    have "toml_get t k (tm_lines (replace_table n body p)) = (if t = Some n then map_of (blocks body) k else toml_get t k (tm_lines p))"
      unfolding lines t(1) get_table_region [OF t(2-6)] get_table_region [OF t(2-4) R'(1) B'] b by auto
    moreover have "behind (h # (pre @ body @ post) @ B) top_state = behind (h # R @ B) top_state"
      using t(2) behind_update [OF t(5) R'(1,2), of B] by (simp add: header_here_def)
    then have "behind (tm_lines (replace_table n body p)) top_state = top_state" unfolding lines behind_append t(4) using h by simp
    ultimately show ?thesis by blast
  qed
  then show "toml_get t k (tm_lines (replace_table n body p)) =
      (if t = Some n then map_of (blocks body) k else toml_get t k (tm_lines p))"
    "behind (tm_lines (replace_table n body p)) top_state = top_state" by blast+
qed

section \<open>Property\<close>



end
