(* ===== verification/Velocity_Config.thy ===== *)
theory Velocity_Config
  imports Toml_Properties Launch_Args
begin

text \<open>
  What the panel writes into \<open>velocity.toml\<close>: the settings an account picked and where they live
  (\<open>networks/config/velocity-settings.ts\<close>), forwarding, the servers of the network and the forced
  hosts that are left (\<open>velocity-configurator.ts\<close>).  \<open>toml\<close> is what \<open>Bun.TOML.parse\<close> makes of a
  text, \<open>None\<close> when it refuses it.
\<close>

section \<open>Settings (velocity-settings.ts)\<close>

datatype setting_type = StString | StNumber | StBoolean

record setting_spec =
  vs_table :: "string option"
  vs_key :: string
  vs_type :: setting_type

definition setting_top :: "string \<Rightarrow> setting_type \<Rightarrow> setting_spec" where
  "setting_top key ty = \<lparr>vs_table = None, vs_key = key, vs_type = ty\<rparr>"

definition setting_advanced :: "string \<Rightarrow> setting_type \<Rightarrow> setting_spec" where
  "setting_advanced key ty = \<lparr>vs_table = Some ''advanced'', vs_key = key, vs_type = ty\<rparr>"

definition velocity_settings :: "(string \<times> setting_spec) list" where
  "velocity_settings =
    [(''motd'', setting_top ''motd'' StString),
     (''showMaxPlayers'', setting_top ''show-max-players'' StNumber),
     (''onlineMode'', setting_top ''online-mode'' StBoolean),
     (''forceKeyAuthentication'', setting_top ''force-key-authentication'' StBoolean),
     (''preventClientProxyConnections'', setting_top ''prevent-client-proxy-connections'' StBoolean),
     (''kickExistingPlayers'', setting_top ''kick-existing-players'' StBoolean),
     (''announceForge'', setting_top ''announce-forge'' StBoolean),
     (''compressionThreshold'', setting_advanced ''compression-threshold'' StNumber),
     (''loginRatelimit'', setting_advanced ''login-ratelimit'' StNumber),
     (''connectionTimeout'', setting_advanced ''connection-timeout'' StNumber),
     (''readTimeout'', setting_advanced ''read-timeout'' StNumber),
     (''haproxyProtocol'', setting_advanced ''haproxy-protocol'' StBoolean),
     (''failoverOnUnexpectedServerDisconnect'', setting_advanced ''failover-on-unexpected-server-disconnect'' StBoolean),
     (''logPlayerConnections'', setting_advanced ''log-player-connections'' StBoolean),
     (''acceptsTransfers'', setting_advanced ''accepts-transfers'' StBoolean),
     (''queryEnabled'', \<lparr>vs_table = Some ''query'', vs_key = ''enabled'', vs_type = StBoolean\<rparr>)]"

definition has_type :: "jsval \<Rightarrow> setting_type \<Rightarrow> bool" where
  "has_type v ty =
     (case v of JStr _ \<Rightarrow> ty = StString | JNum _ \<Rightarrow> ty = StNumber | JBool _ \<Rightarrow> ty = StBoolean | _ \<Rightarrow> False)"

definition setting_lookup :: "jsval \<Rightarrow> setting_spec \<Rightarrow> jsval" where
  "setting_lookup doc spec =
     (case vs_table spec of
        None \<Rightarrow> js_prop doc (vs_key spec)
      | Some t \<Rightarrow> if is_objectlike (js_prop doc t) then js_prop (js_prop doc t) (vs_key spec) else JUndef)"

definition parsed_toml :: "(string \<Rightarrow> jsval option) \<Rightarrow> string \<Rightarrow> jsval" where
  "parsed_toml toml text = (case toml text of None \<Rightarrow> JObj [] | Some v \<Rightarrow> v)"

definition read_velocity_settings ::
  "(string \<Rightarrow> jsval option) \<Rightarrow> string \<Rightarrow> (string, jsval) jsmap \<Rightarrow> (string, jsval) jsmap" where
  "read_velocity_settings toml text fallback =
     (let doc = parsed_toml toml text in
      fold (\<lambda>(name, spec) out.
        let v = setting_lookup doc spec in if has_type v (vs_type spec) then jset out name v else out)
      velocity_settings fallback)"

text \<open>Numbers are integers here, so \<open>Number.isInteger\<close> holds of them.\<close>

definition setting_literal :: "jsval \<Rightarrow> setting_spec \<Rightarrow> string option" where
  "setting_literal v spec =
     (if \<not> has_type v (vs_type spec) then None
      else case v of JStr s \<Rightarrow> Some (json_string s) | JBool b \<Rightarrow> Some (toml_bool b) | JNum n \<Rightarrow> Some (int_text n) | _ \<Rightarrow> None)"

definition put_setting :: "(string, jsval) jsmap \<Rightarrow> string \<times> setting_spec \<Rightarrow> toml \<Rightarrow> toml" where
  "put_setting settings ns p =
     (case jget settings (fst ns) of
        None \<Rightarrow> p
      | Some v \<Rightarrow>
         (case setting_literal v (snd ns) of
            None \<Rightarrow> p
          | Some lit \<Rightarrow>
             (case vs_table (snd ns) of
                Some t \<Rightarrow> set_in_table t (vs_key (snd ns)) lit p
              | None \<Rightarrow> set_top_level (vs_key (snd ns)) lit p)))"

definition apply_velocity_settings :: "toml \<Rightarrow> (string, jsval) jsmap \<Rightarrow> toml" where
  "apply_velocity_settings p settings = fold (put_setting settings) velocity_settings p"

section \<open>The configuration of a network (velocity-configurator.ts)\<close>

datatype net_mode = NetModern | NetLegacy

record velocity_network =
  vn_mode :: net_mode
  vn_servers :: "(string \<times> string) list"
  vn_try :: "string list"
  vn_settings :: "(string, jsval) jsmap"

definition FORWARDING_SECRET_FILE :: string where "FORWARDING_SECRET_FILE = ''forwarding.secret''"

definition TRY_COMMENT :: string where
  "TRY_COMMENT = ''# In what order we should try servers when a player logs in or is kicked from a server.''"

definition mode_text :: "net_mode \<Rightarrow> string" where
  "mode_text m = (case m of NetModern \<Rightarrow> ''MODERN'' | NetLegacy \<Rightarrow> ''LEGACY'')"

text \<open>Port from the bind address; \<open>number\<close> is \<open>Number\<close> of a string.\<close>

definition velocity_bind_port :: "(string \<Rightarrow> jsval option) \<Rightarrow> (string \<Rightarrow> int option) \<Rightarrow> string \<Rightarrow> int option" where
  "velocity_bind_port toml number text =
     (case js_prop (parsed_toml toml text) ''bind'' of
        JStr bind \<Rightarrow>
          (case number (last (split_on CHR '':'' bind)) of
             Some n \<Rightarrow> if n > 0 then Some n else None | None \<Rightarrow> None)
      | _ \<Rightarrow> None)"

definition velocity_template :: "string \<Rightarrow> nat \<Rightarrow> string" where
  "velocity_template template port =
     toml_text (set_top_level ''bind'' (json_string (''0.0.0.0:'' @ digits port)) (toml_parse template))"

text \<open>
  The hosts whose targets are known servers, \<open>None\<close> when nothing has to change.
\<close>

definition pruned_hosts :: "jsval \<Rightarrow> string list \<Rightarrow> string list option" where
  "pruned_hosts hosts known =
     (case hosts of
        JObj m \<Rightarrow>
          let rows = map (\<lambda>(host, targets).
                let l = (case targets of JArr vs \<Rightarrow> map js_text vs | _ \<Rightarrow> []) in (host, l, filter (\<lambda>a. a \<in> set known) l)) m in
          if list_ex (\<lambda>(host, l, kept). length kept \<noteq> length l) rows
          then Some (concat (map (\<lambda>(host, l, kept). if kept = [] then [] else [toml_key host @ '' = '' @ toml_list kept]) rows))
          else None
      | _ \<Rightarrow> None)"

definition velocity_doc :: "(string \<Rightarrow> jsval option) \<Rightarrow> string \<Rightarrow> velocity_network \<Rightarrow> toml" where
  "velocity_doc toml text net =
     (let p1 = apply_velocity_settings (set_top_level ''online-mode'' (toml_bool True) (toml_parse text)) (vn_settings net);
          p2 = set_top_level ''player-info-forwarding-mode'' (json_string (mode_text (vn_mode net))) p1;
          p3 = set_top_level ''forwarding-secret-file'' (json_string FORWARDING_SECRET_FILE) p2;
          p4 = replace_table ''servers'' (map (\<lambda>(alias, address). toml_key alias @ '' = '' @ json_string address) (vn_servers net)
                 @ [[], TRY_COMMENT, ''try = '' @ toml_list (vn_try net)]) p3 in
      case pruned_hosts (js_prop (parsed_toml toml text) ''forced-hosts'') (map fst (vn_servers net)) of
        None \<Rightarrow> p4
      | Some body \<Rightarrow> replace_table ''forced-hosts'' body p4)"

definition configure_velocity :: "(string \<Rightarrow> jsval option) \<Rightarrow> string \<Rightarrow> velocity_network \<Rightarrow> string" where
  "configure_velocity toml text net = toml_text (velocity_doc toml text net)"

end
