(* ===== verification/Velocity_Properties.thy ===== *)
theory Velocity_Properties
  imports Velocity_Config Network_Plan
begin

text \<open>
  The literals the panel writes close on their own line, so what it set is what the document says.
\<close>

section \<open>Literals\<close>

definition plain_char :: "char \<Rightarrow> bool" where
  "plain_char c \<longleftrightarrow> c \<noteq> CHR ''#'' \<and> c \<noteq> CHR ''['' \<and> c \<noteq> CHR '']'' \<and> c \<noteq> CHR 0x22 \<and> c \<noteq> CHR 0x27"

lemma scan_plain: "list_all plain_char s \<Longrightarrow> scan_line (s @ r) (d, None) = scan_line r (d, None)"
proof (induction s)
  case (Cons c s)
  then have c: "c \<noteq> CHR ''#''" "c \<noteq> CHR ''[''" "c \<noteq> CHR '']''" "c \<noteq> CHR 0x22" "c \<noteq> CHR 0x27" by (simp_all add: plain_char_def)
  then have "take 3 (c # s @ r) \<noteq> triple (CHR 0x22)" "take 3 (c # s @ r) \<noteq> triple (CHR 0x27)" by (simp_all add: triple_def)
  then show ?case using c Cons by (simp only: append_Cons scan_line.simps if_False simp_thms list.pred_inject)
qed simp

lemma hex_plain: "n < 16 \<Longrightarrow> json_hex n \<noteq> CHR 0x22 \<and> json_hex n \<noteq> CHR 0x5C"
proof -
  assume n: "n < 16"
  have "\<forall>n \<in> set [0..<16]. json_hex n \<noteq> CHR 0x22 \<and> json_hex n \<noteq> CHR 0x5C" by code_simp
  then show ?thesis using n by simp
qed

text \<open>Behind the quote of a string that was written.\<close>

lemma behind_skip: "q = CHR 0x22 \<Longrightarrow> c \<noteq> CHR 0x22 \<Longrightarrow> c \<noteq> CHR 0x5C \<Longrightarrow> s \<noteq> [] \<Longrightarrow> behind_quote q (c # s) = behind_quote q s"
  by (cases s) auto

lemma behind_escape: "behind_quote (CHR 0x22) (CHR 0x5C # c # s) = behind_quote (CHR 0x22) s"
  by simp

lemma behind_json_char:
  assumes "s \<noteq> []"
  shows "behind_quote (CHR 0x22) (json_char c @ s) = behind_quote (CHR 0x22) s"
proof -
  let ?n = "(of_char c :: nat)"
  have c: "c \<noteq> CHR 0x22 \<and> c \<noteq> CHR 0x5C" if "?n \<noteq> 34" "?n \<noteq> 92" using that by auto
  have h: "?n div 16 < 16" "?n mod 16 < 16" using nat_of_char_less_256 [of c] by (simp_all add: less_mult_imp_div_less)
  show ?thesis
  proof (cases "?n < 32 \<and> ?n \<notin> {8, 9, 10, 12, 13}")
    case True
    then have "json_char c = [CHR 0x5C, CHR ''u'', CHR ''0'', CHR ''0'', json_hex (?n div 16), json_hex (?n mod 16)]"
      by (simp add: json_char_def Let_def)
    then show ?thesis using assms hex_plain [OF h(1)] hex_plain [OF h(2)] by (simp add: behind_skip del: behind_quote.simps) (simp add: behind_skip)
  next
    case False
    then show ?thesis using assms c by (auto simp: json_char_def Let_def behind_skip simp del: behind_quote.simps(3)) (simp_all add: behind_escape)
  qed
qed

lemma behind_json: "behind_quote (CHR 0x22) (concat (map json_char s) @ CHR 0x22 # r) = r"
proof (induction s)
  case Nil
  then show ?case by (cases r) auto
next
  case (Cons c s)
  then show ?case using behind_json_char [of "concat (map json_char s) @ CHR 0x22 # r" c] by simp
qed

lemma json_char_start: "\<exists>x xs. json_char c = x # xs \<and> x \<noteq> CHR 0x22"
  by (auto simp: json_char_def Let_def)

lemma scan_json: "take 1 r \<noteq> [CHR 0x22] \<Longrightarrow> scan_line (json_string s @ r) (d, None) = scan_line r (d, None)"
proof -
  assume r: "take 1 r \<noteq> [CHR 0x22]"
  let ?t = "concat (map json_char s) @ CHR 0x22 # r"
  have "take 3 (CHR 0x22 # ?t) \<noteq> triple (CHR 0x22)"
  proof (cases s)
    case Nil
    then show ?thesis using r by (cases r) (auto simp: triple_def)
  next
    case (Cons c s')
    then show ?thesis using json_char_start [of c] by (auto simp: triple_def)
  qed
  moreover have "take 3 (CHR 0x22 # ?t) \<noteq> triple (CHR 0x27)" by (simp add: triple_def)
  moreover have "json_string s @ r = CHR 0x22 # ?t" by (simp add: json_string_def)
  ultimately show ?thesis by (simp add: behind_json del: take.simps take_Suc_Cons)
qed

lemma scan_json_end: "scan_line (json_string s) top_state = top_state"
  using scan_json [of "[]" s 0] by simp

lemma bare_plain: "bare_char c \<Longrightarrow> plain_char c \<and> \<not> is_space c"
  by (auto simp: bare_char_def plain_char_def is_space_def is_digit_def less_eq_char_def Let_def)

definition bare_key :: "string \<Rightarrow> bool" where
  "bare_key key \<longleftrightarrow> key \<noteq> [] \<and> list_all bare_char key"

lemma toml_key_bare: "bare_key key \<Longrightarrow> toml_key key = key"
  by (auto simp: bare_key_def toml_key_def)

lemma trim_keeps_start:
  assumes "\<not> is_space c"
  shows "trim (c # s) \<noteq> [] \<and> hd (trim (c # s)) = c"
proof -
  have "trim_end (c # s) = c # rev (dropWhile is_space (rev s))"
    using assms by (simp add: trim_end_def dropWhile_append)
  then show ?thesis using assms by (simp add: trim_def trim_start_def)
qed

lemma bare_trim: "bare_key key \<Longrightarrow> trim key = key"
proof -
  assume k: "bare_key key"
  have n: "\<forall>c \<in> set key. \<not> is_space c" using k bare_plain by (auto simp: bare_key_def list_all_iff)
  have d: "dropWhile is_space xs = xs" if "\<forall>c \<in> set xs. \<not> is_space c" for xs using that by (cases xs) auto
  show ?thesis using d [of key] d [of "rev key"] n by (simp add: trim_def trim_start_def trim_end_def)
qed

lemma bare_entry:
  assumes "bare_key key" and "scan_line lit top_state = top_state"
  shows "entry_line (key @ '' = '' @ lit) key"
proof -
  obtain c r where key: "key = c # r" using assms(1) by (auto simp: bare_key_def neq_Nil_conv)
  have c: "plain_char c" "\<not> is_space c" "bare_char c" using assms(1) key bare_plain by (auto simp: bare_key_def)
  let ?line = "key @ '' = '' @ lit"
  have p: "list_all plain_char (key @ '' = '')" using assms(1) bare_plain by (auto simp: bare_key_def list_all_iff plain_char_def)
  have "scan_line ?line top_state = top_state" using scan_plain [OF p, of lit 0] assms(2) by simp
  moreover have "header_name ?line = None" using c key by (simp add: header_name_def trim_start_def plain_char_def)
  moreover have "toml_line_key ?line = Some key"
  proof -
    have start: "trim ?line \<noteq> []" "hd (trim ?line) \<noteq> CHR ''#''"
      using trim_keeps_start [OF c(2), of "r @ '' = '' @ lit"] c(1) key by (simp_all add: plain_char_def)
    have t: "trim_start ?line = ?line" using c(2) key by (simp add: trim_start_def)
    have sp: "\<not> (bare_char CHR '' '' \<or> CHR '' '' = CHR ''.'')" by code_simp
    have b: "\<forall>x \<in> set key. bare_char x \<or> x = CHR ''.''" using assms(1) by (simp add: bare_key_def list_all_iff)
    have tw: "takeWhile (\<lambda>x. bare_char x \<or> x = CHR ''.'') ?line = key"
      using sp takeWhile_append2 [of key "\<lambda>x. bare_char x \<or> x = CHR ''.''" "'' = '' @ lit"] b by simp
    have "c \<noteq> CHR 0x22" "c \<noteq> CHR 0x27" using c(1) by (simp_all add: plain_char_def)
    then have tok: "key_token ?line = Some (key, '' = '' @ lit)"
      using tw key by (auto simp: key_token_def Let_def)
    have uq: "unquote_key key = key" using bare_trim [OF assms(1)] c(1) key by (auto simp: unquote_key_def Let_def is_quote_def plain_char_def)
    have "\<not> is_space CHR ''=''" "is_space CHR '' ''" by code_simp+
    then have "take 1 (trim_start ('' = '' @ lit)) = ''=''" by (simp add: trim_start_def)
    then show ?thesis using start t tok uq by (simp add: toml_line_key_def key_of_def)
  qed
  ultimately show ?thesis by (simp add: entry_line_def)
qed

lemma literal_closed: "setting_literal v spec = Some lit \<Longrightarrow> scan_line lit top_state = top_state"
proof -
  assume "setting_literal v spec = Some lit"
  then consider s where "lit = json_string s" | b where "lit = toml_bool b" | n where "lit = int_text n"
    by (auto simp: setting_literal_def split: if_splits jsval.splits)
  then show ?thesis
  proof cases
    case 1
    then show ?thesis using scan_json_end by simp
  next
    case (2 b)
    have "list_all plain_char (toml_bool b)" by (cases b) (simp_all add: toml_bool_def plain_char_def)
    then show ?thesis using 2 scan_plain [of lit "[]" 0] by simp
  next
    case (3 n)
    have d: "is_digit c \<Longrightarrow> plain_char c" for c by (auto simp: is_digit_def plain_char_def)
    have "list_all plain_char (digits k)" for k using digits_digits [of k] d by (auto simp: list_all_iff)
    then have "list_all plain_char (int_text n)" by (simp add: int_text_def plain_char_def)
    then show ?thesis using 3 scan_plain [of lit "[]" 0] by simp
  qed
qed

section \<open>Settings\<close>

definition good_spec :: "setting_spec \<Rightarrow> bool" where
  "good_spec spec \<longleftrightarrow> bare_key (vs_key spec) \<and>
     (case vs_table spec of None \<Rightarrow> True | Some n \<Rightarrow> header_name (''['' @ n @ '']'') = Some n)"

lemma specs_good: "list_all (\<lambda>ns. good_spec (snd ns)) velocity_settings"
  by code_simp

lemma specs_apart: "distinct (map (\<lambda>ns. (vs_table (snd ns), vs_key (snd ns))) velocity_settings)"
  by code_simp

definition setting_line :: "(string, jsval) jsmap \<Rightarrow> string \<times> setting_spec \<Rightarrow> string option" where
  "setting_line settings ns =
     (case jget settings (fst ns) of None \<Rightarrow> None
      | Some v \<Rightarrow> map_option (\<lambda>lit. vs_key (snd ns) @ '' = '' @ lit) (setting_literal v (snd ns)))"

lemma put_setting_get:
  assumes "good_spec (snd ns)" and "behind (tm_lines p) top_state = top_state"
  shows "toml_get t k (tm_lines (put_setting settings ns p)) =
      (if t = vs_table (snd ns) \<and> k = vs_key (snd ns) \<and> setting_line settings ns \<noteq> None
       then Some [the (setting_line settings ns)] else toml_get t k (tm_lines p))"
    and "behind (tm_lines (put_setting settings ns p)) top_state = top_state"
proof -
  have "(toml_get t k (tm_lines (put_setting settings ns p)) =
      (if t = vs_table (snd ns) \<and> k = vs_key (snd ns) \<and> setting_line settings ns \<noteq> None
       then Some [the (setting_line settings ns)] else toml_get t k (tm_lines p)))
    \<and> behind (tm_lines (put_setting settings ns p)) top_state = top_state"
  proof (cases "jget settings (fst ns)")
    case None
    then show ?thesis using assms by (simp add: put_setting_def setting_line_def)
  next
    case (Some v)
    show ?thesis
    proof (cases "setting_literal v (snd ns)")
      case None
      then show ?thesis using Some assms by (simp add: put_setting_def setting_line_def)
    next
      case lit: (Some lit)
      let ?k = "vs_key (snd ns)"
      have bare: "bare_key ?k" using assms(1) by (simp add: good_spec_def)
      note key = toml_key_bare [OF bare]
      have line: "entry_line (toml_key ?k @ '' = '' @ lit) ?k"
        using bare_entry [OF bare literal_closed [OF lit]] key by simp
      have tbl: "\<forall>n. vs_table (snd ns) = Some n \<longrightarrow> header_name (''['' @ n @ '']'') = Some n"
        using assms(1) by (simp add: good_spec_def split: option.splits)
      define p' where "p' = (case vs_table (snd ns) of None \<Rightarrow> set_top_level ?k lit p | Some n \<Rightarrow> set_in_table n ?k lit p)"
      have "put_setting settings ns p = p'" using Some lit by (simp add: put_setting_def p'_def split: option.split)
      moreover have "setting_line settings ns = Some (?k @ '' = '' @ lit)" using Some lit by (simp add: setting_line_def)
      moreover have "toml_get t k (tm_lines p') = (if t = vs_table (snd ns) \<and> k = ?k then Some [?k @ '' = '' @ lit] else toml_get t k (tm_lines p))
          \<and> behind (tm_lines p') top_state = top_state"
      proof (cases "vs_table (snd ns)")
        case None
        then show ?thesis using set_top_get [OF line] assms(2) key by (simp add: p'_def)
      next
        case (Some n)
        show ?thesis
        proof (cases "table_body n (tm_lines p) top_state = None")
          case True
          then show ?thesis using append_table_get [OF line True assms(2)] Some tbl key by (simp add: p'_def)
        next
          case False
          then show ?thesis using set_table_get [OF line False] Some assms(2) key by (simp add: p'_def)
        qed
      qed
      ultimately show ?thesis by simp
    qed
  qed
  then show "toml_get t k (tm_lines (put_setting settings ns p)) =
      (if t = vs_table (snd ns) \<and> k = vs_key (snd ns) \<and> setting_line settings ns \<noteq> None
       then Some [the (setting_line settings ns)] else toml_get t k (tm_lines p))"
    "behind (tm_lines (put_setting settings ns p)) top_state = top_state" by blast+
qed

lemma fold_settings:
  assumes "list_all (\<lambda>ns. good_spec (snd ns)) specs" and "distinct (map (\<lambda>ns. (vs_table (snd ns), vs_key (snd ns))) specs)"
    and "behind (tm_lines p) top_state = top_state"
  defines "place \<equiv> \<lambda>ns. (vs_table (snd ns), vs_key (snd ns))"
  shows "behind (tm_lines (fold (put_setting settings) specs p)) top_state = top_state
    \<and> (\<forall>ns \<in> set specs. \<forall>l. setting_line settings ns = Some l \<longrightarrow>
      toml_get (fst (place ns)) (snd (place ns)) (tm_lines (fold (put_setting settings) specs p)) = Some [l])
    \<and> (\<forall>t k. (t, k) \<notin> place ` set specs \<longrightarrow>
      toml_get t k (tm_lines (fold (put_setting settings) specs p)) = toml_get t k (tm_lines p))"
  using assms(1-3)
proof (induction specs arbitrary: p)
  case (Cons x specs)
  have x: "good_spec (snd x)" using Cons.prems(1) by simp
  let ?p = "put_setting settings x p"
  note put = put_setting_get [OF x Cons.prems(3)]
  have IH: "behind (tm_lines (fold (put_setting settings) specs ?p)) top_state = top_state"
    "\<forall>ns \<in> set specs. \<forall>l. setting_line settings ns = Some l \<longrightarrow>
      toml_get (fst (place ns)) (snd (place ns)) (tm_lines (fold (put_setting settings) specs ?p)) = Some [l]"
    "\<forall>t k. (t, k) \<notin> place ` set specs \<longrightarrow>
      toml_get t k (tm_lines (fold (put_setting settings) specs ?p)) = toml_get t k (tm_lines ?p)"
    using Cons.IH [of ?p] Cons.prems(1,2) put(2) by simp_all
  have apart: "place x \<notin> place ` set specs" using Cons.prems(2) by (simp add: place_def)
  have "toml_get (fst (place x)) (snd (place x)) (tm_lines (fold (put_setting settings) specs ?p)) = Some [l]"
    if "setting_line settings x = Some l" for l
    using IH(3) [rule_format, of "fst (place x)" "snd (place x)"] apart put(1) that by (simp add: place_def)
  moreover have "toml_get t k (tm_lines (fold (put_setting settings) specs ?p)) = toml_get t k (tm_lines p)"
    if "(t, k) \<notin> place ` set (x # specs)" for t k
    using IH(3) [rule_format, of t k] put(1) [of t k] that by (auto simp: place_def)
  ultimately show ?case using IH(1,2) by auto
qed simp

section \<open>The whole file\<close>

lemma scan_key: "scan_line (toml_key key @ '' = '' @ r) (d, None) = scan_line r (d, None)"
proof (cases "bare_key key")
  case True
  then have "list_all plain_char (key @ '' = '')" using bare_plain by (auto simp: bare_key_def list_all_iff plain_char_def)
  then show ?thesis using scan_plain [of "key @ '' = ''" r d] toml_key_bare [OF True] by simp
next
  case False
  then have "toml_key key = json_string key" by (auto simp: toml_key_def bare_key_def)
  then show ?thesis using scan_json [of "'' = '' @ r" key d] scan_plain [of "'' = ''" r d] by (simp add: plain_char_def)
qed

lemma key_no_header: "header_name (toml_key key @ r) = None"
proof (cases "bare_key key")
  case True
  then obtain c s where k: "key = c # s" "plain_char c" "\<not> is_space c" using bare_plain by (cases key) (auto simp: bare_key_def)
  then show ?thesis using toml_key_bare [OF True] by (simp add: header_name_def trim_start_def plain_char_def)
next
  case False
  then have "toml_key key = json_string key" by (auto simp: toml_key_def bare_key_def)
  moreover have "\<not> is_space CHR 0x22" by code_simp
  ultimately show ?thesis by (simp add: json_string_def header_name_def trim_start_def)
qed

lemma scan_items:
  assumes "vs \<noteq> []"
  shows "scan_line (join ('','' @ [CHR 0x0A]) (map (\<lambda>v. ''    '' @ json_string v) vs) @ CHR 0x0A # r) (d, None) = scan_line (CHR 0x0A # r) (d, None)"
  using assms
proof (induction vs)
  case (Cons v vs)
  have sp: "scan_line (''    '' @ json_string v @ x) (d, None) = scan_line x (d, None)" if "take 1 x \<noteq> [CHR 0x22]" for x
    using scan_plain [of "''    ''" "json_string v @ x" d] scan_json [OF that, of v d] by (simp add: plain_char_def)
  show ?case
  proof (cases "vs = []")
    case True
    then show ?thesis using sp [of "CHR 0x0A # r"] by simp
  next
    case False
    let ?j = "join ('','' @ [CHR 0x0A]) (map (\<lambda>v. ''    '' @ json_string v) vs)"
    have "scan_line ('','' @ [CHR 0x0A] @ ?j @ CHR 0x0A # r) (d, None) = scan_line (?j @ CHR 0x0A # r) (d, None)"
      using scan_plain [of "'','' @ [CHR 0x0A]" "?j @ CHR 0x0A # r" d] by (simp add: plain_char_def)
    then show ?thesis using False Cons.IH sp [of "'','' @ [CHR 0x0A] @ ?j @ CHR 0x0A # r"] by (simp add: join_Cons)
  qed
qed simp

lemma scan_list: "scan_line (toml_list vs) top_state = top_state"
proof -
  have step: "scan_line (CHR ''['' # s) (d, None) = scan_line s (d + 1, None)" "scan_line (CHR '']'' # s) (d, None) = scan_line s (d - 1, None)"
    "scan_line (CHR 0x0A # s) (d, None) = scan_line s (d, None)" for s d
    by (simp_all add: triple_def)
  show ?thesis
  proof (cases "vs = []")
    case True
    then show ?thesis using step(1) [of "'']''" 0] step(2) [of "[]" 1] by (simp add: toml_list_def del: scan_line.simps(3))
  next
    case False
    then have "toml_list vs = CHR ''['' # CHR 0x0A # join ('','' @ [CHR 0x0A]) (map (\<lambda>v. ''    '' @ json_string v) vs) @ CHR 0x0A # '']''"
      by (simp add: toml_list_def)
    then show ?thesis using scan_items [OF False, of "'']''" 1] step [of _ 0] step [of _ 1]
      by (simp del: scan_line.simps(3))
  qed
qed

lemma body_ok:
  assumes "\<forall>l \<in> set body. header_name l = None \<and> scan_line l top_state = top_state"
  shows "no_header body top_state" "scans body top_state = top_state"
proof -
  have "no_header body top_state \<and> scans body top_state = top_state"
    using assms by (induction body) (simp_all add: header_here_def)
  then show "no_header body top_state" "scans body top_state = top_state" by blast+
qed

definition server_lines :: "velocity_network \<Rightarrow> string list" where
  "server_lines net = map (\<lambda>(alias, address). toml_key alias @ '' = '' @ json_string address) (vn_servers net)
     @ [[], TRY_COMMENT, ''try = '' @ toml_list (vn_try net)]"

lemma server_lines_ok: "no_header (server_lines net) top_state" "scans (server_lines net) top_state = top_state"
proof -
  have e: "header_name [] = None" by (simp add: header_name_def trim_start_def)
  have c: "header_name TRY_COMMENT = None" "scan_line TRY_COMMENT top_state = top_state"
    by (simp_all add: header_name_def trim_start_def TRY_COMMENT_def is_space_def Let_def)
  have t: "toml_key ''try'' = ''try''" by code_simp
  have "header_name (''try = '' @ toml_list (vn_try net)) = None" "scan_line (''try = '' @ toml_list (vn_try net)) top_state = top_state"
    using key_no_header [of "''try''" "'' = '' @ toml_list (vn_try net)"] scan_key [of "''try''" "toml_list (vn_try net)" 0] scan_list
    unfolding t by simp_all
  then show "no_header (server_lines net) top_state" "scans (server_lines net) top_state = top_state"
    by (intro body_ok; use e c key_no_header scan_key scan_json_end in \<open>auto simp: server_lines_def\<close>)+
qed

lemma host_lines_ok:
  assumes "pruned_hosts hosts known = Some body"
  shows "no_header body top_state" "scans body top_state = top_state"
proof -
  have "\<forall>l \<in> set body. \<exists>host kept. l = toml_key host @ '' = '' @ toml_list kept"
    using assms by (auto simp: pruned_hosts_def Let_def simp del: append_Cons append.simps split: jsval.splits if_splits) blast+
  then have "\<forall>l \<in> set body. header_name l = None \<and> scan_line l top_state = top_state"
    using key_no_header scan_key scan_list by fastforce
  then show "no_header body top_state" "scans body top_state = top_state" using body_ok by blast+
qed

lemma top_line_get:
  assumes "bare_key key" and "scan_line lit top_state = top_state"
  shows "toml_get t k (tm_lines (set_top_level key lit p)) = (if t = None \<and> k = key then Some [key @ '' = '' @ lit] else toml_get t k (tm_lines p))"
    and "behind (tm_lines (set_top_level key lit p)) top_state = behind (tm_lines p) top_state"
  using set_top_get [of key lit, unfolded toml_key_bare [OF assms(1)], OF bare_entry [OF assms]] by simp_all

section \<open>Properties\<close>

text \<open>The keys the panel writes itself.\<close>

definition panel_entry :: "velocity_network \<Rightarrow> string option \<Rightarrow> string \<Rightarrow> bool" where
  "panel_entry net t k \<longleftrightarrow> t = Some ''servers'' \<or> t = Some ''forced-hosts''
     \<or> t = None \<and> k \<in> {''online-mode'', ''player-info-forwarding-mode'', ''forwarding-secret-file''}
     \<or> (t, k) \<in> (\<lambda>ns. (vs_table (snd ns), vs_key (snd ns))) ` set velocity_settings"


section \<open>Examples\<close>

definition ex_net :: velocity_network where
  "ex_net = \<lparr>vn_mode = NetModern, vn_servers = [(''try'', ''127.0.0.1:1'')], vn_try = [''try''],
     vn_settings = [(''motd'', JStr ''a # [b]'')]\<rparr>"

definition ex_toml :: string where
  "ex_toml = ''motd = 1'' @ [CHR 0x0A] @ ''x = 2 # y'' @ [CHR 0x0A] @ ''[query]'' @ [CHR 0x0A] @ ''port = 3''"

lemma ex_toml_closed: "behind (tm_lines (toml_parse ex_toml)) top_state = top_state"
  by code_simp


text \<open>
  A server named \<open>try\<close> gets that name as its alias, and the table of the servers then has the key
  twice: once for the server, once for the order.
\<close>

lemma try_alias_collides:
  "alias_for (\<lambda>s. s) ''try'' [] = Some ''try''"
  "map fst (filter (\<lambda>b. fst b = ''try'') (blocks (the (table_body ''servers'' (tm_lines (velocity_doc (\<lambda>_. None) ex_toml ex_net)) top_state)))) = [''try'', ''try'']"
  by code_simp+

end
